(* ===== verification/Prelude.thy ===== *)
theory Prelude
  imports Main "HOL-Library.Word" "HOL-Library.Monad_Syntax"
begin

text \<open>
  What every component of the library shares: the machine types of the driver, the ring and
  sequence number arithmetic of osdep.h and wifi_drv_main.h, the little- and big-endian readers
  of wifi_debug.c, and the generic facts about remainders, lists and options that the component
  proofs use.  A C int is an Isabelle \<^verbatim>\<open>int\<close>; an unsigned short held in a state is an int
  with its wrap at 65536 written out; bytes and wire words are machine words.
\<close>

unbundle bit_operations_syntax

named_theorems ring_arith \<open>ring and sequence number arithmetic\<close>
named_theorems rx_simps \<open>effect of the receive reordering operations on the scoreboard fields\<close>
named_theorems tx_simps \<open>effect of the transmit block-ack operations on the scoreboard fields\<close>

type_synonym u8 = "8 word"
type_synonym u16 = "16 word"
type_synonym u32 = "32 word"
type_synonym u64 = "64 word"

text \<open>The memory at a frame or element pointer: a byte at every offset.\<close>
type_synonym bytes = "nat \<Rightarrow> u8"

section \<open>Ring and sequence number arithmetic\<close>

text \<open>osdep.h: the three ring macros.  The increment and decrement are those of an unsigned
  short (the sequence numbers) when the variable is one, of an int (the ring indices) otherwise.\<close>

definition u16_of :: "int \<Rightarrow> int" where
  "u16_of x = x mod 65536"

definition u32_of :: "int \<Rightarrow> int" where
  "u32_of x = x mod 2 ^ 32"

definition u8_of :: "int \<Rightarrow> int" where
  "u8_of x = x mod 256"

definition CIRCLE_Add_One :: "int \<Rightarrow> int \<Rightarrow> int" where
  "CIRCLE_Add_One data n = (if data = n - 1 then 0 else data + 1)"

definition CIRCLE_Add_One_u16 :: "int \<Rightarrow> int \<Rightarrow> int" where
  "CIRCLE_Add_One_u16 data n = (if data = n - 1 then 0 else u16_of (data + 1))"

definition CIRCLE_Sub_One_u16 :: "int \<Rightarrow> int \<Rightarrow> int" where
  "CIRCLE_Sub_One_u16 data n = (if data = 0 then u16_of (n - 1) else u16_of (data - 1))"

definition CIRCLE_Subtract2 :: "int \<Rightarrow> int \<Rightarrow> int \<Rightarrow> int" where
  "CIRCLE_Subtract2 a b l = (if a > b then a - b else l + a - b)"

definition CIRCLE_Addition2 :: "int \<Rightarrow> int \<Rightarrow> int \<Rightarrow> int" where
  "CIRCLE_Addition2 a b l = (if a + b < l then a + b else a + b - l)"

abbreviation (input) WIFINET_SEQ_MAX :: int where "WIFINET_SEQ_MAX \<equiv> 4096"
abbreviation (input) DRV_TID_MAX_BUFS :: int where "DRV_TID_MAX_BUFS \<equiv> 128"

text \<open>wifi_drv_main.h: the offset of a sequence number in a window, the test for the window and
  the padding of an A-MPDU subframe.  Note that the test accepts the offset \<^verbatim>\<open>bawsz\<close> itself.\<close>

definition DRV_BA_INDEX :: "int \<Rightarrow> int \<Rightarrow> int" where
  "DRV_BA_INDEX st seq = ((seq - st) AND (WIFINET_SEQ_MAX - 1))"

definition BAW_WITHIN :: "int \<Rightarrow> int \<Rightarrow> int \<Rightarrow> bool" where
  "BAW_WITHIN start bawsz seqno = ((u16_of (seqno - start) AND 4095) \<le> bawsz)"

definition PADBYTES :: "nat \<Rightarrow> nat" where
  "PADBYTES len = (4 - len mod 4) mod 4"

definition DRV_AGGR_GET_NDELIM :: "nat \<Rightarrow> nat" where
  "DRV_AGGR_GET_NDELIM len = (if len + 4 < 256 then 256 - len - 4 else 0) div 4"

lemma and_4095 [ring_arith, simp]: "(x::int) AND 4095 = x mod 4096"
  using take_bit_eq_mask [of 12 x] by (simp add: take_bit_eq_mod mask_eq_exp_minus_1)

lemma and_127 [ring_arith, simp]: "(x::int) AND 127 = x mod 128"
  using take_bit_eq_mask [of 7 x] by (simp add: take_bit_eq_mod mask_eq_exp_minus_1)

lemma and_15 [ring_arith, simp]: "(x::int) AND 15 = x mod 16"
  using take_bit_eq_mask [of 4 x] by (simp add: take_bit_eq_mod mask_eq_exp_minus_1)

lemma mod_mod_4096 [simp]: "(x mod 65536) mod 4096 = (x::int) mod 4096"
  by (simp add: mod_mod_cancel)

lemma DRV_BA_INDEX_mod [ring_arith]: "DRV_BA_INDEX st seq = (seq - st) mod 4096"
  by (simp add: DRV_BA_INDEX_def)

lemma BAW_WITHIN_mod [ring_arith]: "BAW_WITHIN st n seq \<longleftrightarrow> (seq - st) mod 4096 \<le> n"
  by (simp add: BAW_WITHIN_def u16_of_def)

lemma DRV_BA_INDEX_range [simp]: "0 \<le> DRV_BA_INDEX st seq" "DRV_BA_INDEX st seq < 4096"
  by (simp_all add: DRV_BA_INDEX_mod)

lemma CIRCLE_Add_One_mod [ring_arith]:
  "0 \<le> x \<Longrightarrow> x < n \<Longrightarrow> CIRCLE_Add_One x n = (x + 1) mod n"
  by (cases "x = n - 1") (simp_all add: CIRCLE_Add_One_def)

lemma CIRCLE_Add_One_u16_mod [ring_arith]:
  "0 \<le> x \<Longrightarrow> x < n \<Longrightarrow> n \<le> 65536 \<Longrightarrow> CIRCLE_Add_One_u16 x n = (x + 1) mod n"
  by (cases "x = n - 1") (simp_all add: CIRCLE_Add_One_u16_def u16_of_def)

lemma CIRCLE_Addition2_mod [ring_arith]:
  assumes "0 \<le> a" "a < n" "0 \<le> b" "b \<le> n"
  shows "CIRCLE_Addition2 a b n = (a + b) mod n"
proof (cases "a + b < n")
  case True
  with assms show ?thesis by (simp add: CIRCLE_Addition2_def)
next
  case False
  then have "(a + b) mod n = (a + b - n) mod n" by simp
  also have "\<dots> = a + b - n" using assms False by (intro mod_pos_pos_trivial) auto
  finally show ?thesis using False by (simp add: CIRCLE_Addition2_def)
qed

lemma mod_add_offset_inj [ring_arith]:
  assumes "(h + a) mod n = (h + b) mod (n::int)" "0 \<le> a" "a < n" "0 \<le> b" "b < n"
  shows "a = b"
proof -
  have "n dvd (h + a) - (h + b)" using assms(1) by (metis mod_eq_dvd_iff)
  then have "n dvd a - b" by simp
  then show ?thesis using assms(2-) by (metis mod_eq_dvd_iff mod_pos_pos_trivial)
qed

lemma mod_offset_self [ring_arith]:
  assumes "0 \<le> (x::int)" "x < n"
  shows "(h + (x - h) mod n) mod n = x"
  using assms by (simp add: mod_simps)

section \<open>Rings seen from their head\<close>

lemma mod_diff_succ [ring_arith]:
  assumes "(a - b) mod n \<noteq> 0" "0 < (n::int)"
  shows "(a - (b + 1) mod n) mod n = (a - b) mod n - 1"
proof -
  have "0 < (a - b) mod n" using assms pos_mod_sign [of n "a - b"] by linarith
  then have "((a - b) mod n - 1) mod n = (a - b) mod n - 1" using assms(2)
    by (intro mod_pos_pos_trivial) (use pos_mod_bound [of n "a - b"] in linarith)+
  then show ?thesis by (simp add: mod_simps algebra_simps)
qed

lemma mod_diff_zero [ring_arith]:
  "0 \<le> a \<Longrightarrow> a < n \<Longrightarrow> 0 \<le> b \<Longrightarrow> b < n \<Longrightarrow> (a - b) mod n = 0 \<longleftrightarrow> a = (b::int)"
  by (metis cancel_comm_monoid_add_class.diff_cancel mod_0 mod_eq_dvd_iff mod_pos_pos_trivial
      dvd_eq_mod_eq_0)

lemma nat_ring_index:
  assumes "0 \<le> h"
  shows "nat ((h + int k) mod 128) = (nat h + k) mod 128"
proof -
  have "(h + int k) mod 128 = int ((nat h + k) mod 128)" using assms by (simp add: zmod_int)
  then show ?thesis by simp
qed

lemma nat_ring_index_gen:
  assumes "0 \<le> h"
  shows "nat ((h + int k) mod int n) = (nat h + k) mod n"
proof -
  have "(h + int k) mod int n = int (nat h + k) mod int n"
    using assms by (simp only: of_nat_add int_nat_eq if_True)
  also have "\<dots> = int ((nat h + k) mod n)" by (rule zmod_int [symmetric])
  finally show ?thesis by (simp only: nat_int)
qed

text \<open>A ring is a list indexed from a moving head: its slots in order are the rotated list.\<close>

lemma rotate_update:
  assumes "k < length ds" "h < length ds"
  shows "rotate h (ds[(h + k) mod length ds := d]) = (rotate h ds)[k := d]"
proof (rule nth_equalityI)
  fix i assume "i < length (rotate h (ds[(h + k) mod length ds := d]))"
  then have i: "i < length ds" by simp
  have m: "(h + j) mod length ds = (if h + j < length ds then h + j else h + j - length ds)"
    if "j < length ds" for j using that assms(2) by (simp add: le_mod_geq)
  have "(h + k) mod length ds = (i + h) mod length ds \<longleftrightarrow> i = k"
    using m [OF i] m [OF assms(1)] i assms by (auto simp: add.commute [of i h])
  moreover have "(h + i) mod length ds < length ds" using i by (intro mod_less_divisor) linarith
  ultimately show "rotate h (ds[(h + k) mod length ds := d]) ! i = (rotate h ds)[k := d] ! i"
    using i assms by (auto simp: nth_rotate nth_list_update add.commute)
qed simp

lemma rotate_head_succ:
  assumes "0 \<le> h" "h < int (length ds)"
  shows "rotate (nat ((h + 1) mod int (length ds))) ds = rotate1 (rotate (nat h) ds)"
proof -
  have "nat ((h + 1) mod int (length ds)) = Suc (nat h) mod length ds"
    using nat_ring_index_gen [OF assms(1), of 1 "length ds"] by simp
  then show ?thesis by (simp add: rotate_conv_mod [symmetric])
qed

section \<open>Wire readers\<close>

definition READ_16L :: "bytes \<Rightarrow> nat \<Rightarrow> u16" where
  "READ_16L f i = ucast (f i) OR push_bit 8 (ucast (f (i + 1)))"

definition READ_32L :: "bytes \<Rightarrow> nat \<Rightarrow> u32" where
  "READ_32L f i = ucast (f i) OR push_bit 8 (ucast (f (i + 1))) OR
     push_bit 16 (ucast (f (i + 2))) OR push_bit 24 (ucast (f (i + 3)))"

text \<open>Two memories that agree on the first n bytes.\<close>

definition agree_on :: "nat \<Rightarrow> bytes \<Rightarrow> bytes \<Rightarrow> bool" where
  "agree_on n f g = (\<forall>i. i < n \<longrightarrow> f i = g i)"

lemma agree_onD [dest]: "agree_on n f g \<Longrightarrow> i < n \<Longrightarrow> f i = g i"
  by (simp add: agree_on_def)

lemma agree_on_mono: "agree_on n f g \<Longrightarrow> m \<le> n \<Longrightarrow> agree_on m f g"
  by (simp add: agree_on_def)

lemma READ_16L_agree: "agree_on n f g \<Longrightarrow> i + 1 < n \<Longrightarrow> READ_16L f i = READ_16L g i"
  by (simp add: READ_16L_def agree_on_def)

lemma READ_32L_agree: "agree_on n f g \<Longrightarrow> i + 3 < n \<Longrightarrow> READ_32L f i = READ_32L g i"
  by (simp add: READ_32L_def agree_on_def)

text \<open>The access category of a traffic class: 0 is best effort, 1 background, 2 video, 3 voice.\<close>

definition TID_TO_WME_AC :: "nat \<Rightarrow> nat" where
  "TID_TO_WME_AC i = (if i = 0 \<or> i = 3 then 0 else if i = 1 \<or> i = 2 then 1
     else if i = 4 \<or> i = 5 then 2 else 3)"

section \<open>Lists and options\<close>

text \<open>Reading an array: None outside it.\<close>

definition arr :: "'a list \<Rightarrow> nat \<Rightarrow> 'a option" where
  "arr xs i = (if i < length xs then Some (xs ! i) else None)"

lemma arr_Some [simp]: "i < length xs \<Longrightarrow> arr xs i = Some (xs ! i)"
  by (simp add: arr_def)

text \<open>The values present in a list of optional ones, in order.\<close>

fun somes :: "'a option list \<Rightarrow> 'a list" where
  "somes [] = []" |
  "somes (None # xs) = somes xs" |
  "somes (Some x # xs) = x # somes xs"

lemma somes_append [simp]: "somes (xs @ ys) = somes xs @ somes ys"
  by (induction xs rule: somes.induct) auto

lemma somes_replicate_None [simp]: "somes (replicate n None) = []"
  by (induction n) auto

lemma set_somes [simp]: "x \<in> set (somes xs) \<longleftrightarrow> Some x \<in> set xs"
  by (induction xs rule: somes.induct) auto

lemma somes_eq_Nil: "somes xs = [] \<longleftrightarrow> (\<forall>x\<in>set xs. x = None)"
  by (induction xs rule: somes.induct) auto

end
