(* ===== verification/OsTimer.thy ===== *)
theory OsTimer
  imports Prelude
begin

text \<open>
  wifi_drv_timer.c: the driver's wrapper around a kernel timer.  The first section is the code
  operation by operation, in the order of the file; the kernel timer is the period it is armed
  with (None when it is not pending).  The second section interleaves the timer handler with a
  thread that cancels and starts the timer, one shared access at a time, and shows what the
  lock and the cancel flag achieve.  \<^verbatim>\<open>timer_lock\<close>, \<^verbatim>\<open>cancel_flag\<close> and \<^verbatim>\<open>active_flag\<close>
  hold only 0 and 1 and are booleans here.
\<close>

section \<open>The operations\<close>

record os_timer_ext =
  os_timer :: "int option"
  timer_lock :: bool
  cancel_flag :: bool
  active_flag :: bool
  timer_period :: int

datatype timer_flags = CANCEL_SLEEP | CANCEL_NO_SLEEP

abbreviation (input) OS_TIMER_NOT_REARMED :: int where "OS_TIMER_NOT_REARMED \<equiv> 1"
abbreviation (input) OS_TIMER_REARMED :: int where "OS_TIMER_REARMED \<equiv> 0"

text \<open>mod_timer arms (or re-arms) the kernel timer; del_timer disarms it and says whether it was
  pending.\<close>

definition OS_SET_TIMER :: "int \<Rightarrow> os_timer_ext \<Rightarrow> os_timer_ext" where
  "OS_SET_TIMER ms t = t\<lparr>os_timer := Some ms\<rparr>"

definition OS_CANCEL_TIMER :: "os_timer_ext \<Rightarrow> bool \<times> os_timer_ext" where
  "OS_CANCEL_TIMER t = (os_timer t \<noteq> None, t\<lparr>os_timer := None\<rparr>)"

text \<open>cmpxchg on the lock: the value found, and the lock set when it was the expected one.\<close>

definition cmpxchg_lock :: "bool \<Rightarrow> bool \<Rightarrow> os_timer_ext \<Rightarrow> bool \<times> os_timer_ext" where
  "cmpxchg_lock old new t =
    (timer_lock t, if timer_lock t = old then t\<lparr>timer_lock := new\<rparr> else t)"

text \<open>The handler the kernel calls, up to the call of the client's \<^verbatim>\<open>timer_handler(context)\<close>
  (which is made when the first component is true) and from its return on; other operations may
  run before, during and after the callback.  The callback may change the period.\<close>

definition handler_enter :: "os_timer_ext \<Rightarrow> bool \<times> os_timer_ext" where
  "handler_enter t =
    (let (found, t) = cmpxchg_lock False True t in
     if found then (False, t)
     else if cancel_flag t then (False, snd (cmpxchg_lock True False t))
     else (True, t))"

definition handler_leave :: "int \<Rightarrow> os_timer_ext \<Rightarrow> os_timer_ext" where
  "handler_leave r t =
    (let t = (if r = OS_TIMER_REARMED then OS_SET_TIMER (timer_period t) t
              else t\<lparr>active_flag := False\<rparr>)
     in snd (cmpxchg_lock True False t))"

text \<open>The kernel takes the timer off its queue and then calls the handler.\<close>

definition timer_expires :: "os_timer_ext \<Rightarrow> bool \<times> os_timer_ext" where
  "timer_expires t =
    (if os_timer t = None then (False, t) else handler_enter (t\<lparr>os_timer := None\<rparr>))"

datatype handler_phase = AtRest | InCallback | AfterCallback int

definition os_timer_ex_initialize :: "int \<Rightarrow> os_timer_ext" where
  "os_timer_ex_initialize period =
    \<lparr>os_timer = None, timer_lock = False, cancel_flag = False, active_flag = False,
     timer_period = period\<rparr>"

definition os_set_timer_period :: "int \<Rightarrow> os_timer_ext \<Rightarrow> os_timer_ext" where
  "os_set_timer_period period t = t\<lparr>timer_period := period mod 2 ^ 32\<rparr>"

definition os_timer_ex_start :: "os_timer_ext \<Rightarrow> os_timer_ext" where
  "os_timer_ex_start t =
    (let t = t\<lparr>active_flag := True, cancel_flag := False\<rparr> in OS_SET_TIMER (timer_period t) t)"

definition os_timer_ex_start_period :: "int \<Rightarrow> os_timer_ext \<Rightarrow> os_timer_ext" where
  "os_timer_ex_start_period period t = os_timer_ex_start (os_set_timer_period period t)"

text \<open>The wait of the cancelling thread.  \<^verbatim>\<open>held k\<close> says whether the lock is held by the handler
  when the (k+1)-th compare-and-exchange is made; the loop gives up after 1001 failures.\<close>

function cancel_wait :: "(nat \<Rightarrow> bool) \<Rightarrow> nat \<Rightarrow> os_timer_ext \<Rightarrow> os_timer_ext" where
  "cancel_wait held tick t =
    (if held tick then (if tick > 1000 then t else cancel_wait held (tick + 1) t)
     else t\<lparr>timer_lock := True\<rparr>)"
  by pat_completeness auto
termination by (relation "measure (\<lambda>(_, tick, _). 1002 - tick)") auto

declare cancel_wait.simps [simp del]

definition os_timer_ex_cancel :: "(nat \<Rightarrow> bool) \<Rightarrow> timer_flags \<Rightarrow> os_timer_ext \<Rightarrow> bool \<times> os_timer_ext"
where
  "os_timer_ex_cancel held flags t =
    (let t = t\<lparr>cancel_flag := True\<rparr> in
     if \<not> active_flag t then (True, t)
     else let t = cancel_wait held 0 t;
              (pending, t) = OS_CANCEL_TIMER t;
              t = t\<lparr>active_flag := False\<rparr>
          in (pending, snd (cmpxchg_lock True False t)))"

definition os_timer_ex_active :: "os_timer_ext \<Rightarrow> bool" where
  "os_timer_ex_active t = active_flag t"

definition os_timer_ex_del :: "(nat \<Rightarrow> bool) \<Rightarrow> timer_flags \<Rightarrow> os_timer_ext \<Rightarrow> bool \<times> os_timer_ext"
where
  "os_timer_ex_del held flags t =
    (if os_timer_ex_active t then os_timer_ex_cancel held flags t else (True, t))"

text \<open>The calls of a client that runs while the lock does not change hands: no handler is under
  way, or one is that waits for the caller or for its processor, and the caller gives up.\<close>

abbreviation timer_cancel :: "os_timer_ext \<Rightarrow> os_timer_ext" where
  "timer_cancel t \<equiv> snd (os_timer_ex_cancel (\<lambda>_. timer_lock t) CANCEL_NO_SLEEP t)"

abbreviation timer_del :: "os_timer_ext \<Rightarrow> os_timer_ext" where
  "timer_del t \<equiv> snd (os_timer_ex_del (\<lambda>_. timer_lock t) CANCEL_NO_SLEEP t)"

section \<open>Sequential behaviour\<close>

text \<open>A timer at rest: the lock is free, it is active exactly when the kernel timer is armed, and
  an active timer is not marked cancelled.\<close>

definition timer_ok :: "os_timer_ext \<Rightarrow> bool" where
  "timer_ok t \<longleftrightarrow> \<not> timer_lock t \<and> (active_flag t \<longleftrightarrow> os_timer t \<noteq> None) \<and>
     (active_flag t \<longrightarrow> \<not> cancel_flag t)"

lemma cancel_wait_lock: "cancel_wait held k t = t \<or> cancel_wait held k t = t\<lparr>timer_lock := True\<rparr>"
proof (induction held k t rule: cancel_wait.induct)
  case (1 held k t)
  then show ?case by (subst (1 2) cancel_wait.simps) simp
qed

lemma cancel_wait_other_fields [simp]:
  "os_timer (cancel_wait held k t) = os_timer t"
  "active_flag (cancel_wait held k t) = active_flag t"
  "cancel_flag (cancel_wait held k t) = cancel_flag t"
  "timer_period (cancel_wait held k t) = timer_period t"
  by (rule disjE [OF cancel_wait_lock [of held k t]]; simp)+

lemma timer_ok_initialize [simp]: "timer_ok (os_timer_ex_initialize p)"
  by (simp add: timer_ok_def os_timer_ex_initialize_def)

lemma timer_ok_start: "timer_ok t \<Longrightarrow> timer_ok (os_timer_ex_start t)"
  by (simp add: timer_ok_def os_timer_ex_start_def OS_SET_TIMER_def Let_def)

lemma timer_ok_period: "timer_ok (os_set_timer_period p t) = timer_ok t"
  by (simp add: timer_ok_def os_set_timer_period_def)

lemma cancel_result:
  assumes "timer_ok t"
  shows "os_timer (snd (os_timer_ex_cancel held fl t)) = None"
    "\<not> active_flag (snd (os_timer_ex_cancel held fl t))"
    "\<not> timer_lock (snd (os_timer_ex_cancel held fl t))"
  using assms
  by (simp_all add: os_timer_ex_cancel_def timer_ok_def OS_CANCEL_TIMER_def cmpxchg_lock_def Let_def)

lemma cancel_flag_set: "cancel_flag (snd (os_timer_ex_cancel held fl t))"
  by (simp add: os_timer_ex_cancel_def OS_CANCEL_TIMER_def cmpxchg_lock_def Let_def)

lemma timer_ok_cancel: "timer_ok t \<Longrightarrow> timer_ok (snd (os_timer_ex_cancel held fl t))"
  using cancel_result [of t held fl] by (simp add: timer_ok_def)

lemmas cancel_inactive = cancel_result(2)

text \<open>The kernel will run the handler, and it will run the callback.\<close>

definition timer_serves :: "os_timer_ext \<Rightarrow> bool" where
  "timer_serves tm \<longleftrightarrow> os_timer tm \<noteq> None \<and> \<not> timer_lock tm \<and> \<not> cancel_flag tm"

lemma start_fields:
  "active_flag (os_timer_ex_start tm)" "os_timer (os_timer_ex_start tm) \<noteq> None"
  "\<not> cancel_flag (os_timer_ex_start tm)" "timer_lock (os_timer_ex_start tm) = timer_lock tm"
  by (simp_all add: os_timer_ex_start_def OS_SET_TIMER_def Let_def)

lemma cancel_fields:
  "\<not> active_flag (snd (os_timer_ex_cancel held fl tm))"
  "\<not> timer_lock tm \<Longrightarrow> \<not> timer_lock (snd (os_timer_ex_cancel held fl tm))"
  by (auto simp: os_timer_ex_cancel_def OS_CANCEL_TIMER_def cmpxchg_lock_def Let_def)

lemma leave_fields:
  "active_flag (handler_leave r tm) \<longleftrightarrow> r = OS_TIMER_REARMED \<and> active_flag tm"
  "os_timer (handler_leave r tm) = (if r = OS_TIMER_REARMED then Some (timer_period tm) else os_timer tm)"
  "cancel_flag (handler_leave r tm) = cancel_flag tm" "\<not> timer_lock (handler_leave r tm)"
  by (simp_all add: handler_leave_def OS_SET_TIMER_def cmpxchg_lock_def Let_def)

lemma timer_ok_del: "timer_ok t \<Longrightarrow> timer_ok (snd (os_timer_ex_del held fl t))"
  by (simp add: os_timer_ex_del_def timer_ok_cancel)

lemma del_inactive: "timer_ok t \<Longrightarrow> \<not> active_flag (snd (os_timer_ex_del held fl t))"
  by (simp add: os_timer_ex_del_def os_timer_ex_active_def cancel_inactive)

lemma start_active [simp]: "active_flag (os_timer_ex_start t)"
  by (simp add: os_timer_ex_start_def OS_SET_TIMER_def Let_def)

lemma start_armed [simp]: "os_timer (os_timer_ex_start t) = Some (timer_period t)"
  by (simp add: os_timer_ex_start_def OS_SET_TIMER_def Let_def)

lemma set_period_fields [simp]:
  "active_flag (os_set_timer_period p t) = active_flag t"
  "os_timer (os_set_timer_period p t) = os_timer t"
  "timer_lock (os_set_timer_period p t) = timer_lock t"
  "cancel_flag (os_set_timer_period p t) = cancel_flag t"
  "timer_period (os_set_timer_period p t) = p mod 2 ^ 32"
  by (simp_all add: os_set_timer_period_def)

text \<open>What a client of the timer may rely on, as an interface: an arming and a disarming
  operation over a private state, with an observation of being armed.\<close>

locale timer_service =
  fixes start :: "'t \<Rightarrow> 't"
    and stop :: "'t \<Rightarrow> 't"
    and armed :: "'t \<Rightarrow> bool"
    and ok :: "'t \<Rightarrow> bool"
  assumes start_ok: "ok t \<Longrightarrow> ok (start t)"
    and stop_ok: "ok t \<Longrightarrow> ok (stop t)"
    and start_armed: "ok t \<Longrightarrow> armed (start t)"
    and stop_disarmed: "ok t \<Longrightarrow> \<not> armed (stop t)"
begin

text \<open>The discipline of the clients: arm the timer when there is work and it is not armed yet,
  disarm it when there is none.\<close>

definition follow :: "bool \<Rightarrow> 't \<Rightarrow> 't" where
  "follow work t = (if work then (if armed t then t else start t) else stop t)"

lemma follow_ok: "ok t \<Longrightarrow> ok (follow work t)"
  by (simp add: follow_def start_ok stop_ok)

lemma follow_armed: "ok t \<Longrightarrow> armed (follow work t) \<longleftrightarrow> work"
  by (simp add: follow_def start_armed stop_disarmed)

end

interpretation os_timer: timer_service os_timer_ex_start timer_cancel os_timer_ex_active timer_ok
  by unfold_locales
    (simp_all add: timer_ok_start timer_ok_cancel os_timer_ex_active_def cancel_inactive)

end
