(* ===== verification/TimerRace.thy ===== *)
theory TimerRace
  imports OsTimer
begin

text \<open>
  The timer of wifi_drv_timer.c with its two threads interleaved: the handler run by the kernel
  (os_timer_ex_handler) and a thread of the driver that starts and cancels the timer
  (os_timer_ex_start, os_timer_ex_cancel).  A step is one access to the shared object.  The
  client code starts the timer only when it finds it inactive, as drv_rx_input and
  drv_addba_req_setup do.
\<close>

datatype hpc = HIdle | HStart | HLocked | HRun | HExit

datatype cpc = CIdle | CActive | CTry nat | CDel bool | CRel | CDone | CClear | CArm

record tsys =
  tm :: os_timer_ext
  handler :: hpc
  canceller :: cpc
  gave_up :: bool

definition t_init :: "int \<Rightarrow> tsys" where
  "t_init period = \<lparr>tm = os_timer_ex_initialize period, handler = HIdle, canceller = CIdle,
     gave_up = False\<rparr>"

text \<open>The atomic steps of the handler (lines 34-60 of the file).\<close>

definition h_fire :: "tsys \<Rightarrow> tsys option" where
  "h_fire s = (if handler s = HIdle \<and> os_timer (tm s) \<noteq> None
     then Some (s\<lparr>tm := (tm s)\<lparr>os_timer := None\<rparr>, handler := HStart\<rparr>) else None)"

definition h_lock :: "tsys \<Rightarrow> tsys option" where
  "h_lock s = (if handler s = HStart
     then (let (found, t) = cmpxchg_lock False True (tm s) in
           Some (s\<lparr>tm := t, handler := (if found then HIdle else HLocked)\<rparr>)) else None)"

definition h_check :: "tsys \<Rightarrow> tsys option" where
  "h_check s = (if handler s = HLocked
     then Some (if cancel_flag (tm s)
                then s\<lparr>tm := snd (cmpxchg_lock True False (tm s)), handler := HIdle\<rparr>
                else s\<lparr>handler := HRun\<rparr>) else None)"

definition h_run :: "int \<Rightarrow> tsys \<Rightarrow> tsys option" where
  "h_run r s = (if handler s = HRun
     then Some (s\<lparr>tm := (if r = OS_TIMER_REARMED then OS_SET_TIMER (timer_period (tm s)) (tm s)
                         else (tm s)\<lparr>active_flag := False\<rparr>), handler := HExit\<rparr>) else None)"

definition h_exit :: "tsys \<Rightarrow> tsys option" where
  "h_exit s = (if handler s = HExit
     then Some (s\<lparr>tm := snd (cmpxchg_lock True False (tm s)), handler := HIdle\<rparr>) else None)"

text \<open>The atomic steps of the cancelling thread (lines 119-160), the second a failed or
  successful attempt at the lock, and the three of a start of an inactive timer (lines 102-106).
  With \<^verbatim>\<open>quiet\<close> a start is begun only while no handler is on its way; the code does not
  ensure it.\<close>

definition c_enter :: "tsys \<Rightarrow> tsys option" where
  "c_enter s = (if canceller s = CIdle
     then Some (s\<lparr>tm := (tm s)\<lparr>cancel_flag := True\<rparr>, canceller := CActive\<rparr>) else None)"

definition c_active :: "tsys \<Rightarrow> tsys option" where
  "c_active s = (if canceller s = CActive
     then Some (s\<lparr>canceller := (if active_flag (tm s) then CTry 0 else CDone)\<rparr>) else None)"

definition c_try :: "tsys \<Rightarrow> tsys option" where
  "c_try s = (case canceller s of CTry k \<Rightarrow>
       (let (found, t) = cmpxchg_lock False True (tm s) in
        Some (if \<not> found then s\<lparr>tm := t, canceller := CDel True\<rparr>
              else if k > 1000 then s\<lparr>canceller := CDel False, gave_up := True\<rparr>
              else s\<lparr>canceller := CTry (k + 1)\<rparr>))
     | _ \<Rightarrow> None)"

definition c_del :: "tsys \<Rightarrow> tsys option" where
  "c_del s = (case canceller s of CDel _ \<Rightarrow>
       Some (s\<lparr>tm := (snd (OS_CANCEL_TIMER (tm s)))\<lparr>active_flag := False\<rparr>, canceller := CRel\<rparr>)
     | _ \<Rightarrow> None)"

definition c_rel :: "tsys \<Rightarrow> tsys option" where
  "c_rel s = (if canceller s = CRel
     then Some (s\<lparr>tm := snd (cmpxchg_lock True False (tm s)), canceller := CDone\<rparr>) else None)"

definition c_return :: "tsys \<Rightarrow> tsys option" where
  "c_return s = (if canceller s = CDone then Some (s\<lparr>canceller := CIdle\<rparr>) else None)"

definition c_start :: "bool \<Rightarrow> tsys \<Rightarrow> tsys option" where
  "c_start quiet s = (if canceller s = CIdle \<and> \<not> active_flag (tm s) \<and> (quiet \<longrightarrow> handler s = HIdle)
     then Some (s\<lparr>tm := (tm s)\<lparr>active_flag := True\<rparr>, canceller := CClear\<rparr>) else None)"

definition c_clear :: "tsys \<Rightarrow> tsys option" where
  "c_clear s = (if canceller s = CClear
     then Some (s\<lparr>tm := (tm s)\<lparr>cancel_flag := False\<rparr>, canceller := CArm\<rparr>) else None)"

definition c_arm :: "tsys \<Rightarrow> tsys option" where
  "c_arm s = (if canceller s = CArm
     then Some (s\<lparr>tm := OS_SET_TIMER (timer_period (tm s)) (tm s), canceller := CIdle\<rparr>) else None)"

inductive t_step :: "bool \<Rightarrow> tsys \<Rightarrow> tsys \<Rightarrow> bool" for quiet where
  fire: "h_fire s = Some s' \<Longrightarrow> t_step quiet s s'"
| lock: "h_lock s = Some s' \<Longrightarrow> t_step quiet s s'"
| check: "h_check s = Some s' \<Longrightarrow> t_step quiet s s'"
| run: "h_run r s = Some s' \<Longrightarrow> t_step quiet s s'"
| exit: "h_exit s = Some s' \<Longrightarrow> t_step quiet s s'"
| enter: "c_enter s = Some s' \<Longrightarrow> t_step quiet s s'"
| active: "c_active s = Some s' \<Longrightarrow> t_step quiet s s'"
| attempt: "c_try s = Some s' \<Longrightarrow> t_step quiet s s'"
| disarm: "c_del s = Some s' \<Longrightarrow> t_step quiet s s'"
| release: "c_rel s = Some s' \<Longrightarrow> t_step quiet s s'"
| return: "c_return s = Some s' \<Longrightarrow> t_step quiet s s'"
| start: "c_start quiet s = Some s' \<Longrightarrow> t_step quiet s s'"
| clear: "c_clear s = Some s' \<Longrightarrow> t_step quiet s s'"
| arm: "c_arm s = Some s' \<Longrightarrow> t_step quiet s s'"

inductive t_reach :: "bool \<Rightarrow> int \<Rightarrow> tsys \<Rightarrow> bool" for quiet period where
  init: "t_reach quiet period (t_init period)"
| step: "t_reach quiet period s \<Longrightarrow> t_step quiet s s' \<Longrightarrow> t_reach quiet period s'"

lemmas t_step_defs = h_fire_def h_lock_def h_check_def h_run_def h_exit_def c_enter_def
  c_active_def c_try_def c_del_def c_rel_def c_return_def c_start_def c_clear_def c_arm_def

text \<open>The invariant of the states in which no cancelling thread has given up waiting: the lock
  is held by exactly one of the two; an inactive timer is not armed and its callback not
  running; a cancelled timer stays marked until it is started again.\<close>

definition h_owns :: "tsys \<Rightarrow> bool" where
  "h_owns s \<longleftrightarrow> handler s \<in> {HLocked, HRun, HExit}"

definition c_owns :: "tsys \<Rightarrow> bool" where
  "c_owns s \<longleftrightarrow> canceller s \<in> {CDel True, CRel}"

definition lock_inv :: "tsys \<Rightarrow> bool" where
  "lock_inv s \<longleftrightarrow> (timer_lock (tm s) \<longleftrightarrow> h_owns s \<or> c_owns s) \<and> \<not> (h_owns s \<and> c_owns s) \<and>
     canceller s \<noteq> CDel False"

definition active_inv :: "tsys \<Rightarrow> bool" where
  "active_inv s \<longleftrightarrow> (\<not> active_flag (tm s) \<longrightarrow> os_timer (tm s) = None \<and> handler s \<noteq> HRun) \<and>
     (handler s \<in> {HStart, HLocked, HRun} \<longrightarrow> os_timer (tm s) = None) \<and>
     (\<not> active_flag (tm s) \<longrightarrow> handler s \<in> {HStart, HLocked} \<longrightarrow> cancel_flag (tm s)) \<and>
     (canceller s \<notin> {CIdle, CClear, CArm} \<longrightarrow> cancel_flag (tm s)) \<and>
     (canceller s \<in> {CClear, CArm} \<longrightarrow> handler s = HIdle \<and> os_timer (tm s) = None \<and> active_flag (tm s)) \<and>
     (canceller s \<in> {CRel, CDone} \<longrightarrow> \<not> active_flag (tm s))"

lemmas t_op_defs = cmpxchg_lock_def OS_CANCEL_TIMER_def OS_SET_TIMER_def os_timer_ex_start_def

lemma lock_inv_step: "t_step quiet s s' \<Longrightarrow> \<not> gave_up s' \<Longrightarrow> lock_inv s \<Longrightarrow> lock_inv s'"
  by (erule t_step.cases;
      clarsimp simp: t_step_defs t_op_defs Let_def split: if_splits cpc.splits;
      auto simp: lock_inv_def h_owns_def c_owns_def)

lemma active_inv_step:
  "t_step True s s' \<Longrightarrow> \<not> gave_up s' \<Longrightarrow> lock_inv s \<Longrightarrow> active_inv s \<Longrightarrow> active_inv s'"
  by (erule t_step.cases;
      clarsimp simp: t_step_defs t_op_defs Let_def split: if_splits cpc.splits;
      auto simp: lock_inv_def active_inv_def h_owns_def c_owns_def)

lemma gave_up_step: "t_step quiet s s' \<Longrightarrow> gave_up s \<Longrightarrow> gave_up s'"
  by (erule t_step.cases;
      clarsimp simp: t_step_defs t_op_defs Let_def split: if_splits cpc.splits)

lemma t_reach_inv:
  "t_reach True period s \<Longrightarrow> \<not> gave_up s \<Longrightarrow> lock_inv s \<and> active_inv s"
proof (induction rule: t_reach.induct)
  case init
  show ?case by (simp add: t_init_def lock_inv_def active_inv_def h_owns_def c_owns_def
      os_timer_ex_initialize_def)
next
  case (step s s')
  then have "\<not> gave_up s" using gave_up_step by blast
  with step show ?case using lock_inv_step active_inv_step by blast
qed

section \<open>Runs\<close>

text \<open>A run is a list of steps, each of which must be enabled.\<close>

fun t_run :: "(tsys \<Rightarrow> tsys option) list \<Rightarrow> tsys \<Rightarrow> tsys option" where
  "t_run [] s = Some s" |
  "t_run (f # fs) s = (case f s of None \<Rightarrow> None | Some s' \<Rightarrow> t_run fs s')"

lemma t_run_append:
  "t_run (fs @ gs) s = (case t_run fs s of None \<Rightarrow> None | Some s' \<Rightarrow> t_run gs s')"
  by (induction fs arbitrary: s) (auto split: option.splits)

abbreviation t_ops :: "bool \<Rightarrow> (tsys \<Rightarrow> tsys option) set" where
  "t_ops quiet \<equiv> {h_fire, h_lock, h_check, h_run OS_TIMER_REARMED, h_run OS_TIMER_NOT_REARMED, h_exit,
     c_enter, c_active, c_try, c_del, c_rel, c_return, c_start quiet, c_clear, c_arm}"

lemma t_ops_step: "f \<in> t_ops quiet \<Longrightarrow> f s = Some s' \<Longrightarrow> t_step quiet s s'"
  by (auto intro: t_step.intros)

lemma t_run_reach:
  "t_run fs s = Some s' \<Longrightarrow> set fs \<subseteq> t_ops quiet \<Longrightarrow> t_reach quiet p s \<Longrightarrow> t_reach quiet p s'"
proof (induction fs arbitrary: s)
  case (Cons f fs)
  then obtain s1 where "f s = Some s1" "t_run fs s1 = Some s'" by (auto split: option.splits)
  with Cons show ?case by (meson list.set_intros(1) set_subset_Cons subsetD subset_trans
        t_ops_step t_reach.step)
qed simp

lemma give_up_run:
  assumes "canceller s = CTry k" "timer_lock (tm s)" "k \<le> 1001"
  shows "t_run (replicate (1002 - k) c_try) s =
    Some (s\<lparr>canceller := CDel False, gave_up := True\<rparr>)"
  using assms
proof (induction "1001 - k" arbitrary: s k)
  case 0
  then have "k = 1001" by simp
  with 0 show ?case by (simp add: c_try_def cmpxchg_lock_def numeral_eq_Suc)
next
  case (Suc n)
  then have "1002 - k = Suc (1002 - (k + 1))" "k \<le> 1000" by simp_all
  with Suc.prems Suc(1) [of "k + 1" "s\<lparr>canceller := CTry (k + 1)\<rparr>"] Suc(2) show ?case
    by (simp add: c_try_def cmpxchg_lock_def)
qed

section \<open>Properties\<close>

text \<open>C7: provided the timer is started only while no handler is on its way and the cancel does not
  give up waiting, a cancel leaves on its return a timer that is not armed, not active and whose
  callback is not running, wherever the handler stood when the cancel began and however the
  accesses of the two interleave.  The driver does not ensure the first condition, and without it
  the claim fails (timer_stale_handler_race).\<close>
theorem timer_cancel_effective:
  assumes "t_reach True period s" "\<not> gave_up s" "canceller s = CDone"
  shows "os_timer (tm s) = None \<and> \<not> active_flag (tm s) \<and> cancel_flag (tm s) \<and> handler s \<noteq> HRun"
  using t_reach_inv [OF assms(1,2)] assms(3) by (auto simp: active_inv_def)

lemma timer_cancel_effective_witness:
  "\<exists>s. t_run [c_start True, c_clear, c_arm, h_fire, c_enter, c_active, c_try, h_lock, c_del, c_rel] (t_init 80) = Some s \<and>
     os_timer (tm s) = None \<and> \<not> active_flag (tm s) \<and> cancel_flag (tm s) \<and> handler s \<noteq> HRun"
proof -
  let ?fs = "[c_start True, c_clear, c_arm, h_fire, c_enter, c_active, c_try, h_lock, c_del, c_rel]"
  obtain s where s: "t_run ?fs (t_init 80) = Some s" "\<not> gave_up s" "canceller s = CDone"
    by (simp add: t_step_defs t_op_defs t_init_def os_timer_ex_initialize_def Let_def)
  then have "t_reach True 80 s" using t_run_reach [OF s(1), of True] t_reach.init by simp
  from timer_cancel_effective [OF this s(2,3)] s(1) show ?thesis by auto
qed

text \<open>when the cancelling thread gives up after its 1002 attempts because the handler keeps
  the lock, the cancel returns and releases the handler's lock, and the handler can still arm the
  timer afterwards: the timer is then armed although it is marked inactive.\<close>
theorem timer_cancel_give_up_rearms:
  "\<exists>s. t_reach quiet period s \<and> gave_up s \<and> canceller s = CDone \<and>
     \<not> active_flag (tm s) \<and> os_timer (tm s) \<noteq> None"
proof -
  let ?pre = "[c_start quiet, c_clear, c_arm, h_fire, h_lock, h_check, c_enter, c_active]"
  let ?post = "[c_del, c_rel, h_run OS_TIMER_REARMED]"
  obtain s1 where s1: "t_run ?pre (t_init period) = Some s1" "canceller s1 = CTry 0"
      "timer_lock (tm s1)" "handler s1 = HRun"
    by (simp add: t_step_defs t_op_defs t_init_def os_timer_ex_initialize_def Let_def)
  have r1: "t_reach quiet period s1" using t_run_reach [OF s1(1), of quiet] t_reach.init by simp
  let ?s2 = "s1\<lparr>canceller := CDel False, gave_up := True\<rparr>"
  have "t_run (replicate 1002 c_try) s1 = Some ?s2" using give_up_run [OF s1(2,3)] by simp
  then have r2: "t_reach quiet period ?s2" by (rule t_run_reach [OF _ _ r1]) simp
  obtain s3 where s3: "t_run ?post ?s2 = Some s3" "gave_up s3" "canceller s3 = CDone"
      "\<not> active_flag (tm s3)" "os_timer (tm s3) \<noteq> None"
    using s1 by (simp add: t_step_defs t_op_defs Let_def)
  then have "t_reach quiet period s3" by (intro t_run_reach [OF s3(1) _ r2]) simp
  with s3 show ?thesis by blast
qed

text \<open>a start made between the firing of the timer and the first access of its handler lets
  a stale handler run: it can mark the restarted timer inactive while it is armed, and a later
  cancel then returns at once, without giving up, while the callback is running.\<close>
theorem timer_stale_handler_race:
  "\<exists>s. t_reach False period s \<and> \<not> gave_up s \<and> canceller s = CDone \<and> handler s = HRun"
proof -
  let ?fs = "[c_start False, c_clear, c_arm, h_fire, c_enter, c_active, c_try, c_del, c_rel, c_return, c_start False, c_clear, c_arm,
     h_lock, h_check, h_run OS_TIMER_NOT_REARMED, h_exit, h_fire, h_lock, h_check, c_enter, c_active]"
  obtain s where s: "t_run ?fs (t_init period) = Some s" "\<not> gave_up s" "canceller s = CDone"
      "handler s = HRun"
    by (simp add: t_step_defs t_op_defs t_init_def os_timer_ex_initialize_def Let_def)
  then have "t_reach False period s" using t_run_reach [OF s(1), of False] t_reach.init by simp
  with s show ?thesis by blast
qed

end
