(* ===== verification/RxReorder.thy ===== *)
theory RxReorder
  imports OsTimer
begin

text \<open>
  wifi_drv_recv.c: block-ack reordering of received frames, one scoreboard per traffic class.
  The operations in the order of the file, on the pair of the driver state they touch
  (\<^verbatim>\<open>drv_rx_priv\<close>) and a scoreboard.  A scoreboard keeps a ring of 128 descriptors
  (\<^verbatim>\<open>pRxDesc\<close>, None for the null pointer), the sequence number expected next and the ring
  indices of the first and past the last slot in use.  The upward delivery
  \<^verbatim>\<open>net_ops->wifi_mac_input\<close>, \<^verbatim>\<open>os_skb_free\<close> and the calls of the hal are entries of
  \<^verbatim>\<open>rx_log\<close>, in the order they are made.  The result None is a run that reads through the null
  pointer, outside the ring or outside the eight scoreboards, or that does not return.
\<close>

section \<open>Data\<close>

text \<open>A frame: an identity, and the memory at os_skb_data.\<close>
record sk_buff =
  skb_id :: nat
  skb_data :: bytes

record wifi_mac_rx_status =
  rs_pn :: u64
  rs_encrypt :: u8
  rs_flags :: int
  rs_rssi :: int
  rs_datarate :: int
  rs_wnet_vif_id :: int
  rs_channel :: int
  rs_keyid :: int
  rs_rate_index :: int
  channel_bw :: u32
  rs_sgi :: u32
  rs_vendor_rate_code :: u8
  rs_tstamp :: u64

definition zero_rs :: wifi_mac_rx_status where
  "zero_rs = \<lparr>rs_pn = 0, rs_encrypt = 0, rs_flags = 0, rs_rssi = 0, rs_datarate = 0,
     rs_wnet_vif_id = 0, rs_channel = 0, rs_keyid = 0, rs_rate_index = 0, channel_bw = 0,
     rs_sgi = 0, rs_vendor_rate_code = 0, rs_tstamp = 0\<rparr>"

datatype ba_role = BA_INITIATOR | BA_RESPONSER

datatype rx_event =
    MacInput sk_buff wifi_mac_rx_status
  | SkbFree sk_buff
  | ScanLeakAp sk_buff
  | HalAddbaOk int int int
  | HalDelBaOk int ba_role
  | TxAmpduDel int

record drv_rxdesc =
  rx_wbuf :: "sk_buff option"
  rx_time :: int
  rx_rs :: wifi_mac_rx_status

record wifi_mac_ba_parameterset =
  amsdusupported :: int
  bapolicy :: int
  ba_tid :: int
  buffersize :: int

record drv_rx_scoreboard =
  rx_seq_next :: int
  rx_baw_size :: int
  rx_baw_head :: int
  rx_baw_tail :: int
  seq_reset :: bool
  rx_timer :: os_timer_ext
  pRxDesc :: "drv_rxdesc list option"
  dialogtoken :: int
  statuscode :: int
  baparamset :: wifi_mac_ba_parameterset
  batimeout :: int
  userstatuscode :: int
  rx_addba_exchangecomplete :: bool

text \<open>The receive counters of drv_statistic and the rest of drv_private the file uses.\<close>
record drv_rx_priv =
  cfg_rxaggr :: bool
  rx_ampdu_cnt :: u32
  rx_bar_cnt :: u32
  rx_nonqos_cnt :: u32
  rx_dup_cnt :: u32
  rx_ok_cnt :: u32
  rx_bardrop_cnt :: u32
  rx_skipped_cnt :: u32
  rx_log :: "rx_event list"

abbreviation (input) WME_NUM_TID :: int where "WME_NUM_TID \<equiv> 8"
abbreviation (input) WME_MAX_BA :: int where "WME_MAX_BA \<equiv> 64"
abbreviation (input) DRV_RX_TIMEOUT :: int where "DRV_RX_TIMEOUT \<equiv> 80"
abbreviation (input) WIFINET_STATUS_SUCCESS :: int where "WIFINET_STATUS_SUCCESS \<equiv> 0"
abbreviation (input) WIFINET_STATUS_REFUSED :: int where "WIFINET_STATUS_REFUSED \<equiv> 37"
abbreviation (input) WIFINET_FC0_TYPE_CTL :: int where "WIFINET_FC0_TYPE_CTL \<equiv> 4"
abbreviation (input) WIFINET_FC0_TYPE_DATA :: int where "WIFINET_FC0_TYPE_DATA \<equiv> 8"

section \<open>Frame fields\<close>

definition is4addr :: "sk_buff \<Rightarrow> bool" where
  "is4addr s = (skb_data s 1 AND 3 = 3)"

definition fc0_version :: "sk_buff \<Rightarrow> u8" where
  "fc0_version s = skb_data s 0 AND 0x03"

definition fc0_type :: "sk_buff \<Rightarrow> u8" where
  "fc0_type s = skb_data s 0 AND 0x0c"

definition fc0_subtype :: "sk_buff \<Rightarrow> u8" where
  "fc0_subtype s = skb_data s 0 AND 0xf0"

definition b_mcast :: "sk_buff \<Rightarrow> bool" where
  "b_mcast s = (skb_data s 4 AND 0x01 \<noteq> 0)"

definition WIFINET_IS_BAR :: "sk_buff \<Rightarrow> bool" where
  "WIFINET_IS_BAR s = (fc0_type s = 0x04 \<and> fc0_subtype s = 0x80)"

definition qos_tid :: "sk_buff \<Rightarrow> int" where
  "qos_tid s = uint ((if is4addr s then skb_data s 30 else skb_data s 24) AND 0x0f)"

definition rxseq :: "sk_buff \<Rightarrow> int" where
  "rxseq s = uint (drop_bit 4 (READ_16L (skb_data s) 22))"

definition bar_tid :: "sk_buff \<Rightarrow> int" where
  "bar_tid s = uint (drop_bit 12 (READ_16L (skb_data s) 16 AND 0xf000))"

definition bar_seq :: "sk_buff \<Rightarrow> int" where
  "bar_seq s = uint (drop_bit 4 (READ_16L (skb_data s) 18))"

section \<open>Access to the ring\<close>

text \<open>\<^verbatim>\<open>pRxDesc + i\<close>, read and written back.\<close>

definition rxdesc :: "drv_rx_scoreboard \<Rightarrow> int \<Rightarrow> drv_rxdesc option" where
  "rxdesc t i = (case pRxDesc t of None \<Rightarrow> None
     | Some ds \<Rightarrow> if 0 \<le> i \<and> i < int (length ds) then Some (ds ! nat i) else None)"

definition set_rxdesc :: "int \<Rightarrow> drv_rxdesc \<Rightarrow> drv_rx_scoreboard \<Rightarrow> drv_rx_scoreboard" where
  "set_rxdesc i d t = t\<lparr>pRxDesc := map_option (\<lambda>ds. ds[nat i := d]) (pRxDesc t)\<rparr>"

text \<open>Taking the frame out of a slot, and passing a slot: the ring index and the sequence
  number both advance by one.\<close>

definition clear_wbuf :: "int \<Rightarrow> drv_rxdesc \<Rightarrow> drv_rx_scoreboard \<Rightarrow> drv_rx_scoreboard" where
  "clear_wbuf i d t = set_rxdesc i (d\<lparr>rx_wbuf := None\<rparr>) t"

definition pass_slot :: "drv_rx_scoreboard \<Rightarrow> drv_rx_scoreboard" where
  "pass_slot t = t\<lparr>rx_baw_head := CIRCLE_Add_One (rx_baw_head t) DRV_TID_MAX_BUFS,
     rx_seq_next := CIRCLE_Add_One_u16 (rx_seq_next t) WIFINET_SEQ_MAX\<rparr>"

definition log_rx :: "rx_event \<Rightarrow> drv_rx_priv \<Rightarrow> drv_rx_priv" where
  "log_rx e p = p\<lparr>rx_log := rx_log p @ [e]\<rparr>"

text \<open>The call of \<^verbatim>\<open>wifi_mac_input\<close> on the frame of a descriptor, when there is one.\<close>

definition upload :: "drv_rxdesc \<Rightarrow> drv_rx_priv \<Rightarrow> drv_rx_priv" where
  "upload d p = (case rx_wbuf d of None \<Rightarrow> p | Some s \<Rightarrow> log_rx (MacInput s (rx_rs d)) p)"

section \<open>ADDBA negotiation state\<close>

definition drv_set_addba_rsp :: "int \<Rightarrow> drv_rx_scoreboard \<Rightarrow> drv_rx_scoreboard" where
  "drv_set_addba_rsp code t = t\<lparr>userstatuscode := u16_of code\<rparr>"

definition drv_clr_addba_rsp_status :: "drv_rx_scoreboard list \<Rightarrow> drv_rx_scoreboard list" where
  "drv_clr_addba_rsp_status scbs = map (\<lambda>t. t\<lparr>userstatuscode := WIFINET_STATUS_SUCCESS\<rparr>) scbs"

section \<open>Flushing\<close>

text \<open>\<^verbatim>\<open>drv_rx_flush_tid\<close>: pass every slot up to the tail, delivering the frames or
  freeing them.\<close>

partial_function (option) drv_rx_flush_tid ::
  "bool \<Rightarrow> drv_rx_priv \<Rightarrow> drv_rx_scoreboard \<Rightarrow> (drv_rx_priv \<times> drv_rx_scoreboard) option"
where
  "drv_rx_flush_tid free p t =
    (if rx_baw_head t \<noteq> rx_baw_tail t then do {
       d \<leftarrow> rxdesc t (rx_baw_head t);
       case rx_wbuf d of
         None \<Rightarrow> drv_rx_flush_tid free (p\<lparr>rx_skipped_cnt := rx_skipped_cnt p + 1\<rparr>) (pass_slot t)
       | Some s \<Rightarrow>
         (let p = p\<lparr>rx_ok_cnt := rx_ok_cnt p + 1\<rparr>;
              p = (if free then log_rx (SkbFree s) p else log_rx (MacInput s (rx_rs d)) p)
          in drv_rx_flush_tid free p (pass_slot (clear_wbuf (rx_baw_head t) d t)))
     } else Some (p, t))"

text \<open>\<^verbatim>\<open>drv_rx_addbareq\<close>; \<^verbatim>\<open>alloc\<close> says whether the allocation of the descriptors
  succeeds (NET_MALLOC zeroes them).\<close>

definition fresh_ring :: "drv_rxdesc list" where
  "fresh_ring = replicate 128 \<lparr>rx_wbuf = None, rx_time = 0, rx_rs = zero_rs\<rparr>"

definition addbareq_accept ::
  "bool \<Rightarrow> wifi_mac_ba_parameterset \<Rightarrow> int \<Rightarrow> drv_rx_scoreboard \<Rightarrow> drv_rx_scoreboard"
where
  "addbareq_accept alloc bap startseqnum t =
    (let t = (if buffersize bap \<noteq> 0 then t\<lparr>rx_baw_size := WME_MAX_BA\<rparr> else t);
         t = t\<lparr>rx_seq_next := startseqnum, statuscode := WIFINET_STATUS_SUCCESS,
               baparamset := (baparamset t)\<lparr>bapolicy := 1, buffersize := rx_baw_size t\<rparr>,
               batimeout := 0\<rparr>;
         t = (if pRxDesc t = None \<and> alloc then t\<lparr>pRxDesc := Some fresh_ring\<rparr> else t)
     in if pRxDesc t = None then t\<lparr>statuscode := WIFINET_STATUS_REFUSED\<rparr>
        else t\<lparr>rx_addba_exchangecomplete := True\<rparr>)"

definition drv_rx_addbareq ::
  "bool \<Rightarrow> int \<Rightarrow> wifi_mac_ba_parameterset \<Rightarrow> int \<Rightarrow> drv_rx_priv \<Rightarrow> drv_rx_scoreboard \<Rightarrow>
   (drv_rx_priv \<times> drv_rx_scoreboard) option"
where
  "drv_rx_addbareq alloc token bap startseqnum p t = do {
     (p, t) \<leftarrow>
       (if \<not> cfg_rxaggr p then Some (p, t\<lparr>statuscode := WIFINET_STATUS_REFUSED\<rparr>)
        else if userstatuscode t \<noteq> WIFINET_STATUS_SUCCESS
             then Some (p, t\<lparr>statuscode := userstatuscode t\<rparr>)
        else do {
          (p, t) \<leftarrow>
            (if rx_addba_exchangecomplete t \<and> pRxDesc t \<noteq> None then do {
               (p, t) \<leftarrow> drv_rx_flush_tid False p (t\<lparr>rx_timer := timer_cancel (rx_timer t)\<rparr>);
               Some (p, t\<lparr>rx_addba_exchangecomplete := False\<rparr>)
             } else Some (p, t));
          Some (p, addbareq_accept alloc bap startseqnum t)
        });
     Some (p, t\<lparr>dialogtoken := token,
                baparamset := (baparamset t)\<lparr>amsdusupported := 1, ba_tid := ba_tid bap\<rparr>\<rparr>)
   }"

definition drv_rx_addbarsp :: "int \<Rightarrow> drv_rx_priv \<Rightarrow> drv_rx_scoreboard \<Rightarrow> drv_rx_priv" where
  "drv_rx_addbarsp tid p t =
    (if statuscode t = WIFINET_STATUS_SUCCESS
     then log_rx (HalAddbaOk tid (rx_seq_next t) (rx_baw_size t)) p else p)"

definition drv_rxampdu_del ::
  "drv_rx_priv \<Rightarrow> drv_rx_scoreboard \<Rightarrow> (drv_rx_priv \<times> drv_rx_scoreboard) option"
where
  "drv_rxampdu_del p t =
    (if \<not> rx_addba_exchangecomplete t then Some (p, t)
     else do {
       (p, t) \<leftarrow> drv_rx_flush_tid False p (t\<lparr>rx_timer := timer_cancel (rx_timer t)\<rparr>);
       Some (p, t\<lparr>rx_addba_exchangecomplete := False, pRxDesc := None\<rparr>)
     })"

section \<open>Block-ack request\<close>

text \<open>The two loops of \<^verbatim>\<open>drv_rx_bar\<close>: up to the slot of the request's sequence number, and
  on over the frames that follow without a gap.\<close>

partial_function (option) bar_skip ::
  "int \<Rightarrow> drv_rx_priv \<Rightarrow> drv_rx_scoreboard \<Rightarrow> (drv_rx_priv \<times> drv_rx_scoreboard) option"
where
  "bar_skip desc_id p t =
    (if rx_baw_head t \<noteq> rx_baw_tail t \<and> rx_baw_head t \<noteq> desc_id then do {
       d \<leftarrow> rxdesc t (rx_baw_head t);
       bar_skip desc_id (upload d p) (pass_slot (clear_wbuf (rx_baw_head t) d t))
     } else Some (p, t))"

partial_function (option) bar_drain ::
  "drv_rx_priv \<Rightarrow> drv_rx_scoreboard \<Rightarrow> (drv_rx_priv \<times> drv_rx_scoreboard) option"
where
  "bar_drain p t =
    (if rx_baw_head t \<noteq> rx_baw_tail t then do {
       d \<leftarrow> rxdesc t (rx_baw_head t);
       if rx_wbuf d \<noteq> None
       then bar_drain (upload d p) (pass_slot (clear_wbuf (rx_baw_head t) d t))
       else Some (p, t)
     } else Some (p, t))"

definition drv_rx_bar_tid ::
  "sk_buff \<Rightarrow> drv_rx_priv \<Rightarrow> drv_rx_scoreboard \<Rightarrow> (int \<times> drv_rx_priv \<times> drv_rx_scoreboard) option"
where
  "drv_rx_bar_tid skb p t =
    (let index = DRV_BA_INDEX (rx_seq_next t) (bar_seq skb) in
     if index > rx_baw_size t \<and> index > WIFINET_SEQ_MAX - rx_baw_size t * 4
     then Some (WIFINET_FC0_TYPE_CTL,
                log_rx (SkbFree skb) (p\<lparr>rx_bardrop_cnt := rx_bardrop_cnt p + 1\<rparr>), t)
     else do {
       (p, t) \<leftarrow> bar_skip ((rx_baw_head t + index) AND (DRV_TID_MAX_BUFS - 1)) p t;
       (p, t) \<leftarrow> bar_drain p t;
       Some (WIFINET_FC0_TYPE_CTL, log_rx (SkbFree skb) p, t)
     })"

definition drv_rx_bar ::
  "sk_buff \<Rightarrow> drv_rx_priv \<Rightarrow> drv_rx_scoreboard list \<Rightarrow>
   (int \<times> drv_rx_priv \<times> drv_rx_scoreboard list) option"
where
  "drv_rx_bar skb p scbs =
    (let p = p\<lparr>rx_bar_cnt := rx_bar_cnt p + 1\<rparr>; i = bar_tid skb in
     if i \<ge> int (length scbs) then None
     else do {
       (r, p, t) \<leftarrow> drv_rx_bar_tid skb p (scbs ! nat i);
       Some (r, p, scbs[nat i := t])
     })"

section \<open>Data frames\<close>

text \<open>\<^verbatim>\<open>drv_rx_input\<close>, lines 309-326: the frame lies past the window, which slides by one
  slot per round.\<close>

function input_slide ::
  "int \<Rightarrow> drv_rx_priv \<Rightarrow> drv_rx_scoreboard \<Rightarrow> (int \<times> drv_rx_priv \<times> drv_rx_scoreboard) option"
where
  "input_slide index p t =
    (if index \<ge> rx_baw_size t then do {
       d \<leftarrow> rxdesc t (rx_baw_head t);
       let p = (if rx_wbuf d \<noteq> None
                then (upload d p)\<lparr>rx_ok_cnt := rx_ok_cnt p + 1\<rparr> else p);
           t = (if rx_wbuf d \<noteq> None then clear_wbuf (rx_baw_head t) d t else t)
       in input_slide (index - 1) p (pass_slot t)
     } else Some (index, p, t))"
  by pat_completeness auto
termination
  by (relation "measure (\<lambda>(index, p, t). nat (index - rx_baw_size t + 1))")
    (auto simp: pass_slot_def clear_wbuf_def set_rxdesc_def)

declare input_slide.simps [simp del]

text \<open>Lines 351-364: the frames at the head of the window.\<close>

partial_function (option) input_drain ::
  "drv_rx_priv \<Rightarrow> drv_rx_scoreboard \<Rightarrow> (drv_rx_priv \<times> drv_rx_scoreboard) option"
where
  "input_drain p t =
    (if rx_baw_head t \<noteq> rx_baw_tail t then do {
       d \<leftarrow> rxdesc t (rx_baw_head t);
       if rx_wbuf d = None then Some (p, t)
       else input_drain (upload d (p\<lparr>rx_ok_cnt := rx_ok_cnt p + 1\<rparr>))
              (pass_slot (clear_wbuf (rx_baw_head t) d t))
     } else Some (p, t))"

text \<open>Lines 366-377: the timer runs while frames are held back.\<close>

definition input_timer :: "drv_rx_scoreboard \<Rightarrow> drv_rx_scoreboard" where
  "input_timer t =
    (if rx_baw_head t \<noteq> rx_baw_tail t
     then (if \<not> os_timer_ex_active (rx_timer t)
           then t\<lparr>rx_timer := os_timer_ex_start (os_set_timer_period DRV_RX_TIMEOUT (rx_timer t))\<rparr>
           else t)
     else t\<lparr>rx_timer := timer_cancel (rx_timer t)\<rparr>)"

text \<open>Lines 328-349: the frame goes into its slot and the tail past it.\<close>

definition input_store ::
  "int \<Rightarrow> int \<Rightarrow> sk_buff \<Rightarrow> wifi_mac_rx_status \<Rightarrow> drv_rx_scoreboard \<Rightarrow> drv_rx_scoreboard"
where
  "input_store now index skb rs t =
    (let desc_id = (rx_baw_head t + index) AND (DRV_TID_MAX_BUFS - 1);
         rxdiff = (rx_baw_tail t - rx_baw_head t) AND (DRV_TID_MAX_BUFS - 1);
         t = set_rxdesc desc_id \<lparr>rx_wbuf = Some skb, rx_time = now, rx_rs = rs\<rparr> t
     in if index \<ge> rxdiff then t\<lparr>rx_baw_tail := CIRCLE_Add_One desc_id DRV_TID_MAX_BUFS\<rparr> else t)"

text \<open>Lines 293-380, after the class is known to have a block-ack session.\<close>

definition input_reset :: "int \<Rightarrow> drv_rx_scoreboard \<Rightarrow> drv_rx_scoreboard" where
  "input_reset seq t = (if seq_reset t then t\<lparr>seq_reset := False, rx_seq_next := seq\<rparr> else t)"

definition input_reorder ::
  "int \<Rightarrow> sk_buff \<Rightarrow> wifi_mac_rx_status \<Rightarrow> drv_rx_priv \<Rightarrow> drv_rx_scoreboard \<Rightarrow>
   (int \<times> drv_rx_priv \<times> drv_rx_scoreboard) option"
where
  "input_reorder now skb rs p t =
    (let t = input_reset (rxseq skb) t;
         index = DRV_BA_INDEX (rx_seq_next t) (rxseq skb)
     in if index > WIFINET_SEQ_MAX - rx_baw_size t * 4
        then Some (WIFINET_FC0_TYPE_DATA, log_rx (SkbFree skb) p, t)
        else do {
          (index, p, t) \<leftarrow> input_slide index p t;
          d \<leftarrow> rxdesc t ((rx_baw_head t + index) AND (DRV_TID_MAX_BUFS - 1));
          if rx_wbuf d \<noteq> None
          then Some (WIFINET_FC0_TYPE_DATA,
                     log_rx (SkbFree skb) (p\<lparr>rx_dup_cnt := rx_dup_cnt p + 1\<rparr>), t)
          else do {
            (p, t) \<leftarrow> input_drain p (input_store now index skb rs t);
            Some (WIFINET_FC0_TYPE_DATA, p, input_timer t)
          }
        })"

text \<open>The whole of \<^verbatim>\<open>drv_rx_input\<close> on the eight scoreboards of a station.  \<^verbatim>\<open>up\<close> gives the
  value the upper layer's wifi_mac_input returns, which is what is returned for a frame that
  is passed on directly.\<close>

definition input_direct ::
  "(sk_buff \<Rightarrow> int) \<Rightarrow> sk_buff \<Rightarrow> wifi_mac_rx_status \<Rightarrow> drv_rx_priv \<Rightarrow> int \<times> drv_rx_priv"
where
  "input_direct up skb rs p =
    (up skb, log_rx (MacInput skb rs) (p\<lparr>rx_nonqos_cnt := rx_nonqos_cnt p + 1\<rparr>))"

definition drv_rx_input ::
  "(sk_buff \<Rightarrow> int) \<Rightarrow> int \<Rightarrow> sk_buff \<Rightarrow> wifi_mac_rx_status \<Rightarrow> drv_rx_priv \<Rightarrow>
   drv_rx_scoreboard list \<Rightarrow> (int \<times> drv_rx_priv \<times> drv_rx_scoreboard list) option"
where
  "drv_rx_input up now skb rs p scbs =
    (let p = p\<lparr>rx_ampdu_cnt := rx_ampdu_cnt p + 1\<rparr> in
     if fc0_version skb \<noteq> 0 then Some (-1, log_rx (SkbFree skb) p, scbs)
     else let p = log_rx (ScanLeakAp skb) p in
     if WIFINET_IS_BAR skb then drv_rx_bar skb p scbs
     else if fc0_type skb \<noteq> 0x08 \<or> fc0_subtype skb \<noteq> 0x80 \<or> b_mcast skb
     then (let (r, p) = input_direct up skb rs p in Some (r, p, scbs))
     else let tid = qos_tid skb in
     if tid \<ge> int (length scbs) then None
     else let t = scbs ! nat tid in
     if \<not> rx_addba_exchangecomplete t
     then (let (r, p) = input_direct up skb rs p in Some (r, p, scbs))
     else do {
       (r, p, t) \<leftarrow> input_reorder now skb rs p t;
       Some (r, p, scbs[nat tid := t])
     })"

section \<open>The timer and the life of a station\<close>

text \<open>\<^verbatim>\<open>drv_rx_sort_timer\<close>: \<^verbatim>\<open>clock n\<close> is the n-th reading of OS_GET_TIMESTAMP; an
  unsigned long has 64 bits.\<close>

definition ts_diff :: "int \<Rightarrow> int \<Rightarrow> int" where
  "ts_diff now since = (now - since) mod 2 ^ 64"

partial_function (option) sort_loop ::
  "(nat \<Rightarrow> int) \<Rightarrow> nat \<Rightarrow> int \<Rightarrow> int \<Rightarrow> drv_rx_priv \<Rightarrow> drv_rx_scoreboard \<Rightarrow>
   (drv_rx_priv \<times> drv_rx_scoreboard) option"
where
  "sort_loop clock n bawhead count p t =
    (if bawhead \<noteq> rx_baw_tail t then do {
       d \<leftarrow> rxdesc t bawhead;
       if rx_wbuf d = None
       then sort_loop clock n (CIRCLE_Add_One bawhead DRV_TID_MAX_BUFS) (count + 1) p t
       else (let diff = ts_diff (clock n) (rx_time d) in
         if diff < DRV_RX_TIMEOUT
         then Some (p, t\<lparr>rx_timer := os_set_timer_period (DRV_RX_TIMEOUT - diff) (rx_timer t)\<rparr>)
         else (let p = upload d (p\<lparr>rx_ok_cnt := rx_ok_cnt p + 1\<rparr>);
                   t = clear_wbuf bawhead d t;
                   head = CIRCLE_Add_One bawhead DRV_TID_MAX_BUFS;
                   t = t\<lparr>rx_seq_next :=
                           u16_of (CIRCLE_Addition2 (rx_seq_next t) (count + 1) WIFINET_SEQ_MAX),
                         rx_baw_head := head\<rparr>
               in sort_loop clock (n + 1) head 0 p t))
     } else Some (p, t))"

definition drv_rx_sort_timer ::
  "(nat \<Rightarrow> int) \<Rightarrow> drv_rx_priv \<Rightarrow> drv_rx_scoreboard \<Rightarrow>
   (int \<times> drv_rx_priv \<times> drv_rx_scoreboard) option"
where
  "drv_rx_sort_timer clock p t = do {
     (p, t) \<leftarrow> sort_loop clock 0 (rx_baw_head t) 0 p t;
     Some (if rx_baw_head t \<noteq> rx_baw_tail t then OS_TIMER_REARMED else OS_TIMER_NOT_REARMED, p, t)
   }"

definition nsta_init_tid :: "drv_rx_scoreboard \<Rightarrow> drv_rx_scoreboard" where
  "nsta_init_tid t = t\<lparr>seq_reset := True, rx_seq_next := 0, rx_baw_size := WME_MAX_BA,
     rx_baw_head := 0, rx_baw_tail := 0, pRxDesc := None,
     rx_timer := os_timer_ex_initialize DRV_RX_TIMEOUT,
     rx_addba_exchangecomplete := False, userstatuscode := WIFINET_STATUS_SUCCESS\<rparr>"

definition drv_rx_nsta_init :: "drv_rx_priv \<Rightarrow> drv_rx_scoreboard list \<Rightarrow> drv_rx_scoreboard list" where
  "drv_rx_nsta_init p scbs = (if cfg_rxaggr p then map nsta_init_tid scbs else scbs)"

definition nsta_clean_tid ::
  "drv_rx_priv \<Rightarrow> drv_rx_scoreboard \<Rightarrow> (drv_rx_priv \<times> drv_rx_scoreboard) option"
where
  "nsta_clean_tid p t =
    (if \<not> rx_addba_exchangecomplete t then Some (p, t)
     else do {
       (p, t) \<leftarrow> drv_rx_flush_tid True p (t\<lparr>rx_timer := timer_del (rx_timer t)\<rparr>);
       _ \<leftarrow> rxdesc t (DRV_TID_MAX_BUFS - 1);
       Some (p, t\<lparr>pRxDesc := None, rx_addba_exchangecomplete := False\<rparr>)
     })"

fun clean_tids ::
  "drv_rx_priv \<Rightarrow> drv_rx_scoreboard list \<Rightarrow> (drv_rx_priv \<times> drv_rx_scoreboard list) option"
where
  "clean_tids p [] = Some (p, [])" |
  "clean_tids p (t # ts) = do {
     (p, t) \<leftarrow> nsta_clean_tid p t;
     (p, ts) \<leftarrow> clean_tids p ts;
     Some (p, t # ts)
   }"

definition drv_rx_nsta_clean ::
  "drv_rx_priv \<Rightarrow> drv_rx_scoreboard list \<Rightarrow> (drv_rx_priv \<times> drv_rx_scoreboard list) option"
where
  "drv_rx_nsta_clean p scbs = (if cfg_rxaggr p then clean_tids p scbs else Some (p, scbs))"

definition drv_rx_nsta_free ::
  "drv_rx_priv \<Rightarrow> drv_rx_scoreboard list \<Rightarrow> (drv_rx_priv \<times> drv_rx_scoreboard list) option"
where
  "drv_rx_nsta_free p scbs = drv_rx_nsta_clean p scbs"

text \<open>The loops compute by their equations.\<close>

declare drv_rx_flush_tid.simps [code] bar_skip.simps [code] bar_drain.simps [code]
  input_drain.simps [code] sort_loop.simps [code] input_slide.simps [code]

end
