(* ===== verification/RxWindow.thy ===== *)
theory RxWindow
  imports RxReorder "HOL-Library.Multiset"
begin

text \<open>
  The ring of RxReorder seen from the head: a list of 128 descriptors, the window.  Passing a
  slot (\<^verbatim>\<open>pop\<close>) shifts the window by one; every loop of the file is a number of pops, given here
  in closed form, so that the loops' termination, freedom from faults and effect on the log
  follow together.
\<close>

section \<open>The window\<close>

definition span :: "drv_rx_scoreboard \<Rightarrow> int" where
  "span t = (rx_baw_tail t - rx_baw_head t) mod 128"

definition window :: "drv_rx_scoreboard \<Rightarrow> drv_rxdesc list" where
  "window t = (case pRxDesc t of None \<Rightarrow> [] | Some ds \<Rightarrow> rotate (nat (rx_baw_head t)) ds)"

definition ring_wf :: "drv_rx_scoreboard \<Rightarrow> bool" where
  "ring_wf t \<longleftrightarrow> 0 \<le> rx_baw_head t \<and> rx_baw_head t < 128 \<and> 0 \<le> rx_baw_tail t \<and>
     rx_baw_tail t < 128 \<and> 0 \<le> rx_seq_next t \<and> rx_seq_next t < 4096 \<and>
     (\<exists>ds. pRxDesc t = Some ds \<and> length ds = 128)"

definition empty_desc :: "drv_rxdesc \<Rightarrow> drv_rxdesc" where
  "empty_desc d = d\<lparr>rx_wbuf := None\<rparr>"

definition pop :: "drv_rx_scoreboard \<Rightarrow> drv_rx_scoreboard" where
  "pop t = pass_slot (set_rxdesc (rx_baw_head t) (empty_desc (hd (window t))) t)"

lemma span_range: "0 \<le> span t" "span t < 128"
  by (simp_all add: span_def)

lemma empty_desc_wbuf [simp]: "rx_wbuf (empty_desc d) = None"
  by (simp add: empty_desc_def)

lemma empty_desc_id: "rx_wbuf d = None \<Longrightarrow> empty_desc d = d"
  by (simp add: empty_desc_def)

lemma length_window [simp]: "ring_wf t \<Longrightarrow> length (window t) = 128"
  by (auto simp: ring_wf_def window_def)

lemma window_nth:
  assumes "ring_wf t" "k < 128" "pRxDesc t = Some ds"
  shows "window t ! k = ds ! ((nat (rx_baw_head t) + k) mod 128)"
  using assms by (auto simp: ring_wf_def window_def nth_rotate add.commute)

lemma rxdesc_window:
  assumes "ring_wf t" "k < 128"
  shows "rxdesc t ((rx_baw_head t + int k) mod 128) = Some (window t ! k)"
proof -
  obtain ds where ds: "pRxDesc t = Some ds" "length ds = 128" "0 \<le> rx_baw_head t"
    using assms(1) by (auto simp: ring_wf_def)
  then show ?thesis using window_nth [OF assms ds(1)]
    by (simp add: rxdesc_def nat_ring_index)
qed

lemma rxdesc_head: "ring_wf t \<Longrightarrow> rxdesc t (rx_baw_head t) = Some (hd (window t))"
  using rxdesc_window [of t 0] length_window [of t]
  by (cases "window t") (auto simp: ring_wf_def)

lemma window_set:
  assumes "ring_wf t" "k < 128"
  shows "window (set_rxdesc ((rx_baw_head t + int k) mod 128) d t) = (window t)[k := d]"
proof -
  obtain ds where ds: "pRxDesc t = Some ds" "length ds = 128" "0 \<le> rx_baw_head t"
      "rx_baw_head t < 128"
    using assms(1) by (auto simp: ring_wf_def)
  then have "rotate (nat (rx_baw_head t)) (ds[(nat (rx_baw_head t) + k) mod 128 := d]) =
      (rotate (nat (rx_baw_head t)) ds)[k := d]"
    using rotate_update [of k ds "nat (rx_baw_head t)" d] assms(2) by simp
  then show ?thesis using ds by (simp add: window_def set_rxdesc_def nat_ring_index)
qed

lemma ring_wf_set [simp]: "ring_wf t \<Longrightarrow> ring_wf (set_rxdesc i d t)"
  by (auto simp: ring_wf_def set_rxdesc_def)

lemma set_rxdesc_fields [simp]:
  "rx_baw_head (set_rxdesc i d t) = rx_baw_head t" "rx_baw_tail (set_rxdesc i d t) = rx_baw_tail t"
  "rx_seq_next (set_rxdesc i d t) = rx_seq_next t" "rx_baw_size (set_rxdesc i d t) = rx_baw_size t"
  "seq_reset (set_rxdesc i d t) = seq_reset t" "rx_timer (set_rxdesc i d t) = rx_timer t"
  "rx_addba_exchangecomplete (set_rxdesc i d t) = rx_addba_exchangecomplete t"
  "userstatuscode (set_rxdesc i d t) = userstatuscode t"
  "statuscode (set_rxdesc i d t) = statuscode t"
  by (simp_all add: set_rxdesc_def)

lemma pass_slot_fields [simp]:
  "rx_baw_tail (pass_slot t) = rx_baw_tail t" "rx_baw_size (pass_slot t) = rx_baw_size t"
  "seq_reset (pass_slot t) = seq_reset t" "rx_timer (pass_slot t) = rx_timer t"
  "rx_addba_exchangecomplete (pass_slot t) = rx_addba_exchangecomplete t"
  "pRxDesc (pass_slot t) = pRxDesc t"
  "userstatuscode (pass_slot t) = userstatuscode t" "statuscode (pass_slot t) = statuscode t"
  by (simp_all add: pass_slot_def)

lemma ring_wf_pass [simp]: "ring_wf t \<Longrightarrow> ring_wf (pass_slot t)"
  by (auto simp: ring_wf_def pass_slot_def CIRCLE_Add_One_mod CIRCLE_Add_One_u16_mod)

lemma ring_wf_pop [simp]: "ring_wf t \<Longrightarrow> ring_wf (pop t)"
  by (simp add: pop_def)

lemma pop_fields [simp]:
  "rx_baw_tail (pop t) = rx_baw_tail t" "rx_baw_size (pop t) = rx_baw_size t"
  "seq_reset (pop t) = seq_reset t" "rx_timer (pop t) = rx_timer t"
  "rx_addba_exchangecomplete (pop t) = rx_addba_exchangecomplete t"
  "userstatuscode (pop t) = userstatuscode t" "statuscode (pop t) = statuscode t"
  by (simp_all add: pop_def)

lemma head_pop: "ring_wf t \<Longrightarrow> rx_baw_head (pop t) = (rx_baw_head t + 1) mod 128"
  by (simp add: pop_def pass_slot_def CIRCLE_Add_One_mod ring_wf_def)

lemma seq_pop: "ring_wf t \<Longrightarrow> rx_seq_next (pop t) = (rx_seq_next t + 1) mod 4096"
  by (simp add: pop_def pass_slot_def CIRCLE_Add_One_u16_mod ring_wf_def)

lemma window_pass:
  assumes "ring_wf t"
  shows "window (pass_slot t) = rotate1 (window t)"
proof -
  obtain ds where ds: "pRxDesc t = Some ds" "length ds = 128" "0 \<le> rx_baw_head t"
      "rx_baw_head t < 128"
    using assms(1) by (auto simp: ring_wf_def)
  then have "nat (rx_baw_head (pass_slot t)) = Suc (nat (rx_baw_head t)) mod 128"
    by (auto simp: pass_slot_def CIRCLE_Add_One_def nat_add_distrib)
  then have "window (pass_slot t) = rotate (Suc (nat (rx_baw_head t)) mod length ds) ds"
    using ds by (simp add: window_def)
  also have "\<dots> = rotate1 (rotate (nat (rx_baw_head t)) ds)"
    by (metis rotate_Suc rotate_conv_mod)
  finally show ?thesis using ds by (simp add: window_def)
qed

lemma window_pop:
  assumes "ring_wf t"
  shows "window (pop t) = tl (window t) @ [empty_desc (hd (window t))]"
proof -
  have len: "length (window t) = 128" using assms by simp
  then obtain d W where W: "window t = d # W" by (cases "window t") auto
  have "(rx_baw_head t + int 0) mod 128 = rx_baw_head t" using assms by (simp add: ring_wf_def)
  then have "window (set_rxdesc (rx_baw_head t) (empty_desc d) t) = (window t)[0 := empty_desc d]"
    using window_set [OF assms, of 0 "empty_desc d"] by simp
  then show ?thesis using assms W by (simp add: pop_def window_pass)
qed

lemma span_pop: "ring_wf t \<Longrightarrow> span (pop t) = (span t - 1) mod 128"
  by (simp add: span_def head_pop mod_simps algebra_simps)

section \<open>Several pops\<close>

abbreviation popn :: "nat \<Rightarrow> drv_rx_scoreboard \<Rightarrow> drv_rx_scoreboard" where
  "popn n t \<equiv> (pop ^^ n) t"

text \<open>The events of the frames held by a list of descriptors, in order.\<close>

definition evs :: "(drv_rxdesc \<Rightarrow> sk_buff \<Rightarrow> rx_event) \<Rightarrow> drv_rxdesc list \<Rightarrow> rx_event list" where
  "evs f ds = somes (map (\<lambda>d. map_option (f d) (rx_wbuf d)) ds)"

definition up_event :: "drv_rxdesc \<Rightarrow> sk_buff \<Rightarrow> rx_event" where
  "up_event d s = MacInput s (rx_rs d)"

definition free_event :: "drv_rxdesc \<Rightarrow> sk_buff \<Rightarrow> rx_event" where
  "free_event d s = SkbFree s"

definition frames :: "drv_rxdesc list \<Rightarrow> sk_buff list" where
  "frames ds = somes (map rx_wbuf ds)"

lemma evs_simps [simp]:
  "evs f [] = []" "evs f (xs @ ys) = evs f xs @ evs f ys"
  "rx_wbuf d = None \<Longrightarrow> evs f (d # ds) = evs f ds"
  "rx_wbuf d = Some s \<Longrightarrow> evs f (d # ds) = f d s # evs f ds"
  by (simp_all add: evs_def)

lemma frames_simps [simp]:
  "frames [] = []" "frames (xs @ ys) = frames xs @ frames ys"
  "rx_wbuf d = None \<Longrightarrow> frames (d # ds) = frames ds"
  "rx_wbuf d = Some s \<Longrightarrow> frames (d # ds) = s # frames ds"
  by (simp_all add: frames_def)

lemma evs_empty [simp]: "evs f (map empty_desc ds) = []" "frames (map empty_desc ds) = []"
  by (induction ds) auto

lemma ring_wf_popn [simp]: "ring_wf t \<Longrightarrow> ring_wf (popn n t)"
  by (induction n) auto

lemma popn_fields [simp]:
  "rx_baw_tail (popn n t) = rx_baw_tail t" "rx_baw_size (popn n t) = rx_baw_size t"
  "seq_reset (popn n t) = seq_reset t" "rx_timer (popn n t) = rx_timer t"
  "rx_addba_exchangecomplete (popn n t) = rx_addba_exchangecomplete t"
  "userstatuscode (popn n t) = userstatuscode t" "statuscode (popn n t) = statuscode t"
  by (induction n) auto

lemma seq_popn: "ring_wf t \<Longrightarrow> rx_seq_next (popn n t) = (rx_seq_next t + int n) mod 4096"
proof (induction n)
  case 0
  then show ?case by (simp add: ring_wf_def)
next
  case (Suc n)
  then show ?case by (simp add: seq_pop mod_simps algebra_simps)
qed

lemma span_popn: "ring_wf t \<Longrightarrow> span (popn n t) = (span t - int n) mod 128"
proof (induction n)
  case 0
  then show ?case by (simp add: span_def)
next
  case (Suc n)
  then show ?case by (simp add: span_pop mod_simps algebra_simps)
qed

lemma head_popn: "ring_wf t \<Longrightarrow> rx_baw_head (popn n t) = (rx_baw_head t + int n) mod 128"
proof (induction n)
  case 0
  then show ?case by (simp add: ring_wf_def)
next
  case (Suc n)
  then show ?case by (simp add: head_pop mod_simps algebra_simps)
qed

lemma window_popn:
  "ring_wf t \<Longrightarrow> n \<le> 128 \<Longrightarrow>
     window (popn n t) = drop n (window t) @ map empty_desc (take n (window t))"
proof (induction n)
  case (Suc n)
  then have len: "n < length (window t)" by simp
  have "window (popn (Suc n) t) =
      tl (drop n (window t) @ map empty_desc (take n (window t))) @
      [empty_desc (hd (drop n (window t) @ map empty_desc (take n (window t))))]"
    using Suc by (simp add: window_pop)
  also have "\<dots> = drop (Suc n) (window t) @ map empty_desc (take (Suc n) (window t))"
    using len by (simp add: drop_Suc tl_drop hd_drop_conv_nth take_Suc_conv_app_nth)
  finally show ?case .
qed simp

text \<open>What a loop of n pops does: it succeeds, logs the events of the first n descriptors of the
  window, and leaves the configuration alone.\<close>

definition popped ::
  "(drv_rxdesc \<Rightarrow> sk_buff \<Rightarrow> rx_event) \<Rightarrow> nat \<Rightarrow> drv_rx_priv \<Rightarrow> drv_rx_scoreboard \<Rightarrow>
   (drv_rx_priv \<times> drv_rx_scoreboard) option \<Rightarrow> bool"
where
  "popped f n p t r \<longleftrightarrow> (\<exists>p'. r = Some (p', popn n t) \<and> cfg_rxaggr p' = cfg_rxaggr p \<and>
     rx_log p' = rx_log p @ evs f (take n (window t)))"

lemma popped_0 [simp]: "popped f 0 p t (Some (p, t))"
  by (simp add: popped_def)

lemma popped_Suc:
  assumes "popped f n p1 (pop t) r" "ring_wf t" "cfg_rxaggr p1 = cfg_rxaggr p"
    "rx_log p1 = rx_log p @ evs f [hd (window t)]"
  shows "popped f (Suc n) p t r"
proof -
  obtain d W where W: "window t = d # W" using length_window [OF assms(2)] by (cases "window t") auto
  have "evs f (take n (W @ [empty_desc d])) = evs f (take n W)"
    by (cases "n - length W") simp_all
  then have "evs f (take (Suc n) (window t)) = evs f [d] @ evs f (take n (window (pop t)))"
    using W assms(2) by (cases "rx_wbuf d") (simp_all add: window_pop)
  then show ?thesis using assms W by (auto simp: popped_def funpow_swap1)
qed

lemma upload_log [simp]:
  "rx_log (upload d p) = rx_log p @ evs up_event [d]" "cfg_rxaggr (upload d p) = cfg_rxaggr p"
  by (cases "rx_wbuf d"; simp add: upload_def log_rx_def up_event_def)+

lemma log_rx_fields [simp]:
  "rx_log (log_rx e p) = rx_log p @ [e]" "cfg_rxaggr (log_rx e p) = cfg_rxaggr p"
  by (simp_all add: log_rx_def)

lemma pop_clear [simp]:
  "ring_wf t \<Longrightarrow> pass_slot (clear_wbuf (rx_baw_head t) (hd (window t)) t) = pop t"
  by (simp add: pop_def clear_wbuf_def empty_desc_def)

lemma set_rxdesc_self:
  assumes "ring_wf t"
  shows "set_rxdesc (rx_baw_head t) (hd (window t)) t = t"
proof -
  obtain ds where ds: "pRxDesc t = Some ds" "length ds = 128" "0 \<le> rx_baw_head t"
      "rx_baw_head t < 128"
    using assms(1) by (auto simp: ring_wf_def)
  with rxdesc_head [OF assms] have "hd (window t) = ds ! nat (rx_baw_head t)"
    by (simp add: rxdesc_def)
  then show ?thesis using ds by (simp add: set_rxdesc_def)
qed

lemma pop_pass [simp]:
  "ring_wf t \<Longrightarrow> rx_wbuf (hd (window t)) = None \<Longrightarrow> pass_slot t = pop t"
  by (simp add: pop_def empty_desc_id set_rxdesc_self)

lemma span_zero: "ring_wf t \<Longrightarrow> rx_baw_head t = rx_baw_tail t \<longleftrightarrow> span t = 0"
  by (auto simp: ring_wf_def span_def mod_diff_zero)

lemma span_pop_less: "ring_wf t \<Longrightarrow> span t \<noteq> 0 \<Longrightarrow> span (pop t) = span t - 1"
  using span_range [of t] mod_pos_pos_trivial [of "span t - 1" 128] by (simp add: span_pop)

section \<open>The loops in closed form\<close>

text \<open>drv_rx_flush_tid passes the whole span.\<close>

lemma flush_popped:
  "ring_wf t \<Longrightarrow>
   popped (if fr then free_event else up_event) (nat (span t)) p t (drv_rx_flush_tid fr p t)"
proof (induction "nat (span t)" arbitrary: p t)
  case 0
  then have "rx_baw_head t = rx_baw_tail t" using span_zero span_range(1) [of t] by simp
  with 0 show ?case by (simp add: drv_rx_flush_tid.simps)
next
  case (Suc n)
  then have nz: "span t \<noteq> 0" by auto
  then have ne: "rx_baw_head t \<noteq> rx_baw_tail t" using Suc.prems span_zero by simp
  have n: "n = nat (span (pop t))" "nat (span t) = Suc (nat (span (pop t)))"
    using Suc span_pop_less [OF Suc.prems nz] by simp_all
  show ?case
  proof (cases "rx_wbuf (hd (window t))")
    case None
    have eq: "drv_rx_flush_tid fr p t =
        drv_rx_flush_tid fr (p\<lparr>rx_skipped_cnt := rx_skipped_cnt p + 1\<rparr>) (pop t)"
      using ne None Suc.prems by (subst drv_rx_flush_tid.simps) (simp add: rxdesc_head)
    show ?thesis unfolding n(2) eq
      by (rule popped_Suc [OF Suc(1) [OF n(1)]]) (use Suc.prems None in simp_all)
  next
    case (Some s)
    let ?p = "p\<lparr>rx_ok_cnt := rx_ok_cnt p + 1\<rparr>"
    let ?q = "log_rx ((if fr then free_event else up_event) (hd (window t)) s) ?p"
    have eq: "drv_rx_flush_tid fr p t = drv_rx_flush_tid fr ?q (pop t)"
      using ne Some Suc.prems
      by (subst drv_rx_flush_tid.simps) (simp add: rxdesc_head up_event_def free_event_def)
    show ?thesis unfolding n(2) eq
      by (rule popped_Suc [OF Suc(1) [OF n(1)]]) (use Suc.prems Some in simp_all)
  qed
qed

text \<open>The first loop of drv_rx_bar stops at the descriptor asked for or at the tail.\<close>

definition bar_dist :: "int \<Rightarrow> drv_rx_scoreboard \<Rightarrow> int" where
  "bar_dist desc_id t = min ((desc_id - rx_baw_head t) mod 128) (span t)"

lemma bar_dist_zero:
  "ring_wf t \<Longrightarrow> 0 \<le> i \<Longrightarrow> i < 128 \<Longrightarrow>
     bar_dist i t = 0 \<longleftrightarrow> rx_baw_head t = rx_baw_tail t \<or> rx_baw_head t = i"
  using mod_diff_zero [of i 128 "rx_baw_head t"] span_zero [of t] span_range [of t]
  by (auto simp: bar_dist_def min_def ring_wf_def le_less_trans)

lemma bar_dist_pop:
  assumes "ring_wf t" "bar_dist i t \<noteq> 0"
  shows "bar_dist i (pop t) = bar_dist i t - 1"
proof -
  have "(i - rx_baw_head t) mod 128 \<noteq> 0" "span t \<noteq> 0"
    using assms(2) span_range [of t] by (auto simp: bar_dist_def min_def split: if_splits)
  then show ?thesis using assms(1) mod_diff_succ [of i "rx_baw_head t" 128]
    by (simp add: bar_dist_def span_pop_less head_pop)
qed

lemma bar_dist_range: "0 \<le> bar_dist i t" "bar_dist i t \<le> span t"
  using span_range [of t] by (auto simp: bar_dist_def)

lemma bar_skip_popped:
  "ring_wf t \<Longrightarrow> 0 \<le> i \<Longrightarrow> i < 128 \<Longrightarrow>
     popped up_event (nat (bar_dist i t)) p t (bar_skip i p t)"
proof (induction "nat (bar_dist i t)" arbitrary: p t)
  case 0
  then have "bar_dist i t = 0" using bar_dist_range(1) [of i t] by simp
  with 0 show ?case using bar_dist_zero [of t i] by (subst bar_skip.simps) auto
next
  case (Suc n)
  then have nz: "bar_dist i t \<noteq> 0" by auto
  then have ne: "rx_baw_head t \<noteq> rx_baw_tail t" "rx_baw_head t \<noteq> i"
    using Suc.prems bar_dist_zero by auto
  have n: "n = nat (bar_dist i (pop t))" "nat (bar_dist i t) = Suc (nat (bar_dist i (pop t)))"
    using Suc bar_dist_pop [OF Suc.prems(1) nz] by simp_all
  have eq: "bar_skip i p t = bar_skip i (upload (hd (window t)) p) (pop t)"
    using ne Suc.prems by (subst bar_skip.simps) (simp add: rxdesc_head)
  show ?case unfolding n(2) eq
    by (rule popped_Suc [OF Suc(1) [OF n(1)]]) (use Suc.prems in simp_all)
qed

text \<open>The loops that deliver the frames at the head stop at the first gap or at the tail.\<close>

definition run_length :: "drv_rx_scoreboard \<Rightarrow> nat" where
  "run_length t = length (takeWhile (\<lambda>d. rx_wbuf d \<noteq> None) (take (nat (span t)) (window t)))"

lemma run_length_zero:
  "ring_wf t \<Longrightarrow> run_length t = 0 \<longleftrightarrow> span t = 0 \<or> rx_wbuf (hd (window t)) = None"
  using length_window [of t] span_range [of t]
  by (cases "window t"; cases "nat (span t)") (auto simp: run_length_def)

lemma run_length_pop:
  assumes "ring_wf t" "run_length t \<noteq> 0"
  shows "run_length t = Suc (run_length (pop t))"
proof -
  obtain d W where W: "window t = d # W" using length_window [OF assms(1)] by (cases "window t") auto
  have nz: "span t \<noteq> 0" "rx_wbuf d \<noteq> None" using assms run_length_zero W by auto
  then obtain k where k: "nat (span t) = Suc k" "nat (span (pop t)) = k"
    using span_pop_less [OF assms(1) nz(1)] span_range [of t] by (metis Suc_nat_eq_nat_zadd1
        diff_add_cancel diff_ge_0_iff_ge int_one_le_iff_zero_less order_le_less add.commute)
  have "k < 128" using span_range [of t] k by simp
  then have "k \<le> length W" using length_window [OF assms(1)] W by simp
  then show ?thesis using W k nz(2) assms(1) by (simp add: run_length_def window_pop)
qed

lemma bar_drain_popped: "ring_wf t \<Longrightarrow> popped up_event (run_length t) p t (bar_drain p t)"
proof (induction "run_length t" arbitrary: p t)
  case 0
  then have "span t = 0 \<or> rx_wbuf (hd (window t)) = None" using run_length_zero by simp
  with 0 show ?case using span_zero [of t]
    by (subst bar_drain.simps) (auto simp: rxdesc_head)
next
  case (Suc n)
  then have ne: "rx_baw_head t \<noteq> rx_baw_tail t" "rx_wbuf (hd (window t)) \<noteq> None"
    using run_length_zero [of t] span_zero [of t] by auto
  have n: "n = run_length (pop t)" "run_length t = Suc (run_length (pop t))"
    using Suc run_length_pop [OF Suc.prems] by simp_all
  have eq: "bar_drain p t = bar_drain (upload (hd (window t)) p) (pop t)"
    using ne Suc.prems by (subst bar_drain.simps) (simp add: rxdesc_head)
  show ?case unfolding n(2) eq
    by (rule popped_Suc [OF Suc(1) [OF n(1)]]) (use Suc.prems in simp_all)
qed

lemma input_drain_popped: "ring_wf t \<Longrightarrow> popped up_event (run_length t) p t (input_drain p t)"
proof (induction "run_length t" arbitrary: p t)
  case 0
  then have "span t = 0 \<or> rx_wbuf (hd (window t)) = None" using run_length_zero by simp
  with 0 show ?case using span_zero [of t]
    by (subst input_drain.simps) (auto simp: rxdesc_head)
next
  case (Suc n)
  then have ne: "rx_baw_head t \<noteq> rx_baw_tail t" "rx_wbuf (hd (window t)) \<noteq> None"
    using run_length_zero [of t] span_zero [of t] by auto
  have n: "n = run_length (pop t)" "run_length t = Suc (run_length (pop t))"
    using Suc run_length_pop [OF Suc.prems] by simp_all
  have eq: "input_drain p t =
      input_drain (upload (hd (window t)) (p\<lparr>rx_ok_cnt := rx_ok_cnt p + 1\<rparr>)) (pop t)"
    using ne Suc.prems by (subst input_drain.simps) (auto simp: rxdesc_head)
  show ?case unfolding n(2) eq
    by (rule popped_Suc [OF Suc(1) [OF n(1)]]) (use Suc.prems in simp_all)
qed

text \<open>The slide of the window on a frame past it: one pop per slot that the frame is too far.\<close>

definition slide_dist :: "int \<Rightarrow> drv_rx_scoreboard \<Rightarrow> nat" where
  "slide_dist index t = nat (index - rx_baw_size t + 1)"

lemma input_slide_popped:
  "ring_wf t \<Longrightarrow> \<exists>p' t'. input_slide index p t = Some (index - int (slide_dist index t), p', t') \<and>
     popped up_event (slide_dist index t) p t (Some (p', t'))"
proof (induction "slide_dist index t" arbitrary: index p t)
  case 0
  then show ?case by (subst input_slide.simps) (auto simp: slide_dist_def popped_def)
next
  case (Suc n)
  let ?d = "hd (window t)"
  let ?p = "if rx_wbuf ?d \<noteq> None then (upload ?d p)\<lparr>rx_ok_cnt := rx_ok_cnt p + 1\<rparr> else p"
  have n: "n = slide_dist (index - 1) (pop t)" "slide_dist index t = Suc n"
    using Suc(2) by (simp_all add: slide_dist_def)
  have "input_slide index p t = input_slide (index - 1) ?p (pop t)"
    using Suc.prems Suc(2) by (subst input_slide.simps) (auto simp: rxdesc_head slide_dist_def)
  moreover obtain p' t' where r: "input_slide (index - 1) ?p (pop t) =
      Some (index - 1 - int n, p', t')" "popped up_event n ?p (pop t) (Some (p', t'))"
    using Suc(1) [OF n(1), of ?p] Suc.prems n(1) by auto
  moreover have "popped up_event (Suc n) p t (Some (p', t'))"
    using r(2) Suc.prems by (intro popped_Suc [of _ _ ?p]) (auto simp: evs_def)
  ultimately show ?case using n(2) by (simp add: algebra_simps)
qed

end
