(* ===== verification/RxSpec.thy ===== *)
theory RxSpec
  imports RxWindow
begin

text \<open>
  What the receive reordering promises, and that the code of RxReorder keeps it: a buffer of 64
  places for the sequence numbers from the next expected one on (\<^verbatim>\<open>rbuf\<close>), to which a received
  frame, a block-ack request and a flush are functions; the invariant of a scoreboard; and for
  every operation a lemma that it neither faults nor loops, refines its function on the buffer
  and preserves the invariant.
\<close>

section \<open>The abstract reordering buffer\<close>

type_synonym slot = "(sk_buff \<times> wifi_mac_rx_status) option"

record rbuf =
  rb_next :: int
  rb_slots :: "slot list"

definition up_evs :: "slot list \<Rightarrow> rx_event list" where
  "up_evs B = map (\<lambda>(s, rs). MacInput s rs) (somes B)"

definition rb_shift :: "nat \<Rightarrow> rbuf \<Rightarrow> rbuf" where
  "rb_shift n b = \<lparr>rb_next = (rb_next b + int n) mod 4096,
     rb_slots = drop n (rb_slots b) @ replicate (min n (length (rb_slots b))) None\<rparr>"

definition rb_out :: "nat \<Rightarrow> rbuf \<Rightarrow> rx_event list" where
  "rb_out n b = up_evs (take n (rb_slots b))"

definition rb_run :: "rbuf \<Rightarrow> nat" where
  "rb_run b = length (takeWhile (\<lambda>x. x \<noteq> None) (rb_slots b))"

text \<open>The in-sequence frames at the front leave the buffer.\<close>

definition rb_drain :: "rbuf \<Rightarrow> rx_event list \<times> rbuf" where
  "rb_drain b = (rb_out (rb_run b) b, rb_shift (rb_run b) b)"

text \<open>A received frame: dropped when it is older than the window, else the window slides far
  enough to hold it, a duplicate is dropped, and the frame is stored and the front drained.\<close>

definition rb_offset :: "sk_buff \<Rightarrow> rbuf \<Rightarrow> int" where
  "rb_offset s b = (rxseq s - rb_next b) mod 4096"

definition rb_input :: "sk_buff \<Rightarrow> wifi_mac_rx_status \<Rightarrow> rbuf \<Rightarrow> rx_event list \<times> rbuf" where
  "rb_input s rs b =
    (if rb_offset s b > 3840 then ([SkbFree s], b)
     else let n = nat (rb_offset s b - 63);
              i = nat (rb_offset s b) - n;
              b1 = rb_shift n b
          in if rb_slots b1 ! i \<noteq> None then (rb_out n b @ [SkbFree s], b1)
             else let (out, b2) = rb_drain (b1\<lparr>rb_slots := (rb_slots b1)[i := Some (s, rs)]\<rparr>)
                  in (rb_out n b @ out, b2))"

section \<open>The abstraction and the invariant\<close>

definition slot_of :: "drv_rxdesc \<Rightarrow> slot" where
  "slot_of d = map_option (\<lambda>s. (s, rx_rs d)) (rx_wbuf d)"

definition rx_abs :: "drv_rx_scoreboard \<Rightarrow> rbuf" where
  "rx_abs t = \<lparr>rb_next = rx_seq_next t, rb_slots = map slot_of (take 64 (window t))\<rparr>"

text \<open>Every frame held lies within the span and the first 64 slots, at the offset of its
  sequence number.\<close>

definition held_ok :: "drv_rx_scoreboard \<Rightarrow> bool" where
  "held_ok t \<longleftrightarrow> (\<forall>k s. k < 128 \<longrightarrow> rx_wbuf (window t ! k) = Some s \<longrightarrow>
     int k < span t \<and> k < 64 \<and> rxseq s = (rx_seq_next t + int k) mod 4096)"

text \<open>The ring of a scoreboard with a block-ack session whatever its timer does, such a
  scoreboard with its timer at rest, and any scoreboard.\<close>

definition ring_ok :: "drv_rx_scoreboard \<Rightarrow> bool" where
  "ring_ok t \<longleftrightarrow> ring_wf t \<and> held_ok t \<and> rx_baw_size t = 64 \<and>
     (seq_reset t \<longrightarrow> frames (window t) = [])"

definition session_ok :: "drv_rx_scoreboard \<Rightarrow> bool" where
  "session_ok t \<longleftrightarrow> ring_wf t \<and> held_ok t \<and> rx_baw_size t = 64 \<and> timer_ok (rx_timer t) \<and>
     (seq_reset t \<longrightarrow> frames (window t) = [])"

definition rx_inv :: "drv_rx_scoreboard \<Rightarrow> bool" where
  "rx_inv t \<longleftrightarrow> rx_baw_size t = 64 \<and> timer_ok (rx_timer t) \<and>
     (if rx_addba_exchangecomplete t then session_ok t
      else pRxDesc t = None \<and> rx_baw_head t = rx_baw_tail t \<and>
        0 \<le> rx_baw_head t \<and> rx_baw_head t < 128 \<and> 0 \<le> rx_seq_next t \<and> rx_seq_next t < 4096)"

lemma session_ring: "session_ok t \<longleftrightarrow> ring_ok t \<and> timer_ok (rx_timer t)"
  by (auto simp: session_ok_def ring_ok_def)

lemma slot_of_None [simp]: "slot_of d = None \<longleftrightarrow> rx_wbuf d = None" "None = slot_of d \<longleftrightarrow> rx_wbuf d = None"
  by (auto simp: slot_of_def)

lemma slot_of_empty [simp]: "slot_of (empty_desc d) = None"
  by simp

lemma evs_slots: "evs up_event ds = up_evs (map slot_of ds)"
proof (induction ds)
  case (Cons d ds)
  then show ?case
    by (cases "rx_wbuf d") (simp_all add: evs_def up_evs_def slot_of_def up_event_def)
qed (simp add: up_evs_def)

lemma length_abs [simp]: "ring_wf t \<Longrightarrow> length (rb_slots (rx_abs t)) = 64"
  by (simp add: rx_abs_def)

lemma length_rb_shift [simp]: "length (rb_slots (rb_shift n b)) = length (rb_slots b)"
  by (simp add: rb_shift_def)

lemma shift_list_Suc:
  assumes "B \<noteq> []"
  shows "drop (Suc 0) (drop n B @ replicate (min n (length B)) None) @ [None] =
     drop (Suc n) B @ replicate (min (Suc n) (length B)) (None :: slot)"
proof (cases "n < length B")
  case True
  then have "drop n B = B ! n # drop (Suc n) B" by (simp add: Cons_nth_drop_Suc)
  with True show ?thesis by (simp add: replicate_append_same)
next
  case False
  with assms show ?thesis by (cases "length B") (auto simp: replicate_append_same)
qed

lemma rb_shift_Suc:
  assumes "rb_slots b \<noteq> []"
  shows "rb_shift (Suc 0) (rb_shift n b) = rb_shift (Suc n) b"
proof -
  have "min (Suc 0) (length (rb_slots b)) = Suc 0" using assms by (cases "rb_slots b") auto
  then show ?thesis using shift_list_Suc [of "rb_slots b" n] assms
    by (simp add: rb_shift_def mod_simps algebra_simps)
qed

lemma rb_shift_0: "0 \<le> rb_next b \<Longrightarrow> rb_next b < 4096 \<Longrightarrow> rb_shift 0 b = b"
  by (simp add: rb_shift_def)

lemma held_okD:
  "held_ok t \<Longrightarrow> k < 128 \<Longrightarrow> rx_wbuf (window t ! k) = Some s \<Longrightarrow>
     int k < span t \<and> k < 64 \<and> rxseq s = (rx_seq_next t + int k) mod 4096"
  by (simp add: held_ok_def)

lemma held_range:
  assumes "held_ok t" "k < 128" "rx_wbuf (window t ! k) \<noteq> None"
  shows "k < nat (span t)" "k < 64"
  using assms held_okD [OF assms(1,2)] by fastforce+

lemma held_ok_beyond: "held_ok t \<Longrightarrow> 64 \<le> k \<Longrightarrow> k < 128 \<Longrightarrow> rx_wbuf (window t ! k) = None"
  by (cases "rx_wbuf (window t ! k)") (auto simp: held_ok_def)

lemma window_nth_pop:
  assumes "ring_wf t" "k < 128"
  shows "window (pop t) ! k = (if k = 127 then empty_desc (hd (window t)) else window t ! Suc k)"
proof -
  obtain d W where W: "window t = d # W" "length W = 127"
    using length_window [OF assms(1)] by (cases "window t") auto
  then show ?thesis using assms by (simp add: window_pop nth_append)
qed

lemma held_ok_pop:
  assumes "ring_wf t" "held_ok t"
  shows "held_ok (pop t)"
  unfolding held_ok_def
proof (intro allI impI)
  fix k s assume k: "k < 128" "rx_wbuf (window (pop t) ! k) = Some s"
  then have k': "k < 127" "rx_wbuf (window t ! Suc k) = Some s"
    using assms(1) by (auto simp: window_nth_pop split: if_splits)
  then have *: "int (Suc k) < span t \<and> Suc k < 64 \<and> rxseq s = (rx_seq_next t + int (Suc k)) mod 4096"
    by (intro held_okD [OF assms(2)]) simp_all
  then have "span (pop t) = span t - 1" using assms(1) by (intro span_pop_less) auto
  with * show "int k < span (pop t) \<and> k < 64 \<and> rxseq s = (rx_seq_next (pop t) + int k) mod 4096"
    using assms(1) by (simp add: seq_pop mod_simps algebra_simps)
qed

lemma rx_abs_pop:
  assumes "ring_wf t" "held_ok t"
  shows "rx_abs (pop t) = rb_shift (Suc 0) (rx_abs t)"
proof -
  obtain d W where W: "window t = d # W" "length W = 127"
    using length_window [OF assms(1)] by (cases "window t") auto
  have "rx_wbuf (W ! 63) = None" using held_ok_beyond [OF assms(2), of 64] W by simp
  moreover have "take 64 W = take 63 W @ [W ! 63]"
    using take_Suc_conv_app_nth [of 63 W] W by simp
  ultimately show ?thesis using assms W
    by (simp add: rx_abs_def rb_shift_def window_pop seq_pop min_def)
qed

lemma held_ok_popn: "ring_wf t \<Longrightarrow> held_ok t \<Longrightarrow> held_ok (popn n t)"
  by (induction n) (simp_all add: held_ok_pop)

lemma rx_abs_popn: "ring_wf t \<Longrightarrow> held_ok t \<Longrightarrow> rx_abs (popn n t) = rb_shift n (rx_abs t)"
proof (induction n)
  case 0
  then show ?case by (simp add: rb_shift_0 rx_abs_def ring_wf_def)
next
  case (Suc n)
  moreover have "rb_slots (rx_abs t) \<noteq> []" using length_abs [OF Suc.prems(1)] by auto
  ultimately show ?case by (simp add: rx_abs_pop held_ok_popn rb_shift_Suc)
qed

text \<open>The events of n pops are those of the first n places of the buffer.\<close>

lemma evs_take:
  assumes "ring_wf t" "held_ok t"
  shows "evs up_event (take n (window t)) = rb_out n (rx_abs t)"
proof -
  have "map slot_of (drop 64 (window t)) = replicate 64 None"
    using held_ok_beyond [OF assms(2)] assms(1) by (intro nth_equalityI) auto
  then have "map slot_of (window t) = map slot_of (take 64 (window t)) @ replicate 64 None"
    by (metis append_take_drop_id map_append)
  then have "take n (map slot_of (window t)) =
      take n (map slot_of (take 64 (window t))) @ take (n - 64) (replicate 64 None)"
    using arg_cong [of "map slot_of (window t)" _ "take n"] assms(1) by simp
  then show ?thesis
    by (simp add: evs_slots rb_out_def rx_abs_def up_evs_def take_map)
qed

section \<open>Runs, stores and resets on the buffer\<close>

lemma takeWhile_take: "takeWhile P (take n xs) = take n (takeWhile P xs)"
  by (induction xs arbitrary: n) (auto simp: take_Cons split: nat.splits)

lemma takeWhile_bound:
  assumes "\<And>k. k < length xs \<Longrightarrow> P (xs ! k) \<Longrightarrow> k < m"
  shows "length (takeWhile P xs) \<le> m"
proof (rule ccontr)
  assume "\<not> length (takeWhile P xs) \<le> m"
  then have "m < length (takeWhile P xs)" by simp
  then have "P (takeWhile P xs ! m)" "takeWhile P xs ! m = xs ! m" "m < length xs"
    by (simp_all add: takeWhile_nth) (metis nth_mem set_takeWhileD takeWhile_nth,
        meson length_takeWhile_le order_less_le_trans)
  then show False using assms [of m] by simp
qed

lemma run_length_abs:
  assumes "ring_wf t" "held_ok t"
  shows "run_length t = rb_run (rx_abs t)"
proof -
  let ?P = "\<lambda>d. rx_wbuf d \<noteq> None"
  let ?r = "length (takeWhile ?P (window t))"
  have "?r \<le> nat (span t)"
    by (rule takeWhile_bound) (use assms held_range [OF assms(2)] in simp)
  moreover have "?r \<le> 64"
    by (rule takeWhile_bound) (use assms held_range [OF assms(2)] in simp)
  ultimately have "run_length t = ?r" "length (takeWhile ?P (take 64 (window t))) = ?r"
    by (simp_all add: run_length_def takeWhile_take min_def)
  moreover have "rb_run (rx_abs t) = length (takeWhile ?P (take 64 (window t)))"
    by (simp add: rb_run_def rx_abs_def takeWhile_map comp_def del: not_None_eq)
  ultimately show ?thesis by simp
qed

lemma run_length_span:
  assumes "ring_wf t" "held_ok t"
  shows "int (run_length t) \<le> span t"
proof -
  have "length (takeWhile (\<lambda>d. rx_wbuf d \<noteq> None) (window t)) \<le> nat (span t)"
    by (rule takeWhile_bound) (use assms held_range [OF assms(2)] in simp)
  then show ?thesis using span_range [of t] by (simp add: run_length_def takeWhile_take)
qed

lemma frames_Nil_held: "ring_wf t \<Longrightarrow> frames (window t) = [] \<Longrightarrow> held_ok t"
  by (auto simp: held_ok_def frames_def somes_eq_Nil)

lemma frames_Nil_pop:
  assumes "ring_wf t" "frames (window t) = []"
  shows "frames (window (pop t)) = []"
proof -
  obtain d W where W: "window t = d # W" using length_window [OF assms(1)] by (cases "window t") auto
  then have "frames W = []" using assms(2) by (cases "rx_wbuf d") simp_all
  then show ?thesis using W assms(1) by (simp add: window_pop)
qed

lemma frames_Nil_popn: "ring_wf t \<Longrightarrow> frames (window t) = [] \<Longrightarrow> frames (window (popn n t)) = []"
  by (induction n) (simp_all add: frames_Nil_pop)

lemma session_popn [simp]: "session_ok t \<Longrightarrow> session_ok (popn n t)"
  by (auto simp: session_ok_def held_ok_popn frames_Nil_popn)

lemma ring_popn [simp]: "ring_ok t \<Longrightarrow> ring_ok (popn n t)"
  by (auto simp: ring_ok_def held_ok_popn frames_Nil_popn)

text \<open>Storing a frame at an offset of the window.\<close>

lemma input_store_window:
  assumes "ring_wf t" "0 \<le> i" "i < 128"
  shows "window (input_store now i s rs t) =
    (window t)[nat i := \<lparr>rx_wbuf = Some s, rx_time = now, rx_rs = rs\<rparr>]"
proof -
  have "window (set_rxdesc ((rx_baw_head t + i) mod 128) d t) = (window t)[nat i := d]" for d
    using window_set [OF assms(1), of "nat i" d] assms by simp
  moreover have "window (u\<lparr>rx_baw_tail := x\<rparr>) = window u" for u x
    by (simp add: window_def cong: option.case_cong)
  ultimately show ?thesis by (simp add: input_store_def Let_def)
qed

lemma input_store_fields [simp]:
  "rx_baw_head (input_store now i s rs t) = rx_baw_head t"
  "rx_seq_next (input_store now i s rs t) = rx_seq_next t"
  "rx_baw_size (input_store now i s rs t) = rx_baw_size t"
  "seq_reset (input_store now i s rs t) = seq_reset t"
  "rx_timer (input_store now i s rs t) = rx_timer t"
  "rx_addba_exchangecomplete (input_store now i s rs t) = rx_addba_exchangecomplete t"
  by (simp_all add: input_store_def Let_def)

lemma ring_wf_store: "ring_wf t \<Longrightarrow> ring_wf (input_store now i s rs t)"
  by (auto simp: ring_wf_def input_store_def Let_def set_rxdesc_def CIRCLE_Add_One_mod)

lemma input_store_span:
  assumes "0 \<le> i" "i < 64"
  shows "span (input_store now i s rs t) = max (span t) (i + 1)"
proof (cases "span t \<le> i")
  case True
  have "((rx_baw_head t + i + 1) mod 128 - rx_baw_head t) mod 128 = (i + 1) mod 128"
    by (simp add: mod_simps)
  with True assms show ?thesis
    by (simp add: input_store_def Let_def span_def CIRCLE_Add_One_mod mod_simps algebra_simps)
next
  case False
  then show ?thesis by (simp add: input_store_def Let_def span_def)
qed

lemma held_ok_store:
  assumes "ring_wf t" "held_ok t" "0 \<le> i" "i < 64" "rxseq s = (rx_seq_next t + i) mod 4096"
  shows "held_ok (input_store now i s rs t)"
  unfolding held_ok_def
proof (intro allI impI)
  fix k x assume k: "k < 128" "rx_wbuf (window (input_store now i s rs t) ! k) = Some x"
  show "int k < span (input_store now i s rs t) \<and> k < 64 \<and>
      rxseq x = (rx_seq_next (input_store now i s rs t) + int k) mod 4096"
  proof (cases "k = nat i")
    case True
    then show ?thesis using k assms
      by (auto simp: input_store_window input_store_span)
  next
    case False
    then have "rx_wbuf (window t ! k) = Some x" using k assms by (simp add: input_store_window)
    then show ?thesis using held_okD [OF assms(2) k(1)] assms by (auto simp: input_store_span)
  qed
qed

lemma rx_abs_store:
  assumes "ring_wf t" "0 \<le> i" "i < 64"
  shows "rx_abs (input_store now i s rs t) =
    (rx_abs t)\<lparr>rb_slots := (rb_slots (rx_abs t))[nat i := Some (s, rs)]\<rparr>"
proof -
  have "take 64 ((window t)[nat i := d]) = (take 64 (window t))[nat i := d]" for d
    using assms by (simp add: take_update_swap)
  then show ?thesis using assms
    by (simp add: rx_abs_def input_store_window map_update slot_of_def)
qed

end
