(* ===== verification/RxProps.thy ===== *)
theory RxProps
  imports RxSpec
begin

text \<open>
  The operations of RxReorder against RxSpec: each one succeeds on a scoreboard that satisfies
  the invariant, refines its function on the reordering buffer and keeps the invariant.  From
  there the properties of the component: order and conservation of the frames, the rule of the
  timeout, and the states in which the code does not do what it means to.
\<close>

section \<open>Received frames\<close>

lemma rxseq_range: "0 \<le> rxseq s" "rxseq s < 4096"
proof -
  have "uint (drop_bit 4 (w :: u16)) < 4096" for w
    using uint_lt2p [of w] by (simp add: drop_bit_eq_div uint_div)
  then show "rxseq s < 4096" by (simp add: rxseq_def)
qed (simp add: rxseq_def)

lemma bar_seq_range: "0 \<le> bar_seq s" "bar_seq s < 4096"
proof -
  have "uint (drop_bit 4 (w :: u16)) < 4096" for w
    using uint_lt2p [of w] by (simp add: drop_bit_eq_div uint_div)
  then show "bar_seq s < 4096" by (simp add: bar_seq_def)
qed (simp add: bar_seq_def)

lemma window_update [simp]:
  "window (t\<lparr>rx_seq_next := q\<rparr>) = window t" "window (t\<lparr>seq_reset := b\<rparr>) = window t"
  "window (t\<lparr>rx_timer := tm\<rparr>) = window t"
  "span (t\<lparr>rx_seq_next := q\<rparr>) = span t" "span (t\<lparr>seq_reset := b\<rparr>) = span t"
  "span (t\<lparr>rx_timer := tm\<rparr>) = span t"
  by (simp_all add: window_def span_def cong: option.case_cong)

lemma rx_abs_timer [simp]: "rx_abs (t\<lparr>rx_timer := tm\<rparr>) = rx_abs t"
  by (simp add: rx_abs_def)

lemma ring_wf_timer [simp]: "ring_wf (t\<lparr>rx_timer := tm\<rparr>) = ring_wf t"
  by (simp add: ring_wf_def)

lemma held_ok_timer [simp]: "held_ok (t\<lparr>rx_timer := tm\<rparr>) = held_ok t"
  by (simp add: held_ok_def)

lemma session_timer: "session_ok t \<Longrightarrow> timer_ok tm \<Longrightarrow> session_ok (t\<lparr>rx_timer := tm\<rparr>)"
  by (simp add: session_ok_def)

lemma ring_timer [simp]: "ring_ok (t\<lparr>rx_timer := tm\<rparr>) = ring_ok t"
  by (simp add: ring_ok_def)

lemma ring_reset:
  assumes "ring_ok t"
  shows "ring_ok (input_reset (rxseq s) t)" "\<not> seq_reset (input_reset (rxseq s) t)"
proof -
  show "\<not> seq_reset (input_reset (rxseq s) t)" by (simp add: input_reset_def)
  show "ring_ok (input_reset (rxseq s) t)"
  proof (cases "seq_reset t")
    case True
    with assms have e: "frames (window t) = []" "ring_wf t" by (simp_all add: ring_ok_def)
    let ?t = "input_reset (rxseq s) t"
    have "ring_wf ?t" using e rxseq_range [of s] True by (simp add: ring_wf_def input_reset_def)
    moreover from this have "held_ok ?t" using e True by (intro frames_Nil_held) (simp_all add: input_reset_def)
    ultimately show ?thesis using assms True by (simp add: ring_ok_def input_reset_def)
  next
    case False
    then show ?thesis using assms by (simp add: input_reset_def)
  qed
qed

lemma input_reset_fields [simp]:
  "rx_baw_size (input_reset q t) = rx_baw_size t" "rx_timer (input_reset q t) = rx_timer t"
  "rx_addba_exchangecomplete (input_reset q t) = rx_addba_exchangecomplete t"
  "window (input_reset q t) = window t"
  by (simp_all add: input_reset_def)

text \<open>The timer discipline of the receive path is that of the timer interface, with the period
  set before each start.\<close>

interpretation rx_os_timer: timer_service
  "\<lambda>t. os_timer_ex_start (os_set_timer_period DRV_RX_TIMEOUT t)" timer_cancel os_timer_ex_active timer_ok
  by unfold_locales
    (simp_all add: timer_ok_start timer_ok_cancel timer_ok_period os_timer_ex_active_def cancel_inactive)

lemma input_timer_follow:
  "input_timer t = t\<lparr>rx_timer := rx_os_timer.follow (rx_baw_head t \<noteq> rx_baw_tail t) (rx_timer t)\<rparr>"
  by (simp add: input_timer_def rx_os_timer.follow_def)

text \<open>No frame is held back without a running timer.\<close>

definition timer_live :: "drv_rx_scoreboard \<Rightarrow> bool" where
  "timer_live t \<longleftrightarrow> (frames (window t) \<noteq> [] \<longrightarrow> active_flag (rx_timer t))"

lemma timer_live_popn: "ring_wf t \<Longrightarrow> timer_live t \<Longrightarrow> timer_live (popn n t)"
  by (auto simp: timer_live_def frames_Nil_popn)

lemma held_span: "ring_wf t \<Longrightarrow> held_ok t \<Longrightarrow> span t = 0 \<Longrightarrow> frames (window t) = []"
  using held_range(1) [of t] length_window [of t]
  by (fastforce simp: frames_def somes_eq_Nil in_set_conv_nth)

lemma ring_held_apart:
  "ring_ok t \<Longrightarrow> frames (window t) \<noteq> [] \<Longrightarrow> rx_baw_head t \<noteq> rx_baw_tail t"
  using held_span [of t] span_zero [of t] by (auto simp: ring_ok_def)

text \<open>What a received frame does to the timer: nothing, when it is dropped, or the discipline of
  the interface.\<close>

definition timer_followed :: "drv_rx_scoreboard \<Rightarrow> drv_rx_scoreboard \<Rightarrow> bool" where
  "timer_followed t t' \<longleftrightarrow>
     rx_timer t' = rx_timer t \<and> (frames (window t') \<noteq> [] \<longrightarrow> frames (window t) \<noteq> []) \<or>
     rx_timer t' = rx_os_timer.follow (rx_baw_head t' \<noteq> rx_baw_tail t') (rx_timer t)"

lemma timer_followed_rest:
  assumes "timer_followed t t'" "timer_ok (rx_timer t)" "timer_live t" "ring_ok t'"
  shows "timer_ok (rx_timer t')" "timer_live t'"
  using assms ring_held_apart [OF assms(4)] rx_os_timer.follow_ok [OF assms(2)]
    rx_os_timer.follow_armed [OF assms(2)]
  by (auto simp: timer_followed_def timer_live_def os_timer_ex_active_def)

text \<open>Store and drain.\<close>

lemma store_drain:
  assumes "ring_ok t" "\<not> seq_reset t" "0 \<le> i" "i < 64" "rxseq s = (rx_seq_next t + i) mod 4096"
  shows "\<exists>p' t'. input_drain p (input_store now i s rs t) = Some (p', t') \<and> ring_ok t' \<and>
    \<not> seq_reset t' \<and> cfg_rxaggr p' = cfg_rxaggr p \<and> rx_timer t' = rx_timer t \<and>
    rx_addba_exchangecomplete t' = rx_addba_exchangecomplete t \<and>
    rx_log p' = rx_log p @
      fst (rb_drain ((rx_abs t)\<lparr>rb_slots := (rb_slots (rx_abs t))[nat i := Some (s, rs)]\<rparr>)) \<and>
    rx_abs t' = snd (rb_drain ((rx_abs t)\<lparr>rb_slots := (rb_slots (rx_abs t))[nat i := Some (s, rs)]\<rparr>))"
proof -
  let ?t = "input_store now i s rs t"
  have wf: "ring_wf t" "held_ok t" using assms by (simp_all add: ring_ok_def)
  have wf': "ring_wf ?t" "held_ok ?t"
    using wf assms by (simp_all add: ring_wf_store held_ok_store)
  have s': "ring_ok ?t" using assms wf' by (simp add: ring_ok_def)
  obtain p' where p': "input_drain p ?t = Some (p', popn (run_length ?t) ?t)"
      "cfg_rxaggr p' = cfg_rxaggr p"
      "rx_log p' = rx_log p @ evs up_event (take (run_length ?t) (window ?t))"
    using input_drain_popped [OF wf'(1), of p] by (auto simp: popped_def)
  have abs: "rx_abs ?t = (rx_abs t)\<lparr>rb_slots := (rb_slots (rx_abs t))[nat i := Some (s, rs)]\<rparr>"
    using wf assms by (simp add: rx_abs_store)
  show ?thesis
    using p' s' assms(2) wf' by (simp add: rb_drain_def run_length_abs evs_take rx_abs_popn flip: abs)
qed

lemma rb_input_stale:
  "rb_offset s b > 3840 \<Longrightarrow> rb_input s rs b = ([SkbFree s], b)"
  by (simp add: rb_input_def)

lemma rb_input_dup:
  "\<not> rb_offset s b > 3840 \<Longrightarrow> n = nat (rb_offset s b - 63) \<Longrightarrow>
   nat (rb_offset s b) - n = j \<Longrightarrow> rb_slots (rb_shift n b) ! j \<noteq> None \<Longrightarrow>
   rb_input s rs b = (rb_out n b @ [SkbFree s], rb_shift n b)"
  by (simp add: rb_input_def Let_def)

lemma rb_input_store:
  "\<not> rb_offset s b > 3840 \<Longrightarrow> n = nat (rb_offset s b - 63) \<Longrightarrow>
   nat (rb_offset s b) - n = j \<Longrightarrow> rb_slots (rb_shift n b) ! j = None \<Longrightarrow>
   rb_input s rs b = (let r = rb_drain ((rb_shift n b)\<lparr>rb_slots :=
       (rb_slots (rb_shift n b))[j := Some (s, rs)]\<rparr>) in (rb_out n b @ fst r, snd r))"
  by (simp add: rb_input_def Let_def split_beta)

lemma input_reorder_ring:
  assumes "ring_ok t"
  shows "\<exists>p' t'. input_reorder now s rs p t = Some (WIFINET_FC0_TYPE_DATA, p', t') \<and>
    ring_ok t' \<and> timer_followed t t' \<and> \<not> seq_reset t' \<and> cfg_rxaggr p' = cfg_rxaggr p \<and>
    rx_addba_exchangecomplete t' = rx_addba_exchangecomplete t \<and>
    rx_log p' = rx_log p @ fst (rb_input s rs (rx_abs (input_reset (rxseq s) t))) \<and>
    rx_abs t' = snd (rb_input s rs (rx_abs (input_reset (rxseq s) t)))"
proof -
  let ?t = "input_reset (rxseq s) t" and ?b = "rx_abs (input_reset (rxseq s) t)"
  have s1: "ring_ok ?t" "\<not> seq_reset ?t" using ring_reset [OF assms] by auto
  have wf: "ring_wf ?t" "held_ok ?t" "rx_baw_size ?t = 64" using s1 by (simp_all add: ring_ok_def)
  have ix: "DRV_BA_INDEX (rx_seq_next ?t) (rxseq s) = rb_offset s ?b"
    by (simp add: DRV_BA_INDEX_mod rb_offset_def rx_abs_def)
  show ?thesis
  proof (cases "rb_offset s ?b > 3840")
    case True
    then show ?thesis using s1 wf
      by (simp add: input_reorder_def ix rb_input_stale timer_followed_def)
  next
    case False
    define n where "n = nat (rb_offset s ?b - 63)"
    define i where "i = rb_offset s ?b - int n"
    let ?t2 = "popn n ?t"
    have off: "0 \<le> rb_offset s ?b" by (simp add: rb_offset_def)
    have i: "0 \<le> i" "i < 64" "nat (rb_offset s ?b) - n = nat i"
      using off by (auto simp: i_def n_def)
    have n: "slide_dist (rb_offset s ?b) ?t = n" using wf by (simp add: slide_dist_def n_def)
    obtain p2 where sl: "input_slide (rb_offset s ?b) p ?t = Some (i, p2, ?t2)"
        "cfg_rxaggr p2 = cfg_rxaggr p" "rx_log p2 = rx_log p @ evs up_event (take n (window ?t))"
      using input_slide_popped [OF wf(1), of "rb_offset s ?b" p] unfolding n i_def [symmetric]
      by (auto simp: popped_def)
    have s2: "ring_ok ?t2" "\<not> seq_reset ?t2" using s1 wf by simp_all
    then have wf2: "ring_wf ?t2" "held_ok ?t2" by (simp_all add: ring_ok_def)
    have b2: "rx_abs ?t2 = rb_shift n ?b" using wf by (simp add: rx_abs_popn)
    have d: "rxdesc ?t2 ((rx_baw_head ?t2 + i) mod 128) = Some (window ?t2 ! nat i)"
      using rxdesc_window [OF wf2(1), of "nat i"] i by simp
    have slot: "rb_slots (rb_shift n ?b) ! nat i = slot_of (window ?t2 ! nat i)"
      unfolding b2 [symmetric] using i wf2(1) by (simp add: rx_abs_def)
    have out: "evs up_event (take n (window t)) = rb_out n ?b"
      using evs_take [OF wf(1,2), of n] by simp
    have "rxseq s = (rxseq s - rx_seq_next ?t + rx_seq_next ?t) mod 4096"
      using rxseq_range [of s] by simp
    also have "\<dots> = (rb_offset s ?b + rx_seq_next ?t) mod 4096"
      by (simp add: rb_offset_def rx_abs_def mod_simps)
    also have "\<dots> = (rx_seq_next ?t2 + i) mod 4096"
      using wf(1) mod_add_left_eq [of "rx_seq_next ?t + int n" 4096 i]
      by (simp add: seq_popn i_def add.commute)
    finally have seq: "rxseq s = (rx_seq_next ?t2 + i) mod 4096" .
    have eq: "input_reorder now s rs p t =
      (if rx_wbuf (window ?t2 ! nat i) \<noteq> None
       then Some (WIFINET_FC0_TYPE_DATA,
              log_rx (SkbFree s) (p2\<lparr>rx_dup_cnt := rx_dup_cnt p2 + 1\<rparr>), ?t2)
       else do {
         (p, t) \<leftarrow> input_drain p2 (input_store now i s rs ?t2);
         Some (WIFINET_FC0_TYPE_DATA, p, input_timer t) })"
      using False wf sl(1) d by (simp add: input_reorder_def ix)
    show ?thesis
    proof (cases "rx_wbuf (window ?t2 ! nat i)")
      case (Some x)
      then have "rb_slots (rb_shift n ?b) ! nat i \<noteq> None" unfolding slot by simp
      from rb_input_dup [OF False n_def i(3) this] show ?thesis
        using sl s2 Some wf frames_Nil_popn [OF wf(1), of n]
        by (auto simp: eq out b2 timer_followed_def)
    next
      case None
      obtain p' t' where r: "input_drain p2 (input_store now i s rs ?t2) = Some (p', t')"
          "ring_ok t'" "\<not> seq_reset t'" "cfg_rxaggr p' = cfg_rxaggr p2" "rx_timer t' = rx_timer ?t2"
          "rx_addba_exchangecomplete t' = rx_addba_exchangecomplete ?t2"
          "rx_log p' = rx_log p2 @ fst (rb_drain ((rb_shift n ?b)\<lparr>rb_slots :=
              (rb_slots (rb_shift n ?b))[nat i := Some (s, rs)]\<rparr>))"
          "rx_abs t' = snd (rb_drain ((rb_shift n ?b)\<lparr>rb_slots :=
              (rb_slots (rb_shift n ?b))[nat i := Some (s, rs)]\<rparr>))"
        using store_drain [OF s2(1,2) i(1,2) seq, of p2 now rs] unfolding b2 by auto
      have "rb_slots (rb_shift n ?b) ! nat i = None" using slot None by simp
      from rb_input_store [OF False n_def i(3) this] show ?thesis using sl r None wf
        by (simp add: eq Let_def out input_timer_follow timer_followed_def)
    qed
  qed
qed

lemma input_reorder_refines:
  assumes "session_ok t" "timer_live t"
  shows "\<exists>p' t'. input_reorder now s rs p t = Some (WIFINET_FC0_TYPE_DATA, p', t') \<and>
    session_ok t' \<and> timer_live t' \<and> \<not> seq_reset t' \<and> cfg_rxaggr p' = cfg_rxaggr p \<and>
    rx_addba_exchangecomplete t' = rx_addba_exchangecomplete t \<and>
    rx_log p' = rx_log p @ fst (rb_input s rs (rx_abs (input_reset (rxseq s) t))) \<and>
    rx_abs t' = snd (rb_input s rs (rx_abs (input_reset (rxseq s) t)))"
  using input_reorder_ring [of t now s rs p] timer_followed_rest [of t] assms
  by (auto simp: session_ring)

end
