(* ===== verification/RxOrder.thy ===== *)
theory RxOrder
  imports RxProps
begin

text \<open>
  The remaining operations of RxReorder and the properties that hold along any sequence of
  operations on a session: the frames go up in the order of their sequence numbers, each frame
  received is delivered, freed or held exactly once, and no operation faults or loops.
\<close>

section \<open>Effects on the buffer\<close>

text \<open>The frames an event list delivers, and all the frames it hands over or frees.\<close>

fun up_frame :: "rx_event \<Rightarrow> sk_buff option" where
  "up_frame (MacInput s _) = Some s" |
  "up_frame _ = None"

fun gone_frame :: "rx_event \<Rightarrow> sk_buff option" where
  "gone_frame (MacInput s _) = Some s" |
  "gone_frame (SkbFree s) = Some s" |
  "gone_frame _ = None"

definition delivered :: "rx_event list \<Rightarrow> sk_buff list" where
  "delivered es = somes (map up_frame es)"

definition gone :: "rx_event list \<Rightarrow> sk_buff list" where
  "gone es = somes (map gone_frame es)"

definition rb_held :: "rbuf \<Rightarrow> sk_buff list" where
  "rb_held b = map fst (somes (rb_slots b))"

lemma delivered_simps [simp]:
  "delivered [] = []" "delivered (es @ fs) = delivered es @ delivered fs"
  "delivered (SkbFree s # es) = delivered es" "delivered (MacInput s r # es) = s # delivered es"
  by (simp_all add: delivered_def)

lemma gone_simps [simp]:
  "gone [] = []" "gone (es @ fs) = gone es @ gone fs"
  "gone (SkbFree s # es) = s # gone es" "gone (MacInput s r # es) = s # gone es"
  by (simp_all add: gone_def)

lemma up_evs_frames [simp]:
  "delivered (up_evs B) = map fst (somes B)" "gone (up_evs B) = map fst (somes B)"
  by (induction B rule: somes.induct) (auto simp: up_evs_def)

text \<open>Frames in order after q: their distances from q in the cyclic sequence space grow from one
  frame to the next, and all of them lie below n.\<close>

definition seq_dist :: "int \<Rightarrow> sk_buff \<Rightarrow> int" where
  "seq_dist q f = (rxseq f - q) mod 4096"

definition in_order :: "int \<Rightarrow> nat \<Rightarrow> sk_buff list \<Rightarrow> bool" where
  "in_order q n fs \<longleftrightarrow> sorted_wrt (\<lambda>f g. seq_dist q f < seq_dist q g) fs \<and>
     (\<forall>f\<in>set fs. seq_dist q f < int n)"

lemma in_order_Nil [simp]: "in_order q n []"
  by (simp add: in_order_def)

lemma in_order_take: "in_order q n fs \<Longrightarrow> in_order q n (take k fs)"
  by (auto simp: in_order_def sorted_wrt_take dest: in_set_takeD)

lemma in_order_mono: "in_order q n fs \<Longrightarrow> n \<le> m \<Longrightarrow> in_order q m fs"
  by (force simp: in_order_def)

lemma seq_dist_shift:
  assumes "seq_dist ((q + int n) mod 4096) f < int m" "n + m \<le> 4096"
  shows "seq_dist q f = int n + seq_dist ((q + int n) mod 4096) f"
proof -
  have "seq_dist q f = (int n + (rxseq f - (q + int n) mod 4096)) mod 4096"
    by (simp add: seq_dist_def mod_simps algebra_simps)
  also have "\<dots> = (int n + seq_dist ((q + int n) mod 4096) f) mod 4096"
    unfolding seq_dist_def by (rule mod_add_right_eq [symmetric])
  also have "\<dots> = int n + seq_dist ((q + int n) mod 4096) f"
    using assms by (intro mod_pos_pos_trivial) (simp_all add: seq_dist_def)
  finally show ?thesis .
qed

lemma in_order_append:
  assumes "in_order q n fs" "in_order ((q + int n) mod 4096) m gs" "n + m \<le> 4096"
  shows "in_order q (n + m) (fs @ gs)"
proof -
  have g: "seq_dist q g = int n + seq_dist ((q + int n) mod 4096) g"
      "0 \<le> seq_dist ((q + int n) mod 4096) g" "seq_dist ((q + int n) mod 4096) g < int m"
    if "g \<in> set gs" for g
    using seq_dist_shift [of q n g m] assms that by (auto simp: in_order_def seq_dist_def)
  have "sorted_wrt (\<lambda>f g. seq_dist q f < seq_dist q g) gs"
    using assms(2) g by (auto simp: in_order_def elim!: sorted_wrt_mono_rel [rotated])
  moreover have "seq_dist q f < seq_dist q h" if "f \<in> set fs" "h \<in> set gs" for f h
    using assms(1) that(1) g [OF that(2)] by (force simp: in_order_def)
  ultimately show ?thesis using assms(1) g
    by (force simp: in_order_def sorted_wrt_append)
qed

text \<open>A buffer whose frames are at the places of their sequence numbers.\<close>

definition rb_ok :: "rbuf \<Rightarrow> bool" where
  "rb_ok b \<longleftrightarrow> length (rb_slots b) = 64 \<and> 0 \<le> rb_next b \<and> rb_next b < 4096 \<and>
     (\<forall>k s r. k < 64 \<longrightarrow> rb_slots b ! k = Some (s, r) \<longrightarrow> rxseq s = (rb_next b + int k) mod 4096)"

lemma somes_in_order:
  "(\<And>k s r. k < length B \<Longrightarrow> B ! k = Some (s, r) \<Longrightarrow> rxseq s = (q + int k) mod 4096) \<Longrightarrow>
     length B \<le> 4096 \<Longrightarrow> in_order q (length B) (map fst (somes B))"
proof (induction B rule: rev_induct)
  case (snoc y B)
  have "in_order q (length B) (map fst (somes B))"
  proof (rule snoc.IH)
    fix k s r assume "k < length B" "B ! k = Some (s, r)"
    then show "rxseq s = (q + int k) mod 4096"
      using snoc.prems(1) [of k s r] by (simp add: nth_append)
  qed (use snoc.prems in simp)
  moreover have "in_order ((q + int (length B)) mod 4096) 1 (map fst (somes [y]))"
  proof (cases y)
    case (Some x)
    then show ?thesis using snoc.prems(1) [of "length B" "fst x" "snd x"]
      by (simp add: in_order_def seq_dist_def)
  qed simp
  ultimately show ?case using in_order_append [of q "length B" _ 1] snoc.prems(2) by fastforce
qed simp

lemma rb_out_in_order:
  assumes "rb_ok b" "n \<le> 4096"
  shows "in_order (rb_next b) n (delivered (rb_out n b))"
proof -
  have "in_order (rb_next b) (length (take n (rb_slots b))) (map fst (somes (take n (rb_slots b))))"
    by (rule somes_in_order) (use assms in \<open>simp_all add: rb_ok_def\<close>)
  then show ?thesis by (auto simp: rb_out_def intro: in_order_mono)
qed

lemma rb_held_in_order:
  assumes "rb_ok b"
  shows "in_order (rb_next b) 64 (rb_held b)"
  using rb_out_in_order [OF assms, of 64] assms by (simp add: rb_out_def rb_held_def rb_ok_def)

lemma rb_shift_held:
  "mset (gone (rb_out n b)) + mset (rb_held (rb_shift n b)) = mset (rb_held b)"
proof -
  have "somes (rb_slots b) = somes (take n (rb_slots b)) @ somes (drop n (rb_slots b))"
    by (metis append_take_drop_id somes_append)
  then show ?thesis by (simp add: rb_out_def rb_held_def rb_shift_def)
qed

lemma rb_shift_ok:
  assumes "rb_ok b"
  shows "rb_ok (rb_shift n b)"
proof -
  have "rxseq s = (rb_next (rb_shift n b) + int k) mod 4096"
    if k: "k < 64" "rb_slots (rb_shift n b) ! k = Some (s, r)" for k s r
  proof -
    have "\<not> k < 64 - n \<Longrightarrow> replicate (min n 64) None ! (k - (64 - n)) = (None :: slot)"
      using k(1) by (intro nth_replicate) auto
    then have n: "k + n < 64" "rb_slots b ! (n + k) = Some (s, r)"
      using k assms by (auto simp: rb_shift_def rb_ok_def nth_append split: if_splits)
    then have "rxseq s = (rb_next b + int (n + k)) mod 4096"
      using assms unfolding rb_ok_def by (metis add.commute)
    then show ?thesis by (simp add: rb_shift_def mod_simps algebra_simps)
  qed
  then show ?thesis using assms by (simp add: rb_ok_def) (simp add: rb_shift_def)
qed

text \<open>The two laws as relations between the buffers before and after: for the events made and
  the frames taken in, every frame is in one place; and the frames delivered are in order within
  the n places by which the window moves on.\<close>

definition rb_keeps :: "rbuf \<Rightarrow> sk_buff list \<Rightarrow> rx_event list \<Rightarrow> rbuf \<Rightarrow> bool" where
  "rb_keeps b ins es b' \<longleftrightarrow> mset (gone es) + mset (rb_held b') = mset (rb_held b) + mset ins"

definition rb_moves :: "rbuf \<Rightarrow> nat \<Rightarrow> rx_event list \<Rightarrow> rbuf \<Rightarrow> bool" where
  "rb_moves b n es b' \<longleftrightarrow>
     in_order (rb_next b) n (delivered es) \<and> rb_next b' = (rb_next b + int n) mod 4096"

definition rb_effect :: "rbuf \<Rightarrow> nat \<Rightarrow> sk_buff list \<Rightarrow> rx_event list \<Rightarrow> rbuf \<Rightarrow> bool" where
  "rb_effect b n ins es b' \<longleftrightarrow> rb_keeps b ins es b' \<and> rb_moves b n es b'"

lemma rb_keeps_refl: "rb_keeps b [] [] b"
  by (simp add: rb_keeps_def)

lemma rb_keeps_trans:
  assumes "rb_keeps b ins es b1" "rb_keeps b1 jns fs b2"
  shows "rb_keeps b (ins @ jns) (es @ fs) b2"
proof -
  have 1: "mset (gone es) + mset (rb_held b1) = mset (rb_held b) + mset ins"
    and 2: "mset (gone fs) + mset (rb_held b2) = mset (rb_held b1) + mset jns"
    using assms by (auto simp: rb_keeps_def)
  have "mset (gone (es @ fs)) + mset (rb_held b2) = mset (gone es) + (mset (gone fs) + mset (rb_held b2))"
    by (simp add: add.assoc)
  also have "\<dots> = (mset (gone es) + mset (rb_held b1)) + mset jns" unfolding 2 by (simp add: add.assoc)
  also have "\<dots> = mset (rb_held b) + mset (ins @ jns)" unfolding 1 by (simp add: add.assoc)
  finally show ?thesis by (simp add: rb_keeps_def)
qed

lemma rb_moves_trans:
  assumes "rb_moves b n es b1" "rb_moves b1 m fs b2" "n + m \<le> 4096"
  shows "rb_moves b (n + m) (es @ fs) b2"
proof -
  have "in_order (rb_next b) (n + m) (delivered es @ delivered fs)"
    using assms by (intro in_order_append) (auto simp: rb_moves_def)
  moreover have "rb_next b2 = (rb_next b + int (n + m)) mod 4096"
    using assms by (simp add: rb_moves_def mod_simps algebra_simps)
  ultimately show ?thesis by (simp add: rb_moves_def)
qed

lemma rb_effect_trans:
  "rb_effect b n ins es b1 \<Longrightarrow> rb_effect b1 m jns fs b2 \<Longrightarrow> n + m \<le> 4096 \<Longrightarrow>
     rb_effect b (n + m) (ins @ jns) (es @ fs) b2"
  using rb_keeps_trans rb_moves_trans unfolding rb_effect_def by blast

lemma rb_effect_refl: "rb_ok b \<Longrightarrow> rb_effect b 0 [] [] b"
  by (auto simp: rb_effect_def rb_keeps_def rb_moves_def rb_ok_def)

lemma rb_effect_shift: "rb_ok b \<Longrightarrow> n \<le> 4096 \<Longrightarrow> rb_effect b n [] (rb_out n b) (rb_shift n b)"
  using rb_out_in_order [of b n] rb_shift_held [of n b]
  by (auto simp: rb_effect_def rb_keeps_def rb_moves_def) (auto simp: rb_shift_def)

lemma rb_effect_free: "rb_ok b \<Longrightarrow> rb_effect b 0 [s] [SkbFree s] b"
  by (auto simp: rb_effect_def rb_keeps_def rb_moves_def rb_ok_def)

lemma rb_run_le: "rb_ok b \<Longrightarrow> rb_run b \<le> 64"
  using length_takeWhile_le [of _ "rb_slots b"] by (simp add: rb_run_def rb_ok_def)

lemma rb_ok_drain: "rb_ok b \<Longrightarrow> rb_ok (snd (rb_drain b))"
  by (simp add: rb_drain_def rb_shift_ok)

lemma rb_effect_drain:
  "rb_ok b \<Longrightarrow> rb_effect b (rb_run b) [] (fst (rb_drain b)) (snd (rb_drain b))"
  using rb_run_le [of b] by (simp add: rb_drain_def rb_effect_shift)

lemma rb_effect_store:
  assumes "rb_ok b" "i < 64" "rb_slots b ! i = None" "rxseq s = (rb_next b + int i) mod 4096"
  shows "rb_effect b 0 [s] [] (b\<lparr>rb_slots := (rb_slots b)[i := Some (s, rs)]\<rparr>)"
    "rb_ok (b\<lparr>rb_slots := (rb_slots b)[i := Some (s, rs)]\<rparr>)"
proof -
  let ?B = "rb_slots b"
  have i: "i < length ?B" using assms by (simp add: rb_ok_def)
  have "?B = take i ?B @ None # drop (Suc i) ?B" using id_take_nth_drop [OF i] assms(3) by simp
  then have "somes ?B = somes (take i ?B) @ somes (drop (Suc i) ?B)"
    by (metis somes.simps(2) somes_append)
  moreover have "somes (?B[i := Some (s, rs)]) =
      somes (take i ?B) @ (s, rs) # somes (drop (Suc i) ?B)"
    by (subst upd_conv_take_nth_drop [OF i]) simp
  ultimately have "mset (map fst (somes (?B[i := Some (s, rs)]))) = add_mset s (mset (map fst (somes ?B)))"
    by simp
  then show "rb_effect b 0 [s] [] (b\<lparr>rb_slots := ?B[i := Some (s, rs)]\<rparr>)"
    using assms by (auto simp: rb_effect_def rb_keeps_def rb_moves_def rb_held_def rb_ok_def)
  show "rb_ok (b\<lparr>rb_slots := ?B[i := Some (s, rs)]\<rparr>)"
    using assms by (auto simp: rb_ok_def nth_list_update)
qed

text \<open>A received frame moves the window by at most 3777 + 64 places.\<close>

lemma rb_effect_input:
  assumes "rb_ok b"
  shows "\<exists>n < 4096. rb_effect b n [s] (fst (rb_input s rs b)) (snd (rb_input s rs b))"
    "rb_ok (snd (rb_input s rs b))"
proof -
  have "(\<exists>n < 4096. rb_effect b n [s] (fst (rb_input s rs b)) (snd (rb_input s rs b))) \<and>
      rb_ok (snd (rb_input s rs b))"
  proof (cases "rb_offset s b > 3840")
    case True
    then show ?thesis using assms rb_effect_free [OF assms, of s]
      by (simp add: rb_input_stale) (meson zero_less_numeral)
  next
    case False
    define n where "n = nat (rb_offset s b - 63)"
    let ?i = "nat (rb_offset s b) - n" and ?b1 = "rb_shift n b"
    have off: "0 \<le> rb_offset s b" "n \<le> 3777" using False by (simp_all add: rb_offset_def n_def)
    have i: "?i < 64" "int ?i + int n = rb_offset s b" using off by (auto simp: n_def)
    have ok1: "rb_ok ?b1" by (rule rb_shift_ok [OF assms])
    have e1: "rb_effect b n [] (rb_out n b) ?b1" using off by (intro rb_effect_shift [OF assms]) simp
    show ?thesis
    proof (cases "rb_slots ?b1 ! ?i")
      case (Some x)
      then have "rb_input s rs b = (rb_out n b @ [SkbFree s], ?b1)"
        by (intro rb_input_dup [OF False n_def refl]) simp
      then show ?thesis using rb_effect_trans [OF e1 rb_effect_free [OF ok1, of s]] ok1 off
        by (intro conjI exI [of _ n]) simp_all
    next
      case None
      let ?b2 = "?b1\<lparr>rb_slots := (rb_slots ?b1)[?i := Some (s, rs)]\<rparr>"
      have "rxseq s = (rxseq s - rb_next b + rb_next b) mod 4096" using rxseq_range [of s] by simp
      also have "\<dots> = (rb_offset s b + rb_next b) mod 4096" by (simp add: rb_offset_def mod_simps)
      also have "\<dots> = (int ?i + int n + rb_next b) mod 4096" by (simp only: i(2))
      also have "\<dots> = (rb_next ?b1 + int ?i) mod 4096"
        by (simp add: rb_shift_def mod_simps algebra_simps)
      finally have seq: "rxseq s = (rb_next ?b1 + int ?i) mod 4096" .
      have "rb_input s rs b = (let r = rb_drain ?b2 in (rb_out n b @ fst r, snd r))"
        by (rule rb_input_store [OF False n_def refl None])
      moreover have "rb_effect b (n + rb_run ?b2) [s] (rb_out n b @ fst (rb_drain ?b2)) (snd (rb_drain ?b2))"
        using rb_effect_trans [OF rb_effect_trans [OF e1 rb_effect_store(1) [OF ok1 i(1) None seq, of rs]]
            rb_effect_drain [OF rb_effect_store(2) [OF ok1 i(1) None seq, of rs]]]
          rb_run_le [OF rb_effect_store(2) [OF ok1 i(1) None seq, of rs]] off by simp
      ultimately show ?thesis
        using rb_ok_drain [OF rb_effect_store(2) [OF ok1 i(1) None seq, of rs]]
          rb_run_le [OF rb_effect_store(2) [OF ok1 i(1) None seq, of rs]] off
        by (simp add: Let_def) (intro exI [of _ "n + rb_run ?b2"], simp)
    qed
  qed
  then show "\<exists>n < 4096. rb_effect b n [s] (fst (rb_input s rs b)) (snd (rb_input s rs b))"
    "rb_ok (snd (rb_input s rs b))" by blast+
qed

lemma rb_ok_abs:
  assumes "ring_wf t" "held_ok t"
  shows "rb_ok (rx_abs t)"
proof -
  have "rxseq s = (rx_seq_next t + int k) mod 4096"
    if "k < 64" "rb_slots (rx_abs t) ! k = Some (s, r)" for k s r
    using held_okD [OF assms(2), of k s] that assms(1)
    by (auto simp: rx_abs_def slot_of_def)
  then show ?thesis using assms by (simp add: rb_ok_def) (simp add: rx_abs_def ring_wf_def)
qed

section \<open>Block-ack requests\<close>

text \<open>How far a request moves the window: to its sequence number taken modulo the ring, but not
  past the tail.\<close>

definition bar_move :: "sk_buff \<Rightarrow> drv_rx_scoreboard \<Rightarrow> nat" where
  "bar_move s t = nat (min ((bar_seq s - rx_seq_next t) mod 4096 mod 128) (span t))"

definition rb_bar :: "sk_buff \<Rightarrow> nat \<Rightarrow> rbuf \<Rightarrow> rx_event list \<times> rbuf" where
  "rb_bar s n b =
    (if (bar_seq s - rb_next b) mod 4096 > 3840 then ([SkbFree s], b)
     else let (out, b2) = rb_drain (rb_shift n b) in (rb_out n b @ out @ [SkbFree s], b2))"

lemma bar_ring:
  assumes "ring_ok t"
  shows "\<exists>p' t'. drv_rx_bar_tid s p t = Some (WIFINET_FC0_TYPE_CTL, p', t') \<and>
    ring_ok t' \<and> rx_timer t' = rx_timer t \<and>
    (frames (window t') \<noteq> [] \<longrightarrow> frames (window t) \<noteq> []) \<and> seq_reset t' = seq_reset t \<and> cfg_rxaggr p' = cfg_rxaggr p \<and>
    rx_addba_exchangecomplete t' = rx_addba_exchangecomplete t \<and>
    rx_log p' = rx_log p @ fst (rb_bar s (bar_move s t) (rx_abs t)) \<and>
    rx_abs t' = snd (rb_bar s (bar_move s t) (rx_abs t))"
proof -
  have wf: "ring_wf t" "held_ok t" "rx_baw_size t = 64" using assms by (simp_all add: ring_ok_def)
  let ?x = "(bar_seq s - rx_seq_next t) mod 4096"
  have ix: "DRV_BA_INDEX (rx_seq_next t) (bar_seq s) = ?x" by (simp add: DRV_BA_INDEX_mod)
  have nx: "rb_next (rx_abs t) = rx_seq_next t" by (simp add: rx_abs_def)
  show ?thesis
  proof (cases "?x > 3840")
    case True
    then show ?thesis using assms wf by (simp add: drv_rx_bar_tid_def ix rb_bar_def nx)
  next
    case False
    let ?i = "(rx_baw_head t + ?x) mod 128"
    have "(?i - rx_baw_head t) mod 128 = ?x mod 128" by (simp add: mod_simps)
    then have n: "nat (bar_dist ?i t) = bar_move s t" by (simp add: bar_dist_def bar_move_def)
    let ?n = "bar_move s t" and ?t1 = "popn (bar_move s t) t"
    obtain p1 where b1: "bar_skip ?i p t = Some (p1, ?t1)" "cfg_rxaggr p1 = cfg_rxaggr p"
        "rx_log p1 = rx_log p @ evs up_event (take ?n (window t))"
      using bar_skip_popped [OF wf(1), of ?i p] unfolding n by (auto simp: popped_def)
    have s1: "ring_ok ?t1" using assms wf by simp
    then have wf1: "ring_wf ?t1" "held_ok ?t1" by (simp_all add: ring_ok_def)
    obtain p2 where b2: "bar_drain p1 ?t1 = Some (p2, popn (run_length ?t1) ?t1)"
        "cfg_rxaggr p2 = cfg_rxaggr p1"
        "rx_log p2 = rx_log p1 @ evs up_event (take (run_length ?t1) (window ?t1))"
      using bar_drain_popped [OF wf1(1), of p1] by (auto simp: popped_def)
    have abs: "rx_abs ?t1 = rb_shift ?n (rx_abs t)" by (rule rx_abs_popn [OF wf(1,2)])
    have "drv_rx_bar_tid s p t = Some (WIFINET_FC0_TYPE_CTL, log_rx (SkbFree s) p2, popn (run_length ?t1) ?t1)"
      using False wf b1 b2 by (simp add: drv_rx_bar_tid_def ix)
    moreover have "rb_bar s ?n (rx_abs t) = (rb_out ?n (rx_abs t) @
        rb_out (rb_run (rx_abs ?t1)) (rx_abs ?t1) @ [SkbFree s], rb_shift (rb_run (rx_abs ?t1)) (rx_abs ?t1))"
      using False by (simp add: rb_bar_def nx rb_drain_def abs)
    ultimately show ?thesis using b1 b2 s1 wf1 evs_take [OF wf(1,2)] evs_take [OF wf1]
        run_length_abs [OF wf1] rx_abs_popn [OF wf1] frames_Nil_popn [OF wf1(1)]
        frames_Nil_popn [OF wf(1)] by auto
  qed
qed

lemma bar_refines:
  assumes "session_ok t" "timer_live t"
  shows "\<exists>p' t'. drv_rx_bar_tid s p t = Some (WIFINET_FC0_TYPE_CTL, p', t') \<and>
    session_ok t' \<and> timer_live t' \<and> seq_reset t' = seq_reset t \<and> cfg_rxaggr p' = cfg_rxaggr p \<and>
    rx_addba_exchangecomplete t' = rx_addba_exchangecomplete t \<and>
    rx_log p' = rx_log p @ fst (rb_bar s (bar_move s t) (rx_abs t)) \<and>
    rx_abs t' = snd (rb_bar s (bar_move s t) (rx_abs t))"
  using bar_ring [of t s p] assms by (auto simp: session_ring timer_live_def)

lemma bar_move_le: "bar_move s t \<le> 127"
proof -
  have "(x::int) mod 128 \<le> 127" for x using pos_mod_bound [of 128 x] by linarith
  then show ?thesis by (auto simp: bar_move_def span_def min_def nat_le_iff)
qed

lemma rb_effect_bar:
  assumes "rb_ok b" "n \<le> 127"
  shows "\<exists>m < 4096. rb_effect b m [s] (fst (rb_bar s n b)) (snd (rb_bar s n b))"
    "rb_ok (snd (rb_bar s n b))"
proof -
  have ok1: "rb_ok (rb_shift n b)" by (rule rb_shift_ok [OF assms(1)])
  have ok2: "rb_ok (snd (rb_drain (rb_shift n b)))" by (rule rb_ok_drain [OF ok1])
  show "rb_ok (snd (rb_bar s n b))" using assms ok2 by (simp add: rb_bar_def split_beta)
  have "rb_effect b (n + rb_run (rb_shift n b)) [s]
      (rb_out n b @ fst (rb_drain (rb_shift n b)) @ [SkbFree s]) (snd (rb_drain (rb_shift n b)))"
    using rb_effect_trans [OF rb_effect_shift [OF assms(1), of n]
        rb_effect_trans [OF rb_effect_drain [OF ok1] rb_effect_free [OF ok2, of s]]]
      rb_run_le [OF ok1] assms(2) by simp
  moreover have "n + rb_run (rb_shift n b) < 4096" using rb_run_le [OF ok1] assms(2) by simp
  ultimately show "\<exists>m < 4096. rb_effect b m [s] (fst (rb_bar s n b)) (snd (rb_bar s n b))"
    using rb_effect_free [OF assms(1), of s] exI [of "\<lambda>m::nat. m < 4096 \<and> rb_effect b m [s] [SkbFree s] b" 0]
    by (auto simp: rb_bar_def split_beta)
qed

end
