(* ===== verification/RxSession.thy ===== *)
theory RxSession
  imports RxOrder
begin

text \<open>
  The reordering timeout of a block-ack session: what drv_rx_sort_timer delivers and how it sets
  the period of the timer.
\<close>

section \<open>The timeout\<close>

text \<open>How many slots the timeout passes, given the descriptors from the head to the tail: up to
  and including the last frame before the first one that is younger than 80 ms.  \<^verbatim>\<open>n\<close> counts the
  readings of the clock, \<^verbatim>\<open>c\<close> the empty slots since the last frame.\<close>

fun expire :: "(nat \<Rightarrow> int) \<Rightarrow> nat \<Rightarrow> nat \<Rightarrow> drv_rxdesc list \<Rightarrow> nat" where
  "expire clock n c [] = 0" |
  "expire clock n c (d # ds) =
    (if rx_wbuf d = None then expire clock n (Suc c) ds
     else if ts_diff (clock n) (rx_time d) < DRV_RX_TIMEOUT then 0
     else Suc c + expire clock (Suc n) 0 ds)"

text \<open>The first frame the timeout keeps, with the reading of the clock that spares it.\<close>

fun first_young :: "(nat \<Rightarrow> int) \<Rightarrow> nat \<Rightarrow> drv_rxdesc list \<Rightarrow> int option" where
  "first_young clock n [] = None" |
  "first_young clock n (d # ds) =
    (if rx_wbuf d = None then first_young clock n ds
     else if ts_diff (clock n) (rx_time d) < DRV_RX_TIMEOUT then Some (ts_diff (clock n) (rx_time d))
     else first_young clock (Suc n) ds)"

definition spare :: "int option \<Rightarrow> os_timer_ext \<Rightarrow> os_timer_ext" where
  "spare age tm = (case age of None \<Rightarrow> tm | Some a \<Rightarrow> os_set_timer_period (DRV_RX_TIMEOUT - a) tm)"

definition skip_slots :: "int \<Rightarrow> drv_rx_scoreboard \<Rightarrow> drv_rx_scoreboard" where
  "skip_slots c t = t\<lparr>rx_baw_head := (rx_baw_head t + c) mod 128,
     rx_seq_next := (rx_seq_next t + c) mod 4096\<rparr>"

lemma pop_empty:
  assumes "ring_wf t" "rx_wbuf (hd (window t)) = None"
  shows "pop t = skip_slots 1 t"
  using assms pop_pass [OF assms, symmetric]
  by (simp add: skip_slots_def pass_slot_def CIRCLE_Add_One_mod CIRCLE_Add_One_u16_mod ring_wf_def)

lemma window_hd_popn:
  assumes "ring_wf t" "c < 128"
  shows "hd (window (popn c t)) = window t ! c"
proof -
  have "drop c (window t) = window t ! c # drop (Suc c) (window t)"
    using assms by (simp add: Cons_nth_drop_Suc)
  then show ?thesis using assms by (simp add: window_popn)
qed

lemma popn_empty:
  "ring_wf t \<Longrightarrow> c < 128 \<Longrightarrow> (\<forall>k < c. rx_wbuf (window t ! k) = None) \<Longrightarrow>
     popn c t = skip_slots (int c) t"
proof (induction c)
  case 0
  then show ?case by (simp add: skip_slots_def ring_wf_def)
next
  case (Suc c)
  have "rx_wbuf (hd (window (popn c t))) = None" using Suc.prems by (simp add: window_hd_popn)
  then have "popn (Suc c) t = skip_slots 1 (popn c t)"
    using Suc.prems by (simp add: pop_empty)
  then show ?case using Suc by (simp add: skip_slots_def mod_simps algebra_simps)
qed

text \<open>Delivering the frame after c empty slots is c + 1 pops.\<close>

lemma sort_deliver:
  assumes "ring_wf t" "c < 128" "\<forall>k < c. rx_wbuf (window t ! k) = None"
  shows "(clear_wbuf ((rx_baw_head t + int c) mod 128) (window t ! c) t)
      \<lparr>rx_seq_next := u16_of (CIRCLE_Addition2 (rx_seq_next t) (int c + 1) WIFINET_SEQ_MAX),
       rx_baw_head := CIRCLE_Add_One ((rx_baw_head t + int c) mod 128) DRV_TID_MAX_BUFS\<rparr> = popn (Suc c) t"
proof -
  have wf: "ring_wf (popn c t)" using assms by simp
  have q: "CIRCLE_Addition2 (rx_seq_next t) (1 + int c) 4096 = (1 + (int c + rx_seq_next t)) mod 4096"
    using assms by (subst CIRCLE_Addition2_mod) (auto simp: ring_wf_def algebra_simps)
  have "popn (Suc c) t = pass_slot (set_rxdesc (rx_baw_head (popn c t)) (empty_desc (window t ! c)) (popn c t))"
    using assms by (simp add: pop_def window_hd_popn)
  also have "\<dots> = pass_slot (set_rxdesc ((rx_baw_head t + int c) mod 128) (empty_desc (window t ! c))
      (skip_slots (int c) t))"
    using assms by (simp add: popn_empty) (simp add: skip_slots_def)
  finally show ?thesis
    by (simp add: q u16_of_def clear_wbuf_def empty_desc_def pass_slot_def set_rxdesc_def
        skip_slots_def CIRCLE_Add_One_mod CIRCLE_Add_One_u16_mod mod_simps algebra_simps)
qed

text \<open>The descriptors from the head to the tail.\<close>

definition in_span :: "drv_rx_scoreboard \<Rightarrow> drv_rxdesc list" where
  "in_span t = take (nat (span t)) (window t)"

lemma length_in_span: "ring_wf t \<Longrightarrow> length (in_span t) = nat (span t)"
  using span_range [of t] by (simp add: in_span_def)

lemma in_span_nth: "ring_wf t \<Longrightarrow> c < nat (span t) \<Longrightarrow> in_span t ! c = window t ! c"
  by (simp add: in_span_def)

lemma popn_span_less: "ring_wf t \<Longrightarrow> int n \<le> span t \<Longrightarrow> span (popn n t) = span t - int n"
  using span_range [of t] mod_pos_pos_trivial [of "span t - int n" 128] by (simp add: span_popn)

lemma in_span_popn:
  assumes "ring_wf t" "int n \<le> span t"
  shows "in_span (popn n t) = drop n (in_span t)"
proof -
  have n: "n \<le> 128" using assms span_range [of t] by linarith
  have "nat (span t - int n) \<le> length (window t) - n" using assms span_range [of t] by simp
  then show ?thesis using assms n span_range [of t]
    by (simp add: in_span_def popn_span_less window_popn drop_take nat_diff_distrib)
qed

lemma spare_ok: "timer_ok tm \<Longrightarrow> timer_ok (spare a tm)"
  by (simp add: spare_def timer_ok_period split: option.split)

lemma spare_fields [simp]:
  "active_flag (spare a tm) = active_flag tm" "os_timer (spare a tm) = os_timer tm"
  "timer_lock (spare a tm) = timer_lock tm" "cancel_flag (spare a tm) = cancel_flag tm"
  by (simp_all add: spare_def split: option.split)

lemma sort_loop_result:
  "ring_wf t \<Longrightarrow> int c \<le> span t \<Longrightarrow> (\<forall>k < c. rx_wbuf (window t ! k) = None) \<Longrightarrow>
   \<exists>p'. sort_loop clock n ((rx_baw_head t + int c) mod 128) (int c) p t =
      Some (p', (popn (expire clock n c (drop c (in_span t))) t)
                \<lparr>rx_timer := spare (first_young clock n (drop c (in_span t))) (rx_timer t)\<rparr>) \<and>
    cfg_rxaggr p' = cfg_rxaggr p \<and>
    rx_log p' = rx_log p @ evs up_event (take (expire clock n c (drop c (in_span t))) (window t))"
proof (induction "nat (span t - int c)" arbitrary: n c p t rule: less_induct)
  case less
  define b where "b = (rx_baw_head t + int c) mod 128"
  show ?case
  proof (cases "int c = span t")
    case True
    then have "b = rx_baw_tail t" using less.prems by (simp add: b_def ring_wf_def span_def mod_simps)
    moreover have "drop c (in_span t) = []" using True less.prems by (simp add: length_in_span)
    ultimately show ?thesis unfolding b_def [symmetric] by (subst sort_loop.simps) (simp add: spare_def)
  next
    case False
    then have lt: "int c < span t" "c < nat (span t)" "c < 128"
      using less.prems(2) span_range [of t] by auto
    have ne: "b \<noteq> rx_baw_tail t"
    proof
      assume "b = rx_baw_tail t"
      then have "span t = (b - rx_baw_head t) mod 128" by (simp add: span_def)
      also have "\<dots> = int c" using lt by (simp add: b_def mod_simps)
      finally show False using lt by simp
    qed
    let ?d = "window t ! c"
    have d: "rxdesc t b = Some ?d" unfolding b_def by (rule rxdesc_window [OF less.prems(1) lt(3)])
    have cons: "drop c (in_span t) = ?d # drop (Suc c) (in_span t)"
      using lt less.prems by (simp add: Cons_nth_drop_Suc length_in_span flip: in_span_nth)
    show ?thesis
    proof (cases "rx_wbuf ?d")
      case None
      have add1: "CIRCLE_Add_One b 128 = (rx_baw_head t + int (Suc c)) mod 128"
        by (simp add: b_def CIRCLE_Add_One_mod mod_simps algebra_simps)
      have sc: "int c + 1 = int (Suc c)" by simp
      have eq: "sort_loop clock n b (int c) p t =
          sort_loop clock n ((rx_baw_head t + int (Suc c)) mod 128) (int (Suc c)) p t"
        using ne None by (subst sort_loop.simps) (simp add: d add1 sc del: of_nat_Suc)
      have "\<forall>k < Suc c. rx_wbuf (window t ! k) = None" using less.prems(3) None less_Suc_eq by auto
      then show ?thesis unfolding b_def [symmetric] eq cons using None
        less.hyps [of t "Suc c" n p] less.prems(1) lt by simp
    next
      case (Some s)
      let ?diff = "ts_diff (clock n) (rx_time ?d)"
      show ?thesis
      proof (cases "?diff < 80")
        case True
        then show ?thesis unfolding b_def [symmetric] using ne Some
          by (subst sort_loop.simps) (simp add: d cons spare_def)
      next
        case old: False
        let ?q = "upload ?d (p\<lparr>rx_ok_cnt := rx_ok_cnt p + 1\<rparr>)"
        let ?t = "popn (Suc c) t"
        have head: "rx_baw_head ?t = CIRCLE_Add_One b 128"
          using less.prems by (simp add: b_def head_popn CIRCLE_Add_One_mod mod_simps algebra_simps
              del: funpow.simps)
        have wf: "ring_wf ?t" using less.prems ring_wf_popn by blast
        then have h0: "(rx_baw_head ?t + int 0) mod 128 = rx_baw_head ?t"
          by (simp add: ring_wf_def del: funpow.simps)
        have cs: "rx_seq_next (clear_wbuf b d t) = rx_seq_next t" for d by (simp add: clear_wbuf_def)
        have eq: "sort_loop clock n b (int c) p t =
            sort_loop clock (Suc n) (rx_baw_head ?t) (int 0) ?q ?t"
          using ne Some old
          unfolding head sort_deliver [OF less.prems(1) lt(3) less.prems(3), symmetric] b_def [symmetric]
          by (subst sort_loop.simps) (simp add: d Let_def cs)
        have sp: "span ?t = span t - int (Suc c)" using lt less.prems by (intro popn_span_less) auto
        have insp: "in_span ?t = drop (Suc c) (in_span t)" using lt less.prems by (intro in_span_popn) auto
        let ?m = "expire clock (Suc n) 0 (drop (Suc c) (in_span t))"
        obtain p' where r: "sort_loop clock (Suc n) (rx_baw_head ?t) (int 0) ?q ?t =
            Some (p', (popn ?m ?t)\<lparr>rx_timer := spare (first_young clock (Suc n) (drop (Suc c) (in_span t)))
               (rx_timer t)\<rparr>)"
            "cfg_rxaggr p' = cfg_rxaggr p"
            "rx_log p' = rx_log ?q @ evs up_event (take ?m (window ?t))"
          using less.hyps [of ?t 0 "Suc n" ?q] sp insp wf lt popn_fields(4) [of "Suc c" t]
          unfolding h0 by (auto simp del: funpow.simps)
        have "popn ?m ?t = popn (Suc c + ?m) t" by (metis add.commute comp_apply funpow_add)
        moreover have "rx_log ?q @ evs up_event (take ?m (window ?t)) =
            rx_log p @ evs up_event (take (Suc c + ?m) (window t))"
        proof -
          have "evs up_event (take c (window t)) = []"
            using less.prems(1,3) lt(3) by (auto simp: evs_def somes_eq_Nil in_set_conv_nth)
          moreover have "take (Suc c) (window t) = take c (window t) @ [?d]"
            using less.prems(1) lt(3) by (simp add: take_Suc_conv_app_nth)
          moreover have "evs up_event (take (Suc c + m) (window t)) =
              evs up_event (take (Suc c) (window t)) @ evs up_event (take m (window ?t))" for m
          proof -
            have "evs up_event (take m (window ?t)) = evs up_event (take m (drop (Suc c) (window t)))"
              using less.prems(1) lt(3) by (simp add: window_popn take_map del: funpow.simps)
            moreover have "take (Suc c + m) (window t) = take (Suc c) (window t) @ take m (drop (Suc c) (window t))"
              by (rule take_add)
            ultimately show ?thesis by simp
          qed
          ultimately show ?thesis by simp
        qed
        ultimately show ?thesis unfolding b_def [symmetric] eq r(1) cons using r Some old by simp
      qed
    qed
  qed
qed

lemma expire_le: "expire clock n c ds \<le> c + length ds"
proof (induction clock n c ds rule: expire.induct)
  case (2 clock n c d ds)
  then show ?case by (auto intro: le_trans)
qed simp

text \<open>\<^verbatim>\<open>drv_rx_sort_timer\<close> in closed form.\<close>

lemma sort_timer_result:
  fixes clock :: "nat \<Rightarrow> int"
  assumes "ring_wf t"
  defines "m \<equiv> expire clock 0 0 (in_span t)"
  shows "\<exists>p'. drv_rx_sort_timer clock p t =
      Some (if span t \<noteq> int m then OS_TIMER_REARMED else OS_TIMER_NOT_REARMED, p',
        (popn m t)\<lparr>rx_timer := spare (first_young clock 0 (in_span t)) (rx_timer t)\<rparr>) \<and>
    cfg_rxaggr p' = cfg_rxaggr p \<and> rx_log p' = rx_log p @ evs up_event (take m (window t))"
proof -
  have h: "(rx_baw_head t + int 0) mod 128 = rx_baw_head t" using assms by (simp add: ring_wf_def)
  obtain p' where r: "sort_loop clock 0 (rx_baw_head t) 0 p t = Some (p',
        (popn m t)\<lparr>rx_timer := spare (first_young clock 0 (in_span t)) (rx_timer t)\<rparr>)"
      "cfg_rxaggr p' = cfg_rxaggr p" "rx_log p' = rx_log p @ evs up_event (take m (window t))"
    using sort_loop_result [OF assms(1), of 0 clock 0 p] span_range [of t] unfolding h m_def by auto
  have "m \<le> nat (span t)" using expire_le [of clock 0 0 "in_span t"] assms
    by (simp add: m_def length_in_span)
  then have "span (popn m t) = span t - int m" using assms span_range [of t] by (intro popn_span_less) auto
  then have "rx_baw_head (popn m t) \<noteq> rx_baw_tail (popn m t) \<longleftrightarrow> span t \<noteq> int m"
    using span_zero [of "popn m t"] assms by simp
  then show ?thesis using r by (simp add: drv_rx_sort_timer_def)
qed

lemma in_span_timer [simp]: "in_span (t\<lparr>rx_timer := tm\<rparr>) = in_span t"
  by (simp add: in_span_def)

lemma pop_timer: "ring_wf t \<Longrightarrow> pop (t\<lparr>rx_timer := tm\<rparr>) = (pop t)\<lparr>rx_timer := tm\<rparr>"
  by (simp add: pop_def pass_slot_def set_rxdesc_def)

lemma popn_timer: "ring_wf t \<Longrightarrow> popn n (t\<lparr>rx_timer := tm\<rparr>) = (popn n t)\<lparr>rx_timer := tm\<rparr>"
  by (induction n) (simp_all add: pop_timer)

end
