(* ===== verification/RxMain.thy ===== *)
theory RxMain
  imports RxSession
begin

text \<open>
  Runs of operations on a scoreboard, the set-up and end of a session, and the properties of
  the receive reordering component (wifi_drv_recv.c).
\<close>

section \<open>Runs of a session\<close>

text \<open>The operations on a session as they take turns.  A frame, a request and the callback of the
  timer hold the lock of the scoreboard from their start to their end.  The timer's handler takes
  three turns: it enters when the kernel timer expires, its callback sorts the window, and it
  leaves, which arms the timer again or clears its active flag; the other operations may come in
  between.\<close>

datatype rx_op =
    RxFrame int sk_buff wifi_mac_rx_status
  | RxBar sk_buff
  | RxExpire
  | RxSort "nat \<Rightarrow> int"
  | RxTimerEnd

type_synonym rx_state = "handler_phase \<times> drv_rx_priv \<times> drv_rx_scoreboard"

fun rx_step :: "rx_op \<Rightarrow> rx_state \<Rightarrow> rx_state option" where
  "rx_step (RxFrame now s rs) (ph, p, t) =
     map_option (\<lambda>(_, p, t). (ph, p, t)) (input_reorder now s rs p t)" |
  "rx_step (RxBar s) (ph, p, t) = map_option (\<lambda>(_, p, t). (ph, p, t)) (drv_rx_bar_tid s p t)" |
  "rx_step RxExpire (ph, p, t) =
     (if ph = AtRest
      then let (go, tm) = timer_expires (rx_timer t)
           in Some (if go then InCallback else AtRest, p, t\<lparr>rx_timer := tm\<rparr>)
      else Some (ph, p, t))" |
  "rx_step (RxSort clock) (ph, p, t) =
     (if ph = InCallback
      then map_option (\<lambda>(r, p, t). (AfterCallback r, p, t)) (drv_rx_sort_timer clock p t)
      else Some (ph, p, t))" |
  "rx_step RxTimerEnd (ph, p, t) =
     (case ph of AfterCallback r \<Rightarrow> Some (AtRest, p, t\<lparr>rx_timer := handler_leave r (rx_timer t)\<rparr>)
      | _ \<Rightarrow> Some (ph, p, t))"

fun rx_run :: "rx_op list \<Rightarrow> rx_state \<Rightarrow> rx_state option" where
  "rx_run [] st = Some st" |
  "rx_run (x # xs) st = do { st \<leftarrow> rx_step x st; rx_run xs st }"

lemma rx_run_append: "rx_run (xs @ ys) st = do { st \<leftarrow> rx_run xs st; rx_run ys st }"
  by (induction xs arbitrary: st) (auto split: bind_splits)

fun op_frames :: "rx_op \<Rightarrow> sk_buff list" where
  "op_frames (RxFrame _ s _) = [s]" |
  "op_frames (RxBar s) = [s]" |
  "op_frames _ = []"

text \<open>A live session: the invariant, and a first frame has fixed the sequence numbers.\<close>

definition rx_live :: "drv_rx_scoreboard \<Rightarrow> bool" where
  "rx_live t \<longleftrightarrow> session_ok t \<and> timer_live t \<and> \<not> seq_reset t"

lemma rx_liveD: "rx_live t \<Longrightarrow> session_ok t" "rx_live t \<Longrightarrow> timer_live t" "rx_live t \<Longrightarrow> \<not> seq_reset t"
  by (simp_all add: rx_live_def)

text \<open>The part of it that holds whatever the timer's handler does.\<close>

definition ring_live :: "drv_rx_scoreboard \<Rightarrow> bool" where
  "ring_live t \<longleftrightarrow> ring_ok t \<and> \<not> seq_reset t"

lemma rx_live_ring: "rx_live t \<Longrightarrow> ring_live t"
  by (simp add: rx_live_def ring_live_def session_ring)

lemma ring_rb_ok: "ring_ok t \<Longrightarrow> rb_ok (rx_abs t)"
  by (simp add: ring_ok_def rb_ok_abs)

lemma ring_live_rb_ok: "ring_live t \<Longrightarrow> rb_ok (rx_abs t)"
  by (simp add: ring_live_def ring_rb_ok)

lemma session_rb_ok: "session_ok t \<Longrightarrow> rb_ok (rx_abs t)"
  by (simp add: session_ok_def rb_ok_abs)

lemma ring_live_timer [simp]: "ring_live (t\<lparr>rx_timer := tm\<rparr>) = ring_live t"
  by (simp add: ring_live_def)

lemma ring_live_popn: "ring_live t \<Longrightarrow> ring_live (popn n t)"
  by (simp add: ring_live_def ring_ok_def popn_fields held_ok_popn frames_Nil_popn)

lemma expire_span: "ring_wf t \<Longrightarrow> expire clock 0 0 (in_span t) \<le> nat (span t)"
  using expire_le [of clock 0 0 "in_span t"] by (simp add: length_in_span)

lemma sort_ring:
  fixes clock :: "nat \<Rightarrow> int"
  assumes "ring_live t"
  defines "m \<equiv> expire clock 0 0 (in_span t)"
  shows "\<exists>p'. drv_rx_sort_timer clock p t = Some (if span t \<noteq> int m then 0 else 1, p',
      (popn m t)\<lparr>rx_timer := spare (first_young clock 0 (in_span t)) (rx_timer t)\<rparr>) \<and>
    rx_log p' = rx_log p @ rb_out m (rx_abs t) \<and> rx_abs (popn m t) = rb_shift m (rx_abs t) \<and>
    m \<le> 127 \<and> span (popn m t) = span t - int m"
proof -
  have wf: "ring_wf t" "held_ok t" using assms(1) by (simp_all add: ring_live_def ring_ok_def)
  have m: "m \<le> nat (span t)" unfolding m_def by (rule expire_span [OF wf(1)])
  have "span (popn m t) = span t - int m"
    using m wf span_range [of t] by (intro popn_span_less) auto
  then show ?thesis
    using sort_timer_result [OF wf(1), of clock p] evs_take [OF wf] rx_abs_popn [OF wf] m span_range [of t]
    unfolding m_def by auto
qed

text \<open>One turn: it does not fault, and on the buffer it keeps every frame and delivers in
  order.\<close>

lemma rx_step_effect:
  assumes "ring_live t"
  shows "\<exists>ph' p' t' es n. rx_step x (ph, p, t) = Some (ph', p', t') \<and> ring_live t' \<and>
    rx_log p' = rx_log p @ es \<and> n < 4096 \<and> rb_effect (rx_abs t) n (op_frames x) es (rx_abs t')"
proof (cases x)
  case (RxFrame now s rs)
  have "input_reset (rxseq s) t = t" using assms by (simp add: input_reset_def ring_live_def)
  then show ?thesis
    using input_reorder_ring [of t now s rs p] rb_effect_input(1) [OF ring_live_rb_ok [OF assms], of s rs]
      RxFrame assms
    by (auto simp: ring_live_def)
next
  case (RxBar s)
  then show ?thesis
    using bar_ring [of t s p] rb_effect_bar(1) [OF ring_live_rb_ok [OF assms] bar_move_le, of s s t] assms
    by (auto simp: ring_live_def)
next
  case RxExpire
  then show ?thesis using assms rb_effect_refl [OF ring_live_rb_ok [OF assms]]
    by (cases "ph = AtRest"; cases "timer_expires (rx_timer t)")
      (auto intro!: exI [of _ "[]"] exI [of _ 0])
next
  case (RxSort clock)
  show ?thesis
  proof (cases "ph = InCallback")
    case True
    let ?m = "expire clock 0 0 (in_span t)"
    obtain p' where r: "drv_rx_sort_timer clock p t = Some (if span t \<noteq> int ?m then 0 else 1, p',
        (popn ?m t)\<lparr>rx_timer := spare (first_young clock 0 (in_span t)) (rx_timer t)\<rparr>)"
        "rx_log p' = rx_log p @ rb_out ?m (rx_abs t)" "rx_abs (popn ?m t) = rb_shift ?m (rx_abs t)"
        "?m \<le> 127"
      using sort_ring [OF assms, of clock p] by blast
    have "rb_effect (rx_abs t) ?m [] (rb_out ?m (rx_abs t)) (rb_shift ?m (rx_abs t))"
      using r(4) by (intro rb_effect_shift [OF ring_live_rb_ok [OF assms]]) simp
    then show ?thesis using r True RxSort ring_live_popn [OF assms, of ?m]
      by (simp add: r(3)) (rule exI [of _ ?m], simp)
  next
    case False
    then show ?thesis using RxSort assms rb_effect_refl [OF ring_live_rb_ok [OF assms]]
      by (auto intro!: exI [of _ "[]"] exI [of _ 0])
  qed
next
  case RxTimerEnd
  then show ?thesis using assms rb_effect_refl [OF ring_live_rb_ok [OF assms]]
    by (cases ph) (auto intro!: exI [of _ "[]"] exI [of _ 0])
qed

lemma rx_run_effect:
  "ring_live t \<Longrightarrow> \<exists>ph' p' t' es. rx_run xs (ph, p, t) = Some (ph', p', t') \<and> ring_live t' \<and>
    rx_log p' = rx_log p @ es \<and> rb_keeps (rx_abs t) (concat (map op_frames xs)) es (rx_abs t')"
proof (induction xs arbitrary: ph p t)
  case Nil
  then show ?case using rb_keeps_refl by auto
next
  case (Cons x xs)
  obtain ph1 p1 t1 es where 1: "rx_step x (ph, p, t) = Some (ph1, p1, t1)" "ring_live t1"
      "rx_log p1 = rx_log p @ es" "rb_keeps (rx_abs t) (op_frames x) es (rx_abs t1)"
    using rx_step_effect [OF Cons.prems, of x ph p] by (auto simp: rb_effect_def)
  obtain ph2 p2 t2 fs where 2: "rx_run xs (ph1, p1, t1) = Some (ph2, p2, t2)" "ring_live t2"
      "rx_log p2 = rx_log p1 @ fs" "rb_keeps (rx_abs t1) (concat (map op_frames xs)) fs (rx_abs t2)"
    using Cons.IH [OF 1(2), of ph1 p1] by blast
  show ?case using 1 2 rb_keeps_trans [OF 1(4) 2(4)] by auto
qed

text \<open>The three turns of the handler with nothing in between.\<close>

lemma timeout_refines:
  fixes clock :: "nat \<Rightarrow> int"
  assumes "session_ok t" "timer_live t" "os_timer (rx_timer t) \<noteq> None"
  defines "m \<equiv> expire clock 0 0 (in_span t)"
  defines "period \<equiv> timer_period (spare (first_young clock 0 (in_span t)) (rx_timer t))"
  shows "\<exists>p' t'. rx_run [RxExpire, RxSort clock, RxTimerEnd] (AtRest, p, t) = Some (AtRest, p', t') \<and> session_ok t' \<and> timer_live t' \<and>
    seq_reset t' = seq_reset t \<and> cfg_rxaggr p' = cfg_rxaggr p \<and>
    rx_addba_exchangecomplete t' = rx_addba_exchangecomplete t \<and>
    window t' = window (popn m t) \<and> span t' = span t - int m \<and>
    os_timer (rx_timer t') = (if span t' \<noteq> 0 then Some period else None) \<and>
    rx_log p' = rx_log p @ rb_out m (rx_abs t) \<and> rx_abs t' = rb_shift m (rx_abs t)"
proof -
  have wf: "ring_wf t" "held_ok t" "timer_ok (rx_timer t)" using assms by (simp_all add: session_ok_def)
  then have tm: "active_flag (rx_timer t)" "\<not> cancel_flag (rx_timer t)" "\<not> timer_lock (rx_timer t)"
    using assms(3) by (auto simp: timer_ok_def)
  let ?tm = "(rx_timer t)\<lparr>os_timer := None, timer_lock := True\<rparr>"
  let ?sp = "spare (first_young clock 0 (in_span t))"
  have wf': "ring_wf (t\<lparr>rx_timer := ?tm\<rparr>)" using wf by simp
  obtain p' where r: "drv_rx_sort_timer clock p (t\<lparr>rx_timer := ?tm\<rparr>) =
      Some (if span t \<noteq> int m then OS_TIMER_REARMED else OS_TIMER_NOT_REARMED, p',
        (popn m t)\<lparr>rx_timer := ?sp ?tm\<rparr>)"
      "cfg_rxaggr p' = cfg_rxaggr p" "rx_log p' = rx_log p @ evs up_event (take m (window t))"
    using sort_timer_result [OF wf', of clock p] wf unfolding m_def by (auto simp: popn_timer)
  have "m \<le> nat (span t)" using expire_le [of clock 0 0 "in_span t"] wf
    by (simp add: m_def length_in_span)
  then have sp: "span (popn m t) = span t - int m"
    using wf span_range [of t] by (intro popn_span_less) auto
  have per: "timer_period (?sp ?tm) = period" by (simp add: period_def spare_def split: option.split)
  let ?tm' = "(if span t \<noteq> int m then (?sp ?tm)\<lparr>os_timer := Some period, timer_lock := False\<rparr>
     else (?sp ?tm)\<lparr>active_flag := False, timer_lock := False\<rparr>)"
  have e: "timer_expires (rx_timer t) = (True, ?tm)"
    using assms(3) tm by (simp add: timer_expires_def handler_enter_def cmpxchg_lock_def)
  have l: "timer_lock (?sp ?tm)" by simp
  have "handler_leave (if span t \<noteq> int m then OS_TIMER_REARMED else OS_TIMER_NOT_REARMED) (?sp ?tm) = ?tm'"
    by (simp add: handler_leave_def cmpxchg_lock_def OS_SET_TIMER_def per)
  then have fires: "rx_run [RxExpire, RxSort clock, RxTimerEnd] (AtRest, p, t) =
      Some (AtRest, p', (popn m t)\<lparr>rx_timer := ?tm'\<rparr>)"
    using r(1) e by simp
  have tok: "timer_ok ?tm'" using tm by (simp add: timer_ok_def)
  have s: "session_ok ((popn m t)\<lparr>rx_timer := ?tm'\<rparr>)"
    by (rule session_timer [OF session_popn [OF assms(1)] tok])
  have "span t = int m \<Longrightarrow> frames (window (popn m t)) = []"
    using held_span [of "popn m t"] wf sp by (simp add: held_ok_popn)
  then have live: "timer_live ((popn m t)\<lparr>rx_timer := ?tm'\<rparr>)"
    using tm by (auto simp: timer_live_def)
  show ?thesis using fires s live r(2,3) sp evs_take [OF wf(1,2)] rx_abs_popn [OF wf(1,2)]
    by simp
qed

section \<open>The timer along a run\<close>

text \<open>The handler clears the active flag although a frame came in since its callback found the
  window empty: the frame is held and no kernel timer is pending.\<close>

fun rx_races :: "rx_op \<Rightarrow> rx_state \<Rightarrow> bool" where
  "rx_races RxTimerEnd (AfterCallback r, p, t) \<longleftrightarrow>
     r \<noteq> OS_TIMER_REARMED \<and> frames (window t) \<noteq> [] \<and> os_timer (rx_timer t) = None" |
  "rx_races _ _ \<longleftrightarrow> False"

fun rx_raced :: "rx_op list \<Rightarrow> rx_state \<Rightarrow> bool" where
  "rx_raced [] st \<longleftrightarrow> False" |
  "rx_raced (x # xs) st \<longleftrightarrow> rx_races x st \<or>
     (case rx_step x st of None \<Rightarrow> False | Some st' \<Rightarrow> rx_raced xs st')"

definition timer_inv :: "handler_phase \<Rightarrow> drv_rx_scoreboard \<Rightarrow> bool" where
  "timer_inv ph t \<longleftrightarrow> (active_flag (rx_timer t) \<longrightarrow> \<not> cancel_flag (rx_timer t)) \<and>
     (frames (window t) \<noteq> [] \<longrightarrow> \<not> cancel_flag (rx_timer t)) \<and>
     (ph = AtRest \<longrightarrow> \<not> timer_lock (rx_timer t) \<and>
        (active_flag (rx_timer t) \<or> frames (window t) \<noteq> [] \<longrightarrow> os_timer (rx_timer t) \<noteq> None))"

lemma timer_inv_follow:
  assumes "timer_inv ph t" "timer_followed t t'" "ring_ok t'"
  shows "timer_inv ph t'"
proof (cases "rx_timer t' = rx_timer t \<and> (frames (window t') \<noteq> [] \<longrightarrow> frames (window t) \<noteq> [])")
  case True
  then show ?thesis using assms(1) by (auto simp: timer_inv_def)
next
  case False
  let ?work = "rx_baw_head t' \<noteq> rx_baw_tail t'"
  have f: "rx_timer t' = (if ?work then (if active_flag (rx_timer t) then rx_timer t
      else os_timer_ex_start (os_set_timer_period DRV_RX_TIMEOUT (rx_timer t))) else timer_cancel (rx_timer t))"
    using False assms(2) by (auto simp: timer_followed_def rx_os_timer.follow_def os_timer_ex_active_def)
  show ?thesis
  proof (cases ?work)
    case True
    then show ?thesis using f assms(1) by (auto simp: timer_inv_def start_fields)
  next
    case False
    then have "frames (window t') = []" using ring_held_apart [OF assms(3)] by auto
    then show ?thesis using f False assms(1) by (auto simp: timer_inv_def cancel_fields)
  qed
qed

lemma timer_inv_step:
  assumes "ring_live t" "timer_inv ph t" "rx_step x (ph, p, t) = Some (ph', p', t')"
    "\<not> rx_races x (ph, p, t)"
  shows "timer_inv ph' t'"
proof (cases x)
  case (RxFrame now s rs)
  have "input_reset (rxseq s) t = t" using assms by (simp add: input_reset_def ring_live_def)
  then have "ring_ok t'" "timer_followed t t'" "ph' = ph"
    using input_reorder_ring [of t now s rs p] RxFrame assms(1,3) by (auto simp: ring_live_def)
  then show ?thesis using timer_inv_follow assms(2) by blast
next
  case (RxBar s)
  then have "rx_timer t' = rx_timer t" "frames (window t') \<noteq> [] \<longrightarrow> frames (window t) \<noteq> []" "ph' = ph"
    using bar_ring [of t s p] assms(1,3) by (auto simp: ring_live_def)
  then show ?thesis using assms(2) by (auto simp: timer_inv_def)
next
  case RxExpire
  then show ?thesis using assms(2,3)
    by (auto simp: timer_inv_def timer_expires_def handler_enter_def cmpxchg_lock_def
        split: if_splits)
next
  case (RxSort clock)
  have wf: "ring_wf t" using assms(1) by (simp add: ring_live_def ring_ok_def)
  show ?thesis
  proof (cases "ph = InCallback")
    case True
    obtain m c where t': "t' = (popn m t)\<lparr>rx_timer := spare c (rx_timer t)\<rparr>" "ph' \<noteq> AtRest"
      using sort_ring [OF assms(1), of clock p] assms(3) RxSort True by (auto split: if_splits)
    then show ?thesis using assms(2) frames_Nil_popn [OF wf, of m]
      by (auto simp: timer_inv_def)
  qed (use assms RxSort in auto)
next
  case RxTimerEnd
  then show ?thesis using assms(2-4)
    by (cases ph) (auto simp: timer_inv_def leave_fields)
qed

lemma timer_inv_run:
  "ring_live t \<Longrightarrow> timer_inv ph t \<Longrightarrow> rx_run xs (ph, p, t) = Some (ph', p', t') \<Longrightarrow>
     \<not> rx_raced xs (ph, p, t) \<Longrightarrow> timer_inv ph' t'"
proof (induction xs arbitrary: ph p t)
  case (Cons x xs)
  obtain ph1 p1 t1 where 1: "rx_step x (ph, p, t) = Some (ph1, p1, t1)" "ring_live t1"
    using rx_step_effect [OF Cons.prems(1), of x ph p] by auto
  have "timer_inv ph1 t1" using timer_inv_step [OF Cons.prems(1,2) 1(1)] Cons.prems(4) by auto
  then show ?case using Cons.IH [OF 1(2)] Cons.prems(3,4) 1(1) by auto
qed simp

lemma rx_live_timer_inv: "rx_live t \<Longrightarrow> timer_inv AtRest t"
  by (auto simp: rx_live_def timer_inv_def timer_live_def session_ok_def timer_ok_def)

section \<open>Set-up and end of a session\<close>

lemma flush_result:
  assumes "ring_wf t"
  shows "\<exists>p'. drv_rx_flush_tid fr p t = Some (p', popn (nat (span t)) t) \<and>
    cfg_rxaggr p' = cfg_rxaggr p \<and>
    rx_log p' = rx_log p @ evs (if fr then free_event else up_event) (in_span t) \<and>
    rx_baw_head (popn (nat (span t)) t) = rx_baw_tail t \<and> span (popn (nat (span t)) t) = 0"
proof -
  have "span (popn (nat (span t)) t) = 0"
    using popn_span_less [OF assms, of "nat (span t)"] span_range [of t] by simp
  then show ?thesis
    using flush_popped [OF assms, of fr p] span_zero [of "popn (nat (span t)) t"] assms
    by (auto simp: popped_def in_span_def)
qed

lemma flush_no_ring:
  "rx_baw_head t = rx_baw_tail t \<Longrightarrow> drv_rx_flush_tid fr p t = Some (p, t)"
  by (simp add: drv_rx_flush_tid.simps)

text \<open>The frames of the window all lie within the span.\<close>

lemma frames_in_span:
  assumes "ring_wf t" "held_ok t"
  shows "frames (in_span t) = frames (window t)"
proof -
  have "rx_wbuf (window t ! (nat (span t) + k)) = None" if "nat (span t) + k < 128" for k
    using held_range(1) [OF assms(2) that] by fastforce
  then have "frames (drop (nat (span t)) (window t)) = []"
    using assms(1) by (auto simp: frames_def somes_eq_Nil in_set_conv_nth)
  then show ?thesis unfolding in_span_def
    by (metis append_Nil2 append_take_drop_id frames_simps(2))
qed

lemma delivered_evs [simp]:
  "delivered (evs up_event ds) = frames ds" "delivered (evs free_event ds) = []"
  "gone (evs up_event ds) = frames ds" "gone (evs free_event ds) = frames ds"
proof -
  have "delivered (evs up_event ds) = frames ds \<and> delivered (evs free_event ds) = [] \<and>
    gone (evs up_event ds) = frames ds \<and> gone (evs free_event ds) = frames ds"
  proof (induction ds)
    case (Cons d ds)
    then show ?case by (cases "rx_wbuf d") (simp_all add: up_event_def free_event_def)
  qed simp
  then show "delivered (evs up_event ds) = frames ds" "delivered (evs free_event ds) = []"
    "gone (evs up_event ds) = frames ds" "gone (evs free_event ds) = frames ds" by simp_all
qed

lemma rx_inv_session: "rx_inv t \<Longrightarrow> rx_addba_exchangecomplete t \<Longrightarrow> session_ok t"
  by (simp add: rx_inv_def)

lemma rx_inv_init: "rx_inv (nsta_init_tid t)" "timer_live (nsta_init_tid t)"
  by (simp_all add: rx_inv_def nsta_init_tid_def timer_live_def window_def)

lemma rxampdu_del_result:
  assumes "rx_inv t" "timer_live t"
  shows "\<exists>p' t'. drv_rxampdu_del p t = Some (p', t') \<and> rx_inv t' \<and> timer_live t' \<and>
    \<not> rx_addba_exchangecomplete t' \<and> cfg_rxaggr p' = cfg_rxaggr p \<and>
    rx_log p' = rx_log p @ evs up_event (in_span t)"
proof (cases "rx_addba_exchangecomplete t")
  case False
  then have "in_span t = []" using assms by (simp add: in_span_def window_def rx_inv_def)
  then show ?thesis using assms False by (simp add: drv_rxampdu_del_def)
next
  case True
  let ?t = "t\<lparr>rx_timer := timer_cancel (rx_timer t)\<rparr>"
  have s: "session_ok t" "ring_wf ?t" "timer_ok (timer_cancel (rx_timer t))" "ring_wf t"
    using assms True by (simp_all add: rx_inv_def session_ok_def timer_ok_cancel)
  obtain p' where r: "drv_rx_flush_tid False p ?t = Some (p', popn (nat (span ?t)) ?t)"
      "cfg_rxaggr p' = cfg_rxaggr p" "rx_log p' = rx_log p @ evs up_event (in_span t)"
      "rx_baw_head (popn (nat (span ?t)) ?t) = rx_baw_tail ?t"
    using flush_result [OF s(2), of False p] by auto
  have "rx_baw_size t = 64" "ring_wf (popn (nat (span ?t)) ?t)"
    using assms s by (simp_all add: rx_inv_def)
  then show ?thesis using r True s popn_timer [OF s(4)]
    by (auto simp: drv_rxampdu_del_def rx_inv_def timer_live_def window_def ring_wf_def)
qed

lemma nsta_clean_tid_result:
  assumes "rx_inv t" "timer_live t"
  shows "\<exists>p' t'. nsta_clean_tid p t = Some (p', t') \<and> rx_inv t' \<and> timer_live t' \<and>
    \<not> rx_addba_exchangecomplete t' \<and> cfg_rxaggr p' = cfg_rxaggr p \<and>
    rx_log p' = rx_log p @ evs free_event (in_span t)"
proof (cases "rx_addba_exchangecomplete t")
  case False
  then have "in_span t = []" using assms by (simp add: in_span_def window_def rx_inv_def)
  then show ?thesis using assms False by (simp add: nsta_clean_tid_def)
next
  case True
  let ?t = "t\<lparr>rx_timer := timer_del (rx_timer t)\<rparr>"
  have s: "session_ok t" "ring_wf ?t" "timer_ok (timer_del (rx_timer t))" "ring_wf t"
    using assms True by (simp_all add: rx_inv_def session_ok_def timer_ok_del)
  obtain p' where r: "drv_rx_flush_tid True p ?t = Some (p', popn (nat (span ?t)) ?t)"
      "cfg_rxaggr p' = cfg_rxaggr p" "rx_log p' = rx_log p @ evs free_event (in_span t)"
      "rx_baw_head (popn (nat (span ?t)) ?t) = rx_baw_tail ?t"
    using flush_result [OF s(2), of True p] by auto
  have u: "rx_baw_size t = 64" "ring_wf (popn (nat (span ?t)) ?t)"
    using assms s by (simp_all add: rx_inv_def)
  then obtain d where "rxdesc (popn (nat (span ?t)) ?t) 127 = Some d"
    by (auto simp: ring_wf_def rxdesc_def)
  then show ?thesis using r True s u popn_timer [OF s(4)]
    by (auto simp: nsta_clean_tid_def rx_inv_def timer_live_def window_def ring_wf_def)
qed

lemma fresh_session:
  assumes "pRxDesc t = Some fresh_ring" "0 \<le> rx_baw_head t" "rx_baw_head t < 128"
    "rx_baw_tail t = rx_baw_head t" "0 \<le> rx_seq_next t" "rx_seq_next t < 4096"
  shows "ring_wf t" "frames (window t) = []"
proof -
  show "ring_wf t" using assms by (simp add: ring_wf_def fresh_ring_def)
  have "set (window t) \<subseteq> set fresh_ring" using assms(1) by (simp add: window_def)
  then show "frames (window t) = []" by (auto simp: frames_def somes_eq_Nil fresh_ring_def)
qed

text \<open>A negotiation: refused without touching the window, or the frames held go up and the
  window starts empty at the requested number.\<close>

definition rx_status_only :: "drv_rx_scoreboard \<Rightarrow> drv_rx_scoreboard \<Rightarrow> bool" where
  "rx_status_only t t' \<longleftrightarrow> pRxDesc t' = pRxDesc t \<and> rx_baw_head t' = rx_baw_head t \<and>
     rx_baw_tail t' = rx_baw_tail t \<and> rx_seq_next t' = rx_seq_next t \<and>
     rx_baw_size t' = rx_baw_size t \<and> seq_reset t' = seq_reset t \<and> rx_timer t' = rx_timer t \<and>
     rx_addba_exchangecomplete t' = rx_addba_exchangecomplete t"

lemma rx_status_only_inv:
  assumes "rx_status_only t t'"
  shows "rx_inv t' = rx_inv t" "timer_live t' = timer_live t"
proof -
  have "window t' = window t" "span t' = span t" "ring_wf t' = ring_wf t"
    using assms by (simp_all add: rx_status_only_def window_def span_def ring_wf_def cong: option.case_cong)
  then show "rx_inv t' = rx_inv t" "timer_live t' = timer_live t"
    using assms by (simp_all add: rx_status_only_def rx_inv_def timer_live_def session_ok_def held_ok_def)
qed

lemma ring_session:
  assumes "ring_wf t" "frames (window t) = []" "rx_baw_size t = 64" "timer_ok (rx_timer t)"
    "rx_addba_exchangecomplete t"
  shows "rx_inv t" "timer_live t"
  using assms frames_Nil_held [of t] by (simp_all add: rx_inv_def session_ok_def timer_live_def)

text \<open>The window the accepting branch starts from.\<close>

lemma addbareq_accept_ring:
  assumes "pRxDesc t = Some ds" "length ds = 128" "\<forall>d\<in>set ds. rx_wbuf d = None"
    "0 \<le> rx_baw_head t" "rx_baw_head t < 128" "rx_baw_tail t = rx_baw_head t"
    "0 \<le> q" "q < 4096" "rx_baw_size t = 64" "timer_ok (rx_timer t)"
  shows "rx_inv (addbareq_accept alloc bap q t)" "timer_live (addbareq_accept alloc bap q t)"
    "rx_addba_exchangecomplete (addbareq_accept alloc bap q t)"
    "statuscode (addbareq_accept alloc bap q t) = 0" "rx_seq_next (addbareq_accept alloc bap q t) = q"
    "frames (window (addbareq_accept alloc bap q t)) = []"
    "span (addbareq_accept alloc bap q t) = 0"
proof -
  let ?u = "addbareq_accept alloc bap q t"
  have u: "pRxDesc ?u = Some ds" "rx_baw_head ?u = rx_baw_head t" "rx_baw_tail ?u = rx_baw_tail t"
      "rx_seq_next ?u = q" "rx_baw_size ?u = 64" "rx_timer ?u = rx_timer t"
      "rx_addba_exchangecomplete ?u" "statuscode ?u = 0"
    using assms by (simp_all add: addbareq_accept_def Let_def)
  have wf: "ring_wf ?u" using u assms by (simp add: ring_wf_def)
  have fr: "frames (window ?u) = []"
    using u assms by (auto simp: window_def frames_def somes_eq_Nil)
  show "rx_inv ?u" "timer_live ?u" using ring_session [OF wf fr] u assms by simp_all
  show "rx_addba_exchangecomplete ?u" "statuscode ?u = 0" "rx_seq_next ?u = q" by (fact u)+
  show "frames (window ?u) = []" by (fact fr)
  show "span ?u = 0" using u assms by (simp add: span_def)
qed

text \<open>What the last two assignments of drv_rx_addbareq leave alone.\<close>

lemma rx_status_only_token:
  "rx_status_only t (t\<lparr>dialogtoken := k, baparamset := b\<rparr>)" "rx_status_only t (t\<lparr>statuscode := c\<rparr>)"
  "rx_status_only t (t\<lparr>statuscode := c, dialogtoken := k, baparamset := b\<rparr>)"
  by (simp_all add: rx_status_only_def)

definition addbareq_refused :: "bool \<Rightarrow> drv_rx_priv \<Rightarrow> drv_rx_scoreboard \<Rightarrow> bool" where
  "addbareq_refused alloc p t \<longleftrightarrow> \<not> cfg_rxaggr p \<or> userstatuscode t \<noteq> WIFINET_STATUS_SUCCESS"

lemma addbareq_result:
  assumes "rx_inv t" "timer_live t" "0 \<le> q" "q < 4096"
  shows "\<exists>p' t'. drv_rx_addbareq alloc k bap q p t = Some (p', t') \<and> rx_inv t' \<and> timer_live t' \<and>
    dialogtoken t' = k \<and> cfg_rxaggr p' = cfg_rxaggr p \<and>
    (if addbareq_refused alloc p t then rx_log p' = rx_log p \<and> rx_status_only t t' \<and> statuscode t' \<noteq> 0
     else rx_log p' = rx_log p @ evs up_event (in_span t) \<and> frames (window t') = [] \<and>
       (rx_addba_exchangecomplete t' \<longleftrightarrow> rx_addba_exchangecomplete t \<or> alloc) \<and>
       statuscode t' = (if rx_addba_exchangecomplete t' then 0 else WIFINET_STATUS_REFUSED) \<and>
       rx_seq_next t' = q \<and> span t' = 0)"
proof -
  let ?fin = "\<lambda>t. t\<lparr>dialogtoken := k, baparamset := (baparamset t)\<lparr>amsdusupported := 1, ba_tid := ba_tid bap\<rparr>\<rparr>"
  have fin: "rx_inv (?fin u) = rx_inv u" "timer_live (?fin u) = timer_live u"
      "window (?fin u) = window u" "span (?fin u) = span u" for u
    using rx_status_only_inv [OF rx_status_only_token(1)] by (simp_all add: window_def span_def cong: option.case_cong)
  show ?thesis
  proof (cases "addbareq_refused alloc p t")
    case True
    define c where "c = (if cfg_rxaggr p then userstatuscode t else WIFINET_STATUS_REFUSED)"
    have c: "c \<noteq> 0" "drv_rx_addbareq alloc k bap q p t = Some (p, ?fin (t\<lparr>statuscode := c\<rparr>))"
      using True by (auto simp: drv_rx_addbareq_def addbareq_refused_def c_def)
    then show ?thesis using True assms
        rx_status_only_inv [OF rx_status_only_token(3)] rx_status_only_token(3)
      by simp
  next
    case ok: False
    then have ok': "cfg_rxaggr p" "userstatuscode t = 0" by (simp_all add: addbareq_refused_def)
    show ?thesis
    proof (cases "rx_addba_exchangecomplete t")
      case True
      let ?t = "t\<lparr>rx_timer := timer_cancel (rx_timer t)\<rparr>"
      let ?f = "(popn (nat (span t)) t)\<lparr>rx_timer := timer_cancel (rx_timer t)\<rparr>"
      have s: "session_ok t" "ring_wf t" "held_ok t" "timer_ok (timer_cancel (rx_timer t))"
          "rx_baw_size t = 64" "pRxDesc t \<noteq> None" "ring_wf ?t"
        using assms True by (auto simp: rx_inv_def session_ok_def timer_ok_cancel ring_wf_def)
      obtain p' where r: "drv_rx_flush_tid False p ?t = Some (p', ?f)" "cfg_rxaggr p' = cfg_rxaggr p"
          "rx_log p' = rx_log p @ evs up_event (in_span t)"
          "rx_baw_head (popn (nat (span t)) t) = rx_baw_tail t"
          "span (popn (nat (span t)) t) = 0"
        using flush_result [OF s(7), of False p] popn_timer [OF s(2)] by auto
      obtain ds where ds: "pRxDesc ?f = Some ds" "length ds = 128" "0 \<le> rx_baw_head ?f"
          "rx_baw_head ?f < 128"
        using ring_wf_popn [OF s(2), of "nat (span t)"] by (auto simp: ring_wf_def)
      have "frames (window ?f) = []"
        using held_span [of "popn (nat (span t)) t"] s r by (simp add: held_ok_popn)
      then have e: "\<forall>d\<in>set ds. rx_wbuf d = None"
        using ds by (simp add: window_def frames_def somes_eq_Nil)
      let ?u = "addbareq_accept alloc bap q (?f\<lparr>rx_addba_exchangecomplete := False\<rparr>)"
      note u = addbareq_accept_ring [of "?f\<lparr>rx_addba_exchangecomplete := False\<rparr>" ds q alloc bap]
      have "drv_rx_addbareq alloc k bap q p t = Some (p', ?fin ?u)"
        using ok' True s r by (simp add: drv_rx_addbareq_def)
      then show ?thesis using ok True r u ds e s assms fin by simp
    next
      case False
      then have t: "pRxDesc t = None" "rx_baw_head t = rx_baw_tail t" "0 \<le> rx_baw_head t"
          "rx_baw_head t < 128" "rx_baw_size t = 64" "timer_ok (rx_timer t)"
        using assms by (auto simp: rx_inv_def)
      let ?u = "addbareq_accept alloc bap q t"
      have eq: "drv_rx_addbareq alloc k bap q p t = Some (p, ?fin ?u)"
        using ok' False t by (simp add: drv_rx_addbareq_def)
      have sp: "in_span t = []" using t by (simp add: in_span_def window_def)
      show ?thesis
      proof (cases alloc)
        case True
        then have u: "?u = addbareq_accept False bap q (t\<lparr>pRxDesc := Some fresh_ring\<rparr>)"
          using t by (simp add: addbareq_accept_def Let_def)
        note v = addbareq_accept_ring [of "t\<lparr>pRxDesc := Some fresh_ring\<rparr>" fresh_ring q False bap]
        show ?thesis using ok False True eq u v t sp assms fin
          by (simp add: fresh_ring_def)
      next
        case no: False
        then have "?u = (if buffersize bap \<noteq> 0 then t\<lparr>rx_baw_size := 64\<rparr> else t)
            \<lparr>rx_seq_next := q, statuscode := WIFINET_STATUS_REFUSED,
             baparamset := (baparamset t)\<lparr>bapolicy := 1, buffersize := rx_baw_size t\<rparr>, batimeout := 0\<rparr>"
          using t by (simp add: addbareq_accept_def Let_def)
        then have u: "pRxDesc ?u = None" "rx_baw_head ?u = rx_baw_tail ?u" "0 \<le> rx_baw_head ?u"
            "rx_baw_head ?u < 128" "rx_baw_size ?u = 64" "timer_ok (rx_timer ?u)"
            "\<not> rx_addba_exchangecomplete ?u" "statuscode ?u = 37" "rx_seq_next ?u = q"
          using t False by simp_all
        then have w: "rx_inv ?u" "timer_live ?u" "window ?u = []" "span ?u = 0"
          using assms by (simp_all add: rx_inv_def timer_live_def window_def span_def)
        show ?thesis using ok False no eq u w t sp fin by simp
      qed
    qed
  qed
qed

end
