(* ===== verification/RxCorrect.thy ===== *)
theory RxCorrect
  imports RxMain
begin

text \<open>
  The properties of the receive reordering component, with concrete runs that show their
  hypotheses to hold.
\<close>

section \<open>A concrete session\<close>

definition qos_frame :: "nat \<Rightarrow> nat \<Rightarrow> sk_buff" where
  "qos_frame i seq = \<lparr>skb_id = i, skb_data = (\<lambda>k. if k = 0 then 0x88
     else if k = 22 then word_of_nat (16 * seq) else if k = 23 then word_of_nat (seq div 16) else 0)\<rparr>"

definition example_scb :: drv_rx_scoreboard where
  "example_scb = \<lparr>rx_seq_next = 0, rx_baw_size = 64, rx_baw_head = 0, rx_baw_tail = 0,
     seq_reset = False, rx_timer = os_timer_ex_initialize 80, pRxDesc = Some fresh_ring,
     dialogtoken = 0, statuscode = 0,
     baparamset = \<lparr>amsdusupported = 1, bapolicy = 1, ba_tid = 0, buffersize = 64\<rparr>,
     batimeout = 0, userstatuscode = 0, rx_addba_exchangecomplete = True\<rparr>"

definition example_priv :: drv_rx_priv where
  "example_priv = \<lparr>cfg_rxaggr = True, rx_ampdu_cnt = 0, rx_bar_cnt = 0, rx_nonqos_cnt = 0,
     rx_dup_cnt = 0, rx_ok_cnt = 0, rx_bardrop_cnt = 0, rx_skipped_cnt = 0, rx_log = []\<rparr>"

lemma example_live: "rx_live example_scb"
proof -
  have "ring_wf example_scb" "frames (window example_scb) = []"
    using fresh_session [of example_scb] by (simp_all add: example_scb_def)
  then show ?thesis using frames_Nil_held [of example_scb]
    by (simp add: rx_live_def session_ok_def timer_live_def) (simp add: example_scb_def)
qed

lemma example_inv: "rx_inv example_scb" "timer_live example_scb"
  using example_live by (simp_all add: rx_live_def rx_inv_def) (simp_all add: example_scb_def)

section \<open>Order, conservation, timeout\<close>

lemma held_frames:
  assumes "ring_ok t"
  shows "rb_held (rx_abs t) = frames (window t)"
proof -
  have s: "map fst (somes (map slot_of ds)) = frames ds" for ds
  proof (induction ds)
    case (Cons d ds)
    then show ?case by (cases "rx_wbuf d") (simp_all add: slot_of_def)
  qed simp
  have wf: "ring_wf t" "held_ok t" using assms by (simp_all add: ring_ok_def)
  have "frames (drop 64 (window t)) = []"
    using held_ok_beyond [OF wf(2)] wf(1)
    by (auto simp: frames_def somes_eq_Nil in_set_conv_nth)
  then have "frames (window t) = frames (take 64 (window t))"
    by (metis append_Nil2 append_take_drop_id frames_simps(2))
  then show ?thesis by (simp add: rb_held_def rx_abs_def s)
qed

text \<open>C3: a received frame of a block-ack session is treated as the 64-place reordering buffer
  prescribes: drv_rx_input's reordering does not fault, logs exactly the deliveries and frees of
  the buffer's function, and leaves the scoreboard in the state the function gives, whatever the
  indices of the ring.\<close>
theorem input_reorder_implements_buffer:
  assumes "rx_live t"
  shows "\<exists>p' t'. input_reorder now s rs p t = Some (WIFINET_FC0_TYPE_DATA, p', t') \<and> rx_live t' \<and>
    rx_log p' = rx_log p @ fst (rb_input s rs (rx_abs t)) \<and> rx_abs t' = snd (rb_input s rs (rx_abs t))"
proof -
  have "input_reset (rxseq s) t = t" using assms by (simp add: input_reset_def rx_live_def)
  then show ?thesis using assms input_reorder_refines [OF rx_liveD(1) [OF assms] rx_liveD(2) [OF assms]]
    by (force simp: rx_live_def)
qed

lemma input_reorder_implements_buffer_witness:
  "\<exists>p' t'. input_reorder 0 (qos_frame 1 2) zero_rs example_priv example_scb = Some (8, p', t') \<and>
     rx_live t' \<and> rx_log p' = rx_log example_priv @ fst (rb_input (qos_frame 1 2) zero_rs (rx_abs example_scb)) \<and>
     rx_abs t' = snd (rb_input (qos_frame 1 2) zero_rs (rx_abs example_scb))"
  by (rule input_reorder_implements_buffer [OF example_live])

lemma held_in_order:
  assumes "ring_live t"
  shows "in_order (rx_seq_next t) 64 (frames (window t))"
  using rb_held_in_order [OF ring_live_rb_ok [OF assms]] held_frames [of t] assms
  by (simp add: ring_live_def) (simp add: rx_abs_def)

lemma rx_step_in_order:
  assumes "ring_live t"
  shows "\<exists>ph' p' t' es. rx_step x (ph, p, t) = Some (ph', p', t') \<and> rx_log p' = rx_log p @ es \<and>
    in_order (rx_seq_next t) (nat ((rx_seq_next t' - rx_seq_next t) mod 4096)) (delivered es)"
proof -
  obtain ph' p' t' es n where 1: "rx_step x (ph, p, t) = Some (ph', p', t')"
      "rx_log p' = rx_log p @ es" "n < 4096" "rb_moves (rx_abs t) n es (rx_abs t')"
    using rx_step_effect [OF assms, of x ph p] by (auto simp: rb_effect_def)
  have "in_order (rx_seq_next t) n (delivered es)" "rx_seq_next t' = (rx_seq_next t + int n) mod 4096"
    using 1(4) by (simp_all add: rb_moves_def rx_abs_def)
  moreover from this have "nat ((rx_seq_next t' - rx_seq_next t) mod 4096) = n"
    using 1(3) by (simp add: mod_simps)
  ultimately show ?thesis using 1 by auto
qed

text \<open>C1: over any sequence of received frames, block-ack requests and turns of the timer's
  handler, in any order, no operation faults or loops, and the frames go up in the order of their
  sequence numbers: those an operation delivers lie at strictly growing distances from the number
  expected before it, and before the number expected after it, which is where the next operation
  continues and which no operation moves by 4096 or more.  The frames held lie in the same order
  within the 64 numbers from the one expected.\<close>
theorem rx_run_in_order:
  assumes "rx_live t"
  shows "\<exists>ph' p' t'. rx_run xs (AtRest, p, t) = Some (ph', p', t') \<and>
    in_order (rx_seq_next t') 64 (frames (window t')) \<and>
    (\<forall>ys x zs. xs = ys @ x # zs \<longrightarrow>
      (\<exists>ph1 p1 t1 ph2 p2 t2 es. rx_run ys (AtRest, p, t) = Some (ph1, p1, t1) \<and>
        rx_step x (ph1, p1, t1) = Some (ph2, p2, t2) \<and> rx_log p2 = rx_log p1 @ es \<and>
        in_order (rx_seq_next t1) (nat ((rx_seq_next t2 - rx_seq_next t1) mod 4096)) (delivered es)))"
proof -
  have run: "\<exists>ph' p' t'. rx_run ys (AtRest, p, t) = Some (ph', p', t') \<and> ring_live t'" for ys
    using rx_run_effect [OF rx_live_ring [OF assms], of ys AtRest p] by blast
  have step: "\<exists>ph1 p1 t1 ph2 p2 t2 es. rx_run ys (AtRest, p, t) = Some (ph1, p1, t1) \<and>
      rx_step x (ph1, p1, t1) = Some (ph2, p2, t2) \<and> rx_log p2 = rx_log p1 @ es \<and>
      in_order (rx_seq_next t1) (nat ((rx_seq_next t2 - rx_seq_next t1) mod 4096)) (delivered es)" for ys x
  proof -
    obtain ph1 p1 t1 where r: "rx_run ys (AtRest, p, t) = Some (ph1, p1, t1)" "ring_live t1"
      using run [of ys] by blast
    show ?thesis using rx_step_in_order [OF r(2), of x ph1 p1] r(1) by blast
  qed
  obtain ph' p' t' where r: "rx_run xs (AtRest, p, t) = Some (ph', p', t')" "ring_live t'"
    using run [of xs] by blast
  show ?thesis
    by (rule exI [of _ ph'], rule exI [of _ p'], rule exI [of _ t'], intro conjI,
        rule r(1), rule held_in_order [OF r(2)], intro allI impI, rule step)
qed

text \<open>Two frames held back go up when the frame they wait for comes.\<close>

lemma rx_run_in_order_witness:
  "\<exists>p1 t1 p2 t2 es. rx_run [RxFrame 0 (qos_frame 1 2) zero_rs, RxFrame 0 (qos_frame 2 1) zero_rs]
       (AtRest, example_priv, example_scb) = Some (AtRest, p1, t1) \<and>
     rx_step (RxFrame 0 (qos_frame 3 0) zero_rs) (AtRest, p1, t1) = Some (AtRest, p2, t2) \<and>
     rx_log p2 = rx_log p1 @ es \<and> rx_seq_next t1 = 0 \<and> rx_seq_next t2 = 3 \<and>
     map skb_id (delivered es) = [3, 2, 1] \<and>
     in_order (rx_seq_next t1) (nat ((rx_seq_next t2 - rx_seq_next t1) mod 4096)) (delivered es)"
proof -
  let ?ys = "[RxFrame 0 (qos_frame 1 2) zero_rs, RxFrame 0 (qos_frame 2 1) zero_rs]"
  let ?x = "RxFrame 0 (qos_frame 3 0) zero_rs" and ?st = "(AtRest, example_priv, example_scb)"
  have "map_option (\<lambda>(ph, p, t). (ph, map (\<lambda>e. map_option skb_id (up_frame e)) (rx_log p), rx_seq_next t))
      (rx_run ?ys ?st) = Some (AtRest, [], 0)"
    "map_option (\<lambda>(ph, p, t). (ph, map skb_id (delivered (rx_log p)), rx_seq_next t))
      (rx_run (?ys @ [?x]) ?st) = Some (AtRest, [3, 2, 1], 3)"
    by code_simp+
  then obtain p1 t1 p2 t2 where r: "rx_run ?ys ?st = Some (AtRest, p1, t1)" "rx_log p1 = []" "rx_seq_next t1 = 0"
      "rx_run (?ys @ [?x]) ?st = Some (AtRest, p2, t2)" "map skb_id (delivered (rx_log p2)) = [3, 2, 1]"
      "rx_seq_next t2 = 3"
    by auto
  have s: "rx_step ?x (AtRest, p1, t1) = Some (AtRest, p2, t2)"
    using r(1,4) by (simp only: rx_run_append) (simp split: bind_splits)
  obtain es where "rx_log p2 = rx_log p1 @ es"
      "in_order (rx_seq_next t1) (nat ((rx_seq_next t2 - rx_seq_next t1) mod 4096)) (delivered es)"
  proof -
    obtain ph1 q1 u1 ph2 q2 u2 es where e: "rx_run ?ys ?st = Some (ph1, q1, u1)"
        "rx_step ?x (ph1, q1, u1) = Some (ph2, q2, u2)" "rx_log q2 = rx_log q1 @ es"
        "in_order (rx_seq_next u1) (nat ((rx_seq_next u2 - rx_seq_next u1) mod 4096)) (delivered es)"
      using rx_run_in_order [OF example_live, of "?ys @ [?x]" example_priv] by blast
    then have "ph1 = AtRest" "q1 = p1" "u1 = t1" using r(1) by simp_all
    then have "q2 = p2" "u2 = t2" using e(2) s by (simp_all del: rx_step.simps)
    then show thesis using e(3,4) \<open>q1 = p1\<close> \<open>u1 = t1\<close> that by simp
  qed
  then show ?thesis using r(1-3,5,6) s by auto
qed

text \<open>C2: over any such sequence every frame is accounted for exactly once: the frames delivered
  or freed together with those still held at the end are those held at the start together with
  those received.\<close>
theorem rx_run_conserves_frames:
  assumes "rx_live t" "rx_run xs (AtRest, p, t) = Some (ph', p', t')"
  shows "\<exists>es. rx_log p' = rx_log p @ es \<and>
    mset (gone es) + mset (frames (window t')) = mset (frames (window t)) + mset (concat (map op_frames xs))"
proof -
  obtain es where es: "ring_live t'" "rx_log p' = rx_log p @ es"
      "rb_keeps (rx_abs t) (concat (map op_frames xs)) es (rx_abs t')"
    using rx_run_effect [OF rx_live_ring [OF assms(1)], of xs AtRest p] assms(2) by auto
  then show ?thesis using rx_live_ring [OF assms(1)]
    by (auto simp: rb_keeps_def ring_live_def held_frames)
qed

lemma rx_run_conserves_frames_witness:
  "\<exists>ph' p' t' es. rx_run [RxFrame 0 (qos_frame 1 2) zero_rs, RxFrame 0 (qos_frame 2 2) zero_rs]
       (AtRest, example_priv, example_scb) = Some (ph', p', t') \<and> rx_log p' = rx_log example_priv @ es \<and>
     mset (gone es) + mset (frames (window t')) = mset (frames (window example_scb)) +
       mset (concat (map op_frames [RxFrame 0 (qos_frame 1 2) zero_rs, RxFrame 0 (qos_frame 2 2) zero_rs]))"
proof -
  let ?xs = "[RxFrame 0 (qos_frame 1 2) zero_rs, RxFrame 0 (qos_frame 2 2) zero_rs]"
  obtain ph' p' t' where r: "rx_run ?xs (AtRest, example_priv, example_scb) = Some (ph', p', t')"
    using rx_run_effect [OF rx_live_ring [OF example_live], of ?xs AtRest example_priv] by auto
  show ?thesis using rx_run_conserves_frames [OF example_live r] r by blast
qed



text \<open>The race happens: the callback delivers the frame held and finds the window empty, a frame
  behind a gap comes in and sees the timer still active, and the handler then clears the flag.
  The frame is held, no timer is pending, and none is started until a further frame is
  stored.\<close>
theorem rx_frame_stored_behind_callback:
  "\<exists>p' t'. rx_run [RxFrame 0 (qos_frame 1 2) zero_rs, RxExpire, RxSort (\<lambda>_. 90),
       RxFrame 90 (qos_frame 2 5) zero_rs, RxTimerEnd] (AtRest, example_priv, example_scb) =
     Some (AtRest, p', t') \<and> map skb_id (frames (window t')) = [2] \<and>
     os_timer (rx_timer t') = None \<and> \<not> os_timer_ex_active (rx_timer t')"
proof -
  let ?xs = "[RxFrame 0 (qos_frame 1 2) zero_rs, RxExpire, RxSort (\<lambda>_. 90),
       RxFrame 90 (qos_frame 2 5) zero_rs, RxTimerEnd]"
  have "map_option (\<lambda>(ph, p, t). (ph, map skb_id (frames (window t)), os_timer (rx_timer t),
        os_timer_ex_active (rx_timer t)))
      (rx_run ?xs (AtRest, example_priv, example_scb)) = Some (AtRest, [2], None, False)"
    by code_simp
  then show ?thesis by auto
qed

section \<open>The rule of the timeout\<close>

lemma expire_cases: "expire clock n c ds = 0 \<or> c < expire clock n c ds"
proof (induction clock n c ds rule: expire.induct)
  case (2 clock n c d ds)
  then show ?case by (cases "rx_wbuf d = None") auto
qed simp

lemma expire_diff:
  "expire clock n (Suc c) ds = 0 \<or>
   expire clock n (Suc c) ds - c = Suc (expire clock n (Suc c) ds - Suc c)"
  using expire_cases [of clock n "Suc c" ds] by auto

lemma expire_old:
  "d \<in> set (take (expire clock n c ds - c) ds) \<Longrightarrow> rx_wbuf d \<noteq> None \<Longrightarrow>
     \<exists>j. DRV_RX_TIMEOUT \<le> ts_diff (clock j) (rx_time d)"
proof (induction clock n c ds rule: expire.induct)
  case (2 clock n c e ds)
  then show ?case
  proof (cases "rx_wbuf e = None")
    case True
    then have "d \<in> set (take (expire clock n (Suc c) ds - Suc c) ds)"
      using 2(3,4) expire_diff [of clock n c ds] by auto
    then show ?thesis using 2(1) True 2(4) by blast
  next
    case False
    then show ?thesis using 2(2-4)
      by (cases "ts_diff (clock n) (rx_time e) < 80") (auto simp: not_less)
  qed
qed simp

lemma expire_first_young:
  "find (\<lambda>d. rx_wbuf d \<noteq> None) (drop (expire clock n c ds - c) ds) = Some d \<Longrightarrow>
     \<exists>j. ts_diff (clock j) (rx_time d) < DRV_RX_TIMEOUT \<and>
       first_young clock n ds = Some (ts_diff (clock j) (rx_time d))"
proof (induction clock n c ds rule: expire.induct)
  case (2 clock n c e ds)
  show ?case
  proof (cases "rx_wbuf e = None")
    case True
    then have "find (\<lambda>d. rx_wbuf d \<noteq> None) (drop (expire clock n (Suc c) ds - Suc c) ds) = Some d"
      using 2(3) expire_diff [of clock n c ds] by auto
    then show ?thesis using 2(1) True by auto
  next
    case False
    then show ?thesis using 2(2,3)
      by (cases "ts_diff (clock n) (rx_time e) < 80") (auto simp: not_less)
  qed
qed simp

lemma in_span_delivered:
  assumes "session_ok t" "m \<le> nat (span t)"
  shows "delivered (rb_out m (rx_abs t)) = frames (take m (in_span t))"
proof -
  have wf: "ring_wf t" "held_ok t" using assms(1) by (simp_all add: session_ok_def)
  have "take m (in_span t) = take m (window t)" using assms(2) by (simp add: in_span_def)
  then show ?thesis using evs_take [OF wf, of m] by (metis delivered_evs(1))
qed

text \<open>the reordering timeout neither faults nor loops; it sends up, in order, a prefix of the
  slots from the head, whose frames had all waited 80 ms or more; if a frame is still held then
  the first one had waited less, and the timer is armed again for the rest of its 80 ms.\<close>
theorem rx_timeout_rule:
  assumes "session_ok t" "timer_live t" "os_timer (rx_timer t) \<noteq> None"
  shows "\<exists>p' t' m es. rx_run [RxExpire, RxSort clock, RxTimerEnd] (AtRest, p, t) = Some (AtRest, p', t') \<and> session_ok t' \<and> timer_live t' \<and>
    rx_log p' = rx_log p @ es \<and> delivered es = frames (take m (in_span t)) \<and>
    in_span t' = drop m (in_span t) \<and>
    (\<forall>d\<in>set (take m (in_span t)). rx_wbuf d \<noteq> None \<longrightarrow> (\<exists>j. 80 \<le> ts_diff (clock j) (rx_time d))) \<and>
    (\<forall>d. find (\<lambda>d. rx_wbuf d \<noteq> None) (in_span t') = Some d \<longrightarrow>
       (\<exists>j. ts_diff (clock j) (rx_time d) < 80 \<and>
          os_timer (rx_timer t') = Some (80 - ts_diff (clock j) (rx_time d))))"
proof -
  let ?m = "expire clock 0 0 (in_span t)"
  have wf: "ring_wf t" using assms(1) by (simp add: session_ok_def)
  have m: "?m \<le> nat (span t)" using expire_le [of clock 0 0 "in_span t"] wf by (simp add: length_in_span)
  obtain p' t' where r: "rx_run [RxExpire, RxSort clock, RxTimerEnd] (AtRest, p, t) = Some (AtRest, p', t')" "session_ok t'" "timer_live t'"
      "window t' = window (popn ?m t)" "span t' = span t - int ?m"
      "os_timer (rx_timer t') = (if span t' \<noteq> 0 then
         Some (timer_period (spare (first_young clock 0 (in_span t)) (rx_timer t))) else None)"
      "rx_log p' = rx_log p @ rb_out ?m (rx_abs t)"
    using timeout_refines [OF assms, of clock p] by auto
  have "span (popn ?m t) = span t - int ?m" using m wf span_range [of t] by (intro popn_span_less) auto
  then have "in_span t' = in_span (popn ?m t)" using r by (simp add: in_span_def)
  then have sp: "in_span t' = drop ?m (in_span t)" using in_span_popn [OF wf, of ?m] m span_range [of t] by simp
  have "\<exists>j. ts_diff (clock j) (rx_time d) < 80 \<and>
      os_timer (rx_timer t') = Some (80 - ts_diff (clock j) (rx_time d))"
    if f: "find (\<lambda>d. rx_wbuf d \<noteq> None) (in_span t') = Some d" for d
  proof -
    obtain j where j: "ts_diff (clock j) (rx_time d) < 80"
        "first_young clock 0 (in_span t) = Some (ts_diff (clock j) (rx_time d))"
      using expire_first_young [of clock 0 0 "in_span t" d] f sp by auto
    have "0 \<le> ts_diff (clock j) (rx_time d)" by (simp add: ts_diff_def)
    then have "timer_period (spare (first_young clock 0 (in_span t)) (rx_timer t)) =
        80 - ts_diff (clock j) (rx_time d)" using j by (simp add: spare_def)
    moreover have "span t' \<noteq> 0" using f by (auto simp: in_span_def)
    ultimately show ?thesis using r(6) j by auto
  qed
  moreover have "\<forall>d\<in>set (take ?m (in_span t)). rx_wbuf d \<noteq> None \<longrightarrow> (\<exists>j. 80 \<le> ts_diff (clock j) (rx_time d))"
    using expire_old [of _ clock 0 0 "in_span t"] by simp
  ultimately show ?thesis using r sp in_span_delivered [OF assms(1) m] by blast
qed

text \<open>A session with one frame held back.\<close>

definition held_run :: "rx_op list" where
  "held_run = [RxFrame 0 (qos_frame 1 2) zero_rs]"

lemma ring_live_active:
  "ring_live t \<Longrightarrow> timer_ok (rx_timer t) \<Longrightarrow> active_flag (rx_timer t) \<Longrightarrow> rx_live t"
  by (simp add: rx_live_def ring_live_def session_ring timer_live_def)

lemma example_run_live:
  assumes "rx_run xs (AtRest, example_priv, example_scb) = Some (ph, p, t)"
    "timer_ok (rx_timer t)" "active_flag (rx_timer t)"
  shows "rx_live t"
  using rx_run_effect [OF rx_live_ring [OF example_live], of xs AtRest example_priv] assms
  by (auto intro: ring_live_active)

lemma held_state:
  "\<exists>p t. rx_run held_run (AtRest, example_priv, example_scb) = Some (AtRest, p, t) \<and> rx_live t \<and>
     os_timer (rx_timer t) \<noteq> None"
proof -
  have "map_option (\<lambda>(ph, p, t). (ph, os_timer (rx_timer t), timer_ok (rx_timer t), active_flag (rx_timer t)))
      (rx_run held_run (AtRest, example_priv, example_scb)) = Some (AtRest, Some 80, True, True)"
    by code_simp
  then show ?thesis using example_run_live [of held_run AtRest] by auto
qed

lemma rx_timeout_rule_witness:
  "\<exists>p t. rx_run held_run (AtRest, example_priv, example_scb) = Some (AtRest, p, t) \<and>
     (\<exists>p' t' m es. rx_run [RxExpire, RxSort (\<lambda>_. 90), RxTimerEnd] (AtRest, p, t) = Some (AtRest, p', t') \<and> session_ok t' \<and> timer_live t' \<and>
      rx_log p' = rx_log p @ es \<and> delivered es = frames (take m (in_span t)) \<and>
      in_span t' = drop m (in_span t) \<and>
      (\<forall>d\<in>set (take m (in_span t)). rx_wbuf d \<noteq> None \<longrightarrow> (\<exists>j::nat. 80 \<le> ts_diff 90 (rx_time d))))"
proof -
  obtain p t where r: "rx_run held_run (AtRest, example_priv, example_scb) = Some (AtRest, p, t)" "session_ok t"
      "timer_live t" "os_timer (rx_timer t) \<noteq> None"
    using held_state by (auto simp: rx_live_def)
  show ?thesis using rx_timeout_rule [OF r(2-4), of "\<lambda>_. 90" p] r(1) by blast
qed

section \<open>Set-up and end of sessions\<close>

text \<open>C5: an ADDBA request is refused without touching the window, with the configured or the
  user's status; otherwise the frames of an earlier session all go up in order, and the session is
  set up, with status success and an empty window at the requested number, exactly when it already
  had its descriptors or they can be allocated.\<close>
theorem rx_addbareq_sets_up:
  assumes "rx_inv t" "timer_live t" "0 \<le> ssn" "ssn < 4096"
  shows "\<exists>p' t'. drv_rx_addbareq alloc token bap ssn p t = Some (p', t') \<and> rx_inv t' \<and> timer_live t' \<and>
    dialogtoken t' = token \<and>
    (if \<not> cfg_rxaggr p \<or> userstatuscode t \<noteq> WIFINET_STATUS_SUCCESS
     then rx_log p' = rx_log p \<and> window t' = window t \<and> rx_seq_next t' = rx_seq_next t \<and>
       statuscode t' \<noteq> WIFINET_STATUS_SUCCESS
     else (\<exists>es. rx_log p' = rx_log p @ es \<and> delivered es = frames (in_span t)) \<and>
       frames (window t') = [] \<and> rx_seq_next t' = ssn \<and>
       (rx_addba_exchangecomplete t' \<longleftrightarrow> rx_addba_exchangecomplete t \<or> alloc) \<and>
       (statuscode t' = WIFINET_STATUS_SUCCESS \<longleftrightarrow> rx_addba_exchangecomplete t'))"
proof -
  obtain p' t' where r: "drv_rx_addbareq alloc token bap ssn p t = Some (p', t')" "rx_inv t'"
      "timer_live t'" "dialogtoken t' = token"
      "if addbareq_refused alloc p t then rx_log p' = rx_log p \<and> rx_status_only t t' \<and> statuscode t' \<noteq> 0
       else rx_log p' = rx_log p @ evs up_event (in_span t) \<and> frames (window t') = [] \<and>
         (rx_addba_exchangecomplete t' \<longleftrightarrow> rx_addba_exchangecomplete t \<or> alloc) \<and>
         statuscode t' = (if rx_addba_exchangecomplete t' then 0 else WIFINET_STATUS_REFUSED) \<and>
         rx_seq_next t' = ssn \<and> span t' = 0"
    using addbareq_result [OF assms, of alloc token bap p] by auto
  have w: "window t' = window t" if "rx_status_only t t'"
    using that by (simp add: rx_status_only_def window_def cong: option.case_cong)
  show ?thesis
  proof (cases "addbareq_refused alloc p t")
    case True
    then show ?thesis using r w by (auto simp: addbareq_refused_def rx_status_only_def)
  next
    case False
    then show ?thesis using r by (auto simp: addbareq_refused_def)
  qed
qed

lemma rx_addbareq_sets_up_witness:
  "\<exists>p' t'. drv_rx_addbareq True 7 (baparamset example_scb) 5 example_priv example_scb = Some (p', t') \<and>
     rx_inv t' \<and> dialogtoken t' = 7 \<and> rx_seq_next t' = 5"
  using rx_addbareq_sets_up [OF example_inv, of 5 True 7 "baparamset example_scb" example_priv]
  by (auto simp: example_priv_def example_scb_def)

text \<open>ending a receive session (drv_rxampdu_del) sends up all the frames it holds, in order,
  frees the descriptors and leaves the timer stopped.\<close>
theorem rxampdu_del_delivers_all:
  assumes "rx_inv t" "timer_live t"
  shows "\<exists>p' t' es. drv_rxampdu_del p t = Some (p', t') \<and> rx_inv t' \<and>
    \<not> rx_addba_exchangecomplete t' \<and> pRxDesc t' = None \<and> rx_log p' = rx_log p @ es \<and>
    delivered es = frames (window t)"
proof -
  have "frames (in_span t) = frames (window t)"
  proof (cases "rx_addba_exchangecomplete t")
    case True
    then show ?thesis using frames_in_span assms by (simp add: rx_inv_def session_ok_def)
  next
    case False
    then show ?thesis using assms by (simp add: rx_inv_def in_span_def window_def)
  qed
  then show ?thesis using rxampdu_del_result [OF assms, of p] by (force simp: rx_inv_def)
qed

lemma rxampdu_del_delivers_all_witness:
  "\<exists>p' t' es. drv_rxampdu_del example_priv example_scb = Some (p', t') \<and> rx_inv t' \<and>
    \<not> rx_addba_exchangecomplete t' \<and> pRxDesc t' = None \<and> rx_log p' = rx_log example_priv @ es \<and>
    delivered es = frames (window example_scb)"
  by (rule rxampdu_del_delivers_all [OF example_inv])

section \<open>The scoreboards of a station\<close>

definition scbs_ok :: "drv_rx_scoreboard list \<Rightarrow> bool" where
  "scbs_ok scbs \<longleftrightarrow> length scbs = 8 \<and> (\<forall>t\<in>set scbs. rx_inv t \<and> timer_live t)"

text \<open>The frames whose traffic class is not one of the eight: the four-bit field of a quality of
  service data frame or of a block-ack request holds 8 to 15.\<close>

definition bad_tid :: "sk_buff \<Rightarrow> bool" where
  "bad_tid s \<longleftrightarrow> fc0_version s = 0 \<and>
     (if WIFINET_IS_BAR s then bar_tid s \<ge> 8
      else fc0_type s = 0x08 \<and> fc0_subtype s = 0x80 \<and> \<not> b_mcast s \<and> qos_tid s \<ge> 8)"

lemma bar_tid_nonneg: "0 \<le> bar_tid s" "0 \<le> qos_tid s"
  by (simp_all add: bar_tid_def qos_tid_def)

lemma bar_no_session:
  assumes "rx_inv t" "\<not> rx_addba_exchangecomplete t"
  shows "\<exists>p'. drv_rx_bar_tid s p t = Some (WIFINET_FC0_TYPE_CTL, p', t)"
  using assms by (simp add: drv_rx_bar_tid_def rx_inv_def Let_def bar_skip.simps [of _ _ t]
      bar_drain.simps [of _ t])

lemma rx_inv_complete:
  "session_ok t' \<Longrightarrow> rx_addba_exchangecomplete t' \<Longrightarrow> rx_inv t'"
  by (simp add: rx_inv_def session_ok_def)

lemma scbs_ok_update: "scbs_ok scbs \<Longrightarrow> rx_inv t \<Longrightarrow> timer_live t \<Longrightarrow> scbs_ok (scbs[i := t])"
  using set_update_subset_insert [of scbs i t] by (auto simp: scbs_ok_def)

lemma bar_station:
  assumes "scbs_ok scbs" "bar_tid s < 8"
  shows "\<exists>r p' scbs'. drv_rx_bar s p scbs = Some (r, p', scbs') \<and> scbs_ok scbs'"
proof -
  let ?t = "scbs ! nat (bar_tid s)" and ?p = "p\<lparr>rx_bar_cnt := rx_bar_cnt p + 1\<rparr>"
  have t: "rx_inv ?t" "timer_live ?t" using assms bar_tid_nonneg [of s] by (simp_all add: scbs_ok_def)
  have "\<exists>r p' t'. drv_rx_bar_tid s ?p ?t = Some (r, p', t') \<and> rx_inv t' \<and> timer_live t'"
  proof (cases "rx_addba_exchangecomplete ?t")
    case True
    then show ?thesis using bar_refines [OF rx_inv_session [OF t(1) True] t(2), of s ?p] rx_inv_complete
      by blast
  next
    case False
    then show ?thesis using bar_no_session [OF t(1)] t by blast
  qed
  then obtain r p' t' where r: "drv_rx_bar_tid s ?p ?t = Some (r, p', t')" "rx_inv t'" "timer_live t'"
    by blast
  have "length scbs = 8" using assms(1) by (simp add: scbs_ok_def)
  then have "drv_rx_bar s p scbs = Some (r, p', scbs[nat (bar_tid s) := t'])"
    using assms(2) r(1) by (simp add: drv_rx_bar_def Let_def)
  then show ?thesis using scbs_ok_update [OF assms(1) r(2,3)] by blast
qed

text \<open>C6: on the eight scoreboards of a station drv_rx_input processes every frame without a fault
  and keeps the invariant of all scoreboards, except a unicast quality of service data frame or a
  block-ack request of traffic class 8 to 15, for which it indexes past the scoreboards (the code
  prints an error for the former and goes on).\<close>
theorem rx_input_faults_iff_bad_tid:
  assumes "scbs_ok scbs"
  shows "if bad_tid s then drv_rx_input up now s rs p scbs = None
    else (\<exists>r p' scbs'. drv_rx_input up now s rs p scbs = Some (r, p', scbs') \<and> scbs_ok scbs')"
proof -
  have len: "length scbs = 8" using assms by (simp add: scbs_ok_def)
  let ?p = "log_rx (ScanLeakAp s) (p\<lparr>rx_ampdu_cnt := rx_ampdu_cnt p + 1\<rparr>)"
  consider (old) "fc0_version s \<noteq> 0" | (bar) "fc0_version s = 0" "WIFINET_IS_BAR s"
    | (direct) "fc0_version s = 0" "\<not> WIFINET_IS_BAR s" "fc0_type s \<noteq> 0x08 \<or> fc0_subtype s \<noteq> 0x80 \<or> b_mcast s"
    | (bad) "fc0_version s = 0" "\<not> WIFINET_IS_BAR s" "fc0_type s = 0x08 \<and> fc0_subtype s = 0x80 \<and> \<not> b_mcast s"
        "qos_tid s \<ge> 8"
    | (good) "fc0_version s = 0" "\<not> WIFINET_IS_BAR s" "fc0_type s = 0x08 \<and> fc0_subtype s = 0x80 \<and> \<not> b_mcast s"
        "qos_tid s < 8"
    by linarith
  then show ?thesis
  proof cases
    case old
    then show ?thesis using assms by (simp add: drv_rx_input_def bad_tid_def Let_def)
  next
    case bar
    have "bar_tid s \<ge> 8 \<Longrightarrow> drv_rx_bar s ?p scbs = None" using len by (simp add: drv_rx_bar_def Let_def)
    then show ?thesis using bar bar_station [OF assms, of s ?p]
      by (auto simp: drv_rx_input_def bad_tid_def Let_def)
  next
    case direct
    then show ?thesis using assms by (auto simp: drv_rx_input_def bad_tid_def Let_def input_direct_def)
  next
    case bad
    then show ?thesis using len by (simp add: drv_rx_input_def bad_tid_def Let_def)
  next
    case good
    let ?t = "scbs ! nat (qos_tid s)"
    have t: "rx_inv ?t" "timer_live ?t" using good(4) bar_tid_nonneg [of s] assms by (simp_all add: scbs_ok_def)
    have nb: "\<not> bad_tid s" using good by (simp add: bad_tid_def)
    show ?thesis
    proof (cases "rx_addba_exchangecomplete ?t")
      case True
      obtain p' t' where r: "input_reorder now s rs ?p ?t = Some (8, p', t')" "rx_inv t'" "timer_live t'"
        using input_reorder_refines [OF rx_inv_session [OF t(1) True] t(2), of now s rs ?p] True
          rx_inv_complete by blast
      then show ?thesis using good nb True len scbs_ok_update [OF assms r(2,3), of "nat (qos_tid s)"]
        by (simp add: drv_rx_input_def Let_def)
    next
      case False
      then show ?thesis using good nb assms len
        by (simp add: drv_rx_input_def Let_def input_direct_def)
    qed
  qed
qed

lemma example_scbs: "scbs_ok (replicate 8 example_scb)"
  using example_inv by (auto simp: scbs_ok_def)

lemma rx_input_faults_iff_bad_tid_witness:
  "drv_rx_input (\<lambda>_. 0) 0 ((qos_frame 1 0)\<lparr>skb_data := (skb_data (qos_frame 1 0))(24 := 9)\<rparr>) zero_rs example_priv
     (replicate 8 example_scb) = None"
proof -
  have "bad_tid ((qos_frame 1 0)\<lparr>skb_data := (skb_data (qos_frame 1 0))(24 := 9)\<rparr>)" by code_simp
  then show ?thesis using rx_input_faults_iff_bad_tid [OF example_scbs] by simp
qed

text \<open>freeing a station (drv_rx_nsta_clean) ends all its receive sessions: every frame held
  is freed and none delivered, each descriptor ring is given back, and no timer is left active
  on a session that was open.\<close>
theorem nsta_clean_frees_all:
  assumes "scbs_ok scbs" "cfg_rxaggr p"
  shows "\<exists>p' scbs' es. drv_rx_nsta_clean p scbs = Some (p', scbs') \<and> scbs_ok scbs' \<and>
    (\<forall>t\<in>set scbs'. \<not> rx_addba_exchangecomplete t \<and> pRxDesc t = None) \<and>
    rx_log p' = rx_log p @ es \<and> delivered es = [] \<and> gone es = concat (map (\<lambda>t. frames (window t)) scbs)"
proof -
  have fs: "frames (in_span t) = frames (window t)" if "rx_inv t" for t
    using that frames_in_span [of t]
    by (cases "rx_addba_exchangecomplete t") (auto simp: rx_inv_def session_ok_def in_span_def window_def)
  have "\<forall>t\<in>set scbs. rx_inv t \<and> timer_live t \<Longrightarrow>
    \<exists>p' scbs' es. clean_tids p scbs = Some (p', scbs') \<and> length scbs' = length scbs \<and>
      (\<forall>t\<in>set scbs'. rx_inv t \<and> timer_live t \<and> \<not> rx_addba_exchangecomplete t) \<and>
      rx_log p' = rx_log p @ es \<and> delivered es = [] \<and> gone es = concat (map (\<lambda>t. frames (window t)) scbs)"
    for p
  proof (induction scbs arbitrary: p)
    case (Cons t ts)
    obtain p1 t1 where 1: "nsta_clean_tid p t = Some (p1, t1)" "rx_inv t1" "timer_live t1"
        "\<not> rx_addba_exchangecomplete t1" "rx_log p1 = rx_log p @ evs free_event (in_span t)"
      using nsta_clean_tid_result [of t p] Cons.prems by auto
    obtain p2 ts' es where "clean_tids p1 ts = Some (p2, ts')" "length ts' = length ts"
        "\<forall>t\<in>set ts'. rx_inv t \<and> timer_live t \<and> \<not> rx_addba_exchangecomplete t"
        "rx_log p2 = rx_log p1 @ es" "delivered es = []" "gone es = concat (map (\<lambda>t. frames (window t)) ts)"
      using Cons.IH [of p1] Cons.prems by auto
    then show ?case using 1 fs [of t] Cons.prems
      by (auto intro!: exI [of _ "evs free_event (in_span t) @ es"])
  qed auto
  then show ?thesis using assms by (fastforce simp: drv_rx_nsta_clean_def scbs_ok_def rx_inv_def)
qed

lemma nsta_clean_frees_all_witness:
  "\<exists>p' scbs' es. drv_rx_nsta_clean example_priv (replicate 8 example_scb) = Some (p', scbs') \<and>
    scbs_ok scbs' \<and> (\<forall>t\<in>set scbs'. \<not> rx_addba_exchangecomplete t \<and> pRxDesc t = None) \<and>
    rx_log p' = rx_log example_priv @ es \<and> delivered es = [] \<and>
    gone es = concat (map (\<lambda>t. frames (window t)) (replicate 8 example_scb))"
  by (rule nsta_clean_frees_all [OF example_scbs]) (simp add: example_priv_def)

section \<open>Where the code falls short\<close>

text \<open>a block-ack request that arrives while no slot is in use does not move the window,
  whatever its starting sequence number: the frame with that very number, arriving next, is held
  back (for the 80 ms timeout) instead of being delivered.\<close>
theorem bar_on_empty_window_holds_next_frame:
  assumes "rx_live t" "span t = 0" "x = (bar_seq b - rx_seq_next t) mod 4096" "0 < x" "x < 64"
    "rxseq s = bar_seq b"
  shows "\<exists>p1 t1 p2 t2. rx_run [RxBar b] (AtRest, p, t) = Some (AtRest, p1, t1) \<and> rx_seq_next t1 = rx_seq_next t \<and>
    rx_run [RxFrame now s rs] (AtRest, p1, t1) = Some (AtRest, p2, t2) \<and> rx_log p2 = rx_log p1 \<and> frames (window t2) = [s]"
proof -
  have wf: "ring_wf t" "held_ok t" using assms(1) by (simp_all add: rx_live_def session_ok_def)
  have fr: "frames (window t) = []" by (rule held_span [OF wf assms(2)])
  then have slots: "rb_slots (rx_abs t) = replicate 64 None"
    using wf by (intro nth_equalityI) (auto simp: rx_abs_def frames_def somes_eq_Nil)
  have nx: "rb_next (rx_abs t) = rx_seq_next t" "0 \<le> rx_seq_next t" "rx_seq_next t < 4096"
    using wf by (simp_all add: rx_abs_def ring_wf_def)
  have sh0: "rb_shift 0 (rx_abs t) = rx_abs t" using nx by (simp add: rb_shift_0)
  have run0: "rb_run (rx_abs t) = 0" using slots by (simp add: rb_run_def takeWhile_eq_Nil_iff)
  have mv: "bar_move b t = 0" using assms by (simp add: bar_move_def)
  have bar: "rb_bar b (bar_move b t) (rx_abs t) = ([SkbFree b], rx_abs t)"
    using assms(3-5) by (simp add: rb_bar_def nx rb_drain_def mv sh0 run0 rb_out_def up_evs_def)
  obtain p1 t1 where 1: "rx_run [RxBar b] (AtRest, p, t) = Some (AtRest, p1, t1)" "rx_live t1" "rx_abs t1 = rx_abs t"
    using bar_refines [OF rx_liveD(1) [OF assms(1)] rx_liveD(2) [OF assms(1)], of b p] bar assms(1)
    by (auto simp: rx_live_def)
  let ?B = "(rx_abs t)\<lparr>rb_slots := (rb_slots (rx_abs t))[nat x := Some (s, rs)]\<rparr>"
  have off: "rb_offset s (rx_abs t) = x" using assms by (simp add: rb_offset_def nx)
  have "rb_slots ?B ! 0 = None" using slots assms(4) by simp
  then have run: "rb_run ?B = 0" using slots
    by (cases "rb_slots ?B") (auto simp: rb_run_def)
  have "rb_input s rs (rx_abs t) = ([], ?B)"
    using assms(4,5) slots run nx
    by (simp add: rb_input_def off sh0 rb_drain_def rb_out_def up_evs_def rb_shift_0)
  then obtain p2 t2 where 2: "rx_run [RxFrame now s rs] (AtRest, p1, t1) = Some (AtRest, p2, t2)" "rx_live t2"
      "rx_log p2 = rx_log p1" "rx_abs t2 = ?B"
    using input_reorder_refines [OF rx_liveD(1) [OF 1(2)] rx_liveD(2) [OF 1(2)], of now s rs p1] 1(2,3)
    by (auto simp: rx_live_def input_reset_def)
  have "rb_held ?B = [s]" using slots assms(4,5)
    by (simp add: rb_held_def upd_conv_take_nth_drop)
  then have "frames (window t2) = [s]" using held_frames [of t2] 2 by (simp add: rx_live_def session_ring)
  moreover have "rx_seq_next t1 = rx_seq_next t" using 1(3) by (simp add: rx_abs_def)
  ultimately show ?thesis using 1(1) 2 by blast
qed

definition bar_frame :: "nat \<Rightarrow> nat \<Rightarrow> sk_buff" where
  "bar_frame i seq = \<lparr>skb_id = i, skb_data = (\<lambda>k. if k = 0 then 0x84
     else if k = 18 then word_of_nat (16 * seq) else if k = 19 then word_of_nat (seq div 16) else 0)\<rparr>"

lemma bar_on_empty_window_holds_next_frame_witness:
  "\<exists>p1 t1 p2 t2. rx_run [RxBar (bar_frame 1 5)] (AtRest, example_priv, example_scb) = Some (AtRest, p1, t1) \<and>
    rx_seq_next t1 = rx_seq_next example_scb \<and>
    rx_run [RxFrame 0 (qos_frame 2 5) zero_rs] (AtRest, p1, t1) = Some (AtRest, p2, t2) \<and> rx_log p2 = rx_log p1 \<and>
    frames (window t2) = [qos_frame 2 5]"
proof -
  have "span example_scb = 0" "bar_seq (bar_frame 1 5) = 5" "rxseq (qos_frame 2 5) = 5"
      "rx_seq_next example_scb = 0"
    by code_simp+
  then show ?thesis using bar_on_empty_window_holds_next_frame [OF example_live, of 5] by simp
qed

lemma expire_empty:
  "(\<forall>d\<in>set ds. rx_wbuf d = None) \<Longrightarrow> expire clock n c ds = 0 \<and> first_young clock n ds = None"
  by (induction ds arbitrary: c) auto

text \<open>when the window has slid past its tail, the tail index is left behind as a phantom: with
  no frame held at all but the indices apart, each timeout delivers nothing and arms the timer
  again, and so forever until another frame arrives.\<close>
theorem idle_timeout_rearms_forever:
  assumes "session_ok t" "timer_live t" "os_timer (rx_timer t) \<noteq> None" "frames (window t) = []" "span t \<noteq> 0"
  shows "\<exists>p' t'. rx_run [RxExpire, RxSort clock, RxTimerEnd] (AtRest, p, t) = Some (AtRest, p', t') \<and> rx_log p' = rx_log p \<and> session_ok t' \<and>
    timer_live t' \<and> os_timer (rx_timer t') \<noteq> None \<and> frames (window t') = [] \<and> span t' \<noteq> 0"
proof -
  have "\<forall>d\<in>set (in_span t). rx_wbuf d = None"
    using assms(4) by (auto simp: frames_def somes_eq_Nil in_span_def dest: in_set_takeD)
  then have e: "expire clock 0 0 (in_span t) = 0" using expire_empty by blast
  show ?thesis using timeout_refines [OF assms(1-3), of clock p] assms(4,5) unfolding e
    by (auto simp: rb_out_def up_evs_def)
qed

lemma idle_timeout_rearms_forever_witness:
  "\<exists>p t. rx_run [RxFrame 0 (qos_frame 1 0) zero_rs, RxFrame 0 (qos_frame 2 100) zero_rs,
       RxExpire, RxSort (\<lambda>_. 90), RxTimerEnd] (AtRest, example_priv, example_scb) = Some (AtRest, p, t) \<and>
     (\<exists>p' t'. rx_run [RxExpire, RxSort (\<lambda>_. 170), RxTimerEnd] (AtRest, p, t) = Some (AtRest, p', t') \<and>
        rx_log p' = rx_log p \<and> os_timer (rx_timer t') \<noteq> None \<and> frames (window t') = [] \<and> span t' \<noteq> 0)"
proof -
  let ?xs = "[RxFrame 0 (qos_frame 1 0) zero_rs, RxFrame 0 (qos_frame 2 100) zero_rs,
       RxExpire, RxSort (\<lambda>_. 90), RxTimerEnd]"
  have "map_option (\<lambda>(ph, p, t). (ph, os_timer (rx_timer t), map skb_id (frames (window t)), span t,
        timer_ok (rx_timer t), active_flag (rx_timer t)))
      (rx_run ?xs (AtRest, example_priv, example_scb)) = Some (AtRest, Some 80, [], 28, True, True)"
    by code_simp
  then obtain p t where r: "rx_run ?xs (AtRest, example_priv, example_scb) = Some (AtRest, p, t)"
      "os_timer (rx_timer t) \<noteq> None" "frames (window t) = []" "span t \<noteq> 0"
      "timer_ok (rx_timer t)" "active_flag (rx_timer t)"
    by auto
  have l: "session_ok t" "timer_live t" using rx_liveD [OF example_run_live [OF r(1,5,6)]] by simp_all
  show ?thesis using idle_timeout_rearms_forever [OF l r(2-4), of "\<lambda>_. 170" p] r(1) by blast
qed

end
