(* ===== verification/TxBase.thy ===== *)
theory TxBase
  imports RxWindow
begin

text \<open>
  The state of the transmit path of wifi_drv_xmit.c and wifi_drv_uapsd.c and its lowest layer:
  descriptors, the scoreboard of a traffic class, the hardware queues, the hand-over of frames
  to the hal (drv_to_hal) and their completion (drv_tx_complete), and the buffer queues of
  wifi_drv_uapsd.c.

  A descriptor is a value with an identity; \<^verbatim>\<open>txdesc_queue_lastframe\<close> is always the descriptor
  itself (it is only ever set so), so that cutting a list at it takes one descriptor.  The hal
  is the number of free descriptors per queue (\<^verbatim>\<open>hal_get_priv_cnt\<close>), of which each frame handed
  over takes one; what the hal does with the frames is not modelled.  Calls out of the path are
  entries of \<^verbatim>\<open>tx_log\<close>.
\<close>

section \<open>Data\<close>

record aml_ratecontrol =
  rate_index :: int
  vendor_rate_code :: u8
  trynum :: nat
  rc_bw :: nat
  rc_flags :: u16
  maxampdulen :: int

record txdesc =
  td_id :: nat
  td_vif :: nat
  td_queue :: nat
  td_tid :: nat
  td_seqnum :: int
  td_packetlen :: int
  td_mpdulen :: int
  b_Ampdu :: bool
  b_aggr :: bool
  b_11n :: bool
  b_noack :: bool
  b_amsdu :: bool
  b_nulldata :: bool
  b_probereq :: bool
  b_datapkt :: bool
  b_tcp :: bool
  b_pwr_sav :: bool
  qos_eosp :: bool
  more_data :: bool
  ack_policy_ba :: bool
  txdesc_pktnum :: int
  txdesc_agglen :: int
  txdesc_delimit :: int
  txdesc_aggr_page_num :: int
  txdesc_chanbw :: nat
  txdesc_rateinfo :: "aml_ratecontrol list"
  rate_valid :: int
  txdesc_sta :: "nat option"
  cb_sta :: "nat option"
  pkt_position :: bool

text \<open>\<^verbatim>\<open>drv_tx_scoreboard\<close>.  A traffic class is named by its station and number, an access
  category of a station by the station and the category.\<close>

type_synonym tidkey = "nat \<times> nat"
type_synonym ackey = "nat \<times> nat"

record drv_tx_scoreboard =
  t_vid :: nat
  t_index :: nat
  t_baw_size :: int
  t_b_work :: bool
  t_paused :: int
  t_seq_start :: int
  t_seq_next :: int
  t_baw_sn_last :: int
  t_baw_head :: int
  t_baw_tail :: int
  t_desc :: "nat option list"
  txds_queue :: "txdesc list"
  t_ac :: "ackey option"
  addba_timer :: os_timer_ext
  cleanup_inprogress :: bool
  exchangeinprogress :: bool
  exchangeattempts :: int
  exchangecomplete :: bool
  tid_amsdusupported :: int
  exchangestatuscode :: int
  tid_tx_buff_sending :: bool

record drv_queue_ac =
  ac_b_work :: bool
  ac_queue_id :: nat
  ac_tids :: "tidkey list"

record drv_txlist =
  txlist_qnum :: nat
  txlist_q :: "txdesc list"
  txlist_qcnt :: int
  txds_pending_cnt :: int
  txlist_acq :: "ackey list"
  txlist_backup :: "txdesc list"
  txlist_backup_qcnt :: int
  tx_aggr_status :: "nat list"

text \<open>What the path reads of a station: whether its interface is connected (vm_state), the
  aggregation parameters of \<^verbatim>\<open>tx_agg_st\<close>, the backup of a sampling rate, and the queue of a
  station in U-APSD power save with the flags of its service period.\<close>

record drv_sta =
  sta_vif :: nat
  vm_connected :: bool
  maxampdu :: int
  mpdudensity :: int
  minstrel_sample_rate :: "aml_ratecontrol list"
  sta_isuapsd :: bool
  sta_uapsd_queue :: "txdesc list"
  sta_uapsd_queuecnt :: int
  uapsd_sp :: bool
  uapsd_wait_noa_end :: bool
  uapsd_flush_wait_noa_end :: bool

datatype tx_event =
    ToHal nat "txdesc list"
  | TxComplete txdesc bool
  | HalTxAddbaOk tidkey int int
  | TxBufferSend tidkey
  | LockTimer
  | AddWorkitem tidkey
  | PsWake
  | PsSleep
  | SettxqueueFlush nat
  | SendQosNull nat nat
  | UapsdEosp txdesc bool
  | ScheduleTasklets
  | NotifyQstatus int
  | FreeTxamsduQueue nat

record drv_tx_priv =
  tids :: "tidkey \<Rightarrow> drv_tx_scoreboard"
  acs :: "ackey \<Rightarrow> drv_queue_ac"
  txlists :: "nat \<Rightarrow> drv_txlist"
  stas :: "nat \<Rightarrow> drv_sta"
  hal_free :: "nat \<Rightarrow> int"
  normal_buffer :: "nat \<Rightarrow> txdesc list"
  normal_count :: "nat \<Rightarrow> int"
  retransmit_queue :: "txdesc list"
  vm_ps_sta :: "nat \<Rightarrow> int"
  vm_mqueue_flag_send :: "nat \<Rightarrow> bool"
  drv_pkt_drop :: "nat \<Rightarrow> bool"
  drv_txqueue_map :: u32
  is_mother_channel :: "nat \<Rightarrow> bool"
  wait_mpdu_timeout :: bool
  drv_agg_limit :: int
  wm_zgb_exist_flag :: bool
  cfg_txaggr :: bool
  cfg_txamsdu :: bool
  cfg_ampdu_subframes :: int
  cfg_ampdu_limit :: int
  cfg_ampdu_oneframe :: bool
  cfg_ampduackpolicy :: u8
  tx_total_bytes :: int
  tx_pkts_cnt :: u32
  tx_normal_cnt :: u32
  tx_ampdu_cnt :: u32
  tx_ampdu_one_frame_cnt :: u32
  tx_end_ampdu_cnt :: u32
  tx_end_normal_cnt :: u32
  tx_end_fail_cnt :: u32
  tx_log :: "tx_event list"

text \<open>The interfaces that code outside the path fills in: pages per frame (hal_calc_mpdu_page),
  the rate control's choice (rate_findrate, None when it fails), the longest frame of a rate
  (max_send_packet_len), and whether a notice of absence has started (drv_if_noa_started).\<close>

record tx_env =
  calc_mpdu_page :: "int \<Rightarrow> int"
  rate_findrate :: "aml_ratecontrol list \<Rightarrow> nat \<Rightarrow> bool \<Rightarrow> aml_ratecontrol list option"
  max_send_packet_len :: "u8 \<Rightarrow> int"
  noa_started :: "txdesc \<Rightarrow> bool"

abbreviation (input) HAL_RATECTRL_CW40_FLAG :: u16 where "HAL_RATECTRL_CW40_FLAG \<equiv> 2"
abbreviation (input) HAL_RATECTRL_SGI_FLAG :: u16 where "HAL_RATECTRL_SGI_FLAG \<equiv> 4"
abbreviation (input) HAL_RATECTRL_USE_SAMPLE_RATE :: u16 where "HAL_RATECTRL_USE_SAMPLE_RATE \<equiv> 0x1000"

definition log_tx :: "tx_event \<Rightarrow> drv_tx_priv \<Rightarrow> drv_tx_priv" where
  "log_tx e s = s\<lparr>tx_log := tx_log s @ [e]\<rparr>"

definition set_tid :: "tidkey \<Rightarrow> drv_tx_scoreboard \<Rightarrow> drv_tx_priv \<Rightarrow> drv_tx_priv" where
  "set_tid k t s = s\<lparr>tids := (tids s)(k := t)\<rparr>"

definition set_ac :: "ackey \<Rightarrow> drv_queue_ac \<Rightarrow> drv_tx_priv \<Rightarrow> drv_tx_priv" where
  "set_ac a c s = s\<lparr>acs := (acs s)(a := c)\<rparr>"

definition set_list :: "nat \<Rightarrow> drv_txlist \<Rightarrow> drv_tx_priv \<Rightarrow> drv_tx_priv" where
  "set_list q l s = s\<lparr>txlists := (txlists s)(q := l)\<rparr>"

section \<open>The hal\<close>

definition aml_tx_hal_buffer_full :: "drv_tx_priv \<Rightarrow> nat \<Rightarrow> int \<Rightarrow> bool" where
  "aml_tx_hal_buffer_full s q need =
    (let space = hal_free s q;
         space = (if space \<ge> 2 then space - 1 else 0)
     in \<not> space \<ge> need)"

text \<open>\<^verbatim>\<open>drv_to_hal\<close>: the result is the return value and the list of the caller as it is left
  (empty when its frames went to the hal and onto txlist_q).  Every frame takes the rates and
  the bandwidth of the first.\<close>

definition hal_rates :: "txdesc \<Rightarrow> txdesc \<Rightarrow> txdesc" where
  "hal_rates first d = d\<lparr>txdesc_rateinfo := txdesc_rateinfo first,
     txdesc_chanbw := rc_bw (hd (txdesc_rateinfo first))\<rparr>"

definition drv_to_hal ::
  "nat \<Rightarrow> txdesc list \<Rightarrow> drv_tx_priv \<Rightarrow> int \<times> txdesc list \<times> drv_tx_priv"
where
  "drv_to_hal q ds s =
    (case ds of
       [] \<Rightarrow> (-1, ds, s)
     | d # _ \<Rightarrow>
       if aml_tx_hal_buffer_full s (txlist_qnum (txlists s q)) (txdesc_pktnum d) then (-1, ds, s)
       else let ds' = map (hal_rates d) ds;
                l = txlists s q;
                l = l\<lparr>txlist_qcnt := u32_of (txlist_qcnt l + txdesc_pktnum d),
                      txlist_q := txlist_q l @ ds'\<rparr>;
                n = txlist_qnum l
            in (0, [], log_tx (ToHal n ds')
                 (set_list q l (s\<lparr>hal_free := (hal_free s)(n := hal_free s n - int (length ds))\<rparr>))))"

text \<open>\<^verbatim>\<open>drv_tx_complete\<close> of a descriptor that has its frame.\<close>

definition drv_tx_complete :: "txdesc \<Rightarrow> bool \<Rightarrow> drv_tx_priv \<Rightarrow> drv_tx_priv" where
  "drv_tx_complete d txok s =
    (let s = (if b_Ampdu d
              then let s = (if b_aggr d then s\<lparr>tx_end_ampdu_cnt := tx_end_ampdu_cnt s + 1\<rparr> else s)
                   in if \<not> b_aggr d \<and> txok then s\<lparr>tx_end_normal_cnt := tx_end_normal_cnt s + 1\<rparr>
                      else s\<lparr>tx_end_fail_cnt := tx_end_fail_cnt s + 1\<rparr>
              else s);
         s = (if txok then s\<lparr>tx_total_bytes := (tx_total_bytes s + td_packetlen d) mod 2 ^ 64\<rparr> else s)
     in log_tx (TxComplete d txok) s)"

text \<open>Completing a list of descriptors in turn.\<close>

fun complete_all :: "txdesc list \<Rightarrow> drv_tx_priv \<Rightarrow> drv_tx_priv" where
  "complete_all [] s = s" |
  "complete_all (d # ds) s = complete_all ds (drv_tx_complete d False s)"

section \<open>Buffer queues (wifi_drv_uapsd.c)\<close>

text \<open>A queue and its count: initialisation, queueing a list, and draining the frames of an
  interface (3 stands for all).\<close>

definition drv_txdesc_list_init :: "txdesc list \<times> int" where
  "drv_txdesc_list_init = ([], 0)"

definition drv_txdesc_list_queue :: "txdesc list \<Rightarrow> txdesc list \<times> int \<Rightarrow> txdesc list \<times> int" where
  "drv_txdesc_list_queue ds q = (if ds = [] then q else (fst q @ ds, snd q + 1))"

fun drain_loop ::
  "nat \<Rightarrow> txdesc list \<Rightarrow> txdesc list \<Rightarrow> int \<Rightarrow> drv_tx_priv \<Rightarrow> (txdesc list \<times> int) \<times> drv_tx_priv"
where
  "drain_loop vid [] kept n s = ((kept, n), s)" |
  "drain_loop vid (d # ds) kept n s =
    (if td_vif d = vid \<or> vid = 3 then drain_loop vid ds kept (n - 1) (drv_tx_complete d False s)
     else drain_loop vid ds (kept @ [d]) n s)"

definition drv_txdesc_list_drain ::
  "nat \<Rightarrow> txdesc list \<times> int \<Rightarrow> drv_tx_priv \<Rightarrow> (txdesc list \<times> int) \<times> drv_tx_priv"
where
  "drv_txdesc_list_drain vid q s =
    (if snd q = 0 then (q, s) else drain_loop vid (fst q) [] (snd q) s)"

text \<open>Sending from a queue: each frame goes to the hal queue of its own number, until the queue is
  empty, the hal is full or a notice of absence has started.  \<^verbatim>\<open>tq\<close> is the local list
  \<^verbatim>\<open>tx_queue\<close>, which keeps the frames that drv_to_hal does not take.\<close>

fun send_loop ::
  "tx_env \<Rightarrow> txdesc list \<Rightarrow> int \<Rightarrow> txdesc list \<Rightarrow> drv_tx_priv \<Rightarrow> (txdesc list \<times> int) \<times> drv_tx_priv"
where
  "send_loop E [] n tq s = (([], n), s)" |
  "send_loop E (d # ds) n tq s =
    (if noa_started E d \<or> aml_tx_hal_buffer_full s (txlist_qnum (txlists s (td_queue d))) 1
     then ((d # ds, n), s)
     else let (r, tq, s) = drv_to_hal (td_queue d) (tq @ [d]) s
          in if n - 1 > 0 then send_loop E ds (n - 1) tq s else ((ds, n - 1), s))"

definition drv_txdesc_list_send ::
  "tx_env \<Rightarrow> txdesc list \<times> int \<Rightarrow> drv_tx_priv \<Rightarrow> (txdesc list \<times> int) \<times> drv_tx_priv"
where
  "drv_txdesc_list_send E q s = (if snd q = 0 then (q, s) else send_loop E (fst q) (snd q) [] s)"

text \<open>The backup queue of a hardware queue.\<close>

definition set_backup :: "nat \<Rightarrow> txdesc list \<times> int \<Rightarrow> drv_tx_priv \<Rightarrow> drv_tx_priv" where
  "set_backup q b s =
    set_list q ((txlists s q)\<lparr>txlist_backup := fst b, txlist_backup_qcnt := snd b\<rparr>) s"

definition backup_of :: "nat \<Rightarrow> drv_tx_priv \<Rightarrow> txdesc list \<times> int" where
  "backup_of q s = (txlist_backup (txlists s q), txlist_backup_qcnt (txlists s q))"

definition drv_tx_bk_list_init :: "nat \<Rightarrow> drv_tx_priv \<Rightarrow> drv_tx_priv" where
  "drv_tx_bk_list_init q s = set_backup q drv_txdesc_list_init s"

definition drv_txq_backup_drain :: "nat \<Rightarrow> nat \<Rightarrow> drv_tx_priv \<Rightarrow> drv_tx_priv" where
  "drv_txq_backup_drain q vid s =
    (let (b, s) = drv_txdesc_list_drain vid (backup_of q s) s in set_backup q b s)"

text \<open>Releasing the frames of one station.\<close>

fun cleanup_loop ::
  "nat option \<Rightarrow> txdesc list \<Rightarrow> txdesc list \<Rightarrow> int \<Rightarrow> drv_tx_priv \<Rightarrow> (txdesc list \<times> int) \<times> drv_tx_priv"
where
  "cleanup_loop sta [] kept n s = ((kept, n), s)" |
  "cleanup_loop sta (d # ds) kept n s =
    (if txdesc_sta d \<noteq> sta then cleanup_loop sta ds (kept @ [d]) n s
     else cleanup_loop sta ds kept (n - 1) (drv_tx_complete d False s))"

definition drv_txq_backup_cleanup :: "nat \<Rightarrow> nat \<Rightarrow> drv_tx_priv \<Rightarrow> drv_tx_priv" where
  "drv_txq_backup_cleanup q sta s =
    (let (b, s) = cleanup_loop (Some sta) (txlist_backup (txlists s q)) []
                    (txlist_backup_qcnt (txlists s q)) s
     in set_backup q b s)"

definition drv_txq_backup_qcnt :: "nat \<Rightarrow> drv_tx_priv \<Rightarrow> int" where
  "drv_txq_backup_qcnt q s = txlist_backup_qcnt (txlists s q)"

definition drv_txq_backup_addbuf :: "nat \<Rightarrow> txdesc list \<Rightarrow> drv_tx_priv \<Rightarrow> drv_tx_priv" where
  "drv_txq_backup_addbuf q ds s = set_backup q (drv_txdesc_list_queue ds (backup_of q s)) s"

definition drv_txq_backup_send :: "tx_env \<Rightarrow> nat \<Rightarrow> drv_tx_priv \<Rightarrow> drv_tx_priv" where
  "drv_txq_backup_send E q s =
    (let (b, s) = drv_txdesc_list_send E (backup_of q s) s in set_backup q b s)"

end
