(* ===== verification/TxWindow.thy ===== *)
theory TxWindow
  imports TxBase
begin

text \<open>
  The transmit block-ack window of a traffic class (drv_tx_add2baw and drv_tx_update_ba_win of
  wifi_drv_xmit.c): a ring of 128 descriptor places from \<^verbatim>\<open>baw_head\<close> to \<^verbatim>\<open>baw_tail\<close> for the
  sequence numbers from \<^verbatim>\<open>seq_start\<close> on.  The first section is the code, the second the abstract
  window (a start and a list of outstanding descriptors) it implements, and the third the
  invariant.  An operation that would index out of the ring or not return is None.
\<close>

section \<open>The operations\<close>

definition tx_slot :: "drv_tx_scoreboard \<Rightarrow> int \<Rightarrow> nat option option" where
  "tx_slot t i = (if 0 \<le> i \<and> i < int (length (t_desc t)) then Some (t_desc t ! nat i) else None)"

definition set_tx_slot :: "int \<Rightarrow> nat option \<Rightarrow> drv_tx_scoreboard \<Rightarrow> drv_tx_scoreboard" where
  "set_tx_slot i d t = t\<lparr>t_desc := (t_desc t)[nat i := d]\<rparr>"

definition drv_tx_add2baw :: "txdesc \<Rightarrow> drv_tx_scoreboard \<Rightarrow> drv_tx_scoreboard" where
  "drv_tx_add2baw d t =
    (let index = DRV_BA_INDEX (t_seq_start t) (td_seqnum d);
         desc_id = ((t_baw_head t + index) AND 127);
         t = (set_tx_slot desc_id (Some (td_id d)) t)\<lparr>t_baw_sn_last := td_seqnum d\<rparr>
     in if index \<ge> ((t_baw_tail t - t_baw_head t) AND 127)
        then t\<lparr>t_baw_tail := CIRCLE_Add_One_u16 desc_id DRV_TID_MAX_BUFS\<rparr> else t)"

text \<open>The loop that moves the head over the places that are free.\<close>

definition slide_one :: "drv_tx_scoreboard \<Rightarrow> drv_tx_scoreboard" where
  "slide_one t = t\<lparr>t_seq_start := CIRCLE_Add_One_u16 (t_seq_start t) WIFINET_SEQ_MAX,
                   t_baw_head := CIRCLE_Add_One_u16 (t_baw_head t) DRV_TID_MAX_BUFS\<rparr>"

partial_function (option) slide_win :: "drv_tx_scoreboard \<Rightarrow> drv_tx_scoreboard option" where
  "slide_win t =
    (if t_baw_head t = t_baw_tail t then Some t
     else case tx_slot t (t_baw_head t) of
            None \<Rightarrow> None
          | Some (Some _) \<Rightarrow> Some t
          | Some None \<Rightarrow> slide_win (slide_one t))"

declare slide_win.simps [code]

text \<open>\<^verbatim>\<open>sub\<close> is cfg_ampdu_subframes, \<^verbatim>\<open>cnt\<close> the txlist_qcnt of the hardware queue.\<close>

definition give_up_first ::
  "int \<Rightarrow> drv_tx_scoreboard \<Rightarrow> int \<Rightarrow> (drv_tx_scoreboard \<times> int) option"
where
  "give_up_first sub t cnt =
    (if ((t_baw_tail t - t_baw_head t) AND 127) \<ge> t_baw_size t - 1 - min (t_baw_size t div 2) sub
     then case tx_slot t (t_baw_head t) of
            None \<Rightarrow> None
          | Some None \<Rightarrow> Some (t, cnt)
          | Some (Some _) \<Rightarrow> Some (set_tx_slot (t_baw_head t) None t,
                                if cnt > 0 then cnt - 1 else cnt)
     else Some (t, cnt))"

definition drv_tx_update_ba_win ::
  "int \<Rightarrow> int \<Rightarrow> drv_tx_scoreboard \<Rightarrow> int \<Rightarrow> (drv_tx_scoreboard \<times> int) option"
where
  "drv_tx_update_ba_win sub seqnum t cnt =
    (let index = DRV_BA_INDEX (t_seq_start t) seqnum in
     if index > t_baw_size t then Some (t, cnt)
     else let desc_id = ((t_baw_head t + index) AND 127);
              t = set_tx_slot desc_id None t
          in do {
            (t, cnt) \<leftarrow> give_up_first sub t cnt;
            t \<leftarrow> slide_win t;
            Some (t, cnt)
          })"

section \<open>The abstract window\<close>

text \<open>A window of outstanding descriptors: place i holds the descriptor of the sequence number
  \<^verbatim>\<open>tw_start + i\<close>, unless it is acknowledged.\<close>

record tx_win =
  tw_start :: int
  tw_slots :: "nat option list"

definition tw_add :: "nat \<Rightarrow> nat \<Rightarrow> tx_win \<Rightarrow> tx_win" where
  "tw_add i x w = w\<lparr>tw_slots :=
     (if i < length (tw_slots w) then (tw_slots w)[i := Some x]
      else tw_slots w @ replicate (i - length (tw_slots w)) None @ [Some x])\<rparr>"

text \<open>The leading acknowledged places leave the window.\<close>

definition tw_slide :: "tx_win \<Rightarrow> tx_win" where
  "tw_slide w = (let n = length (takeWhile (\<lambda>x. x = None) (tw_slots w))
     in \<lparr>tw_start = (tw_start w + int n) mod 4096, tw_slots = drop n (tw_slots w)\<rparr>)"

text \<open>An acknowledged frame leaves its place; when the window is nearly full its first frame is
  given up; then the window slides.\<close>

definition tw_nearly_full :: "int \<Rightarrow> int \<Rightarrow> tx_win \<Rightarrow> bool" where
  "tw_nearly_full b sub w \<longleftrightarrow> int (length (tw_slots w)) \<ge> b - 1 - min (b div 2) sub"

definition tw_complete :: "int \<Rightarrow> int \<Rightarrow> nat \<Rightarrow> tx_win \<Rightarrow> tx_win" where
  "tw_complete b sub i w =
    (let w = w\<lparr>tw_slots := (tw_slots w)[i := None]\<rparr>;
         w = (if tw_nearly_full b sub w then w\<lparr>tw_slots := (tw_slots w)[0 := None]\<rparr> else w)
     in tw_slide w)"

section \<open>The ring as a window\<close>

definition tx_span :: "drv_tx_scoreboard \<Rightarrow> int" where
  "tx_span t = (t_baw_tail t - t_baw_head t) mod 128"

definition tx_ring :: "drv_tx_scoreboard \<Rightarrow> nat option list" where
  "tx_ring t = rotate (nat (t_baw_head t)) (t_desc t)"

definition tx_ring_wf :: "drv_tx_scoreboard \<Rightarrow> bool" where
  "tx_ring_wf t \<longleftrightarrow> 0 \<le> t_baw_head t \<and> t_baw_head t < 128 \<and> 0 \<le> t_baw_tail t \<and> t_baw_tail t < 128 \<and>
     0 \<le> t_seq_start t \<and> t_seq_start t < 4096 \<and> length (t_desc t) = 128"

definition tx_abs :: "drv_tx_scoreboard \<Rightarrow> tx_win" where
  "tx_abs t = \<lparr>tw_start = t_seq_start t, tw_slots = take (nat (tx_span t)) (tx_ring t)\<rparr>"

text \<open>The invariant: beyond the tail every place is free, and the window of a session is smaller
  than the ring.\<close>

definition tx_win_inv :: "drv_tx_scoreboard \<Rightarrow> bool" where
  "tx_win_inv t \<longleftrightarrow> tx_ring_wf t \<and> 0 \<le> t_baw_size t \<and> t_baw_size t \<le> 126 \<and>
     (\<forall>k. nat (tx_span t) \<le> k \<longrightarrow> k < 128 \<longrightarrow> tx_ring t ! k = None)"

lemma tx_span_range: "0 \<le> tx_span t" "tx_span t < 128"
  by (simp_all add: tx_span_def)

lemma length_tx_ring [simp]: "length (tx_ring t) = length (t_desc t)"
  by (simp add: tx_ring_def)

lemma set_tx_slot_fields [simp]:
  "t_baw_head (set_tx_slot i d t) = t_baw_head t" "t_baw_tail (set_tx_slot i d t) = t_baw_tail t"
  "t_seq_start (set_tx_slot i d t) = t_seq_start t" "t_baw_size (set_tx_slot i d t) = t_baw_size t"
  "length (t_desc (set_tx_slot i d t)) = length (t_desc t)"
  "tx_span (set_tx_slot i d t) = tx_span t" "tx_ring_wf (set_tx_slot i d t) = tx_ring_wf t"
  by (simp_all add: set_tx_slot_def tx_span_def tx_ring_wf_def)

lemma tx_ring_set:
  assumes "tx_ring_wf t" "k < 128"
  shows "tx_ring (set_tx_slot ((t_baw_head t + int k) mod 128) d t) = (tx_ring t)[k := d]"
  using assms rotate_update [of k "t_desc t" "nat (t_baw_head t)" d]
  by (simp add: nat_less_iff tx_ring_def set_tx_slot_def tx_ring_wf_def nat_ring_index)

lemma tx_ring_set_head:
  "tx_ring_wf t \<Longrightarrow> tx_ring (set_tx_slot (t_baw_head t) d t) = (tx_ring t)[0 := d]"
  using tx_ring_set [of t 0 d] by (simp add: tx_ring_wf_def)

lemma tx_slot_head:
  assumes "tx_ring_wf t"
  shows "tx_slot t (t_baw_head t) = Some (tx_ring t ! 0)"
  using assms by (auto simp: tx_slot_def tx_ring_wf_def tx_ring_def nth_rotate)

lemma slide_one_fields [simp]:
  "t_baw_tail (slide_one t) = t_baw_tail t" "t_desc (slide_one t) = t_desc t"
  "t_baw_size (slide_one t) = t_baw_size t"
  by (simp_all add: slide_one_def)

lemma slide_one_wf [simp]: "tx_ring_wf t \<Longrightarrow> tx_ring_wf (slide_one t)"
  by (auto simp: tx_ring_wf_def slide_one_def CIRCLE_Add_One_u16_mod)

lemma tx_ring_slide_one:
  assumes "tx_ring_wf t"
  shows "tx_ring (slide_one t) = rotate1 (tx_ring t)"
  using assms rotate_head_succ [of "t_baw_head t" "t_desc t"]
  by (simp add: tx_ring_def tx_ring_wf_def slide_one_def CIRCLE_Add_One_u16_mod)

lemma tx_span_slide_one:
  assumes "tx_ring_wf t" "t_baw_head t \<noteq> t_baw_tail t"
  shows "tx_span (slide_one t) = tx_span t - 1"
  using assms mod_diff_succ [of "t_baw_tail t" "t_baw_head t" 128]
    mod_diff_zero [of "t_baw_tail t" 128 "t_baw_head t"]
  by (simp add: tx_span_def slide_one_def CIRCLE_Add_One_u16_mod tx_ring_wf_def)

lemma tx_span_zero: "tx_ring_wf t \<Longrightarrow> tx_span t = 0 \<longleftrightarrow> t_baw_head t = t_baw_tail t"
  by (auto simp: tx_span_def tx_ring_wf_def mod_diff_zero)

lemma seq_slide_one:
  "tx_ring_wf t \<Longrightarrow> t_seq_start (slide_one t) = (t_seq_start t + 1) mod 4096"
  by (simp add: slide_one_def CIRCLE_Add_One_u16_mod tx_ring_wf_def)

text \<open>Moving the head over a free place keeps the places beyond the tail free and drops the
  first place of the abstract window.\<close>

lemma tx_win_inv_slide_one:
  assumes "tx_win_inv t" "t_baw_head t \<noteq> t_baw_tail t" "tx_ring t ! 0 = None"
  shows "tx_win_inv (slide_one t)"
    "tx_abs (slide_one t) = \<lparr>tw_start = (t_seq_start t + 1) mod 4096,
       tw_slots = tl (tw_slots (tx_abs t))\<rparr>"
proof -
  have wf: "tx_ring_wf t" and len: "length (t_desc t) = 128" using assms(1)
    by (simp_all add: tx_win_inv_def tx_ring_wf_def)
  have sp: "tx_span (slide_one t) = tx_span t - 1" "0 < tx_span t"
    using tx_span_slide_one [OF wf assms(2)] tx_span_zero [OF wf] assms(2) tx_span_range [of t]
    by auto
  have nth: "rotate1 (tx_ring t) ! k = (if k = 127 then tx_ring t ! 0 else tx_ring t ! Suc k)"
    if "k < 128" for k using that len by (auto simp: nth_rotate1)
  show "tx_win_inv (slide_one t)"
    using assms(1,3) sp wf nth
    by (auto simp: tx_win_inv_def tx_ring_slide_one nat_diff_distrib)
  have ring: "tx_ring t = hd (tx_ring t) # tl (tx_ring t)" using len length_tx_ring [of t]
    by (cases "tx_ring t") (simp_all del: length_tx_ring)
  have "nat (tx_span t - 1) \<le> length (tl (tx_ring t))" using tx_span_range [of t] len by simp
  then have "take (nat (tx_span t - 1)) (rotate1 (tx_ring t)) =
      take (nat (tx_span t - 1)) (tl (tx_ring t))"
    by (subst ring) (simp del: list.collapse)
  moreover have "nat (tx_span t - 1) = nat (tx_span t) - 1" using sp(2) by simp
  ultimately show "tx_abs (slide_one t) = \<lparr>tw_start = (t_seq_start t + 1) mod 4096,
       tw_slots = tl (tw_slots (tx_abs t))\<rparr>"
    by (simp add: tx_abs_def sp(1) tx_ring_slide_one [OF wf] seq_slide_one [OF wf] tl_take)
qed

text \<open>The slide returns, and is the abstract one.\<close>

lemma tw_slide_Nil: "tw_slots w = [] \<Longrightarrow> 0 \<le> tw_start w \<Longrightarrow> tw_start w < 4096 \<Longrightarrow> tw_slide w = w"
  by (simp add: tw_slide_def)

lemma tw_slide_Some:
  "tw_slots w = Some x # xs \<Longrightarrow> 0 \<le> tw_start w \<Longrightarrow> tw_start w < 4096 \<Longrightarrow> tw_slide w = w"
  by (simp add: tw_slide_def)

lemma tw_slide_None:
  "tw_slots w = None # xs \<Longrightarrow>
     tw_slide w = tw_slide \<lparr>tw_start = (tw_start w + 1) mod 4096, tw_slots = xs\<rparr>"
  by (simp add: tw_slide_def Let_def mod_simps algebra_simps)

lemma tx_abs_start_range:
  "tx_ring_wf t \<Longrightarrow> 0 \<le> tw_start (tx_abs t)" "tx_ring_wf t \<Longrightarrow> tw_start (tx_abs t) < 4096"
  by (simp_all add: tx_abs_def tx_ring_wf_def)

lemma tx_abs_slots:
  assumes "tx_ring_wf t" "t_baw_head t \<noteq> t_baw_tail t"
  shows "tw_slots (tx_abs t) = tx_ring t ! 0 # tl (tw_slots (tx_abs t))"
proof -
  have "0 < tx_span t" using assms tx_span_zero [of t] tx_span_range [of t] by simp
  moreover have "tx_ring t \<noteq> []" using assms(1) length_tx_ring [of t]
    by (cases "tx_ring t") (simp_all add: tx_ring_wf_def del: length_tx_ring)
  ultimately have "tw_slots (tx_abs t) \<noteq> []" "hd (tw_slots (tx_abs t)) = tx_ring t ! 0"
    by (simp_all add: tx_abs_def hd_conv_nth)
  then show ?thesis by (metis list.collapse)
qed

text \<open>The fields a slide leaves alone.\<close>

definition no_window :: "drv_tx_scoreboard \<Rightarrow> drv_tx_scoreboard" where
  "no_window t = t\<lparr>t_baw_head := 0, t_seq_start := 0, t_desc := [], t_baw_tail := 0,
     t_baw_sn_last := 0\<rparr>"

definition same_but_window :: "drv_tx_scoreboard \<Rightarrow> drv_tx_scoreboard \<Rightarrow> bool" where
  "same_but_window t t' \<longleftrightarrow> no_window t' = no_window t"

lemma no_window_fields:
  "t_baw_size (no_window t) = t_baw_size t" "txds_queue (no_window t) = txds_queue t"
  "t_paused (no_window t) = t_paused t" "t_b_work (no_window t) = t_b_work t"
  "exchangecomplete (no_window t) = exchangecomplete t"
  "exchangeinprogress (no_window t) = exchangeinprogress t"
  "cleanup_inprogress (no_window t) = cleanup_inprogress t"
  "addba_timer (no_window t) = addba_timer t" "t_ac (no_window t) = t_ac t"
  "t_vid (no_window t) = t_vid t" "t_index (no_window t) = t_index t"
  "t_seq_next (no_window t) = t_seq_next t"
  by (simp_all add: no_window_def)

lemma same_but_windowD:
  assumes "same_but_window t t'"
  shows "t_baw_size t' = t_baw_size t" "txds_queue t' = txds_queue t" "t_paused t' = t_paused t"
    "t_b_work t' = t_b_work t" "exchangecomplete t' = exchangecomplete t"
    "exchangeinprogress t' = exchangeinprogress t" "cleanup_inprogress t' = cleanup_inprogress t"
    "addba_timer t' = addba_timer t" "t_ac t' = t_ac t" "t_vid t' = t_vid t"
    "t_index t' = t_index t" "t_seq_next t' = t_seq_next t"
  using assms by (metis same_but_window_def no_window_fields)+

lemma same_but_window_refl [simp]: "same_but_window t t"
  by (simp add: same_but_window_def)

lemma same_but_window_trans [trans]:
  "same_but_window t u \<Longrightarrow> same_but_window u v \<Longrightarrow> same_but_window t v"
  by (simp add: same_but_window_def)

lemma same_but_window_slide_one [simp]: "same_but_window t (slide_one t)"
  by (simp add: same_but_window_def no_window_def slide_one_def)

lemma same_but_window_set [simp]: "same_but_window t (set_tx_slot i d t)"
  by (simp add: same_but_window_def no_window_def set_tx_slot_def)

lemma slide_win_abs:
  assumes "tx_win_inv t"
  shows "\<exists>t'. slide_win t = Some t' \<and> tx_win_inv t' \<and> tx_abs t' = tw_slide (tx_abs t) \<and>
    same_but_window t t'"
  using assms
proof (induction "nat (tx_span t)" arbitrary: t)
  case 0
  then have "t_baw_head t = t_baw_tail t" "tx_ring_wf t"
    using tx_span_range [of t] tx_span_zero [of t] by (auto simp: tx_win_inv_def)
  moreover have "tw_slide (tx_abs t) = tx_abs t" using 0 tx_abs_start_range [OF calculation(2)]
    by (intro tw_slide_Nil) (simp_all add: tx_abs_def)
  ultimately show ?case using 0 by (subst slide_win.simps) simp
next
  case (Suc n)
  have wf: "tx_ring_wf t" using Suc.prems by (simp add: tx_win_inv_def)
  have ne: "t_baw_head t \<noteq> t_baw_tail t" using Suc.hyps(2) tx_span_zero [OF wf] by auto
  note sl = tx_abs_slots [OF wf ne]
  show ?case
  proof (cases "tx_ring t ! 0")
    case None
    note one = tx_win_inv_slide_one [OF Suc.prems ne None]
    have "n = nat (tx_span (slide_one t))"
      using Suc.hyps(2) tx_span_slide_one [OF wf ne] by simp
    from Suc.hyps(1) [OF this one(1)] obtain t' where t': "slide_win (slide_one t) = Some t'"
      "tx_win_inv t'" "tx_abs t' = tw_slide (tx_abs (slide_one t))" "same_but_window (slide_one t) t'"
      by blast
    have "tw_slide (tx_abs t) = tw_slide (tx_abs (slide_one t))"
      using tw_slide_None [OF sl [unfolded None]] one(2) by (simp add: tx_abs_def)
    then show ?thesis using t' ne None same_but_window_trans [OF same_but_window_slide_one t'(4)]
      by (subst slide_win.simps) (simp add: tx_slot_head [OF wf])
  next
    case (Some x)
    then have "tw_slide (tx_abs t) = tx_abs t"
      using tw_slide_Some [of "tx_abs t" x] sl tx_abs_start_range [OF wf] by simp
    then show ?thesis using ne Some Suc.prems
      by (subst slide_win.simps) (simp add: tx_slot_head [OF wf])
  qed
qed

text \<open>Adding a descriptor whose sequence number is within the window.\<close>

lemma take_update_last:
  assumes "i < length xs" "m \<le> i" "\<And>k. m \<le> k \<Longrightarrow> k < length xs \<Longrightarrow> xs ! k = None"
  shows "take (Suc i) (xs[i := Some x]) = take m xs @ replicate (i - m) None @ [Some x]"
proof (rule nth_equalityI)
  fix k assume "k < length (take (Suc i) (xs[i := Some x]))"
  then show "take (Suc i) (xs[i := Some x]) ! k = (take m xs @ replicate (i - m) None @ [Some x]) ! k"
    using assms by (auto simp: nth_append nth_list_update)
qed (use assms in auto)

lemma add2baw_abs:
  assumes "tx_win_inv t" "BAW_WITHIN (t_seq_start t) (t_baw_size t) (td_seqnum d)"
  defines "i \<equiv> nat (DRV_BA_INDEX (t_seq_start t) (td_seqnum d))"
  shows "tx_win_inv (drv_tx_add2baw d t)"
    "tx_abs (drv_tx_add2baw d t) = tw_add i (td_id d) (tx_abs t)"
    "same_but_window t (drv_tx_add2baw d t)"
proof -
  let ?ix = "DRV_BA_INDEX (t_seq_start t) (td_seqnum d)"
  let ?slot = "(t_baw_head t + ?ix) mod 128"
  have wf: "tx_ring_wf t" and len: "length (t_desc t) = 128"
    using assms(1) by (simp_all add: tx_win_inv_def tx_ring_wf_def)
  have i: "?ix = int i" "i < 127"
    using assms(1,2) unfolding i_def
    by (auto simp: BAW_WITHIN_mod DRV_BA_INDEX_mod tx_win_inv_def)
  define u where "u = (set_tx_slot ?slot (Some (td_id d)) t)\<lparr>t_baw_sn_last := td_seqnum d\<rparr>"
  have ring_u: "tx_ring u = (tx_ring t)[i := Some (td_id d)]"
    using tx_ring_set [OF wf, of i "Some (td_id d)"] i by (simp add: u_def tx_ring_def)
  have wf_u: "tx_ring_wf u" "tx_span u = tx_span t" using wf
    by (simp_all add: u_def tx_ring_wf_def tx_span_def set_tx_slot_def)
  have same_u: "same_but_window t u"
    by (simp add: u_def same_but_window_def no_window_def set_tx_slot_def)
  define v where "v = u\<lparr>t_baw_tail := CIRCLE_Add_One_u16 ?slot 128\<rparr>"
  have eq: "drv_tx_add2baw d t = (if tx_span t \<le> int i then v else u)"
    by (simp add: drv_tx_add2baw_def Let_def i(1) u_def v_def tx_span_def)
  have slot1: "CIRCLE_Add_One_u16 ?slot 128 = (t_baw_head t + int i + 1) mod 128"
    by (simp add: CIRCLE_Add_One_u16_mod i(1) mod_simps)
  have tail_v: "t_baw_tail v = (t_baw_head t + int i + 1) mod 128" by (simp add: v_def slot1)
  have head_v: "t_baw_head v = t_baw_head t" by (simp add: v_def u_def)
  have "tx_span v = (int i + 1) mod 128" by (simp add: tx_span_def tail_v head_v mod_simps)
  then have span_v: "nat (tx_span v) = Suc i" using i(2) by simp
  have wf_v: "tx_ring_wf v" using wf_u(1) tail_v
    by (simp add: tx_ring_wf_def v_def u_def)
  have ring_v: "tx_ring v = tx_ring u" by (simp add: v_def tx_ring_def)
  have free: "tx_ring t ! k = None" if "nat (tx_span t) \<le> k" "k < 128" for k
    using assms(1) that by (simp add: tx_win_inv_def)
  have size: "t_baw_size u = t_baw_size t" "t_baw_size v = t_baw_size t"
    by (simp_all add: u_def v_def)
  have sq: "t_seq_start u = t_seq_start t" "t_seq_start v = t_seq_start t"
    by (simp_all add: u_def v_def)
  have lent: "length (tx_ring t) = 128" using len by simp
  show "same_but_window t (drv_tx_add2baw d t)" using same_u
    by (simp add: eq v_def same_but_window_def no_window_def)
  show "tx_win_inv (drv_tx_add2baw d t)"
    using assms(1) wf_u wf_v size span_v free lent
    by (auto simp: eq tx_win_inv_def ring_u ring_v nth_list_update)
  show "tx_abs (drv_tx_add2baw d t) = tw_add i (td_id d) (tx_abs t)"
  proof (cases "tx_span t \<le> int i")
    case True
    then have "take (Suc i) ((tx_ring t)[i := Some (td_id d)]) =
        take (nat (tx_span t)) (tx_ring t) @ replicate (i - nat (tx_span t)) None @ [Some (td_id d)]"
      using lent i(2) free by (intro take_update_last) auto
    then show ?thesis using True i(2) lent tx_span_range [of t]
      by (simp add: eq tx_abs_def tw_add_def span_v ring_v ring_u sq)
  next
    case False
    then show ?thesis using i(2) lent tx_span_range [of t]
      by (simp add: eq tx_abs_def tw_add_def wf_u ring_u take_update_swap sq)
  qed
qed

text \<open>Completing a frame.\<close>

lemma tx_inv_clear:
  assumes "tx_win_inv t" "k < 128"
  shows "tx_win_inv (set_tx_slot ((t_baw_head t + int k) mod 128) None t)"
    "tx_abs (set_tx_slot ((t_baw_head t + int k) mod 128) None t) =
       (tx_abs t)\<lparr>tw_slots := (tw_slots (tx_abs t))[k := None]\<rparr>"
proof -
  have wf: "tx_ring_wf t" using assms(1) by (simp add: tx_win_inv_def)
  have len: "length (tx_ring t) = 128" using wf by (simp add: tx_ring_wf_def)
  show "tx_win_inv (set_tx_slot ((t_baw_head t + int k) mod 128) None t)"
    using assms len by (auto simp: tx_win_inv_def tx_ring_set [OF wf] nth_list_update)
  show "tx_abs (set_tx_slot ((t_baw_head t + int k) mod 128) None t) =
       (tx_abs t)\<lparr>tw_slots := (tw_slots (tx_abs t))[k := None]\<rparr>"
    by (simp add: tx_abs_def tx_ring_set [OF wf assms(2)] take_update_swap)
qed

lemma length_tx_abs: "tx_ring_wf t \<Longrightarrow> int (length (tw_slots (tx_abs t))) = tx_span t"
  using tx_span_range [of t] by (simp add: tx_abs_def tx_ring_wf_def)

lemma update_ba_win_abs:
  fixes seqnum :: int
  assumes "tx_win_inv t"
  defines "i \<equiv> DRV_BA_INDEX (t_seq_start t) seqnum"
  shows "\<exists>t' cnt'. drv_tx_update_ba_win sub seqnum t cnt = Some (t', cnt') \<and> tx_win_inv t' \<and>
    same_but_window t t' \<and> (0 \<le> cnt \<longrightarrow> 0 \<le> cnt') \<and>
    tx_abs t' = (if i > t_baw_size t then tx_abs t
                 else tw_complete (t_baw_size t) sub (nat i) (tx_abs t))"
proof (cases "i > t_baw_size t")
  case True
  then show ?thesis using assms(1) by (simp add: drv_tx_update_ba_win_def i_def)
next
  case False
  define k where "k = nat i"
  have "0 \<le> i" "i \<le> 126" using False assms(1) by (auto simp: i_def tx_win_inv_def)
  then have k: "i = int k" "k < 128" by (simp_all add: k_def)
  define u where "u = set_tx_slot ((t_baw_head t + int k) mod 128) None t"
  have u: "tx_win_inv u" "tx_abs u = (tx_abs t)\<lparr>tw_slots := (tw_slots (tx_abs t))[k := None]\<rparr>"
    "same_but_window t u" "t_baw_size u = t_baw_size t" "tx_span u = tx_span t"
    using tx_inv_clear [OF assms(1) k(2)] by (simp_all add: u_def)
  have wfu: "tx_ring_wf u" using u(1) by (simp add: tx_win_inv_def)
  define full where "full = tw_nearly_full (t_baw_size t) sub (tx_abs u)"
  have full: "full \<longleftrightarrow> tx_span u \<ge> t_baw_size u - 1 - min (t_baw_size u div 2) sub"
    using length_tx_abs [OF wfu] u(4) by (simp add: full_def tw_nearly_full_def)
  define v where "v = (if full then set_tx_slot (t_baw_head u) None u else u)"
  have head: "(t_baw_head u + int 0) mod 128 = t_baw_head u" using wfu by (simp add: tx_ring_wf_def)
  have v: "tx_win_inv v" "tx_abs v = (if full then (tx_abs u)\<lparr>tw_slots := (tw_slots (tx_abs u))[0 := None]\<rparr>
       else tx_abs u)" "same_but_window u v"
    using tx_inv_clear [OF u(1), of 0] u(1) unfolding head by (simp_all add: v_def)
  have id: "set_tx_slot (t_baw_head u) None u = u" if "tx_ring u ! 0 = None"
  proof -
    have "t_desc u ! nat (t_baw_head u) = None"
      using that tx_slot_head [OF wfu] by (auto simp: tx_slot_def split: if_splits)
    then have "(t_desc u)[nat (t_baw_head u) := None] = t_desc u" by (metis list_update_id)
    then show ?thesis by (simp add: set_tx_slot_def)
  qed
  obtain t' where t': "slide_win v = Some t'" "tx_win_inv t'" "tx_abs t' = tw_slide (tx_abs v)"
    "same_but_window v t'" using slide_win_abs [OF v(1)] by blast
  define cnt' where "cnt' = (if full \<and> tx_ring u ! 0 \<noteq> None \<and> cnt > 0 then cnt - 1 else cnt)"
  have "drv_tx_update_ba_win sub seqnum t cnt = Some (t', cnt')"
  proof -
    have "give_up_first sub u cnt = Some (v, cnt')"
      using full id by (auto simp: give_up_first_def tx_slot_head [OF wfu] v_def cnt'_def tx_span_def
          split: option.split)
    then show ?thesis using t'(1) k(1) False
      by (simp add: drv_tx_update_ba_win_def Let_def i_def [symmetric] u_def)
  qed
  moreover have "tx_abs t' = tw_complete (t_baw_size t) sub (nat i) (tx_abs t)"
    by (simp add: t'(3) v(2) tw_complete_def Let_def full_def u(2) k(1))
  ultimately show ?thesis using t'(2) False
      same_but_window_trans [OF u(3) same_but_window_trans [OF v(3) t'(4)]]
    by (auto simp: cnt'_def)
qed

end
