(* ===== verification/TxBuild.thy ===== *)
theory TxBuild
  imports TxWindow
begin

text \<open>
  Forming aggregates (wifi_drv_xmit.c): the length limit of the rate (drv_lookup_rate), the
  delimiters between the subframes (drv_compute_num_delims), the frames of the next aggregate
  (drv_txampdu_build), and the loop that hands aggregates to the hal (drv_tx_sched_aggr).  A
  KASSERT that fails and an index out of \<^verbatim>\<open>tx_aggr_status\<close> are the result None, and so is a
  loop that does not end.
\<close>

section \<open>Rates and delimiters\<close>

definition IS_MCS_RATE :: "u8 \<Rightarrow> bool" where
  "IS_MCS_RATE r \<longleftrightarrow> r AND 0xf0 \<noteq> 0"

definition HT_RC_2_MCS :: "u8 \<Rightarrow> nat" where
  "HT_RC_2_MCS r = unat (r AND 0xf)"

text \<open>The shortest of the limits of the rates that will be tried, of the first three.\<close>

fun rate_limits :: "tx_env \<Rightarrow> aml_ratecontrol list \<Rightarrow> int \<Rightarrow> int" where
  "rate_limits E [] m = m" |
  "rate_limits E (r # rs) m =
    rate_limits E rs (if IS_MCS_RATE (vendor_rate_code r) \<and> trynum r \<noteq> 0
                      then min m (max_send_packet_len E (vendor_rate_code r)) else m)"

definition drv_lookup_rate ::
  "tx_env \<Rightarrow> nat \<Rightarrow> aml_ratecontrol list \<Rightarrow> bool \<Rightarrow> drv_tx_priv \<Rightarrow> int \<times> aml_ratecontrol list"
where
  "drv_lookup_rate E sta rates is_amsdu s =
    (if \<not> vm_connected (stas s sta) then (0, rates)
     else case rate_findrate E rates sta is_amsdu of
            None \<Rightarrow> (0, rates)
          | Some rates \<Rightarrow>
            let maxampdulen = rate_limits E (take 3 rates) 32768;
                aggr_limit = u16_of (min maxampdulen (u32_of (cfg_ampdu_limit s)));
                sta_max = u16_of (maxampdu (stas s sta))
            in (if sta_max \<noteq> 0 then min aggr_limit sta_max else aggr_limit, rates))"

definition bits_per_symbol :: "(int \<times> int) list" where
  "bits_per_symbol = [(26, 54), (52, 108), (78, 162), (104, 216), (156, 324), (208, 432),
     (234, 486), (260, 540), (52, 108), (104, 216), (156, 324), (208, 432), (312, 648),
     (416, 864), (468, 972), (520, 1080)]"

definition drv_compute_num_delims :: "int \<Rightarrow> txdesc \<Rightarrow> int \<Rightarrow> int" where
  "drv_compute_num_delims dens d packetlen =
    (let ndelim = int (DRV_AGGR_GET_NDELIM (nat packetlen)) in
     if dens = 0 then ndelim
     else let r = hd (txdesc_rateinfo d);
              width = (rc_flags r AND HAL_RATECTRL_CW40_FLAG \<noteq> 0);
              half_gi = (rc_flags r AND HAL_RATECTRL_SGI_FLAG \<noteq> 0);
              nsymbols = (if half_gi then u32_of (dens * 5 - 4) div 18 else dens div 4);
              nsymbols = (if nsymbols = 0 then 1 else nsymbols);
              row = bits_per_symbol ! HT_RC_2_MCS (vendor_rate_code r);
              nsymbits = (if width then snd row else fst row);
              minlen = u16_of (u32_of (nsymbols * nsymbits) div 8)
          in if packetlen < minlen then max ((minlen - packetlen) div 4) ndelim else ndelim)"

section \<open>The frames of an aggregate\<close>

text \<open>What the loop of drv_txampdu_build does not change.\<close>

record build_params =
  bp_limit :: int
  bp_frames :: int
  bp_agg_limit :: int
  bp_zgb :: bool
  bp_density :: int
  bp_first :: txdesc
  bp_set_ba :: bool
  bp_pages :: "int \<Rightarrow> int"

text \<open>Its local variables: \<^verbatim>\<open>nframes\<close>, \<^verbatim>\<open>al\<close>, \<^verbatim>\<open>bpad\<close>, \<^verbatim>\<open>txdesc_aggr_page_num\<close>, the list
  \<^verbatim>\<open>tx_queue\<close>, the traffic class, \<^verbatim>\<open>txds_pending_cnt\<close>, and the sampling rates of the station.\<close>

record build_state =
  bs_n :: int
  bs_al :: int
  bs_bpad :: int
  bs_pages :: int
  bs_queue :: "txdesc list"
  bs_tid :: drv_tx_scoreboard
  bs_pending :: int
  bs_sample :: "aml_ratecontrol list"

definition backup_sample :: "txdesc \<Rightarrow> build_state \<Rightarrow> build_state" where
  "backup_sample d b =
    (let r = hd (txdesc_rateinfo d) in
     if bs_n b \<noteq> 0 \<and> rc_flags r AND HAL_RATECTRL_USE_SAMPLE_RATE \<noteq> 0 \<and>
        IS_MCS_RATE (vendor_rate_code r)
     then b\<lparr>bs_sample := txdesc_rateinfo d\<rparr> else b)"

definition al_delta :: "txdesc \<Rightarrow> int" where
  "al_delta d = u16_of (4 + td_packetlen d)"

text \<open>The tests that end the aggregate before a frame: 0 goes on.\<close>

definition build_stop :: "build_params \<Rightarrow> txdesc \<Rightarrow> build_state \<Rightarrow> int" where
  "build_stop p d b =
    (if \<not> BAW_WITHIN (t_seq_start (bs_tid b)) (t_baw_size (bs_tid b)) (td_seqnum d) then 1
     else if bs_n b \<noteq> 0 \<and> bp_limit p < bs_al b + bs_bpad b + al_delta d then 2
     else if bs_n b \<ge> bp_frames p then 2
     else if bs_n b \<ge> bp_agg_limit p then 2
     else if bp_zgb p \<and> bs_n b \<ge> 1 then 2
     else 0)"

definition build_desc :: "build_params \<Rightarrow> txdesc \<Rightarrow> txdesc" where
  "build_desc p d =
    (let d = d\<lparr>txdesc_delimit := drv_compute_num_delims (bp_density p) (bp_first p) (td_packetlen d)\<rparr>
     in if bp_set_ba p then d\<lparr>ack_policy_ba := True, b_noack := True\<rparr> else d)"

definition build_take :: "build_params \<Rightarrow> txdesc \<Rightarrow> txdesc list \<Rightarrow> build_state \<Rightarrow> build_state" where
  "build_take p d rest b =
    (let ndelim = drv_compute_num_delims (bp_density p) (bp_first p) (td_packetlen d) in
     b\<lparr>bs_n := bs_n b + 1,
       bs_al := u16_of (bs_al b + bs_bpad b + al_delta d),
       bs_bpad := u16_of (int (PADBYTES (nat (al_delta d))) + ndelim * 4),
       bs_pages := u16_of (bs_pages b + bp_pages p (td_mpdulen d)),
       bs_queue := bs_queue b @ [build_desc p d],
       bs_tid := drv_tx_add2baw d ((bs_tid b)\<lparr>txds_queue := rest\<rparr>),
       bs_pending := (if bs_pending b > 0 then bs_pending b - 1 else bs_pending b)\<rparr>)"

fun build_loop :: "build_params \<Rightarrow> txdesc list \<Rightarrow> build_state \<Rightarrow> int \<times> build_state" where
  "build_loop p [] b = (0, b)" |
  "build_loop p (d # ds) b =
    (let b = backup_sample d b; st = build_stop p d b
     in if st \<noteq> 0 then (st, b) else build_loop p ds (build_take p d ds b))"

text \<open>The whole function: the list of frames taken (empty when it refuses), the first of them
  with the totals of the aggregate.\<close>

definition zero_rates :: "aml_ratecontrol list" where
  "zero_rates = replicate 4 \<lparr>rate_index = 0, vendor_rate_code = 0, trynum = 0, rc_bw = 0,
     rc_flags = 0, maxampdulen = 0\<rparr>"

fun map_hd :: "('a \<Rightarrow> 'a) \<Rightarrow> 'a list \<Rightarrow> 'a list" where
  "map_hd f [] = []" |
  "map_hd f (x # xs) = f x # xs"

definition build_rates ::
  "tx_env \<Rightarrow> nat \<Rightarrow> nat \<Rightarrow> txdesc \<Rightarrow> drv_tx_priv \<Rightarrow> int \<times> txdesc \<times> drv_tx_priv"
where
  "build_rates E owner sta d s =
    (let st = stas s sta;
         backup = (rc_flags (hd (txdesc_rateinfo d)) AND HAL_RATECTRL_USE_SAMPLE_RATE = 0 \<and>
                   trynum (hd (minstrel_sample_rate st)) \<noteq> 0);
         d = (if backup then d\<lparr>txdesc_rateinfo := minstrel_sample_rate st\<rparr> else d);
         s = (if backup
              then s\<lparr>stas := (stas s)(sta := st\<lparr>minstrel_sample_rate := zero_rates\<rparr>)\<rparr> else s);
         r = txdesc_rateinfo d
     in if rate_valid d = 0
        then let (l, r) = drv_lookup_rate E owner r (b_amsdu d) s
             in (u16_of l, d\<lparr>txdesc_rateinfo := r\<rparr>, s)
        else if rate_valid d = 1
        then let l = u16_of (min (maxampdulen (r ! 0)) (maxampdulen (r ! 1)))
             in (u16_of (min (maxampdulen (r ! 2)) l), d, s)
        else (4096, d, s))"

definition build_params_of ::
  "tx_env \<Rightarrow> int \<Rightarrow> int \<Rightarrow> nat \<Rightarrow> nat \<Rightarrow> txdesc \<Rightarrow> drv_tx_priv \<Rightarrow> build_params"
where
  "build_params_of E limit nfr tix sta d s =
    \<lparr>bp_limit = limit, bp_frames = nfr, bp_agg_limit = drv_agg_limit s,
     bp_zgb = wm_zgb_exist_flag s, bp_density = mpdudensity (stas s sta), bp_first = d,
     bp_set_ba = \<not> bit (cfg_ampduackpolicy s) tix, bp_pages = calc_mpdu_page E\<rparr>"

definition build_start :: "nat \<Rightarrow> nat \<Rightarrow> drv_tx_scoreboard \<Rightarrow> drv_tx_priv \<Rightarrow> build_state" where
  "build_start q sta t s =
    \<lparr>bs_n = 0, bs_al = 0, bs_bpad = 0, bs_pages = 0, bs_queue = [], bs_tid = t,
     bs_pending = txds_pending_cnt (txlists s q),
     bs_sample = minstrel_sample_rate (stas s sta)\<rparr>"

definition build_totals :: "build_state \<Rightarrow> txdesc \<Rightarrow> txdesc" where
  "build_totals b d = d\<lparr>txdesc_agglen := bs_al b, txdesc_pktnum := bs_n b,
     txdesc_aggr_page_num := bs_pages b\<rparr>"

definition build_finish ::
  "nat \<Rightarrow> tidkey \<Rightarrow> nat \<Rightarrow> build_state \<Rightarrow> drv_tx_priv \<Rightarrow> txdesc list \<times> drv_tx_priv"
where
  "build_finish q k sta b s =
    (let t = (if bs_queue b = []
              then (bs_tid b)\<lparr>txds_queue := map_hd (build_totals b) (txds_queue (bs_tid b))\<rparr>
              else bs_tid b);
         s = set_list q ((txlists s q)\<lparr>txds_pending_cnt := bs_pending b\<rparr>) (set_tid k t s);
         s = s\<lparr>stas := (stas s)(sta := (stas s sta)\<lparr>minstrel_sample_rate := bs_sample b\<rparr>)\<rparr>
     in (map_hd (build_totals b) (bs_queue b), s))"

definition drv_txampdu_build ::
  "tx_env \<Rightarrow> nat \<Rightarrow> tidkey \<Rightarrow> drv_tx_priv \<Rightarrow> int \<times> txdesc list \<times> drv_tx_priv"
where
  "drv_txampdu_build E q k s =
    (let t = tids s k; nfr = min (t_baw_size t div 2) (cfg_ampdu_subframes s) in
     case txds_queue t of
       [] \<Rightarrow> (0, [], s)
     | d # ds \<Rightarrow>
       if \<not> BAW_WITHIN (t_seq_start t) (t_baw_size t) (td_seqnum d + nfr) then (0, [], s)
       else case txdesc_sta d of
              None \<Rightarrow> (0, [], s)
            | Some sta \<Rightarrow>
              let (limit, d, s) = build_rates E (fst k) sta d s;
                  (st, b) = build_loop (build_params_of E limit nfr (t_index t) sta d s) (d # ds)
                              (build_start q sta (t\<lparr>txds_queue := d # ds\<rparr>) s)
              in (st, build_finish q k sta b s))"

section \<open>The scheduling loop\<close>

text \<open>The test at its top: None stops (the flag may have changed), Some goes on.\<close>

definition sched_wait :: "nat \<Rightarrow> drv_tx_priv \<Rightarrow> bool \<times> drv_tx_priv" where
  "sched_wait q s =
    (if txds_pending_cnt (txlists s q) < u32_of (cfg_ampdu_subframes s)
     then if \<not> wait_mpdu_timeout s then (True, s)
          else if 80 - u8_of (hal_free s (txlist_qnum (txlists s q))) \<ge> cfg_ampdu_subframes s
          then (True, s\<lparr>wait_mpdu_timeout := False\<rparr>)
          else (False, s)
     else (False, s))"

text \<open>Handing an aggregate over; the flag says that the loop ends after it.\<close>

definition count_aggr :: "nat \<Rightarrow> int \<Rightarrow> drv_tx_priv \<Rightarrow> drv_tx_priv option" where
  "count_aggr q n s =
    (let l = txlists s q; a = tx_aggr_status l in
     if 1 \<le> n \<and> n \<le> int (length a)
     then Some (set_list q (l\<lparr>tx_aggr_status := a[nat (n - 1) := (a ! nat (n - 1) + 1) mod 2 ^ 32]\<rparr>) s)
     else None)"

definition sched_mark :: "tx_env \<Rightarrow> bool \<Rightarrow> bool \<Rightarrow> txdesc \<Rightarrow> txdesc" where
  "sched_mark E single oneframe d =
    (let d = d\<lparr>b_11n := True\<rparr> in
     if single
     then let d = d\<lparr>b_aggr := False\<rparr> in
          if \<not> oneframe
          then d\<lparr>txdesc_agglen := td_packetlen d,
                 txdesc_aggr_page_num := calc_mpdu_page E (td_mpdulen d), b_Ampdu := False\<rparr>
          else d
     else d\<lparr>b_aggr := True\<rparr>)"

definition count_sent :: "bool \<Rightarrow> drv_tx_priv \<Rightarrow> drv_tx_priv" where
  "count_sent single s =
    (let s = s\<lparr>wait_mpdu_timeout := False\<rparr> in
     if single then s\<lparr>tx_ampdu_one_frame_cnt := tx_ampdu_one_frame_cnt s + 1\<rparr>
     else s\<lparr>tx_ampdu_cnt := tx_ampdu_cnt s + 1\<rparr>)"

definition sched_send ::
  "tx_env \<Rightarrow> nat \<Rightarrow> txdesc list \<Rightarrow> drv_tx_priv \<Rightarrow> (bool \<times> drv_tx_priv) option"
where
  "sched_send E q tq s =
    (case count_aggr q (txdesc_pktnum (hd tq)) s of
       None \<Rightarrow> None
     | Some s \<Rightarrow>
       let single = (txdesc_pktnum (hd tq) = 1);
           s = count_sent single s;
           d = sched_mark E single (cfg_ampdu_oneframe s) (hd tq);
           (ret, rest, s) = drv_to_hal q (d # tl tq) s
       in if ret \<ge> 0 then Some (single, s) else None)"

partial_function (option) sched_loop ::
  "tx_env \<Rightarrow> nat \<Rightarrow> tidkey \<Rightarrow> drv_tx_priv \<Rightarrow> drv_tx_priv option"
where
  "sched_loop E q k s =
    (let (stop, s) = sched_wait q s in
     if stop \<or> txds_queue (tids s k) = [] \<or>
        aml_tx_hal_buffer_full s (txlist_qnum (txlists s q)) (cfg_ampdu_subframes s)
     then Some s
     else let (st, tq, s) = drv_txampdu_build E q k s in
          if tq = [] then Some s
          else Option.bind (sched_send E q tq s) (\<lambda>(stop, s).
                 if stop then Some s else sched_loop E q k s))"

declare sched_loop.simps [code]

definition drv_tx_sched_aggr ::
  "tx_env \<Rightarrow> nat \<Rightarrow> tidkey \<Rightarrow> drv_tx_priv \<Rightarrow> drv_tx_priv option"
where
  "drv_tx_sched_aggr E q k s =
    (if is_mother_channel s (t_vid (tids s k)) then sched_loop E q k s else Some s)"

end
