(* ===== verification/TxSched.thy ===== *)
theory TxSched
  imports TxBuild
begin

text \<open>
  What the aggregation of TxBuild does to the queue of a traffic class: the frames of an
  aggregate are a prefix of the queue, within the window, the subframe and length limits; the
  scheduling loop ends, trips none of its assertions, and moves frames from the queue to the hal
  in order.
\<close>

section \<open>One aggregate\<close>

definition queue_ids :: "txdesc list \<Rightarrow> nat list" where
  "queue_ids ds = map td_id ds"

lemma queue_ids_simps [simp]:
  "queue_ids [] = []" "queue_ids (d # ds) = td_id d # queue_ids ds"
  "queue_ids (xs @ ys) = queue_ids xs @ queue_ids ys"
  by (simp_all add: queue_ids_def)

lemma queue_ids_map: "(\<And>d. td_id (f d) = td_id d) \<Longrightarrow> queue_ids (map f ds) = queue_ids ds"
  by (simp add: queue_ids_def)

lemma queue_ids_map_hd: "(\<And>d. td_id (f d) = td_id d) \<Longrightarrow> queue_ids (map_hd f ds) = queue_ids ds"
  by (cases ds) simp_all

lemma build_desc_fields [simp]:
  "td_id (build_desc p d) = td_id d" "td_seqnum (build_desc p d) = td_seqnum d"
  "td_packetlen (build_desc p d) = td_packetlen d" "txdesc_sta (build_desc p d) = txdesc_sta d"
  by (simp_all add: build_desc_def Let_def)

lemma backup_sample_fields [simp]:
  "bs_n (backup_sample d b) = bs_n b" "bs_al (backup_sample d b) = bs_al b"
  "bs_bpad (backup_sample d b) = bs_bpad b" "bs_queue (backup_sample d b) = bs_queue b"
  "bs_tid (backup_sample d b) = bs_tid b" "bs_pending (backup_sample d b) = bs_pending b"
  "bs_pages (backup_sample d b) = bs_pages b"
  by (simp_all add: backup_sample_def Let_def)

lemma build_stop_backup [simp]: "build_stop p d (backup_sample e b) = build_stop p d b"
  by (simp add: build_stop_def)

text \<open>The state of the loop keeps the window invariant, its limits, and the queue it started
  with.\<close>

definition in_window :: "drv_tx_scoreboard \<Rightarrow> txdesc \<Rightarrow> bool" where
  "in_window t d \<longleftrightarrow> BAW_WITHIN (t_seq_start t) (t_baw_size t) (td_seqnum d)"

definition build_inv :: "build_params \<Rightarrow> drv_tx_scoreboard \<Rightarrow> txdesc list \<Rightarrow> build_state \<Rightarrow> bool" where
  "build_inv p t ds b \<longleftrightarrow>
     tx_win_inv (bs_tid b) \<and> same_but_window t ((bs_tid b)\<lparr>txds_queue := txds_queue t\<rparr>) \<and>
     t_seq_start (bs_tid b) = t_seq_start t \<and>
     bs_n b = int (length (bs_queue b)) \<and>
     (bs_queue b \<noteq> [] \<longrightarrow> bs_n b \<le> bp_frames p \<and> bs_n b \<le> bp_agg_limit p \<and> (bp_zgb p \<longrightarrow> bs_n b \<le> 1)) \<and>
     (2 \<le> bs_n b \<longrightarrow> bs_al b \<le> bp_limit p) \<and>
     0 \<le> bs_al b \<and> 0 \<le> bs_bpad b \<and>
     txds_queue (bs_tid b) = ds \<and>
     (\<forall>d\<in>set (bs_queue b). in_window t d)"

lemma tx_win_inv_queue [simp]: "tx_win_inv (t\<lparr>txds_queue := q\<rparr>) = tx_win_inv t"
  by (simp add: tx_win_inv_def tx_ring_wf_def tx_span_def tx_ring_def)

lemma add2baw_start: "t_seq_start (drv_tx_add2baw d t) = t_seq_start t"
  by (simp add: drv_tx_add2baw_def Let_def)

lemma same_but_window_queue:
  "same_but_window t u \<Longrightarrow> same_but_window (t\<lparr>txds_queue := q\<rparr>) (u\<lparr>txds_queue := q\<rparr>)"
proof -
  have "no_window (x\<lparr>txds_queue := q\<rparr>) = (no_window x)\<lparr>txds_queue := q\<rparr>" for x
    by (simp add: no_window_def)
  then show "same_but_window t u \<Longrightarrow> ?thesis" by (simp add: same_but_window_def)
qed

lemma build_stop_zero:
  assumes "build_stop p d b = 0"
  shows "in_window (bs_tid b) d" "bs_n b \<noteq> 0 \<Longrightarrow> bs_al b + bs_bpad b + al_delta d \<le> bp_limit p"
    "bs_n b < bp_frames p" "bs_n b < bp_agg_limit p" "bp_zgb p \<Longrightarrow> bs_n b < 1"
  using assms by (auto simp: build_stop_def in_window_def split: if_splits)

lemma u16_of_range [simp]: "0 \<le> u16_of x" "u16_of x < 65536"
  by (simp_all add: u16_of_def)

lemma build_inv_take:
  assumes inv: "build_inv p t (d # ds) b" and go: "build_stop p d b = 0"
    and lim: "bp_limit p < 65536"
  shows "build_inv p t ds (build_take p d ds b)"
proof -
  define u where "u = (bs_tid b)\<lparr>txds_queue := ds\<rparr>"
  have u: "tx_win_inv u" "t_seq_start u = t_seq_start t" "t_baw_size u = t_baw_size t"
    "same_but_window (t\<lparr>txds_queue := ds\<rparr>) u"
  proof -
    show "tx_win_inv u" "t_seq_start u = t_seq_start t" using inv by (simp_all add: u_def build_inv_def)
    have "same_but_window t ((bs_tid b)\<lparr>txds_queue := txds_queue t\<rparr>)" using inv
      by (simp add: build_inv_def)
    from same_but_window_queue [OF this, of ds] show *: "same_but_window (t\<lparr>txds_queue := ds\<rparr>) u"
      by (simp add: u_def)
    show "t_baw_size u = t_baw_size t" using same_but_windowD(1) [OF *] by simp
  qed
  have win: "BAW_WITHIN (t_seq_start u) (t_baw_size u) (td_seqnum d)"
    using build_stop_zero(1) [OF go] by (simp add: in_window_def u_def)
  note add = add2baw_abs [OF u(1) win]
  have inw: "in_window t d" using win u by (simp add: in_window_def)
  have same: "same_but_window (t\<lparr>txds_queue := ds\<rparr>) (drv_tx_add2baw d u)"
    by (rule same_but_window_trans [OF u(4) add(3)])
  have q: "txds_queue (drv_tx_add2baw d u) = ds" using same_but_windowD(2) [OF same] by simp
  from same_but_window_queue [OF same, of "txds_queue t"]
  have same': "same_but_window t ((drv_tx_add2baw d u)\<lparr>txds_queue := txds_queue t\<rparr>)" by simp
  note st = build_stop_zero [OF go]
  have al: "u16_of (bs_al b + bs_bpad b + al_delta d) \<le> bp_limit p" if "bs_n b \<noteq> 0"
  proof -
    have "0 \<le> bs_al b + bs_bpad b + al_delta d" using inv by (simp add: build_inv_def al_delta_def)
    then show ?thesis using st(2) [OF that] lim by (simp add: u16_of_def)
  qed
  have n: "bs_n b = int (length (bs_queue b))" using inv by (simp add: build_inv_def)
  have al': "2 \<le> bs_n b + 1 \<longrightarrow> u16_of (bs_al b + bs_bpad b + al_delta d) \<le> bp_limit p"
    using al by auto
  have lims: "bs_n b + 1 \<le> bp_frames p" "bs_n b + 1 \<le> bp_agg_limit p"
    "bp_zgb p \<longrightarrow> bs_n b + 1 \<le> 1" using st(3-5) by auto
  have ws: "\<forall>d\<in>set (bs_queue b). in_window t d" using inv by (simp add: build_inv_def)
  show ?thesis
    unfolding build_inv_def build_take_def Let_def u_def [symmetric]
    using add(1) same' q inw al' lims u(2) ws n by (simp add: add2baw_start in_window_def)
qed

lemma build_loop_spec:
  assumes "build_inv p t ds b" "bp_limit p < 65536" "build_loop p ds b = (st, b')"
  shows "\<exists>n \<le> length ds. build_inv p t (drop n ds) b' \<and>
     bs_queue b' = bs_queue b @ map (build_desc p) (take n ds)"
  using assms
proof (induction p ds b arbitrary: st b' rule: build_loop.induct)
  case (1 p b)
  then show ?case by auto
next
  case (2 p d ds b)
  have binv: "build_inv p t (d # ds) (backup_sample d b)" using "2.prems"(1) by (auto simp: build_inv_def)
  show ?case
  proof (cases "build_stop p d b = 0")
    case True
    define c where "c = build_take p d ds (backup_sample d b)"
    have "build_inv p t ds c" using build_inv_take [OF binv _ "2.prems"(2)] True by (simp add: c_def)
    moreover have "build_loop p ds c = (st, b')" using "2.prems"(3) True by (simp add: c_def Let_def)
    ultimately obtain n where n: "n \<le> length ds" "build_inv p t (drop n ds) b'"
      "bs_queue b' = bs_queue c @ map (build_desc p) (take n ds)"
      using "2.IH" [OF refl refl] True "2.prems"(2) by (fastforce simp: c_def)
    moreover have "bs_queue c = bs_queue b @ [build_desc p d]" by (simp add: c_def build_take_def Let_def)
    ultimately show ?thesis by (intro exI [of _ "Suc n"]) simp
  next
    case False
    then have "b' = backup_sample d b" using "2.prems"(3) by (simp add: Let_def)
    then show ?thesis using binv by (intro exI [of _ 0]) simp
  qed
qed

text \<open>The rates of the first frame change only the backup of the station.\<close>

definition txd_eq :: "txdesc \<Rightarrow> txdesc \<Rightarrow> bool" where
  "txd_eq d d' \<longleftrightarrow> td_id d' = td_id d \<and> td_seqnum d' = td_seqnum d \<and>
     td_packetlen d' = td_packetlen d \<and> txdesc_sta d' = txdesc_sta d"

lemma txd_eq_refl [simp]: "txd_eq d d"
  by (simp add: txd_eq_def)

lemma build_rates_spec:
  assumes "build_rates E ow sta d s = (l, d', s')"
  shows "0 \<le> l" "l < 65536" "txd_eq d d'" "\<exists>f. s' = s\<lparr>stas := f\<rparr>"
proof -
  show "0 \<le> l" "l < 65536" "txd_eq d d'"
    using assms by (auto simp: build_rates_def Let_def txd_eq_def split: if_splits prod.splits)
  have id: "\<exists>f. u = u\<lparr>stas := f\<rparr>" for u :: drv_tx_priv by (rule exI [of _ "stas u"]) simp
  show "\<exists>f. s' = s\<lparr>stas := f\<rparr>"
    using assms by (auto simp: build_rates_def Let_def id split: if_splits prod.splits)
qed

text \<open>The limit on the length of the next aggregate.\<close>

definition next_limit :: "tx_env \<Rightarrow> tidkey \<Rightarrow> drv_tx_priv \<Rightarrow> int" where
  "next_limit E k s =
    (let d = hd (txds_queue (tids s k)) in fst (build_rates E (fst k) (the (txdesc_sta d)) d s))"

text \<open>What an aggregate is.\<close>

definition aggregate_ok :: "tx_env \<Rightarrow> tidkey \<Rightarrow> drv_tx_priv \<Rightarrow> txdesc list \<Rightarrow> bool" where
  "aggregate_ok E k s tq \<longleftrightarrow>
     int (length tq) \<le> t_baw_size (tids s k) div 2 \<and>
     int (length tq) \<le> cfg_ampdu_subframes s \<and>
     int (length tq) \<le> drv_agg_limit s \<and>
     (wm_zgb_exist_flag s \<longrightarrow> length tq \<le> 1) \<and>
     (\<forall>d\<in>set tq. in_window (tids s k) d) \<and>
     txdesc_pktnum (hd tq) = int (length tq) \<and>
     (2 \<le> length tq \<longrightarrow> txdesc_agglen (hd tq) \<le> next_limit E k s)"

definition build_frame ::
  "nat \<Rightarrow> tidkey \<Rightarrow> drv_tx_priv \<Rightarrow> drv_tx_priv \<Rightarrow> bool"
where
  "build_frame q k s s' \<longleftrightarrow> (\<exists>t' c f. s' = s\<lparr>tids := (tids s)(k := t'),
     txlists := (txlists s)(q := (txlists s q)\<lparr>txds_pending_cnt := c\<rparr>), stas := f\<rparr>)"

lemma build_frame_refl [simp]: "build_frame q k s s"
  unfolding build_frame_def
  by (rule exI [of _ "tids s k"], rule exI [of _ "txds_pending_cnt (txlists s q)"],
      rule exI [of _ "stas s"]) simp

lemma queue_ids_build: "queue_ids (map (build_desc p) ds) = queue_ids ds"
  by (simp add: queue_ids_map)

lemma hd_map_hd: "xs \<noteq> [] \<Longrightarrow> hd (map_hd f xs) = f (hd xs)"
  by (cases xs) auto

lemma map_hd_eq_Nil [simp]: "map_hd f xs = [] \<longleftrightarrow> xs = []" "length (map_hd f xs) = length xs"
  by (cases xs; simp)+

lemma in_window_map_hd:
  assumes "\<And>d. td_seqnum (f d) = td_seqnum d" "\<forall>d\<in>set xs. in_window t d"
  shows "\<forall>d\<in>set (map_hd f xs). in_window t d"
  using assms by (cases xs) (auto simp: in_window_def)

lemma txampdu_build_spec:
  assumes inv: "tx_win_inv (tids s k)" and b: "drv_txampdu_build E q k s = (st, tq, s')"
  shows "build_frame q k s s'" "tx_win_inv (tids s' k)"
    "queue_ids tq @ queue_ids (txds_queue (tids s' k)) = queue_ids (txds_queue (tids s k))"
    "tq \<noteq> [] \<Longrightarrow> aggregate_ok E k s tq"
    "same_but_window (tids s k) ((tids s' k)\<lparr>txds_queue := txds_queue (tids s k)\<rparr>)"
proof -
  let ?t = "tids s k"
  have "build_frame q k s s' \<and> tx_win_inv (tids s' k) \<and>
    queue_ids tq @ queue_ids (txds_queue (tids s' k)) = queue_ids (txds_queue (tids s k)) \<and>
    (tq \<noteq> [] \<longrightarrow> aggregate_ok E k s tq) \<and>
    same_but_window (tids s k) ((tids s' k)\<lparr>txds_queue := txds_queue (tids s k)\<rparr>)"
  proof (cases "s' = s \<and> tq = []")
    case True
    have "?t\<lparr>txds_queue := txds_queue ?t\<rparr> = ?t" by simp
    with True inv show ?thesis by simp
  next
    case False
    obtain d ds where q: "txds_queue ?t = d # ds" using False b
      by (cases "txds_queue ?t") (auto simp: drv_txampdu_build_def Let_def)
    obtain sta where sta: "txdesc_sta d = Some sta" using False b q
      by (cases "txdesc_sta d") (auto simp: drv_txampdu_build_def Let_def split: if_splits)
    obtain l d' u where r: "build_rates E (fst k) sta d s = (l, d', u)" by (metis prod_cases3)
    note rs = build_rates_spec [OF r]
    obtain f where u: "u = s\<lparr>stas := f\<rparr>" using rs(4) by blast
    define nfr where "nfr = min (t_baw_size ?t div 2) (cfg_ampdu_subframes s)"
    define p where "p = build_params_of E l nfr (t_index ?t) sta d' u"
    define b0 where "b0 = build_start q sta (?t\<lparr>txds_queue := d' # ds\<rparr>) u"
    obtain st1 b1 where lp: "build_loop p (d' # ds) b0 = (st1, b1)" by (metis surj_pair)
    define t1 where "t1 = (if bs_queue b1 = []
       then (bs_tid b1)\<lparr>txds_queue := map_hd (build_totals b1) (txds_queue (bs_tid b1))\<rparr>
       else bs_tid b1)"
    have ids: "td_id (build_totals b1 d) = td_id d" "td_seqnum (build_totals b1 d) = td_seqnum d" for d
      by (simp_all add: build_totals_def)
    have nofirst: "BAW_WITHIN (t_seq_start ?t) (t_baw_size ?t) (td_seqnum d + nfr)"
    proof (rule ccontr)
      assume "\<not> ?thesis"
      then have "s' = s \<and> tq = []" using b q by (simp add: drv_txampdu_build_def nfr_def)
      with False show False by simp
    qed
    have fin: "(tq, s') = build_finish q k sta b1 u"
      using b q sta nofirst r lp
      by (simp add: drv_txampdu_build_def nfr_def [symmetric] p_def [symmetric]
          b0_def [symmetric] del: build_loop.simps)
    then have res: "tq = map_hd (build_totals b1) (bs_queue b1)" and s': "tids s' = (tids s)(k := t1)"
      "\<exists>c g. s' = s\<lparr>tids := (tids s)(k := t1),
         txlists := (txlists s)(q := (txlists s q)\<lparr>txds_pending_cnt := c\<rparr>), stas := g\<rparr>"
      by (auto simp: build_finish_def Let_def t1_def set_list_def set_tid_def u)
    have "build_inv p ?t (d' # ds) b0"
      using inv by (simp add: build_inv_def b0_def build_start_def same_but_window_def no_window_def)
    from build_loop_spec [OF this _ lp] rs(2) obtain n where n: "n \<le> length (d' # ds)"
      "build_inv p ?t (drop n (d' # ds)) b1"
      "bs_queue b1 = map (build_desc p) (take n (d' # ds))"
      by (auto simp: p_def b0_def build_params_of_def build_start_def)
    have q1: "txds_queue (bs_tid b1) = drop n (d' # ds)" using n(2) by (simp add: build_inv_def)
    have "queue_ids (d' # ds) = queue_ids (d # ds)" using rs(3) by (simp add: txd_eq_def)
    moreover have "queue_ids (take n (d' # ds)) @ queue_ids (drop n (d' # ds)) = queue_ids (d' # ds)"
      by (metis append_take_drop_id queue_ids_simps(3))
    ultimately have idq: "queue_ids (bs_queue b1) @ queue_ids (txds_queue (bs_tid b1)) = queue_ids (d # ds)"
      by (simp add: n(3) q1 queue_ids_build)
    have qt1: "queue_ids (txds_queue t1) = queue_ids (txds_queue (bs_tid b1))"
      by (simp add: t1_def queue_ids_map_hd ids)
    have "aggregate_ok E k s tq" if "tq \<noteq> []"
    proof -
      have ne: "bs_queue b1 \<noteq> []" using that res by simp
      have h: "hd tq = build_totals b1 (hd (bs_queue b1))" "length tq = length (bs_queue b1)"
        using ne res by (simp_all add: hd_map_hd)
      have inw: "\<forall>d\<in>set tq. in_window ?t d" unfolding res
        by (rule in_window_map_hd) (use ids n(2) in \<open>auto simp: build_inv_def\<close>)
      have lim: "next_limit E k s = bp_limit p" by (simp add: next_limit_def q sta r p_def build_params_of_def)
      have bn: "bs_n b1 = int (length tq)" "0 < length tq" using n(2) h(2) ne
        by (auto simp: build_inv_def)
      have "bs_n b1 \<le> nfr" "bs_n b1 \<le> drv_agg_limit s" "wm_zgb_exist_flag s \<longrightarrow> bs_n b1 \<le> 1"
        "2 \<le> bs_n b1 \<longrightarrow> bs_al b1 \<le> bp_limit p"
        using n(2) ne by (auto simp: build_inv_def p_def u build_params_of_def)
      then show ?thesis using inw bn unfolding aggregate_ok_def lim h(1)
        by (auto simp: build_totals_def nfr_def)
    qed
    moreover have "tx_win_inv t1" "same_but_window ?t (t1\<lparr>txds_queue := txds_queue ?t\<rparr>)"
      using n(2) by (simp_all add: t1_def build_inv_def)
    moreover have "build_frame q k s s'" using s'(2) unfolding build_frame_def by blast
    ultimately show ?thesis using idq qt1 q res by (simp add: s'(1) queue_ids_map_hd ids)
  qed
  then show "build_frame q k s s'" "tx_win_inv (tids s' k)"
    "queue_ids tq @ queue_ids (txds_queue (tids s' k)) = queue_ids (txds_queue (tids s k))"
    "tq \<noteq> [] \<Longrightarrow> aggregate_ok E k s tq"
    "same_but_window (tids s k) ((tids s' k)\<lparr>txds_queue := txds_queue (tids s k)\<rparr>)" by blast+
qed

section \<open>The scheduling loop\<close>

text \<open>What scheduling a traffic class k on a hardware queue q leaves alone.\<close>

definition sched_frame :: "nat \<Rightarrow> tidkey \<Rightarrow> drv_tx_priv \<Rightarrow> drv_tx_priv \<Rightarrow> bool" where
  "sched_frame q k s s' \<longleftrightarrow>
     (\<forall>j. j \<noteq> k \<longrightarrow> tids s' j = tids s j) \<and> (\<forall>r. r \<noteq> q \<longrightarrow> txlists s' r = txlists s r) \<and>
     acs s' = acs s \<and> txlist_acq (txlists s' q) = txlist_acq (txlists s q) \<and>
     txlist_qnum (txlists s' q) = txlist_qnum (txlists s q) \<and>
     txlist_backup (txlists s' q) = txlist_backup (txlists s q) \<and>
     length (tx_aggr_status (txlists s' q)) = length (tx_aggr_status (txlists s q)) \<and>
     cfg_ampdu_subframes s' = cfg_ampdu_subframes s \<and> is_mother_channel s' = is_mother_channel s \<and>
     same_but_window (tids s k) ((tids s' k)\<lparr>txds_queue := txds_queue (tids s k)\<rparr>)"

lemma queue_upd_self [simp]: "t\<lparr>txds_queue := txds_queue t\<rparr> = t"
  by simp

lemma sched_frame_refl [simp]: "sched_frame q k s s"
  by (simp add: sched_frame_def)

lemma sched_frame_trans:
  assumes "sched_frame q k s u" "sched_frame q k u v"
  shows "sched_frame q k s v"
proof -
  have "same_but_window ((tids u k)\<lparr>txds_queue := txds_queue (tids s k)\<rparr>)
      ((tids v k)\<lparr>txds_queue := txds_queue (tids s k)\<rparr>)"
    using assms(2) same_but_window_queue [of "tids u k" "(tids v k)\<lparr>txds_queue := txds_queue (tids u k)\<rparr>"
        "txds_queue (tids s k)"]
    by (simp add: sched_frame_def)
  then have "same_but_window (tids s k) ((tids v k)\<lparr>txds_queue := txds_queue (tids s k)\<rparr>)"
    using assms(1) by (auto simp: sched_frame_def intro: same_but_window_trans)
  then show ?thesis using assms by (simp add: sched_frame_def)
qed

lemma build_sched_frame:
  assumes "build_frame q k s s'"
    "same_but_window (tids s k) ((tids s' k)\<lparr>txds_queue := txds_queue (tids s k)\<rparr>)"
  shows "sched_frame q k s s'" "txlist_q (txlists s' q) = txlist_q (txlists s q)"
    "hal_free s' = hal_free s"
  using assms by (auto simp: build_frame_def sched_frame_def)

text \<open>The frames of a hardware queue and a traffic class, those handed over first.\<close>

definition pipeline_ids :: "nat \<Rightarrow> tidkey \<Rightarrow> drv_tx_priv \<Rightarrow> nat list" where
  "pipeline_ids q k s = queue_ids (txlist_q (txlists s q)) @ queue_ids (txds_queue (tids s k))"

lemma hal_full_mono:
  "\<not> aml_tx_hal_buffer_full s n need \<Longrightarrow> m \<le> need \<Longrightarrow> \<not> aml_tx_hal_buffer_full s n m"
  by (auto simp: aml_tx_hal_buffer_full_def Let_def)

lemma hal_rates_id [simp]: "td_id (hal_rates d e) = td_id e"
  by (simp add: hal_rates_def)

lemma drv_to_hal_ok:
  assumes "ds \<noteq> []"
    "\<not> aml_tx_hal_buffer_full s (txlist_qnum (txlists s q)) (txdesc_pktnum (hd ds))"
  shows "\<exists>s'. drv_to_hal q ds s = (0, [], s') \<and> sched_frame q k s s' \<and> tids s' = tids s \<and>
    queue_ids (txlist_q (txlists s' q)) = queue_ids (txlist_q (txlists s q)) @ queue_ids ds"
proof -
  obtain d es where ds: "ds = d # es" using assms(1) by (cases ds) auto
  show ?thesis using assms(2)
    by (simp add: drv_to_hal_def ds Let_def sched_frame_def set_list_def log_tx_def queue_ids_map)
qed

lemma count_aggr_ok:
  assumes "1 \<le> n" "n \<le> int (length (tx_aggr_status (txlists s q)))"
  shows "\<exists>a. count_aggr q n s = Some (set_list q ((txlists s q)\<lparr>tx_aggr_status := a\<rparr>) s) \<and>
     length a = length (tx_aggr_status (txlists s q))"
proof (intro exI conjI)
  let ?a = "tx_aggr_status (txlists s q)"
  show "count_aggr q n s = Some (set_list q ((txlists s q)\<lparr>tx_aggr_status :=
      ?a[nat (n - 1) := (?a ! nat (n - 1) + 1) mod 2 ^ 32]\<rparr>) s)"
    using assms by (simp add: count_aggr_def Let_def)
qed simp

lemma hal_full_cong:
  "hal_free s' = hal_free s \<Longrightarrow> aml_tx_hal_buffer_full s' n m = aml_tx_hal_buffer_full s n m"
  by (simp add: aml_tx_hal_buffer_full_def)

lemma sched_send_ok:
  assumes ne: "tq \<noteq> []" and pk: "txdesc_pktnum (hd tq) = int (length tq)"
    and len: "length tq \<le> length (tx_aggr_status (txlists s q))"
    and hal: "\<not> aml_tx_hal_buffer_full s (txlist_qnum (txlists s q)) (int (length tq))"
  shows "\<exists>stop s'. sched_send E q tq s = Some (stop, s') \<and> sched_frame q k s s' \<and> tids s' = tids s \<and>
    queue_ids (txlist_q (txlists s' q)) = queue_ids (txlist_q (txlists s q)) @ queue_ids tq"
proof -
  have "1 \<le> txdesc_pktnum (hd tq)" "txdesc_pktnum (hd tq) \<le> int (length (tx_aggr_status (txlists s q)))"
    using pk len ne by (simp_all add: Suc_le_eq)
  from count_aggr_ok [OF this] obtain a where
    a: "count_aggr q (txdesc_pktnum (hd tq)) s = Some (set_list q ((txlists s q)\<lparr>tx_aggr_status := a\<rparr>) s)"
      "length a = length (tx_aggr_status (txlists s q))" by blast
  define single where "single \<longleftrightarrow> txdesc_pktnum (hd tq) = 1"
  define s2 where "s2 = count_sent single (set_list q ((txlists s q)\<lparr>tx_aggr_status := a\<rparr>) s)"
  define d1 where "d1 = sched_mark E single (cfg_ampdu_oneframe s2) (hd tq)"
  have d1: "td_id d1 = td_id (hd tq)" "txdesc_pktnum d1 = int (length tq)"
    using pk by (simp_all add: d1_def sched_mark_def Let_def)
  have s2: "sched_frame q k s s2" "tids s2 = tids s" "hal_free s2 = hal_free s"
    "txlist_q (txlists s2 q) = txlist_q (txlists s q)"
    "txlist_qnum (txlists s2 q) = txlist_qnum (txlists s q)" using a(2)
    by (simp_all add: s2_def count_sent_def Let_def sched_frame_def set_list_def)
  have "\<not> aml_tx_hal_buffer_full s2 (txlist_qnum (txlists s2 q)) (txdesc_pktnum (hd (d1 # tl tq)))"
    using hal hal_full_cong [OF s2(3)] by (simp add: s2(5) d1)
  from drv_to_hal_ok [OF _ this, where k = k] obtain s' where
    h: "drv_to_hal q (d1 # tl tq) s2 = (0, [], s')" "sched_frame q k s2 s'" "tids s' = tids s2"
      "queue_ids (txlist_q (txlists s' q)) = queue_ids (txlist_q (txlists s2 q)) @ queue_ids (d1 # tl tq)"
    by blast
  have "sched_send E q tq s = Some (single, s')"
    using a(1) h(1)
    by (simp add: sched_send_def single_def [symmetric] s2_def [symmetric] d1_def [symmetric] Let_def)
  moreover have "queue_ids (d1 # tl tq) = queue_ids tq" using ne d1(1) by (cases tq) simp_all
  ultimately show ?thesis using h s2 sched_frame_trans [OF s2(1) h(2)] by simp
qed

lemma sched_wait_eq: "snd (sched_wait q s) = s \<or> snd (sched_wait q s) = s\<lparr>wait_mpdu_timeout := False\<rparr>"
  by (simp add: sched_wait_def)

lemma sched_loop_ok:
  assumes "tx_win_inv (tids s k)" "length (tx_aggr_status (txlists s q)) = 16"
    "cfg_ampdu_subframes s \<le> 16"
  shows "\<exists>s'. sched_loop E q k s = Some s' \<and> tx_win_inv (tids s' k) \<and> sched_frame q k s s' \<and>
     pipeline_ids q k s' = pipeline_ids q k s"
  using assms
proof (induction "length (txds_queue (tids s k))" arbitrary: s rule: less_induct)
  case less
  obtain stop w where w: "sched_wait q s = (stop, w)" by (metis surj_pair)
  then have weq: "w = s \<or> w = s\<lparr>wait_mpdu_timeout := False\<rparr>" using sched_wait_eq [of q s] by simp
  then have wf: "sched_frame q k s w" "tids w = tids s" "txlists w = txlists s"
    "cfg_ampdu_subframes w = cfg_ampdu_subframes s" "pipeline_ids q k w = pipeline_ids q k s"
    by (auto simp: sched_frame_def pipeline_ids_def)
  show ?case
  proof (cases "stop \<or> txds_queue (tids w k) = [] \<or>
        aml_tx_hal_buffer_full w (txlist_qnum (txlists w q)) (cfg_ampdu_subframes w)")
    case True
    then have "sched_loop E q k s = Some w" by (subst sched_loop.simps) (simp add: w)
    then show ?thesis using wf less.prems by simp
  next
    case go: False
    obtain st tq u where b: "drv_txampdu_build E q k w = (st, tq, u)" by (metis prod_cases3)
    have winv: "tx_win_inv (tids w k)" using less.prems wf by simp
    note sp = txampdu_build_spec [OF winv b]
    note fr = build_sched_frame [OF sp(1) sp(5)]
    have wu: "sched_frame q k s u" using sched_frame_trans [OF wf(1) fr(1)] .
    have pipe: "queue_ids (txlist_q (txlists u q)) @ queue_ids tq @ queue_ids (txds_queue (tids u k)) =
        pipeline_ids q k s" using sp(3) fr(2) wf by (simp add: pipeline_ids_def)
    show ?thesis
    proof (cases "tq = []")
      case True
      then have "sched_loop E q k s = Some u" using go b by (subst sched_loop.simps) (simp add: w)
      then show ?thesis using sp(2) wu pipe True by (simp add: pipeline_ids_def)
    next
      case False
      note ag = sp(4) [OF False, unfolded aggregate_ok_def]
      have "int (length tq) \<le> 16" using ag less.prems(3) wf(4) by linarith
      moreover have "length (tx_aggr_status (txlists u q)) = 16"
        using wu less.prems(2) by (simp add: sched_frame_def)
      ultimately have len: "length tq \<le> length (tx_aggr_status (txlists u q))" by simp
      have "\<not> aml_tx_hal_buffer_full w (txlist_qnum (txlists w q)) (int (length tq))"
        using go ag hal_full_mono [of w _ "cfg_ampdu_subframes w" "int (length tq)"] by simp
      then have "\<not> aml_tx_hal_buffer_full u (txlist_qnum (txlists u q)) (int (length tq))"
        using hal_full_cong [OF fr(3)] fr(1) by (simp add: sched_frame_def)
      from sched_send_ok [OF False _ len this] ag obtain stop' v where
        v: "sched_send E q tq u = Some (stop', v)" "sched_frame q k u v" "tids v = tids u"
          "queue_ids (txlist_q (txlists v q)) = queue_ids (txlist_q (txlists u q)) @ queue_ids tq"
        by blast
      have sv: "sched_frame q k s v" using sched_frame_trans [OF wu v(2)] .
      have pv: "pipeline_ids q k v = pipeline_ids q k s" using pipe v by (simp add: pipeline_ids_def)
      have step: "sched_loop E q k s = (if stop' then Some v else sched_loop E q k v)"
        using go False b v(1) by (subst sched_loop.simps) (simp add: w)
      show ?thesis
      proof (cases stop')
        case True
        then show ?thesis using step sv pv v(3) sp(2) by simp
      next
        case cont: False
        have "length (queue_ids tq) + length (txds_queue (tids u k)) = length (txds_queue (tids s k))"
          using arg_cong [OF sp(3), of length] wf(2) by (simp add: queue_ids_def)
        then have "length (txds_queue (tids v k)) < length (txds_queue (tids s k))"
          using False v(3) by (cases tq) (simp_all add: queue_ids_def)
        from less.hyps [OF this] obtain s' where
          "sched_loop E q k v = Some s'" "tx_win_inv (tids s' k)" "sched_frame q k v s'"
          "pipeline_ids q k s' = pipeline_ids q k v"
          using v(3) sp(2) sv less.prems by (auto simp: sched_frame_def)
        then show ?thesis using step cont pv sched_frame_trans [OF sv] by auto
      qed
    qed
  qed
qed

lemma sched_aggr_ok:
  assumes "tx_win_inv (tids s k)" "length (tx_aggr_status (txlists s q)) = 16"
    "cfg_ampdu_subframes s \<le> 16"
  shows "\<exists>s'. drv_tx_sched_aggr E q k s = Some s' \<and> tx_win_inv (tids s' k) \<and> sched_frame q k s s' \<and>
     pipeline_ids q k s' = pipeline_ids q k s"
  using sched_loop_ok [OF assms, of E] assms(1) by (simp add: drv_tx_sched_aggr_def)

end
