(* ===== verification/TxQueues.thy ===== *)
theory TxQueues
  imports TxBase
begin

text \<open>
  wifi_drv_uapsd.c: the queue of a station in U-APSD power save, from which a trigger frame of the
  station starts a service period, and the queue of multicast frames held back while a station
  sleeps.  The buffer queues they are made of are in TxBase.
\<close>

abbreviation (input) HAL_WME_UAPSD :: nat where "HAL_WME_UAPSD \<equiv> 6"
abbreviation (input) HAL_WME_MCAST :: nat where "HAL_WME_MCAST \<equiv> 7"
abbreviation (input) WME_UAPSD_NODE_MAXQDEPTH :: int where "WME_UAPSD_NODE_MAXQDEPTH \<equiv> 8"

section \<open>The queue of a station\<close>

definition upd_sta :: "nat \<Rightarrow> (drv_sta \<Rightarrow> drv_sta) \<Rightarrow> drv_tx_priv \<Rightarrow> drv_tx_priv" where
  "upd_sta n f s = s\<lparr>stas := (stas s)(n := f (stas s n))\<rparr>"

definition set_uapsd :: "nat \<Rightarrow> txdesc list \<times> int \<Rightarrow> drv_tx_priv \<Rightarrow> drv_tx_priv" where
  "set_uapsd n q s = upd_sta n (\<lambda>t. t\<lparr>sta_uapsd_queue := fst q, sta_uapsd_queuecnt := snd q\<rparr>) s"

definition drv_uapsd_send_qos_null :: "nat \<Rightarrow> nat \<Rightarrow> drv_tx_priv \<Rightarrow> drv_tx_priv" where
  "drv_uapsd_send_qos_null n ac s =
    log_tx (SendQosNull n ac) (upd_sta n (\<lambda>t. t\<lparr>uapsd_sp := False\<rparr>) s)"

definition drv_tx_uapsd_nsta_init :: "nat \<Rightarrow> drv_tx_priv \<Rightarrow> drv_tx_priv" where
  "drv_tx_uapsd_nsta_init n s = set_uapsd n drv_txdesc_list_init s"

definition drv_tx_uapsd_nsta_cleanup :: "nat \<Rightarrow> drv_tx_priv \<Rightarrow> drv_tx_priv" where
  "drv_tx_uapsd_nsta_cleanup n s =
    (let (q, s) = drv_txdesc_list_drain 3 (sta_uapsd_queue (stas s n), sta_uapsd_queuecnt (stas s n)) s
     in set_uapsd n q s)"

definition drv_tx_uapsd_nsta_qcnt :: "nat \<Rightarrow> drv_tx_priv \<Rightarrow> int" where
  "drv_tx_uapsd_nsta_qcnt n s = sta_uapsd_queuecnt (stas s n)"

definition drv_tx_queue_uapsd_nsta :: "txdesc list \<Rightarrow> nat \<Rightarrow> drv_tx_priv \<Rightarrow> drv_tx_priv" where
  "drv_tx_queue_uapsd_nsta ds n s =
    set_uapsd n (drv_txdesc_list_queue ds (sta_uapsd_queue (stas s n), sta_uapsd_queuecnt (stas s n))) s"

section \<open>A service period\<close>

text \<open>The end-of-service-period and more-data bits of a frame.\<close>

definition uapsd_mark :: "bool \<Rightarrow> bool \<Rightarrow> txdesc \<Rightarrow> txdesc" where
  "uapsd_mark eosp none_left d =
    (let d = (if eosp then d\<lparr>qos_eosp := True\<rparr> else d)
     in if none_left then d\<lparr>more_data := False\<rparr> else d)"

text \<open>The loop over at most \<^verbatim>\<open>count\<close> frames; \<^verbatim>\<open>eosp\<close> is its eosp_flag, \<^verbatim>\<open>tq\<close> the local list
  tx_queue.\<close>

fun uapsd_loop ::
  "tx_env \<Rightarrow> nat \<Rightarrow> bool \<Rightarrow> nat \<Rightarrow> bool \<Rightarrow> txdesc list \<Rightarrow> drv_tx_priv \<Rightarrow> drv_tx_priv"
where
  "uapsd_loop E n flush 0 eosp tq s = s" |
  "uapsd_loop E n flush (Suc c) eosp tq s =
    (if eosp then s
     else case sta_uapsd_queue (stas s n) of
            [] \<Rightarrow> s
          | d # ds \<Rightarrow>
            if noa_started E d
            then upd_sta n (\<lambda>t. let t = t\<lparr>uapsd_wait_noa_end := True\<rparr> in
                   if flush then t\<lparr>uapsd_flush_wait_noa_end := True\<rparr> else t) s
            else if aml_tx_hal_buffer_full s (txlist_qnum (txlists s HAL_WME_UAPSD)) 1 then s
            else let s = set_uapsd n (ds, sta_uapsd_queuecnt (stas s n) - 1) s;
                     eosp = (\<not> flush \<and> (c = 0 \<or>
                       aml_tx_hal_buffer_full s (txlist_qnum (txlists s HAL_WME_UAPSD)) 3));
                     d = uapsd_mark eosp (drv_tx_uapsd_nsta_qcnt n s = 0) d;
                     (r, tq, s) = drv_to_hal HAL_WME_UAPSD (tq @ [d]) s
                 in uapsd_loop E n flush c eosp tq s)"

definition drv_process_uapsd_nsta_trigger ::
  "tx_env \<Rightarrow> nat \<Rightarrow> int \<Rightarrow> nat \<Rightarrow> bool \<Rightarrow> drv_tx_priv \<Rightarrow> int \<times> drv_tx_priv"
where
  "drv_process_uapsd_nsta_trigger E n maxsp ac flush s =
    (let qcnt = drv_tx_uapsd_nsta_qcnt n s in
     if \<not> sta_isuapsd (stas s n) then (0, s)
     else if qcnt = 0 \<or> aml_tx_hal_buffer_full s (txlist_qnum (txlists s HAL_WME_UAPSD)) 1
     then (0, if \<not> flush then drv_uapsd_send_qos_null n ac s else s)
     else let txn_real = (if maxsp = WME_UAPSD_NODE_MAXQDEPTH then u8_of qcnt
                          else if maxsp > qcnt then u8_of qcnt else u8_of maxsp);
              s = uapsd_loop E n flush (nat txn_real) False [] s
          in (drv_tx_uapsd_nsta_qcnt n s, s))"

section \<open>The multicast queue\<close>

definition drv_tx_mcastq_init :: "nat \<Rightarrow> drv_tx_priv \<Rightarrow> drv_tx_priv" where
  "drv_tx_mcastq_init vid s =
    (let s = set_backup HAL_WME_MCAST drv_txdesc_list_init s
     in s\<lparr>vm_mqueue_flag_send := (vm_mqueue_flag_send s)(vid := False)\<rparr>)"

definition drv_tx_mcastq_cleanup :: "nat \<Rightarrow> drv_tx_priv \<Rightarrow> drv_tx_priv" where
  "drv_tx_mcastq_cleanup vid s =
    (let (b, s) = drv_txdesc_list_drain vid (backup_of HAL_WME_MCAST s) s;
         s = set_backup HAL_WME_MCAST b s
     in s\<lparr>vm_mqueue_flag_send := (vm_mqueue_flag_send s)(vid := False)\<rparr>)"

definition drv_tx_mcastq_addbuf :: "txdesc list \<Rightarrow> drv_tx_priv \<Rightarrow> drv_tx_priv" where
  "drv_tx_mcastq_addbuf ds s =
    set_backup HAL_WME_MCAST (drv_txdesc_list_queue ds (backup_of HAL_WME_MCAST s)) s"

text \<open>A frame without a station is passed over and stays; so does one whose interface has a
  station asleep.  A notice of absence or a full hal ends the loop.\<close>

fun mcastq_loop ::
  "tx_env \<Rightarrow> txdesc list \<Rightarrow> txdesc list \<Rightarrow> int \<Rightarrow> txdesc list \<Rightarrow> drv_tx_priv \<Rightarrow>
     (txdesc list \<times> int) \<times> drv_tx_priv"
where
  "mcastq_loop E [] kept n tq s = ((kept, n), s)" |
  "mcastq_loop E (d # ds) kept n tq s =
    (case cb_sta d of
       None \<Rightarrow> mcastq_loop E ds (kept @ [d]) n tq s
     | Some sta \<Rightarrow>
       if n \<noteq> 0 \<and> vm_ps_sta s (sta_vif (stas s sta)) = 0
       then if noa_started E d \<or> aml_tx_hal_buffer_full s (txlist_qnum (txlists s HAL_WME_MCAST)) 1
            then ((kept @ d # ds, n), s)
            else let (r, tq, s) = drv_to_hal HAL_WME_MCAST (tq @ [d]) s
                 in mcastq_loop E ds kept (n - 1) tq s
       else mcastq_loop E ds (kept @ [d]) n tq s)"

definition drv_tx_mcastq_send :: "tx_env \<Rightarrow> drv_tx_priv \<Rightarrow> drv_tx_priv" where
  "drv_tx_mcastq_send E s =
    (let (l, n) = backup_of HAL_WME_MCAST s in
     if n = 0 then s
     else let (b, s) = mcastq_loop E l [] n [] s in set_backup HAL_WME_MCAST b s)"

end
