(* ===== verification/TxSession.thy ===== *)
theory TxSession
  imports TxBuild TxQueues
begin

text \<open>
  The transmit side of wifi_drv_xmit.c above the aggregates: queueing a traffic class for its
  access category and hardware queue, sending frames with and without aggregation, the ADDBA
  exchange that opens a block-ack session, pausing and resuming, the end of a session, and the
  completion of frames.  The keys of a traffic class and of an access category stand for the
  pointers, \<^verbatim>\<open>txlist_acq\<close> and \<^verbatim>\<open>ac_tids\<close> for the linked lists.  The result None is a null
  pointer, a failed KASSERT, an index out of an array or a loop that does not end.
\<close>

section \<open>Queueing and sending\<close>

definition tid_ac :: "tidkey \<Rightarrow> drv_tx_priv \<Rightarrow> drv_queue_ac option" where
  "tid_ac k s = map_option (acs s) (t_ac (tids s k))"

definition upd_tid :: "tidkey \<Rightarrow> (drv_tx_scoreboard \<Rightarrow> drv_tx_scoreboard) \<Rightarrow> drv_tx_priv \<Rightarrow> drv_tx_priv"
where
  "upd_tid k f s = set_tid k (f (tids s k)) s"

definition upd_list :: "nat \<Rightarrow> (drv_txlist \<Rightarrow> drv_txlist) \<Rightarrow> drv_tx_priv \<Rightarrow> drv_tx_priv" where
  "upd_list q f s = set_list q (f (txlists s q)) s"

definition upd_ac :: "ackey \<Rightarrow> (drv_queue_ac \<Rightarrow> drv_queue_ac) \<Rightarrow> drv_tx_priv \<Rightarrow> drv_tx_priv" where
  "upd_ac a f s = set_ac a (f (acs s a)) s"

text \<open>Linking an access category to a hardware queue.\<close>

definition link_ac :: "nat \<Rightarrow> ackey \<Rightarrow> drv_tx_priv \<Rightarrow> drv_tx_priv" where
  "link_ac q a s =
    upd_list q (\<lambda>l. l\<lparr>txlist_acq := txlist_acq l @ [a]\<rparr>) (upd_ac a (\<lambda>c. c\<lparr>ac_b_work := True\<rparr>) s)"

definition drv_tx_queue_tid :: "nat \<Rightarrow> tidkey \<Rightarrow> drv_tx_priv \<Rightarrow> drv_tx_priv option" where
  "drv_tx_queue_tid q k s =
    (if t_paused (tids s k) \<noteq> 0 then Some s
     else if t_b_work (tids s k) then Some s
     else case t_ac (tids s k) of
            None \<Rightarrow> None
          | Some a \<Rightarrow>
            let s = upd_tid k (\<lambda>t. t\<lparr>t_b_work := True\<rparr>) s;
                s = upd_ac a (\<lambda>c. c\<lparr>ac_tids := ac_tids c @ [k]\<rparr>) s
            in Some (if ac_b_work (acs s a) then s else link_ac q a s))"

text \<open>The loop of drv_txlist_task over the traffic classes of an access category: paused ones are
  unlinked and passed over, the first other one is scheduled.\<close>

fun task_tids :: "tx_env \<Rightarrow> nat \<Rightarrow> ackey \<Rightarrow> tidkey list \<Rightarrow> drv_tx_priv \<Rightarrow> drv_tx_priv option" where
  "task_tids E q a [] s = Some s" |
  "task_tids E q a (k # ks) s =
    (let s = upd_ac a (\<lambda>c. c\<lparr>ac_tids := ks\<rparr>) s;
         s = upd_tid k (\<lambda>t. t\<lparr>t_b_work := False\<rparr>) s
     in if t_paused (tids s k) \<noteq> 0 then task_tids E q a ks s
        else do {
          s \<leftarrow> drv_tx_sched_aggr E q k s;
          if txds_queue (tids s k) \<noteq> [] then drv_tx_queue_tid q k s else Some s
        })"

definition drv_txlist_task :: "tx_env \<Rightarrow> nat \<Rightarrow> drv_tx_priv \<Rightarrow> drv_tx_priv option" where
  "drv_txlist_task E q s =
    (case txlist_acq (txlists s q) of
       [] \<Rightarrow> Some s
     | a # as \<Rightarrow>
       let s = upd_list q (\<lambda>l. l\<lparr>txlist_acq := as\<rparr>) s;
           s = upd_ac a (\<lambda>c. c\<lparr>ac_b_work := False\<rparr>) s
       in do {
         s \<leftarrow> task_tids E q a (ac_tids (acs s a)) s;
         Some (if ac_tids (acs s a) \<noteq> [] \<and> \<not> ac_b_work (acs s a) then link_ac q a s else s)
       })"

text \<open>The tasklet runs the four queues of the access categories.\<close>

fun tasklet_loop :: "tx_env \<Rightarrow> bool \<Rightarrow> nat list \<Rightarrow> bool \<Rightarrow> drv_tx_priv \<Rightarrow> drv_tx_priv option" where
  "tasklet_loop E wmt [] change s = Some s" |
  "tasklet_loop E wmt (i # is) change s =
    (case drv_txlist_task E i s of
       None \<Rightarrow> None
     | Some s \<Rightarrow>
       let change = (change \<or> (wmt \<and> \<not> wait_mpdu_timeout s));
           s = (if wmt then s\<lparr>wait_mpdu_timeout := True\<rparr> else s);
           s = (if i = 3 \<and> change then s\<lparr>wait_mpdu_timeout := False\<rparr> else s)
       in tasklet_loop E wmt is change s)"

definition drv_txampdu_tasklet :: "tx_env \<Rightarrow> drv_tx_priv \<Rightarrow> drv_tx_priv option" where
  "drv_txampdu_tasklet E s =
    (if \<not> cfg_txaggr s then Some s
     else tasklet_loop E (wait_mpdu_timeout s) [0, 1, 2, 3] False s)"

text \<open>Sending without aggregation: the return value, what is left of the caller's list, and the
  state.\<close>

definition drv_tx_normal ::
  "tx_env \<Rightarrow> nat \<Rightarrow> txdesc list \<Rightarrow> nat \<Rightarrow> drv_tx_priv \<Rightarrow> int \<times> txdesc list \<times> drv_tx_priv"
where
  "drv_tx_normal E q ds vid s =
    (case ds of
       [] \<Rightarrow> (-1, [], s)
     | d # es \<Rightarrow>
       if \<not> is_mother_channel s vid \<and> \<not> b_probereq d
       then (0, es, s\<lparr>normal_buffer := (normal_buffer s)(vid := normal_buffer s vid @ [d]),
                      normal_count := (normal_count s)(vid := normal_count s vid + 1)\<rparr>)
       else if aml_tx_hal_buffer_full s (txlist_qnum (txlists s q)) (txdesc_pktnum d)
       then (0, [], drv_txq_backup_addbuf q ds s)
       else if drv_txq_backup_qcnt q s > 0
       then (0, [], drv_txq_backup_send E q (drv_txq_backup_addbuf q ds s))
       else let s = s\<lparr>tx_normal_cnt := tx_normal_cnt s + 1\<rparr>;
                d = d\<lparr>b_Ampdu := False, txdesc_pktnum := 1\<rparr>;
                (r, rest, s) = drv_to_hal q (d # es) s
            in (0, rest, s))"

definition drv_tx_send_ampdu ::
  "tx_env \<Rightarrow> nat \<Rightarrow> tidkey \<Rightarrow> txdesc list \<Rightarrow> drv_tx_priv \<Rightarrow> drv_tx_priv option"
where
  "drv_tx_send_ampdu E q k ds s =
    (if ds = [] then Some s
     else let s = s\<lparr>tx_pkts_cnt := tx_pkts_cnt s + 1\<rparr>;
              s = upd_tid k (\<lambda>t. t\<lparr>txds_queue := txds_queue t @ ds\<rparr>) s
          in do {
            s \<leftarrow> drv_tx_queue_tid q k s;
            let s = upd_list q (\<lambda>l. l\<lparr>txds_pending_cnt := u32_of (txds_pending_cnt l + 1)\<rparr>) s;
            let s = log_tx LockTimer s;
            if txds_pending_cnt (txlists s q) < u32_of (cfg_ampdu_subframes s) \<and> \<not> wait_mpdu_timeout s
            then Some s
            else drv_txlist_task E q s
          })"

section \<open>Pausing a traffic class\<close>

definition drv_txlist_pause_for_sta_tid :: "tidkey \<Rightarrow> drv_tx_priv \<Rightarrow> drv_tx_priv option" where
  "drv_txlist_pause_for_sta_tid k s =
    (case tid_ac k s of
       None \<Rightarrow> None
     | Some c \<Rightarrow> Some (upd_tid k (\<lambda>t. t\<lparr>t_paused := u8_of (t_paused t + 1)\<rparr>) s))"

definition drv_txlist_resume_for_sta_tid ::
  "tx_env \<Rightarrow> tidkey \<Rightarrow> drv_tx_priv \<Rightarrow> drv_tx_priv option"
where
  "drv_txlist_resume_for_sta_tid E k s =
    (case tid_ac k s of
       None \<Rightarrow> None
     | Some c \<Rightarrow>
       let s = upd_tid k (\<lambda>t. t\<lparr>t_paused := u8_of (t_paused t - 1)\<rparr>) s in
       if t_paused (tids s k) > 0 then Some s
       else if txds_queue (tids s k) = [] then Some s
       else do {
         s \<leftarrow> drv_tx_queue_tid (ac_queue_id c) k s;
         drv_txlist_task E (ac_queue_id c) s
       })"

text \<open>Flushing the queue of a traffic class: its frames go out without aggregation, or are completed
  as failed when the interface is not connected.\<close>

fun flush_loop :: "tx_env \<Rightarrow> nat \<Rightarrow> tidkey \<Rightarrow> txdesc list \<Rightarrow> drv_tx_priv \<Rightarrow> drv_tx_priv" where
  "flush_loop E q k [] s = s" |
  "flush_loop E q k (d # ds) s =
    (let s = upd_list q (\<lambda>l. l\<lparr>txds_pending_cnt := u32_of (txds_pending_cnt l - 1)\<rparr>) s;
         s = upd_tid k (\<lambda>t. t\<lparr>txds_queue := ds\<rparr>) s;
         s = (if vm_connected (stas s (fst k))
              then snd (snd (drv_tx_normal E q [d\<lparr>b_Ampdu := False\<rparr>] (sta_vif (stas s (fst k))) s))
              else drv_tx_complete d False s)
     in flush_loop E q k ds s)"

definition drv_txlist_flush_for_sta_tid ::
  "tx_env \<Rightarrow> tidkey \<Rightarrow> drv_tx_priv \<Rightarrow> drv_tx_priv option"
where
  "drv_txlist_flush_for_sta_tid E k s =
    (case tid_ac k s of
       None \<Rightarrow> None
     | Some c \<Rightarrow>
       let s = upd_tid k (\<lambda>t. t\<lparr>t_paused := u8_of (t_paused t - 1)\<rparr>) s in
       if t_paused (tids s k) > 0 then Some s
       else Some (flush_loop E (ac_queue_id c) k (txds_queue (tids s k)) s))"

section \<open>The ADDBA exchange\<close>

abbreviation (input) ADDBA_EXCHANGE_ATTEMPTS :: int where "ADDBA_EXCHANGE_ATTEMPTS \<equiv> 10"
abbreviation (input) ADDBA_TIMEOUT :: int where "ADDBA_TIMEOUT \<equiv> 1500"
abbreviation (input) WIFINET_STATUS_UNSPECIFIED :: int where "WIFINET_STATUS_UNSPECIFIED \<equiv> 1"
abbreviation (input) DEFAULT_TXAMPDU_SUB_MAX :: int where "DEFAULT_TXAMPDU_SUB_MAX \<equiv> 16"

definition drv_aggr_check :: "tidkey \<Rightarrow> drv_tx_priv \<Rightarrow> bool \<times> drv_tx_priv" where
  "drv_aggr_check k s =
    (let t = tids s k in
     if \<not> cfg_txaggr s then (False, s)
     else if cleanup_inprogress t then (False, s)
     else if \<not> exchangecomplete t \<and> \<not> exchangeinprogress t \<and>
             exchangeattempts t < ADDBA_EXCHANGE_ATTEMPTS
     then (True, upd_tid k (\<lambda>t. t\<lparr>exchangeattempts := u8_of (exchangeattempts t + 1)\<rparr>) s)
     else (False, s))"

definition drv_aggr_tid :: "tidkey \<Rightarrow> drv_tx_priv \<Rightarrow> bool" where
  "drv_aggr_tid k s =
    (let t = tids s k in
     if \<not> cfg_txaggr s then False
     else if cleanup_inprogress t then False
     else exchangecomplete t \<or> exchangeinprogress t)"

definition drv_aggr_allow_to_send :: "tidkey \<Rightarrow> drv_tx_priv \<Rightarrow> bool" where
  "drv_aggr_allow_to_send k s =
    (let t = tids s k in
     if \<not> cfg_txaggr s \<or> exchangecomplete t then True
     else \<not> (cleanup_inprogress t \<or> exchangeinprogress t))"

definition drv_get_amsdu_supported :: "tidkey \<Rightarrow> drv_tx_priv \<Rightarrow> int" where
  "drv_get_amsdu_supported k s =
    (let t = tids s k in
     if cfg_txaggr s \<and> cfg_txamsdu s \<and> exchangecomplete t then tid_amsdusupported t else 0)"

text \<open>The wait for the answer runs out.  The timer's handler queues a work item, which flushes the
  frames held back for the exchange.\<close>

definition drv_addba_timer :: "tidkey \<Rightarrow> drv_tx_priv \<Rightarrow> os_timer_ext \<Rightarrow> int \<times> drv_tx_priv \<times> os_timer_ext"
where
  "drv_addba_timer k s t = (OS_TIMER_NOT_REARMED, log_tx (AddWorkitem k) s, t)"

definition cancel_addba_timer :: "tidkey \<Rightarrow> drv_tx_priv \<Rightarrow> drv_tx_priv" where
  "cancel_addba_timer k s = upd_tid k (\<lambda>t. t\<lparr>addba_timer := timer_cancel (addba_timer t)\<rparr>) s"

definition drv_addba_timer_ex :: "tx_env \<Rightarrow> tidkey \<Rightarrow> drv_tx_priv \<Rightarrow> drv_tx_priv option" where
  "drv_addba_timer_ex E k s =
    (let s = log_tx PsWake s in do {
       s \<leftarrow> (if exchangeinprogress (tids s k)
             then let s = upd_tid k (\<lambda>t. t\<lparr>exchangeinprogress := False\<rparr>) s in do {
                    s \<leftarrow> drv_txlist_flush_for_sta_tid E k s;
                    let s = upd_tid k (\<lambda>t. t\<lparr>tid_tx_buff_sending := True\<rparr>) s;
                    let s = log_tx (TxBufferSend k) s;
                    Some (upd_tid k (\<lambda>t. t\<lparr>tid_tx_buff_sending := False\<rparr>) s)
                  }
             else Some s);
       Some (cancel_addba_timer k (log_tx PsSleep s))
     })"

definition drv_addba_req_setup ::
  "tidkey \<Rightarrow> int \<Rightarrow> drv_tx_priv \<Rightarrow> (wifi_mac_ba_parameterset \<times> int \<times> int \<times> drv_tx_priv) option"
where
  "drv_addba_req_setup k buffersz s =
    (let t = tids s k;
         ps = \<lparr>amsdusupported = of_bool (cfg_txamsdu s), bapolicy = 1, ba_tid = int (snd k),
               buffersize = buffersz mod 1024\<rparr>;
         s = upd_tid k (\<lambda>t. t\<lparr>t_seq_start := t_seq_next t\<rparr>) s;
         s = (if \<not> exchangeinprogress (tids s k)
              then upd_tid k (\<lambda>t. let t = t\<lparr>exchangeinprogress := True\<rparr> in
                     if \<not> os_timer_ex_active (addba_timer t)
                     then t\<lparr>addba_timer := os_timer_ex_start (addba_timer t)\<rparr> else t) s
              else s)
     in do {
       s \<leftarrow> drv_txlist_pause_for_sta_tid k s;
       Some (ps, 0, t_seq_next t, s)
     })"

text \<open>The answer: \<^verbatim>\<open>rsp_note\<close> ends the wait and records the status, \<^verbatim>\<open>rsp_accept\<close> opens the session.\<close>

definition rsp_note :: "tidkey \<Rightarrow> int \<Rightarrow> drv_tx_priv \<Rightarrow> drv_tx_priv" where
  "rsp_note k status s =
    (let s = (if exchangeinprogress (tids s k)
              then cancel_addba_timer k (upd_tid k (\<lambda>t. t\<lparr>exchangeinprogress := False\<rparr>) s)
              else s)
     in upd_tid k (\<lambda>t. t\<lparr>exchangestatuscode := u8_of status\<rparr>) s)"

definition rsp_accept :: "tidkey \<Rightarrow> wifi_mac_ba_parameterset \<Rightarrow> drv_tx_priv \<Rightarrow> drv_tx_priv" where
  "rsp_accept k ps s =
    (let s = upd_tid k (\<lambda>t. t\<lparr>exchangecomplete := True, t_baw_size := u8_of (buffersize ps)\<rparr>) s
     in if cfg_txamsdu s \<and> amsdusupported ps \<noteq> 0
        then (upd_tid k (\<lambda>t. t\<lparr>tid_amsdusupported := 1\<rparr>) s)\<lparr>cfg_ampdu_subframes := 16\<rparr>
        else (upd_tid k (\<lambda>t. t\<lparr>tid_amsdusupported := 0\<rparr>) s)
               \<lparr>cfg_ampdu_subframes := DEFAULT_TXAMPDU_SUB_MAX\<rparr>)"

definition drv_addba_rsp_process ::
  "tx_env \<Rightarrow> nat \<Rightarrow> int \<Rightarrow> wifi_mac_ba_parameterset \<Rightarrow> drv_tx_priv \<Rightarrow> drv_tx_priv option"
where
  "drv_addba_rsp_process E sta status ps s =
    (if ba_tid ps \<ge> WME_NUM_TID then Some s
     else let k = (sta, nat (ba_tid ps));
              resume = exchangeinprogress (tids s k);
              s = rsp_note k status s
          in if status = WIFINET_STATUS_SUCCESS
             then let s = rsp_accept k ps s
                  in if resume
                     then drv_txlist_resume_for_sta_tid E k
                            (log_tx (HalTxAddbaOk k (t_seq_start (tids s k)) (t_baw_size (tids s k))) s)
                     else Some s
             else if resume then drv_txlist_flush_for_sta_tid E k s
             else Some s)"

definition drv_addba_status :: "tidkey \<Rightarrow> drv_tx_priv \<Rightarrow> int" where
  "drv_addba_status k s =
    (let t = tids s k in
     if exchangestatuscode t = WIFINET_STATUS_SUCCESS \<and> \<not> exchangecomplete t then 0xFFFF
     else exchangestatuscode t)"

text \<open>The transmit half of drv_addba_clear.\<close>

definition addba_clear_tid :: "drv_tx_scoreboard \<Rightarrow> drv_tx_scoreboard" where
  "addba_clear_tid t =
    (if exchangecomplete t
     then t\<lparr>exchangecomplete := False, exchangeattempts := 0,
            exchangestatuscode := WIFINET_STATUS_UNSPECIFIED, t_paused := 0\<rparr>
     else t)"

definition addba_clear_tx :: "nat \<Rightarrow> drv_tx_priv \<Rightarrow> drv_tx_priv" where
  "addba_clear_tx sta s = fold (\<lambda>i. upd_tid (sta, i) addba_clear_tid) [0..<8] s"

section \<open>The end of a session\<close>

definition session_reset :: "drv_tx_scoreboard \<Rightarrow> drv_tx_scoreboard" where
  "session_reset t = t\<lparr>exchangecomplete := False, exchangeattempts := 0,
     exchangestatuscode := WIFINET_STATUS_UNSPECIFIED\<rparr>"

definition drv_txampdu_del :: "tx_env \<Rightarrow> tidkey \<Rightarrow> drv_tx_priv \<Rightarrow> drv_tx_priv option" where
  "drv_txampdu_del E k s =
    (case tid_ac k s of
       None \<Rightarrow> Some s
     | Some c \<Rightarrow>
       if cleanup_inprogress (tids s k) then Some s
       else if \<not> exchangecomplete (tids s k)
       then Some (upd_tid k (\<lambda>t. t\<lparr>exchangeattempts := 0,
                    exchangestatuscode := WIFINET_STATUS_UNSPECIFIED\<rparr>) s)
       else let s = (if exchangeinprogress (tids s k)
                     then cancel_addba_timer k (upd_tid k (\<lambda>t. t\<lparr>exchangeinprogress := False\<rparr>) s)
                     else s)
            in do {
              s \<leftarrow> drv_txlist_pause_for_sta_tid k s;
              drv_txlist_flush_for_sta_tid E k
                (upd_tid k (\<lambda>t. if t_baw_head t \<noteq> t_baw_tail t then t\<lparr>cleanup_inprogress := True\<rparr>
                               else session_reset t) s)
            })"

text \<open>The completion of an aggregated frame (the block-ack part of drv_tx_complete_task).\<close>

definition complete_ba :: "nat \<Rightarrow> tidkey \<Rightarrow> int \<Rightarrow> drv_tx_priv \<Rightarrow> drv_tx_priv option" where
  "complete_ba q k seqnum s =
    (case drv_tx_update_ba_win (cfg_ampdu_subframes s) seqnum (tids s k) (txlist_qcnt (txlists s q)) of
       None \<Rightarrow> None
     | Some (t, cnt) \<Rightarrow>
       let t = (if cleanup_inprogress t \<and> t_baw_head t = t_baw_tail t
                then (session_reset t)\<lparr>cleanup_inprogress := False\<rparr> else t)
       in Some (upd_list q (\<lambda>l. l\<lparr>txlist_qcnt := cnt\<rparr>) (set_tid k t s)))"

text \<open>The rates a frame was sent with: \<^verbatim>\<open>tries\<close> is the number of retries the hal reports (long and
  short); the trynum of the rate that succeeded becomes the number of its attempts.  The result
  is ts_finaltsi and the rates.\<close>

abbreviation (input) HAL_RATECTRL_TX_SEND_SUCCESS :: u16 where
  "HAL_RATECTRL_TX_SEND_SUCCESS \<equiv> 0x800"

definition set_trynum :: "nat \<Rightarrow> nat \<Rightarrow> aml_ratecontrol list \<Rightarrow> aml_ratecontrol list" where
  "set_trynum i n rs = rs[i := (rs ! i)\<lparr>trynum := n mod 256\<rparr>]"

definition complete_rates :: "bool \<Rightarrow> nat \<Rightarrow> aml_ratecontrol list \<Rightarrow> nat option \<times> aml_ratecontrol list"
where
  "complete_rates txok tries rs =
    (let rs = set_trynum 3 0 rs; t0 = trynum (rs ! 0); t1 = trynum (rs ! 1) in
     if txok
     then let (tsi, rs) =
            (if tries < t0
             then (0, set_trynum 2 0 (set_trynum 1 0 (set_trynum 0 (tries + 1) rs)))
             else if tries < t0 + t1
             then (1, set_trynum 2 0 (set_trynum 1 (tries - t0 + 1) rs))
             else (2, set_trynum 2 (tries - t0 - t1 + 1) rs))
          in (Some tsi, rs[0 := (rs ! 0)\<lparr>rc_flags := rc_flags (rs ! 0) OR HAL_RATECTRL_TX_SEND_SUCCESS\<rparr>])
     else (None, set_trynum 2 0 (set_trynum 1 0 rs)))"

text \<open>What becomes of the frame: one of the U-APSD queue or of power save is completed, a failed TCP
  segment goes to the retransmission queue, any other is completed.\<close>

definition complete_dispose :: "nat \<Rightarrow> txdesc \<Rightarrow> bool \<Rightarrow> drv_tx_priv \<Rightarrow> drv_tx_priv" where
  "complete_dispose q d txok s =
    (if q = HAL_WME_UAPSD then drv_tx_complete d txok (log_tx (UapsdEosp d txok) s)
     else if b_pwr_sav d then drv_tx_complete d txok s
     else if b_datapkt d \<and> b_tcp d \<and> \<not> txok
     then s\<lparr>retransmit_queue := retransmit_queue s @ [d\<lparr>rate_valid := 0, b_Ampdu := False\<rparr>]\<rparr>
     else drv_tx_complete d txok s)"

text \<open>The part of drv_tx_complete_task that changes the state of the path: the window, the frame,
  and the frames waiting for room in the hal.\<close>

definition drv_tx_complete_task ::
  "tx_env \<Rightarrow> nat \<Rightarrow> txdesc \<Rightarrow> nat \<Rightarrow> bool \<Rightarrow> drv_tx_priv \<Rightarrow> drv_tx_priv option"
where
  "drv_tx_complete_task E q d sta txok s = do {
     s \<leftarrow> (if \<not> b_nulldata d \<and> b_Ampdu d then complete_ba q (sta, td_tid d) (td_seqnum d) s
           else Some s);
     let s = log_tx ScheduleTasklets (complete_dispose q d txok s);
     Some (if drv_txq_backup_qcnt q s > 0
           then if q = HAL_WME_MCAST then drv_tx_mcastq_send E s else drv_txq_backup_send E q s
           else s)
   }"

definition remove_desc :: "nat \<Rightarrow> txdesc list \<Rightarrow> txdesc list" where
  "remove_desc i ds = filter (\<lambda>d. td_id d \<noteq> i) ds"

definition drv_txlist_all_qcnt :: "nat \<Rightarrow> drv_tx_priv \<Rightarrow> int" where
  "drv_txlist_all_qcnt q s =
    (let l = txlists s q in
     u32_of (txlist_qcnt l + txds_pending_cnt l + txlist_backup_qcnt l))"

text \<open>The hal reports a frame as sent.\<close>

definition drv_tx_irq_tasklet ::
  "tx_env \<Rightarrow> nat \<Rightarrow> txdesc \<Rightarrow> bool \<Rightarrow> drv_tx_priv \<Rightarrow> drv_tx_priv option"
where
  "drv_tx_irq_tasklet E q d txok s =
    (if \<not> bit (drv_txqueue_map s) q then Some (log_tx (NotifyQstatus 0) s)
     else case txdesc_sta d of
            None \<Rightarrow> Some s
          | Some sta \<Rightarrow>
            let s = upd_list q (\<lambda>l. l\<lparr>txlist_q := remove_desc (td_id d) (txlist_q l),
                      txlist_qcnt := (if txlist_qcnt l > 0 then txlist_qcnt l - 1 else txlist_qcnt l)\<rparr>) s
            in do {
              s \<leftarrow> drv_tx_complete_task E q d sta txok s;
              Some (log_tx (NotifyQstatus (drv_txlist_all_qcnt q s)) s)
            })"

section \<open>Counts\<close>

definition drv_txlist_qcnt :: "nat \<Rightarrow> drv_tx_priv \<Rightarrow> int" where
  "drv_txlist_qcnt q s = txlist_qcnt (txlists s q)"

definition drv_tx_pending_pkt :: "drv_tx_priv \<Rightarrow> int" where
  "drv_tx_pending_pkt s =
    fold (\<lambda>q n. if bit (drv_txqueue_map s) q
                then u16_of (n + txlist_qcnt (txlists s q) + txds_pending_cnt (txlists s q)) else n)
         [0..<8] 0"

text \<open>\<^verbatim>\<open>in_uapsd\<close> is WIFINET_NODE_UAPSD of the station; the constants are WIFI_MAX_TXFRAME / WIFI_MAX_TID
  and 48.\<close>

definition drv_txlist_isfull :: "nat \<Rightarrow> nat \<Rightarrow> bool \<Rightarrow> drv_tx_priv \<Rightarrow> int" where
  "drv_txlist_isfull q sta in_uapsd s =
    (if in_uapsd \<and> drv_tx_uapsd_nsta_qcnt sta s \<ge> WME_UAPSD_NODE_MAXQDEPTH then -1
     else let free = hal_free s q in
          if txds_pending_cnt (txlists s q) > u32_of (free + 128 div 8 + 48) \<or> free < 2 then 1 else 0)"

end
