(* ===== verification/TxFree.thy ===== *)
theory TxFree
  imports TxSession
begin

text \<open>
  The rest of wifi_drv_xmit.c that changes the transmit state: releasing frames of an interface or
  of a station, the buffer of frames for another channel, and the traffic classes of a station
  over its life (init, pause, resume, clean up, free).
\<close>

abbreviation (input) all_queues :: "nat list" where "all_queues \<equiv> [0..<8]"

text \<open>Doing something for every hardware queue of the map.\<close>

fun for_queues ::
  "(nat \<Rightarrow> drv_tx_priv \<Rightarrow> drv_tx_priv option) \<Rightarrow> nat list \<Rightarrow> drv_tx_priv \<Rightarrow> drv_tx_priv option"
where
  "for_queues f [] s = Some s" |
  "for_queues f (q # qs) s =
    (if bit (drv_txqueue_map s) q
     then case f q s of None \<Rightarrow> None | Some s \<Rightarrow> for_queues f qs s
     else for_queues f qs s)"

section \<open>Emptying a traffic class\<close>

fun swq_loop :: "nat \<Rightarrow> tidkey \<Rightarrow> txdesc list \<Rightarrow> drv_tx_priv \<Rightarrow> drv_tx_priv" where
  "swq_loop q k [] s = s" |
  "swq_loop q k (d # ds) s =
    (let s = upd_tid k (\<lambda>t. t\<lparr>txds_queue := ds\<rparr>) s;
         s = upd_list q (\<lambda>l. l\<lparr>txds_pending_cnt := u32_of (txds_pending_cnt l - 1)\<rparr>) s
     in swq_loop q k ds (drv_tx_complete d False s))"

definition drv_tid_swq_cleanup :: "nat \<Rightarrow> tidkey \<Rightarrow> drv_tx_priv \<Rightarrow> drv_tx_priv" where
  "drv_tid_swq_cleanup q k s = swq_loop q k (txds_queue (tids s k)) s"

definition drv_tid_drain :: "nat \<Rightarrow> tidkey \<Rightarrow> drv_tx_priv \<Rightarrow> drv_tx_priv" where
  "drv_tid_drain q k s =
    upd_tid k (\<lambda>t. t\<lparr>t_seq_next := t_seq_start t, t_baw_tail := t_baw_head t\<rparr>)
      (drv_tid_swq_cleanup q k s)"

definition drv_tid_cleanup :: "nat \<Rightarrow> tidkey \<Rightarrow> drv_tx_priv \<Rightarrow> drv_tx_priv" where
  "drv_tid_cleanup q k s =
    (let s = drv_tid_swq_cleanup q k s in
     if cleanup_inprogress (tids s k) then s
     else if t_baw_head (tids s k) \<noteq> t_baw_tail (tids s k)
     then upd_tid k (\<lambda>t. t\<lparr>t_paused := u8_of (t_paused t + 1), cleanup_inprogress := True\<rparr>) s
     else upd_tid k session_reset s)"

text \<open>drv_txlist_push_pending: \<^verbatim>\<open>need\<close> is ac_need_flush, which keeps its value from one access
  category to the next.\<close>

fun push_tids :: "nat \<Rightarrow> nat \<Rightarrow> ackey \<Rightarrow> tidkey list \<Rightarrow> bool \<Rightarrow> drv_tx_priv \<Rightarrow> bool \<times> drv_tx_priv" where
  "push_tids q vid a [] need s = (need, s)" |
  "push_tids q vid a (k # ks) need s =
    (if t_vid (tids s k) = vid \<or> vid = 3
     then let s = upd_ac a (\<lambda>c. c\<lparr>ac_tids := ks\<rparr>) s;
              s = upd_tid k (\<lambda>t. t\<lparr>t_b_work := False\<rparr>) s
          in push_tids q vid a ks True (drv_tid_drain q k s)
     else (False, s))"

fun push_acs :: "nat \<Rightarrow> nat \<Rightarrow> ackey list \<Rightarrow> ackey list \<Rightarrow> bool \<Rightarrow> drv_tx_priv \<Rightarrow> drv_tx_priv" where
  "push_acs q vid [] held need s = upd_list q (\<lambda>l. l\<lparr>txlist_acq := txlist_acq l @ held\<rparr>) s" |
  "push_acs q vid (a # as) held need s =
    (let s = upd_list q (\<lambda>l. l\<lparr>txlist_acq := as\<rparr>) s;
         s = upd_ac a (\<lambda>c. c\<lparr>ac_b_work := False\<rparr>) s;
         (need, s) = push_tids q vid a (ac_tids (acs s a)) need s
     in if \<not> need then push_acs q vid as (held @ [a]) need (upd_ac a (\<lambda>c. c\<lparr>ac_b_work := True\<rparr>) s)
        else push_acs q vid as held need s)"

definition drv_txlist_push_pending :: "nat \<Rightarrow> nat \<Rightarrow> drv_tx_priv \<Rightarrow> drv_tx_priv" where
  "drv_txlist_push_pending q vid s = push_acs q vid (txlist_acq (txlists s q)) [] False s"

section \<open>Releasing the frames given to the hal\<close>

text \<open>The frames of an interface, unless the firmware holds them (pkt_position).\<close>

fun free_vid_loop ::
  "nat \<Rightarrow> nat \<Rightarrow> txdesc list \<Rightarrow> txdesc list \<Rightarrow> drv_tx_priv \<Rightarrow> drv_tx_priv option"
where
  "free_vid_loop q vid [] kept s = Some (upd_list q (\<lambda>l. l\<lparr>txlist_q := txlist_q l @ kept\<rparr>) s)" |
  "free_vid_loop q vid (d # ds) kept s =
    (let s = upd_list q (\<lambda>l. l\<lparr>txlist_q := ds\<rparr>) s in
     if (td_vif d = vid \<or> vid = 3) \<and> \<not> pkt_position d
     then do {
       s \<leftarrow> (if \<not> b_Ampdu d then Some s
             else case txdesc_sta d of
                    None \<Rightarrow> None
                  | Some sta \<Rightarrow>
                    map_option (\<lambda>(t, cnt). upd_list q (\<lambda>l. l\<lparr>txlist_qcnt := cnt\<rparr>) (set_tid (sta, td_tid d) t s))
                      (drv_tx_update_ba_win (cfg_ampdu_subframes s) (td_seqnum d)
                         (tids s (sta, td_tid d)) (txlist_qcnt (txlists s q))));
       let s = drv_tx_complete (d\<lparr>txdesc_sta := None\<rparr>) False s;
       free_vid_loop q vid ds kept
         (upd_list q (\<lambda>l. l\<lparr>txlist_qcnt := u32_of (txlist_qcnt l - 1)\<rparr>) s)
     }
     else free_vid_loop q vid ds (if txdesc_sta d \<noteq> None then kept @ [d] else kept) s)"

definition drv_txlist_free_all_by_vid :: "nat \<Rightarrow> nat \<Rightarrow> drv_tx_priv \<Rightarrow> drv_tx_priv option" where
  "drv_txlist_free_all_by_vid q vid s = do {
     s \<leftarrow> free_vid_loop q vid (txlist_q (txlists s q)) [] s;
     let s = (if cfg_txaggr s then log_tx (FreeTxamsduQueue vid) (drv_txlist_push_pending q vid s) else s);
     Some (drv_txq_backup_drain q vid s)
   }"

fun free_sta_loop ::
  "nat \<Rightarrow> nat \<Rightarrow> txdesc list \<Rightarrow> txdesc list \<Rightarrow> drv_tx_priv \<Rightarrow> drv_tx_priv"
where
  "free_sta_loop q sta [] kept s = upd_list q (\<lambda>l. l\<lparr>txlist_q := txlist_q l @ kept\<rparr>) s" |
  "free_sta_loop q sta (d # ds) kept s =
    (let s = upd_list q (\<lambda>l. l\<lparr>txlist_q := ds\<rparr>) s in
     if txdesc_sta d = Some sta
     then let s = upd_list q (\<lambda>l. l\<lparr>txlist_qcnt := u32_of (txlist_qcnt l - 1)\<rparr>) s
          in free_sta_loop q sta ds kept (drv_tx_complete (d\<lparr>txdesc_sta := None\<rparr>) False s)
     else free_sta_loop q sta ds (kept @ [d]) s)"

definition drv_txlist_free_all_by_drv_sta :: "nat \<Rightarrow> nat \<Rightarrow> drv_tx_priv \<Rightarrow> drv_tx_priv" where
  "drv_txlist_free_all_by_drv_sta q sta s = free_sta_loop q sta (txlist_q (txlists s q)) [] s"

definition drv_txlist_flushfree :: "nat \<Rightarrow> drv_tx_priv \<Rightarrow> drv_tx_priv option" where
  "drv_txlist_flushfree vid s = do {
     s \<leftarrow> for_queues (\<lambda>q. drv_txlist_free_all_by_vid q vid) all_queues s;
     Some (log_tx PsSleep (log_tx (SettxqueueFlush vid) (log_tx PsWake s)))
   }"

definition free_txlist_when_free_sta :: "nat \<Rightarrow> drv_tx_priv \<Rightarrow> drv_tx_priv option" where
  "free_txlist_when_free_sta sta s =
    for_queues (\<lambda>q s. Some (drv_txlist_free_all_by_drv_sta q sta s)) all_queues s"

section \<open>Frames for another channel\<close>

definition drv_set_pkt_drop :: "nat \<Rightarrow> bool \<Rightarrow> drv_tx_priv \<Rightarrow> drv_tx_priv" where
  "drv_set_pkt_drop vid b s = s\<lparr>drv_pkt_drop := (drv_pkt_drop s)(vid := b)\<rparr>"

definition drv_set_is_mother_channel :: "nat \<Rightarrow> bool \<Rightarrow> drv_tx_priv \<Rightarrow> drv_tx_priv" where
  "drv_set_is_mother_channel vid b s = s\<lparr>is_mother_channel := (is_mother_channel s)(vid := b)\<rparr>"

definition set_normal :: "nat \<Rightarrow> txdesc list \<Rightarrow> int \<Rightarrow> drv_tx_priv \<Rightarrow> drv_tx_priv" where
  "set_normal vid ds n s = s\<lparr>normal_buffer := (normal_buffer s)(vid := ds),
     normal_count := (normal_count s)(vid := n)\<rparr>"

definition drv_free_normal_buffer_queue :: "nat \<Rightarrow> drv_tx_priv \<Rightarrow> drv_tx_priv" where
  "drv_free_normal_buffer_queue vid s =
    set_normal vid [] 0 (complete_all (normal_buffer s vid) s)"

text \<open>Sending them once the channel is back.  \<^verbatim>\<open>tq\<close> is the local list txdesc_list_head.  A frame the
  hal has no room for goes back to the end of the queue.\<close>

partial_function (option) flush_normal_loop ::
  "tx_env \<Rightarrow> nat \<Rightarrow> txdesc list \<Rightarrow> drv_tx_priv \<Rightarrow> drv_tx_priv option"
where
  "flush_normal_loop E vid tq s =
    (case normal_buffer s vid of
       [] \<Rightarrow> Some s
     | d # ds \<Rightarrow>
       let q = td_queue d; tq = tq @ [d] in
       if aml_tx_hal_buffer_full s (txlist_qnum (txlists s q)) 1
       then Some (set_normal vid (ds @ [d]) (normal_count s vid) s)
       else let s = set_normal vid ds (normal_count s vid) s in
            case txdesc_sta d of
              None \<Rightarrow> flush_normal_loop E vid tq s
            | Some sta \<Rightarrow>
              if vm_connected (stas s sta)
              then let tq = map (\<lambda>e. if td_id e = td_id d then e\<lparr>b_Ampdu := False\<rparr> else e) tq;
                       (r, tq, s) = drv_tx_normal E q tq vid s
                   in flush_normal_loop E vid tq (set_normal vid (normal_buffer s vid) (normal_count s vid - 1) s)
              else let s = drv_tx_complete d False s
                   in flush_normal_loop E vid tq (set_normal vid (normal_buffer s vid) (normal_count s vid - 1) s))"

declare flush_normal_loop.simps [code]

definition drv_flush_normal_buffer_queue :: "tx_env \<Rightarrow> nat \<Rightarrow> drv_tx_priv \<Rightarrow> drv_tx_priv option" where
  "drv_flush_normal_buffer_queue E vid s = flush_normal_loop E vid [] s"

section \<open>The traffic classes of a station\<close>

definition init_tid :: "nat \<Rightarrow> nat \<Rightarrow> nat \<Rightarrow> drv_tx_scoreboard \<Rightarrow> drv_tx_scoreboard" where
  "init_tid sta vid i t = t\<lparr>t_vid := vid, t_index := i, t_baw_size := WME_MAX_BA, txds_queue := [],
     t_ac := Some (sta, TID_TO_WME_AC i), addba_timer := os_timer_ex_initialize ADDBA_TIMEOUT,
     exchangestatuscode := WIFINET_STATUS_UNSPECIFIED\<rparr>"

text \<open>The four access categories are those of the hardware queues of the same number.\<close>

definition drv_txlist_init_for_sta :: "nat \<Rightarrow> nat \<Rightarrow> drv_tx_priv \<Rightarrow> drv_tx_priv" where
  "drv_txlist_init_for_sta sta vid s =
    (let s = upd_sta sta (\<lambda>t. t\<lparr>maxampdu := u16_of (cfg_ampdu_limit s)\<rparr>) s;
         s = fold (\<lambda>i. upd_tid (sta, i) (init_tid sta vid i)) [0..<8] s
     in fold (\<lambda>a. upd_ac (sta, a) (\<lambda>c. c\<lparr>ac_tids := [], ac_queue_id := a\<rparr>)) [0..<4] s)"

text \<open>Taking the traffic classes of a station off the queues when it goes.\<close>

fun cleanup_tids :: "nat \<Rightarrow> ackey \<Rightarrow> tidkey list \<Rightarrow> drv_tx_priv \<Rightarrow> drv_tx_priv" where
  "cleanup_tids q a [] s = s" |
  "cleanup_tids q a (k # ks) s =
    (let s = upd_ac a (\<lambda>c. c\<lparr>ac_tids := ks\<rparr>) s;
         s = upd_tid k (\<lambda>t. t\<lparr>t_b_work := False\<rparr>) s;
         s = (if exchangeinprogress (tids s k)
              then upd_tid k (\<lambda>t. t\<lparr>t_paused := u8_of (t_paused t - 1)\<rparr>)
                     (cancel_addba_timer k (upd_tid k (\<lambda>t. t\<lparr>exchangeinprogress := False\<rparr>) s))
              else s)
     in cleanup_tids q a ks (drv_tid_cleanup q k s))"

fun cleanup_acs :: "nat \<Rightarrow> nat \<Rightarrow> ackey list \<Rightarrow> drv_tx_priv \<Rightarrow> drv_tx_priv" where
  "cleanup_acs sta q [] s = s" |
  "cleanup_acs sta q (a # as) s =
    (case ac_tids (acs s a) of
       [] \<Rightarrow> cleanup_acs sta q as s
     | k # ks \<Rightarrow>
       if fst k \<noteq> sta then cleanup_acs sta q as s
       else let s = upd_list q (\<lambda>l. l\<lparr>txlist_acq := remove1 a (txlist_acq l)\<rparr>) s;
                s = upd_ac a (\<lambda>c. c\<lparr>ac_b_work := False\<rparr>) s
            in cleanup_acs sta q as (cleanup_tids q a (k # ks) s))"

definition drv_txlist_cleanup_for_sta :: "nat \<Rightarrow> drv_tx_priv \<Rightarrow> drv_tx_priv option" where
  "drv_txlist_cleanup_for_sta sta s = do {
     s \<leftarrow> for_queues (\<lambda>q s. Some (cleanup_acs sta q (txlist_acq (txlists s q)) s)) all_queues s;
     for_queues (\<lambda>q s. Some (drv_txq_backup_cleanup q sta s)) all_queues s
   }"

definition drv_txlist_free_for_sta :: "nat \<Rightarrow> drv_tx_priv \<Rightarrow> drv_tx_priv option" where
  "drv_txlist_free_for_sta sta s =
    (let s = (if cfg_txaggr s
              then fold (\<lambda>i. upd_tid (sta, i) (\<lambda>t. t\<lparr>addba_timer := timer_del (addba_timer t)\<rparr>)) [0..<8] s
              else s)
     in free_txlist_when_free_sta sta s)"

fun for_tids ::
  "(tidkey \<Rightarrow> drv_tx_priv \<Rightarrow> drv_tx_priv option) \<Rightarrow> nat \<Rightarrow> nat list \<Rightarrow> drv_tx_priv \<Rightarrow> drv_tx_priv option"
where
  "for_tids f sta [] s = Some s" |
  "for_tids f sta (i # is) s =
    (case f (sta, i) s of None \<Rightarrow> None | Some s \<Rightarrow> for_tids f sta is s)"

definition drv_txlist_pause_for_sta :: "nat \<Rightarrow> drv_tx_priv \<Rightarrow> drv_tx_priv option" where
  "drv_txlist_pause_for_sta sta s =
    (if \<not> cfg_txaggr s then Some s else for_tids drv_txlist_pause_for_sta_tid sta [0..<8] s)"

definition drv_txlist_resume_for_sta :: "tx_env \<Rightarrow> nat \<Rightarrow> drv_tx_priv \<Rightarrow> drv_tx_priv option" where
  "drv_txlist_resume_for_sta E sta s =
    (if \<not> cfg_txaggr s then Some s
     else for_tids (\<lambda>k s. if exchangecomplete (tids s k) then drv_txlist_resume_for_sta_tid E k s
                          else drv_txlist_flush_for_sta_tid E k s) sta [0..<8] s)"

definition drv_set_ampduparams :: "nat \<Rightarrow> int \<Rightarrow> int \<Rightarrow> drv_tx_priv \<Rightarrow> drv_tx_priv" where
  "drv_set_ampduparams sta mx dens s =
    upd_sta sta (\<lambda>t. t\<lparr>maxampdu := u16_of mx, mpdudensity := u32_of dens\<rparr>) s"

text \<open>The rate of management frames, None for a mode the switch does not know.\<close>

datatype wifi_mac_macmode = WIFINET_MODE_AUTO | WIFINET_MODE_11B | WIFINET_MODE_11G
  | WIFINET_MODE_11BG | WIFINET_MODE_11N | WIFINET_MODE_11GN | WIFINET_MODE_11BGN
  | WIFINET_MODE_11AC | WIFINET_MODE_11NAC | WIFINET_MODE_11GNAC | WIFINET_MODE_MAX

definition drv_tx_get_mgmt_frm_rate :: "wifi_mac_macmode \<Rightarrow> u8 option" where
  "drv_tx_get_mgmt_frm_rate m =
    (case m of
       WIFINET_MODE_11B \<Rightarrow> Some 0x00
     | WIFINET_MODE_11BG \<Rightarrow> Some 0x00
     | WIFINET_MODE_11BGN \<Rightarrow> Some 0x00
     | WIFINET_MODE_11N \<Rightarrow> Some 0x80
     | WIFINET_MODE_11AC \<Rightarrow> Some 0x80
     | WIFINET_MODE_11NAC \<Rightarrow> Some 0x80
     | WIFINET_MODE_AUTO \<Rightarrow> Some 0x04
     | WIFINET_MODE_11G \<Rightarrow> Some 0x04
     | WIFINET_MODE_11GN \<Rightarrow> Some 0x04
     | WIFINET_MODE_11GNAC \<Rightarrow> Some 0x04
     | WIFINET_MODE_MAX \<Rightarrow> None)"

definition drv_rate_findindex_from_ratecode :: "int list \<Rightarrow> int \<Rightarrow> nat" where
  "drv_rate_findindex_from_ratecode codes code = length (takeWhile (\<lambda>c. c \<noteq> code) codes)"

text \<open>\<^verbatim>\<open>ps\<close>: the frame is one of power save or U-APSD.\<close>

definition drv_aggr_query :: "bool \<Rightarrow> drv_tx_scoreboard \<Rightarrow> bool" where
  "drv_aggr_query ps t = (if ps then False else if cleanup_inprogress t then False else exchangecomplete t)"

end
