(* ===== verification/TxInv.thy ===== *)
theory TxInv
  imports TxSched TxFree
begin

text \<open>
  The invariant of the transmit state of TxSession: every traffic class has a sound window and
  session, the lists of traffic classes and access categories agree with the b_work flags, and a
  class with frames that is not paused is on its list.  Every operation keeps it, and none of them
  faults in a state that has it.
\<close>

declare split_paired_All [simp del] split_paired_Ex [simp del]

section \<open>The invariant\<close>

text \<open>The end of an ADDBA exchange that gets no answer: \<^verbatim>\<open>n\<close> says whether the handler of the
  exchange's timer is under way and whether the work item it queues is waiting.  While an exchange
  is in progress its timer is pending and not cancelled, or the work item waits; only a handler
  under way holds the lock.\<close>

type_synonym addba_wait = "bool \<times> bool"

definition addba_guard :: "addba_wait \<Rightarrow> bool \<Rightarrow> os_timer_ext \<Rightarrow> bool" where
  "addba_guard n inprogress tm \<longleftrightarrow> (os_timer_ex_active tm \<longrightarrow> inprogress) \<and>
     (inprogress \<longrightarrow> os_timer tm \<noteq> None \<and> \<not> cancel_flag tm \<or> snd n) \<and> (timer_lock tm \<longrightarrow> fst n)"

text \<open>A traffic class is paused exactly while an ADDBA exchange waits for its answer.\<close>

definition session_inv :: "addba_wait \<Rightarrow> drv_tx_scoreboard \<Rightarrow> bool" where
  "session_inv n t \<longleftrightarrow> t_paused t = of_bool (exchangeinprogress t) \<and>
     addba_guard n (exchangeinprogress t) (addba_timer t) \<and>
     \<not> (exchangeinprogress t \<and> exchangecomplete t)"

definition tid_inv :: "addba_wait \<Rightarrow> drv_tx_scoreboard \<Rightarrow> bool" where
  "tid_inv n t \<longleftrightarrow> tx_win_inv t \<and> session_inv n t \<and> 0 \<le> t_seq_next t \<and> t_seq_next t < 4096 \<and>
     t_ac t \<noteq> None"

lemma addba_guard_start: "(timer_lock tm \<Longrightarrow> fst n) \<Longrightarrow> addba_guard n True (os_timer_ex_start tm)"
  by (simp add: addba_guard_def start_fields)

lemma addba_guard_cancel: "addba_guard n b tm \<Longrightarrow> addba_guard n False (timer_cancel tm)"
  by (auto simp: addba_guard_def cancel_fields os_timer_ex_active_def)

text \<open>The links; \<^verbatim>\<open>X\<close> is an access category whose own link is being changed.\<close>

definition links_ok :: "ackey set \<Rightarrow> drv_tx_priv \<Rightarrow> bool" where
  "links_ok X s \<longleftrightarrow>
     (\<forall>k a. k \<in> set (ac_tids (acs s a)) \<longleftrightarrow> t_b_work (tids s k) \<and> t_ac (tids s k) = Some a) \<and>
     (\<forall>a. distinct (ac_tids (acs s a))) \<and>
     (\<forall>a q. a \<in> set (txlist_acq (txlists s q)) \<longleftrightarrow> ac_b_work (acs s a) \<and> ac_queue_id (acs s a) = q) \<and>
     (\<forall>q. distinct (txlist_acq (txlists s q))) \<and>
     (\<forall>a. a \<notin> X \<longrightarrow> ac_tids (acs s a) \<noteq> [] \<longrightarrow> ac_b_work (acs s a))"

definition no_stall :: "tidkey set \<Rightarrow> drv_tx_priv \<Rightarrow> bool" where
  "no_stall Y s \<longleftrightarrow> (\<forall>k. k \<notin> Y \<longrightarrow> txds_queue (tids s k) \<noteq> [] \<longrightarrow> t_paused (tids s k) = 0 \<longrightarrow>
     t_b_work (tids s k))"

definition limits_ok :: "drv_tx_priv \<Rightarrow> bool" where
  "limits_ok s \<longleftrightarrow> cfg_ampdu_subframes s \<le> 16 \<and> (\<forall>q. length (tx_aggr_status (txlists s q)) = 16)"

definition tx_inv_but :: "(tidkey \<Rightarrow> addba_wait) \<Rightarrow> ackey set \<Rightarrow> tidkey set \<Rightarrow> drv_tx_priv \<Rightarrow> bool" where
  "tx_inv_but N X Y s \<longleftrightarrow> (\<forall>k. tid_inv (N k) (tids s k)) \<and> links_ok X s \<and> no_stall Y s \<and> limits_ok s"

abbreviation tx_inv :: "(tidkey \<Rightarrow> addba_wait) \<Rightarrow> drv_tx_priv \<Rightarrow> bool" where
  "tx_inv N \<equiv> tx_inv_but N {} {}"

lemma tx_inv_butD:
  assumes "tx_inv_but N X Y s"
  shows "tid_inv (N k) (tids s k)" "links_ok X s" "no_stall Y s" "limits_ok s"
  using assms by (simp_all add: tx_inv_but_def)

lemma tx_inv_but_mono: "tx_inv_but N X Y s \<Longrightarrow> X \<subseteq> X' \<Longrightarrow> Y \<subseteq> Y' \<Longrightarrow> tx_inv_but N X' Y' s"
  unfolding tx_inv_but_def links_ok_def no_stall_def by blast

section \<open>States that differ in nothing the invariant reads\<close>

definition same_links :: "drv_tx_priv \<Rightarrow> drv_tx_priv \<Rightarrow> bool" where
  "same_links s s' \<longleftrightarrow> acs s' = acs s \<and>
     (cfg_ampdu_subframes s \<le> 16 \<longrightarrow> cfg_ampdu_subframes s' \<le> 16) \<and>
     (\<forall>q. txlist_acq (txlists s' q) = txlist_acq (txlists s q) \<and>
          length (tx_aggr_status (txlists s' q)) = length (tx_aggr_status (txlists s q)))"

definition same_path :: "drv_tx_priv \<Rightarrow> drv_tx_priv \<Rightarrow> bool" where
  "same_path s s' \<longleftrightarrow> same_links s s' \<and> tids s' = tids s"

lemma same_path_refl [simp]: "same_path s s"
  by (simp add: same_path_def same_links_def)

lemma same_path_trans [trans]: "same_path s u \<Longrightarrow> same_path u v \<Longrightarrow> same_path s v"
  by (simp add: same_path_def same_links_def)

lemma same_path_inv: "same_path s s' \<Longrightarrow> tx_inv_but N X Y s \<Longrightarrow> tx_inv_but N X Y s'"
  by (simp add: same_path_def same_links_def tx_inv_but_def links_ok_def no_stall_def limits_ok_def)

lemma same_path_tids: "same_path s s' \<Longrightarrow> tids s' = tids s"
  by (simp add: same_path_def)

lemma same_path_acs: "same_path s s' \<Longrightarrow> acs s' = acs s"
  by (simp add: same_path_def same_links_def)

named_theorems same_path_intros

lemma same_path_log [same_path_intros]: "same_path s (log_tx e s)"
  by (simp add: same_path_def same_links_def log_tx_def)

lemma same_path_complete [same_path_intros]: "same_path s (drv_tx_complete d b s)"
  by (simp add: same_path_def same_links_def drv_tx_complete_def log_tx_def Let_def)

lemma same_path_to_hal: "same_path s (snd (snd (drv_to_hal q ds s)))"
  by (simp add: drv_to_hal_def same_path_def same_links_def set_list_def log_tx_def Let_def
      split: list.split)

lemma same_path_to_hal' [same_path_intros]: "drv_to_hal q ds s = (r, l, s') \<Longrightarrow> same_path s s'"
  using same_path_to_hal [of s q ds] by simp

lemma same_path_set_backup [same_path_intros]: "same_path s (set_backup q b s)"
  by (simp add: same_path_def same_links_def set_backup_def set_list_def)

lemma same_path_send_loop: "same_path s (snd (send_loop E ds n tq s))"
proof (induction E ds n tq s rule: send_loop.induct)
  case (2 E d ds n tq s)
  show ?case
  proof (cases "noa_started E d \<or> aml_tx_hal_buffer_full s (txlist_qnum (txlists s (td_queue d))) 1")
    case False
    obtain r tq' u where h: "drv_to_hal (td_queue d) (tq @ [d]) s = (r, tq', u)" by (metis prod_cases3)
    have su: "same_path s u" using same_path_to_hal' [OF h] .
    show ?thesis
    proof (cases "n - 1 > 0")
      case True
      then have "same_path u (snd (send_loop E ds (n - 1) tq' u))" using "2.IH" False h by simp
      then show ?thesis using False h True same_path_trans [OF su] by simp
    qed (use False h su in simp)
  qed simp
qed simp

lemma same_path_backup_send [same_path_intros]: "same_path s (drv_txq_backup_send E q s)"
proof -
  obtain b u where bu: "drv_txdesc_list_send E (backup_of q s) s = (b, u)" by (metis surj_pair)
  have "same_path s u" using bu same_path_send_loop [of s E "fst (backup_of q s)" "snd (backup_of q s)" "[]"]
    by (auto simp: drv_txdesc_list_send_def split: if_splits)
  then show ?thesis using bu same_path_trans [OF _ same_path_set_backup]
    by (simp add: drv_txq_backup_send_def)
qed

lemma same_path_addbuf [same_path_intros]: "same_path s (drv_txq_backup_addbuf q ds s)"
  by (simp add: drv_txq_backup_addbuf_def same_path_set_backup)

lemma same_path_mcastq_loop: "same_path s (snd (mcastq_loop E ds kept n tq s))"
proof (induction E ds kept n tq s rule: mcastq_loop.induct)
  case (2 E d ds kept n tq s)
  show ?case
  proof (cases "cb_sta d")
    case None
    then show ?thesis using "2.IH"(1) by simp
  next
    case (Some sta)
    show ?thesis
    proof (cases "n \<noteq> 0 \<and> vm_ps_sta s (sta_vif (stas s sta)) = 0")
      case False
      then show ?thesis using "2.IH"(3) [OF Some False] Some by auto
    next
      case go: True
      obtain r tq' u where h: "drv_to_hal 7 (tq @ [d]) s = (r, tq', u)" by (metis prod_cases3)
      show ?thesis
      proof (cases "noa_started E d \<or> aml_tx_hal_buffer_full s (txlist_qnum (txlists s 7)) 1")
        case False
        then have "same_path u (snd (mcastq_loop E ds kept (n - 1) tq' u))"
          using "2.IH"(2) [OF Some go False refl] h by simp
        then show ?thesis using go False Some h same_path_trans [OF same_path_to_hal' [OF h]] by simp
      qed (use go Some in simp)
    qed
  qed
qed simp

lemma same_path_mcastq_send [same_path_intros]: "same_path s (drv_tx_mcastq_send E s)"
proof -
  obtain l n where ln: "backup_of 7 s = (l, n)" by (metis surj_pair)
  obtain b u where bu: "mcastq_loop E l [] n [] s = (b, u)" by (metis surj_pair)
  have "same_path s u" using same_path_mcastq_loop [of s E l "[]" n "[]"] bu by simp
  then show ?thesis using ln bu same_path_trans [OF _ same_path_set_backup]
    by (simp add: drv_tx_mcastq_send_def)
qed

lemma same_path_tx_normal [same_path_intros]: "same_path s (snd (snd (drv_tx_normal E q ds vid s)))"
proof (cases ds)
  case (Cons d es)
  have buf: "same_path s (s\<lparr>normal_buffer := f, normal_count := g\<rparr>)" for f g
    by (simp add: same_path_def same_links_def)
  have cnt: "same_path s (s\<lparr>tx_normal_cnt := tx_normal_cnt s + 1\<rparr>)"
    by (simp add: same_path_def same_links_def)
  show ?thesis using Cons buf same_path_addbuf
      same_path_trans [OF same_path_addbuf same_path_backup_send]
      same_path_trans [OF cnt same_path_to_hal]
    by (simp add: drv_tx_normal_def Let_def split: prod.split) (metis snd_conv)
qed (simp add: drv_tx_normal_def)

section \<open>Queueing and scheduling\<close>

lemmas upd_defs = upd_tid_def upd_list_def upd_ac_def set_tid_def set_list_def set_ac_def

definition queue_of :: "tidkey \<Rightarrow> drv_tx_priv \<Rightarrow> nat" where
  "queue_of k s = ac_queue_id (acs s (the (t_ac (tids s k))))"

text \<open>The access categories belong to the same queues, and the classes to the same categories.\<close>

definition same_map :: "drv_tx_priv \<Rightarrow> drv_tx_priv \<Rightarrow> bool" where
  "same_map s s' \<longleftrightarrow> (\<forall>a. ac_queue_id (acs s' a) = ac_queue_id (acs s a)) \<and>
     (\<forall>k. t_ac (tids s' k) = t_ac (tids s k))"

lemma same_map_refl [simp]: "same_map s s"
  by (simp add: same_map_def)

lemma same_map_trans: "same_map s u \<Longrightarrow> same_map u v \<Longrightarrow> same_map s v"
  by (simp add: same_map_def)

lemma same_path_map: "same_path s s' \<Longrightarrow> same_map s s'"
  by (simp add: same_map_def same_path_def same_links_def)

lemma same_map_queue_of: "same_map s s' \<Longrightarrow> queue_of k s' = queue_of k s"
  by (simp add: same_map_def queue_of_def)

lemma distinct_set_remove: "distinct (a # as) \<Longrightarrow> set as = set (a # as) - {a}"
  by auto

lemma link_ac_ok:
  assumes "tx_inv_but N X Y s" "\<not> ac_b_work (acs s a)" "ac_queue_id (acs s a) = q"
  shows "tx_inv_but N (X - {a}) Y (link_ac q a s)" "same_map s (link_ac q a s)"
    "tids (link_ac q a s) = tids s"
proof -
  have nin: "a \<notin> set (txlist_acq (txlists s r))" for r
    using assms(1,2) by (simp add: tx_inv_but_def links_ok_def)
  show "tx_inv_but N (X - {a}) Y (link_ac q a s)"
    using assms nin
    unfolding tx_inv_but_def links_ok_def no_stall_def limits_ok_def link_ac_def upd_defs
    by auto
  show "same_map s (link_ac q a s)" "tids (link_ac q a s) = tids s"
    by (simp_all add: same_map_def link_ac_def upd_defs)
qed

lemma tid_inv_b_work [simp]: "tid_inv n (t\<lparr>t_b_work := b\<rparr>) = tid_inv n t"
  by (simp add: tid_inv_def session_inv_def tx_win_inv_def tx_ring_wf_def tx_span_def tx_ring_def)

lemma queue_tid_ok:
  assumes inv: "tx_inv_but N X Y s" and q: "queue_of k s = q"
  shows "\<exists>s'. drv_tx_queue_tid q k s = Some s' \<and> tx_inv_but N X (Y - {k}) s' \<and> same_map s s' \<and>
    (\<forall>j. \<exists>b. tids s' j = (tids s j)\<lparr>t_b_work := b\<rparr>)"
proof -
  obtain a where a: "t_ac (tids s k) = Some a" using tx_inv_butD(1) [OF inv, of k]
    by (cases "t_ac (tids s k)") (simp_all add: tid_inv_def)
  have id: "\<exists>b. t = t\<lparr>t_b_work := b\<rparr>" for t :: drv_tx_scoreboard
    by (rule exI [of _ "t_b_work t"]) simp
  show ?thesis
  proof (cases "t_paused (tids s k) \<noteq> 0 \<or> t_b_work (tids s k)")
    case True
    then have "tx_inv_but N X (Y - {k}) s" using inv by (auto simp: tx_inv_but_def no_stall_def)
    then show ?thesis using True id by (auto simp: drv_tx_queue_tid_def)
  next
    case False
    define u where "u = upd_ac a (\<lambda>c. c\<lparr>ac_tids := ac_tids c @ [k]\<rparr>) (upd_tid k (\<lambda>t. t\<lparr>t_b_work := True\<rparr>) s)"
    have nin: "k \<notin> set (ac_tids (acs s b))" for b
      using inv False by (simp add: tx_inv_but_def links_ok_def)
    have u: "tx_inv_but N (insert a X) (Y - {k}) u" "same_map s u"
      "\<forall>j. \<exists>b. tids u j = (tids s j)\<lparr>t_b_work := b\<rparr>"
    proof -
      show "tx_inv_but N (insert a X) (Y - {k}) u"
        using inv nin a False
        unfolding tx_inv_but_def links_ok_def no_stall_def limits_ok_def u_def upd_defs
        by auto
      show "same_map s u" by (simp add: same_map_def u_def upd_defs)
      show "\<forall>j. \<exists>b. tids u j = (tids s j)\<lparr>t_b_work := b\<rparr>" using id by (auto simp: u_def upd_defs)
    qed
    have res: "drv_tx_queue_tid q k s = Some (if ac_b_work (acs u a) then u else link_ac q a u)"
      using False a by (simp add: drv_tx_queue_tid_def u_def)
    have "ac_b_work (acs u a) = ac_b_work (acs s a)" "ac_queue_id (acs u a) = q"
      using q a by (simp_all add: u_def upd_defs queue_of_def)
    show ?thesis
    proof (cases "ac_b_work (acs u a)")
      case True
      have "tx_inv_but N X (Y - {k}) u" using u(1) True by (auto simp: tx_inv_but_def links_ok_def)
      then show ?thesis using res True u by simp
    next
      case nb: False
      note l = link_ac_ok [OF u(1) nb \<open>ac_queue_id (acs u a) = q\<close>]
      have "tx_inv_but N X (Y - {k}) (link_ac q a u)" using tx_inv_but_mono [OF l(1)] by auto
      then show ?thesis using res nb l u same_map_trans [OF u(2) l(2)] by simp
    qed
  qed
qed

text \<open>The session of a class, which scheduling does not touch.\<close>

definition same_sess :: "drv_tx_scoreboard \<Rightarrow> drv_tx_scoreboard \<Rightarrow> bool" where
  "same_sess t t' \<longleftrightarrow> t_paused t' = t_paused t \<and> exchangeinprogress t' = exchangeinprogress t \<and>
     exchangecomplete t' = exchangecomplete t \<and> t_baw_size t' = t_baw_size t \<and>
     cleanup_inprogress t' = cleanup_inprogress t \<and> addba_timer t' = addba_timer t"

lemma same_sess_refl [simp]: "same_sess t t"
  by (simp add: same_sess_def)

lemma same_sess_trans: "same_sess t u \<Longrightarrow> same_sess u v \<Longrightarrow> same_sess t v"
  by (simp add: same_sess_def)

lemma same_sess_paused: "same_sess t t' \<Longrightarrow> t_paused t' = t_paused t"
  by (simp add: same_sess_def)

lemma same_sess_b_work [simp]: "same_sess t (t\<lparr>t_b_work := b\<rparr>)"
  by (simp add: same_sess_def)

text \<open>Scheduling a class whose link is being changed.\<close>

lemma sched_frame_map: "sched_frame q k s s' \<Longrightarrow> same_map s s'"
proof -
  assume f: "sched_frame q k s s'"
  then have "t_ac ((tids s' k)\<lparr>txds_queue := txds_queue (tids s k)\<rparr>) = t_ac (tids s k)"
    by (intro same_but_windowD(9)) (simp add: sched_frame_def)
  then have "t_ac (tids s' j) = t_ac (tids s j)" for j
    using f by (cases "j = k") (auto simp: sched_frame_def)
  with f show "same_map s s'" by (simp add: same_map_def sched_frame_def)
qed

lemma sched_frame_fields:
  assumes "sched_frame q k s s'"
  shows "t_paused (tids s' j) = t_paused (tids s j)" "t_b_work (tids s' j) = t_b_work (tids s j)"
    "t_ac (tids s' j) = t_ac (tids s j)" "session_inv (N j) (tids s' j) = session_inv (N j) (tids s j)"
    "t_seq_next (tids s' j) = t_seq_next (tids s j)" "same_sess (tids s j) (tids s' j)"
proof -
  have w: "same_but_window (tids s k) ((tids s' k)\<lparr>txds_queue := txds_queue (tids s k)\<rparr>)"
    using assms by (simp add: sched_frame_def)
  note ws = same_but_windowD [OF w]
  have other: "j \<noteq> k \<Longrightarrow> tids s' j = tids s j" using assms by (simp add: sched_frame_def)
  show "t_paused (tids s' j) = t_paused (tids s j)" "t_b_work (tids s' j) = t_b_work (tids s j)"
    "t_ac (tids s' j) = t_ac (tids s j)" "session_inv (N j) (tids s' j) = session_inv (N j) (tids s j)"
    "t_seq_next (tids s' j) = t_seq_next (tids s j)" "same_sess (tids s j) (tids s' j)"
    using other ws by (cases "j = k"; simp add: session_inv_def same_sess_def)+
qed

lemma sched_aggr_inv:
  assumes inv: "tx_inv_but N X Y s"
  shows "\<exists>s'. drv_tx_sched_aggr E q k s = Some s' \<and> tx_inv_but N X (insert k Y) s' \<and> same_map s s' \<and>
    (\<forall>j. same_sess (tids s j) (tids s' j)) \<and> sched_frame q k s s'"
proof -
  have pre: "tx_win_inv (tids s k)" "length (tx_aggr_status (txlists s q)) = 16"
    "cfg_ampdu_subframes s \<le> 16"
    using inv by (auto simp: tx_inv_but_def tid_inv_def limits_ok_def)
  obtain s' where s': "drv_tx_sched_aggr E q k s = Some s'" "tx_win_inv (tids s' k)"
    "sched_frame q k s s'" using sched_aggr_ok [OF pre] by blast
  note ff = sched_frame_fields [OF s'(3)]
  have lists: "txlist_acq (txlists s' r) = txlist_acq (txlists s r)"
    "length (tx_aggr_status (txlists s' r)) = length (tx_aggr_status (txlists s r))" for r
    using s'(3) by (cases "r = q"; simp add: sched_frame_def)+
  have other: "j \<noteq> k \<Longrightarrow> tids s' j = tids s j" for j using s'(3) by (simp add: sched_frame_def)
  have tid: "tid_inv (N j) (tids s' j)" for j
  proof (cases "j = k")
    case True
    then show ?thesis using tx_inv_butD(1) [OF inv, of k] s'(2) ff by (simp add: tid_inv_def)
  next
    case False
    then show ?thesis using tx_inv_butD(1) [OF inv, of j] other by simp
  qed
  have "acs s' = acs s" "cfg_ampdu_subframes s' = cfg_ampdu_subframes s"
    using s'(3) by (simp_all add: sched_frame_def)
  then have "tx_inv_but N X (insert k Y) s'"
    using inv tid other by (simp add: tx_inv_but_def links_ok_def no_stall_def limits_ok_def ff lists)
  then show ?thesis using s' ff sched_frame_map [OF s'(3)] by blast
qed

text \<open>Taking the first class off an access category that is itself unlinked.\<close>

lemma unlink_tid:
  assumes inv: "tx_inv_but N {a} {} s" and ks: "ac_tids (acs s a) = k # ks"
  defines "s' \<equiv> upd_tid k (\<lambda>t. t\<lparr>t_b_work := False\<rparr>) (upd_ac a (\<lambda>c. c\<lparr>ac_tids := ks\<rparr>) s)"
  shows "tx_inv_but N {a} {k} s'" "same_map s s'" "ac_tids (acs s' a) = ks"
    "t_paused (tids s' k) = t_paused (tids s k)" "ac_b_work (acs s' a) = ac_b_work (acs s a)"
    "t_ac (tids s k) = Some a"
proof -
  have links: "j \<in> set (ac_tids (acs s b)) \<longleftrightarrow> t_b_work (tids s j) \<and> t_ac (tids s j) = Some b" for j b
    using inv by (simp add: tx_inv_but_def links_ok_def)
  have "distinct (ac_tids (acs s a))" using inv by (simp add: tx_inv_but_def links_ok_def)
  then have d: "distinct (k # ks)" using ks by simp
  have k: "t_ac (tids s k) = Some a" using links [of k a] ks by simp
  show "t_ac (tids s k) = Some a" by (rule k)
  have l1: "j \<in> set (ac_tids (acs s' b)) \<longleftrightarrow> t_b_work (tids s' j) \<and> t_ac (tids s' j) = Some b" for j b
    using links [of j b] links [of k b] links [of j a] ks d k
    by (auto simp: s'_def upd_defs)
  then show "tx_inv_but N {a} {k} s'"
    using inv ks d
    by (auto simp: tx_inv_but_def links_ok_def no_stall_def limits_ok_def s'_def upd_defs)
  show "same_map s s'" "ac_tids (acs s' a) = ks" "t_paused (tids s' k) = t_paused (tids s k)"
    "ac_b_work (acs s' a) = ac_b_work (acs s a)"
    by (simp_all add: same_map_def s'_def upd_defs)
qed

lemma task_tids_ok:
  assumes "tx_inv_but N {a} {} s" "ac_tids (acs s a) = ks" "ac_queue_id (acs s a) = q"
  shows "\<exists>s'. task_tids E q a ks s = Some s' \<and> tx_inv_but N {a} {} s' \<and> same_map s s' \<and>
    (\<forall>j. same_sess (tids s j) (tids s' j))"
  using assms
proof (induction ks arbitrary: s)
  case Nil
  then show ?case by simp
next
  case (Cons k ks)
  define u where "u = upd_tid k (\<lambda>t. t\<lparr>t_b_work := False\<rparr>) (upd_ac a (\<lambda>c. c\<lparr>ac_tids := ks\<rparr>) s)"
  note un = unlink_tid [OF Cons.prems(1,2), folded u_def]
  have pu: "same_sess (tids s j) (tids u j)" for j by (simp add: u_def upd_defs)
  show ?case
  proof (cases "t_paused (tids u k) = 0")
    case False
    then have inv: "tx_inv_but N {a} {} u" using un(1) by (auto simp: tx_inv_but_def no_stall_def)
    have "ac_queue_id (acs u a) = q" using un(2) Cons.prems(3) by (simp add: same_map_def)
    from Cons.IH [OF inv un(3) this] obtain s' where
      "task_tids E q a ks u = Some s'" "tx_inv_but N {a} {} s'" "same_map u s'"
      "\<forall>j. same_sess (tids u j) (tids s' j)" by blast
    then show ?thesis using False same_map_trans [OF un(2)] same_sess_trans [OF pu]
      by (auto simp: u_def [symmetric])
  next
    case True
    obtain v where v: "drv_tx_sched_aggr E q k u = Some v" "tx_inv_but N {a} (insert k {k}) v"
      "same_map u v" "\<forall>j. same_sess (tids u j) (tids v j)"
      using sched_aggr_inv [OF un(1)] by blast
    have sv: "same_map s v" using same_map_trans [OF un(2) v(3)] .
    show ?thesis
    proof (cases "txds_queue (tids v k) = []")
      case e: True
      then have "tx_inv_but N {a} {} v" using v(2) by (auto simp: tx_inv_but_def no_stall_def)
      then show ?thesis using True e v sv same_sess_trans [OF pu] by (simp add: u_def [symmetric])
    next
      case ne: False
      have "queue_of k v = q" using same_map_queue_of [OF sv] un(6) Cons.prems(3) by (simp add: queue_of_def)
      from queue_tid_ok [OF v(2) this] obtain w where w: "drv_tx_queue_tid q k v = Some w"
        "tx_inv_but N {a} (insert k {k} - {k}) w" "same_map v w"
        "\<forall>j. \<exists>b. tids w j = (tids v j)\<lparr>t_b_work := b\<rparr>" by blast
      have "same_sess (tids v j) (tids w j)" for j using w(4) [rule_format, of j] by auto
      then have "same_sess (tids s j) (tids w j)" for j
        using same_sess_trans [OF pu] same_sess_trans v(4) by blast
      then show ?thesis using True ne v w same_map_trans [OF sv w(3)]
        by (simp add: u_def [symmetric])
    qed
  qed
qed

lemma unlink_ac:
  assumes inv: "tx_inv N s" and as: "txlist_acq (txlists s q) = a # as"
  defines "s' \<equiv> upd_ac a (\<lambda>c. c\<lparr>ac_b_work := False\<rparr>) (upd_list q (\<lambda>l. l\<lparr>txlist_acq := as\<rparr>) s)"
  shows "tx_inv_but N {a} {} s'" "same_map s s'" "ac_queue_id (acs s' a) = q" "tids s' = tids s"
proof -
  have acq: "b \<in> set (txlist_acq (txlists s r)) \<longleftrightarrow> ac_b_work (acs s b) \<and> ac_queue_id (acs s b) = r" for b r
    using inv by (simp add: tx_inv_but_def links_ok_def)
  have "distinct (txlist_acq (txlists s q))" using inv by (simp add: tx_inv_but_def links_ok_def)
  then have d: "distinct (a # as)" using as by simp
  have qa: "ac_queue_id (acs s a) = q" using acq [of a q] as by simp
  then show "ac_queue_id (acs s' a) = q" by (simp add: s'_def upd_defs)
  have l3: "b \<in> set (txlist_acq (txlists s' r)) \<longleftrightarrow> ac_b_work (acs s' b) \<and> ac_queue_id (acs s' b) = r" for b r
    using acq [of b r] acq [of a r] acq [of b q] as d qa by (auto simp: s'_def upd_defs)
  have "distinct (txlist_acq (txlists s' r))" for r
    using inv d by (simp add: tx_inv_but_def links_ok_def s'_def upd_defs)
  then show "tx_inv_but N {a} {} s'"
    using inv l3 by (auto simp: tx_inv_but_def links_ok_def no_stall_def limits_ok_def s'_def upd_defs)
  show "same_map s s'" "tids s' = tids s" by (simp_all add: same_map_def s'_def upd_defs)
qed

lemma txlist_task_ok:
  assumes inv: "tx_inv N s"
  shows "\<exists>s'. drv_txlist_task E q s = Some s' \<and> tx_inv N s' \<and> same_map s s' \<and>
    (\<forall>j. same_sess (tids s j) (tids s' j))"
proof (cases "txlist_acq (txlists s q)")
  case Nil
  then show ?thesis using inv by (simp add: drv_txlist_task_def)
next
  case (Cons a as)
  define u where "u = upd_ac a (\<lambda>c. c\<lparr>ac_b_work := False\<rparr>) (upd_list q (\<lambda>l. l\<lparr>txlist_acq := as\<rparr>) s)"
  note un = unlink_ac [OF inv Cons, folded u_def]
  from task_tids_ok [OF un(1) refl un(3)] obtain v where v:
    "task_tids E q a (ac_tids (acs u a)) u = Some v" "tx_inv_but N {a} {} v" "same_map u v"
    "\<forall>j. same_sess (tids u j) (tids v j)" by blast
  have qv: "ac_queue_id (acs v a) = q" using v(3) un(3) by (simp add: same_map_def)
  define w where "w = (if ac_tids (acs v a) \<noteq> [] \<and> \<not> ac_b_work (acs v a) then link_ac q a v else v)"
  have res: "drv_txlist_task E q s = Some w" using Cons v(1) by (simp add: drv_txlist_task_def u_def w_def)
  have "tx_inv N w \<and> same_map v w \<and> tids w = tids v"
  proof (cases "ac_tids (acs v a) \<noteq> [] \<and> \<not> ac_b_work (acs v a)")
    case True
    then show ?thesis using link_ac_ok [OF v(2) _ qv] by (simp add: w_def)
  next
    case False
    then have "tx_inv N v" using v(2) by (auto simp: tx_inv_but_def links_ok_def)
    moreover have "w = v" using False by (simp only: w_def if_False)
    ultimately show ?thesis by simp
  qed
  then show ?thesis using res v(4) un(4) same_map_trans [OF un(2) same_map_trans [OF v(3)]] by simp
qed

lemma tx_inv_wait [simp]: "tx_inv_but N X Y (s\<lparr>wait_mpdu_timeout := b\<rparr>) = tx_inv_but N X Y s"
  by (simp add: tx_inv_but_def links_ok_def no_stall_def limits_ok_def)

lemma tasklet_loop_ok:
  "tx_inv N s \<Longrightarrow> \<exists>s'. tasklet_loop E w qs c s = Some s' \<and> tx_inv N s'"
proof (induction qs arbitrary: c s)
  case (Cons q qs)
  then obtain u where "drv_txlist_task E q s = Some u" "tx_inv N u" using txlist_task_ok by blast
  then show ?case using Cons.IH by (simp add: Let_def)
qed simp

lemma txampdu_tasklet_ok: "tx_inv N s \<Longrightarrow> \<exists>s'. drv_txampdu_tasklet E s = Some s' \<and> tx_inv N s'"
  using tasklet_loop_ok by (simp add: drv_txampdu_tasklet_def del: tasklet_loop.simps)

section \<open>Sending, pausing and flushing\<close>

text \<open>A change of one traffic class that keeps its links.\<close>

lemma upd_tid_inv:
  assumes "tx_inv_but N X Y s" "tid_inv (N k) (f (tids s k))" "t_b_work (f (tids s k)) = t_b_work (tids s k)"
    "t_ac (f (tids s k)) = t_ac (tids s k)"
  shows "tx_inv_but N X (insert k Y) (upd_tid k f s)" "same_map s (upd_tid k f s)"
  using assms
  by (auto simp: tx_inv_but_def links_ok_def no_stall_def limits_ok_def upd_defs same_map_def)

lemma no_stall_close:
  assumes "tx_inv_but N X (insert k Y) s"
    "txds_queue (tids s k) = [] \<or> t_paused (tids s k) \<noteq> 0 \<or> t_b_work (tids s k)"
  shows "tx_inv_but N X Y s"
  using assms unfolding tx_inv_but_def no_stall_def by (metis insertE)

lemma session_inv_queue [simp]: "session_inv n (t\<lparr>txds_queue := q\<rparr>) = session_inv n t"
  by (simp add: session_inv_def)

lemma tid_inv_queue [simp]: "tid_inv n (t\<lparr>txds_queue := q\<rparr>) = tid_inv n t"
  by (simp add: tid_inv_def)

lemma same_path_upd_list:
  "(\<And>l. txlist_acq (f l) = txlist_acq l) \<Longrightarrow> (\<And>l. tx_aggr_status (f l) = tx_aggr_status l) \<Longrightarrow>
     same_path s (upd_list q f s)"
  by (simp add: same_path_def same_links_def upd_defs)

lemma send_ampdu_ok:
  assumes inv: "tx_inv N s" and q: "queue_of k s = q"
  shows "\<exists>s'. drv_tx_send_ampdu E q k ds s = Some s' \<and> tx_inv N s' \<and> same_map s s'"
proof (cases "ds = []")
  case True
  then show ?thesis using inv by (simp add: drv_tx_send_ampdu_def)
next
  case False
  define u where "u = s\<lparr>tx_pkts_cnt := tx_pkts_cnt s + 1\<rparr>"
  have su: "same_path s u" by (simp add: u_def same_path_def same_links_def)
  define v where "v = upd_tid k (\<lambda>t. t\<lparr>txds_queue := txds_queue t @ ds\<rparr>) u"
  have invu: "tx_inv N u" by (rule same_path_inv [OF su inv])
  have "tid_inv (N k) (tids u k)" by (rule tx_inv_butD(1) [OF invu])
  then have v: "tx_inv_but N {} {k} v" "same_map u v"
    using upd_tid_inv [OF invu, of k "\<lambda>t. t\<lparr>txds_queue := txds_queue t @ ds\<rparr>"] by (simp_all add: v_def)
  have sv: "same_map s v" by (rule same_map_trans [OF same_path_map [OF su] v(2)])
  have "queue_of k v = q" using same_map_queue_of [OF sv] q by simp
  from queue_tid_ok [OF v(1) this] obtain w where w: "drv_tx_queue_tid q k v = Some w"
    "tx_inv_but N {} ({k} - {k}) w" "same_map v w" by blast
  define x where "x = log_tx LockTimer (upd_list q (\<lambda>l. l\<lparr>txds_pending_cnt := u32_of (txds_pending_cnt l + 1)\<rparr>) w)"
  have sx: "same_path w x" unfolding x_def
    by (rule same_path_trans [OF same_path_upd_list same_path_log]) simp_all
  have x: "tx_inv N x" using same_path_inv [OF sx w(2)] by simp
  have mx: "same_map s x" using same_map_trans [OF sv same_map_trans [OF w(3) same_path_map [OF sx]]] .
  obtain y where y: "drv_txlist_task E q x = Some y" "tx_inv N y" "same_map x y"
    using txlist_task_ok [OF x] by blast
  have "drv_tx_send_ampdu E q k ds s =
      (if txds_pending_cnt (txlists x q) < u32_of (cfg_ampdu_subframes x) \<and> \<not> wait_mpdu_timeout x
       then Some x else Some y)"
    using False w(1) y(1) by (simp add: drv_tx_send_ampdu_def Let_def u_def [symmetric] v_def [symmetric]
        x_def [symmetric])
  then show ?thesis using x mx y(2) same_map_trans [OF mx y(3)] by auto
qed

text \<open>An operation that changes one traffic class and nothing of the links.\<close>

definition one_tid :: "tidkey \<Rightarrow> drv_tx_scoreboard \<Rightarrow> drv_tx_priv \<Rightarrow> drv_tx_priv \<Rightarrow> bool" where
  "one_tid k t' s s' \<longleftrightarrow> same_links s s' \<and> tids s' = (tids s)(k := t')"

lemma one_tid_inv:
  assumes "tx_inv N s" "one_tid k t' s s'" "tid_inv (N k) t'" "t_b_work t' = t_b_work (tids s k)"
    "t_ac t' = t_ac (tids s k)"
  shows "tx_inv_but N {} {k} s'" "same_map s s'"
  using assms
  by (auto simp: one_tid_def same_links_def tx_inv_but_def links_ok_def no_stall_def limits_ok_def
      same_map_def)

lemma one_tid_inv_closed:
  assumes "tx_inv N s" "one_tid k t' s s'" "tid_inv (N k) t'" "t_b_work t' = t_b_work (tids s k)"
    "t_ac t' = t_ac (tids s k)" "txds_queue t' = [] \<or> t_paused t' \<noteq> 0 \<or> t_b_work t'"
  shows "tx_inv N s'" "same_map s s'"
proof -
  note inv = one_tid_inv [OF assms(1-5)]
  show "tx_inv N s'" using no_stall_close [of N "{}" k "{}" s'] inv(1) assms(2,6) by (simp add: one_tid_def)
  show "same_map s s'" by (rule inv(2))
qed

lemma one_tid_upd: "one_tid k (f (tids s k)) s (upd_tid k f s)"
  by (simp add: one_tid_def same_links_def upd_defs)

lemma one_tid_self: "same_path s s' \<Longrightarrow> one_tid k (tids s k) s s'"
  by (simp add: one_tid_def same_path_def)

lemma one_tid_trans: "one_tid k t s u \<Longrightarrow> one_tid k t' u v \<Longrightarrow> one_tid k t' s v"
  by (auto simp: one_tid_def same_links_def)

lemma one_tid_path: "one_tid k t s u \<Longrightarrow> same_path u v \<Longrightarrow> one_tid k t s v"
  by (auto simp: one_tid_def same_links_def same_path_def)

lemma path_one_tid: "same_path s u \<Longrightarrow> one_tid k t u v \<Longrightarrow> one_tid k t s v"
  by (auto simp: one_tid_def same_links_def same_path_def)

lemma one_tid_at: "one_tid k t s u \<Longrightarrow> tids u k = t" "one_tid k t s u \<Longrightarrow> acs u = acs s"
  by (simp_all add: one_tid_def same_links_def)

lemma flush_loop_effect:
  "txds_queue (tids s k) = ds \<Longrightarrow>
     one_tid k ((tids s k)\<lparr>txds_queue := []\<rparr>) s (flush_loop E q k ds s)"
proof (induction ds arbitrary: s)
  case Nil
  then have "(tids s k)\<lparr>txds_queue := []\<rparr> = tids s k" by simp
  then show ?case using one_tid_self [OF same_path_refl, of k s] by simp
next
  case (Cons d ds)
  define u where "u = upd_list q (\<lambda>l. l\<lparr>txds_pending_cnt := u32_of (txds_pending_cnt l - 1)\<rparr>) s"
  define v where "v = upd_tid k (\<lambda>t. t\<lparr>txds_queue := ds\<rparr>) u"
  define w where "w = (if vm_connected (stas v (fst k))
     then snd (snd (drv_tx_normal E q [d\<lparr>b_Ampdu := False\<rparr>] (sta_vif (stas v (fst k))) v))
     else drv_tx_complete d False v)"
  have su: "same_path s u" unfolding u_def by (rule same_path_upd_list) simp_all
  have "one_tid k ((tids u k)\<lparr>txds_queue := ds\<rparr>) u v"
    unfolding v_def by (rule one_tid_upd [of k "\<lambda>t. t\<lparr>txds_queue := ds\<rparr>"])
  then have sv: "one_tid k ((tids s k)\<lparr>txds_queue := ds\<rparr>) s v"
    using path_one_tid [OF su] su by (simp add: same_path_def)
  have "same_path v w" by (simp add: w_def same_path_tx_normal same_path_complete)
  then have sw: "one_tid k ((tids s k)\<lparr>txds_queue := ds\<rparr>) s w" by (rule one_tid_path [OF sv])
  have "one_tid k ((tids w k)\<lparr>txds_queue := []\<rparr>) w (flush_loop E q k ds w)"
    by (rule Cons.IH) (simp add: one_tid_at(1) [OF sw])
  then have "one_tid k ((tids s k)\<lparr>txds_queue := []\<rparr>) s (flush_loop E q k ds w)"
    using one_tid_trans [OF sw] one_tid_at(1) [OF sw] by simp
  then show ?case
    by (simp only: flush_loop.simps Let_def u_def [symmetric] v_def [symmetric] w_def [symmetric])
qed

lemma flush_effect:
  assumes "t_ac (tids s k) \<noteq> None" "u8_of (t_paused (tids s k) - 1) = 0"
  shows "\<exists>s'. drv_txlist_flush_for_sta_tid E k s = Some s' \<and>
    one_tid k ((tids s k)\<lparr>t_paused := 0, txds_queue := []\<rparr>) s s'"
proof -
  obtain a where a: "t_ac (tids s k) = Some a" using assms(1) by (cases "t_ac (tids s k)") auto
  define u where "u = upd_tid k (\<lambda>t. t\<lparr>t_paused := u8_of (t_paused t - 1)\<rparr>) s"
  have su: "one_tid k ((tids s k)\<lparr>t_paused := 0\<rparr>) s u"
    using one_tid_upd [of k "\<lambda>t. t\<lparr>t_paused := u8_of (t_paused t - 1)\<rparr>" s] assms(2) by (simp add: u_def)
  note fl = flush_loop_effect [OF refl, where s = u and k = k and E = E and q = "ac_queue_id (acs s a)"]
  have "one_tid k ((tids s k)\<lparr>t_paused := 0, txds_queue := []\<rparr>) s
      (flush_loop E (ac_queue_id (acs s a)) k (txds_queue (tids u k)) u)"
    using one_tid_trans [OF su fl] one_tid_at(1) [OF su] by simp
  moreover have "drv_txlist_flush_for_sta_tid E k s =
      Some (flush_loop E (ac_queue_id (acs s a)) k (txds_queue (tids u k)) u)"
    using a one_tid_at(1) [OF su]
    by (simp add: drv_txlist_flush_for_sta_tid_def tid_ac_def u_def [symmetric] Let_def)
  ultimately show ?thesis by blast
qed

lemma resume_ok:
  assumes inv: "tx_inv_but N {} {k} u" and u: "u = upd_tid k (\<lambda>t. t\<lparr>t_paused := u8_of (t_paused t - 1)\<rparr>) s"
    and p: "t_paused (tids u k) = 0"
  shows "\<exists>s'. drv_txlist_resume_for_sta_tid E k s = Some s' \<and> tx_inv N s' \<and> same_map u s' \<and>
    (\<forall>j. same_sess (tids u j) (tids s' j))"
proof -
  have "t_ac (tids u k) \<noteq> None" using tx_inv_butD(1) [OF inv, of k] by (simp add: tid_inv_def)
  then obtain a where a: "t_ac (tids u k) = Some a" by (cases "t_ac (tids u k)") auto
  then have as: "t_ac (tids s k) = Some a" by (simp add: u upd_defs)
  have au: "acs u = acs s" by (simp add: u upd_defs)
  have q: "queue_of k u = ac_queue_id (acs s a)" by (simp add: queue_of_def a au)
  obtain v where v: "drv_tx_queue_tid (ac_queue_id (acs s a)) k u = Some v" "tx_inv_but N {} ({k} - {k}) v"
    "same_map u v" "\<forall>j. \<exists>b. tids v j = (tids u j)\<lparr>t_b_work := b\<rparr>"
    using queue_tid_ok [OF inv q] by blast
  obtain w where w: "drv_txlist_task E (ac_queue_id (acs s a)) v = Some w" "tx_inv N w" "same_map v w"
    "\<forall>j. same_sess (tids v j) (tids w j)"
    using txlist_task_ok [of N v E "ac_queue_id (acs s a)"] v(2) by auto
  have "same_sess (tids u j) (tids v j)" for j using v(4) [rule_format, of j] by auto
  then have uw: "same_sess (tids u j) (tids w j)" for j using same_sess_trans w(4) by blast
  have res: "drv_txlist_resume_for_sta_tid E k s = Some (if txds_queue (tids u k) = [] then u else w)"
    using as p v(1) w(1)
    by (simp add: drv_txlist_resume_for_sta_tid_def tid_ac_def u [symmetric] Let_def)
  show ?thesis
  proof (cases "txds_queue (tids u k) = []")
    case True
    then have "tx_inv N u" using no_stall_close [of N "{}" k "{}" u] inv by simp
    with True res show ?thesis by simp
  next
    case False
    with res w uw same_map_trans [OF v(3) w(3)] show ?thesis by simp
  qed
qed

section \<open>The exchange\<close>

lemma session_inv_simps:
  "session_inv n t \<Longrightarrow> exchangeinprogress t \<Longrightarrow> t_paused t = 1 \<and> \<not> exchangecomplete t"
  "session_inv n t \<Longrightarrow> \<not> exchangeinprogress t \<Longrightarrow> t_paused t = 0"
  by (simp_all add: session_inv_def)

lemma tx_win_inv_fields:
  assumes "t_baw_head t' = t_baw_head t" "t_baw_tail t' = t_baw_tail t" "t_desc t' = t_desc t"
    "t_baw_size t' = t_baw_size t" "t_seq_start t' = t_seq_start t"
  shows "tx_win_inv t' = tx_win_inv t"
  using assms by (simp add: tx_win_inv_def tx_ring_wf_def tx_span_def tx_ring_def)

lemma tx_win_inv_start:
  "tx_win_inv t \<Longrightarrow> 0 \<le> x \<Longrightarrow> x < 4096 \<Longrightarrow> tx_win_inv (t\<lparr>t_seq_start := x\<rparr>)"
  by (simp add: tx_win_inv_def tx_ring_wf_def tx_span_def tx_ring_def)

lemma tx_win_inv_size:
  "tx_win_inv t \<Longrightarrow> 0 \<le> x \<Longrightarrow> x \<le> 126 \<Longrightarrow> tx_win_inv (t\<lparr>t_baw_size := x\<rparr>)"
  by (simp add: tx_win_inv_def tx_ring_wf_def tx_span_def tx_ring_def)

text \<open>A request is set up after drv_aggr_check has allowed it.\<close>

definition addba_request :: "tidkey \<Rightarrow> int \<Rightarrow> drv_tx_priv \<Rightarrow> drv_tx_priv option" where
  "addba_request k buffersz s =
    (let (ok, s) = drv_aggr_check k s in
     if ok then map_option (\<lambda>(ps, tmo, seq, s). s) (drv_addba_req_setup k buffersz s) else Some s)"

lemma addba_request_ok:
  assumes inv: "tx_inv N s"
  shows "\<exists>s'. addba_request k n s = Some s' \<and> tx_inv N s' \<and> same_map s s'"
proof -
  define t where "t = tids s k"
  have ti: "tid_inv (N k) t" using tx_inv_butD(1) [OF inv] by (simp add: t_def)
  then have si: "session_inv (N k) t" by (simp add: tid_inv_def)
  show ?thesis
  proof (cases "fst (drv_aggr_check k s)")
    case False
    then have "drv_aggr_check k s = (False, s)" by (auto simp: drv_aggr_check_def Let_def split: if_splits)
    then show ?thesis using inv by (simp add: addba_request_def)
  next
    case True
    define u where "u = upd_tid k (\<lambda>t. t\<lparr>exchangeattempts := u8_of (exchangeattempts t + 1)\<rparr>) s"
    have c: "drv_aggr_check k s = (True, u)" "\<not> exchangeinprogress t" "\<not> exchangecomplete t"
      using True by (auto simp: drv_aggr_check_def Let_def u_def t_def split: if_splits)
    have p0: "t_paused t = 0" "\<not> os_timer_ex_active (addba_timer t)" using si c(2)
      by (simp_all add: session_inv_def addba_guard_def)
    define t' where "t' = t\<lparr>exchangeattempts := u8_of (exchangeattempts t + 1), t_seq_start := t_seq_next t,
       exchangeinprogress := True, addba_timer := os_timer_ex_start (addba_timer t), t_paused := 1\<rparr>"
    obtain a where a: "t_ac t = Some a" using ti by (auto simp: tid_inv_def t_def)
    define s' where "s' = set_tid k t' s"
    have res: "map_option (\<lambda>(ps, tmo, seq, s). s) (drv_addba_req_setup k n u) = Some s'"
      using a c p0 by (simp add: drv_addba_req_setup_def Let_def u_def s'_def t'_def t_def upd_defs
          drv_txlist_pause_for_sta_tid_def tid_ac_def u8_of_def)
    have one: "one_tid k t' s s'" by (simp add: one_tid_def s'_def same_links_def set_tid_def)
    have "tx_win_inv t'" using tx_win_inv_start [of t "t_seq_next t"] ti
      by (subst tx_win_inv_fields [of t' "t\<lparr>t_seq_start := t_seq_next t\<rparr>"])
        (simp_all add: t'_def tid_inv_def)
    then have "tid_inv (N k) t'" using ti c addba_guard_start [of "addba_timer t" "N k"]
      by (simp add: tid_inv_def session_inv_def t'_def addba_guard_def)
    from one_tid_inv_closed [OF inv one this] have "tx_inv N s'" "same_map s s'"
      by (simp_all add: t'_def t_def)
    moreover have "addba_request k n s = Some s'" by (simp add: addba_request_def c(1) res)
    ultimately show ?thesis by simp
  qed
qed

lemma cancel_effect: "one_tid k ((tids s k)\<lparr>addba_timer := timer_cancel (addba_timer (tids s k))\<rparr>) s
    (cancel_addba_timer k s)"
  unfolding cancel_addba_timer_def
  by (rule one_tid_upd [of k "\<lambda>t. t\<lparr>addba_timer := timer_cancel (addba_timer t)\<rparr>"])

text \<open>A class after its exchange has ended without success.\<close>

definition exchange_over :: "drv_tx_scoreboard \<Rightarrow> drv_tx_scoreboard" where
  "exchange_over t = t\<lparr>exchangeinprogress := False, addba_timer := timer_cancel (addba_timer t),
     t_paused := 0, txds_queue := []\<rparr>"

lemma exchange_over_inv: "tid_inv n t \<Longrightarrow> tid_inv n (exchange_over t)"
  using addba_guard_cancel [of n "exchangeinprogress t" "addba_timer t"] tx_win_inv_fields [of "exchange_over t" t]
  by (simp add: tid_inv_def session_inv_def exchange_over_def)

lemma addba_timer_ex_effect:
  assumes inv: "tx_inv N s"
  shows "\<exists>s'. drv_addba_timer_ex E k s = Some s' \<and>
    one_tid k (if exchangeinprogress (tids s k)
               then (exchange_over (tids s k))\<lparr>tid_tx_buff_sending := False\<rparr>
               else (tids s k)\<lparr>addba_timer := timer_cancel (addba_timer (tids s k))\<rparr>) s s'"
proof -
  have ti: "tid_inv (N k) (tids s k)" by (rule tx_inv_butD(1) [OF inv])
  define u where "u = log_tx PsWake s"
  have su: "same_path s u" by (simp add: u_def same_path_log)
  have tu: "tids u = tids s" using su by (simp add: same_path_def)
  show ?thesis
  proof (cases "exchangeinprogress (tids s k)")
    case False
    have "one_tid k (tids s k) s (log_tx PsSleep u)"
      using one_tid_self [OF same_path_trans [OF su same_path_log]] .
    from one_tid_trans [OF this cancel_effect] one_tid_at(1) [OF this]
    have "one_tid k ((tids s k)\<lparr>addba_timer := timer_cancel (addba_timer (tids s k))\<rparr>) s
      (cancel_addba_timer k (log_tx PsSleep u))" by simp
    then show ?thesis using False tu by (simp add: drv_addba_timer_ex_def u_def [symmetric] Let_def)
  next
    case True
    define v where "v = upd_tid k (\<lambda>t. t\<lparr>exchangeinprogress := False\<rparr>) u"
    have sv: "one_tid k ((tids s k)\<lparr>exchangeinprogress := False\<rparr>) s v"
      using path_one_tid [OF su one_tid_upd] tu unfolding v_def by simp
    have "t_ac (tids v k) \<noteq> None" "u8_of (t_paused (tids v k) - 1) = 0"
      using one_tid_at(1) [OF sv] ti session_inv_simps(1) [of "N k" "tids s k"] True
      by (simp_all add: tid_inv_def u8_of_def)
    from flush_effect [OF this] obtain w where w: "drv_txlist_flush_for_sta_tid E k v = Some w"
      "one_tid k ((tids v k)\<lparr>t_paused := 0, txds_queue := []\<rparr>) v w" by blast
    note sw = one_tid_trans [OF sv w(2)]
    define x where "x = upd_tid k (\<lambda>t. t\<lparr>tid_tx_buff_sending := False\<rparr>)
      (log_tx (TxBufferSend k) (upd_tid k (\<lambda>t. t\<lparr>tid_tx_buff_sending := True\<rparr>) w))"
    have "one_tid k ((tids w k)\<lparr>tid_tx_buff_sending := False\<rparr>) w x"
      by (simp add: x_def one_tid_def same_links_def upd_defs log_tx_def)
    note sx = one_tid_trans [OF sw this]
    note sy = one_tid_path [OF sx same_path_log, of PsSleep]
    have "(tids (log_tx PsSleep x) k)\<lparr>addba_timer := timer_cancel (addba_timer (tids (log_tx PsSleep x) k))\<rparr> =
        (exchange_over (tids s k))\<lparr>tid_tx_buff_sending := False\<rparr>"
      by (simp add: one_tid_at(1) [OF sy] one_tid_at(1) [OF sw] one_tid_at(1) [OF sv] exchange_over_def)
    with one_tid_trans [OF sy cancel_effect] True w(1) tu show ?thesis
      by (simp add: drv_addba_timer_ex_def u_def [symmetric] v_def [symmetric] x_def [symmetric] Let_def)
  qed
qed

lemma session_inv_sending [simp]: "tid_inv n (t\<lparr>tid_tx_buff_sending := b\<rparr>) = tid_inv n t"
  using tx_win_inv_fields [of "t\<lparr>tid_tx_buff_sending := b\<rparr>" t]
  by (simp add: tid_inv_def session_inv_def)

lemma addba_timer_ex_ok:
  assumes inv: "tx_inv N s"
  shows "\<exists>s'. drv_addba_timer_ex E k s = Some s' \<and> tx_inv N s' \<and> same_map s s'"
proof -
  let ?t = "tids s k"
  define t' where "t' = (if exchangeinprogress ?t then (exchange_over ?t)\<lparr>tid_tx_buff_sending := False\<rparr>
     else ?t\<lparr>addba_timer := timer_cancel (addba_timer ?t)\<rparr>)"
  obtain s' where s': "drv_addba_timer_ex E k s = Some s'" "one_tid k t' s s'"
    using addba_timer_ex_effect [OF inv, of E k] unfolding t'_def by blast
  have ti: "tid_inv (N k) ?t" by (rule tx_inv_butD(1) [OF inv])
  have "tid_inv (N k) (?t\<lparr>addba_timer := timer_cancel (addba_timer ?t)\<rparr>)" if "\<not> exchangeinprogress ?t"
    using ti that addba_guard_cancel [of "N k" "exchangeinprogress ?t" "addba_timer ?t"]
      tx_win_inv_fields [of "?t\<lparr>addba_timer := timer_cancel (addba_timer ?t)\<rparr>" ?t]
    by (simp add: tid_inv_def session_inv_def)
  then have inv': "tid_inv (N k) t'" using exchange_over_inv [OF ti] by (simp add: t'_def)
  have q: "txds_queue t' = [] \<or> t_paused t' \<noteq> 0 \<or> t_b_work t'"
    using tx_inv_butD(3) [OF inv] by (auto simp: t'_def exchange_over_def no_stall_def)
  have same: "t_b_work t' = t_b_work ?t" "t_ac t' = t_ac ?t"
    by (simp_all add: t'_def exchange_over_def)
  from one_tid_inv_closed [OF inv s'(2) inv' same q] s'(1) show ?thesis by simp
qed

text \<open>An answer: the response must not ask for a window of more than 126 frames.\<close>

definition rsp_valid :: "int \<Rightarrow> wifi_mac_ba_parameterset \<Rightarrow> bool" where
  "rsp_valid status ps \<longleftrightarrow> 0 \<le> ba_tid ps \<and> (status = 0 \<longrightarrow> u8_of (buffersize ps) \<le> 126)"

lemma u8_of_range [simp]: "0 \<le> u8_of x" "u8_of x < 256"
  by (simp_all add: u8_of_def)

text \<open>The class once the status is recorded: \<^verbatim>\<open>rsp_tid\<close> before it is resumed or flushed.\<close>

definition rsp_tid :: "int \<Rightarrow> drv_tx_scoreboard \<Rightarrow> drv_tx_scoreboard" where
  "rsp_tid status t =
    (let t = (if exchangeinprogress t
              then t\<lparr>exchangeinprogress := False, addba_timer := timer_cancel (addba_timer t)\<rparr> else t)
     in t\<lparr>exchangestatuscode := u8_of status\<rparr>)"

definition rsp_open :: "bool \<Rightarrow> wifi_mac_ba_parameterset \<Rightarrow> drv_tx_scoreboard \<Rightarrow> drv_tx_scoreboard" where
  "rsp_open amsdu ps t = t\<lparr>exchangecomplete := True, t_baw_size := u8_of (buffersize ps),
     tid_amsdusupported := of_bool (amsdu \<and> amsdusupported ps \<noteq> 0)\<rparr>"

lemma rsp_note_effect: "one_tid k (rsp_tid status (tids s k)) s (rsp_note k status s)"
  by (simp add: one_tid_def same_links_def upd_defs cancel_addba_timer_def rsp_tid_def rsp_note_def)

lemma rsp_accept_effect:
  "one_tid k (rsp_open (cfg_txamsdu s) ps (tids s k)) s (rsp_accept k ps s)"
  by (simp add: one_tid_def same_links_def upd_defs rsp_open_def rsp_accept_def Let_def)

lemma rsp_tid_fields [simp]:
  "t_paused (rsp_tid st t) = t_paused t" "t_b_work (rsp_tid st t) = t_b_work t"
  "t_ac (rsp_tid st t) = t_ac t" "txds_queue (rsp_tid st t) = txds_queue t"
  "t_seq_next (rsp_tid st t) = t_seq_next t" "tx_win_inv (rsp_tid st t) = tx_win_inv t"
  "\<not> exchangeinprogress (rsp_tid st t)"
  "exchangecomplete (rsp_tid st t) = exchangecomplete t"
  by (simp_all add: rsp_tid_def Let_def tx_win_inv_def tx_ring_wf_def tx_span_def tx_ring_def)

lemma rsp_tid_timer:
  "session_inv n t \<Longrightarrow> addba_guard n False (addba_timer (rsp_tid st t))"
  using addba_guard_cancel [of n "exchangeinprogress t" "addba_timer t"]
  by (cases "exchangeinprogress t") (simp_all add: rsp_tid_def session_inv_def Let_def)

lemma rsp_open_inv:
  assumes "tid_inv n t" "u8_of (buffersize ps) \<le> 126"
  shows "tid_inv n ((rsp_open b ps (rsp_tid st t))\<lparr>t_paused := 0\<rparr>)"
proof -
  have "tx_win_inv ((rsp_tid st t)\<lparr>t_baw_size := u8_of (buffersize ps)\<rparr>)"
    using assms by (intro tx_win_inv_size) (simp_all add: tid_inv_def)
  then have "tx_win_inv ((rsp_open b ps (rsp_tid st t))\<lparr>t_paused := 0\<rparr>)"
    by (subst tx_win_inv_fields) (simp_all add: rsp_open_def)
  then show ?thesis using assms(1) rsp_tid_timer [of n t st]
    by (simp add: tid_inv_def session_inv_def rsp_open_def)
qed

lemma rsp_closed_inv:
  assumes "tid_inv n t"
  shows "tid_inv n ((rsp_tid st t)\<lparr>t_paused := 0, txds_queue := []\<rparr>)"
    "\<not> exchangeinprogress t \<Longrightarrow> tid_inv n (rsp_tid st t)"
proof -
  have w: "tx_win_inv ((rsp_tid st t)\<lparr>t_paused := 0, txds_queue := []\<rparr>) = tx_win_inv (rsp_tid st t)"
    by (rule tx_win_inv_fields) simp_all
  show "tid_inv n ((rsp_tid st t)\<lparr>t_paused := 0, txds_queue := []\<rparr>)"
    using assms rsp_tid_timer [of n t st] w by (simp add: tid_inv_def session_inv_def)
  show "\<not> exchangeinprogress t \<Longrightarrow> tid_inv n (rsp_tid st t)"
    using assms rsp_tid_timer [of n t st] by (simp add: tid_inv_def session_inv_def)
qed

lemma one_tid_log: "one_tid k t s u \<Longrightarrow> one_tid k t s (log_tx e u)"
  by (rule one_tid_path [OF _ same_path_log])

text \<open>What an answer does to its class.\<close>

definition answered ::
  "int \<Rightarrow> wifi_mac_ba_parameterset \<Rightarrow> drv_tx_scoreboard \<Rightarrow> drv_tx_scoreboard \<Rightarrow> bool"
where
  "answered status ps t t' \<longleftrightarrow> \<not> exchangeinprogress t' \<and> t_paused t' = 0 \<and>
     (status = 0 \<longrightarrow> exchangecomplete t' \<and> t_baw_size t' = buffersize ps mod 256) \<and>
     (status \<noteq> 0 \<longrightarrow> exchangecomplete t' = exchangecomplete t \<and>
        (exchangeinprogress t \<longrightarrow> txds_queue t' = []))"

lemma addba_rsp_ok:
  assumes inv: "tx_inv N s" and valid: "rsp_valid status ps"
  shows "\<exists>s'. drv_addba_rsp_process E sta status ps s = Some s' \<and> tx_inv N s' \<and>
    (ba_tid ps < 8 \<longrightarrow>
      answered status ps (tids s (sta, nat (ba_tid ps))) (tids s' (sta, nat (ba_tid ps))))"
proof (cases "ba_tid ps \<ge> 8")
  case True
  then show ?thesis using inv by (simp add: drv_addba_rsp_process_def)
next
  case tid: False
  define k where "k = (sta, nat (ba_tid ps))"
  define t where "t = tids s k"
  define resume where "resume = exchangeinprogress t"
  have ti: "tid_inv (N k) t" using tx_inv_butD(1) [OF inv] by (simp add: t_def)
  then have si: "session_inv (N k) t" by (simp add: tid_inv_def)
  define u where "u = rsp_note k status s"
  have su: "one_tid k (rsp_tid status t) s u" using rsp_note_effect [of k status s] by (simp add: u_def t_def)
  have tu: "tids u k = rsp_tid status t" by (rule one_tid_at(1) [OF su])
  have ns: "txds_queue t = [] \<or> t_paused t \<noteq> 0 \<or> t_b_work t"
    using tx_inv_butD(3) [OF inv] by (auto simp: no_stall_def t_def)
  show ?thesis
  proof (cases "status = 0")
    case ok: True
    then have sz: "u8_of (buffersize ps) \<le> 126" using valid by (simp add: rsp_valid_def)
    define v where "v = rsp_accept k ps u"
    define tv where "tv = rsp_open (cfg_txamsdu u) ps (rsp_tid status t)"
    have sv: "one_tid k tv s v" using one_tid_trans [OF su rsp_accept_effect [of k u ps]]
      unfolding v_def tv_def tu .
    have tvi: "tid_inv (N k) (tv\<lparr>t_paused := 0\<rparr>)" unfolding tv_def by (rule rsp_open_inv [OF ti sz])
    have tvf: "t_b_work tv = t_b_work t" "t_ac tv = t_ac t" "txds_queue tv = txds_queue t"
      "t_paused tv = t_paused t" by (simp_all add: tv_def rsp_open_def)
    define w where "w = log_tx (HalTxAddbaOk k (t_seq_start (tids v k)) (t_baw_size (tids v k))) v"
    have sw: "one_tid k tv s w" unfolding w_def by (rule one_tid_log [OF sv])
    have res: "drv_addba_rsp_process E sta status ps s =
        (if resume then drv_txlist_resume_for_sta_tid E k w else Some v)"
      using tid ok
      by (simp add: drv_addba_rsp_process_def Let_def k_def [symmetric] t_def [symmetric]
          resume_def [symmetric] u_def v_def w_def)
    show ?thesis
    proof (cases resume)
      case False
      then have "t_paused t = 0" using si by (simp add: resume_def session_inv_simps)
      then have "tv\<lparr>t_paused := 0\<rparr> = tv" using tvf(4) by simp
      then have "tid_inv (N k) tv" using tvi by simp
      moreover have "answered status ps t tv" using ok \<open>t_paused t = 0\<close> tvf(4)
        by (simp add: answered_def tv_def rsp_open_def u8_of_def)
      ultimately show ?thesis using one_tid_inv_closed [OF inv sv] False res ns tvf one_tid_at(1) [OF sv]
        by (simp add: t_def k_def)
    next
      case True
      define x where "x = upd_tid k (\<lambda>t. t\<lparr>t_paused := u8_of (t_paused t - 1)\<rparr>) w"
      have p: "t_paused tv = 1" using True si tvf(4) session_inv_simps(1) [of "N k" t] by (simp add: resume_def)
      have "one_tid k (tv\<lparr>t_paused := u8_of (t_paused tv - 1)\<rparr>) s x"
        using one_tid_trans [OF sw one_tid_upd [of k "\<lambda>t. t\<lparr>t_paused := u8_of (t_paused t - 1)\<rparr>" w]]
          one_tid_at(1) [OF sw] by (simp add: x_def)
      then have sx: "one_tid k (tv\<lparr>t_paused := 0\<rparr>) s x" using p by (simp add: u8_of_def)
      note xi = one_tid_inv [OF inv sx tvi]
      have x: "tx_inv_but N {} {k} x" "same_map s x" using xi tvf by (simp_all add: t_def)
      have "t_paused (tids x k) = 0" by (simp add: one_tid_at(1) [OF sx])
      from resume_ok [OF x(1) x_def this, of E] obtain y where
        y: "drv_txlist_resume_for_sta_tid E k w = Some y" "tx_inv N y" "same_map x y"
        "\<forall>j. same_sess (tids x j) (tids y j)" by blast
      have "same_sess (tv\<lparr>t_paused := 0\<rparr>) (tids y k)" using y(4) [rule_format, of k] one_tid_at(1) [OF sx] by simp
      then have "answered status ps t (tids y k)" using ok
        by (simp add: answered_def tv_def rsp_open_def u8_of_def same_sess_def)
      then show ?thesis using True res y by (simp add: k_def t_def)
    qed
  next
    case fail: False
    have res: "drv_addba_rsp_process E sta status ps s =
        (if resume then drv_txlist_flush_for_sta_tid E k u else Some u)"
      using tid fail
      by (simp add: drv_addba_rsp_process_def Let_def k_def [symmetric] t_def [symmetric]
          resume_def [symmetric] u_def [symmetric])
    show ?thesis
    proof (cases resume)
      case False
      have "tid_inv (N k) (rsp_tid status t)" using rsp_closed_inv(2) [OF ti] False by (simp add: resume_def)
      moreover have "answered status ps t (rsp_tid status t)" using fail False si
        by (simp add: answered_def resume_def session_inv_simps)
      ultimately show ?thesis using one_tid_inv_closed [OF inv su] False res ns tu
        by (simp add: t_def k_def)
    next
      case True
      have "t_ac (tids u k) \<noteq> None" "u8_of (t_paused (tids u k) - 1) = 0"
        using tu ti si True session_inv_simps(1) [of "N k" t]
        by (simp_all add: tid_inv_def resume_def u8_of_def)
      from flush_effect [OF this, of E] obtain w where w: "drv_txlist_flush_for_sta_tid E k u = Some w"
        "one_tid k ((rsp_tid status t)\<lparr>t_paused := 0, txds_queue := []\<rparr>) u w" using tu by auto
      note sw = one_tid_trans [OF su w(2)]
      have "answered status ps t (tids w k)" using fail by (simp add: answered_def one_tid_at(1) [OF sw])
      with one_tid_inv_closed [OF inv sw rsp_closed_inv(1) [OF ti]]
      show ?thesis using True res w(1) by (simp add: t_def k_def)
    qed
  qed
qed

section \<open>The end of a session and completion\<close>

lemma no_stall_at: "tx_inv N s \<Longrightarrow> txds_queue (tids s k) = [] \<or> t_paused (tids s k) \<noteq> 0 \<or> t_b_work (tids s k)"
  using tx_inv_butD(3) [of N "{}" "{}" s] by (auto simp: no_stall_def)

lemma session_reset_fields [simp]:
  "t_paused (session_reset t) = t_paused t" "t_b_work (session_reset t) = t_b_work t"
  "t_ac (session_reset t) = t_ac t" "txds_queue (session_reset t) = txds_queue t"
  "exchangeinprogress (session_reset t) = exchangeinprogress t"
  "addba_timer (session_reset t) = addba_timer t" "t_seq_next (session_reset t) = t_seq_next t"
  "\<not> exchangecomplete (session_reset t)" "tx_win_inv (session_reset t) = tx_win_inv t"
  by (simp_all add: session_reset_def tx_win_inv_def tx_ring_wf_def tx_span_def tx_ring_def)

lemma session_reset_inv: "tid_inv n t \<Longrightarrow> tid_inv n (session_reset t)"
  by (simp add: tid_inv_def session_inv_def)

lemma pause_effect:
  assumes "t_ac (tids s k) \<noteq> None"
  shows "\<exists>s'. drv_txlist_pause_for_sta_tid k s = Some s' \<and>
    one_tid k ((tids s k)\<lparr>t_paused := u8_of (t_paused (tids s k) + 1)\<rparr>) s s'"
  using assms one_tid_upd [of k "\<lambda>t. t\<lparr>t_paused := u8_of (t_paused t + 1)\<rparr>" s]
  by (auto simp: drv_txlist_pause_for_sta_tid_def tid_ac_def)

text \<open>The class after its session has been ended: it waits for the frames under way, or is closed.\<close>

definition del_tid :: "drv_tx_scoreboard \<Rightarrow> drv_tx_scoreboard" where
  "del_tid t = (if t_baw_head t \<noteq> t_baw_tail t then t\<lparr>cleanup_inprogress := True\<rparr> else session_reset t)
     \<lparr>txds_queue := []\<rparr>"

lemma txampdu_del_effect:
  assumes inv: "tx_inv N s" and c: "exchangecomplete (tids s k)" "\<not> cleanup_inprogress (tids s k)"
  shows "\<exists>s'. drv_txampdu_del E k s = Some s' \<and> one_tid k (del_tid (tids s k)) s s'"
proof -
  let ?t = "tids s k"
  have ti: "tid_inv (N k) ?t" by (rule tx_inv_butD(1) [OF inv])
  then have p: "\<not> exchangeinprogress ?t" "t_paused ?t = 0" "t_ac ?t \<noteq> None"
    using c(1) by (auto simp: tid_inv_def session_inv_def)
  obtain u where u: "drv_txlist_pause_for_sta_tid k s = Some u" "one_tid k (?t\<lparr>t_paused := 1\<rparr>) s u"
    using pause_effect [OF p(3)] p(2) by (auto simp: u8_of_def)
  define f where "f = (\<lambda>t. if t_baw_head t \<noteq> t_baw_tail t then t\<lparr>cleanup_inprogress := True\<rparr> else session_reset t)"
  define v where "v = upd_tid k f u"
  have sv: "one_tid k (f (?t\<lparr>t_paused := 1\<rparr>)) s v"
    using one_tid_trans [OF u(2) one_tid_upd [of k f u]] one_tid_at(1) [OF u(2)] by (simp add: v_def)
  have tv: "tids v k = f (?t\<lparr>t_paused := 1\<rparr>)" by (rule one_tid_at(1) [OF sv])
  have "t_ac (tids v k) \<noteq> None" "u8_of (t_paused (tids v k) - 1) = 0"
    using p by (simp_all add: tv f_def u8_of_def)
  from flush_effect [OF this, of E] obtain w where w: "drv_txlist_flush_for_sta_tid E k v = Some w"
    "one_tid k ((tids v k)\<lparr>t_paused := 0, txds_queue := []\<rparr>) v w" by blast
  have "(tids v k)\<lparr>t_paused := 0, txds_queue := []\<rparr> = del_tid ?t"
    using p(2) by (simp add: tv f_def del_tid_def session_reset_def)
  then have "one_tid k (del_tid ?t) s w" using one_tid_trans [OF sv w(2)] by simp
  moreover have "drv_txampdu_del E k s = Some w"
    using p c u(1) w(1) by (auto simp: drv_txampdu_del_def tid_ac_def v_def f_def)
  ultimately show ?thesis by blast
qed

lemma tid_inv_cleanup [simp]: "tid_inv n (t\<lparr>cleanup_inprogress := b\<rparr>) = tid_inv n t"
  using tx_win_inv_fields [of "t\<lparr>cleanup_inprogress := b\<rparr>" t]
  by (simp add: tid_inv_def session_inv_def)

lemma tid_inv_attempts [simp]:
  "tid_inv w (t\<lparr>exchangeattempts := n, exchangestatuscode := m\<rparr>) = tid_inv w t"
  using tx_win_inv_fields [of "t\<lparr>exchangeattempts := n, exchangestatuscode := m\<rparr>" t]
  by (simp add: tid_inv_def session_inv_def)

lemma txampdu_del_ok:
  assumes inv: "tx_inv N s"
  shows "\<exists>s'. drv_txampdu_del E k s = Some s' \<and> tx_inv N s' \<and> same_map s s'"
proof (cases "exchangecomplete (tids s k) \<and> \<not> cleanup_inprogress (tids s k)")
  case True
  then obtain s' where s': "drv_txampdu_del E k s = Some s'" "one_tid k (del_tid (tids s k)) s s'"
    using txampdu_del_effect [OF inv] by blast
  have "tid_inv (N k) (del_tid (tids s k))"
    using tx_inv_butD(1) [OF inv, of k] session_reset_inv by (simp add: del_tid_def)
  from one_tid_inv_closed [OF inv s'(2) this] s'(1) show ?thesis by (simp add: del_tid_def)
next
  case False
  have ti: "tid_inv (N k) (tids s k)" by (rule tx_inv_butD(1) [OF inv])
  then obtain a where a: "t_ac (tids s k) = Some a" by (auto simp: tid_inv_def)
  show ?thesis
  proof (cases "cleanup_inprogress (tids s k)")
    case True
    then show ?thesis using inv a by (simp add: drv_txampdu_del_def tid_ac_def)
  next
    case nc: False
    let ?f = "\<lambda>t. t\<lparr>exchangeattempts := 0, exchangestatuscode := 1\<rparr> :: drv_tx_scoreboard"
    have "drv_txampdu_del E k s = Some (upd_tid k ?f s)"
      using a nc False by (simp add: drv_txampdu_del_def tid_ac_def)
    then show ?thesis
      using one_tid_inv_closed [OF inv one_tid_upd [of k ?f s]] ti no_stall_at [OF inv, of k] by simp
  qed
qed

lemma complete_ba_ok:
  assumes inv: "tx_inv N s"
  shows "\<exists>s'. complete_ba q k sn s = Some s' \<and> tx_inv N s' \<and> same_map s s'"
proof -
  let ?t = "tids s k"
  have ti: "tid_inv (N k) ?t" by (rule tx_inv_butD(1) [OF inv])
  then have "tx_win_inv ?t" by (simp add: tid_inv_def)
  from update_ba_win_abs [OF this, of "cfg_ampdu_subframes s" sn "txlist_qcnt (txlists s q)"]
  obtain t cnt where t: "drv_tx_update_ba_win (cfg_ampdu_subframes s) sn ?t (txlist_qcnt (txlists s q)) = Some (t, cnt)"
    "tx_win_inv t" "same_but_window ?t t" by blast
  define t' where "t' = (if cleanup_inprogress t \<and> t_baw_head t = t_baw_tail t
                then (session_reset t)\<lparr>cleanup_inprogress := False\<rparr> else t)"
  note w = same_but_windowD [OF t(3)]
  have "tid_inv (N k) t" using ti t(2) w by (simp add: tid_inv_def session_inv_def)
  then have t': "tid_inv (N k) t'" using session_reset_inv by (simp add: t'_def)
  define s' where "s' = upd_list q (\<lambda>l. l\<lparr>txlist_qcnt := cnt\<rparr>) (set_tid k t' s)"
  have one: "one_tid k t' s s'" by (simp add: s'_def one_tid_def same_links_def upd_defs)
  have "complete_ba q k sn s = Some s'" using t(1) by (simp add: complete_ba_def t'_def s'_def Let_def)
  moreover have f: "t_b_work t' = t_b_work ?t" "t_ac t' = t_ac ?t" "txds_queue t' = txds_queue ?t"
    "t_paused t' = t_paused ?t" using w by (simp_all add: t'_def)
  ultimately show ?thesis using one_tid_inv_closed [OF inv one t'] no_stall_at [OF inv, of k] by simp
qed

lemma same_path_dispose: "same_path s (complete_dispose q d ok s)"
proof -
  have "same_path s (s\<lparr>retransmit_queue := x\<rparr>)" for x by (simp add: same_path_def same_links_def)
  then show ?thesis
    by (simp add: complete_dispose_def same_path_complete same_path_trans [OF same_path_log same_path_complete])
qed

lemma complete_task_ok:
  assumes inv: "tx_inv N s"
  shows "\<exists>s'. drv_tx_complete_task E q d sta ok s = Some s' \<and> tx_inv N s' \<and> same_map s s'"
proof -
  have "\<exists>u. (if \<not> b_nulldata d \<and> b_Ampdu d then complete_ba q (sta, td_tid d) (td_seqnum d) s
      else Some s) = Some u \<and> tx_inv N u \<and> same_map s u"
    using complete_ba_ok [OF inv, of q "(sta, td_tid d)" "td_seqnum d"] inv same_map_refl [of s]
    by (cases "\<not> b_nulldata d \<and> b_Ampdu d") simp_all
  then obtain u where u: "(if \<not> b_nulldata d \<and> b_Ampdu d then complete_ba q (sta, td_tid d) (td_seqnum d) s
      else Some s) = Some u" "tx_inv N u" "same_map s u" by blast
  define v where "v = log_tx ScheduleTasklets (complete_dispose q d ok u)"
  have uv: "same_path u v" unfolding v_def by (rule same_path_trans [OF same_path_dispose same_path_log])
  define w where "w = (if drv_txq_backup_qcnt q v > 0
     then if q = 7 then drv_tx_mcastq_send E v else drv_txq_backup_send E q v else v)"
  have vw: "same_path v w" by (simp add: w_def same_path_mcastq_send same_path_backup_send)
  have uw: "same_path u w" by (rule same_path_trans [OF uv vw])
  have "drv_tx_complete_task E q d sta ok s = Some w"
    using u(1) by (simp add: drv_tx_complete_task_def v_def w_def Let_def)
  then show ?thesis using same_path_inv [OF uw u(2)] same_map_trans [OF u(3) same_path_map [OF uw]] by blast
qed

lemma irq_tasklet_ok:
  assumes inv: "tx_inv N s"
  shows "\<exists>s'. drv_tx_irq_tasklet E q d ok s = Some s' \<and> tx_inv N s' \<and> same_map s s'"
proof (cases "bit (drv_txqueue_map s) q \<and> txdesc_sta d \<noteq> None")
  case False
  have "same_path s (log_tx (NotifyQstatus 0) s)" by (rule same_path_log)
  with False inv same_path_inv [OF this inv] same_path_map [OF this] show ?thesis
    by (auto simp: drv_tx_irq_tasklet_def)
next
  case True
  then obtain sta where sta: "txdesc_sta d = Some sta" by blast
  define u where "u = upd_list q (\<lambda>l. l\<lparr>txlist_q := remove_desc (td_id d) (txlist_q l),
      txlist_qcnt := (if txlist_qcnt l > 0 then txlist_qcnt l - 1 else txlist_qcnt l)\<rparr>) s"
  have su: "same_path s u" unfolding u_def by (rule same_path_upd_list) simp_all
  from complete_task_ok [OF same_path_inv [OF su inv], of E q d sta ok] obtain v where
    v: "drv_tx_complete_task E q d sta ok u = Some v" "tx_inv N v" "same_map u v" by blast
  define w where "w = log_tx (NotifyQstatus (drv_txlist_all_qcnt q v)) v"
  have vw: "same_path v w" unfolding w_def by (rule same_path_log)
  have "drv_tx_irq_tasklet E q d ok s = Some w"
    using True sta v(1) by (simp add: drv_tx_irq_tasklet_def u_def w_def)
  then show ?thesis using same_path_inv [OF vw v(2)]
      same_map_trans [OF same_path_map [OF su] same_map_trans [OF v(3) same_path_map [OF vw]]] by blast
qed

section \<open>Runs\<close>

text \<open>The steps of the transmit path: a frame to aggregate, a request, an answer, the end of a
  session, a scheduling of one queue or of all, and a completion; and the end of an exchange
  without an answer, which takes three.  The kernel timer expires and its handler queues a work
  item (which is lost when the work queue has no room); the handler leaves, which clears the
  active flag; and the first work item runs.  Other steps may come in between.  The state of a run
  holds the classes whose handler is under way and those whose work item waits.\<close>

datatype tx_op =
    Send tidkey txdesc
  | Request tidkey int
  | Answer nat int wifi_mac_ba_parameterset
  | Expire tidkey bool
  | TimerEnd tidkey
  | WorkItem
  | Del tidkey
  | Task nat
  | Tasklet
  | Irq nat txdesc bool

type_synonym tx_state = "tidkey list \<times> tidkey list \<times> drv_tx_priv"

definition set_addba_timer :: "tidkey \<Rightarrow> os_timer_ext \<Rightarrow> drv_tx_priv \<Rightarrow> drv_tx_priv" where
  "set_addba_timer k tm s = upd_tid k (\<lambda>t. t\<lparr>addba_timer := tm\<rparr>) s"

definition addba_expire :: "tidkey \<Rightarrow> bool \<Rightarrow> tx_state \<Rightarrow> tx_state" where
  "addba_expire k room = (\<lambda>(hs, ws, s).
    if k \<in> set hs then (hs, ws, s)
    else let (go, tm) = timer_expires (addba_timer (tids s k)) in
         if go then let (r, s, tm) = drv_addba_timer k s tm
                    in (k # hs, if room then ws @ [k] else ws, set_addba_timer k tm s)
         else (hs, ws, set_addba_timer k tm s))"

definition addba_timer_end :: "tidkey \<Rightarrow> tx_state \<Rightarrow> tx_state" where
  "addba_timer_end k = (\<lambda>(hs, ws, s).
    if k \<in> set hs
    then (removeAll k hs, ws, set_addba_timer k (handler_leave OS_TIMER_NOT_REARMED (addba_timer (tids s k))) s)
    else (hs, ws, s))"

fun tx_do :: "tx_env \<Rightarrow> tx_op \<Rightarrow> tx_state \<Rightarrow> tx_state option" where
  "tx_do E (Send k d) (hs, ws, s) =
     map_option (\<lambda>s. (hs, ws, s)) (drv_tx_send_ampdu E (queue_of k s) k [d] s)" |
  "tx_do E (Request k n) (hs, ws, s) = map_option (\<lambda>s. (hs, ws, s)) (addba_request k n s)" |
  "tx_do E (Answer sta st ps) (hs, ws, s) =
     map_option (\<lambda>s. (hs, ws, s)) (drv_addba_rsp_process E sta st ps s)" |
  "tx_do E (Expire k room) st = Some (addba_expire k room st)" |
  "tx_do E (TimerEnd k) st = Some (addba_timer_end k st)" |
  "tx_do E WorkItem (hs, ws, s) =
     (case ws of [] \<Rightarrow> Some (hs, ws, s)
      | k # ks \<Rightarrow> map_option (\<lambda>s. (hs, ks, s)) (drv_addba_timer_ex E k s))" |
  "tx_do E (Del k) (hs, ws, s) = map_option (\<lambda>s. (hs, ws, s)) (drv_txampdu_del E k s)" |
  "tx_do E (Task q) (hs, ws, s) = map_option (\<lambda>s. (hs, ws, s)) (drv_txlist_task E q s)" |
  "tx_do E Tasklet (hs, ws, s) = map_option (\<lambda>s. (hs, ws, s)) (drv_txampdu_tasklet E s)" |
  "tx_do E (Irq q d ok) (hs, ws, s) =
     map_option (\<lambda>s. (hs, ws, s)) (drv_tx_irq_tasklet E q d ok s)"

fun tx_run :: "tx_env \<Rightarrow> tx_op list \<Rightarrow> tx_state \<Rightarrow> tx_state option" where
  "tx_run E [] st = Some st" |
  "tx_run E (x # xs) st = (case tx_do E x st of None \<Rightarrow> None | Some st \<Rightarrow> tx_run E xs st)"

fun tx_op_valid :: "tx_op \<Rightarrow> bool" where
  "tx_op_valid (Answer sta st ps) = rsp_valid st ps" |
  "tx_op_valid (Expire k room) = room" |
  "tx_op_valid x = True"

definition waits :: "tidkey list \<Rightarrow> tidkey list \<Rightarrow> tidkey \<Rightarrow> addba_wait" where
  "waits hs ws = (\<lambda>k. (k \<in> set hs, k \<in> set ws))"

text \<open>The invariant under another account of the handlers and work items, with the timer of one
  class changed.\<close>

lemma tx_inv_timer:
  assumes "tx_inv N s" "addba_guard (M k) (exchangeinprogress (tids s k)) tm"
    "\<And>j. j \<noteq> k \<Longrightarrow> M j = N j"
  shows "tx_inv M (set_addba_timer k tm s)"
proof -
  have "tid_inv (M j) (tids (set_addba_timer k tm s) j)" for j
  proof (cases "j = k")
    case True
    have "tx_win_inv ((tids s k)\<lparr>addba_timer := tm\<rparr>) = tx_win_inv (tids s k)"
      by (rule tx_win_inv_fields) simp_all
    then show ?thesis using tx_inv_butD(1) [OF assms(1), of k] assms(2) True
      by (simp add: tid_inv_def session_inv_def set_addba_timer_def upd_defs)
  next
    case False
    then show ?thesis using tx_inv_butD(1) [OF assms(1), of j] assms(3)
      by (simp add: set_addba_timer_def upd_defs)
  qed
  moreover have "links_ok {} (set_addba_timer k tm s)" "no_stall {} (set_addba_timer k tm s)"
      "limits_ok (set_addba_timer k tm s)"
    using assms(1)
    by (auto simp: tx_inv_but_def links_ok_def no_stall_def limits_ok_def set_addba_timer_def upd_defs)
  ultimately show ?thesis by (simp add: tx_inv_but_def)
qed

lemma addba_expire_ok:
  assumes "tx_inv (waits hs ws) s" "addba_expire k True (hs, ws, s) = (hs', ws', s')"
  shows "tx_inv (waits hs' ws') s'"
proof (cases "k \<in> set hs")
  case True
  then show ?thesis using assms by (simp add: addba_expire_def)
next
  case False
  let ?t = "tids s k"
  have g: "addba_guard (waits hs ws k) (exchangeinprogress ?t) (addba_timer ?t)"
    using tx_inv_butD(1) [OF assms(1), of k] by (simp add: tid_inv_def session_inv_def)
  obtain go tm where e: "timer_expires (addba_timer ?t) = (go, tm)" by fastforce
  show ?thesis
  proof (cases go)
    case True
    have "addba_guard (True, True) (exchangeinprogress ?t) tm"
      using g e True by (auto simp: addba_guard_def timer_expires_def handler_enter_def cmpxchg_lock_def
          os_timer_ex_active_def split: if_splits)
    moreover have "tx_inv (waits hs ws) (log_tx (AddWorkitem k) s)"
      by (rule same_path_inv [OF same_path_log assms(1)])
    moreover have "tids (log_tx (AddWorkitem k) s) = tids s" by (simp add: log_tx_def)
    ultimately have "tx_inv (waits (k # hs) (ws @ [k])) (set_addba_timer k tm (log_tx (AddWorkitem k) s))"
      by (intro tx_inv_timer [of "waits hs ws"]) (simp_all add: waits_def)
    then show ?thesis using assms(2) e False True
      by (auto simp: addba_expire_def drv_addba_timer_def)
  next
    case go: False
    have "addba_guard (waits hs ws k) (exchangeinprogress ?t) tm"
      using g e go False by (auto simp: addba_guard_def timer_expires_def handler_enter_def cmpxchg_lock_def
          os_timer_ex_active_def waits_def split: if_splits)
    then have "tx_inv (waits hs ws) (set_addba_timer k tm s)" by (intro tx_inv_timer [OF assms(1)]) simp_all
    then show ?thesis using assms(2) e False go by (auto simp: addba_expire_def)
  qed
qed

lemma addba_timer_end_ok:
  assumes "tx_inv (waits hs ws) s" "addba_timer_end k (hs, ws, s) = (hs', ws', s')"
  shows "tx_inv (waits hs' ws') s'"
proof (cases "k \<in> set hs")
  case True
  have "addba_guard (waits hs ws k) (exchangeinprogress (tids s k)) (addba_timer (tids s k))"
    using tx_inv_butD(1) [OF assms(1), of k] by (simp add: tid_inv_def session_inv_def)
  then have "addba_guard (waits (removeAll k hs) ws k) (exchangeinprogress (tids s k))
      (handler_leave OS_TIMER_NOT_REARMED (addba_timer (tids s k)))"
    by (auto simp: addba_guard_def leave_fields waits_def os_timer_ex_active_def)
  then have "tx_inv (waits (removeAll k hs) ws)
      (set_addba_timer k (handler_leave OS_TIMER_NOT_REARMED (addba_timer (tids s k))) s)"
    by (intro tx_inv_timer [OF assms(1)]) (simp_all add: waits_def)
  then show ?thesis using assms(2) True by (auto simp: addba_timer_end_def)
next
  case False
  then show ?thesis using assms by (simp add: addba_timer_end_def)
qed

lemma work_item_ok:
  assumes "tx_inv (waits hs (k # ws)) s"
  shows "\<exists>s'. drv_addba_timer_ex E k s = Some s' \<and> tx_inv (waits hs ws) s'"
proof -
  obtain s' where s': "drv_addba_timer_ex E k s = Some s'" "tx_inv (waits hs (k # ws)) s'"
    using addba_timer_ex_ok [OF assms] by blast
  have "\<not> exchangeinprogress (tids s' k)"
    using addba_timer_ex_effect [OF assms, of E k] s'(1) by (auto simp: one_tid_def exchange_over_def)
  then have "addba_guard (waits hs ws k) (exchangeinprogress (tids s' k)) (addba_timer (tids s' k))"
    using tx_inv_butD(1) [OF s'(2), of k] by (simp add: tid_inv_def session_inv_def addba_guard_def waits_def)
  then have "tx_inv (waits hs ws) (set_addba_timer k (addba_timer (tids s' k)) s')"
    by (intro tx_inv_timer [OF s'(2)]) (auto simp: waits_def)
  moreover have "set_addba_timer k (addba_timer (tids s' k)) s' = s'"
    by (simp add: set_addba_timer_def upd_defs)
  ultimately show ?thesis using s'(1) by simp
qed

lemma tx_do_ok:
  assumes "tx_inv (waits hs ws) s" "tx_op_valid x"
  shows "\<exists>hs' ws' s'. tx_do E x (hs, ws, s) = Some (hs', ws', s') \<and> tx_inv (waits hs' ws') s'"
proof (cases x)
  case (Send k d)
  from send_ampdu_ok [OF assms(1) refl] show ?thesis using Send by fastforce
next
  case (Irq q d ok)
  from irq_tasklet_ok [OF assms(1)] show ?thesis using Irq by fastforce
next
  case (Expire k room)
  then show ?thesis using addba_expire_ok [OF assms(1)] assms(2)
    by (cases "addba_expire k True (hs, ws, s)") fastforce
next
  case (TimerEnd k)
  then show ?thesis using addba_timer_end_ok [OF assms(1)]
    by (cases "addba_timer_end k (hs, ws, s)") fastforce
next
  case WorkItem
  then show ?thesis using work_item_ok assms(1) by (cases ws) fastforce+
next
  case (Request k n)
  from addba_request_ok [OF assms(1)] show ?thesis using Request by fastforce
next
  case (Answer sta st ps)
  from addba_rsp_ok [OF assms(1)] show ?thesis using Answer assms(2) by fastforce
next
  case (Del k)
  from txampdu_del_ok [OF assms(1)] show ?thesis using Del by fastforce
next
  case (Task q)
  from txlist_task_ok [OF assms(1)] show ?thesis using Task by fastforce
next
  case Tasklet
  from txampdu_tasklet_ok [OF assms(1)] show ?thesis using Tasklet by fastforce
qed

lemma tx_run_ok:
  "tx_inv (waits hs ws) s \<Longrightarrow> list_all tx_op_valid xs \<Longrightarrow>
     \<exists>hs' ws' s'. tx_run E xs (hs, ws, s) = Some (hs', ws', s') \<and> tx_inv (waits hs' ws') s'"
proof (induction xs arbitrary: hs ws s)
  case (Cons x xs)
  then obtain hs1 ws1 s1 where "tx_do E x (hs, ws, s) = Some (hs1, ws1, s1)" "tx_inv (waits hs1 ws1) s1"
    using tx_do_ok [of hs ws s x E] by auto
  then show ?case using Cons by simp
qed simp

end
