(* ===== verification/TxCorrect.thy ===== *)
theory TxCorrect
  imports TxInv
begin

text \<open>
  The properties of the transmit path, with a concrete initial state that shows their hypotheses
  to hold.
\<close>

declare split_paired_All [simp del] split_paired_Ex [simp del]

section \<open>An initial state\<close>

definition idle_tid :: "tidkey \<Rightarrow> drv_tx_scoreboard" where
  "idle_tid k = init_tid (fst k) 0 (snd k)
    \<lparr>t_vid = 0, t_index = 0, t_baw_size = 0, t_b_work = False, t_paused = 0, t_seq_start = 0,
     t_seq_next = 0, t_baw_sn_last = 0, t_baw_head = 0, t_baw_tail = 0, t_desc = replicate 128 None,
     txds_queue = [], t_ac = None, addba_timer = os_timer_ex_initialize 0,
     cleanup_inprogress = False, exchangeinprogress = False, exchangeattempts = 0,
     exchangecomplete = False, tid_amsdusupported = 0, exchangestatuscode = 0,
     tid_tx_buff_sending = False\<rparr>"

definition idle_list :: "nat \<Rightarrow> drv_txlist" where
  "idle_list q = \<lparr>txlist_qnum = q, txlist_q = [], txlist_qcnt = 0, txds_pending_cnt = 0,
     txlist_acq = [], txlist_backup = [], txlist_backup_qcnt = 0, tx_aggr_status = replicate 16 0\<rparr>"

definition idle_sta :: drv_sta where
  "idle_sta = \<lparr>sta_vif = 0, vm_connected = True, maxampdu = 32768, mpdudensity = 0,
     minstrel_sample_rate = zero_rates, sta_isuapsd = False, sta_uapsd_queue = [],
     sta_uapsd_queuecnt = 0, uapsd_sp = False, uapsd_wait_noa_end = False,
     uapsd_flush_wait_noa_end = False\<rparr>"

definition tx_idle :: drv_tx_priv where
  "tx_idle = \<lparr>tids = idle_tid, acs = (\<lambda>a. \<lparr>ac_b_work = False, ac_queue_id = snd a, ac_tids = []\<rparr>),
     txlists = idle_list, stas = (\<lambda>_. idle_sta), hal_free = (\<lambda>_. 80), normal_buffer = (\<lambda>_. []),
     normal_count = (\<lambda>_. 0), retransmit_queue = [], vm_ps_sta = (\<lambda>_. 0),
     vm_mqueue_flag_send = (\<lambda>_. False), drv_pkt_drop = (\<lambda>_. False), drv_txqueue_map = 0xff,
     is_mother_channel = (\<lambda>_. True), wait_mpdu_timeout = False, drv_agg_limit = 16,
     wm_zgb_exist_flag = False, cfg_txaggr = True, cfg_txamsdu = False, cfg_ampdu_subframes = 16,
     cfg_ampdu_limit = 32768, cfg_ampdu_oneframe = True, cfg_ampduackpolicy = 0xff,
     tx_total_bytes = 0, tx_pkts_cnt = 0, tx_normal_cnt = 0, tx_ampdu_cnt = 0,
     tx_ampdu_one_frame_cnt = 0, tx_end_ampdu_cnt = 0, tx_end_normal_cnt = 0, tx_end_fail_cnt = 0,
     tx_log = []\<rparr>"

definition mcs7 :: aml_ratecontrol where
  "mcs7 = \<lparr>rate_index = 7, vendor_rate_code = 0x87, trynum = 4, rc_bw = 0, rc_flags = 0,
     maxampdulen = 32768\<rparr>"

definition data_frame :: "nat \<Rightarrow> int \<Rightarrow> txdesc" where
  "data_frame i seq = \<lparr>td_id = i, td_vif = 0, td_queue = 0, td_tid = 0, td_seqnum = seq,
     td_packetlen = 1500, td_mpdulen = 1496, b_Ampdu = True, b_aggr = False, b_11n = False,
     b_noack = False, b_amsdu = False, b_nulldata = False, b_probereq = False, b_datapkt = True,
     b_tcp = False, b_pwr_sav = False, qos_eosp = False, more_data = True, ack_policy_ba = False,
     txdesc_pktnum = 1, txdesc_agglen = 1500, txdesc_delimit = 0, txdesc_aggr_page_num = 1,
     txdesc_chanbw = 0, txdesc_rateinfo = replicate 4 mcs7, rate_valid = 1, txdesc_sta = Some 0,
     cb_sta = Some 0, pkt_position = False\<rparr>"

definition plain_env :: tx_env where
  "plain_env = \<lparr>calc_mpdu_page = (\<lambda>n. n div 256 + 1), rate_findrate = (\<lambda>r _ _. Some r),
     max_send_packet_len = (\<lambda>_. 65535), noa_started = (\<lambda>_. False)\<rparr>"

definition ba_answer :: "int \<Rightarrow> wifi_mac_ba_parameterset" where
  "ba_answer n = \<lparr>amsdusupported = 0, bapolicy = 1, ba_tid = 0, buffersize = n\<rparr>"

lemma idle_win_inv: "tx_win_inv (idle_tid k)"
  by (simp add: idle_tid_def init_tid_def tx_win_inv_def tx_ring_wf_def tx_span_def tx_ring_def)

lemma tx_idle_inv: "tx_inv N tx_idle"
proof -
  have "tid_inv n (idle_tid k)" for n k
    using idle_win_inv [of k]
    by (simp add: tid_inv_def session_inv_def idle_tid_def init_tid_def os_timer_ex_active_def
        os_timer_ex_initialize_def addba_guard_def)
  then show ?thesis
    by (simp add: tx_inv_but_def tx_idle_def links_ok_def no_stall_def limits_ok_def idle_list_def)
      (simp add: idle_tid_def init_tid_def)
qed

section \<open>The transmit path as a whole\<close>








definition end_state :: "tx_op list \<Rightarrow> drv_tx_priv" where
  "end_state xs = snd (snd (the (tx_run plain_env xs ([], [], tx_idle))))"

lemma end_state_inv:
  assumes "list_all tx_op_valid xs"
  shows "\<exists>hs ws. tx_run plain_env xs ([], [], tx_idle) = Some (hs, ws, end_state xs) \<and>
    tx_inv (waits hs ws) (end_state xs)"
  using tx_run_ok [OF tx_idle_inv assms, where E = plain_env and hs = "[]" and ws = "[]"] by (auto simp: end_state_def)

definition tx_waiting :: drv_tx_priv where
  "tx_waiting = end_state [Request (0, 0) 64, Send (0, 0) (data_frame 1 0)]"

lemma tx_waiting_inv: "tx_inv (waits [] []) tx_waiting" "exchangeinprogress (tids tx_waiting (0, 0))"
proof -
  let ?xs = "[Request (0, 0) 64, Send (0, 0) (data_frame 1 0)]"
  have "map_option (\<lambda>(hs, ws, s). (hs, ws)) (tx_run plain_env ?xs ([], [], tx_idle)) = Some ([], [])"
    by code_simp
  moreover have "list_all tx_op_valid ?xs" by simp
  ultimately show "tx_inv (waits [] []) tx_waiting" using end_state_inv [of ?xs] by (auto simp: tx_waiting_def)
  show "exchangeinprogress (tids tx_waiting (0, 0))" by code_simp
qed



section \<open>Aggregates and the window\<close>

text \<open>C10: an aggregate that drv_txampdu_build forms is taken from the front of the queue without
  reordering; it has no more frames than half the window, the configured subframes and the
  aggregation limit (one, when a Zigbee device is near), every frame is inside the block-ack
  window, its first frame carries the number of frames, and when there are several their length
  with delimiters and padding is within the limit of the rate.\<close>
theorem txampdu_build_within_limits:
  assumes "tx_win_inv (tids s k)" "drv_txampdu_build E q k s = (st, tq, s')"
  shows "queue_ids tq @ queue_ids (txds_queue (tids s' k)) = queue_ids (txds_queue (tids s k)) \<and>
    tx_win_inv (tids s' k) \<and> (tq = [] \<or> aggregate_ok E k s tq)"
  using txampdu_build_spec [OF assms] by blast

definition tx_open :: drv_tx_priv where
  "tx_open = upd_tid (0, 0) (\<lambda>t. t\<lparr>exchangecomplete := True, t_baw_size := 64,
     txds_queue := [data_frame 1 0, data_frame 2 1, data_frame 3 2]\<rparr>)
     (upd_list 0 (\<lambda>l. l\<lparr>txds_pending_cnt := 3\<rparr>) (tx_idle\<lparr>wait_mpdu_timeout := True, hal_free := (\<lambda>_. 60)\<rparr>))"

lemma tx_open_win: "tx_win_inv (tids tx_open (0, 0))"
proof -
  have "tx_win_inv ((idle_tid (0, 0))\<lparr>t_baw_size := 64\<rparr>)"
    by (intro tx_win_inv_size idle_win_inv) simp_all
  then show ?thesis
    by (subst tx_win_inv_fields [of _ "(idle_tid (0, 0))\<lparr>t_baw_size := 64\<rparr>"])
      (simp_all add: tx_open_def upd_defs tx_idle_def)
qed

lemma tx_open_build:
  "map td_id (fst (snd (drv_txampdu_build plain_env 0 (0, 0) tx_open))) = [1, 2, 3]"
  by code_simp

lemma txampdu_build_within_limits_witness:
  "case drv_txampdu_build plain_env 0 (0, 0) tx_open of (st, tq, s') \<Rightarrow>
     queue_ids tq @ queue_ids (txds_queue (tids s' (0, 0))) = queue_ids (txds_queue (tids tx_open (0, 0))) \<and>
     tx_win_inv (tids s' (0, 0)) \<and> tq \<noteq> [] \<and> aggregate_ok plain_env (0, 0) tx_open tq"
proof -
  obtain st tq s' where b: "drv_txampdu_build plain_env 0 (0, 0) tx_open = (st, tq, s')"
    by (metis prod_cases3)
  then have "tq \<noteq> []" using tx_open_build by auto
  then show ?thesis using txampdu_build_within_limits [OF tx_open_win b] b by simp
qed

text \<open>C11: the loop of drv_tx_sched_aggr ends, trips neither its KASSERT nor the bounds of
  the tx_aggr_status array, and hands frames to the hal strictly in the order of the queue: the frames
  given to the hal followed by those still queued are the same sequence before and after.\<close>
theorem sched_aggr_ends_in_order:
  assumes "tx_win_inv (tids s k)" "length (tx_aggr_status (txlists s q)) = 16"
    "cfg_ampdu_subframes s \<le> 16"
  shows "\<exists>s'. drv_tx_sched_aggr E q k s = Some s' \<and> tx_win_inv (tids s' k) \<and>
    queue_ids (txlist_q (txlists s' q)) @ queue_ids (txds_queue (tids s' k)) =
      queue_ids (txlist_q (txlists s q)) @ queue_ids (txds_queue (tids s k)) \<and>
    (\<forall>j. j \<noteq> k \<longrightarrow> tids s' j = tids s j)"
  using sched_aggr_ok [OF assms, of E] by (auto simp: pipeline_ids_def sched_frame_def)

lemma sched_aggr_ends_in_order_witness:
  "\<exists>s'. drv_tx_sched_aggr plain_env 0 (0, 0) tx_open = Some s' \<and> tx_win_inv (tids s' (0, 0)) \<and>
    queue_ids (txlist_q (txlists s' 0)) @ queue_ids (txds_queue (tids s' (0, 0))) =
      queue_ids (txlist_q (txlists tx_open 0)) @ queue_ids (txds_queue (tids tx_open (0, 0))) \<and>
    (\<forall>j. j \<noteq> (0, 0) \<longrightarrow> tids s' j = tids tx_open j)"
  by (rule sched_aggr_ends_in_order [OF tx_open_win])
    (simp_all add: tx_open_def upd_defs tx_idle_def idle_list_def)

text \<open>C12: the transmit ring implements the abstract window: drv_tx_add2baw of a frame inside the
  window enters its descriptor at its offset, and drv_tx_update_ba_win of an acknowledged frame
  returns, clears the frame's place, gives up the first frame when the window is nearly full, and
  moves the start over the leading free places; a number outside the window changes nothing.\<close>
theorem tx_ring_implements_window:
  assumes "tx_win_inv t"
  shows "(BAW_WITHIN (t_seq_start t) (t_baw_size t) (td_seqnum d) \<longrightarrow>
      tx_win_inv (drv_tx_add2baw d t) \<and>
      tx_abs (drv_tx_add2baw d t) =
        tw_add (nat ((td_seqnum d - t_seq_start t) mod 4096)) (td_id d) (tx_abs t)) \<and>
    (\<exists>t' cnt'. drv_tx_update_ba_win sub seqnum t cnt = Some (t', cnt') \<and> tx_win_inv t' \<and>
      tx_abs t' = (if (seqnum - t_seq_start t) mod 4096 > t_baw_size t then tx_abs t
                   else tw_complete (t_baw_size t) sub (nat ((seqnum - t_seq_start t) mod 4096)) (tx_abs t)))"
  using add2baw_abs [OF assms, of d] update_ba_win_abs [OF assms, of sub seqnum cnt]
  by (auto simp: DRV_BA_INDEX_mod)

lemma tx_ring_implements_window_witness:
  "(BAW_WITHIN (t_seq_start (idle_tid (0, 0))) (t_baw_size (idle_tid (0, 0))) 5 \<and>
      tx_win_inv (drv_tx_add2baw (data_frame 9 5) (idle_tid (0, 0)))) \<and>
   (\<exists>t' cnt'. drv_tx_update_ba_win 16 5 (idle_tid (0, 0)) 0 = Some (t', cnt') \<and> tx_win_inv t')"
proof -
  have "BAW_WITHIN (t_seq_start (idle_tid (0, 0))) (t_baw_size (idle_tid (0, 0))) 5"
    by (simp add: BAW_WITHIN_mod idle_tid_def init_tid_def)
  moreover have "td_seqnum (data_frame 9 5) = 5" by (simp add: data_frame_def)
  ultimately show ?thesis
    using tx_ring_implements_window [OF idle_win_inv, of "(0, 0)" "data_frame 9 5" 16 5 0] by auto
qed

text \<open>an answer that asks for a window of 0 or 1 frames, or of 256, 512 or 768 (whose size is
  stored in 8 bits), opens a session in which nothing is ever sent: scheduling such a traffic
  class leaves its queue and the hal as they are.\<close>
theorem small_window_never_sends:
  assumes "tx_win_inv (tids s k)" "t_baw_size (tids s k) \<le> 1"
  shows "\<exists>s'. drv_tx_sched_aggr E q k s = Some s' \<and>
    queue_ids (txds_queue (tids s' k)) = queue_ids (txds_queue (tids s k)) \<and>
    txlist_q (txlists s' q) = txlist_q (txlists s q) \<and> hal_free s' = hal_free s"
proof -
  obtain stop w where w: "sched_wait q s = (stop, w)" by (metis surj_pair)
  then have weq: "w = s \<or> w = s\<lparr>wait_mpdu_timeout := False\<rparr>" using sched_wait_eq [of q s] by simp
  obtain st tq u where b: "drv_txampdu_build E q k w = (st, tq, u)" by (metis prod_cases3)
  have win: "tx_win_inv (tids w k)" using weq assms(1) by auto
  note sp = txampdu_build_spec [OF win b]
  have "tq = []"
  proof (rule ccontr)
    assume "tq \<noteq> []"
    then have "int (length tq) \<le> t_baw_size (tids w k) div 2" using sp(4) by (simp add: aggregate_ok_def)
    then have "length tq = 0" using weq assms by (auto simp: tx_win_inv_def)
    with \<open>tq \<noteq> []\<close> show False by simp
  qed
  then have loop: "sched_loop E q k s = (if stop \<or> txds_queue (tids w k) = [] \<or>
      aml_tx_hal_buffer_full w (txlist_qnum (txlists w q)) (cfg_ampdu_subframes w) then Some w else Some u)"
    using b by (subst sched_loop.simps) (simp add: w)
  have "queue_ids (txds_queue (tids u k)) = queue_ids (txds_queue (tids s k)) \<and>
      txlist_q (txlists u q) = txlist_q (txlists s q) \<and> hal_free u = hal_free s"
    using sp(3) \<open>tq = []\<close> build_sched_frame(2,3) [OF sp(1,5)] weq by auto
  then show ?thesis using loop weq by (auto simp: drv_tx_sched_aggr_def)
qed

definition tx_small :: drv_tx_priv where
  "tx_small = upd_tid (0, 0) (\<lambda>t. t\<lparr>t_baw_size := u8_of 256\<rparr>) tx_open"

lemma small_window_never_sends_witness:
  "\<exists>s'. drv_tx_sched_aggr plain_env 0 (0, 0) tx_small = Some s' \<and>
    queue_ids (txds_queue (tids s' (0, 0))) = [1, 2, 3] \<and>
    txlist_q (txlists s' 0) = [] \<and> hal_free s' = hal_free tx_small"
proof -
  have e: "tids tx_small (0, 0) = (tids tx_open (0, 0))\<lparr>t_baw_size := 0\<rparr>"
    by (simp add: tx_small_def upd_defs u8_of_def)
  have "tx_win_inv (tids tx_small (0, 0))" unfolding e by (rule tx_win_inv_size [OF tx_open_win]) simp_all
  moreover have "t_baw_size (tids tx_small (0, 0)) \<le> 1" by (simp add: e)
  moreover have "queue_ids (txds_queue (tids tx_small (0, 0))) = [1, 2, 3]" "txlist_q (txlists tx_small 0) = []"
    by code_simp+
  ultimately show ?thesis using small_window_never_sends [of tx_small "(0, 0)" plain_env 0] by auto
qed

section \<open>The exchange and the session\<close>

text \<open>when an answer does not come, the timeout's work item ends the exchange: the frames held
  back leave the queue (sent without aggregation, or completed when the interface is down), the
  class is no longer paused, its timer is disarmed, and no other class is touched; with no exchange
  under way it only disarms the timer.\<close>
theorem addba_timeout_flushes:
  assumes "tx_inv N s"
  shows "\<exists>s'. drv_addba_timer_ex E k s = Some s' \<and> tx_inv N s' \<and>
    \<not> exchangeinprogress (tids s' k) \<and> \<not> os_timer_ex_active (addba_timer (tids s' k)) \<and>
    t_paused (tids s' k) = 0 \<and> exchangecomplete (tids s' k) = exchangecomplete (tids s k) \<and>
    txds_queue (tids s' k) = (if exchangeinprogress (tids s k) then [] else txds_queue (tids s k)) \<and>
    (\<forall>j. j \<noteq> k \<longrightarrow> tids s' j = tids s j)"
proof -
  obtain s' where s': "drv_addba_timer_ex E k s = Some s'" "tx_inv N s'" using addba_timer_ex_ok [OF assms] by blast
  have ti: "session_inv (N k) (tids s k)" using tx_inv_butD(1) [OF assms, of k] by (simp add: tid_inv_def)
  have tm: "\<not> os_timer_ex_active (timer_cancel (addba_timer (tids s k)))"
    by (simp add: cancel_fields os_timer_ex_active_def)
  obtain u where u: "drv_addba_timer_ex E k s = Some u"
    "one_tid k (if exchangeinprogress (tids s k)
               then (exchange_over (tids s k))\<lparr>tid_tx_buff_sending := False\<rparr>
               else (tids s k)\<lparr>addba_timer := timer_cancel (addba_timer (tids s k))\<rparr>) s u"
    using addba_timer_ex_effect [OF assms] by blast
  then show ?thesis using s' tm ti by (auto simp: one_tid_def exchange_over_def session_inv_def)
qed

lemma addba_timeout_flushes_witness:
  "\<exists>s'. drv_addba_timer_ex plain_env (0, 0) tx_waiting = Some s' \<and> tx_inv (waits [] []) s' \<and>
     txds_queue (tids s' (0, 0)) = [] \<and> t_paused (tids s' (0, 0)) = 0"
  using addba_timeout_flushes [OF tx_waiting_inv(1), of plain_env "(0, 0)"] tx_waiting_inv(2) by auto

text \<open>C13: an answer ends the exchange it was waited for.  Success opens the session with the window
  asked for, modulo 256; any other status leaves it closed, and its frames leave the queue
  unaggregated.  An answer nobody waits for opens a session all the same.\<close>
theorem addba_answer_effect:
  assumes "tx_inv N s" "rsp_valid status ps" "ba_tid ps < 8"
  shows "\<exists>s'. drv_addba_rsp_process E sta status ps s = Some s' \<and> tx_inv N s' \<and>
    (let t = tids s (sta, nat (ba_tid ps)); t' = tids s' (sta, nat (ba_tid ps)) in
       \<not> exchangeinprogress t' \<and> t_paused t' = 0 \<and>
       (status = 0 \<longrightarrow> exchangecomplete t' \<and> t_baw_size t' = buffersize ps mod 256) \<and>
       (status \<noteq> 0 \<longrightarrow> exchangecomplete t' = exchangecomplete t \<and>
          (exchangeinprogress t \<longrightarrow> txds_queue t' = [])))"
  using addba_rsp_ok [OF assms(1,2), of E sta] assms(3) by (simp add: answered_def Let_def)

lemma addba_answer_effect_witness:
  "\<exists>s'. drv_addba_rsp_process plain_env 0 0 (ba_answer 64) tx_waiting = Some s' \<and> tx_inv (waits [] []) s' \<and>
     exchangecomplete (tids s' (0, 0)) \<and> t_baw_size (tids s' (0, 0)) = 64"
proof -
  have "rsp_valid 0 (ba_answer 64)" "ba_tid (ba_answer 64) < 8" "nat (ba_tid (ba_answer 64)) = 0"
    "buffersize (ba_answer 64) mod 256 = 64"
    by (simp_all add: rsp_valid_def ba_answer_def u8_of_def)
  then show ?thesis using addba_answer_effect [OF tx_waiting_inv(1), of 0 "ba_answer 64" plain_env 0]
    by (auto simp: Let_def)
qed

text \<open>ending a session empties the queue of its class; with no frame under way the session is
  closed at once, else it closes when the completion of the frames under way has emptied the
  window, and until then no new exchange is allowed.\<close>
theorem txampdu_del_closes:
  assumes "tx_inv N s" "exchangecomplete (tids s k)" "\<not> cleanup_inprogress (tids s k)"
  shows "\<exists>s'. drv_txampdu_del E k s = Some s' \<and> tx_inv N s' \<and> txds_queue (tids s' k) = [] \<and>
    (if tw_slots (tx_abs (tids s k)) = [] then \<not> exchangecomplete (tids s' k)
     else cleanup_inprogress (tids s' k) \<and> \<not> fst (drv_aggr_check k s'))"
proof -
  obtain s' where s': "drv_txampdu_del E k s = Some s'" "one_tid k (del_tid (tids s k)) s s'"
    using txampdu_del_effect [OF assms] by blast
  have "tx_inv N s'" using txampdu_del_ok [OF assms(1), of E k] s'(1) by auto
  moreover have "tx_ring_wf (tids s k)" using tx_inv_butD(1) [OF assms(1), of k]
    by (simp add: tid_inv_def tx_win_inv_def)
  then have "tw_slots (tx_abs (tids s k)) = [] \<longleftrightarrow> t_baw_head (tids s k) = t_baw_tail (tids s k)"
    using length_tx_abs [of "tids s k"] tx_span_zero [of "tids s k"]
    by (metis length_0_conv of_nat_eq_0_iff)
  ultimately show ?thesis using s' by (auto simp: one_tid_def del_tid_def drv_aggr_check_def Let_def)
qed

definition tx_session :: drv_tx_priv where
  "tx_session = end_state [Request (0, 0) 64, Answer 0 0 (ba_answer 64)]"

lemma tx_session_inv: "tx_inv (waits [] []) tx_session" "exchangecomplete (tids tx_session (0, 0))"
  "\<not> cleanup_inprogress (tids tx_session (0, 0))" "tw_slots (tx_abs (tids tx_session (0, 0))) = []"
proof -
  let ?xs = "[Request (0, 0) 64, Answer 0 0 (ba_answer 64)]"
  have "map_option (\<lambda>(hs, ws, s). (hs, ws)) (tx_run plain_env ?xs ([], [], tx_idle)) = Some ([], [])"
    by code_simp
  moreover have "list_all tx_op_valid ?xs" by (simp add: rsp_valid_def ba_answer_def u8_of_def)
  ultimately show "tx_inv (waits [] []) tx_session" using end_state_inv [of ?xs] by (auto simp: tx_session_def)
  show "exchangecomplete (tids tx_session (0, 0))" "\<not> cleanup_inprogress (tids tx_session (0, 0))"
    "tw_slots (tx_abs (tids tx_session (0, 0))) = []" by code_simp+
qed

lemma txampdu_del_closes_witness:
  "\<exists>s'. drv_txampdu_del plain_env (0, 0) tx_session = Some s' \<and> tx_inv (waits [] []) s' \<and>
     txds_queue (tids s' (0, 0)) = [] \<and> \<not> exchangecomplete (tids s' (0, 0))"
  using txampdu_del_closes [OF tx_session_inv(1-3), of plain_env] tx_session_inv(4) by auto

section \<open>Service periods of a sleeping station\<close>

lemma to_hal_one:
  assumes "\<not> aml_tx_hal_buffer_full s (txlist_qnum (txlists s q)) 1" "txdesc_pktnum d = 1"
  shows "\<exists>s'. drv_to_hal q [d] s = (0, [], s') \<and> stas s' = stas s \<and>
    txlist_q (txlists s' q) = txlist_q (txlists s q) @ [hal_rates d d] \<and>
    txlist_qnum (txlists s' q) = txlist_qnum (txlists s q) \<and>
    hal_free s' = (hal_free s)(txlist_qnum (txlists s q) := hal_free s (txlist_qnum (txlists s q)) - 1)"
  using assms by (simp add: drv_to_hal_def Let_def set_list_def log_tx_def)

lemma hal_full_less: "aml_tx_hal_buffer_full s n need \<longleftrightarrow> (if hal_free s n \<ge> 2 then hal_free s n - 1 else 0) < need"
  by (auto simp: aml_tx_hal_buffer_full_def)

text \<open>The frames of a service period: the frames taken, the last of them, and only it, marked as its
  end.\<close>

definition period_ok :: "nat \<Rightarrow> txdesc list \<Rightarrow> txdesc list \<Rightarrow> bool" where
  "period_ok m q sent \<longleftrightarrow> length sent = m \<and> queue_ids sent = queue_ids (take m q) \<and>
     qos_eosp (last sent) \<and> (\<forall>d\<in>set (butlast sent). \<not> qos_eosp d) \<and>
     (\<forall>i<m. more_data (sent ! i) \<longleftrightarrow> more_data (q ! i) \<and> Suc i < length q)"

lemma uapsd_loop_period:
  assumes "sta_uapsd_queue (stas s n) = q" "Suc c \<le> length q"
    "\<forall>d\<in>set q. \<not> noa_started E d \<and> txdesc_pktnum d = 1 \<and> \<not> qos_eosp d"
    "\<not> aml_tx_hal_buffer_full s (txlist_qnum (txlists s 6)) 1"
    "sta_uapsd_queuecnt (stas s n) = int (length q)"
  shows "\<exists>m sent s'. uapsd_loop E n False (Suc c) False [] s = s' \<and> 1 \<le> m \<and> m \<le> Suc c \<and>
    txlist_q (txlists s' 6) = txlist_q (txlists s 6) @ sent \<and> period_ok m q sent \<and>
    sta_uapsd_queue (stas s' n) = drop m q \<and>
    sta_uapsd_queuecnt (stas s' n) = sta_uapsd_queuecnt (stas s n) - int m"
  using assms
proof (induction c arbitrary: s q)
  case (0 s q)
  then obtain d ds where q: "q = d # ds" by (cases q) auto
  define u where "u = set_uapsd n (ds, sta_uapsd_queuecnt (stas s n) - 1) s"
  define d1 where "d1 = uapsd_mark True (drv_tx_uapsd_nsta_qcnt n u = 0) d"
  have d1: "txdesc_pktnum d1 = 1" "td_id d1 = td_id d" "qos_eosp d1"
    "more_data d1 \<longleftrightarrow> more_data d \<and> Suc 0 < length q"
    using 0 q by (auto simp: d1_def uapsd_mark_def Let_def u_def set_uapsd_def upd_sta_def
      drv_tx_uapsd_nsta_qcnt_def)
  have u: "txlists u = txlists s" "hal_free u = hal_free s"
    "sta_uapsd_queue (stas u n) = ds" "sta_uapsd_queuecnt (stas u n) = sta_uapsd_queuecnt (stas s n) - 1"
    by (simp_all add: u_def set_uapsd_def upd_sta_def)
  have "\<not> aml_tx_hal_buffer_full u (txlist_qnum (txlists u 6)) 1" using "0.prems"(4) u
    by (simp add: aml_tx_hal_buffer_full_def)
  from to_hal_one [OF this d1(1)] obtain v where v: "drv_to_hal 6 [d1] u = (0, [], v)" "stas v = stas u"
    "txlist_q (txlists v 6) = txlist_q (txlists u 6) @ [hal_rates d1 d1]" by blast
  have "uapsd_loop E n False (Suc 0) False [] s = v"
    using "0.prems"(1-4) q v(1) by (simp add: u_def [symmetric] d1_def [symmetric] Let_def)
  moreover have "period_ok 1 q [hal_rates d1 d1]" using d1 q
    by (simp add: period_ok_def) (simp add: hal_rates_def d1)
  ultimately show ?case using u v q by (intro exI [of _ "1::nat"] exI [of _ "[hal_rates d1 d1]"]) simp
next
  case (Suc c s q)
  then obtain d ds where q: "q = d # ds" by (cases q) auto
  define u where "u = set_uapsd n (ds, sta_uapsd_queuecnt (stas s n) - 1) s"
  define eosp where "eosp = aml_tx_hal_buffer_full u (txlist_qnum (txlists u 6)) 3"
  define d1 where "d1 = uapsd_mark eosp (drv_tx_uapsd_nsta_qcnt n u = 0) d"
  have d1: "txdesc_pktnum d1 = 1" "td_id d1 = td_id d" "qos_eosp d1 = eosp"
    "more_data d1 \<longleftrightarrow> more_data d \<and> Suc 0 < length q"
    using Suc.prems q by (auto simp: d1_def uapsd_mark_def Let_def u_def set_uapsd_def upd_sta_def
      drv_tx_uapsd_nsta_qcnt_def)
  have u: "txlists u = txlists s" "hal_free u = hal_free s"
    "sta_uapsd_queue (stas u n) = ds" "sta_uapsd_queuecnt (stas u n) = sta_uapsd_queuecnt (stas s n) - 1"
    by (simp_all add: u_def set_uapsd_def upd_sta_def)
  have "\<not> aml_tx_hal_buffer_full u (txlist_qnum (txlists u 6)) 1" using Suc.prems(4) u
    by (simp add: aml_tx_hal_buffer_full_def)
  from to_hal_one [OF this d1(1)] obtain v where v: "drv_to_hal 6 [d1] u = (0, [], v)" "stas v = stas u"
    "txlist_q (txlists v 6) = txlist_q (txlists u 6) @ [hal_rates d1 d1]"
    "txlist_qnum (txlists v 6) = txlist_qnum (txlists u 6)"
    "hal_free v = (hal_free u)(txlist_qnum (txlists u 6) := hal_free u (txlist_qnum (txlists u 6)) - 1)"
    by blast
  have step: "uapsd_loop E n False (Suc (Suc c)) False [] s = uapsd_loop E n False (Suc c) eosp [] v"
    using Suc.prems(1-4) q v(1)
    by (simp add: u_def [symmetric] eosp_def [symmetric] d1_def [symmetric] Let_def
        del: uapsd_loop.simps(2) add: uapsd_loop.simps(2) [of E n False "Suc c" False "[]" s])
  show ?case
  proof (cases eosp)
    case True
    then have "uapsd_loop E n False (Suc (Suc c)) False [] s = v" using step by simp
    moreover have "period_ok 1 q [hal_rates d1 d1]" using d1 q True
      by (simp add: period_ok_def) (simp add: hal_rates_def d1)
    ultimately show ?thesis using u v q
      by (intro exI [of _ "1::nat"] exI [of _ "[hal_rates d1 d1]"]) simp
  next
    case False
    have "\<not> aml_tx_hal_buffer_full v (txlist_qnum (txlists v 6)) 1"
      using False v(4,5) by (simp add: eosp_def hal_full_less split: if_splits)
    moreover have "sta_uapsd_queue (stas v n) = ds" using u(3) v(2) by simp
    ultimately obtain m sent where ms: "1 \<le> m" "m \<le> Suc c"
      "txlist_q (txlists (uapsd_loop E n False (Suc c) False [] v) 6) = txlist_q (txlists v 6) @ sent"
      "period_ok m ds sent" "sta_uapsd_queue (stas (uapsd_loop E n False (Suc c) False [] v) n) = drop m ds"
      "sta_uapsd_queuecnt (stas (uapsd_loop E n False (Suc c) False [] v) n) =
         sta_uapsd_queuecnt (stas v n) - int m"
      using Suc.IH [of v ds] Suc.prems u v(2) q by auto
    have "sent \<noteq> []" using ms(1,4) by (auto simp: period_ok_def)
    moreover have "more_data (hal_rates d1 d1) \<longleftrightarrow> more_data d \<and> Suc 0 < length q"
      using d1(4) by (simp add: hal_rates_def)
    ultimately have "period_ok (Suc m) q (hal_rates d1 d1 # sent)" using ms(4) d1 q False
      by (simp add: period_ok_def All_less_Suc2) (simp add: hal_rates_def d1)
    then show ?thesis using step False ms u v q
      by (intro exI [of _ "Suc m"] exI [of _ "hal_rates d1 d1 # sent"]) simp
  qed
qed

text \<open>C14: where every descriptor of the queue holds one frame (txdesc_queue_last is then the descriptor
  itself) and no notice of absence has begun, a trigger frame of a station in U-APSD power save starts
  a service period: between one frame and the number the trigger allows go to the hal in the order of the station's queue, the
  last of them carries the end-of-service-period bit and no other does, the more-data bit is cleared
  on a frame that empties the queue and kept on the others, and the count of the queue follows.\<close>
theorem uapsd_trigger_serves_period:
  assumes "sta_isuapsd (stas s n)" "sta_uapsd_queue (stas s n) = q"
    "sta_uapsd_queuecnt (stas s n) = int (length q)" "q \<noteq> []" "length q < 256"
    "\<forall>d\<in>set q. \<not> noa_started E d \<and> txdesc_pktnum d = 1 \<and> \<not> qos_eosp d"
    "\<not> aml_tx_hal_buffer_full s (txlist_qnum (txlists s 6)) 1" "1 \<le> maxsp" "maxsp < 256"
  shows "\<exists>m sent s'. drv_process_uapsd_nsta_trigger E n maxsp ac False s = (int (length q) - int m, s') \<and>
    1 \<le> m \<and> (maxsp = 8 \<or> int m \<le> maxsp) \<and>
    txlist_q (txlists s' 6) = txlist_q (txlists s 6) @ sent \<and> period_ok m q sent \<and>
    sta_uapsd_queue (stas s' n) = drop m q"
proof -
  define c where "c = nat (if maxsp = 8 then u8_of (int (length q))
     else if maxsp > int (length q) then u8_of (int (length q)) else u8_of maxsp)"
  have c: "1 \<le> c" "c \<le> length q" "maxsp = 8 \<or> int c \<le> maxsp"
    using assms(4,5,8,9) by (auto simp: c_def u8_of_def Suc_le_eq)
  then obtain c' where c': "c = Suc c'" by (cases c) auto
  obtain m sent where ms: "1 \<le> m" "m \<le> Suc c'"
    "txlist_q (txlists (uapsd_loop E n False (Suc c') False [] s) 6) = txlist_q (txlists s 6) @ sent"
    "period_ok m q sent" "sta_uapsd_queue (stas (uapsd_loop E n False (Suc c') False [] s) n) = drop m q"
    "sta_uapsd_queuecnt (stas (uapsd_loop E n False (Suc c') False [] s) n) = sta_uapsd_queuecnt (stas s n) - int m"
    using uapsd_loop_period [OF assms(2) _ assms(6,7,3), of c'] c(2) c' by auto
  have "drv_process_uapsd_nsta_trigger E n maxsp ac False s =
      (int (length q) - int m, uapsd_loop E n False (Suc c') False [] s)"
    using assms(1,3,4,7) ms(6)
    by (simp add: drv_process_uapsd_nsta_trigger_def drv_tx_uapsd_nsta_qcnt_def Let_def
        c_def [symmetric] c' del: uapsd_loop.simps)
  then show ?thesis using ms c(3) c' by (intro exI [of _ m] exI [of _ sent]) auto
qed

definition tx_dozing :: drv_tx_priv where
  "tx_dozing = upd_sta 0 (\<lambda>t. t\<lparr>sta_isuapsd := True, sta_uapsd_queuecnt := 3,
     sta_uapsd_queue := [data_frame 1 0, data_frame 2 1, data_frame 3 2]\<rparr>) tx_idle"

lemma uapsd_trigger_serves_period_witness:
  "\<exists>m sent s'. drv_process_uapsd_nsta_trigger plain_env 0 2 0 False tx_dozing = (3 - int m, s') \<and>
    1 \<le> m \<and> int m \<le> 2 \<and> period_ok m [data_frame 1 0, data_frame 2 1, data_frame 3 2] sent"
  using uapsd_trigger_serves_period [of tx_dozing 0 "[data_frame 1 0, data_frame 2 1, data_frame 3 2]"
      plain_env 2 0]
  by (force simp: tx_dozing_def upd_sta_def plain_env_def data_frame_def tx_idle_def idle_list_def
      hal_full_less)

end
