(* ===== verification/SharedFifo.thy ===== *)
theory SharedFifo
  imports Prelude
begin

text \<open>
  wifi_share_fifo.c: a pool of elements shared by a chain of blocks.  A block gets elements from
  the front of its share, works on them and puts them to the next block; the last block puts them
  back to the first, the producer.  Every block has two indices into the pool, one element of
  which is kept unused.  The first section is the code; the second the abstract view (for every
  block the elements it owns and those it is working on) and the invariant; the third the
  refinement, and the interface that the clients (the transmit queues of the hal and the work
  queue) rest on.  A pointer is an int; unsigned ints are ints with their wrap written out; None
  is an access outside \<^verbatim>\<open>IdxTab\<close>.
\<close>

section \<open>The code\<close>

record sf_block =
  sf_Flag :: int
  sf_In :: int
  sf_Out :: int

record shared_fifo =
  EltBasePhy :: int
  EltBasePtr :: int
  EltNbr :: int
  EltSize :: int
  BlockNbr :: nat
  IdxTab :: "sf_block list"

datatype co_status = CO_STATUS_OK | CO_NO_ELT_IN_USE | CO_IDX_OUT_OF_RANGE

definition sf_blk :: "shared_fifo \<Rightarrow> nat \<Rightarrow> sf_block option" where
  "sf_blk f b = (if b < length (IdxTab f) then Some (IdxTab f ! b) else None)"

definition set_blk :: "nat \<Rightarrow> sf_block \<Rightarrow> shared_fifo \<Rightarrow> shared_fifo" where
  "set_blk b B f = f\<lparr>IdxTab := (IdxTab f)[b := B]\<rparr>"

definition CO_SharedFifoInit :: "int \<Rightarrow> int \<Rightarrow> int \<Rightarrow> int \<Rightarrow> nat \<Rightarrow> shared_fifo \<Rightarrow> shared_fifo option" where
  "CO_SharedFifoInit phy base nbr esize n f =
    (if n \<le> length (IdxTab f) \<and> IdxTab f \<noteq> []
     then let tab = map (\<lambda>i. \<lparr>sf_Flag = 0, sf_In = 1, sf_Out = 1\<rparr>) [0..<n] @ drop n (IdxTab f)
          in Some (f\<lparr>EltBasePhy := phy, EltBasePtr := base, EltNbr := nbr, EltSize := esize,
                     BlockNbr := n, IdxTab := tab[0 := (tab ! 0)\<lparr>sf_In := 0\<rparr>]\<rparr>)
     else None)"

definition CO_SharedFifoGetPtr :: "shared_fifo \<Rightarrow> int \<Rightarrow> int" where
  "CO_SharedFifoGetPtr f idx = EltBasePtr f + u32_of (idx * EltSize f)"

definition CO_SharedFifoPick :: "shared_fifo \<Rightarrow> nat \<Rightarrow> int option" where
  "CO_SharedFifoPick f b = map_option (\<lambda>B. EltBasePtr f + u32_of (sf_Out B * EltSize f)) (sf_blk f b)"

definition CO_SharedFifoNbElt :: "shared_fifo \<Rightarrow> nat \<Rightarrow> int option" where
  "CO_SharedFifoNbElt f b =
    map_option (\<lambda>B. let n = u32_of (EltNbr f + sf_In B - sf_Out B)
                    in if n \<ge> EltNbr f then u32_of (n - EltNbr f) else n) (sf_blk f b)"

definition CO_SharedFifoNbEltCont_NonRound :: "shared_fifo \<Rightarrow> nat \<Rightarrow> int option" where
  "CO_SharedFifoNbEltCont_NonRound f b =
    map_option (\<lambda>B. if sf_In B \<ge> sf_Out B then u32_of (sf_In B - sf_Out B)
                    else u32_of (EltNbr f - sf_Out B)) (sf_blk f b)"

definition CO_SharedFifoNbEltCont :: "shared_fifo \<Rightarrow> nat \<Rightarrow> int option" where
  "CO_SharedFifoNbEltCont f b =
    map_option (\<lambda>B. if sf_In B \<ge> sf_Out B then u32_of (sf_In B - sf_Out B)
                    else u32_of (EltNbr f + (sf_In B - sf_Out B))) (sf_blk f b)"

definition CO_SharedFifoEmpty :: "shared_fifo \<Rightarrow> nat \<Rightarrow> bool option" where
  "CO_SharedFifoEmpty f b = map_option (\<lambda>B. sf_In B \<noteq> sf_Out B) (sf_blk f b)"

text \<open>Shifting an index by a number of elements.\<close>

definition shift_idx :: "shared_fifo \<Rightarrow> int \<Rightarrow> int \<Rightarrow> int" where
  "shift_idx f i n =
    (let tmp = u32_of (i + n) in if tmp \<ge> EltNbr f then u32_of (tmp - EltNbr f) else tmp)"

text \<open>Get returns the status, the pointer (None for NULL) and the FIFO.  The critical section of
  \<^verbatim>\<open>CO_SharedFifoGet\<close> around this function makes it one step.\<close>

definition CO_SharedFifoGet_NoCritSect ::
  "shared_fifo \<Rightarrow> nat \<Rightarrow> int \<Rightarrow> (co_status \<times> int option \<times> shared_fifo) option"
where
  "CO_SharedFifoGet_NoCritSect f b n = do {
     B \<leftarrow> sf_blk f b;
     owned \<leftarrow> CO_SharedFifoNbEltCont f b;
     Some (if n > owned then (CO_NO_ELT_IN_USE, None, f)
           else (CO_STATUS_OK, Some (CO_SharedFifoGetPtr f (sf_Out B)),
                 set_blk b (B\<lparr>sf_Out := shift_idx f (sf_Out B) n\<rparr>) f))
   }"

definition CO_SharedFifoGet ::
  "shared_fifo \<Rightarrow> nat \<Rightarrow> int \<Rightarrow> (co_status \<times> int option \<times> shared_fifo) option"
where
  "CO_SharedFifoGet f b n = CO_SharedFifoGet_NoCritSect f b n"

text \<open>The test before a get, with the caller's pointer as it was.\<close>

definition CO_SharedFifo_Pre_Get_NoCritSect ::
  "shared_fifo \<Rightarrow> nat \<Rightarrow> int \<Rightarrow> int option \<Rightarrow> (co_status \<times> int option) option"
where
  "CO_SharedFifo_Pre_Get_NoCritSect f b n ptr = do {
     B \<leftarrow> sf_blk f b;
     owned \<leftarrow> CO_SharedFifoNbEltCont f b;
     Some (if n > owned then (CO_NO_ELT_IN_USE, None)
           else if sf_Out B = 0 then (CO_IDX_OUT_OF_RANGE, ptr) else (CO_STATUS_OK, ptr))
   }"

definition CO_SharedFifo_Pre_Get ::
  "shared_fifo \<Rightarrow> nat \<Rightarrow> int \<Rightarrow> int option \<Rightarrow> (co_status \<times> int option) option"
where
  "CO_SharedFifo_Pre_Get f b n ptr = CO_SharedFifo_Pre_Get_NoCritSect f b n ptr"

text \<open>Getting without a test.\<close>

definition CO_SharedFifoGetNElt :: "shared_fifo \<Rightarrow> nat \<Rightarrow> int \<Rightarrow> (int \<times> shared_fifo) option" where
  "CO_SharedFifoGetNElt f b n = do {
     B \<leftarrow> sf_blk f b;
     Some (CO_SharedFifoGetPtr f (sf_Out B), set_blk b (B\<lparr>sf_Out := shift_idx f (sf_Out B) n\<rparr>) f)
   }"

definition sf_next :: "shared_fifo \<Rightarrow> nat \<Rightarrow> nat" where
  "sf_next f b = (let n = (b + 1) mod 256 in if n = BlockNbr f then 0 else n)"

definition CO_SharedFifoPut_NoCritSect :: "shared_fifo \<Rightarrow> nat \<Rightarrow> int \<Rightarrow> (co_status \<times> shared_fifo) option" where
  "CO_SharedFifoPut_NoCritSect f b n = do {
     B \<leftarrow> sf_blk f (sf_next f b);
     Some (CO_STATUS_OK, set_blk (sf_next f b) (B\<lparr>sf_In := shift_idx f (sf_In B) n\<rparr>) f)
   }"

definition CO_SharedFifoPut :: "shared_fifo \<Rightarrow> nat \<Rightarrow> int \<Rightarrow> (co_status \<times> shared_fifo) option" where
  "CO_SharedFifoPut f b n = CO_SharedFifoPut_NoCritSect f b n"

section \<open>The abstract view\<close>

text \<open>The pool from a slot on, in ring order.\<close>

definition slots :: "int \<Rightarrow> int \<Rightarrow> nat \<Rightarrow> int list" where
  "slots N i k = map (\<lambda>j. (i + int j) mod N) [0..<k]"

text \<open>The slots of a block: those it owns and may get, and those it got and has not put.  The unused
  slot is counted with the last block, in front of what that block works on.\<close>

definition n_avail :: "shared_fifo \<Rightarrow> nat \<Rightarrow> nat" where
  "n_avail f b = nat ((sf_In (IdxTab f ! b) - sf_Out (IdxTab f ! b)) mod EltNbr f)"

definition n_held :: "shared_fifo \<Rightarrow> nat \<Rightarrow> nat" where
  "n_held f b =
    (if Suc b = BlockNbr f
     then Suc (nat ((sf_Out (IdxTab f ! b) - sf_In (IdxTab f ! 0) - 1) mod EltNbr f))
     else nat ((sf_Out (IdxTab f ! b) - sf_In (IdxTab f ! Suc b)) mod EltNbr f))"

definition fifo_avail :: "shared_fifo \<Rightarrow> nat \<Rightarrow> int list" where
  "fifo_avail f b = (if b < BlockNbr f then slots (EltNbr f) (sf_Out (IdxTab f ! b)) (n_avail f b) else [])"

definition fifo_held :: "shared_fifo \<Rightarrow> nat \<Rightarrow> int list" where
  "fifo_held f b =
    (if b < BlockNbr f
     then slots (EltNbr f) (sf_In (IdxTab f ! (if Suc b = BlockNbr f then 0 else Suc b))) (n_held f b)
     else [])"

definition fifo_inv :: "shared_fifo \<Rightarrow> bool" where
  "fifo_inv f \<longleftrightarrow> 2 \<le> BlockNbr f \<and> BlockNbr f \<le> 4 \<and> length (IdxTab f) = 4 \<and>
     2 \<le> EltNbr f \<and> EltNbr f \<le> 2 ^ 31 \<and> 0 < EltSize f \<and> EltNbr f * EltSize f < 2 ^ 32 \<and>
     (\<forall>b<BlockNbr f. 0 \<le> sf_In (IdxTab f ! b) \<and> sf_In (IdxTab f ! b) < EltNbr f \<and>
        0 \<le> sf_Out (IdxTab f ! b) \<and> sf_Out (IdxTab f ! b) < EltNbr f) \<and>
     (\<Sum>b<BlockNbr f. n_avail f b + n_held f b) = nat (EltNbr f)"

section \<open>Slots of a ring\<close>

lemma length_slots [simp]: "length (slots N i k) = k"
  by (simp add: slots_def)

lemma slots_0 [simp]: "slots N i 0 = []"
  by (simp add: slots_def)

lemma slots_mod [simp]: "slots N (i mod N) k = slots N i k"
  by (simp add: slots_def mod_simps)

lemma slots_append: "slots N i (k + l) = slots N i k @ slots N (i + int k) l"
  by (rule nth_equalityI) (auto simp: slots_def nth_append algebra_simps)

lemma slots_split: "n \<le> k \<Longrightarrow> slots N i k = slots N i n @ slots N (i + int n) (k - n)"
  using slots_append [of N i n "k - n"] by simp

lemma take_slots: "n \<le> k \<Longrightarrow> take n (slots N i k) = slots N i n"
  by (subst slots_split) auto

lemma drop_slots: "n \<le> k \<Longrightarrow> drop n (slots N i k) = slots N (i + int n) (k - n)"
  by (subst slots_split) auto

lemma set_slots_full:
  assumes "0 < N"
  shows "set (slots N i (nat N)) = {0..<N}"
proof
  show "set (slots N i (nat N)) \<subseteq> {0..<N}" using assms by (auto simp: slots_def)
  show "{0..<N} \<subseteq> set (slots N i (nat N))"
  proof
    fix x assume x: "x \<in> {0..<N}"
    have "x = (i + int (nat ((x - i) mod N))) mod N"
      using x assms by (simp add: ring_arith)
    moreover have "nat ((x - i) mod N) < nat N" using assms by simp
    ultimately show "x \<in> set (slots N i (nat N))"
      unfolding slots_def set_map by (intro image_eqI [of _ _ "nat ((x - i) mod N)"]) auto
  qed
qed

lemma mod_add_small:
  assumes "0 \<le> n" "x mod N + n < N" "0 < (N::int)"
  shows "(x + n) mod N = x mod N + n"
proof -
  have "(x mod N + n) mod N = x mod N + n" using assms by (intro mod_pos_pos_trivial) auto
  then show ?thesis by (simp add: mod_simps)
qed

lemma mod_diff_two: "(x mod N - a - c) mod N = (x - a - c) mod (N::int)"
  unfolding diff_diff_eq by (rule mod_diff_left_eq)

lemma mod_sub_small:
  assumes "0 \<le> n" "n \<le> x mod N" "0 < (N::int)"
  shows "(x - n) mod N = x mod N - n"
proof -
  have "(x mod N - n) mod N = x mod N - n"
    using assms pos_mod_bound [OF assms(3), of x] by (intro mod_pos_pos_trivial) linarith+
  then show ?thesis by (simp add: mod_simps)
qed

section \<open>Counting\<close>

lemma fifo_invD:
  assumes "fifo_inv f"
  shows "2 \<le> BlockNbr f" "BlockNbr f \<le> 4" "length (IdxTab f) = 4" "2 \<le> EltNbr f" "EltNbr f \<le> 2 ^ 31"
    "0 < EltSize f" "EltNbr f * EltSize f < 2 ^ 32"
    "(\<Sum>b<BlockNbr f. n_avail f b + n_held f b) = nat (EltNbr f)"
  using assms by (auto simp: fifo_inv_def)

lemma fifo_inv_idx:
  assumes "fifo_inv f" "b < BlockNbr f"
  shows "0 \<le> sf_In (IdxTab f ! b)" "sf_In (IdxTab f ! b) < EltNbr f"
    "0 \<le> sf_Out (IdxTab f ! b)" "sf_Out (IdxTab f ! b) < EltNbr f"
    "sf_blk f b = Some (IdxTab f ! b)"
  using assms by (auto simp: fifo_inv_def sf_blk_def)

lemma length_avail [simp]: "b < BlockNbr f \<Longrightarrow> length (fifo_avail f b) = n_avail f b"
  by (simp add: fifo_avail_def)

lemma length_held [simp]: "b < BlockNbr f \<Longrightarrow> length (fifo_held f b) = n_held f b"
  by (simp add: fifo_held_def)

lemma sum_two_le:
  assumes "finite S" "i \<in> S" "j \<in> S" "i \<noteq> j"
  shows "g i + g j \<le> (sum g S :: nat)"
proof -
  have "sum g {i, j} \<le> sum g S" using assms by (intro sum_mono2) auto
  then show ?thesis using assms(4) by simp
qed

lemma sum_three_le:
  assumes "finite S" "i \<in> S" "j \<in> S" "k \<in> S" "i \<noteq> j" "i \<noteq> k" "j \<noteq> k"
  shows "g i + g j + g k \<le> (sum g S :: nat)"
proof -
  have "sum g {i, j, k} \<le> sum g S" using assms by (intro sum_mono2) auto
  then show ?thesis using assms(5-7) by simp
qed

text \<open>How much a block can hold: all of the pool for the last one, one less for another.\<close>

lemma get_room:
  assumes "fifo_inv f" "b < BlockNbr f"
  shows "n_avail f b + n_held f b \<le> nat (EltNbr f)"
    "Suc b \<noteq> BlockNbr f \<Longrightarrow> n_avail f b + n_held f b < nat (EltNbr f)"
proof -
  let ?g = "\<lambda>b. n_avail f b + n_held f b" and ?l = "BlockNbr f - 1"
  note d = fifo_invD [OF assms(1)]
  show "?g b \<le> nat (EltNbr f)" unfolding d(8) [symmetric]
    by (rule member_le_sum) (use assms in auto)
  assume b: "Suc b \<noteq> BlockNbr f"
  have "?g b + ?g ?l \<le> nat (EltNbr f)" unfolding d(8) [symmetric]
    by (rule sum_two_le) (use assms b d(1) in auto)
  moreover have "0 < n_held f ?l" using d(1) by (simp add: n_held_def)
  ultimately show "?g b < nat (EltNbr f)" by linarith
qed

lemma put_room:
  assumes "fifo_inv f" "b < BlockNbr f" "n \<le> n_held f b" "Suc b = BlockNbr f \<Longrightarrow> n < n_held f b"
  shows "n_avail f (if Suc b = BlockNbr f then 0 else Suc b) + n < nat (EltNbr f)"
proof -
  let ?g = "\<lambda>b. n_avail f b + n_held f b" and ?l = "BlockNbr f - 1"
    and ?c = "if Suc b = BlockNbr f then 0 else Suc b"
  note d = fifo_invD [OF assms(1)]
  have bc: "b \<noteq> ?c" "?c < BlockNbr f" using assms(2) d(1) by auto
  have two: "?g b + ?g ?c \<le> nat (EltNbr f)" unfolding d(8) [symmetric]
    by (rule sum_two_le) (use assms bc in auto)
  have l: "0 < n_held f ?l" using d(1) by (simp add: n_held_def)
  show ?thesis
  proof (cases "Suc b = BlockNbr f")
    case True then show ?thesis using two assms(4) by simp
  next
    case False
    show ?thesis
    proof (cases "?c = ?l")
      case True then show ?thesis using two l assms(3) False by simp
    next
      case c: False
      have "?g b + ?g ?c + ?g ?l \<le> nat (EltNbr f)" unfolding d(8) [symmetric]
        by (rule sum_three_le) (use assms bc c False in auto)
      then show ?thesis using l assms(3) False by simp
    qed
  qed
qed

section \<open>The operations on the abstract view\<close>

lemma shift_idx_mod:
  assumes "fifo_inv f" "0 \<le> i" "i < EltNbr f" "0 \<le> n" "n \<le> EltNbr f"
  shows "shift_idx f i n = (i + n) mod EltNbr f"
proof -
  note d = fifo_invD [OF assms(1)]
  have 1: "u32_of (i + n) = i + n" using assms d(5) by (simp add: u32_of_def)
  show ?thesis
  proof (cases "i + n \<ge> EltNbr f")
    case True
    have "(i + n) mod EltNbr f = (i + n - EltNbr f) mod EltNbr f" by simp
    also have "\<dots> = i + n - EltNbr f" using True assms by (intro mod_pos_pos_trivial) auto
    finally show ?thesis using True 1 assms d(5)
      by (simp add: shift_idx_def Let_def u32_of_def)
  next
    case False then show ?thesis using 1 assms by (simp add: shift_idx_def Let_def)
  qed
qed

lemma n_avail_less: "fifo_inv f \<Longrightarrow> n_avail f b < nat (EltNbr f)"
  using fifo_invD(4) [of f] by (simp add: n_avail_def)

lemma diff_mod_ring:
  assumes "0 \<le> i" "i < N" "0 \<le> j" "j < (N::int)"
  shows "(i - j) mod N = (if j \<le> i then i - j else N + (i - j))"
proof (cases "j \<le> i")
  case False
  have "(i - j) mod N = (N + (i - j)) mod N" by simp
  also have "\<dots> = N + (i - j)" using False assms by (intro mod_pos_pos_trivial) auto
  finally show ?thesis using False by simp
qed (use assms in auto)

lemma NbEltCont_avail:
  assumes "fifo_inv f" "b < BlockNbr f"
  shows "CO_SharedFifoNbEltCont f b = Some (int (n_avail f b))"
  using fifo_inv_idx [OF assms] fifo_invD(5) [OF assms(1)]
  by (simp add: CO_SharedFifoNbEltCont_def n_avail_def diff_mod_ring u32_of_def)

lemma NbElt_avail:
  assumes "fifo_inv f" "b < BlockNbr f"
  shows "CO_SharedFifoNbElt f b = Some (int (n_avail f b))"
  using fifo_inv_idx [OF assms] fifo_invD(5) [OF assms(1)]
  by (auto simp: CO_SharedFifoNbElt_def n_avail_def diff_mod_ring u32_of_def Let_def)

lemma Empty_avail:
  assumes "fifo_inv f" "b < BlockNbr f"
  shows "CO_SharedFifoEmpty f b = Some (fifo_avail f b \<noteq> [])"
proof -
  note i = fifo_inv_idx [OF assms]
  have "fifo_avail f b = [] \<longleftrightarrow> n_avail f b = 0"
    using assms(2) by (metis length_0_conv length_avail)
  also have "\<dots> \<longleftrightarrow> sf_In (IdxTab f ! b) = sf_Out (IdxTab f ! b)"
    using i by (simp add: n_avail_def diff_mod_ring)
  finally show ?thesis using i(5) by (simp add: CO_SharedFifoEmpty_def)
qed

lemma GetPtr_bounds:
  assumes "fifo_inv f" "0 \<le> i" "i < EltNbr f"
  shows "CO_SharedFifoGetPtr f i = EltBasePtr f + i * EltSize f"
    "i * EltSize f + EltSize f \<le> EltNbr f * EltSize f"
proof -
  note d = fifo_invD [OF assms(1)]
  have "(i + 1) * EltSize f \<le> EltNbr f * EltSize f" using assms d(6) by (intro mult_right_mono) auto
  then show 2: "i * EltSize f + EltSize f \<le> EltNbr f * EltSize f" by (simp add: distrib_right)
  have "0 \<le> i * EltSize f" using assms d(6) by simp
  then show "CO_SharedFifoGetPtr f i = EltBasePtr f + i * EltSize f"
    using 2 d(6,7) by (simp add: CO_SharedFifoGetPtr_def u32_of_def)
qed

text \<open>A get moves elements from what the block owns to what it works on.\<close>

definition got :: "shared_fifo \<Rightarrow> nat \<Rightarrow> nat \<Rightarrow> shared_fifo" where
  "got f b n = set_blk b ((IdxTab f ! b)\<lparr>sf_Out := (sf_Out (IdxTab f ! b) + int n) mod EltNbr f\<rparr>) f"

definition put_to :: "shared_fifo \<Rightarrow> nat \<Rightarrow> nat \<Rightarrow> shared_fifo" where
  "put_to f c n = set_blk c ((IdxTab f ! c)\<lparr>sf_In := (sf_In (IdxTab f ! c) + int n) mod EltNbr f\<rparr>) f"

lemma set_blk_simps [simp]:
  "BlockNbr (set_blk b B f) = BlockNbr f" "EltNbr (set_blk b B f) = EltNbr f"
  "EltSize (set_blk b B f) = EltSize f" "EltBasePtr (set_blk b B f) = EltBasePtr f"
  "IdxTab (set_blk b B f) = (IdxTab f)[b := B]"
  by (simp_all add: set_blk_def)

lemma got_counts:
  assumes "fifo_inv f" "b < BlockNbr f" "n \<le> n_avail f b"
  shows "n_avail (got f b n) c = (if c = b then n_avail f b - n else n_avail f c)"
    "n_held (got f b n) c = (if c = b then n_held f b + n else n_held f c)"
proof -
  let ?N = "EltNbr f" and ?B = "IdxTab f ! b"
  note d = fifo_invD [OF assms(1)]
  have bl: "b < length (IdxTab f)" using assms(2) d(2,3) by simp
  have a: "int (n_avail f b) = (sf_In ?B - sf_Out ?B) mod ?N" using d(4) by (simp add: n_avail_def)
  have "(sf_In ?B - sf_Out ?B - int n) mod ?N = (sf_In ?B - sf_Out ?B) mod ?N - int n"
    using a assms(3) d(4) by (intro mod_sub_small) auto
  then show "n_avail (got f b n) c = (if c = b then n_avail f b - n else n_avail f c)"
    using bl by (auto simp: n_avail_def got_def nth_list_update mod_simps algebra_simps nat_diff_distrib')
  have last: "(sf_Out ?B - sf_In (IdxTab f ! 0) - 1 + int n) mod ?N
      = (sf_Out ?B - sf_In (IdxTab f ! 0) - 1) mod ?N + int n" if "Suc b = BlockNbr f"
    using get_room(1) [OF assms(1,2)] that assms(3) d(4)
    by (intro mod_add_small) (auto simp: n_held_def)
  have mid: "(sf_Out ?B - sf_In (IdxTab f ! Suc b) + int n) mod ?N
      = (sf_Out ?B - sf_In (IdxTab f ! Suc b)) mod ?N + int n" if "Suc b \<noteq> BlockNbr f"
    using get_room(2) [OF assms(1,2)] that assms(3) d(4)
    by (intro mod_add_small) (auto simp: n_held_def)
  show "n_held (got f b n) c = (if c = b then n_held f b + n else n_held f c)"
  proof (cases "c = b")
    case False then show ?thesis using bl
      by (auto simp: n_held_def got_def nth_list_update)
  next
    case True
    show ?thesis
    proof (cases "Suc b = BlockNbr f")
      case s: True
      have "(sf_Out ?B + int n - sf_In (IdxTab f ! 0) - 1) mod ?N
          = (sf_Out ?B - sf_In (IdxTab f ! 0) - 1) mod ?N + int n"
        using last [OF s] by (simp add: algebra_simps)
      then show ?thesis using True s bl d(1,4)
        by (simp add: n_held_def got_def nth_list_update mod_diff_two nat_add_distrib)
    next
      case s: False
      have "(sf_Out ?B + int n - sf_In (IdxTab f ! Suc b)) mod ?N
          = (sf_Out ?B - sf_In (IdxTab f ! Suc b)) mod ?N + int n"
        using mid [OF s] by (simp add: algebra_simps)
      then show ?thesis using True s bl d(4)
        by (simp add: n_held_def got_def nth_list_update mod_simps nat_add_distrib)
    qed
  qed
qed

text \<open>A put moves elements from what the block works on to what the next one owns.\<close>

abbreviation (input) next_blk :: "shared_fifo \<Rightarrow> nat \<Rightarrow> nat" where
  "next_blk f b \<equiv> (if Suc b = BlockNbr f then 0 else Suc b)"

definition can_put :: "shared_fifo \<Rightarrow> nat \<Rightarrow> nat \<Rightarrow> bool" where
  "can_put f b n \<longleftrightarrow> n \<le> length (fifo_held f b) - (if Suc b = BlockNbr f then 1 else 0)"

lemma put_counts:
  assumes "fifo_inv f" "b < BlockNbr f" "can_put f b n"
  shows "n_avail (put_to f (next_blk f b) n) c
      = (if c = next_blk f b then n_avail f c + n else n_avail f c)" (is ?A)
    "c < BlockNbr f \<Longrightarrow>
       n_held (put_to f (next_blk f b) n) c = (if c = b then n_held f b - n else n_held f c)" (is "_ \<Longrightarrow> ?H")
proof -
  let ?N = "EltNbr f" and ?e = "next_blk f b" and ?I = "sf_In (IdxTab f ! next_blk f b)"
    and ?O = "sf_Out (IdxTab f ! b)"
  note d = fifo_invD [OF assms(1)]
  have pos: "0 < n_held f b" if "Suc b = BlockNbr f" using that by (simp add: n_held_def)
  have n: "n \<le> n_held f b" "Suc b = BlockNbr f \<Longrightarrow> n < n_held f b"
    using assms(2,3) pos by (auto simp: can_put_def)
  have e: "?e < length (IdxTab f)" using assms(2) d(2,3) by simp
  have "(?I - sf_Out (IdxTab f ! ?e) + int n) mod ?N = (?I - sf_Out (IdxTab f ! ?e)) mod ?N + int n"
  proof (rule mod_add_small)
    show "(?I - sf_Out (IdxTab f ! ?e)) mod ?N + int n < ?N"
      using put_room [OF assms(1,2) n] d(4) by (simp add: n_avail_def)
  qed (use d(4) in auto)
  then have "(?I + int n - sf_Out (IdxTab f ! ?e)) mod ?N = (?I - sf_Out (IdxTab f ! ?e)) mod ?N + int n"
    by (simp add: algebra_simps)
  then show ?A using e d(4)
    by (cases "c = ?e") (simp_all add: n_avail_def put_to_def mod_simps nat_add_distrib)
  have last: "(?O - (?I + int n) - 1) mod ?N = (?O - ?I - 1) mod ?N - int n" if "Suc b = BlockNbr f"
  proof -
    have "(?O - ?I - 1 - int n) mod ?N = (?O - ?I - 1) mod ?N - int n"
      using n(2) that d(4) by (intro mod_sub_small) (auto simp: n_held_def less_Suc_eq_le le_nat_iff)
    then show ?thesis by (simp add: algebra_simps)
  qed
  have mid: "(?O - (?I + int n)) mod ?N = (?O - ?I) mod ?N - int n" if "Suc b \<noteq> BlockNbr f"
  proof -
    have "(?O - ?I - int n) mod ?N = (?O - ?I) mod ?N - int n"
      using n(1) that d(4) by (intro mod_sub_small) (auto simp: n_held_def le_nat_iff)
    then show ?thesis by (simp add: algebra_simps)
  qed
  assume c: "c < BlockNbr f"
  show ?H
  proof (cases "c = b")
    case False
    then show ?thesis using e c assms(2) by (auto simp: n_held_def put_to_def nth_list_update)
  next
    case True
    show ?thesis
    proof (cases "Suc b = BlockNbr f")
      case s: True
      have "(?O - (?I + int n) mod ?N - 1) mod ?N = (?O - ?I - 1) mod ?N - int n"
        using last [OF s] by (metis diff_right_commute mod_diff_right_eq)
      moreover have "b \<noteq> 0" using s d(1) by simp
      ultimately show ?thesis using True s e n(2)
        by (simp add: n_held_def put_to_def nth_list_update nat_diff_distrib')
    next
      case s: False
      have "(?O - (?I + int n) mod ?N) mod ?N = (?O - ?I) mod ?N - int n"
        using mid [OF s] by (simp add: mod_simps)
      then show ?thesis using True s e n(1) d(4)
        by (simp add: n_held_def put_to_def nth_list_update nat_diff_distrib')
    qed
  qed
qed

lemma n_held_pos: "Suc b = BlockNbr f \<Longrightarrow> 0 < n_held f b"
  by (simp add: n_held_def)

lemma got_inv:
  assumes "fifo_inv f" "b < BlockNbr f" "n \<le> n_avail f b"
  shows "fifo_inv (got f b n)"
proof -
  note d = fifo_invD [OF assms(1)] and i = fifo_inv_idx [OF assms(1)]
  have "(\<Sum>c<BlockNbr f. n_avail (got f b n) c + n_held (got f b n) c) = nat (EltNbr f)"
    unfolding d(8) [symmetric] by (rule sum.cong) (use got_counts [OF assms] assms(3) in auto)
  then show ?thesis using d i assms(2)
    by (auto simp: fifo_inv_def got_def nth_list_update)
qed

lemma put_to_range:
  assumes "fifo_inv f" "e < BlockNbr f" "c < BlockNbr f"
  shows "0 \<le> sf_In (IdxTab (put_to f e n) ! c) \<and> sf_In (IdxTab (put_to f e n) ! c) < EltNbr f \<and>
    0 \<le> sf_Out (IdxTab (put_to f e n) ! c) \<and> sf_Out (IdxTab (put_to f e n) ! c) < EltNbr f"
  using fifo_inv_idx [OF assms(1,2)] fifo_inv_idx [OF assms(1,3)] fifo_invD [OF assms(1)] assms(2)
  by (cases "c = e") (simp_all add: put_to_def)

lemma put_inv:
  assumes "fifo_inv f" "b < BlockNbr f" "can_put f b n"
  shows "fifo_inv (put_to f (next_blk f b) n)"
proof -
  let ?g = "put_to f (next_blk f b) n" and ?B = "{..<BlockNbr f}"
  note d = fifo_invD [OF assms(1)] and i = fifo_inv_idx [OF assms(1)] and c = put_counts [OF assms]
  have n: "n \<le> n_held f b" using assms(2,3) by (auto simp: can_put_def)
  have e: "next_blk f b \<in> ?B" using assms(2) by auto
  have "(\<Sum>c\<in>?B. n_avail ?g c) = (\<Sum>c\<in>?B. n_avail f c + (if next_blk f b = c then n else 0))"
    by (rule sum.cong) (use c(1) in auto)
  also have "\<dots> = (\<Sum>c\<in>?B. n_avail f c) + n" using e by (simp add: sum.distrib del: if_split)
  finally have a: "(\<Sum>c\<in>?B. n_avail ?g c) = (\<Sum>c\<in>?B. n_avail f c) + n" .
  have "(\<Sum>c\<in>?B. n_held f c) = (\<Sum>c\<in>?B. n_held ?g c + (if b = c then n else 0))"
    by (rule sum.cong) (use c(2) n in auto)
  also have "\<dots> = (\<Sum>c\<in>?B. n_held ?g c) + n" using assms(2) by (simp add: sum.distrib del: if_split)
  finally have "(\<Sum>c\<in>?B. n_avail ?g c + n_held ?g c) = (\<Sum>c\<in>?B. n_avail f c + n_held f c)"
    using a by (simp add: sum.distrib)
  then have s: "(\<Sum>c\<in>?B. n_avail ?g c + n_held ?g c) = nat (EltNbr f)" using d(8) by simp
  have x: "BlockNbr ?g = BlockNbr f" "EltNbr ?g = EltNbr f" "EltSize ?g = EltSize f"
    "length (IdxTab ?g) = 4" using d(3) by (simp_all add: put_to_def)
  have "\<forall>c<BlockNbr f. 0 \<le> sf_In (IdxTab ?g ! c) \<and> sf_In (IdxTab ?g ! c) < EltNbr f \<and>
        0 \<le> sf_Out (IdxTab ?g ! c) \<and> sf_Out (IdxTab ?g ! c) < EltNbr f"
    using put_to_range [OF assms(1)] assms(2) by simp
  then show ?thesis unfolding fifo_inv_def x using s d by simp
qed

lemma got_avail:
  assumes "fifo_inv f" "b < BlockNbr f" "n \<le> n_avail f b"
  shows "fifo_avail (got f b n) = (fifo_avail f)(b := drop n (fifo_avail f b))"
proof
  fix c
  have "b < length (IdxTab f)" using assms(2) fifo_invD(2,3) [OF assms(1)] by simp
  moreover have "BlockNbr (got f b n) = BlockNbr f" "EltNbr (got f b n) = EltNbr f"
    by (simp_all add: got_def)
  ultimately show "fifo_avail (got f b n) c = ((fifo_avail f)(b := drop n (fifo_avail f b))) c"
    using assms got_counts(1) [OF assms, of c]
    by (auto simp: fifo_avail_def drop_slots got_def nth_list_update)
qed

lemma held_end:
  assumes "fifo_inv f" "b < BlockNbr f"
  shows "(sf_In (IdxTab f ! next_blk f b) + int (n_held f b)) mod EltNbr f = sf_Out (IdxTab f ! b)"
proof -
  let ?I = "sf_In (IdxTab f ! next_blk f b)" and ?O = "sf_Out (IdxTab f ! b)"
  note i = fifo_inv_idx [OF assms] and d = fifo_invD [OF assms(1)]
  show ?thesis
  proof (cases "Suc b = BlockNbr f")
    case True
    have "(?I + (1 + (?O - ?I - 1) mod EltNbr f)) mod EltNbr f = ?O mod EltNbr f"
      by (simp add: mod_simps flip: add.assoc)
    then show ?thesis using True i d(4) by (simp add: n_held_def)
  next
    case False
    then show ?thesis using i d(4) by (simp add: n_held_def mod_simps)
  qed
qed

lemma got_held:
  assumes "fifo_inv f" "b < BlockNbr f" "n \<le> n_avail f b"
  shows "fifo_held (got f b n) = (fifo_held f)(b := fifo_held f b @ take n (fifo_avail f b))"
proof
  fix c
  let ?s = "sf_In (IdxTab f ! next_blk f b)"
  note i = fifo_inv_idx [OF assms(1,2)]
  have bl: "b < length (IdxTab f)" using assms(2) fifo_invD(2,3) [OF assms(1)] by simp
  have x: "BlockNbr (got f b n) = BlockNbr f" "EltNbr (got f b n) = EltNbr f"
    "\<And>k. sf_In (IdxTab (got f b n) ! k) = sf_In (IdxTab f ! k)"
    using bl by (auto simp: got_def nth_list_update)
  have "slots (EltNbr f) (?s + int (n_held f b)) n = slots (EltNbr f) (sf_Out (IdxTab f ! b)) n"
    using held_end [OF assms(1,2)] slots_mod by metis
  then have "slots (EltNbr f) ?s (n_held f b + n) = fifo_held f b @ take n (fifo_avail f b)"
    using assms(2,3) by (simp add: slots_append fifo_held_def fifo_avail_def take_slots)
  then show "fifo_held (got f b n) c = ((fifo_held f)(b := fifo_held f b @ take n (fifo_avail f b))) c"
    using assms(2) got_counts(2) [OF assms, of c] x by (auto simp: fifo_held_def)
qed

lemma put_avail:
  assumes "fifo_inv f" "b < BlockNbr f" "can_put f b n"
  shows "fifo_avail (put_to f (next_blk f b) n)
    = (fifo_avail f)(next_blk f b := fifo_avail f (next_blk f b) @ take n (fifo_held f b))"
proof
  fix c
  let ?e = "next_blk f b" and ?N = "EltNbr f"
  have e: "?e < BlockNbr f" using assms(2) by auto
  note i = fifo_inv_idx [OF assms(1) e] and d = fifo_invD [OF assms(1)]
  have x: "BlockNbr (put_to f ?e n) = BlockNbr f" "EltNbr (put_to f ?e n) = EltNbr f"
    "\<And>k. sf_Out (IdxTab (put_to f ?e n) ! k) = sf_Out (IdxTab f ! k)"
    using e d by (auto simp: put_to_def nth_list_update)
  have n: "n \<le> n_held f b" using assms(2,3) by (auto simp: can_put_def)
  have "(sf_Out (IdxTab f ! ?e) + int (n_avail f ?e)) mod ?N = sf_In (IdxTab f ! ?e)"
    using i d(4) by (simp add: n_avail_def mod_simps)
  then have "slots ?N (sf_Out (IdxTab f ! ?e) + int (n_avail f ?e)) n = slots ?N (sf_In (IdxTab f ! ?e)) n"
    using slots_mod by metis
  then have "slots ?N (sf_Out (IdxTab f ! ?e)) (n_avail f ?e + n) = fifo_avail f ?e @ take n (fifo_held f b)"
    using assms(2) e n by (simp add: slots_append fifo_held_def fifo_avail_def take_slots)
  then show "fifo_avail (put_to f ?e n) c
      = ((fifo_avail f)(?e := fifo_avail f ?e @ take n (fifo_held f b))) c"
    using e put_counts(1) [OF assms, of c] x by (auto simp: fifo_avail_def)
qed

lemma put_held:
  assumes "fifo_inv f" "b < BlockNbr f" "can_put f b n"
  shows "fifo_held (put_to f (next_blk f b) n) = (fifo_held f)(b := drop n (fifo_held f b))"
proof
  fix c
  let ?e = "next_blk f b"
  note d = fifo_invD [OF assms(1)]
  have e: "?e < length (IdxTab f)" using assms(2) d by auto
  have x: "BlockNbr (put_to f ?e n) = BlockNbr f" "EltNbr (put_to f ?e n) = EltNbr f"
    by (simp_all add: put_to_def)
  have n: "n \<le> n_held f b" using assms(2,3) by (auto simp: can_put_def)
  have "sf_In (IdxTab (put_to f ?e n) ! next_blk f c)
      = (if c = b then (sf_In (IdxTab f ! ?e) + int n) mod EltNbr f else sf_In (IdxTab f ! next_blk f c))"
    if "c < BlockNbr f" using e that assms(2) by (auto simp: put_to_def nth_list_update)
  then show "fifo_held (put_to f ?e n) c = ((fifo_held f)(b := drop n (fifo_held f b))) c"
    using assms(2) put_counts(2) [OF assms, of c] n
    by (cases "c < BlockNbr f") (auto simp: fifo_held_def x drop_slots)
qed

section \<open>What the operations do\<close>

definition elt_addr :: "shared_fifo \<Rightarrow> int \<Rightarrow> int" where
  "elt_addr f x = EltBasePtr f + x * EltSize f"

lemma elt_addr_inj:
  "fifo_inv f \<Longrightarrow> elt_addr f x = elt_addr f y \<longleftrightarrow> x = y"
  using fifo_invD(6) [of f] by (simp add: elt_addr_def)

lemma avail_range: "fifo_inv f \<Longrightarrow> x \<in> set (fifo_avail f b) \<Longrightarrow> 0 \<le> x \<and> x < EltNbr f"
  using fifo_invD(4) [of f] by (auto simp: fifo_avail_def slots_def split: if_splits)

lemma Get_spec:
  assumes "fifo_inv f" "b < BlockNbr f"
  shows "n \<le> n_avail f b \<Longrightarrow> CO_SharedFifoGet f b (int n)
      = Some (CO_STATUS_OK, Some (elt_addr f (sf_Out (IdxTab f ! b))), got f b n)"
    "n_avail f b < n \<Longrightarrow> CO_SharedFifoGet f b (int n) = Some (CO_NO_ELT_IN_USE, None, f)"
proof -
  note i = fifo_inv_idx [OF assms] and d = fifo_invD [OF assms(1)]
  show "CO_SharedFifoGet f b (int n) = Some (CO_NO_ELT_IN_USE, None, f)" if "n_avail f b < n"
    using that i(5) NbEltCont_avail [OF assms]
    by (simp add: CO_SharedFifoGet_def CO_SharedFifoGet_NoCritSect_def)
  assume n: "n \<le> n_avail f b"
  then have "int n \<le> EltNbr f" using n_avail_less [OF assms(1), of b] d(4) by linarith
  then show "CO_SharedFifoGet f b (int n)
      = Some (CO_STATUS_OK, Some (elt_addr f (sf_Out (IdxTab f ! b))), got f b n)"
    using n i NbEltCont_avail [OF assms] shift_idx_mod [OF assms(1) i(3,4), of "int n"]
      GetPtr_bounds(1) [OF assms(1) i(3,4)]
    by (simp add: CO_SharedFifoGet_def CO_SharedFifoGet_NoCritSect_def got_def elt_addr_def)
qed

lemma Put_spec:
  assumes "fifo_inv f" "b < BlockNbr f" "int n \<le> EltNbr f"
  shows "CO_SharedFifoPut f b (int n) = Some (CO_STATUS_OK, put_to f (next_blk f b) n)"
proof -
  let ?e = "next_blk f b"
  have e: "?e < BlockNbr f" using assms(2) by auto
  note i = fifo_inv_idx [OF assms(1) e] and d = fifo_invD [OF assms(1)]
  have "sf_next f b = ?e" using assms(2) d(2) by (auto simp: sf_next_def)
  then show ?thesis using i shift_idx_mod [OF assms(1) i(1,2), of "int n"] assms(3)
    by (simp add: CO_SharedFifoPut_def CO_SharedFifoPut_NoCritSect_def put_to_def)
qed

lemma can_put_bound: "fifo_inv f \<Longrightarrow> b < BlockNbr f \<Longrightarrow> can_put f b n \<Longrightarrow> int n \<le> EltNbr f"
  using get_room(1) [of f b] fifo_invD(4) [of f] by (auto simp: can_put_def split: if_splits)

text \<open>The chain of all shares covers the pool.\<close>

definition chain_idx :: "shared_fifo \<Rightarrow> nat \<Rightarrow> int" where
  "chain_idx f k = sf_In (IdxTab f ! (if k = BlockNbr f then 0 else k))"

lemma block_slots:
  assumes "fifo_inv f" "b < BlockNbr f"
  shows "fifo_held f b @ fifo_avail f b
      = slots (EltNbr f) (chain_idx f (Suc b)) (n_held f b + n_avail f b)"
    "(chain_idx f (Suc b) + int (n_held f b + n_avail f b)) mod EltNbr f = chain_idx f b"
proof -
  let ?N = "EltNbr f" and ?O = "sf_Out (IdxTab f ! b)" and ?s = "chain_idx f (Suc b)"
  note i = fifo_inv_idx [OF assms] and d = fifo_invD [OF assms(1)]
  have h: "(?s + int (n_held f b)) mod ?N = ?O" using held_end [OF assms] by (simp add: chain_idx_def)
  then have "slots ?N (?s + int (n_held f b)) (n_avail f b) = slots ?N ?O (n_avail f b)"
    using slots_mod by metis
  then show "fifo_held f b @ fifo_avail f b = slots ?N ?s (n_held f b + n_avail f b)"
    using assms(2) by (simp add: fifo_held_def fifo_avail_def slots_append chain_idx_def)
  have "(?O + int (n_avail f b)) mod ?N = chain_idx f b"
    using i d(4) assms(2) by (simp add: n_avail_def mod_simps chain_idx_def)
  then show "(?s + int (n_held f b + n_avail f b)) mod ?N = chain_idx f b"
    using h by (metis mod_add_left_eq add.assoc of_nat_add)
qed

lemma chain_slots:
  assumes "fifo_inv f" "m \<le> BlockNbr f"
  shows "concat (map (\<lambda>b. fifo_held f b @ fifo_avail f b) (rev [BlockNbr f - m..<BlockNbr f]))
      = slots (EltNbr f) (chain_idx f (BlockNbr f)) (\<Sum>b\<in>{BlockNbr f - m..<BlockNbr f}. n_avail f b + n_held f b) \<and>
    (chain_idx f (BlockNbr f) + int (\<Sum>b\<in>{BlockNbr f - m..<BlockNbr f}. n_avail f b + n_held f b)) mod EltNbr f
      = chain_idx f (BlockNbr f - m)"
  using assms(2)
proof (induction m)
  case 0
  have "0 < BlockNbr f" using fifo_invD(1) [OF assms(1)] by simp
  then show ?case using fifo_inv_idx [OF assms(1), of 0] by (simp add: chain_idx_def)
next
  case (Suc m)
  let ?k = "BlockNbr f - Suc m" and ?c = "\<lambda>b. n_avail f b + n_held f b"
    and ?T = "\<lambda>m. \<Sum>b\<in>{BlockNbr f - m..<BlockNbr f}. n_avail f b + n_held f b"
  have k: "?k < BlockNbr f" "Suc ?k = BlockNbr f - m" using Suc.prems by auto
  have T: "?T (Suc m) = ?T m + ?c ?k"
    using k by (simp add: sum.atLeast_Suc_lessThan del: sum.op_ivl_Suc)
  have u: "[?k..<BlockNbr f] = ?k # [BlockNbr f - m..<BlockNbr f]"
    using k by (simp add: upt_conv_Cons)
  note IH = Suc.IH [OF Suc_leD [OF Suc.prems]] and B = block_slots [OF assms(1) k(1)]
  have "slots (EltNbr f) (chain_idx f (BlockNbr f) + int (?T m)) (?c ?k)
      = slots (EltNbr f) (chain_idx f (Suc ?k)) (?c ?k)"
    using IH k(2) slots_mod by metis
  then have 1: "slots (EltNbr f) (chain_idx f (BlockNbr f)) (?T m + ?c ?k)
      = slots (EltNbr f) (chain_idx f (BlockNbr f)) (?T m) @ fifo_held f ?k @ fifo_avail f ?k"
    using B(1) by (simp only: slots_append add.commute [of "n_held f ?k"])
  have "(chain_idx f (BlockNbr f) + int (?T m + ?c ?k)) mod EltNbr f
      = ((chain_idx f (BlockNbr f) + int (?T m)) mod EltNbr f + int (?c ?k)) mod EltNbr f"
    by (simp only: mod_add_left_eq of_nat_add add.assoc)
  also have "\<dots> = (chain_idx f (Suc ?k) + int (n_held f ?k + n_avail f ?k)) mod EltNbr f"
    using IH k(2) by (simp only: add.commute [of "n_held f ?k"])
  finally have 2: "(chain_idx f (BlockNbr f) + int (?T m + ?c ?k)) mod EltNbr f = chain_idx f ?k"
    using B(2) by simp
  show ?case using IH 1 2 unfolding T u
    by (simp only: rev.simps map_append concat_append list.map concat.simps append_Nil2 simp_thms)
qed

lemma shares_partition:
  assumes "fifo_inv f"
  shows "set (concat (map (\<lambda>b. fifo_avail f b @ fifo_held f b) [0..<BlockNbr f])) = {0..<EltNbr f}"
    "distinct (concat (map (\<lambda>b. fifo_avail f b @ fifo_held f b) [0..<BlockNbr f]))"
proof -
  let ?c = "concat (map (\<lambda>b. fifo_avail f b @ fifo_held f b) [0..<BlockNbr f])"
    and ?N = "EltNbr f"
  note d = fifo_invD [OF assms]
  have e: "{..<BlockNbr f} = {0..<BlockNbr f}" by auto
  have "set (concat (map (\<lambda>b. fifo_held f b @ fifo_avail f b) (rev [0..<BlockNbr f]))) = {0..<?N}"
    using chain_slots [OF assms order_refl] d(8) set_slots_full [of ?N] d(4) by (simp add: e)
  then show s: "set ?c = {0..<?N}" by auto
  have "length ?c = (\<Sum>b\<leftarrow>[0..<BlockNbr f]. n_avail f b + n_held f b)"
    unfolding length_concat map_map o_def
    by (intro arg_cong [where f = sum_list] map_cong) auto
  also have "\<dots> = nat ?N" using d(8) by (simp add: sum_list_distinct_conv_sum_set e)
  finally show "distinct ?c" using s by (intro card_distinct) simp
qed

section \<open>Initialisation\<close>

lemma init_inv:
  assumes "CO_SharedFifoInit phy base nbr esize n f = Some g" "length (IdxTab f) = 4"
    "2 \<le> n" "2 \<le> nbr" "nbr \<le> 2 ^ 31" "0 < esize" "nbr * esize < 2 ^ 32"
  shows "fifo_inv g" "fifo_avail g = (\<lambda>b. if b = 0 then [1..nbr - 1] else [])"
    "fifo_held g = (\<lambda>b. if b = n - 1 then [0] else [])"
    "BlockNbr g = n" "EltNbr g = nbr" "EltBasePtr g = base" "EltSize g = esize"
proof -
  have n: "n \<le> 4" using assms(1,2) by (simp add: CO_SharedFifoInit_def split: if_splits)
  let ?tab = "map (\<lambda>i. \<lparr>sf_Flag = 0, sf_In = 1, sf_Out = 1\<rparr>) [0..<n] @ drop n (IdxTab f)"
  have g: "BlockNbr g = n" "EltNbr g = nbr" "EltBasePtr g = base" "EltSize g = esize"
    "IdxTab g = ?tab[0 := (?tab ! 0)\<lparr>sf_In := 0\<rparr>]"
    using assms(1) by (auto simp: CO_SharedFifoInit_def Let_def split: if_splits)
  have idx: "IdxTab g ! b = \<lparr>sf_Flag = 0, sf_In = (if b = 0 then 0 else 1), sf_Out = 1\<rparr>" if "b < n" for b
    using that g(5) assms(2,3) n by (simp add: nth_append nth_list_update)
  have a: "n_avail g b = (if b = 0 then nat nbr - 1 else 0)" if "b < n" for b
    using that assms(4) by (simp add: n_avail_def idx g(1,2) zmod_minus1 nat_diff_distrib)
  have h: "n_held g b = (if Suc b = n then 1 else 0)" if "b < n" for b
    using that assms(3,4) by (auto simp: n_held_def idx g(1,2))
  have "(\<Sum>b<n. n_avail g b + n_held g b) = (\<Sum>b<n. (if 0 = b then nat nbr - 1 else 0) + (if n - 1 = b then 1 else 0))"
    by (rule sum.cong) (use a h in auto)
  also have "\<dots> = nat nbr" using assms(3,4) by (simp add: sum.distrib)
  finally show "fifo_inv g" using assms(2-) n idx g(1-4) g(5) by (simp add: fifo_inv_def)
  have "slots nbr 1 (nat nbr - 1) = [1..nbr - 1]"
    by (rule nth_equalityI) (use assms(4) in \<open>auto simp: slots_def nth_upto\<close>)
  then show "fifo_avail g = (\<lambda>b. if b = 0 then [1..nbr - 1] else [])"
    using assms(3) g(1,2) by (auto simp: fifo_avail_def a idx fun_eq_iff)
  show "fifo_held g = (\<lambda>b. if b = n - 1 then [0] else [])"
    using assms(3,4) g(1,2) by (auto simp: fifo_held_def h idx fun_eq_iff slots_def)
qed (use assms(1) in \<open>auto simp: CO_SharedFifoInit_def Let_def split: if_splits\<close>)

section \<open>The interface of the clients\<close>

text \<open>A chain of blocks sharing elements, as its clients use it: one element at a time.  The last
  block always has one element in hand, the unused one.\<close>

locale elt_chain =
  fixes ok :: "'f \<Rightarrow> bool"
    and last_blk :: "'f \<Rightarrow> nat"
    and avail :: "'f \<Rightarrow> nat \<Rightarrow> 'e list"
    and held :: "'f \<Rightarrow> nat \<Rightarrow> 'e list"
    and addr :: "'f \<Rightarrow> 'e \<Rightarrow> int"
    and get :: "'f \<Rightarrow> nat \<Rightarrow> (co_status \<times> int option \<times> 'f) option"
    and put :: "'f \<Rightarrow> nat \<Rightarrow> (co_status \<times> 'f) option"
    and pick :: "'f \<Rightarrow> nat \<Rightarrow> int option"
    and some_left :: "'f \<Rightarrow> nat \<Rightarrow> bool option"
  assumes get_one: "ok f \<Longrightarrow> b \<le> last_blk f \<Longrightarrow> avail f b = x # xs \<Longrightarrow>
      \<exists>g. get f b = Some (CO_STATUS_OK, Some (addr f x), g) \<and> ok g \<and> last_blk g = last_blk f \<and>
        addr g = addr f \<and> avail g = (avail f)(b := xs) \<and> held g = (held f)(b := held f b @ [x])"
    and get_none: "ok f \<Longrightarrow> b \<le> last_blk f \<Longrightarrow> avail f b = [] \<Longrightarrow>
      get f b = Some (CO_NO_ELT_IN_USE, None, f)"
    and put_one: "ok f \<Longrightarrow> b < last_blk f \<Longrightarrow> held f b = x # xs \<Longrightarrow>
      \<exists>g. put f b = Some (CO_STATUS_OK, g) \<and> ok g \<and> last_blk g = last_blk f \<and> addr g = addr f \<and>
        avail g = (avail f)(Suc b := avail f (Suc b) @ [x]) \<and> held g = (held f)(b := xs)"
    and put_last: "ok f \<Longrightarrow> b = last_blk f \<Longrightarrow> held f b = x # y # xs \<Longrightarrow>
      \<exists>g. put f b = Some (CO_STATUS_OK, g) \<and> ok g \<and> last_blk g = last_blk f \<and> addr g = addr f \<and>
        avail g = (avail f)(0 := avail f 0 @ [x]) \<and> held g = (held f)(b := y # xs)"
    and pick_hd: "ok f \<Longrightarrow> b \<le> last_blk f \<Longrightarrow> avail f b = x # xs \<Longrightarrow> pick f b = Some (addr f x)"
    and some_left_avail: "ok f \<Longrightarrow> b \<le> last_blk f \<Longrightarrow> some_left f b = Some (avail f b \<noteq> [])"
begin

text \<open>An idle block takes its first element and passes it on.\<close>

lemma pass_one:
  assumes "ok f" "b < last_blk f" "avail f b = x # xs" "held f b = []"
  shows "\<exists>g h. get f b = Some (CO_STATUS_OK, Some (addr f x), g) \<and> put g b = Some (CO_STATUS_OK, h) \<and>
    ok g \<and> ok h \<and> last_blk h = last_blk f \<and> addr g = addr f \<and> addr h = addr f \<and>
    avail h = (avail f)(b := xs, Suc b := avail f (Suc b) @ [x]) \<and> held h = held f"
proof -
  obtain g where g: "get f b = Some (CO_STATUS_OK, Some (addr f x), g)" "ok g" "last_blk g = last_blk f"
    "addr g = addr f" "avail g = (avail f)(b := xs)" "held g = (held f)(b := [x])"
    using get_one [of f b x xs] assms by auto
  moreover obtain h where "put g b = Some (CO_STATUS_OK, h)" "ok h" "last_blk h = last_blk g"
    "addr h = addr g" "avail h = (avail g)(Suc b := avail g (Suc b) @ [x])" "held h = (held g)(b := [])"
    using put_one [of g b x "[]"] g assms(2) by auto
  moreover have "(held f)(b := []) = held f" using assms(4) by auto
  ultimately show ?thesis by auto
qed

lemma pass_last:
  assumes "ok f" "b = last_blk f" "b \<noteq> 0" "avail f b = x # xs" "held f b = [u]"
  shows "\<exists>g h. get f b = Some (CO_STATUS_OK, Some (addr f x), g) \<and> put g b = Some (CO_STATUS_OK, h) \<and>
    ok g \<and> ok h \<and> last_blk h = last_blk f \<and> addr g = addr f \<and> addr h = addr f \<and>
    avail h = (avail f)(b := xs, 0 := avail f 0 @ [u]) \<and> held h = (held f)(b := [x])"
proof -
  obtain g where g: "get f b = Some (CO_STATUS_OK, Some (addr f x), g)" "ok g" "last_blk g = last_blk f"
    "addr g = addr f" "avail g = (avail f)(b := xs)" "held g = (held f)(b := [u, x])"
    using get_one [of f b x xs] assms by auto
  moreover obtain h where "put g b = Some (CO_STATUS_OK, h)" "ok h" "last_blk h = last_blk g"
    "addr h = addr g" "avail h = (avail g)(0 := avail g 0 @ [u])" "held h = (held g)(b := [x])"
    using put_last [of g b u x "[]"] g assms(2) by auto
  ultimately show ?thesis using assms(3) by auto
qed

end

abbreviation sf_last :: "shared_fifo \<Rightarrow> nat" where
  "sf_last f \<equiv> BlockNbr f - 1"

lemma slots_Cons: "slots N i k = x # xs \<Longrightarrow> x = i mod N"
  by (cases k) (auto simp: slots_def upt_conv_Cons simp del: upt_Suc)

lemma got_ok: "EltBasePtr (got f b n) = EltBasePtr f" "EltSize (got f b n) = EltSize f"
  "BlockNbr (got f b n) = BlockNbr f" "EltNbr (got f b n) = EltNbr f"
  by (simp_all add: got_def)

lemma put_to_ok: "EltBasePtr (put_to f b n) = EltBasePtr f" "EltSize (put_to f b n) = EltSize f"
  "BlockNbr (put_to f b n) = BlockNbr f" "EltNbr (put_to f b n) = EltNbr f"
  by (simp_all add: put_to_def)

lemma avail_hd:
  assumes "fifo_inv f" "b < BlockNbr f" "fifo_avail f b = x # xs"
  shows "sf_Out (IdxTab f ! b) = x" "0 < n_avail f b"
  using slots_Cons [of "EltNbr f" "sf_Out (IdxTab f ! b)" "n_avail f b" x xs] assms
    fifo_inv_idx [OF assms(1,2)] length_avail [OF assms(2)] by (auto simp: fifo_avail_def)

interpretation sf: elt_chain fifo_inv sf_last fifo_avail fifo_held elt_addr
  "\<lambda>f b. CO_SharedFifoGet f b 1" "\<lambda>f b. CO_SharedFifoPut f b 1" CO_SharedFifoPick CO_SharedFifoEmpty
proof
  fix f :: shared_fifo and b :: nat and x :: int and xs
  assume f: "fifo_inv f"
  note d = fifo_invD [OF f]
  show "\<exists>g. CO_SharedFifoGet f b 1 = Some (CO_STATUS_OK, Some (elt_addr f x), g) \<and> fifo_inv g \<and>
      sf_last g = sf_last f \<and> elt_addr g = elt_addr f \<and> fifo_avail g = (fifo_avail f)(b := xs) \<and>
      fifo_held g = (fifo_held f)(b := fifo_held f b @ [x])"
    if b: "b \<le> sf_last f" and a: "fifo_avail f b = x # xs"
  proof -
    have b: "b < BlockNbr f" using b d(1) by simp
    note h = avail_hd [OF f b a]
    then have n: "1 \<le> n_avail f b" by simp
    show ?thesis using Get_spec(1) [OF f b n] got_inv [OF f b n] got_avail [OF f b n] got_held [OF f b n] h a
      by (intro exI [of _ "got f b 1"]) (simp add: got_ok elt_addr_def fun_eq_iff)
  qed
  show "CO_SharedFifoGet f b 1 = Some (CO_NO_ELT_IN_USE, None, f)"
    if b: "b \<le> sf_last f" and a: "fifo_avail f b = []"
  proof -
    have b: "b < BlockNbr f" using b d(1) by simp
    then have "n_avail f b < 1" using a length_avail [OF b] by simp
    then show ?thesis using Get_spec(2) [OF f b, of 1] by simp
  qed
  show "\<exists>g. CO_SharedFifoPut f b 1 = Some (CO_STATUS_OK, g) \<and> fifo_inv g \<and> sf_last g = sf_last f \<and>
      elt_addr g = elt_addr f \<and> fifo_avail g = (fifo_avail f)(Suc b := fifo_avail f (Suc b) @ [x]) \<and>
      fifo_held g = (fifo_held f)(b := xs)"
    if b: "b < sf_last f" and a: "fifo_held f b = x # xs"
  proof -
    have bl: "b < BlockNbr f" "Suc b \<noteq> BlockNbr f" using b by auto
    have c: "can_put f b 1" using a bl by (simp add: can_put_def)
    show ?thesis using Put_spec [OF f bl(1), of 1] put_inv [OF f bl(1) c] put_avail [OF f bl(1) c]
      put_held [OF f bl(1) c] a bl d(4)
      by (intro exI [of _ "put_to f (Suc b) 1"]) (simp add: put_to_ok elt_addr_def fun_eq_iff)
  qed
  show "\<exists>g. CO_SharedFifoPut f b 1 = Some (CO_STATUS_OK, g) \<and> fifo_inv g \<and> sf_last g = sf_last f \<and>
      elt_addr g = elt_addr f \<and> fifo_avail g = (fifo_avail f)(0 := fifo_avail f 0 @ [x]) \<and>
      fifo_held g = (fifo_held f)(b := y # xs)"
    if b: "b = sf_last f" and a: "fifo_held f b = x # y # xs" for y
  proof -
    have bl: "b < BlockNbr f" "Suc b = BlockNbr f" using b d(1) by auto
    have c: "can_put f b 1" using a bl by (simp add: can_put_def)
    show ?thesis using Put_spec [OF f bl(1), of 1] put_inv [OF f bl(1) c] put_avail [OF f bl(1) c]
      put_held [OF f bl(1) c] a bl d(4)
      by (intro exI [of _ "put_to f 0 1"]) (simp add: put_to_ok elt_addr_def fun_eq_iff)
  qed
  show "CO_SharedFifoPick f b = Some (elt_addr f x)" if b: "b \<le> sf_last f" and a: "fifo_avail f b = x # xs"
  proof -
    have bl: "b < BlockNbr f" using b d(1) by simp
    show ?thesis using avail_hd [OF f bl a] fifo_inv_idx [OF f bl] GetPtr_bounds(1) [OF f, of x]
      by (simp add: CO_SharedFifoPick_def CO_SharedFifoGetPtr_def elt_addr_def)
  qed
  show "CO_SharedFifoEmpty f b = Some (fifo_avail f b \<noteq> [])" if b: "b \<le> sf_last f"
    by (rule Empty_avail [OF f]) (use b d(1) in simp)
qed

section \<open>Properties\<close>

text \<open>C20: the shared FIFO implements the chain of blocks: a get of at most as many elements as the
  block owns returns the address of the first and moves them to what the block works on, one of more
  fails and changes nothing; a put of elements the block works on moves them, oldest first, to the
  share of the next block; the counts and the test are those of the share.\<close>
theorem shared_fifo_implements_chain:
  assumes "fifo_inv f" "b < BlockNbr f"
  shows "(\<forall>n. n \<le> length (fifo_avail f b) \<longrightarrow>
       (\<exists>p g. CO_SharedFifoGet f b (int n) = Some (CO_STATUS_OK, Some p, g) \<and> fifo_inv g \<and>
          (n \<noteq> 0 \<longrightarrow> p = elt_addr f (hd (fifo_avail f b))) \<and>
          fifo_avail g = (fifo_avail f)(b := drop n (fifo_avail f b)) \<and>
          fifo_held g = (fifo_held f)(b := fifo_held f b @ take n (fifo_avail f b)))) \<and>
    (\<forall>n. length (fifo_avail f b) < n \<longrightarrow>
       CO_SharedFifoGet f b (int n) = Some (CO_NO_ELT_IN_USE, None, f)) \<and>
    (\<forall>n. can_put f b n \<longrightarrow>
       (\<exists>g. CO_SharedFifoPut f b (int n) = Some (CO_STATUS_OK, g) \<and> fifo_inv g \<and>
          fifo_avail g = (fifo_avail f)(next_blk f b := fifo_avail f (next_blk f b) @ take n (fifo_held f b)) \<and>
          fifo_held g = (fifo_held f)(b := drop n (fifo_held f b)))) \<and>
    CO_SharedFifoNbElt f b = Some (int (length (fifo_avail f b))) \<and>
    CO_SharedFifoEmpty f b = Some (fifo_avail f b \<noteq> [])" (is "?G \<and> ?F \<and> ?P \<and> ?N \<and> ?E")
proof (intro conjI)
  show ?G
  proof (intro allI impI)
    fix n assume n: "n \<le> length (fifo_avail f b)"
    have hd: "n \<noteq> 0 \<longrightarrow> sf_Out (IdxTab f ! b) = hd (fifo_avail f b)"
      using n avail_hd [OF assms] by (cases "fifo_avail f b") auto
    show "\<exists>p g. CO_SharedFifoGet f b (int n) = Some (CO_STATUS_OK, Some p, g) \<and> fifo_inv g \<and>
          (n \<noteq> 0 \<longrightarrow> p = elt_addr f (hd (fifo_avail f b))) \<and>
          fifo_avail g = (fifo_avail f)(b := drop n (fifo_avail f b)) \<and>
          fifo_held g = (fifo_held f)(b := fifo_held f b @ take n (fifo_avail f b))"
      using n hd assms(2) Get_spec(1) [OF assms] got_inv [OF assms] got_avail [OF assms] got_held [OF assms]
      by (intro exI [of _ "elt_addr f (sf_Out (IdxTab f ! b))"] exI [of _ "got f b n"]) simp
  qed
  show ?F using Get_spec(2) [OF assms] assms(2) by simp
  show ?P
  proof (intro allI impI)
    fix n assume c: "can_put f b n"
    show "\<exists>g. CO_SharedFifoPut f b (int n) = Some (CO_STATUS_OK, g) \<and> fifo_inv g \<and>
          fifo_avail g = (fifo_avail f)(next_blk f b := fifo_avail f (next_blk f b) @ take n (fifo_held f b)) \<and>
          fifo_held g = (fifo_held f)(b := drop n (fifo_held f b))"
      using Put_spec [OF assms can_put_bound [OF assms c]] put_inv [OF assms c] put_avail [OF assms c]
        put_held [OF assms c] by (intro exI [of _ "put_to f (next_blk f b) n"] conjI) auto
  qed
  show ?N using NbElt_avail [OF assms] assms(2) by simp
  show ?E by (rule Empty_avail [OF assms])
qed

text \<open>A FIFO of three blocks and five elements, as CO_SharedFifoInit leaves it, and with the
  producer's share wrapping around the end of the pool.\<close>

definition sf_zero :: shared_fifo where
  "sf_zero = \<lparr>EltBasePhy = 0, EltBasePtr = 0, EltNbr = 0, EltSize = 0, BlockNbr = 0,
     IdxTab = replicate 4 \<lparr>sf_Flag = 0, sf_In = 0, sf_Out = 0\<rparr>\<rparr>"

definition sf_five :: shared_fifo where
  "sf_five = the (CO_SharedFifoInit 4096 4096 5 32 3 sf_zero)"

definition sf_wrapped :: shared_fifo where
  "sf_wrapped = sf_five\<lparr>IdxTab := [\<lparr>sf_Flag = 0, sf_In = 2, sf_Out = 4\<rparr>, \<lparr>sf_Flag = 0, sf_In = 3, sf_Out = 3\<rparr>,
     \<lparr>sf_Flag = 0, sf_In = 3, sf_Out = 3\<rparr>, \<lparr>sf_Flag = 0, sf_In = 0, sf_Out = 0\<rparr>]\<rparr>"

lemma sf_five_inv: "fifo_inv sf_five" "BlockNbr sf_five = 3"
  using init_inv [of 4096 4096 5 32 3 sf_zero sf_five]
  by (simp_all add: sf_five_def CO_SharedFifoInit_def sf_zero_def Let_def)

lemma sf_five_fields: "EltNbr sf_five = 5" "EltSize sf_five = 32" "EltBasePtr sf_five = 4096"
  by (simp_all add: sf_five_def CO_SharedFifoInit_def sf_zero_def Let_def)

lemma sf_wrapped_inv: "fifo_inv sf_wrapped"
  using sf_five_inv(2)
  by (simp add: fifo_inv_def sf_wrapped_def sf_five_fields n_avail_def n_held_def All_less_Suc
      eval_nat_numeral lessThan_Suc)

theorem shared_fifo_implements_chain_witness:
  "\<exists>g. CO_SharedFifoGet sf_five 0 2 = Some (CO_STATUS_OK, Some (4096 + 32), g) \<and>
    fifo_avail g = (fifo_avail sf_five)(0 := [3, 4])"
proof -
  have a: "fifo_avail sf_five 0 = [1, 2, 3, 4]"
    using sf_five_inv(2) by (simp add: sf_five_def CO_SharedFifoInit_def sf_zero_def Let_def
        fifo_avail_def n_avail_def slots_def upt_rec)
  have "0 < BlockNbr sf_five" by (simp add: sf_five_inv)
  then show ?thesis
    using conjunct1 [OF shared_fifo_implements_chain [OF sf_five_inv(1), of 0], rule_format, of 2] a
    by (auto simp: elt_addr_def sf_five_fields)
qed

text \<open>the pointer a successful get returns is the address of an element of the pool, and the
  elements got lie between it and the end of the pool exactly when their number is at most the
  contiguous count of CO_SharedFifoNbEltCont_NonRound.  The test of the get uses the other count, so
  a get of a share that wraps around succeeds and hands out a run that passes the end of the pool.\<close>
theorem shared_fifo_get_bounds:
  assumes "fifo_inv f" "b < BlockNbr f" "CO_SharedFifoNbEltCont_NonRound f b = Some c"
    "CO_SharedFifoGet f b n = Some (CO_STATUS_OK, Some p, g)" "0 < n"
  shows "EltBasePtr f \<le> p \<and> p + EltSize f \<le> EltBasePtr f + EltNbr f * EltSize f \<and>
    (p - EltBasePtr f) mod EltSize f = 0 \<and>
    (p + n * EltSize f \<le> EltBasePtr f + EltNbr f * EltSize f \<longleftrightarrow> n \<le> c)"
proof -
  let ?O = "sf_Out (IdxTab f ! b)" and ?I = "sf_In (IdxTab f ! b)"
  note d = fifo_invD [OF assms(1)] and i = fifo_inv_idx [OF assms(1,2)]
  have n: "n = int (nat n)" using assms(5) by simp
  have a: "nat n \<le> n_avail f b"
    using assms(4) Get_spec(2) [OF assms(1,2), of "nat n"] n by (metis Pair_inject co_status.distinct(1) not_le option.inject)
  then have p: "p = EltBasePtr f + ?O * EltSize f"
    using Get_spec(1) [OF assms(1,2), of "nat n"] assms(4) n by (auto simp: elt_addr_def)
  have c: "c = (if ?O \<le> ?I then ?I - ?O else EltNbr f - ?O)"
    using assms(3) i d(5) by (auto simp: CO_SharedFifoNbEltCont_NonRound_def u32_of_def)
  have "p + n * EltSize f \<le> EltBasePtr f + EltNbr f * EltSize f
      \<longleftrightarrow> (?O + n) * EltSize f \<le> EltNbr f * EltSize f"
    by (simp add: p algebra_simps)
  also have "\<dots> \<longleftrightarrow> ?O + n \<le> EltNbr f" using d(6) by simp
  also have "\<dots> \<longleftrightarrow> n \<le> c"
    using c i a n by (auto simp: n_avail_def diff_mod_ring le_nat_iff)
  finally have "p + n * EltSize f \<le> EltBasePtr f + EltNbr f * EltSize f \<longleftrightarrow> n \<le> c" .
  then show ?thesis using p i d(6) GetPtr_bounds(2) [OF assms(1) i(3,4)] by simp
qed

theorem shared_fifo_get_bounds_witness:
  "\<exists>p g. CO_SharedFifoGet sf_wrapped 0 3 = Some (CO_STATUS_OK, Some p, g) \<and>
    \<not> p + 3 * EltSize sf_wrapped \<le> EltBasePtr sf_wrapped + EltNbr sf_wrapped * EltSize sf_wrapped"
proof -
  have b: "0 < BlockNbr sf_wrapped" by (simp add: sf_wrapped_def sf_five_inv)
  have a: "n_avail sf_wrapped 0 = 3" by (simp add: n_avail_def sf_wrapped_def sf_five_fields)
  have c: "CO_SharedFifoNbEltCont_NonRound sf_wrapped 0 = Some 1"
    by (simp add: CO_SharedFifoNbEltCont_NonRound_def sf_blk_def sf_wrapped_def sf_five_fields u32_of_def)
  obtain p g where "CO_SharedFifoGet sf_wrapped 0 3 = Some (CO_STATUS_OK, Some p, g)"
    using Get_spec(1) [OF sf_wrapped_inv b, of 3] a by auto
  then show ?thesis using shared_fifo_get_bounds [OF sf_wrapped_inv b c] by fastforce
qed

text \<open>The operations of the clients, a put being of elements its block works on.\<close>

datatype sf_op = Get nat nat | Put nat nat

fun sf_allowed :: "sf_op \<Rightarrow> shared_fifo \<Rightarrow> bool" where
  "sf_allowed (Get b n) f = (b < BlockNbr f)" |
  "sf_allowed (Put b n) f = (b < BlockNbr f \<and> can_put f b n)"

fun sf_do :: "sf_op \<Rightarrow> shared_fifo \<Rightarrow> shared_fifo option" where
  "sf_do (Get b n) f = map_option (\<lambda>(st, p, g). g) (CO_SharedFifoGet f b (int n))" |
  "sf_do (Put b n) f = map_option snd (CO_SharedFifoPut f b (int n))"

inductive sf_reach :: "shared_fifo \<Rightarrow> shared_fifo \<Rightarrow> bool" for f where
  start: "sf_reach f f"
| step: "sf_reach f g \<Longrightarrow> sf_allowed a g \<Longrightarrow> sf_do a g = Some h \<Longrightarrow> sf_reach f h"

lemma sf_do_ok:
  assumes "fifo_inv g" "sf_allowed a g"
  obtains h where "sf_do a g = Some h" "fifo_inv h" "BlockNbr h = BlockNbr g" "EltNbr h = EltNbr g"
    "EltSize h = EltSize g" "EltBasePtr h = EltBasePtr g"
proof (cases a)
  case (Get b n)
  then have b: "b < BlockNbr g" using assms(2) by simp
  show ?thesis
  proof (cases "n \<le> n_avail g b")
    case True
    then show ?thesis using that [of "got g b n"] Get b Get_spec(1) [OF assms(1) b True] got_inv [OF assms(1) b True]
      by (simp add: got_ok)
  next
    case False
    then show ?thesis using that [of g] Get Get_spec(2) [OF assms(1) b, of n] assms(1) by simp
  qed
next
  case (Put b n)
  then have b: "b < BlockNbr g" and c: "can_put g b n" using assms(2) by auto
  show ?thesis using that [of "put_to g (next_blk g b) n"] Put Put_spec [OF assms(1) b can_put_bound [OF assms(1) b c]]
      put_inv [OF assms(1) b c] by (simp add: put_to_ok)
qed

text \<open>C21: whatever the blocks get and put in any order, every element of the pool is at all times in
  exactly one place: the share of one block or the hands of one.  Nothing is lost, and no element is
  given to two blocks.\<close>
theorem shared_fifo_partition:
  assumes "CO_SharedFifoInit phy base nbr esize n f0 = Some f" "length (IdxTab f0) = 4"
    "2 \<le> n" "2 \<le> nbr" "nbr \<le> 2 ^ 31" "0 < esize" "nbr * esize < 2 ^ 32" "sf_reach f g"
  shows "set (concat (map (\<lambda>b. fifo_avail g b @ fifo_held g b) [0..<n])) = {0..<nbr} \<and>
    distinct (concat (map (\<lambda>b. fifo_avail g b @ fifo_held g b) [0..<n])) \<and>
    (\<forall>a. sf_allowed a g \<longrightarrow> sf_do a g \<noteq> None)"
proof -
  note i = init_inv [OF assms(1-7)]
  from assms(8) have g: "fifo_inv g \<and> BlockNbr g = n \<and> EltNbr g = nbr"
  proof induction
    case start then show ?case using i by simp
  next
    case (step g a h)
    then show ?case using sf_do_ok [of g a] by (metis option.inject)
  qed
  then show ?thesis using shares_partition [of g] sf_do_ok [of g] by (metis option.distinct(1))
qed

theorem shared_fifo_partition_witness:
  "\<exists>g. sf_reach sf_five g \<and> fifo_avail g 0 = [2, 3, 4] \<and>
    distinct (concat (map (\<lambda>b. fifo_avail g b @ fifo_held g b) [0..<3]))"
proof -
  have f: "CO_SharedFifoInit 4096 4096 5 32 3 sf_zero = Some sf_five"
    by (simp add: sf_five_def CO_SharedFifoInit_def sf_zero_def Let_def)
  have b: "0 < BlockNbr sf_five" by (simp add: sf_five_inv)
  have a: "fifo_avail sf_five 0 = [1, 2, 3, 4]"
    using init_inv(2) [OF f] by (simp add: sf_zero_def upto_rec1)
  then have n: "1 \<le> n_avail sf_five 0" using length_avail [OF b] by simp
  let ?g = "got sf_five 0 1"
  have r: "sf_reach sf_five ?g"
    using sf_reach.step [OF sf_reach.start, of "Get 0 1" sf_five ?g] b Get_spec(1) [OF sf_five_inv(1) b n] by simp
  then show ?thesis
    using shared_fifo_partition [OF f _ _ _ _ _ _ r] got_avail [OF sf_five_inv(1) b n] a
    by (intro exI [of _ ?g]) (simp add: sf_zero_def)
qed

end
