(* ===== verification/WorkItem.thy ===== *)
theory WorkItem
  imports SharedFifo "HOL-Library.Multiset"
begin

text \<open>
  The work queue of wifi_drv_if.c (drv_hal_workitem_inital, drv_hal_add_workitem,
  drv_hal_workitem_task, drv_hal_workitem_is_working): work that may not run in an interrupt is put
  into a shared FIFO of two blocks and run by a task.  The client of the interface of SharedFifo:
  block 0 fills elements, block 1 runs and frees them.  A task handler is a number; what a handler
  adds to the queue while it runs is a parameter.  The counter of repeated tasks only rules a
  message and is left out, as is the dump of the indices.
\<close>

abbreviation (input) CO_WORK_GET :: nat where "CO_WORK_GET \<equiv> 0"
abbreviation (input) CO_WORK_FREE :: nat where "CO_WORK_FREE \<equiv> 1"

record hal_work_task =
  wt_task :: "nat option"
  wt_callback :: "nat option"
  wt_params :: "int list"

datatype work_event =
    RunTask nat "int list"
  | WorkOverflow
  | CallTask

record work_state =
  WorkFifo :: shared_fifo
  WorkFifoBuf :: "int \<Rightarrow> hal_work_task"
  work_log :: "work_event list"





text \<open>Running a handler, which may add items.\<close>

type_synonym handlers = "nat \<Rightarrow> int list \<Rightarrow> hal_work_task list"






section \<open>The queue\<close>

text \<open>The items waiting to be run, and how many more can be added.\<close>

definition pending :: "work_state \<Rightarrow> hal_work_task list" where
  "pending s = map (\<lambda>x. WorkFifoBuf s (elt_addr (WorkFifo s) x)) (fifo_avail (WorkFifo s) CO_WORK_FREE)"

definition work_room :: "work_state \<Rightarrow> nat" where
  "work_room s = length (fifo_avail (WorkFifo s) CO_WORK_GET)"

text \<open>No item is being filled; \<^verbatim>\<open>busy\<close> is the number of items being run.\<close>

definition work_inv :: "nat \<Rightarrow> work_state \<Rightarrow> bool" where
  "work_inv busy s \<longleftrightarrow> fifo_inv (WorkFifo s) \<and> BlockNbr (WorkFifo s) = 2 \<and>
     fifo_held (WorkFifo s) 0 = [] \<and> length (fifo_held (WorkFifo s) 1) = Suc busy"



text \<open>What the queue holds, and how many items can be added: together all of the pool but the unused
  element.\<close>

lemma work_capacity:
  assumes "work_inv busy s"
  shows "length (pending s) + work_room s + busy + 1 = nat (EltNbr (WorkFifo s))"
proof -
  note i = assms [unfolded work_inv_def]
  have "n_held (WorkFifo s) 0 = 0" using i length_held [of 0 "WorkFifo s"] by simp
  moreover have "n_held (WorkFifo s) 1 = Suc busy" using i length_held [of 1 "WorkFifo s"] by simp
  ultimately show ?thesis using fifo_invD(8) [of "WorkFifo s"] i
    by (simp add: numeral_2_eq_2 lessThan_Suc pending_def work_room_def)
qed


definition item_runs :: "hal_work_task \<Rightarrow> (nat \<times> int list) list" where
  "item_runs w = (case wt_task w of None \<Rightarrow> [] | Some h \<Rightarrow> [(h, wt_params w)]) @
     (case wt_callback w of None \<Rightarrow> [] | Some h \<Rightarrow> [(h, wt_params w)])"

text \<open>What the handlers of an item add.\<close>

definition item_adds :: "handlers \<Rightarrow> hal_work_task \<Rightarrow> hal_work_task list" where
  "item_adds H w = (case wt_task w of None \<Rightarrow> [] | Some h \<Rightarrow> H h (wt_params w)) @
     (case wt_callback w of None \<Rightarrow> [] | Some h \<Rightarrow> H h (wt_params w))"





lemma take_take_diff: "take n xs @ take (n - length xs) ys = take n (xs @ ys)"
  by simp



text \<open>The task over a plain list: the first item runs, and what its handlers add goes behind the
  others as far as there is room; its own place is free again when it has run.\<close>

inductive fifo_serve :: "handlers \<Rightarrow> nat \<Rightarrow> hal_work_task list \<Rightarrow> (nat \<times> int list) list \<Rightarrow> bool" where
  serve_none: "fifo_serve H r [] []"
| serve_first: "fifo_serve H (Suc (r - length (item_adds H w))) (ws @ take r (item_adds H w)) out \<Longrightarrow>
    fifo_serve H r (w # ws) (item_runs w @ out)"

inductive_simps fifo_serve_Nil [simp]: "fifo_serve H r [] out"





section \<open>Properties\<close>








end
