(* ===== verification/AirTime.thy ===== *)
theory AirTime
  imports Prelude
begin

text \<open>
  wifi_hal_txdesc.c: how long a frame takes on the air, for every rate of 11b, g, n and ac, how long
  its acknowledgement takes, and the longest aggregate a rate may carry.  The definitions follow the
  file; a table is a list, and reading it outside its bounds is None.  Rates are bytes, as on the
  wire to the firmware; lengths and durations are ints with the wrap of the C type written out.
\<close>

section \<open>Rates and constants\<close>

definition IS_HT_RATE :: "u8 \<Rightarrow> bool" where
  "IS_HT_RATE r \<longleftrightarrow> r AND 0xf0 = 0x80"

definition IS_VHT_RATE :: "u8 \<Rightarrow> bool" where
  "IS_VHT_RATE r \<longleftrightarrow> r AND 0xf0 = 0xc0"

definition GET_MCS :: "u8 \<Rightarrow> nat" where
  "GET_MCS r = unat (r AND 0x0f)"

definition IS_OFMD_RATE :: "u8 \<Rightarrow> bool" where
  "IS_OFMD_RATE r \<longleftrightarrow> 3 < r"

definition SYMBOL_TIME :: "int \<Rightarrow> int" where
  "SYMBOL_TIME n = n * 4"

definition SYMBOL_TIME_HALFGI :: "int \<Rightarrow> int" where
  "SYMBOL_TIME_HALFGI n = (n * 18 + 4) div 5"

abbreviation (input) OFDM_PLCP_BITS :: int where "OFDM_PLCP_BITS \<equiv> 22"
abbreviation (input) PHY_TEST :: int where "PHY_TEST \<equiv> 20"
abbreviation (input) BW_40 :: nat where "BW_40 \<equiv> 1"

datatype preamble = PREAMBLE_LONG | PREAMBLE_SHORT

section \<open>Tables\<close>

definition our_ack_time_short :: "int list" where
  "our_ack_time_short = [314, 162, 127, 117, 60, 60, 48, 48, 44, 44, 44, 44]"

definition our_ack_time_11b_long :: "int list" where
  "our_ack_time_11b_long = [314, 258, 223, 213]"

definition our_ba_txtime_short :: "int list" where
  "our_ba_txtime_short = [362, 234, 153, 130, 84, 68, 60, 52, 48, 44, 44, 44]"

definition our_ba_txtime_11b_long :: "int list" where
  "our_ba_txtime_11b_long = [458, 330, 249, 226]"

text \<open>Bits per symbol, at 20 and 40 MHz, and for 11ac at 80 and 160 MHz too.\<close>

definition ht_bits_per_symbol :: "int list list" where
  "ht_bits_per_symbol = [[26, 54], [52, 108], [78, 162], [104, 216], [156, 324], [208, 432],
     [234, 486], [260, 540]]"

definition vht_bits_per_symbol :: "int list list" where
  "vht_bits_per_symbol = [[26, 54, 117, 234], [52, 108, 234, 468], [78, 162, 351, 702],
     [104, 216, 468, 936], [156, 324, 702, 1404], [208, 432, 936, 1872], [234, 486, 1053, 2106],
     [260, 540, 1170, 2340], [312, 648, 1404, 2808], [0, 720, 1560, 3120]]"

text \<open>Air time of a block acknowledgement and of an acknowledgement: by MCS, guard interval (long,
  short) and band width (20, 40 MHz).\<close>

definition ht_ba_txtime :: "int list list list" where
  "ht_ba_txtime = [[[80, 60], [76, 58]], [[60, 48], [58, 47]], [[52, 44], [51, 44]], [[48, 44], [47, 44]],
     [[44, 40], [44, 40]], [[44, 40], [44, 40]], [[44, 40], [44, 40]], [[44, 40], [44, 40]]]"

definition vht_ba_txtime :: "int list" where
  "vht_ba_txtime = [68, 44, 44, 32, 32, 32, 32, 32, 32, 32]"

definition ht_ack_txtime :: "int list list list" where
  "ht_ack_txtime = [[[60, 48], [58, 47]], [[48, 44], [47, 44]], [[44, 40], [44, 40]], [[44, 40], [44, 40]],
     [[40, 40], [40, 40]], [[40, 40], [40, 40]], [[40, 40], [40, 40]], [[40, 40], [40, 40]]]"

definition arr2 :: "'a list list \<Rightarrow> nat \<Rightarrow> nat \<Rightarrow> 'a option" where
  "arr2 t i j = Option.bind (arr t i) (\<lambda>r. arr r j)"

definition arr3 :: "'a list list list \<Rightarrow> nat \<Rightarrow> nat \<Rightarrow> nat \<Rightarrow> 'a option" where
  "arr3 t i j k = Option.bind (arr t i) (\<lambda>r. arr2 r j k)"

text \<open>The rate control tables, as hal_tx_desc_init fills them: the duration of a bit in 2^-18 us, the
  rates of the RTS and of the acknowledgement, the transmit power.\<close>

record rate_control =
  bit_time :: int
  rts_rate :: u8
  ack_rate :: u8
  tx_power :: nat

record mcs_control =
  mcs_rts_rate :: u8
  mcs_ack_rate :: u8
  mcs_tx_power :: nat

definition our_rate_controls :: "rate_control list" where
  "our_rate_controls =
    [\<lparr>bit_time = 262144, rts_rate = 0, ack_rate = 0, tx_power = 0\<rparr>,
     \<lparr>bit_time = 131072, rts_rate = 0, ack_rate = 0, tx_power = 0\<rparr>,
     \<lparr>bit_time = 47662, rts_rate = 2, ack_rate = 2, tx_power = 1\<rparr>,
     \<lparr>bit_time = 23831, rts_rate = 2, ack_rate = 2, tx_power = 1\<rparr>,
     \<lparr>bit_time = 43690, rts_rate = 4, ack_rate = 4, tx_power = 2\<rparr>,
     \<lparr>bit_time = 29127, rts_rate = 4, ack_rate = 4, tx_power = 2\<rparr>,
     \<lparr>bit_time = 21845, rts_rate = 6, ack_rate = 6, tx_power = 2\<rparr>,
     \<lparr>bit_time = 14563, rts_rate = 6, ack_rate = 6, tx_power = 3\<rparr>,
     \<lparr>bit_time = 10922, rts_rate = 8, ack_rate = 8, tx_power = 3\<rparr>,
     \<lparr>bit_time = 7281, rts_rate = 8, ack_rate = 8, tx_power = 3\<rparr>,
     \<lparr>bit_time = 5461, rts_rate = 8, ack_rate = 8, tx_power = 4\<rparr>,
     \<lparr>bit_time = 4854, rts_rate = 8, ack_rate = 8, tx_power = 5\<rparr>]"

definition our_htmcs_controls :: "mcs_control list" where
  "our_htmcs_controls =
    [\<lparr>mcs_rts_rate = 4, mcs_ack_rate = 4, mcs_tx_power = 6\<rparr>,
     \<lparr>mcs_rts_rate = 4, mcs_ack_rate = 4, mcs_tx_power = 6\<rparr>,
     \<lparr>mcs_rts_rate = 4, mcs_ack_rate = 4, mcs_tx_power = 6\<rparr>,
     \<lparr>mcs_rts_rate = 6, mcs_ack_rate = 6, mcs_tx_power = 7\<rparr>,
     \<lparr>mcs_rts_rate = 6, mcs_ack_rate = 6, mcs_tx_power = 7\<rparr>,
     \<lparr>mcs_rts_rate = 6, mcs_ack_rate = 6, mcs_tx_power = 7\<rparr>,
     \<lparr>mcs_rts_rate = 8, mcs_ack_rate = 8, mcs_tx_power = 8\<rparr>,
     \<lparr>mcs_rts_rate = 8, mcs_ack_rate = 8, mcs_tx_power = 9\<rparr>]"

definition our_vhtmcs_controls :: "mcs_control list" where
  "our_vhtmcs_controls =
    [\<lparr>mcs_rts_rate = 4, mcs_ack_rate = 4, mcs_tx_power = 10\<rparr>,
     \<lparr>mcs_rts_rate = 4, mcs_ack_rate = 4, mcs_tx_power = 10\<rparr>,
     \<lparr>mcs_rts_rate = 4, mcs_ack_rate = 4, mcs_tx_power = 10\<rparr>,
     \<lparr>mcs_rts_rate = 6, mcs_ack_rate = 6, mcs_tx_power = 11\<rparr>,
     \<lparr>mcs_rts_rate = 6, mcs_ack_rate = 6, mcs_tx_power = 11\<rparr>,
     \<lparr>mcs_rts_rate = 6, mcs_ack_rate = 6, mcs_tx_power = 11\<rparr>,
     \<lparr>mcs_rts_rate = 8, mcs_ack_rate = 8, mcs_tx_power = 12\<rparr>,
     \<lparr>mcs_rts_rate = 8, mcs_ack_rate = 8, mcs_tx_power = 13\<rparr>,
     \<lparr>mcs_rts_rate = 8, mcs_ack_rate = 8, mcs_tx_power = 14\<rparr>,
     \<lparr>mcs_rts_rate = 8, mcs_ack_rate = 8, mcs_tx_power = 15\<rparr>]"

datatype nonht_mode = ERP_DSSS | ERP_CCK | ERP_OFDM | NON_HT_DUP_OFDM

definition hal_tx_desc_nonht_mode :: "u8 \<Rightarrow> nat \<Rightarrow> nonht_mode" where
  "hal_tx_desc_nonht_mode r bw =
    (if r = 0 \<or> r = 1 then ERP_DSSS
     else if r = 3 \<or> r = 2 then ERP_CCK
     else if (bw = 1 \<or> bw = 2) \<and> r AND 0xf0 = 0 then NON_HT_DUP_OFDM
     else ERP_OFDM)"

definition hal_tx_desc_get_power :: "u8 \<Rightarrow> nat option" where
  "hal_tx_desc_get_power r =
    (if IS_HT_RATE r then map_option mcs_tx_power (arr our_htmcs_controls (GET_MCS r))
     else if IS_VHT_RATE r then map_option mcs_tx_power (arr our_vhtmcs_controls (GET_MCS r))
     else map_option tx_power (arr our_rate_controls (unat r)))"

definition Hal_TxDescriptor_GetPreamble :: "u8 \<Rightarrow> preamble \<Rightarrow> int" where
  "Hal_TxDescriptor_GetPreamble r p =
    (if IS_OFMD_RATE r then 20 else if p = PREAMBLE_SHORT then 96 else 192)"

definition Hal_TxDescriptor_GetAckRate :: "u8 \<Rightarrow> u8 option" where
  "Hal_TxDescriptor_GetAckRate r =
    (if IS_HT_RATE r then map_option mcs_ack_rate (arr our_htmcs_controls (GET_MCS r))
     else if IS_VHT_RATE r then map_option mcs_ack_rate (arr our_vhtmcs_controls (GET_MCS r))
     else map_option ack_rate (arr our_rate_controls (unat r)))"

definition Hal_TxDescriptor_GetRtsRate :: "u8 \<Rightarrow> u8 option" where
  "Hal_TxDescriptor_GetRtsRate r =
    (if IS_HT_RATE r then map_option mcs_rts_rate (arr our_htmcs_controls (GET_MCS r))
     else if IS_VHT_RATE r then map_option mcs_rts_rate (arr our_vhtmcs_controls (GET_MCS r))
     else map_option rts_rate (arr our_rate_controls (unat r)))"

definition Hal_TxDescriptor_HT_GetPreamble :: "bool \<Rightarrow> int" where
  "Hal_TxDescriptor_HT_GetPreamble green =
    (if green then 8 + 8 + 8 + 4 else 8 + 8 + 4 + 8 + 4 + 4)"

definition Hal_TxDescriptor_VHT_GetPreamble :: int where
  "Hal_TxDescriptor_VHT_GetPreamble = 0 + 8 + 8 + 4 + 8 + 4 + 4 + 4"

section \<open>Air time\<close>

definition Hal_TxDescriptor_HT_GetAckTime :: "u8 \<Rightarrow> bool \<Rightarrow> bool \<Rightarrow> nat \<Rightarrow> int option" where
  "Hal_TxDescriptor_HT_GetAckTime r gi rifs bw =
    map_option (\<lambda>t. (if rifs then 2 else 16) + t) (arr3 ht_ack_txtime (GET_MCS r) (of_bool gi) bw)"

definition Hal_TxDescriptor_HT_GetBATime :: "u8 \<Rightarrow> bool \<Rightarrow> bool \<Rightarrow> nat \<Rightarrow> int option" where
  "Hal_TxDescriptor_HT_GetBATime r gi rifs bw =
    map_option (\<lambda>t. (if rifs then 2 else 16) + t) (arr3 ht_ba_txtime (GET_MCS r) (of_bool gi) bw)"

definition duration_of :: "bool \<Rightarrow> int \<Rightarrow> int" where
  "duration_of gi n = u16_of (if gi then SYMBOL_TIME_HALFGI n else SYMBOL_TIME n)"

text \<open>The length of a frame is an unsigned short, the number of bits an unsigned int.\<close>

definition hal_txdescriptor_ht_gettxTime :: "u8 \<Rightarrow> int \<Rightarrow> bool \<Rightarrow> nat \<Rightarrow> bool \<Rightarrow> int option" where
  "hal_txdescriptor_ht_gettxTime r pktlen gi bw green =
    (let nbits = u16_of pktlen * 8 + OFDM_PLCP_BITS in
     map_option (\<lambda>nsymbits.
        let nsymbols = u16_of ((nbits + nsymbits - 1) div nsymbits)
        in u16_of (duration_of gi nsymbols + Hal_TxDescriptor_HT_GetPreamble green))
       (arr2 ht_bits_per_symbol (GET_MCS r) (min bw BW_40)))"

definition Hal_TxDescriptor_VHT_GetTxTime :: "u8 \<Rightarrow> int \<Rightarrow> bool \<Rightarrow> nat \<Rightarrow> bool \<Rightarrow> int option" where
  "Hal_TxDescriptor_VHT_GetTxTime r pktlen gi bw green =
    (let nbits = u16_of pktlen * 8 + OFDM_PLCP_BITS in
     map_option (\<lambda>nsymbits.
        let nsymbols = (if nsymbits = 0 then 1 else u16_of ((nbits + nsymbits - 1) div nsymbits))
        in u16_of (duration_of gi nsymbols + Hal_TxDescriptor_VHT_GetPreamble))
       (arr2 vht_bits_per_symbol (GET_MCS r) bw))"

definition Hal_TxDescriptor_HT_GetDataTime :: "u8 \<Rightarrow> int \<Rightarrow> nat \<Rightarrow> int option" where
  "Hal_TxDescriptor_HT_GetDataTime r pktlen bw =
    map_option (\<lambda>nsymbits. duration_of False (u16_of ((u16_of pktlen * 8 + nsymbits - 1) div nsymbits)))
      (arr2 ht_bits_per_symbol (GET_MCS r) (min bw BW_40))"

text \<open>The legacy rates: \<^verbatim>\<open>length\<close> is an unsigned short, the product an unsigned int.\<close>

definition Hal_TxDescriptor_GetDuration :: "u8 \<Rightarrow> int \<Rightarrow> int option" where
  "Hal_TxDescriptor_GetDuration r len =
    map_option (\<lambda>c.
       let len = u16_of (len * 8);
           len = (if IS_OFMD_RATE r then u16_of (len + (16 + 6)) else len);
           d = u16_of (u32_of (bit_time c * len + (2 ^ 18 - 1)) div 2 ^ 18)
       in if IS_OFMD_RATE r then u16_of ((d + 3) AND NOT 3) else d)
      (arr our_rate_controls (unat r))"

definition Hal_TxDescriptor_GetLegacyTxTime :: "u8 \<Rightarrow> int \<Rightarrow> preamble \<Rightarrow> int option" where
  "Hal_TxDescriptor_GetLegacyTxTime r pktlen p =
    map_option (\<lambda>d. u16_of (Hal_TxDescriptor_GetPreamble r p + d)) (Hal_TxDescriptor_GetDuration r pktlen)"

text \<open>The length of the legacy signal field.\<close>

definition hal_tx_desc_get_len :: "u8 \<Rightarrow> int \<Rightarrow> bool \<Rightarrow> nat \<Rightarrow> bool \<Rightarrow> int option" where
  "hal_tx_desc_get_len r pktlen gi bw green =
    (if IS_HT_RATE r
     then map_option (\<lambda>t. u16_of ((t - 20) div 4 * 3 - 3)) (hal_txdescriptor_ht_gettxTime r pktlen gi bw green)
     else if IS_VHT_RATE r
     then map_option (\<lambda>t. u16_of ((t - 20) div 4 * 3 - 3)) (Hal_TxDescriptor_VHT_GetTxTime r pktlen gi bw green)
     else Some (u16_of pktlen))"

definition Hal_TxDescriptor_GetAckTimeout :: "u8 \<Rightarrow> int" where
  "Hal_TxDescriptor_GetAckTimeout r = (if IS_HT_RATE r \<or> IS_VHT_RATE r then 380 + PHY_TEST else 20 + PHY_TEST)"

definition Hal_TxDescriptor_GetAckTime :: "u8 \<Rightarrow> preamble \<Rightarrow> bool \<Rightarrow> bool \<Rightarrow> nat \<Rightarrow> int option" where
  "Hal_TxDescriptor_GetAckTime r p gi rifs bw =
    Option.bind (Hal_TxDescriptor_GetAckRate r) (\<lambda>a.
      if IS_HT_RATE a then Hal_TxDescriptor_HT_GetAckTime a gi rifs bw
      else if IS_VHT_RATE a then Hal_TxDescriptor_HT_GetAckTime a gi rifs bw
      else if p = PREAMBLE_SHORT \<or> IS_OFMD_RATE r
      then map_option (\<lambda>t. t + PHY_TEST) (arr our_ack_time_short (unat a))
      else map_option (\<lambda>t. t + PHY_TEST) (arr our_ack_time_11b_long (unat a)))"

definition Hal_TxDescriptor_GetBATime :: "u8 \<Rightarrow> preamble \<Rightarrow> bool \<Rightarrow> bool \<Rightarrow> nat \<Rightarrow> int option" where
  "Hal_TxDescriptor_GetBATime r p gi rifs bw =
    Option.bind (Hal_TxDescriptor_GetAckRate r) (\<lambda>a.
      if IS_HT_RATE a
      then map_option (\<lambda>t. (if rifs then 2 else 16) + t + PHY_TEST) (arr3 ht_ba_txtime (GET_MCS a) (of_bool gi) bw)
      else if IS_VHT_RATE a
      then map_option (\<lambda>t. (if rifs then 2 else 16) + t + PHY_TEST) (arr vht_ba_txtime (GET_MCS a))
      else if p = PREAMBLE_SHORT \<or> IS_OFMD_RATE r
      then map_option (\<lambda>t. t + PHY_TEST) (arr our_ba_txtime_short (unat a))
      else map_option (\<lambda>t. t + PHY_TEST) (arr our_ba_txtime_11b_long (unat a)))"

text \<open>The longest frame whose data fit into 4095 us.\<close>

definition max_send_packet_len :: "u8 \<Rightarrow> nat \<Rightarrow> bool \<Rightarrow> int option" where
  "max_send_packet_len r bw gi =
    (if \<not> IS_HT_RATE r \<and> \<not> IS_VHT_RATE r then Some 0
     else let preamble = (if IS_HT_RATE r then Hal_TxDescriptor_HT_GetPreamble False
                          else Hal_TxDescriptor_VHT_GetPreamble);
              t = 4095 - preamble;
              n = (if \<not> gi then t div 4 else t * 10 div 36);
              mcs = GET_MCS r
          in if mcs > 9 \<or> bw > 2 then Some 0
             else let mcs = (if mcs = 9 \<and> bw = 0 then 8 else mcs)
                  in if IS_HT_RATE r
                     then map_option (\<lambda>b. b * n div 8) (arr2 ht_bits_per_symbol (min mcs 7) (min bw BW_40))
                     else map_option (\<lambda>b. b * n div 8) (arr2 vht_bits_per_symbol mcs bw))"

datatype tv_format = NON_HT | HT_MF | VHT

definition hw_rate2tv_format :: "u8 \<Rightarrow> tv_format" where
  "hw_rate2tv_format r = (if IS_VHT_RATE r then VHT else if IS_HT_RATE r then HT_MF else NON_HT)"

end
