(* ===== verification/TxDesc.thy ===== *)
theory TxDesc
  imports AirTime
begin

text \<open>
  wifi_hal_txdesc.c: the descriptor in front of every frame, which tells the hardware how to send it:
  hal_tx_desc_build fills the one of the first frame of an aggregate, hal_tx_desc_build_sub copies it
  for the others.  A bit field keeps the low bits of what is assigned to it.  A rate outside the
  tables is None.  The fields of the received configuration (wifi_conf_mib) are arguments.
\<close>

unbundle bit_operations_syntax

section \<open>Records\<close>

text \<open>What the upper layer hands over: of the aggregate, and of the frame.\<close>

record hi_agg_tx_desc =
  ha_StaId :: int
  ha_KeyId :: int
  ha_EncryptType :: int
  ha_TID :: int
  ha_CurrentRate :: u8
  ha_TxTryRate1 :: u8
  ha_TxTryRate2 :: u8
  ha_TxTryRate3 :: u8
  ha_TxTryNum0 :: int
  ha_TxTryNum1 :: int
  ha_TxTryNum2 :: int
  ha_TxTryNum3 :: int
  ha_FLAG :: u16
  ha_FLAG2 :: u16
  ha_AGGR_len :: int
  ha_MpduNum :: int
  ha_vid :: int
  ha_HiP2pNoaCountNow :: int
  ha_aggr_page_num :: int

record hi_tx_priv_hdr =
  hp_MPDULEN :: int
  hp_Delimiter :: int
  hp_Flag :: int
  hp_Seqnum :: int
  hp_FrameControl :: u16
  hp_EncryptType :: int

text \<open>The transmit vector: the part that names the rate, and the rest.\<close>

record ht_sign =
  tv_format :: int
  tv_nonht_mod :: int
  tv_tx_pwr :: int
  tv_tx_rate :: int
  tv_Channel_BW :: int
  tv_cfend_flag :: int
  tv_bar_flag :: int
  tv_preamble_type :: int
  tv_GI_type :: int
  tv_beamformed :: int
  tv_antenna_set :: int
  tv_check_cca_bw :: int
  tv_rts_flag :: int
  tv_cts_flag :: int

record hw_tx_vector_bits =
  tv_fw_duration_valid :: int
  tv_rty_flag :: int
  tv_txcsum_enbale :: int
  tv_encrypted_disable :: int
  tv_htc_modify :: int
  tv_sq_valid :: int
  tv_fc_valid :: int
  tv_du_valid :: int
  tv_beacon_flag :: int
  tv_tkip_mic_enable :: int
  tv_llength_hw_calc :: int
  tv_ack_policy :: int
  tv_single_ampdu :: int
  tv_control_wrapper :: int
  tv_tid_num :: int
  tv_wnet_vif_id :: int
  tv_ack_to_en :: int
  tv_ack_timeout :: int
  tv_L_length :: int
  tv_length :: int
  tv_FrameControl :: u16
  tv_txop_time :: int
  tv_burst_en :: int
  tv_SequenceNum :: int
  tv_ampdu_flag :: int
  tv_no_sig_extn :: int
  tv_STBC :: int
  tv_dyn_bw_nonht :: int
  tv_txop_ps_not :: int
  tv_usr_postion :: int
  tv_group_id :: int
  tv_partial_id :: int
  tv_num_users :: int
  tv_sounding :: int
  tv_FEC_coding :: int
  tv_num_exten_ss :: int
  tv_num_tx :: int
  tv_num_sts :: int
  tv_ch_bw_nonht :: int
  tv_expansion_mat_type :: int
  tv_ht :: ht_sign

record HW_TxOption =
  to_is_bc :: bool
  to_key_type :: int
  to_pkt_position :: int
  to_KeyIdex :: int
  to_PN :: "u8 list"

record Fw_TxPriv =
  tp_pTxInfo :: int
  tp_FrameExchDur :: int
  tp_Flag :: u16
  tp_Flag2 :: u16
  tp_HiP2pNoaCountNow :: int
  tp_AggrLen :: int
  tp_SN :: int
  tp_TxCurrentRate :: u8
  tp_AggrNum :: int
  tp_txretrynum :: int
  tp_txsretrynum :: int
  tp_TID :: int
  tp_StaId :: int
  tp_PageNum :: int
  tp_txstatus :: int
  tp_vid :: int
  tp_hostcallbackid :: int
  tp_TxRate :: "u8 list"
  tp_TxRetry :: "int list"
  tp_aggr_page_num :: int

record hi_tx_desc =
  MPDUBufFlag :: int
  TxVector :: hw_tx_vector_bits
  TxOption :: HW_TxOption
  TxPriv :: Fw_TxPriv
  txdata :: "u8 list"

text \<open>The configuration that the descriptor reads.\<close>

record mib =
  dot11PreambleType :: preamble
  dot11Rifs :: bool

section \<open>Flags and bit fields\<close>

definition bits :: "nat \<Rightarrow> int \<Rightarrow> int" where
  "bits n x = x mod 2 ^ n"

definition flag :: "u16 \<Rightarrow> u16 \<Rightarrow> bool" where
  "flag w m \<longleftrightarrow> w AND m \<noteq> 0"

abbreviation (input) WIFI_IS_AGGR :: u16 where "WIFI_IS_AGGR \<equiv> 0x1"
abbreviation (input) WIFI_IS_NOACK :: u16 where "WIFI_IS_NOACK \<equiv> 0x2"
abbreviation (input) WIFI_IS_SHORTGI :: u16 where "WIFI_IS_SHORTGI \<equiv> 0x10"
abbreviation (input) WIFI_IS_PMF :: u16 where "WIFI_IS_PMF \<equiv> 0x20"
abbreviation (input) WIFI_IS_BURST :: u16 where "WIFI_IS_BURST \<equiv> 0x40"
abbreviation (input) WIFI_IS_Group :: u16 where "WIFI_IS_Group \<equiv> 0x80"
abbreviation (input) WIFI_IS_BLOCKACK :: u16 where "WIFI_IS_BLOCKACK \<equiv> 0x4000"
abbreviation (input) WIFI_IS_DYNAMIC_BW :: u16 where "WIFI_IS_DYNAMIC_BW \<equiv> 0x8000"
abbreviation (input) TX_DESCRIPTER_BEACON :: u16 where "TX_DESCRIPTER_BEACON \<equiv> 0x4"
abbreviation (input) TX_DESCRIPTER_P2P_PS_NOA_TRIGRSP :: u16 where "TX_DESCRIPTER_P2P_PS_NOA_TRIGRSP \<equiv> 0x200"
abbreviation (input) TX_DESCRIPTER_ENABLE_TX_LDPC :: u16 where "TX_DESCRIPTER_ENABLE_TX_LDPC \<equiv> 0x400"

definition DESC_BANDWIDTH :: "hi_agg_tx_desc \<Rightarrow> nat" where
  "DESC_BANDWIDTH d = unat (drop_bit 8 (ha_FLAG d AND 0x300))"

definition DESC_PREMBLETYPE :: "mib \<Rightarrow> hi_agg_tx_desc \<Rightarrow> preamble" where
  "DESC_PREMBLETYPE c d = (if ha_CurrentRate d = 0 then PREAMBLE_LONG else dot11PreambleType c)"

abbreviation DESC_IS_SHORTGI :: "hi_agg_tx_desc \<Rightarrow> bool" where
  "DESC_IS_SHORTGI d \<equiv> flag (ha_FLAG d) WIFI_IS_SHORTGI"

primrec preamble_code :: "preamble \<Rightarrow> int" where
  "preamble_code PREAMBLE_LONG = 0"
| "preamble_code PREAMBLE_SHORT = 1"

primrec nonht_mode_code :: "nonht_mode \<Rightarrow> int" where
  "nonht_mode_code ERP_DSSS = 0"
| "nonht_mode_code ERP_CCK = 1"
| "nonht_mode_code ERP_OFDM = 2"
| "nonht_mode_code NON_HT_DUP_OFDM = 6"

primrec tv_format_code :: "tv_format \<Rightarrow> int" where
  "tv_format_code NON_HT = 0"
| "tv_format_code HT_MF = 1"
| "tv_format_code VHT = 3"

section \<open>The time a frame and its response take\<close>

definition Hal_TxDescriptor_GetTxTime :: "mib \<Rightarrow> hi_agg_tx_desc \<Rightarrow> int option" where
  "Hal_TxDescriptor_GetTxTime c d =
    (let r = ha_CurrentRate d; len = ha_AGGR_len d; gi = DESC_IS_SHORTGI d; bw = DESC_BANDWIDTH d
     in if IS_HT_RATE r then hal_txdescriptor_ht_gettxTime r len gi bw False
        else if IS_VHT_RATE r then Hal_TxDescriptor_VHT_GetTxTime r len gi bw False
        else Hal_TxDescriptor_GetLegacyTxTime r len (DESC_PREMBLETYPE c d))"

definition add_opt :: "int option \<Rightarrow> int option \<Rightarrow> int option" where
  "add_opt x y = Option.bind x (\<lambda>a. map_option (\<lambda>b. a + b) y)"

definition Hal_TxDescriptor_GetTxTimeBA :: "mib \<Rightarrow> hi_agg_tx_desc \<Rightarrow> int option" where
  "Hal_TxDescriptor_GetTxTimeBA c d =
    add_opt (Hal_TxDescriptor_GetTxTime c d)
      (Hal_TxDescriptor_GetBATime (ha_CurrentRate d) (DESC_PREMBLETYPE c d) (DESC_IS_SHORTGI d)
         (dot11Rifs c) (DESC_BANDWIDTH d))"

definition Hal_TxDescriptor_GetCtsTime :: "mib \<Rightarrow> hi_agg_tx_desc \<Rightarrow> int option" where
  "Hal_TxDescriptor_GetCtsTime c d =
    (let r = ha_CurrentRate d; len = ha_AGGR_len d; gi = DESC_IS_SHORTGI d; bw = DESC_BANDWIDTH d;
         p = DESC_PREMBLETYPE c d;
         ack = Hal_TxDescriptor_GetAckTime r PREAMBLE_SHORT gi (dot11Rifs c) bw
     in if IS_HT_RATE r then add_opt (Some 16) (add_opt (hal_txdescriptor_ht_gettxTime r len gi bw False) ack)
        else if IS_VHT_RATE r then add_opt (Some 16) (add_opt (Hal_TxDescriptor_VHT_GetTxTime r len gi bw False) ack)
        else Option.bind (arr our_rate_controls (unat r)) (\<lambda>rc.
          if p = PREAMBLE_SHORT \<or> IS_OFMD_RATE r
          then add_opt (Some ((if IS_OFMD_RATE r then 16 else 10) + Hal_TxDescriptor_GetPreamble r p))
                 (add_opt (Hal_TxDescriptor_GetDuration r len) (arr our_ack_time_short (unat (ack_rate rc))))
          else add_opt (Some (10 + Hal_TxDescriptor_GetPreamble r p))
                 (add_opt (Hal_TxDescriptor_GetDuration r len) (arr our_ack_time_11b_long (unat (ack_rate rc))))))"

definition FrameExchDur :: "mib \<Rightarrow> hi_agg_tx_desc \<Rightarrow> int option" where
  "FrameExchDur c d =
    (if flag (ha_FLAG d) WIFI_IS_BLOCKACK
     then if \<not> flag (ha_FLAG d) WIFI_IS_NOACK then Hal_TxDescriptor_GetTxTimeBA c d
          else Hal_TxDescriptor_GetTxTime c d
     else if \<not> flag (ha_FLAG d) WIFI_IS_NOACK then Hal_TxDescriptor_GetCtsTime c d
          else Hal_TxDescriptor_GetTxTime c d)"

section \<open>Building the descriptor\<close>

definition hal_mac_frame_type :: "u16 \<Rightarrow> u16 \<Rightarrow> bool" where
  "hal_mac_frame_type fc type \<longleftrightarrow> fc AND (0xF OR 0xF0) = type"

definition ack_policy_of :: "u16 \<Rightarrow> int" where
  "ack_policy_of f =
    (if f AND (WIFI_IS_BLOCKACK OR WIFI_IS_NOACK) = WIFI_IS_BLOCKACK OR WIFI_IS_NOACK then 3
     else if flag f WIFI_IS_NOACK then 1 else 0)"

text \<open>A frame of 11ac that is not in an aggregate travels as an aggregate of one, and asks for a
  normal acknowledgement.\<close>

definition vht_single :: "hi_agg_tx_desc \<Rightarrow> bool" where
  "vht_single d \<longleftrightarrow> IS_VHT_RATE (ha_CurrentRate d) \<and> \<not> flag (ha_FLAG d) WIFI_IS_AGGR"

definition single_ampdu :: "hi_agg_tx_desc \<Rightarrow> hi_tx_desc \<Rightarrow> bool" where
  "single_ampdu d p \<longleftrightarrow> vht_single d \<and> MPDUBufFlag p AND 12 = 12"

definition build_ht :: "mib \<Rightarrow> hi_agg_tx_desc \<Rightarrow> nat \<Rightarrow> ht_sign \<Rightarrow> ht_sign" where
  "build_ht c d pw old =
    (let r = ha_CurrentRate d; bw = DESC_BANDWIDTH d
     in \<lparr>tv_format = bits 2 (tv_format_code (hw_rate2tv_format r)),
         tv_nonht_mod = bits 3 (nonht_mode_code (hal_tx_desc_nonht_mode r bw)),
         tv_tx_pwr = bits 4 (int pw),
         tv_tx_rate = uint r,
         tv_Channel_BW = int bw AND 3,
         tv_cfend_flag = 0,
         tv_bar_flag = 0,
         tv_preamble_type = bits 1 (preamble_code (DESC_PREMBLETYPE c d)),
         tv_GI_type = of_bool (DESC_IS_SHORTGI d),
         tv_beamformed = 0,
         tv_antenna_set = 0,
         tv_check_cca_bw = (if flag (ha_FLAG d) WIFI_IS_DYNAMIC_BW then 1 else tv_check_cca_bw old),
         tv_rts_flag = 0,
         tv_cts_flag = 0\<rparr>)"

definition build_vector :: "mib \<Rightarrow> hi_agg_tx_desc \<Rightarrow> hi_tx_priv_hdr \<Rightarrow> bool \<Rightarrow> nat \<Rightarrow> int \<Rightarrow> ht_sign \<Rightarrow> hw_tx_vector_bits" where
  "build_vector c d h single pw llen old =
    (let r = ha_CurrentRate d; f = ha_FLAG d; bw = DESC_BANDWIDTH d; dyn = flag f WIFI_IS_DYNAMIC_BW
     in \<lparr>tv_fw_duration_valid = of_bool (hal_mac_frame_type (hp_FrameControl h) (0x4 OR 0xA0)),
         tv_rty_flag = 0,
         tv_txcsum_enbale = 1,
         tv_encrypted_disable = of_bool (flag f WIFI_IS_PMF),
         tv_htc_modify = 0,
         tv_sq_valid = 0,
         tv_fc_valid = 1,
         tv_du_valid = 1,
         tv_beacon_flag = of_bool (flag (ha_FLAG2 d) TX_DESCRIPTER_BEACON),
         tv_tkip_mic_enable = 1,
         tv_llength_hw_calc = 0,
         tv_ack_policy = (if single then 0 else bits 2 (ack_policy_of f)),
         tv_single_ampdu = of_bool single,
         tv_control_wrapper = 0,
         tv_tid_num = 0,
         tv_wnet_vif_id = bits 2 (ha_vid d),
         tv_ack_to_en = of_bool (\<not> flag f WIFI_IS_NOACK),
         tv_ack_timeout = bits 9 (Hal_TxDescriptor_GetAckTimeout r),
         tv_L_length = bits 12 llen,
         tv_length = bits 20 (if vht_single d then ha_AGGR_len d + 4 else ha_AGGR_len d),
         tv_FrameControl = hp_FrameControl h,
         tv_txop_time = 0,
         tv_burst_en = of_bool (flag f WIFI_IS_BURST \<or> flag f WIFI_IS_BLOCKACK),
         tv_SequenceNum = bits 16 (hp_Seqnum h * 16),
         tv_ampdu_flag = (if vht_single d then 1 else of_bool (flag f WIFI_IS_AGGR)),
         tv_no_sig_extn = (if r > 3 then 0 else 1),
         tv_STBC = 0,
         tv_dyn_bw_nonht = of_bool dyn,
         tv_txop_ps_not = 0,
         tv_usr_postion = 0,
         tv_group_id = 0,
         tv_partial_id = 0,
         tv_num_users = 0,
         tv_sounding = 0,
         tv_FEC_coding = of_bool (hw_rate2tv_format r \<noteq> NON_HT \<and> flag (ha_FLAG2 d) TX_DESCRIPTER_ENABLE_TX_LDPC),
         tv_num_exten_ss = 0,
         tv_num_tx = 1,
         tv_num_sts = 0,
         tv_ch_bw_nonht = (if dyn then int bw AND 3 else 0),
         tv_expansion_mat_type = 1,
         tv_ht = build_ht c d pw old\<rparr>)"

text \<open>The firmware's part: the retry counts are cumulative bytes.\<close>

definition build_priv :: "hi_agg_tx_desc \<Rightarrow> hi_tx_priv_hdr \<Rightarrow> int \<Rightarrow> Fw_TxPriv \<Rightarrow> Fw_TxPriv" where
  "build_priv d h dur p =
    (let n0 = u8_of (ha_TxTryNum0 d);
         n1 = u8_of (ha_TxTryNum1 d + n0);
         n2 = u8_of (ha_TxTryNum2 d + n1);
         n3 = u8_of (ha_TxTryNum3 d + n2)
     in \<lparr>tp_pTxInfo = 0,
         tp_FrameExchDur = dur,
         tp_Flag = ha_FLAG d,
         tp_Flag2 = ha_FLAG2 d,
         tp_HiP2pNoaCountNow = (if flag (ha_FLAG2 d) TX_DESCRIPTER_P2P_PS_NOA_TRIGRSP
                                then ha_HiP2pNoaCountNow d else tp_HiP2pNoaCountNow p),
         tp_AggrLen = ha_AGGR_len d,
         tp_SN = hp_Seqnum h,
         tp_TxCurrentRate = ha_CurrentRate d,
         tp_AggrNum = u8_of (ha_MpduNum d),
         tp_txretrynum = 0,
         tp_txsretrynum = 0,
         tp_TID = ha_TID d,
         tp_StaId = ha_StaId d,
         tp_PageNum = tp_PageNum p,
         tp_txstatus = (if flag (ha_FLAG d) WIFI_IS_Group then 1 else tp_txstatus p),
         tp_vid = u8_of (ha_vid d),
         tp_hostcallbackid = 0,
         tp_TxRate = [ha_CurrentRate d, ha_TxTryRate1 d, ha_TxTryRate2 d, ha_TxTryRate3 d],
         tp_TxRetry = [n0, n1, n2, n3],
         tp_aggr_page_num = ha_aggr_page_num d\<rparr>)"

definition build_option :: "hi_agg_tx_desc \<Rightarrow> HW_TxOption \<Rightarrow> HW_TxOption" where
  "build_option d p = p\<lparr>to_is_bc := flag (ha_FLAG d) WIFI_IS_Group, to_key_type := ha_EncryptType d,
     to_KeyIdex := ha_KeyId d\<rparr>"

text \<open>Bits 5 and 6 of the quality of service octet, at offset 24 of the frame, are the acknowledgement
  policy.\<close>

definition clear_ack_policy :: "u8 list \<Rightarrow> u8 list" where
  "clear_ack_policy xs = xs[24 := xs ! 24 AND NOT 0x60]"

definition hal_tx_desc_build :: "mib \<Rightarrow> hi_agg_tx_desc \<Rightarrow> hi_tx_priv_hdr \<Rightarrow> hi_tx_desc \<Rightarrow> hi_tx_desc option" where
  "hal_tx_desc_build c d h p =
    Option.bind (hal_tx_desc_get_power (ha_CurrentRate d)) (\<lambda>pw.
    Option.bind (hal_tx_desc_get_len (ha_CurrentRate d) (ha_AGGR_len d) (DESC_IS_SHORTGI d) (DESC_BANDWIDTH d) False) (\<lambda>llen.
    Option.bind (FrameExchDur c d) (\<lambda>dur.
      Some (p\<lparr>TxVector := build_vector c d h (single_ampdu d p) pw llen (tv_ht (TxVector p)),
              TxOption := build_option d (TxOption p),
              TxPriv := build_priv d h dur (TxPriv p),
              txdata := (if single_ampdu d p then clear_ack_policy (txdata p) else txdata p)\<rparr>))))"

text \<open>The word in front of the descriptor: flags, the length of the frame and its padding.\<close>

definition HW_MPDU_LEN_GET :: "int \<Rightarrow> int" where
  "HW_MPDU_LEN_GET w = w div 2 ^ 6 AND 0x3fff"

definition HW_BUFFER_LEN_GET :: "int \<Rightarrow> int" where
  "HW_BUFFER_LEN_GET w = w div 2 ^ 20 AND 0xfff"

definition buf_flag :: "int \<Rightarrow> hi_tx_priv_hdr \<Rightarrow> int" where
  "buf_flag flags h =
    u32_of (((flags OR hp_MPDULEN h * 2 ^ 6) OR hp_Delimiter h * 2 ^ 20)
      OR (if hp_Flag h AND 4 = 0 then 8 else 0))"

text \<open>A page holds the length given by the bus less 12 bytes.\<close>

definition howmanypage :: "int \<Rightarrow> int \<Rightarrow> int" where
  "howmanypage x y = ((x - 12) + ((y - 12) - 1)) div (y - 12)"

definition hal_calc_mpdu_page :: "int \<Rightarrow> int \<Rightarrow> int \<Rightarrow> int" where
  "hal_calc_mpdu_page offset page_len mpdulen = howmanypage (mpdulen + offset) page_len"

definition hal_tx_desc_build_sub :: "int \<Rightarrow> int \<Rightarrow> hi_tx_priv_hdr \<Rightarrow> hi_tx_desc \<Rightarrow> hi_tx_desc \<Rightarrow> hi_tx_desc" where
  "hal_tx_desc_build_sub offset page_len h p first =
    (let pages = u8_of (hal_calc_mpdu_page offset page_len (hp_MPDULEN h))
     in p\<lparr>MPDUBufFlag := (if pages = 1 then buf_flag 3 h OR 2 else buf_flag 3 h),
          TxVector := TxVector first,
          TxOption := (TxOption first)\<lparr>to_is_bc := flag (tp_Flag (TxPriv first)) WIFI_IS_Group,
                       to_key_type := hp_EncryptType h\<rparr>,
          TxPriv := (TxPriv first)\<lparr>tp_PageNum := pages\<rparr>\<rparr>)"

text \<open>The descriptors of an aggregate, as hal_fill_agg_start and hal_fill_priv build them in the
  head room of each frame, which they clear first.\<close>

definition zero_ht :: ht_sign where
  "zero_ht = \<lparr>tv_format = 0, tv_nonht_mod = 0, tv_tx_pwr = 0, tv_tx_rate = 0, tv_Channel_BW = 0,
     tv_cfend_flag = 0, tv_bar_flag = 0, tv_preamble_type = 0, tv_GI_type = 0, tv_beamformed = 0,
     tv_antenna_set = 0, tv_check_cca_bw = 0, tv_rts_flag = 0, tv_cts_flag = 0\<rparr>"

definition zero_vector :: hw_tx_vector_bits where
  "zero_vector = \<lparr>tv_fw_duration_valid = 0, tv_rty_flag = 0, tv_txcsum_enbale = 0,
     tv_encrypted_disable = 0, tv_htc_modify = 0, tv_sq_valid = 0, tv_fc_valid = 0, tv_du_valid = 0,
     tv_beacon_flag = 0, tv_tkip_mic_enable = 0, tv_llength_hw_calc = 0, tv_ack_policy = 0,
     tv_single_ampdu = 0, tv_control_wrapper = 0, tv_tid_num = 0, tv_wnet_vif_id = 0,
     tv_ack_to_en = 0, tv_ack_timeout = 0, tv_L_length = 0, tv_length = 0, tv_FrameControl = 0,
     tv_txop_time = 0, tv_burst_en = 0, tv_SequenceNum = 0, tv_ampdu_flag = 0, tv_no_sig_extn = 0,
     tv_STBC = 0, tv_dyn_bw_nonht = 0, tv_txop_ps_not = 0, tv_usr_postion = 0, tv_group_id = 0,
     tv_partial_id = 0, tv_num_users = 0, tv_sounding = 0, tv_FEC_coding = 0, tv_num_exten_ss = 0,
     tv_num_tx = 0, tv_num_sts = 0, tv_ch_bw_nonht = 0, tv_expansion_mat_type = 0, tv_ht = zero_ht\<rparr>"

definition zero_priv :: Fw_TxPriv where
  "zero_priv = \<lparr>tp_pTxInfo = 0, tp_FrameExchDur = 0, tp_Flag = 0, tp_Flag2 = 0,
     tp_HiP2pNoaCountNow = 0, tp_AggrLen = 0, tp_SN = 0, tp_TxCurrentRate = 0, tp_AggrNum = 0,
     tp_txretrynum = 0, tp_txsretrynum = 0, tp_TID = 0, tp_StaId = 0, tp_PageNum = 0,
     tp_txstatus = 0, tp_vid = 0, tp_hostcallbackid = 0, tp_TxRate = [0, 0, 0, 0],
     tp_TxRetry = [0, 0, 0, 0], tp_aggr_page_num = 0\<rparr>"

definition zero_desc :: "u8 list \<Rightarrow> hi_tx_desc" where
  "zero_desc data = \<lparr>MPDUBufFlag = 0, TxVector = zero_vector,
     TxOption = \<lparr>to_is_bc = False, to_key_type = 0, to_pkt_position = 0, to_KeyIdex = 0, to_PN = replicate 16 0\<rparr>,
     TxPriv = zero_priv, txdata = data\<rparr>"

definition in_hal :: "hi_tx_desc \<Rightarrow> hi_tx_desc" where
  "in_hal p = p\<lparr>TxOption := (TxOption p)\<lparr>to_pkt_position := 1\<rparr>\<rparr>"

definition fill_first :: "int \<Rightarrow> int \<Rightarrow> mib \<Rightarrow> hi_agg_tx_desc \<Rightarrow> hi_tx_priv_hdr \<Rightarrow> u8 list \<Rightarrow> hi_tx_desc option" where
  "fill_first offset page_len c d h data =
    (let p = zero_desc data
     in map_option in_hal
       (hal_tx_desc_build c d h (p\<lparr>TxPriv := (TxPriv p)\<lparr>tp_SN := hp_Seqnum h,
          tp_PageNum := u8_of (hal_calc_mpdu_page offset page_len (hp_MPDULEN h))\<rparr>,
          MPDUBufFlag := buf_flag 7 h\<rparr>)))"

definition fill_sub :: "int \<Rightarrow> int \<Rightarrow> hi_tx_desc \<Rightarrow> hi_tx_priv_hdr \<Rightarrow> u8 list \<Rightarrow> hi_tx_desc" where
  "fill_sub offset page_len first h data =
    (let q = in_hal (hal_tx_desc_build_sub offset page_len h (zero_desc data) first)
     in q\<lparr>TxPriv := (TxPriv q)\<lparr>tp_SN := hp_Seqnum h\<rparr>\<rparr>)"

end
