(* ===== verification/AirTimeProps.thy ===== *)
theory AirTimeProps
  imports AirTime
begin

text \<open>
  What the air times of wifi_hal_txdesc.c are: the fixed-point durations of the legacy rates are the
  exact ones of the standard, the tables of responses hold what the formulas give, and the longest
  aggregate of a rate lasts at most 4095 us, but for the 22 bits of service and tail that the code
  leaves out.
\<close>

section \<open>Fixed-point arithmetic\<close>

text \<open>Fixed-point arithmetic: a bit lasts b / M us where c / r is meant; e is the error of b.\<close>
lemma fixed_point_ceil:
  fixes b r c M e g L :: int
  assumes "0 < r" "0 < M" "0 < c" "0 \<le> L" "0 \<le> b" "b * r + e = c * M" "0 \<le> e"
    and g: "g dvd c * L" "g dvd r" and gap: "e * (c * L div r) < g * b"
  shows "(b * L + (M - 1)) div M = (c * L + r - 1) div r"
proof -
  define q where "q = (c * L + r - 1) div r"
  have cM: "c * (M * x) = b * (r * x) + e * x" for x
  proof -
    have "c * (M * x) = (b * r + e) * x" unfolding assms(6) by simp
    then show ?thesis by (simp add: algebra_simps)
  qed
  have up: "c * L \<le> r * q" and lo: "r * (q - 1) < c * L"
    using assms(1) pos_mod_bound[of r "c * L + r - 1"] pos_mod_sign[of r "c * L + r - 1"]
      mult_div_mod_eq[of r "c * L + r - 1"] unfolding q_def right_diff_distrib by linarith+
  have lo2: "r * (q - 1) \<le> c * L - g"
  proof -
    have "g dvd c * L - r * (q - 1)" using g by simp
    then show ?thesis using lo zdvd_imp_le[of g "c * L - r * (q - 1)"] by linarith
  qed
  have "b * (c * L) \<le> b * (r * q)" using up assms(5) by (rule mult_left_mono)
  also have "\<dots> \<le> (b * r + e) * q"
  proof -
    have "0 \<le> c * L" using assms(3,4) by simp
    then have "0 \<le> q" unfolding q_def using assms(1) by (simp add: pos_imp_zdiv_nonneg_iff)
    then show ?thesis using assms(7) by (simp add: algebra_simps)
  qed
  finally have "c * (b * L) \<le> c * (M * q)" unfolding cM by (simp add: algebra_simps)
  then have above: "b * L \<le> M * q" using assms(3) by simp
  have "q - 1 \<le> c * L div r"
    using zdiv_mono1[of "r * (q - 1)" "c * L" r] lo assms(1) nonzero_mult_div_cancel_left[of r "q - 1"] by linarith
  then have eq: "e * (q - 1) < g * b" using gap assms(7) by (meson mult_left_mono le_less_trans)
  have "c * (M * (q - 1)) = b * (r * (q - 1)) + e * (q - 1)" by (rule cM)
  also have "\<dots> \<le> b * (c * L - g) + e * (q - 1)" using lo2 assms(5) by (simp add: mult_left_mono)
  also have "\<dots> < c * (b * L)" using eq by (simp add: algebra_simps)
  finally have below: "M * (q - 1) < b * L" using assms(3) by simp
  have "b * L + (M - 1) = M * q + (b * L + (M - 1) - M * q)" by simp
  moreover have "0 \<le> b * L + (M - 1) - M * q" "b * L + (M - 1) - M * q < M" using above below by (simp_all add: algebra_simps)
  ultimately show ?thesis unfolding q_def[symmetric] by (rule int_div_pos_eq)
qed

section \<open>Reference formulas\<close>

text \<open>The legacy rates in 100 kbit/s, and the air time of the standard: CCK counts bits, OFDM counts
  symbols of 4 us that carry 4 bits per Mbit/s, after 16 service bits and 6 tail bits.\<close>

definition legacy_rates :: "int list" where
  "legacy_rates = [10, 20, 55, 110, 60, 90, 120, 180, 240, 360, 480, 540]"

definition ceil_div :: "int \<Rightarrow> int \<Rightarrow> int" where
  "ceil_div a b = (a + b - 1) div b"

definition legacy_airtime :: "u8 \<Rightarrow> int \<Rightarrow> int" where
  "legacy_airtime r len =
    (let r10 = legacy_rates ! unat r
     in if IS_OFMD_RATE r then 4 * ceil_div (8 * len + 22) (4 * (r10 div 10))
        else ceil_div (8 * len * 10) r10)"

lemma ceil_div_scale: "0 < k \<Longrightarrow> 0 < b \<Longrightarrow> ceil_div (k * a) (k * b) = ceil_div a b"
proof -
  assume "0 < k" "0 < b"
  have "(k * a + k * b - 1) div (k * b) = ((k * (a + b - 1) + (k - 1)) div k) div b"
    using zdiv_zmult2_eq[of b "k * a + k * b - 1" k] \<open>0 < b\<close> by (simp add: algebra_simps)
  also have "(k * (a + b - 1) + (k - 1)) div k = a + b - 1"
    by (rule int_div_pos_eq[of _ _ _ "k - 1"]) (use \<open>0 < k\<close> in auto)
  finally show ?thesis by (simp add: ceil_div_def)
qed

lemma ceil_div_ceil_div: "0 < b \<Longrightarrow> 0 < c \<Longrightarrow> ceil_div (ceil_div a b) c = ceil_div a (b * c)"
proof -
  assume "0 < b" "0 < c"
  have "(a + b - 1 + (c - 1) * b) div b = (a + b - 1) div b + (c - 1)"
    using \<open>0 < b\<close> by (simp only: div_mult_self1[of b] less_imp_neq[symmetric] add.commute) simp
  then have "ceil_div (ceil_div a b) c = ((a + b - 1 + (c - 1) * b) div b) div c"
    unfolding ceil_div_def by (simp only: add_diff_eq)
  also have "\<dots> = (a + b - 1 + (c - 1) * b) div (b * c)"
    using \<open>0 < b\<close> \<open>0 < c\<close> by (simp add: zdiv_zmult2_eq)
  also have "a + b - 1 + (c - 1) * b = a + b * c - 1" by (simp add: algebra_simps)
  finally show ?thesis by (simp add: ceil_div_def)
qed

text \<open>Clearing the low two bits rounds down to a multiple of four.\<close>
lemma and_not_3: "(x AND NOT 3) = 4 * (x div 4)" for x :: int
proof -
  have "x AND NOT (mask 2) = push_bit 2 (drop_bit 2 x)"
  proof (rule bit_eqI)
    fix n show "bit (x AND NOT (mask 2)) n = bit (push_bit 2 (drop_bit 2 x)) n"
      by (cases "2 \<le> n") (auto simp: bit_simps dest!: le_Suc_ex)
  qed
  then show ?thesis by (simp add: mask_eq_exp_minus_1 push_bit_eq_mult drop_bit_eq_div)
qed

lemma fixed_point_ceil_div:
  fixes b r c M e g L :: int
  assumes "0 < r" "0 < M" "0 < c" "0 \<le> L" "0 \<le> b" "b * r + e = c * M" "0 \<le> e"
    and g: "g dvd c * L" "g dvd r" and gap: "e * (c * L div r) < g * b"
  shows "ceil_div (b * L) M = ceil_div (c * L) r"
  using fixed_point_ceil[OF assms] by (simp add: ceil_div_def algebra_simps)

lemma gap_bound:
  fixes e c L r g b B :: int
  assumes "0 < r" "0 \<le> e" "c * L \<le> B" "e * (B div r) < g * b"
  shows "e * (c * L div r) < g * b"
  using assms mult_left_mono[OF zdiv_mono1[OF assms(3,1)] assms(2)] by linarith

text \<open>The code's arithmetic at an OFDM rate with a bit of b / 2^18 us, and at a CCK rate.\<close>
lemma ofdm_duration:
  assumes "0 \<le> len" "len < 2048" "0 < m" "0 \<le> b" "b < 65536" "b * (4 * m) + e = 2 ^ 20" "0 \<le> e"
    "e * (16406 div (4 * m)) < 2 * b"
  shows "u16_of ((u16_of (u32_of (b * (8 * len + 22) + (2 ^ 18 - 1)) div 2 ^ 18) + 3) AND NOT 3)
    = 4 * ceil_div (8 * len + 22) (4 * m)"
proof -
  let ?L = "8 * len + 22"
  have L: "0 \<le> ?L" "?L < 16406" using assms(1,2) by auto
  have big: "b * ?L \<le> 65536 * 16406" using L assms(4,5) by (intro mult_mono) auto
  have pos: "0 \<le> b * ?L" using L assms(4) by simp
  have u32: "u32_of (b * ?L + (2 ^ 18 - 1)) = b * ?L + (2 ^ 18 - 1)"
    using big pos by (simp add: u32_of_def)
  have u16: "u16_of ((b * ?L + (2 ^ 18 - 1)) div 2 ^ 18) = ceil_div (b * ?L) (2 ^ 18)"
    using big pos by (simp add: u16_of_def ceil_div_def algebra_simps)
  have "4 * ceil_div (ceil_div (b * ?L) (2 ^ 18)) 4 = 4 * ceil_div (b * ?L) (2 ^ 20)"
    by (simp add: ceil_div_ceil_div)
  also have "ceil_div (b * ?L) (2 ^ 20) = ceil_div (1 * ?L) (4 * m)"
    by (rule fixed_point_ceil_div[where e = e and g = 2])
       (use assms L gap_bound[OF _ assms(7) _ assms(8), of 1 ?L] in auto)
  finally have c: "4 * ceil_div (ceil_div (b * ?L) (2 ^ 18)) 4 = 4 * ceil_div ?L (4 * m)" by simp
  have small: "0 \<le> ceil_div (b * ?L) (2 ^ 18)" "ceil_div (b * ?L) (2 ^ 18) \<le> 4200"
    using big pos by (simp_all add: ceil_div_def)
  show ?thesis unfolding u32 u16 and_not_3
    using small c by (simp add: u16_of_def ceil_div_def algebra_simps)
qed

lemma cck_duration:
  assumes "0 \<le> len" "len < 2048" "0 < r" "0 < c" "0 \<le> b" "b \<le> 262144" "b * r + e = c * 2 ^ 18" "0 \<le> e"
    "g dvd c * 8" "g dvd r" "e * (c * 16376 div r) < g * b"
  shows "u16_of (u32_of (b * (8 * len) + (2 ^ 18 - 1)) div 2 ^ 18) = ceil_div (c * (8 * len)) r"
proof -
  let ?L = "8 * len"
  have L: "0 \<le> ?L" "?L \<le> 16376" using assms(1,2) by auto
  have big: "b * ?L \<le> 262144 * 16376" using L assms(5,6) by (intro mult_mono) auto
  have pos: "0 \<le> b * ?L" using L assms(5) by simp
  have "u16_of (u32_of (b * ?L + (2 ^ 18 - 1)) div 2 ^ 18) = ceil_div (b * ?L) (2 ^ 18)"
    using big pos by (simp add: u16_of_def u32_of_def ceil_div_def algebra_simps)
  also have "\<dots> = ceil_div (c * ?L) r"
  proof (rule fixed_point_ceil_div[where e = e and g = g])
    show "e * (c * ?L div r) < g * b"
      by (rule gap_bound[where B = "c * 16376"]) (use assms L in auto)
    show "g dvd c * ?L" using assms(9) by (metis dvd_mult_left dvd_triv_left mult.assoc dvd_trans dvd_mult2)
  qed (use assms L in auto)
  finally show ?thesis .
qed

lemma legacy_rate_cases:
  assumes "(r :: u8) \<le> 11"
  shows "r \<in> {0, 1, 2, 3, 4, 5, 6, 7, 8, 9, 10, 11}"
proof -
  have "unat r < 12" using assms by (simp add: word_le_nat_alt)
  then have "unat r \<in> {0..<12}" by simp
  also have "{0..<12} = {0, 1, 2, 3, 4, 5, 6, 7, 8, 9, 10, 11 :: nat}" by (simp add: atLeast0_lessThan_Suc insert_commute numeral_eq_Suc)
  finally show ?thesis by (simp add: word_unat_eq_iff)
qed

lemma IS_OFMD_RATE_simps [simp]:
  "\<not> IS_OFMD_RATE 0" "\<not> IS_OFMD_RATE 1" "\<not> IS_OFMD_RATE 2" "\<not> IS_OFMD_RATE 3"
  "IS_OFMD_RATE 4" "IS_OFMD_RATE 5" "IS_OFMD_RATE 6" "IS_OFMD_RATE 7" "IS_OFMD_RATE 8"
  "IS_OFMD_RATE 9" "IS_OFMD_RATE 10" "IS_OFMD_RATE 11"
  by (simp_all add: IS_OFMD_RATE_def)

lemma GetDuration_unfold:
  assumes "0 \<le> len" "len < 2048" "unat r < 12" "bit_time (our_rate_controls ! unat r) = b"
  shows "Hal_TxDescriptor_GetDuration r len =
    Some (if IS_OFMD_RATE r
          then u16_of ((u16_of (u32_of (b * (8 * len + 22) + (2 ^ 18 - 1)) div 2 ^ 18) + 3) AND NOT 3)
          else u16_of (u32_of (b * (8 * len) + (2 ^ 18 - 1)) div 2 ^ 18))"
proof -
  have l: "u16_of (len * 8) = 8 * len" "u16_of (8 * len + (16 + 6)) = 8 * len + 22"
    using assms(1,2) by (simp_all add: u16_of_def)
  have "length our_rate_controls = 12" by (simp add: our_rate_controls_def)
  then have "arr our_rate_controls (unat r) = Some (our_rate_controls ! unat r)" using assms(3) by simp
  then show ?thesis by (simp only: Hal_TxDescriptor_GetDuration_def Let_def l assms(4) option.map split: if_split) simp
qed

lemma ofdm_case:
  assumes "0 \<le> len" "len < 2048" "IS_OFMD_RATE r" "unat r < 12" "bit_time (our_rate_controls ! unat r) = b"
    "legacy_rates ! unat r div 10 = m" "0 < m" "0 \<le> b" "b < 65536" "b * (4 * m) + e = 2 ^ 20" "0 \<le> e"
    "e * (16406 div (4 * m)) < 2 * b"
  shows "Hal_TxDescriptor_GetDuration r len = Some (legacy_airtime r len)"
  unfolding GetDuration_unfold[OF assms(1,2,4,5)] legacy_airtime_def Let_def assms(6)
  using ofdm_duration[OF assms(1,2,7-12)] assms(3) by (simp only: if_True)

lemma cck_case:
  assumes "0 \<le> len" "len < 2048" "\<not> IS_OFMD_RATE r" "unat r < 12" "bit_time (our_rate_controls ! unat r) = b"
    "legacy_rates ! unat r = k * m" "10 = k * c" "0 < k"
    "0 < m" "0 < c" "0 \<le> b" "b \<le> 262144" "b * m + e = c * 2 ^ 18" "0 \<le> e"
    "g dvd c * 8" "g dvd m" "e * (c * 16376 div m) < g * b"
  shows "Hal_TxDescriptor_GetDuration r len = Some (legacy_airtime r len)"
proof -
  have "ceil_div (8 * len * 10) (k * m) = ceil_div (c * (8 * len)) m"
    using ceil_div_scale[OF assms(8,9), of "c * (8 * len)"] unfolding assms(7) by (simp add: ac_simps)
  then show ?thesis
    unfolding GetDuration_unfold[OF assms(1,2,4,5)] legacy_airtime_def Let_def assms(6)
    using cck_duration[OF assms(1,2,9-17)] assms(3) by (simp only: if_False)
qed

lemma legacy_duration:
  assumes "r \<le> 11" "0 \<le> len" "len < 2048"
  shows "Hal_TxDescriptor_GetDuration r len = Some (legacy_airtime r len)"
proof -
  note t = our_rate_controls_def legacy_rates_def
  note ofdm = ofdm_case[OF assms(2,3)] and cck = cck_case[OF assms(2,3)]
  from legacy_rate_cases[OF assms(1)]
  consider "r = 0" | "r = 1" | "r = 2" | "r = 3" | "r = 4" | "r = 5" | "r = 6" | "r = 7" | "r = 8"
    | "r = 9" | "r = 10" | "r = 11" by blast
  then show ?thesis
  proof cases
    case 1 show ?thesis by (rule cck[of r 262144 10 1 1 0 1]) (simp_all add: 1 t)
  next
    case 2 show ?thesis by (rule cck[of r 131072 10 2 1 0 1]) (simp_all add: 2 t)
  next
    case 3 show ?thesis by (rule cck[of r 47662 5 11 2 6 1]) (simp_all add: 3 t)
  next
    case 4 show ?thesis by (rule cck[of r 23831 10 11 1 3 1]) (simp_all add: 4 t)
  next
    case 5 show ?thesis by (rule ofdm[of r 43690 6 16]) (simp_all add: 5 t)
  next
    case 6 show ?thesis by (rule ofdm[of r 29127 9 4]) (simp_all add: 6 t)
  next
    case 7 show ?thesis by (rule ofdm[of r 21845 12 16]) (simp_all add: 7 t)
  next
    case 8 show ?thesis by (rule ofdm[of r 14563 18 40]) (simp_all add: 8 t)
  next
    case 9 show ?thesis by (rule ofdm[of r 10922 24 64]) (simp_all add: 9 t)
  next
    case 10 show ?thesis by (rule ofdm[of r 7281 36 112]) (simp_all add: 10 t)
  next
    case 11 show ?thesis by (rule ofdm[of r 5461 48 64]) (simp_all add: 11 t)
  next
    case 12 show ?thesis by (rule ofdm[of r 4854 54 112]) (simp_all add: 12 t)
  qed
qed

text \<open>C19: the air time that the driver computes for a frame at a legacy rate, a product with a constant in 2^-18 us, rounded up and at the OFDM rates rounded up again to a multiple of 4, is the exact one of the standard for every frame below 2048 bytes: the bits over the rate, rounded up, at the CCK rates; 4 us for every symbol, of 4 bits per Mbit/s, that the bits with 16 service and 6 tail bits take, at the OFDM rates.\<close>
theorem legacy_duration_exact:
  assumes "r \<le> 11" "0 \<le> len" "len < 2048"
  shows "Hal_TxDescriptor_GetDuration r len = Some (legacy_airtime r len)"
  using assms by (rule legacy_duration)

theorem legacy_duration_exact_witness:
  "Hal_TxDescriptor_GetDuration 11 1500 = Some (legacy_airtime 11 1500) \<and> legacy_airtime 11 1500 = 224"
proof -
  have "Hal_TxDescriptor_GetDuration 11 1500 = Some (legacy_airtime 11 1500)"
    by (rule legacy_duration_exact) simp_all
  then show ?thesis by (simp add: legacy_airtime_def legacy_rates_def ceil_div_def Let_def)
qed

text \<open>At 1 Mbit/s the product of 32 bits wraps from 2048 bytes on.\<close>
lemma slow_frame_wraps:
  assumes "0 \<le> len" "len < 8192"
  shows "Hal_TxDescriptor_GetDuration 0 len = Some (8 * len mod 16384)"
proof -
  have "u16_of (len * 8) = 8 * len" using assms by (simp add: u16_of_def)
  moreover have "(262144 * (8 * len) + 262143) div 262144 = 8 * len"
    by (rule int_div_pos_eq[of _ _ _ 262143]) auto
  then have "u32_of (262144 * (8 * len) + 262143) div 262144 = 8 * len mod 16384"
    using zmod_zmult2_eq[of 16384 "262144 * (8 * len) + 262143" 262144] by (simp add: u32_of_def)
  ultimately show ?thesis
    by (simp add: Hal_TxDescriptor_GetDuration_def our_rate_controls_def Let_def u16_of_def)
qed

section \<open>The tables\<close>

definition hw_rates :: "u8 list" where
  "hw_rates = [0x0, 0x1, 0x2, 0x3, 0x4, 0x5, 0x6, 0x7, 0x8, 0x9, 0xa, 0xb,
    0x80, 0x81, 0x82, 0x83, 0x84, 0x85, 0x86, 0x87,
    0xc0, 0xc1, 0xc2, 0xc3, 0xc4, 0xc5, 0xc6, 0xc7, 0xc8, 0xc9]"

text \<open>The air time of a response of \<^verbatim>\<open>len\<close> bytes to a frame of rate r, after the inter frame
  space: the response has the basic rate below r; at 1 Mbit/s there is no short preamble.\<close>

definition response_airtime :: "u8 \<Rightarrow> preamble \<Rightarrow> int \<Rightarrow> int option" where
  "response_airtime r p len =
    Option.bind (Hal_TxDescriptor_GetAckRate r) (\<lambda>a.
      let p = (if a = 0 then PREAMBLE_LONG else if IS_OFMD_RATE r then PREAMBLE_SHORT else p)
      in map_option (\<lambda>t. (if IS_OFMD_RATE a then 16 else 10) + t) (Hal_TxDescriptor_GetLegacyTxTime a len p))"

definition ht_rate :: "nat \<Rightarrow> u8" where
  "ht_rate m = 0x80 + of_nat m"

lemma response_tables_check:
  "list_all (\<lambda>r. list_all (\<lambda>p.
     Hal_TxDescriptor_GetAckTime r p False False 0 = map_option (\<lambda>t. t + PHY_TEST) (response_airtime r p 14)
     \<and> (r = 0 \<or> r = 1 \<or> Hal_TxDescriptor_GetBATime r p False False 0 = map_option (\<lambda>t. t + PHY_TEST) (response_airtime r p 32)))
    [PREAMBLE_LONG, PREAMBLE_SHORT]) hw_rates"
  by code_simp

lemma ack_rate_legacy:
  "list_all (\<lambda>r. case Hal_TxDescriptor_GetAckRate r of None \<Rightarrow> False
     | Some a \<Rightarrow> \<not> IS_HT_RATE a \<and> \<not> IS_VHT_RATE a \<and> a \<in> set [0, 2, 4, 6, 8]) hw_rates"
  by code_simp

lemma response_tables:
  assumes "r \<in> set hw_rates"
  shows "Hal_TxDescriptor_GetAckTime r p gi rifs bw = map_option (\<lambda>t. t + 20) (response_airtime r p 14)
    \<and> (r \<ge> 2 \<longrightarrow>
        Hal_TxDescriptor_GetBATime r p gi rifs bw = map_option (\<lambda>t. t + 20) (response_airtime r p 32))
    \<and> response_airtime r p 14 \<noteq> None"
proof -
  have "\<exists>a. Hal_TxDescriptor_GetAckRate r = Some a \<and> \<not> IS_HT_RATE a \<and> \<not> IS_VHT_RATE a \<and> a \<in> {0, 2, 4, 6, 8}"
    using ack_rate_legacy assms by (auto simp: list_all_iff split: option.splits)
  then obtain a where a: "Hal_TxDescriptor_GetAckRate r = Some a" "\<not> IS_HT_RATE a" "\<not> IS_VHT_RATE a" "a \<in> {0, 2, 4, 6, 8}" by blast
  have eq: "Hal_TxDescriptor_GetAckTime r p gi rifs bw = Hal_TxDescriptor_GetAckTime r p False False 0"
    "Hal_TxDescriptor_GetBATime r p gi rifs bw = Hal_TxDescriptor_GetBATime r p False False 0"
    by (simp_all add: Hal_TxDescriptor_GetAckTime_def Hal_TxDescriptor_GetBATime_def a(1-3))
  have "response_airtime r p 14 \<noteq> None"
    using a(4) by (auto simp: response_airtime_def a(1) Let_def Hal_TxDescriptor_GetLegacyTxTime_def
       Hal_TxDescriptor_GetDuration_def our_rate_controls_def)
  moreover have "r \<noteq> 0 \<and> r \<noteq> 1" if "r \<ge> 2" using that by (auto simp: word_le_nat_alt)
  ultimately show ?thesis
    using response_tables_check assms unfolding eq list_all_iff by (cases p) auto
qed

text \<open>for every rate of 11b, g, n and ac, the table of acknowledgement times holds the inter frame space plus the air time of 14 bytes at the basic rate the response takes, and the table of block acknowledgements that of 32 bytes, but for the rates 1 and 2 Mbit/s; no table is read out of its bounds.\<close>
theorem response_tables_exact:
  assumes "r \<in> set hw_rates"
  shows "Hal_TxDescriptor_GetAckTime r p gi rifs bw = map_option (\<lambda>t. t + 20) (response_airtime r p 14)
    \<and> (r \<ge> 2 \<longrightarrow>
        Hal_TxDescriptor_GetBATime r p gi rifs bw = map_option (\<lambda>t. t + 20) (response_airtime r p 32))
    \<and> response_airtime r p 14 \<noteq> None"
  using assms by (rule response_tables)

theorem response_tables_exact_witness:
  "Hal_TxDescriptor_GetAckTime 0xc7 PREAMBLE_LONG True False 1 = Some 64"
proof -
  have "Hal_TxDescriptor_GetAckTime 0xc7 PREAMBLE_LONG True False 1
      = map_option (\<lambda>t. t + 20) (response_airtime 0xc7 PREAMBLE_LONG 14)"
    using response_tables_exact[of "0xc7" PREAMBLE_LONG True False 1] by (simp add: hw_rates_def)
  also have "\<dots> = Some 64" by code_simp
  finally show ?thesis .
qed

text \<open>The table of block acknowledgements assumes a short preamble at 1 Mbit/s, which has none.\<close>
lemma ba_table_short_at_1M:
  "Hal_TxDescriptor_GetBATime 1 PREAMBLE_SHORT False False 0 = Some 382"
  "response_airtime 1 PREAMBLE_SHORT 32 = Some 458"
  by code_simp+

text \<open>The tables of HT hold the air time of 32 and of 14 bytes.\<close>
lemma ht_tables_check:
  "list_all (\<lambda>m. list_all (\<lambda>gi. list_all (\<lambda>bw.
     arr3 ht_ba_txtime m (of_bool gi) bw = hal_txdescriptor_ht_gettxTime (ht_rate m) 32 gi bw False
     \<and> arr3 ht_ack_txtime m (of_bool gi) bw = hal_txdescriptor_ht_gettxTime (ht_rate m) 14 gi bw False)
    [0, 1]) [False, True]) [0..<8]"
  by code_simp

section \<open>The longest aggregate\<close>

definition frame_airtime :: "u8 \<Rightarrow> int \<Rightarrow> bool \<Rightarrow> nat \<Rightarrow> int option" where
  "frame_airtime r len gi bw =
    (if IS_HT_RATE r then hal_txdescriptor_ht_gettxTime r len gi bw False
     else Hal_TxDescriptor_VHT_GetTxTime r len gi bw False)"

definition symbols_fitting :: "int \<Rightarrow> bool \<Rightarrow> int" where
  "symbols_fitting t gi = (if gi then t * 10 div 36 else t div 4)"

lemma symbols_bounds:
  assumes "0 < b" "8 * len + 24 \<le> b * n" "0 \<le> len" "n < 65536"
  shows "0 \<le> (len * 8 + 22 + b - 1) div b" "(len * 8 + 22 + b - 1) div b \<le> n"
    "u16_of ((len * 8 + 22 + b - 1) div b) = (len * 8 + 22 + b - 1) div b"
proof -
  show lo: "0 \<le> (len * 8 + 22 + b - 1) div b" using assms by (simp add: pos_imp_zdiv_nonneg_iff)
  have "(len * 8 + 22 + b - 1) div b \<le> (b * n + (b - 1)) div b"
    using assms by (intro zdiv_mono1) auto
  also have "(b * n + (b - 1)) div b = n" by (rule int_div_pos_eq[of _ _ _ "b - 1"]) (use assms in auto)
  finally show hi: "(len * 8 + 22 + b - 1) div b \<le> n" .
  show "u16_of ((len * 8 + 22 + b - 1) div b) = (len * 8 + 22 + b - 1) div b"
    using lo hi assms(4) by (simp add: u16_of_def)
qed

lemma duration_fits:
  assumes "0 \<le> n" "n \<le> symbols_fitting t gi" "t \<le> 4095"
  shows "0 \<le> duration_of gi n" "duration_of gi n \<le> t"
proof -
  have "0 \<le> duration_of gi n \<and> duration_of gi n \<le> t"
  proof (cases gi)
    case True
    then have "36 * n \<le> 10 * t" using assms(2) by (simp add: symbols_fitting_def)
    then have "0 \<le> (n * 18 + 4) div 5" "(n * 18 + 4) div 5 \<le> t" using assms(1) by linarith+
    then show ?thesis using True assms(3)
      by (simp add: duration_of_def SYMBOL_TIME_HALFGI_def u16_of_def)
  next
    case False
    then have "4 * n \<le> t" using assms(2) by (simp add: symbols_fitting_def)
    then show ?thesis using False assms(1,3) by (simp add: duration_of_def SYMBOL_TIME_def u16_of_def)
  qed
  then show "0 \<le> duration_of gi n" "duration_of gi n \<le> t" by auto
qed

lemma airtime_fits:
  assumes "0 < b" "0 \<le> len" "len + 3 \<le> b * symbols_fitting t gi div 8" "t + pre = 4095" "0 \<le> pre" "0 \<le> t"
  shows "u16_of (duration_of gi (u16_of ((len * 8 + 22 + b - 1) div b)) + pre) \<in> {pre..4095}"
proof -
  let ?n = "(len * 8 + 22 + b - 1) div b"
  have "8 * len + 24 \<le> b * symbols_fitting t gi" using assms(3) by linarith
  moreover have "symbols_fitting t gi < 65536"
    unfolding symbols_fitting_def using assms(4,5) by (cases gi; simp only: if_True if_False)
  ultimately have "0 \<le> ?n" "?n \<le> symbols_fitting t gi" "u16_of ?n = ?n"
    using symbols_bounds[OF assms(1) _ assms(2)] by blast+
  moreover have "t \<le> 4095" using assms(4,5) by simp
  ultimately have "0 \<le> duration_of gi ?n" "duration_of gi ?n \<le> t" using duration_fits by blast+
  then show ?thesis using assms(4,5) \<open>u16_of ?n = ?n\<close> by (simp add: u16_of_def)
qed

lemma bits_tables_pos:
  "list_all (\<lambda>m. list_all (\<lambda>bw. case arr2 ht_bits_per_symbol m bw of None \<Rightarrow> False | Some b \<Rightarrow> 0 < b) [0, 1]) [0..<8]"
  "list_all (\<lambda>m. list_all (\<lambda>bw. case arr2 vht_bits_per_symbol m bw of None \<Rightarrow> False
     | Some b \<Rightarrow> 0 < b \<or> m = 9 \<and> bw = 0) [0, 1, 2, 3]) [0..<10]"
  by code_simp+

lemma ht_bits: "m < 8 \<Longrightarrow> bw < 2 \<Longrightarrow> \<exists>b > 0. arr2 ht_bits_per_symbol m bw = Some b"
  using bits_tables_pos(1) by (fastforce simp: list_all_iff less_2_cases_iff split: option.splits)

lemma vht_bits: "m < 10 \<Longrightarrow> bw < 4 \<Longrightarrow> \<not> (m = 9 \<and> bw = 0) \<Longrightarrow> \<exists>b > 0. arr2 vht_bits_per_symbol m bw = Some b"
proof -
  assume a: "m < 10" "bw < 4" "\<not> (m = 9 \<and> bw = 0)"
  then have "bw \<in> set [0, 1, 2, 3]" "m \<in> set [0..<10]" by auto
  then show ?thesis using bits_tables_pos(2) a(3) unfolding list_all_iff by (fastforce split: option.splits)
qed

lemma HT_not_VHT: "IS_HT_RATE r \<Longrightarrow> \<not> IS_VHT_RATE r"
  by (simp add: IS_HT_RATE_def IS_VHT_RATE_def)

lemma max_send_packet_len_ht:
  assumes "IS_HT_RATE r" "GET_MCS r < 8" "bw \<le> 2"
  shows "max_send_packet_len r bw gi =
    map_option (\<lambda>b. b * symbols_fitting 4059 gi div 8) (arr2 ht_bits_per_symbol (GET_MCS r) (min bw 1))"
proof -
  have "min (GET_MCS r) 7 = GET_MCS r" "\<not> GET_MCS r > 9" "GET_MCS r \<noteq> 9" using assms(2) by auto
  then show ?thesis using assms(1,3)
    by (cases gi) (simp_all add: max_send_packet_len_def Let_def symbols_fitting_def Hal_TxDescriptor_HT_GetPreamble_def)
qed

lemma max_send_packet_len_vht:
  assumes "IS_VHT_RATE r" "\<not> IS_HT_RATE r" "GET_MCS r < 10" "\<not> (GET_MCS r = 9 \<and> bw = 0)" "bw \<le> 2"
  shows "max_send_packet_len r bw gi =
    map_option (\<lambda>b. b * symbols_fitting 4055 gi div 8) (arr2 vht_bits_per_symbol (GET_MCS r) bw)"
proof -
  have "\<not> GET_MCS r > 9" "bw = 0 \<Longrightarrow> GET_MCS r \<noteq> 9" using assms(3,4) by auto
  then show ?thesis using assms(1,2,5)
    by (cases gi; cases "bw = 0") (simp_all add: max_send_packet_len_def Let_def symbols_fitting_def Hal_TxDescriptor_VHT_GetPreamble_def)
qed

lemma airtime_bounds:
  assumes "IS_HT_RATE r \<and> GET_MCS r < 8 \<or> IS_VHT_RATE r \<and> GET_MCS r < 10 \<and> \<not> (GET_MCS r = 9 \<and> bw = 0)"
    and "bw \<le> 2" "0 \<le> len"
    and "max_send_packet_len r bw gi = Some n" "len + 3 \<le> n"
  shows "\<exists>t. frame_airtime r len gi bw = Some t \<and> 36 \<le> t \<and> t \<le> 4095"
proof -
  have l: "0 \<le> u16_of len" "u16_of len + 3 \<le> n" using assms(3,5) zmod_le_nonneg_dividend [of len 65536]
    by (auto simp: u16_of_def)
  show ?thesis
proof (cases "IS_HT_RATE r")
  case True
  then have m: "GET_MCS r < 8" using assms(1) HT_not_VHT by blast
  moreover have "min bw 1 < 2" by simp
  ultimately obtain b where b: "0 < b" "arr2 ht_bits_per_symbol (GET_MCS r) (min bw 1) = Some b"
    using ht_bits by blast
  have "n = b * symbols_fitting 4059 gi div 8"
    using assms(4) unfolding max_send_packet_len_ht[OF True m assms(2)] b(2) by simp
  then show ?thesis
    using airtime_fits[of b "u16_of len" 4059 gi 36] l b True
    by (fastforce simp: frame_airtime_def hal_txdescriptor_ht_gettxTime_def Let_def Hal_TxDescriptor_HT_GetPreamble_def)
next
  case False
  then have m: "IS_VHT_RATE r" "GET_MCS r < 10" "\<not> (GET_MCS r = 9 \<and> bw = 0)" using assms(1) by auto
  moreover have "bw < 4" using assms(2) by simp
  ultimately obtain b where b: "0 < b" "arr2 vht_bits_per_symbol (GET_MCS r) bw = Some b"
    using vht_bits by blast
  have "n = b * symbols_fitting 4055 gi div 8"
    using assms(4) unfolding max_send_packet_len_vht[OF m(1) False m(2,3) assms(2)] b(2) by simp
  then show ?thesis
    using airtime_fits[of b "u16_of len" 4055 gi 40] l b False
    by (fastforce simp: frame_airtime_def Hal_TxDescriptor_VHT_GetTxTime_def Let_def Hal_TxDescriptor_VHT_GetPreamble_def)
qed
qed

text \<open>A frame of at most 65535 bytes that is three bytes shorter than the longest that
  max_send_packet_len allows for its rate, band width and guard interval lasts at most 4095 us, at
  every rate of 11n with one stream and of 11ac but for MCS 9 at 20 MHz.\<close>

lemma max_send_packet_len_fits:
  assumes "IS_HT_RATE r \<and> GET_MCS r < 8 \<or> IS_VHT_RATE r \<and> GET_MCS r < 10 \<and> \<not> (GET_MCS r = 9 \<and> bw = 0)"
    and "bw \<le> 2" "0 \<le> len" "len < 65536"
    and "max_send_packet_len r bw gi = Some n" "len + 3 \<le> n"
  shows "\<exists>t. frame_airtime r len gi bw = Some t \<and> t \<le> 4095"
  using airtime_bounds[OF assms(1-3,5,6)] by blast

text \<open>At the length the code allows the frame is too long at every one of these rates: the 16 service and
  6 tail bits are not counted.\<close>
lemma longest_packet_too_long:
  "list_all (\<lambda>r. list_all (\<lambda>gi.
     case max_send_packet_len r 0 gi of None \<Rightarrow> False
     | Some n \<Rightarrow> (case frame_airtime r n gi 0 of None \<Rightarrow> False | Some t \<Rightarrow> 4095 < t))
    [False, True]) (map ht_rate [0..<8])"
  by code_simp

end
