(* ===== verification/TxDescProps.thy ===== *)
theory TxDescProps
  imports TxDesc AirTimeProps
begin

text \<open>
  What the descriptor in front of a frame holds: every value fits its bit field, the lengths in the
  word in front of it read back, and the exchange lasts as long as the frame and its response.
\<close>

section \<open>Values fit their fields\<close>

lemma bits_id: "0 \<le> x \<Longrightarrow> x < 2 ^ n \<Longrightarrow> bits n x = x"
  by (simp add: bits_def)

definition frame_ok :: "hi_agg_tx_desc \<Rightarrow> bool" where
  "frame_ok d \<longleftrightarrow> (let r = ha_CurrentRate d; len = ha_AGGR_len d
    in r \<in> set hw_rates \<and> 0 < len \<and> len < 65536 \<and> DESC_BANDWIDTH d \<le> 2
       \<and> \<not> (r = 0xc9 \<and> DESC_BANDWIDTH d = 0)
       \<and> (if r \<le> 11 then len < 2048
          else (case max_send_packet_len r (DESC_BANDWIDTH d) (DESC_IS_SHORTGI d) of
                  None \<Rightarrow> False | Some n \<Rightarrow> len + 3 \<le> n)))"

lemma hw_rates_cases:
  assumes "r \<in> set hw_rates"
  obtains (legacy) "r \<le> 11" "\<not> IS_HT_RATE r" "\<not> IS_VHT_RATE r" "r < 16"
  | (ht) "IS_HT_RATE r" "\<not> IS_VHT_RATE r" "GET_MCS r < 8" "\<not> r \<le> 11"
  | (vht) "IS_VHT_RATE r" "\<not> IS_HT_RATE r" "GET_MCS r < 10" "\<not> r \<le> 11" "GET_MCS r = 9 \<longrightarrow> r = 0xc9"
proof -
  have "list_all (\<lambda>r. (r \<le> 11 \<and> \<not> IS_HT_RATE r \<and> \<not> IS_VHT_RATE r \<and> r < 16)
    \<or> (IS_HT_RATE r \<and> \<not> IS_VHT_RATE r \<and> GET_MCS r < 8 \<and> \<not> r \<le> 11)
    \<or> (IS_VHT_RATE r \<and> \<not> IS_HT_RATE r \<and> GET_MCS r < 10 \<and> \<not> r \<le> 11 \<and> (GET_MCS r \<noteq> 9 \<or> r = 0xc9))) hw_rates"
    by code_simp
  then show thesis using assms that unfolding list_all_iff by blast
qed

lemma power_fits:
  assumes "r \<in> set hw_rates"
  shows "\<exists>pw. hal_tx_desc_get_power r = Some pw \<and> pw < 16"
proof -
  have "list_all (\<lambda>r. case hal_tx_desc_get_power r of None \<Rightarrow> False | Some pw \<Rightarrow> pw < 16) hw_rates"
    by code_simp
  then show ?thesis using assms unfolding list_all_iff by (auto split: option.splits)
qed

lemma u16_of_nonneg [simp]: "0 \<le> u16_of x"
  by (simp add: u16_of_def)

lemma duration_of_nonneg [simp]: "0 \<le> duration_of gi n"
  by (simp add: duration_of_def)

text \<open>The length of the legacy signal field needs its 12 bits only.\<close>

lemma signal_length:
  assumes "frame_ok d"
  shows "\<exists>l. hal_tx_desc_get_len (ha_CurrentRate d) (ha_AGGR_len d) (DESC_IS_SHORTGI d) (DESC_BANDWIDTH d) False = Some l
    \<and> 0 \<le> l \<and> l < 4096"
proof -
  let ?r = "ha_CurrentRate d" and ?bw = "DESC_BANDWIDTH d" and ?gi = "DESC_IS_SHORTGI d" and ?len = "ha_AGGR_len d"
  have r: "?r \<in> set hw_rates" and len: "0 < ?len" and bw: "?bw \<le> 2" and no: "\<not> (?r = 0xc9 \<and> ?bw = 0)"
    using assms by (auto simp: frame_ok_def Let_def)
  from r show ?thesis
  proof (cases rule: hw_rates_cases)
    case legacy
    then have "?len < 2048" using assms by (simp add: frame_ok_def Let_def)
    then show ?thesis using legacy len by (simp add: hal_tx_desc_get_len_def u16_of_def)
  next
    case ht
    then obtain n where n: "max_send_packet_len ?r ?bw ?gi = Some n" "?len + 3 \<le> n"
      using assms by (auto simp: frame_ok_def Let_def split: option.splits)
    then obtain t where t: "frame_airtime ?r ?len ?gi ?bw = Some t" "36 \<le> t" "t \<le> 4095"
      using airtime_bounds[of ?r ?bw ?len ?gi n] ht bw len by auto
    then show ?thesis using ht by (auto simp: frame_airtime_def hal_tx_desc_get_len_def u16_of_def)
  next
    case vht
    then obtain n where n: "max_send_packet_len ?r ?bw ?gi = Some n" "?len + 3 \<le> n"
      using assms by (auto simp: frame_ok_def Let_def split: option.splits)
    then obtain t where t: "frame_airtime ?r ?len ?gi ?bw = Some t" "36 \<le> t" "t \<le> 4095"
      using airtime_bounds[of ?r ?bw ?len ?gi n] vht bw len no by auto
    then show ?thesis using vht by (auto simp: frame_airtime_def hal_tx_desc_get_len_def u16_of_def)
  qed
qed

section \<open>The exchange\<close>

lemma rate_tables_defined:
  assumes "r \<in> set hw_rates"
  shows "\<exists>a b. response_airtime r p 14 = Some a \<and> response_airtime r p 32 = Some b"
proof -
  have "list_all (\<lambda>r. list_all (\<lambda>p. response_airtime r p 14 \<noteq> None \<and> response_airtime r p 32 \<noteq> None)
      [PREAMBLE_LONG, PREAMBLE_SHORT]) hw_rates"
    by code_simp
  then show ?thesis using assms unfolding list_all_iff by (cases p) auto
qed

lemma response_airtime_ofdm: "IS_OFMD_RATE r \<Longrightarrow> response_airtime r p n = response_airtime r p' n"
  by (simp add: response_airtime_def)

lemma ofdm_of_ht: "IS_HT_RATE r \<Longrightarrow> r \<in> set hw_rates \<Longrightarrow> IS_OFMD_RATE r"
  "IS_VHT_RATE r \<Longrightarrow> r \<in> set hw_rates \<Longrightarrow> IS_OFMD_RATE r"
proof -
  have "list_all (\<lambda>r. (IS_HT_RATE r \<or> IS_VHT_RATE r) \<longrightarrow> IS_OFMD_RATE r) hw_rates" by code_simp
  then show "IS_HT_RATE r \<Longrightarrow> r \<in> set hw_rates \<Longrightarrow> IS_OFMD_RATE r"
    "IS_VHT_RATE r \<Longrightarrow> r \<in> set hw_rates \<Longrightarrow> IS_OFMD_RATE r" unfolding list_all_iff by blast+
qed

text \<open>At a legacy rate the tables are read as GetAckTime reads them, and the sum does not wrap.\<close>

lemma legacy_ack_table:
  assumes "r \<le> 11"
  shows "\<exists>rc. arr our_rate_controls (unat r) = Some rc
    \<and> (if p = PREAMBLE_SHORT \<or> IS_OFMD_RATE r then arr our_ack_time_short (unat (ack_rate rc))
       else arr our_ack_time_11b_long (unat (ack_rate rc))) = response_airtime r p 14"
proof -
  have "list_all (\<lambda>r. list_all (\<lambda>p. case arr our_rate_controls (unat r) of None \<Rightarrow> False
     | Some rc \<Rightarrow> (if p = PREAMBLE_SHORT \<or> IS_OFMD_RATE r then arr our_ack_time_short (unat (ack_rate rc))
       else arr our_ack_time_11b_long (unat (ack_rate rc))) = response_airtime r p 14)
      [PREAMBLE_LONG, PREAMBLE_SHORT]) [0, 1, 2, 3, 4, 5, 6, 7, 8, 9, 10, 11]"
    by code_simp
  moreover have "r \<in> set [0, 1, 2, 3, 4, 5, 6, 7, 8, 9, 10, 11]"
    using legacy_rate_cases[OF assms] by simp
  moreover have "p \<in> set [PREAMBLE_LONG, PREAMBLE_SHORT]" by (cases p) simp_all
  ultimately have "case arr our_rate_controls (unat r) of None \<Rightarrow> False
     | Some rc \<Rightarrow> (if p = PREAMBLE_SHORT \<or> IS_OFMD_RATE r then arr our_ack_time_short (unat (ack_rate rc))
       else arr our_ack_time_11b_long (unat (ack_rate rc))) = response_airtime r p 14"
    unfolding list_all_iff by blast
  then show ?thesis by (simp only: split: option.splits) blast
qed

lemma ceil_div_le: "0 < b \<Longrightarrow> a \<le> b * k \<Longrightarrow> ceil_div a b \<le> k"
proof -
  assume a: "0 < b" "a \<le> b * k"
  then have "(a + b - 1) div b \<le> (b * k + (b - 1)) div b" by (intro zdiv_mono1) auto
  also have "\<dots> = k" by (rule int_div_pos_eq[of _ _ _ "b - 1"]) (use a in auto)
  finally show ?thesis by (simp add: ceil_div_def)
qed

lemma ceil_div_nonneg: "0 < b \<Longrightarrow> 0 \<le> a \<Longrightarrow> 0 \<le> ceil_div a b"
  by (simp add: ceil_div_def pos_imp_zdiv_nonneg_iff)

lemma legacy_airtime_bounds:
  assumes "r \<le> 11" "0 \<le> len" "len < 2048"
  shows "0 \<le> legacy_airtime r len \<and> legacy_airtime r len \<le> 16384"
proof (cases "IS_OFMD_RATE r")
  case True
  define n where "n = 4 * (legacy_rates ! unat r div 10)"
  have n: "24 \<le> n"
    using legacy_rate_cases[OF assms(1)] True by (auto simp: legacy_rates_def n_def)
  have "ceil_div (8 * len + 22) n \<le> 700"
    by (rule ceil_div_le) (use n assms in auto)
  moreover have "0 \<le> ceil_div (8 * len + 22) n" using n assms by (intro ceil_div_nonneg) auto
  ultimately show ?thesis using True by (simp add: legacy_airtime_def Let_def flip: n_def)
next
  case False
  define n where "n = legacy_rates ! unat r"
  have n: "10 \<le> n"
    using legacy_rate_cases[OF assms(1)] False by (auto simp: legacy_rates_def n_def)
  have "ceil_div (8 * len * 10) n \<le> 8 * len"
    by (rule ceil_div_le) (use n assms mult_right_mono[of 10 n "8 * len"] in auto)
  moreover have "0 \<le> ceil_div (8 * len * 10) n" using n assms by (intro ceil_div_nonneg) auto
  ultimately show ?thesis using False assms by (simp add: legacy_airtime_def Let_def flip: n_def)
qed

lemma legacy_cts_time:
  assumes "r = ha_CurrentRate d" "r \<le> 11" "\<not> IS_HT_RATE r" "\<not> IS_VHT_RATE r" "0 \<le> ha_AGGR_len d" "ha_AGGR_len d < 2048"
    and "response_airtime r (DESC_PREMBLETYPE c d) 14 = Some a"
  shows "\<exists>t. Hal_TxDescriptor_GetTxTime c d = Some t
    \<and> Hal_TxDescriptor_GetCtsTime c d = Some ((if IS_OFMD_RATE r then 16 else 10) + t + a)"
proof -
  let ?p = "DESC_PREMBLETYPE c d"
  define x where "x = legacy_airtime r (ha_AGGR_len d)"
  have x: "Hal_TxDescriptor_GetDuration r (ha_AGGR_len d) = Some x" "0 \<le> x" "x \<le> 16384"
    using legacy_airtime_bounds[OF assms(2,5,6)] legacy_duration[OF assms(2,5,6)] by (auto simp: x_def)
  have pre: "0 \<le> Hal_TxDescriptor_GetPreamble r ?p" "Hal_TxDescriptor_GetPreamble r ?p \<le> 192"
    by (simp_all add: Hal_TxDescriptor_GetPreamble_def)
  then have "Hal_TxDescriptor_GetTxTime c d = Some (Hal_TxDescriptor_GetPreamble r ?p + x)"
    using assms(1,3,4) x by (simp add: Hal_TxDescriptor_GetTxTime_def Hal_TxDescriptor_GetLegacyTxTime_def Let_def u16_of_def)
  moreover obtain rc where rc: "arr our_rate_controls (unat r) = Some rc"
    "(if ?p = PREAMBLE_SHORT \<or> IS_OFMD_RATE r then arr our_ack_time_short (unat (ack_rate rc))
       else arr our_ack_time_11b_long (unat (ack_rate rc))) = Some a"
    using legacy_ack_table[OF assms(2), of ?p] assms(7) by auto
  have "Hal_TxDescriptor_GetCtsTime c d
      = Some ((if IS_OFMD_RATE r then 16 else 10) + Hal_TxDescriptor_GetPreamble r ?p + (x + a))"
    unfolding Hal_TxDescriptor_GetCtsTime_def Let_def assms(1)[symmetric]
    using assms(3,4) x(1) rc by (cases "?p = PREAMBLE_SHORT \<or> IS_OFMD_RATE r") (auto simp: add_opt_def)
  ultimately show ?thesis by (simp add: add.assoc)
qed

text \<open>The SIFS after a frame: 10 us at the rates of 11b, else 16 us.\<close>

definition SIFS :: "u8 \<Rightarrow> int" where
  "SIFS r = (if IS_OFMD_RATE r then 16 else 10)"

lemma exchange_time:
  assumes "frame_ok d" "flag (ha_FLAG d) WIFI_IS_BLOCKACK \<longrightarrow> 2 \<le> ha_CurrentRate d"
  shows "\<exists>t a b. Hal_TxDescriptor_GetTxTime c d = Some t
    \<and> response_airtime (ha_CurrentRate d) (DESC_PREMBLETYPE c d) 14 = Some a
    \<and> response_airtime (ha_CurrentRate d) (DESC_PREMBLETYPE c d) 32 = Some b
    \<and> FrameExchDur c d = Some (if flag (ha_FLAG d) WIFI_IS_NOACK then t
        else if flag (ha_FLAG d) WIFI_IS_BLOCKACK then t + (b + 20)
        else SIFS (ha_CurrentRate d) + t + (if ha_CurrentRate d \<le> 11 then a else a + 20))"
proof -
  let ?r = "ha_CurrentRate d" and ?p = "DESC_PREMBLETYPE c d" and ?bw = "DESC_BANDWIDTH d"
    and ?gi = "DESC_IS_SHORTGI d" and ?len = "ha_AGGR_len d"
  have r: "?r \<in> set hw_rates" and len: "0 < ?len" and bw: "?bw \<le> 2" and no: "\<not> (?r = 0xc9 \<and> ?bw = 0)"
    using assms(1) by (auto simp: frame_ok_def Let_def)
  obtain a b where ab: "response_airtime ?r ?p 14 = Some a" "response_airtime ?r ?p 32 = Some b"
    using rate_tables_defined[OF r] by blast
  have ba: "Hal_TxDescriptor_GetBATime ?r ?p ?gi (dot11Rifs c) ?bw = Some (b + 20)" if "2 \<le> ?r"
    using response_tables[OF r] that ab by simp
  have "\<exists>t. Hal_TxDescriptor_GetTxTime c d = Some t \<and> Hal_TxDescriptor_GetCtsTime c d =
      Some (SIFS ?r + t + (if ?r \<le> 11 then a else a + 20))"
    using r
  proof (cases rule: hw_rates_cases)
    case legacy
    then have "?len < 2048" using assms(1) by (simp add: frame_ok_def Let_def)
    then show ?thesis using legacy_cts_time[of ?r d c a] legacy len ab(1) by (simp add: SIFS_def)
  next
    case ht
    then have ofdm: "IS_OFMD_RATE ?r" using ofdm_of_ht r by blast
    then have "Hal_TxDescriptor_GetAckTime ?r PREAMBLE_SHORT ?gi (dot11Rifs c) ?bw = Some (a + 20)"
      using response_tables[OF r] ab(1) response_airtime_ofdm by (metis option.map(2))
    moreover obtain t where "frame_airtime ?r ?len ?gi ?bw = Some t"
      using ht bw len assms(1) airtime_bounds[of ?r ?bw ?len ?gi]
      by (auto simp: frame_ok_def Let_def split: option.splits)
    ultimately show ?thesis using ht ofdm
      by (simp add: Hal_TxDescriptor_GetTxTime_def Hal_TxDescriptor_GetCtsTime_def Let_def frame_airtime_def add_opt_def SIFS_def)
  next
    case vht
    then have ofdm: "IS_OFMD_RATE ?r" using ofdm_of_ht r by blast
    then have "Hal_TxDescriptor_GetAckTime ?r PREAMBLE_SHORT ?gi (dot11Rifs c) ?bw = Some (a + 20)"
      using response_tables[OF r] ab(1) response_airtime_ofdm by (metis option.map(2))
    moreover obtain t where "frame_airtime ?r ?len ?gi ?bw = Some t"
      using vht bw len no assms(1) airtime_bounds[of ?r ?bw ?len ?gi]
      by (auto simp: frame_ok_def Let_def split: option.splits)
    ultimately show ?thesis using vht ofdm
      by (simp add: Hal_TxDescriptor_GetTxTime_def Hal_TxDescriptor_GetCtsTime_def Let_def frame_airtime_def add_opt_def SIFS_def)
  qed
  then obtain t where t: "Hal_TxDescriptor_GetTxTime c d = Some t"
    "Hal_TxDescriptor_GetCtsTime c d = Some (SIFS ?r + t + (if ?r \<le> 11 then a else a + 20))" by blast
  then show ?thesis
    using ab ba assms(2) by (auto simp: FrameExchDur_def Hal_TxDescriptor_GetTxTimeBA_def add_opt_def)
qed

text \<open>how long the exchange that a frame starts takes, which the firmware reserves: the frame
  alone when no acknowledgement is asked for; the frame and the block acknowledgement (32 bytes, with
  its SIFS) under a block acknowledgement; otherwise the frame and the acknowledgement (14 bytes, with
  its SIFS) and one SIFS more, with 20 us added to a response in the tables' units.  The air time of
  the frame and of its response are always defined for a frame of a rate of the driver within the limit.\<close>
theorem exchange_duration:
  assumes "frame_ok d" "flag (ha_FLAG d) WIFI_IS_BLOCKACK \<longrightarrow> 2 \<le> ha_CurrentRate d"
  shows "\<exists>t a b. Hal_TxDescriptor_GetTxTime c d = Some t
    \<and> response_airtime (ha_CurrentRate d) (DESC_PREMBLETYPE c d) 14 = Some a
    \<and> response_airtime (ha_CurrentRate d) (DESC_PREMBLETYPE c d) 32 = Some b
    \<and> FrameExchDur c d = Some (if flag (ha_FLAG d) WIFI_IS_NOACK then t
        else if flag (ha_FLAG d) WIFI_IS_BLOCKACK then t + (b + 20)
        else SIFS (ha_CurrentRate d) + t + (if ha_CurrentRate d \<le> 11 then a else a + 20))"
  using assms by (rule exchange_time)

definition sample_agg :: hi_agg_tx_desc where
  "sample_agg = \<lparr>ha_StaId = 1, ha_KeyId = 0, ha_EncryptType = 4, ha_TID = 0, ha_CurrentRate = 0xc7,
     ha_TxTryRate1 = 0xc4, ha_TxTryRate2 = 0xc1, ha_TxTryRate3 = 4, ha_TxTryNum0 = 3, ha_TxTryNum1 = 2,
     ha_TxTryNum2 = 2, ha_TxTryNum3 = 2, ha_FLAG = 0x4211, ha_FLAG2 = 0x400, ha_AGGR_len = 20000,
     ha_MpduNum = 13, ha_vid = 0, ha_HiP2pNoaCountNow = 0, ha_aggr_page_num = 50\<rparr>"

definition sample_hdr :: hi_tx_priv_hdr where
  "sample_hdr = \<lparr>hp_MPDULEN = 1538, hp_Delimiter = 2, hp_Flag = 6, hp_Seqnum = 77, hp_FrameControl = 0x4188,
     hp_EncryptType = 4\<rparr>"

definition sample_mib :: mib where
  "sample_mib = \<lparr>dot11PreambleType = PREAMBLE_LONG, dot11Rifs = False\<rparr>"

lemma sample_ok: "frame_ok sample_agg" "flag (ha_FLAG sample_agg) WIFI_IS_BLOCKACK" "2 \<le> ha_CurrentRate sample_agg"
  by code_simp+

theorem exchange_duration_witness:
  "\<exists>t b. Hal_TxDescriptor_GetTxTime sample_mib sample_agg = Some t
     \<and> FrameExchDur sample_mib sample_agg = Some (t + (b + 20))"
proof -
  have "\<not> flag (ha_FLAG sample_agg) WIFI_IS_NOACK" by code_simp
  then show ?thesis
    using exchange_duration[of sample_agg sample_mib] sample_ok by auto
qed

section \<open>The fields of the descriptor\<close>

lemma tv_codes_fit: "bits 2 (tv_format_code f) = tv_format_code f" "bits 3 (nonht_mode_code m) = nonht_mode_code m"
  by (cases f; simp add: bits_def) (cases m; simp add: bits_def)

lemma build_defined:
  assumes "frame_ok d" "flag (ha_FLAG d) WIFI_IS_BLOCKACK \<longrightarrow> 2 \<le> ha_CurrentRate d"
  shows "\<exists>q. hal_tx_desc_build c d h p = Some q"
proof -
  obtain dur where "FrameExchDur c d = Some dur" using exchange_time[OF assms] by metis
  moreover obtain l where "hal_tx_desc_get_len (ha_CurrentRate d) (ha_AGGR_len d) (DESC_IS_SHORTGI d) (DESC_BANDWIDTH d) False = Some l"
    using signal_length[OF assms(1)] by blast
  moreover have "ha_CurrentRate d \<in> set hw_rates" using assms(1) by (simp add: frame_ok_def Let_def)
  then obtain pw where "hal_tx_desc_get_power (ha_CurrentRate d) = Some pw" using power_fits by blast
  ultimately show ?thesis by (simp add: hal_tx_desc_build_def)
qed

text \<open>C18: the descriptor of a frame that is within the limits of its rate is built, and no bit field cuts
  the value that is stored in it: the rate, its power, its format and modulation, the length of the
  signal field (12 bits), the length of the frame or aggregate (20 bits, with the delimiter of a single
  11ac frame), the timeout of the acknowledgement (9 bits), the virtual interface (2 bits) and the
  sequence number, shifted by 4 into 16 bits; the firmware's copy has the rates in the order of the
  tries, the cumulative tries while they fit a byte, and the duration of the exchange.\<close>
theorem tx_desc_fields_hold:
  assumes "frame_ok d" "flag (ha_FLAG d) WIFI_IS_BLOCKACK \<longrightarrow> 2 \<le> ha_CurrentRate d"
    and "0 \<le> ha_vid d" "ha_vid d < 4" "0 \<le> hp_Seqnum h" "hp_Seqnum h < 4096"
    and "0 \<le> ha_TxTryNum0 d" "0 \<le> ha_TxTryNum1 d" "0 \<le> ha_TxTryNum2 d" "0 \<le> ha_TxTryNum3 d"
    and "ha_TxTryNum0 d + ha_TxTryNum1 d + ha_TxTryNum2 d + ha_TxTryNum3 d < 256"
  shows "\<exists>q v pw l. hal_tx_desc_build c d h p = Some q \<and> v = TxVector q
    \<and> hal_tx_desc_get_power (ha_CurrentRate d) = Some pw \<and> tv_tx_pwr (tv_ht v) = int pw
    \<and> hal_tx_desc_get_len (ha_CurrentRate d) (ha_AGGR_len d) (DESC_IS_SHORTGI d) (DESC_BANDWIDTH d) False = Some l
    \<and> tv_L_length v = l
    \<and> tv_length v = ha_AGGR_len d + (if vht_single d then 4 else 0)
    \<and> tv_tx_rate (tv_ht v) = uint (ha_CurrentRate d)
    \<and> tv_format (tv_ht v) = tv_format_code (hw_rate2tv_format (ha_CurrentRate d))
    \<and> tv_nonht_mod (tv_ht v) = nonht_mode_code (hal_tx_desc_nonht_mode (ha_CurrentRate d) (DESC_BANDWIDTH d))
    \<and> tv_ack_timeout v = Hal_TxDescriptor_GetAckTimeout (ha_CurrentRate d)
    \<and> tv_wnet_vif_id v = ha_vid d \<and> tv_SequenceNum v div 16 = hp_Seqnum h
    \<and> tp_TxRate (TxPriv q) = [ha_CurrentRate d, ha_TxTryRate1 d, ha_TxTryRate2 d, ha_TxTryRate3 d]
    \<and> tp_TxRetry (TxPriv q) = [ha_TxTryNum0 d, ha_TxTryNum0 d + ha_TxTryNum1 d,
         ha_TxTryNum0 d + ha_TxTryNum1 d + ha_TxTryNum2 d,
         ha_TxTryNum0 d + ha_TxTryNum1 d + ha_TxTryNum2 d + ha_TxTryNum3 d]
    \<and> FrameExchDur c d = Some (tp_FrameExchDur (TxPriv q))"
proof -
  obtain dur where dur: "FrameExchDur c d = Some dur" using exchange_time[OF assms(1,2)] by metis
  obtain l where l: "hal_tx_desc_get_len (ha_CurrentRate d) (ha_AGGR_len d) (DESC_IS_SHORTGI d) (DESC_BANDWIDTH d) False = Some l"
    "0 \<le> l" "l < 4096" using signal_length[OF assms(1)] by blast
  have r: "ha_CurrentRate d \<in> set hw_rates" and len: "0 < ha_AGGR_len d" "ha_AGGR_len d < 65536"
    using assms(1) by (auto simp: frame_ok_def Let_def)
  obtain pw where pw: "hal_tx_desc_get_power (ha_CurrentRate d) = Some pw" "pw < 16" using power_fits[OF r] by blast
  have ack: "bits 9 (Hal_TxDescriptor_GetAckTimeout (ha_CurrentRate d)) = Hal_TxDescriptor_GetAckTimeout (ha_CurrentRate d)"
    by (simp add: Hal_TxDescriptor_GetAckTimeout_def bits_def)
  define q where "q = p\<lparr>TxVector := build_vector c d h (single_ampdu d p) pw l (tv_ht (TxVector p)),
    TxOption := build_option d (TxOption p), TxPriv := build_priv d h dur (TxPriv p),
    txdata := (if single_ampdu d p then clear_ack_policy (txdata p) else txdata p)\<rparr>"
  have build: "hal_tx_desc_build c d h p = Some q"
    by (simp add: hal_tx_desc_build_def pw(1) l(1) dur q_def)
  have v: "tv_L_length (TxVector q) = l" "tv_tx_pwr (tv_ht (TxVector q)) = int pw"
    "tv_length (TxVector q) = ha_AGGR_len d + (if vht_single d then 4 else 0)"
    "tv_tx_rate (tv_ht (TxVector q)) = uint (ha_CurrentRate d)"
    "tv_format (tv_ht (TxVector q)) = tv_format_code (hw_rate2tv_format (ha_CurrentRate d))"
    "tv_nonht_mod (tv_ht (TxVector q)) = nonht_mode_code (hal_tx_desc_nonht_mode (ha_CurrentRate d) (DESC_BANDWIDTH d))"
    "tv_ack_timeout (TxVector q) = Hal_TxDescriptor_GetAckTimeout (ha_CurrentRate d)"
    "tv_wnet_vif_id (TxVector q) = ha_vid d" "tv_SequenceNum (TxVector q) div 16 = hp_Seqnum h"
    using l(2,3) pw(2) len assms(3-6)
    by (simp_all add: q_def build_vector_def build_ht_def Let_def tv_codes_fit ack) (simp_all add: bits_def)
  have pr: "tp_TxRate (TxPriv q) = [ha_CurrentRate d, ha_TxTryRate1 d, ha_TxTryRate2 d, ha_TxTryRate3 d]"
    "tp_FrameExchDur (TxPriv q) = dur"
    "tp_TxRetry (TxPriv q) = [ha_TxTryNum0 d, ha_TxTryNum0 d + ha_TxTryNum1 d,
         ha_TxTryNum0 d + ha_TxTryNum1 d + ha_TxTryNum2 d,
         ha_TxTryNum0 d + ha_TxTryNum1 d + ha_TxTryNum2 d + ha_TxTryNum3 d]"
    using assms(7-11) by (simp_all add: q_def build_priv_def Let_def u8_of_def ac_simps)
  show ?thesis using build v pr pw(1) l(1) dur by metis
qed

theorem tx_desc_fields_hold_witness:
  "\<exists>q. hal_tx_desc_build sample_mib sample_agg sample_hdr (zero_desc []) = Some q
    \<and> tp_TxRetry (TxPriv q) = [3, 5, 7, 9] \<and> tv_length (TxVector q) = 20000"
proof -
  have "\<not> vht_single sample_agg" by code_simp
  moreover have "ha_vid sample_agg = 0" "hp_Seqnum sample_hdr = 77" "ha_TxTryNum0 sample_agg = 3"
    "ha_TxTryNum1 sample_agg = 2" "ha_TxTryNum2 sample_agg = 2" "ha_TxTryNum3 sample_agg = 2"
    "ha_AGGR_len sample_agg = 20000"
    by (simp_all add: sample_agg_def sample_hdr_def)
  ultimately show ?thesis
    using tx_desc_fields_hold[of sample_agg sample_hdr sample_mib "zero_desc []"] sample_ok by auto
qed

lemma small_bits:
  assumes "0 \<le> x" "x < 2 ^ n" "n \<le> k"
  shows "\<not> bit (x :: int) k"
  using assms by (metis bit_take_bit_iff not_le take_bit_int_eq_self)

lemma buf_flag_bits:
  "bit (buf_flag f h) k \<longleftrightarrow> k < 32 \<and> (bit f k \<or> (6 \<le> k \<and> bit (hp_MPDULEN h) (k - 6))
      \<or> (20 \<le> k \<and> bit (hp_Delimiter h) (k - 20)) \<or> (k = 3 \<and> hp_Flag h AND 4 = 0))"
proof -
  have eight: "bit (8 :: int) k \<longleftrightarrow> k = 3" for k
    using bit_exp_iff[where 'a = int, of 3 k] by simp
  have "buf_flag f h = take_bit 32 (((f OR push_bit 6 (hp_MPDULEN h)) OR push_bit 20 (hp_Delimiter h))
      OR (if hp_Flag h AND 4 = 0 then 8 else 0))"
    by (simp add: buf_flag_def u32_of_def take_bit_eq_mod push_bit_eq_mult)
  then show ?thesis by (auto simp: bit_take_bit_iff bit_or_iff bit_push_bit_iff eight)
qed

lemma low_flags: "bit (7 :: int) k \<longleftrightarrow> k < 3" "bit (3 :: int) k \<longleftrightarrow> k < 2"
  using bit_mask_iff[where 'a = int, of 3 k] bit_mask_iff[where 'a = int, of 2 k]
  by (simp_all add: mask_eq_exp_minus_1)

lemma buf_flag_get:
  assumes "0 \<le> hp_MPDULEN h" "hp_MPDULEN h < 2 ^ 14" "0 \<le> hp_Delimiter h" "hp_Delimiter h < 2 ^ 8" "f = 7 \<or> f = 3"
  shows "HW_MPDU_LEN_GET (buf_flag f h) = hp_MPDULEN h" "HW_BUFFER_LEN_GET (buf_flag f h) = hp_Delimiter h"
proof -
  note len = small_bits[OF assms(1,2)] and del = small_bits[OF assms(3,4)] and wk = buf_flag_bits
  have fk: "\<not> bit f k" if "3 \<le> k" for k using assms(5) that low_flags by auto
  have "HW_MPDU_LEN_GET (buf_flag f h) = take_bit 14 (drop_bit 6 (buf_flag f h))"
    by (simp add: HW_MPDU_LEN_GET_def take_bit_eq_mask mask_eq_exp_minus_1 drop_bit_eq_div)
  also have "\<dots> = hp_MPDULEN h"
  proof (rule bit_eqI)
    fix k show "bit (take_bit 14 (drop_bit 6 (buf_flag f h))) k = bit (hp_MPDULEN h) k"
      using len[of k] fk[of "k + 6"] by (cases "k < 14") (auto simp: bit_take_bit_iff bit_drop_bit_eq wk add.commute)
  qed
  finally show "HW_MPDU_LEN_GET (buf_flag f h) = hp_MPDULEN h" .
  have "HW_BUFFER_LEN_GET (buf_flag f h) = take_bit 12 (drop_bit 20 (buf_flag f h))"
    by (simp add: HW_BUFFER_LEN_GET_def take_bit_eq_mask mask_eq_exp_minus_1 drop_bit_eq_div)
  also have "\<dots> = hp_Delimiter h"
  proof (rule bit_eqI)
    fix k show "bit (take_bit 12 (drop_bit 20 (buf_flag f h))) k = bit (hp_Delimiter h) k"
      using del[of k] fk[of "k + 20"] len[of "k + 14"]
      by (cases "k < 12") (auto simp: bit_take_bit_iff bit_drop_bit_eq wk add.commute)
  qed
  finally show "HW_BUFFER_LEN_GET (buf_flag f h) = hp_Delimiter h" .
qed

text \<open>the length of a frame (14 bits) and the padding behind it (8 bits) read back from the word in
  front of every descriptor of an aggregate, the first and the others, as does whether the frame is
  the last of its aggregate; the flag of the first frame is set in the first descriptor only.\<close>
theorem mpdu_flag_roundtrip:
  assumes "0 \<le> hp_MPDULEN h" "hp_MPDULEN h < 2 ^ 14" "0 \<le> hp_Delimiter h" "hp_Delimiter h < 2 ^ 8"
    and "fill_first offset page_len c d h data = Some first"
    and "q \<in> {first, fill_sub offset page_len other h data}"
  shows "HW_MPDU_LEN_GET (MPDUBufFlag q) = hp_MPDULEN h \<and> HW_BUFFER_LEN_GET (MPDUBufFlag q) = hp_Delimiter h
    \<and> (bit (MPDUBufFlag q) 3 \<longleftrightarrow> hp_Flag h AND 4 = 0) \<and> bit (MPDUBufFlag q) 0 \<and> bit (MPDUBufFlag q) 1
    \<and> bit (MPDUBufFlag first) 2 \<and> \<not> bit (MPDUBufFlag (fill_sub offset page_len other h data)) 2"
proof -
  have build: "MPDUBufFlag r = MPDUBufFlag p" if "hal_tx_desc_build c d h p = Some r" for p r
    using that unfolding hal_tx_desc_build_def bind_eq_Some_conv by (elim exE conjE) (drule sym, simp)
  have first: "MPDUBufFlag first = buf_flag 7 h"
    using assms(5) unfolding fill_first_def Let_def map_option_eq_Some
    by (elim exE conjE) (drule build, drule sym, simp add: in_hal_def)
  have two: "buf_flag 3 h OR 2 = buf_flag 3 h"
  proof (rule bit_eqI)
    fix k show "bit (buf_flag 3 h OR 2) k = bit (buf_flag 3 h) k"
      using bit_exp_iff[where 'a = int, of 1 k] by (auto simp: bit_or_iff buf_flag_bits low_flags)
  qed
  have sub: "MPDUBufFlag (fill_sub offset page_len other h data) = buf_flag 3 h"
    by (simp add: fill_sub_def hal_tx_desc_build_sub_def in_hal_def Let_def two)
  obtain f where f: "f = 7 \<or> f = 3" "MPDUBufFlag q = buf_flag f h"
    using assms(6) first sub by blast
  have "bit (buf_flag f h) 3 \<longleftrightarrow> hp_Flag h AND 4 = 0" "bit (buf_flag f h) 0" "bit (buf_flag f h) 1"
    "bit (buf_flag 7 h) 2" "\<not> bit (buf_flag 3 h) 2"
    using f(1) unfolding buf_flag_bits by (elim disjE; simp add: low_flags)+
  then show ?thesis using f buf_flag_get[OF assms(1-4) f(1)] first sub by simp
qed

theorem mpdu_flag_roundtrip_witness:
  "\<exists>first. fill_first 152 512 sample_mib sample_agg sample_hdr [] = Some first
    \<and> HW_MPDU_LEN_GET (MPDUBufFlag first) = 1538"
proof -
  obtain first where f: "fill_first 152 512 sample_mib sample_agg sample_hdr [] = Some first"
    using build_defined[OF sample_ok(1)] sample_ok(3) unfolding fill_first_def Let_def by (metis option.map(2))
  have "hp_MPDULEN sample_hdr = 1538" "hp_Delimiter sample_hdr = 2" by (simp_all add: sample_hdr_def)
  then show ?thesis
    using mpdu_flag_roundtrip[of sample_hdr 152 512 sample_mib sample_agg "[]" first first first] f by simp
qed

end
