(* ===== verification/ReplayCnt.thy ===== *)
theory ReplayCnt
  imports Prelude
begin

text \<open>
  wifi_hal.c, wifi_hal_txdesc.c: the packet numbers of the encrypted frames.  The sender numbers every
  frame from a counter per station and one for multicast (assign_tx_desc_pn); the receiver rejects a
  number it has seen (hal_chk_replay_cnt, compiled with RX_PN_CHECK).  TKIP and CCMP use the low 64
  bits of the 16 bytes, and accept out of order within 62 numbers; WAPI compares all 128 bits.  A
  packet number is a list of 16 bytes, as in memory.
\<close>

unbundle bit_operations_syntax

section \<open>Little-endian numbers\<close>

primrec le_val :: "u8 list \<Rightarrow> nat" where
  "le_val [] = 0"
| "le_val (b # bs) = unat b + 256 * le_val bs"

primrec le_bytes :: "nat \<Rightarrow> nat \<Rightarrow> u8 list" where
  "le_bytes 0 v = []"
| "le_bytes (Suc n) v = of_nat (v mod 256) # le_bytes n (v div 256)"

text \<open>The 64-bit words of a packet number, read and written through a cast pointer.\<close>

definition u64_at :: "nat \<Rightarrow> u8 list \<Rightarrow> nat" where
  "u64_at i pn = le_val (take 8 (drop (8 * i) pn))"

definition set_u64 :: "nat \<Rightarrow> nat \<Rightarrow> u8 list \<Rightarrow> u8 list" where
  "set_u64 i v pn = take (8 * i) pn @ le_bytes 8 v @ drop (8 * i + 8) pn"

section \<open>State\<close>

datatype aml_key_type = AML_UCAST_TYPE | AML_MCAST_TYPE

record unicastReplayCnt =
  utxPN :: "u8 list"
  urxPN :: "u8 list list"

record multicastReplayCnt =
  mtxPN :: "u8 list"
  mrxPN :: "u8 list"

record replay_state =
  uRepCnt :: "nat \<Rightarrow> nat \<Rightarrow> unicastReplayCnt"
  mRepCnt :: "nat \<Rightarrow> multicastReplayCnt"
  pn_window :: "nat \<Rightarrow> aml_key_type \<Rightarrow> nat \<times> nat"

abbreviation (input) WIFI_NO_WEP :: nat where "WIFI_NO_WEP \<equiv> 0"
abbreviation (input) WIFI_TKIP :: nat where "WIFI_TKIP \<equiv> 2"
abbreviation (input) WIFI_AES :: nat where "WIFI_AES \<equiv> 4"
abbreviation (input) WIFI_WPI :: nat where "WIFI_WPI \<equiv> 7"

definition wpi_pn :: "u8 \<Rightarrow> u8 list" where
  "wpi_pn b = [b, 0x5c, 0x36, 0x5c, 0x36, 0x5c, 0x36, 0x5c, 0x36, 0x5c, 0x36, 0x5c, 0x36, 0x5c, 0x36, 0x5c]"

definition one_pn :: "u8 list" where
  "one_pn = 1 # replicate 15 0"

text \<open>A station (not an access point) starts WAPI at an even number, an access point at an odd one.\<close>

definition hal_urep_cnt_init :: "bool \<Rightarrow> nat \<Rightarrow> unicastReplayCnt \<Rightarrow> unicastReplayCnt" where
  "hal_urep_cnt_init mode_sta enc u =
    u\<lparr>utxPN := (if enc = WIFI_WPI then (if mode_sta then wpi_pn 0x36 else wpi_pn 0x37) else one_pn),
      urxPN := replicate 4 (replicate 16 0)\<rparr>"

definition hal_mrep_cnt_init :: "nat \<Rightarrow> nat \<Rightarrow> replay_state \<Rightarrow> replay_state" where
  "hal_mrep_cnt_init vid enc s =
    s\<lparr>mRepCnt := (mRepCnt s)(vid := \<lparr>mtxPN = (if enc = WIFI_WPI then wpi_pn 0x36 else one_pn),
                                     mrxPN = replicate 16 0\<rparr>)\<rparr>"

definition hal_pn_win_init :: "aml_key_type \<Rightarrow> nat \<Rightarrow> replay_state \<Rightarrow> replay_state" where
  "hal_pn_win_init type vid s = s\<lparr>pn_window := (pn_window s)(vid := (pn_window s vid)(type := (0, 0)))\<rparr>"

section \<open>Sending\<close>

definition hal_wpi_pn_self_plus :: "u8 list \<Rightarrow> u8 list" where
  "hal_wpi_pn_self_plus pn =
    (if u64_at 0 pn = 2 ^ 64 - 1 then set_u64 1 (u64_at 1 pn + 1) (set_u64 0 0 pn)
     else set_u64 0 (u64_at 0 pn + 1) pn)"

definition hal_wpi_pn_self_plus_plus :: "u8 list \<Rightarrow> u8 list" where
  "hal_wpi_pn_self_plus_plus pn =
    (if u64_at 0 pn = 2 ^ 64 - 1 then set_u64 1 (u64_at 1 pn + 1) (set_u64 0 1 pn)
     else if u64_at 0 pn = 2 ^ 64 - 2 then set_u64 1 (u64_at 1 pn + 1) (set_u64 0 0 pn)
     else set_u64 0 (u64_at 0 pn + 2) pn)"

text \<open>The number a frame gets, and the counter after it.\<close>

definition take_pn :: "bool \<Rightarrow> nat \<Rightarrow> u8 list \<Rightarrow> u8 list \<Rightarrow> u8 list \<times> u8 list" where
  "take_pn is_bc enc pn page =
    (if enc = WIFI_TKIP \<or> enc = WIFI_AES then (take 8 pn @ drop 8 page, set_u64 0 (u64_at 0 pn + 1) pn)
     else if enc = WIFI_WPI then (pn, if is_bc then hal_wpi_pn_self_plus pn else hal_wpi_pn_self_plus_plus pn)
     else (page, pn))"

definition assign_tx_desc_pn :: "bool \<Rightarrow> nat \<Rightarrow> nat \<Rightarrow> nat \<Rightarrow> u8 list \<Rightarrow> replay_state \<Rightarrow> u8 list \<times> replay_state" where
  "assign_tx_desc_pn is_bc vid sta enc page s =
    (if enc = WIFI_NO_WEP then (page, s)
     else if is_bc
     then let (page, pn) = take_pn True enc (mtxPN (mRepCnt s vid)) page
          in (page, s\<lparr>mRepCnt := (mRepCnt s)(vid := (mRepCnt s vid)\<lparr>mtxPN := pn\<rparr>)\<rparr>)
     else let (page, pn) = take_pn False enc (utxPN (uRepCnt s vid sta)) page
          in (page, s\<lparr>uRepCnt := (uRepCnt s)(vid := (uRepCnt s vid)(sta := (uRepCnt s vid sta)\<lparr>utxPN := pn\<rparr>))\<rparr>))"

section \<open>Receiving\<close>

text \<open>From the most significant byte down.\<close>

fun chk_pn_loop :: "u8 list \<Rightarrow> u8 list \<Rightarrow> nat \<Rightarrow> bool" where
  "chk_pn_loop rcv saved 0 = False"
| "chk_pn_loop rcv saved (Suc i) =
    (if rcv ! i > saved ! i then True
     else if rcv ! i < saved ! i then False
     else chk_pn_loop rcv saved i)"

definition hal_wpi_chk_pn_increase :: "u8 list \<Rightarrow> u8 list \<Rightarrow> bool" where
  "hal_wpi_chk_pn_increase rcv saved = chk_pn_loop rcv saved 16"

text \<open>The window has a bit for each of the 62 numbers above the counter, in two words of 31 bits.
  hal_set_pn_win finds how many at its low end are set, and shifts them out, or one bit when there
  is none.\<close>

fun trailing_ones :: "nat \<Rightarrow> nat" where
  "trailing_ones w = (if w > 0 \<and> odd w then Suc (trailing_ones (w div 2)) else 0)"

declare trailing_ones.simps [simp del]

definition win_offset :: "nat \<times> nat \<Rightarrow> nat" where
  "win_offset w =
    (let n = trailing_ones (fst w);
         offset = (if n < 31 then n else n + trailing_ones (snd w))
     in if offset = 0 then 1 else offset)"

definition win_shift :: "nat \<Rightarrow> nat \<times> nat \<Rightarrow> nat \<times> nat" where
  "win_shift offset w =
    (if offset > 0 \<and> offset < 31
     then (drop_bit offset (fst w) OR push_bit (31 - offset) (snd w AND mask offset), drop_bit offset (snd w))
     else if offset \<ge> 31 \<and> offset < 62 then (drop_bit (offset - 31) (snd w), 0)
     else (0, 0))"

definition hal_set_pn_win :: "nat \<times> nat \<Rightarrow> nat \<times> (nat \<times> nat)" where
  "hal_set_pn_win w = (win_offset w, win_shift (win_offset w) w)"

definition hal_check_dup_pn :: "nat \<times> nat \<Rightarrow> nat \<Rightarrow> nat" where
  "hal_check_dup_pn w diff =
    (if diff > 0 \<and> diff \<le> 31 then fst w AND push_bit (diff - 1) 1
     else if diff > 31 \<and> diff \<le> 62 then snd w AND push_bit (diff - 31 - 1) 1
     else 0)"

text \<open>The difference is kept in 32 bits.\<close>

definition diff32 :: "nat \<Rightarrow> nat \<Rightarrow> nat" where
  "diff32 a b = nat ((int a - int b) mod 2 ^ 32)"

text \<open>Marking a number that is ahead; the next expected one moves the window.\<close>

definition pn_mark :: "nat \<Rightarrow> nat \<times> nat \<Rightarrow> nat \<Rightarrow> nat \<times> (nat \<times> nat)" where
  "pn_mark my w diff =
    (if diff > 0 \<and> diff \<le> 31
     then let w = (fst w OR push_bit (diff - 1) 1, snd w)
          in if diff = 1 then let (offset, w) = hal_set_pn_win w in (my + offset, w) else (my, w)
     else if diff > 31 \<and> diff \<le> 62 then (my, (fst w, snd w OR push_bit (diff - 31 - 1) 1))
     else (my, w))"

text \<open>The case of TKIP and CCMP: whether the frame is accepted, the saved number, the window.\<close>

definition chk_ccmp :: "u8 list \<Rightarrow> nat \<times> nat \<Rightarrow> u8 list \<Rightarrow> bool \<times> u8 list \<times> (nat \<times> nat)" where
  "chk_ccmp PN w rxPN =
    (let my = u64_at 0 PN; rx = u64_at 0 rxPN
     in if my < rx
        then let my = (if my = 0 \<and> rx > 0 then rx - 1 else my); PN = set_u64 0 my PN
             in if my = rx - 1 \<and> fst w = 0 \<and> snd w = 0 then (True, rxPN, w)
                else let diff = diff32 rx my
                     in if hal_check_dup_pn w diff \<noteq> 0 then (False, PN, w)
                        else let (my, w) = (if diff > 62 then let (offset, w) = hal_set_pn_win w in (my + offset, w)
                                            else (my, w));
                                 (my, w) = pn_mark my w (diff32 rx my)
                             in (True, set_u64 0 my PN, w)
        else (False, PN, w))"

datatype decrypt = RX_PHY_TKIP | RX_PHY_CCMP | RX_PHY_WAPI | RX_PHY_OTHER

record rx_pn_hdr =
  rh_group :: bool
  rh_bssidmatch_id :: nat
  rh_RxA1match_id :: nat
  rh_addr2 :: "u8 list"
  rh_decrypt :: decrypt
  rh_PN :: "u8 list"

text \<open>The check of a frame against the saved number of its key.\<close>

definition chk_key :: "decrypt \<Rightarrow> u8 list \<Rightarrow> nat \<times> nat \<Rightarrow> u8 list \<Rightarrow> bool \<times> u8 list \<times> (nat \<times> nat)" where
  "chk_key dec PN w rxPN =
    (case dec of
       RX_PHY_TKIP \<Rightarrow> chk_ccmp PN w rxPN
     | RX_PHY_CCMP \<Rightarrow> chk_ccmp PN w rxPN
     | RX_PHY_WAPI \<Rightarrow> (if hal_wpi_chk_pn_increase rxPN PN then (True, rxPN, w) else (False, PN, w))
     | RX_PHY_OTHER \<Rightarrow> (True, PN, w))"

definition hal_chk_replay_cnt :: "(u8 list \<Rightarrow> nat \<Rightarrow> nat option) option \<Rightarrow> rx_pn_hdr \<Rightarrow> replay_state \<Rightarrow> bool \<times> replay_state" where
  "hal_chk_replay_cnt get_stationid h s =
    (if rh_group h
     then let vid = rh_bssidmatch_id h;
              (ok, PN, w) = chk_key (rh_decrypt h) (mrxPN (mRepCnt s vid)) (pn_window s vid AML_MCAST_TYPE) (rh_PN h)
          in (ok, s\<lparr>mRepCnt := (mRepCnt s)(vid := (mRepCnt s vid)\<lparr>mrxPN := PN\<rparr>),
                     pn_window := (pn_window s)(vid := (pn_window s vid)(AML_MCAST_TYPE := w))\<rparr>)
     else case get_stationid of
       None \<Rightarrow> (True, s)
     | Some f \<Rightarrow>
         (let vid = rh_RxA1match_id h
          in case f (rh_addr2 h) vid of
               None \<Rightarrow> (False, s)
             | Some sta \<Rightarrow>
                 (let (ok, PN, w) = chk_key (rh_decrypt h) (urxPN (uRepCnt s vid sta) ! 0) (pn_window s vid AML_UCAST_TYPE) (rh_PN h)
                  in (ok, s\<lparr>uRepCnt := (uRepCnt s)(vid := (uRepCnt s vid)(sta :=
                               (uRepCnt s vid sta)\<lparr>urxPN := (urxPN (uRepCnt s vid sta))[0 := PN]\<rparr>)),
                             pn_window := (pn_window s)(vid := (pn_window s vid)(AML_UCAST_TYPE := w))\<rparr>))))"

end
