(* ===== verification/ReplayProps.thy ===== *)
theory ReplayProps
  imports ReplayCnt
begin

text \<open>
  What the packet numbers guarantee: the counters count, WAPI compares numerically, and within reach of
  its window the receiver accepts every number exactly once, in any order.
\<close>

declare One_nat_def [simp del]

section \<open>Bytes and words\<close>

lemma length_le_bytes [simp]: "length (le_bytes n v) = n"
  by (induction n arbitrary: v) auto

lemma le_val_le_bytes [simp]: "le_val (le_bytes n v) = v mod 256 ^ n"
proof (induction n arbitrary: v)
  case (Suc n)
  have "unat (word_of_nat (v mod 256) :: u8) = v mod 256" by (simp add: unat_of_nat)
  then show ?case using Suc by (simp add: mod_mult2_eq)
qed simp

lemma le_val_append: "le_val (xs @ ys) = le_val xs + 256 ^ length xs * le_val ys"
  by (induction xs) (auto simp: algebra_simps)

lemma le_val_less: "le_val xs < 256 ^ length xs"
proof (induction xs)
  case (Cons b bs)
  have "unat b < 256" using unsigned_less[of b] by simp
  then have "unat b + 256 * le_val bs < 256 * Suc (le_val bs)" by simp
  also have "\<dots> \<le> 256 * 256 ^ length bs" using Cons by (intro mult_le_mono2) simp
  finally show ?case by simp
qed simp

lemma le_val_zeros [simp]: "le_val (replicate n 0) = 0"
  by (induction n) auto

lemma le_val_ones: "le_val (replicate n 255) = 256 ^ n - 1"
proof (induction n)
  case (Suc n)
  moreover have "unat (255 :: u8) = 255" by (simp add: One_nat_def)
  moreover have "0 < (256 :: nat) ^ n" by simp
  ultimately show ?case by (simp add: algebra_simps)
qed simp

lemma low_carry: "k < M \<Longrightarrow> (M * h + k) mod (M * M) = k + M * (h mod M)" for M :: nat
  by (simp add: mod_mult2_eq)

text \<open>A packet number is its low and its high word.\<close>

lemma pn_split:
  assumes "length pn = 16"
  shows "le_val pn = u64_at 0 pn + 2 ^ 64 * u64_at 1 pn"
proof -
  have "le_val pn = le_val (take 8 pn @ drop 8 pn)" by simp
  also have "\<dots> = le_val (take 8 pn) + 256 ^ length (take 8 pn) * le_val (drop 8 pn)"
    by (rule le_val_append)
  finally show ?thesis using assms by (simp add: u64_at_def)
qed

lemma u64_at_less: "i < 2 \<Longrightarrow> length pn = 16 \<Longrightarrow> u64_at i pn < 2 ^ 64"
  using le_val_less[of "take 8 (drop (8 * i) pn)"] by (auto simp: u64_at_def less_2_cases_iff)

lemma length_set_u64 [simp]: "i < 2 \<Longrightarrow> length pn = 16 \<Longrightarrow> length (set_u64 i v pn) = 16"
  by (auto simp: set_u64_def less_2_cases_iff)

lemma u64_at_set:
  assumes "length pn = 16"
  shows "u64_at 0 (set_u64 0 v pn) = v mod 2 ^ 64" "u64_at 1 (set_u64 0 v pn) = u64_at 1 pn"
    "u64_at 1 (set_u64 1 v pn) = v mod 2 ^ 64" "u64_at 0 (set_u64 1 v pn) = u64_at 0 pn"
  using assms by (simp_all add: u64_at_def set_u64_def)

section \<open>Counting\<close>

lemma wpi_plus_val:
  assumes "length pn = 16"
  shows "le_val (hal_wpi_pn_self_plus pn) = (le_val pn + 1) mod 2 ^ 128"
    "length (hal_wpi_pn_self_plus pn) = 16"
proof -
  note less = u64_at_less[of 0 pn] u64_at_less[of 1 pn]
  show "length (hal_wpi_pn_self_plus pn) = 16" using assms by (simp add: hal_wpi_pn_self_plus_def)
  show "le_val (hal_wpi_pn_self_plus pn) = (le_val pn + 1) mod 2 ^ 128"
  proof (cases "u64_at 0 pn = 2 ^ 64 - 1")
    case True
    have "le_val (hal_wpi_pn_self_plus pn) = 2 ^ 64 * ((u64_at 1 pn + 1) mod 2 ^ 64)"
      using assms True by (simp add: hal_wpi_pn_self_plus_def pn_split u64_at_set)
    also have "\<dots> = (2 ^ 64 * (u64_at 1 pn + 1)) mod (2 ^ 64 * 2 ^ 64)" by (simp only: mult_mod_right)
    also have "2 ^ 64 * (u64_at 1 pn + 1) = le_val pn + 1" using assms True by (simp add: pn_split)
    finally show ?thesis by simp
  next
    case False
    then have "le_val (hal_wpi_pn_self_plus pn) = le_val pn + 1"
      using assms less by (simp add: hal_wpi_pn_self_plus_def pn_split u64_at_set)
    moreover have "le_val pn + 1 < 2 ^ 128"
      using assms less False by (simp add: pn_split)
    ultimately show ?thesis by simp
  qed
qed

lemma wpi_plus_plus_val:
  assumes "length pn = 16"
  shows "le_val (hal_wpi_pn_self_plus_plus pn) = (le_val pn + 2) mod 2 ^ 128"
    "length (hal_wpi_pn_self_plus_plus pn) = 16"
proof -
  show len: "length (hal_wpi_pn_self_plus_plus pn) = 16" using assms by (simp add: hal_wpi_pn_self_plus_plus_def)
  note less = u64_at_less[of 0 pn] u64_at_less[of 1 pn]
  consider (two) "u64_at 0 pn < 2 ^ 64 - 2" | (carry) k where "k < 2" "u64_at 0 pn + 2 = 2 ^ 64 + k"
  proof -
    have "u64_at 0 pn < 2 ^ 64 - 2 \<or> (\<exists>k < 2. u64_at 0 pn + 2 = 2 ^ 64 + k)"
      using less(1) assms by (simp add: numeral_2_eq_2 less_Suc_eq One_nat_def) arith
    then show thesis using two carry by blast
  qed
  then show "le_val (hal_wpi_pn_self_plus_plus pn) = (le_val pn + 2) mod 2 ^ 128"
  proof cases
    case two
    then have "le_val (hal_wpi_pn_self_plus_plus pn) = le_val pn + 2"
      using assms by (simp add: hal_wpi_pn_self_plus_plus_def pn_split u64_at_set)
    moreover have "le_val pn + 2 < 2 ^ 128" using assms less two by (simp add: pn_split)
    ultimately show ?thesis by simp
  next
    case carry
    then have "le_val (hal_wpi_pn_self_plus_plus pn) = k + 2 ^ 64 * ((u64_at 1 pn + 1) mod 2 ^ 64)"
      using assms by (auto simp: hal_wpi_pn_self_plus_plus_def pn_split u64_at_set less_2_cases_iff)
    also have "\<dots> = (2 ^ 64 * (u64_at 1 pn + 1) + k) mod (2 ^ 64 * 2 ^ 64)"
      using carry(1) by (intro low_carry[symmetric]) simp
    also have "2 ^ 64 * (u64_at 1 pn + 1) + k = le_val pn + 2" using assms carry by (simp add: pn_split)
    finally show ?thesis by simp
  qed
qed

lemma chk_pn_loop_val:
  assumes "n \<le> length r" "n \<le> length s"
  shows "chk_pn_loop r s n \<longleftrightarrow> le_val (take n s) < le_val (take n r)"
  using assms
proof (induction n)
  case (Suc n)
  then have t: "take (Suc n) r = take n r @ [r ! n]" "take (Suc n) s = take n s @ [s ! n]"
    by (simp_all add: take_Suc_conv_app_nth)
  have l: "le_val (take n r) < 256 ^ n" "le_val (take n s) < 256 ^ n"
    using le_val_less[of "take n r"] le_val_less[of "take n s"] Suc.prems by simp_all
  have gt: "a + (256 ^ n) * x < b + (256 ^ n) * y" if "x < y" "a < 256 ^ n" for a b x y :: nat
  proof -
    have "a + 256 ^ n * x < 256 ^ n * Suc x" using that by simp
    also have "\<dots> \<le> 256 ^ n * y" using that by (intro mult_le_mono2) simp
    finally show ?thesis by simp
  qed
  consider "unat (r ! n) < unat (s ! n)" | "unat (s ! n) < unat (r ! n)" | "r ! n = s ! n"
    by (metis linorder_neqE_nat word_unat_eq_iff)
  then show ?case
    using Suc l gt[of "unat (r ! n)" "unat (s ! n)" "le_val (take n r)" "le_val (take n s)"]
      gt[of "unat (s ! n)" "unat (r ! n)" "le_val (take n s)" "le_val (take n r)"]
    by cases (auto simp: t le_val_append word_less_nat_alt)
qed simp

lemma wpi_check_val:
  assumes "length r = 16" "length s = 16"
  shows "hal_wpi_chk_pn_increase r s \<longleftrightarrow> le_val s < le_val r"
  using chk_pn_loop_val[of 16 r s] assms by (simp add: hal_wpi_chk_pn_increase_def)

text \<open>C17: WAPI's packet numbers are numbers of 128 bits: the comparison from the last byte down is the
  numerical one, the multicast counter grows by one and the unicast counter by two, carrying between
  the two words, so that (short of the 128-bit wrap) each packet number of a sender is accepted after
  any earlier one, and no number is accepted twice.\<close>
theorem wapi_numbers_increase:
  assumes "length pn = 16" "length r = 16" "length s = 16" "le_val pn + 2 < 2 ^ 128"
  shows "(hal_wpi_chk_pn_increase r s \<longleftrightarrow> le_val s < le_val r)
    \<and> le_val (hal_wpi_pn_self_plus pn) = le_val pn + 1 \<and> le_val (hal_wpi_pn_self_plus_plus pn) = le_val pn + 2
    \<and> hal_wpi_chk_pn_increase (hal_wpi_pn_self_plus pn) pn \<and> hal_wpi_chk_pn_increase (hal_wpi_pn_self_plus_plus pn) pn
    \<and> \<not> hal_wpi_chk_pn_increase pn pn"
  using wpi_plus_val[OF assms(1)] wpi_plus_plus_val[OF assms(1)] assms by (simp add: wpi_check_val)

theorem wapi_numbers_increase_witness:
  "le_val (hal_wpi_pn_self_plus_plus (replicate 8 255 @ replicate 8 0)) = 2 ^ 64 + 1"
proof -
  have v: "le_val (replicate 8 255 @ replicate 8 0) = 2 ^ 64 - 1"
    by (simp add: le_val_append le_val_ones)
  then show ?thesis
    using wapi_numbers_increase[of "replicate 8 255 @ replicate 8 0" "replicate 16 0" "replicate 16 0"] by simp
qed

declare One_nat_def [simp]

section \<open>The window\<close>

text \<open>The abstract state: the set of numbers that count as received, all up to the counter and those
  whose bit is set.\<close>

definition wbit :: "nat \<times> nat \<Rightarrow> nat \<Rightarrow> bool" where
  "wbit w i \<longleftrightarrow> (if i < 31 then bit (fst w) i else bit (snd w) (i - 31))"

definition win_ok :: "nat \<times> nat \<Rightarrow> bool" where
  "win_ok w \<longleftrightarrow> (\<forall>k \<ge> 31. \<not> bit (fst w) k \<and> \<not> bit (snd w) k)"

definition received :: "nat \<Rightarrow> nat \<times> nat \<Rightarrow> nat set" where
  "received my w = {p. p \<le> my \<or> wbit w (p - my - 1)}"

lemma wbit_range: "win_ok w \<Longrightarrow> wbit w i \<Longrightarrow> i < 62"
  by (rule ccontr) (auto simp: win_ok_def wbit_def split: if_splits)

lemma trailing_ones_bits:
  "(\<forall>i < trailing_ones w. bit w i) \<and> \<not> bit w (trailing_ones w)"
proof (induction w rule: trailing_ones.induct)
  case (1 w)
  show ?case
  proof (cases "w > 0 \<and> odd w")
    case True
    then have t: "trailing_ones w = Suc (trailing_ones (w div 2))" by (simp add: trailing_ones.simps)
    have "bit w i" if "i < trailing_ones w" for i
      using that True 1[OF True] t by (cases i) (auto simp: bit_0 bit_Suc)
    moreover have "\<not> bit w (trailing_ones w)" using 1[OF True] t by (simp add: bit_Suc)
    ultimately show ?thesis by blast
  next
    case False
    then show ?thesis by (auto simp: trailing_ones.simps[of w] bit_0)
  qed
qed

lemma win_offset_props:
  assumes "win_ok w"
  shows "0 < win_offset w" "win_offset w \<le> 62" "wbit w 0 \<Longrightarrow> i < win_offset w \<Longrightarrow> wbit w i"
proof -
  let ?n = "trailing_ones (fst w)" and ?m = "trailing_ones (snd w)"
  have n: "?n \<le> 31" "?m \<le> 31"
    using trailing_ones_bits[of "fst w"] trailing_ones_bits[of "snd w"] assms
    by (auto simp: win_ok_def intro: leI)
  show "0 < win_offset w" by (simp add: win_offset_def Let_def)
  show "win_offset w \<le> 62" using n by (simp add: win_offset_def Let_def)
  assume "wbit w 0" "i < win_offset w"
  then have "?n \<noteq> 0" using trailing_ones_bits[of "fst w"] by (auto simp: wbit_def intro: ccontr)
  then have "i < (if ?n < 31 then ?n else ?n + ?m)" using \<open>i < win_offset w\<close> by (simp add: win_offset_def Let_def split: if_splits)
  then show "wbit w i"
    using trailing_ones_bits[of "fst w"] trailing_ones_bits[of "snd w"] n
    by (auto simp: wbit_def split: if_splits)
qed

lemma win_shift_wbit:
  assumes "win_ok w" "0 < off" "off \<le> 62"
  shows "wbit (win_shift off w) i \<longleftrightarrow> wbit w (i + off)" "win_ok (win_shift off w)"
proof -
  have hi: "\<not> bit (fst w) k" "\<not> bit (snd w) k" if "31 \<le> k" for k using assms(1) that by (auto simp: win_ok_def)
  show "win_ok (win_shift off w)"
    using hi by (auto simp: win_ok_def win_shift_def bit_simps)
  show "wbit (win_shift off w) i \<longleftrightarrow> wbit w (i + off)"
  proof (cases "off < 31")
    case True
    have "i + off - 31 = i - (31 - off)" if "31 \<le> i + off" using True that by simp
    then show ?thesis using True assms(2) hi by (auto simp: wbit_def win_shift_def bit_simps add.commute)
  next
    case False
    have "off - 31 + i = i + off - 31" using False by simp
    then show ?thesis using False assms(3) hi by (auto simp: wbit_def win_shift_def bit_simps)
  qed
qed

lemma received_slide:
  assumes "win_ok w" "wbit w 0" "off = win_offset w"
  shows "received (my + off) (win_shift off w) = received my w"
proof -
  note o = win_offset_props[OF assms(1)]
  have "p \<in> received (my + off) (win_shift off w) \<longleftrightarrow> p \<in> received my w" for p
  proof (cases "p \<le> my + off")
    case True
    then have "p \<in> received my w" using o(3)[OF assms(2), of "p - my - 1"] assms(3)
      by (cases "p \<le> my") (auto simp: received_def)
    then show ?thesis using True by (simp add: received_def)
  next
    case False
    then have "p - (my + off) - 1 + off = p - my - 1" by simp
    then show ?thesis using False win_shift_wbit(1)[OF assms(1), of off] o assms(3)
      by (simp add: received_def)
  qed
  then show ?thesis by blast
qed

lemma check_dup_wbit: "0 < d \<Longrightarrow> d \<le> 62 \<Longrightarrow> hal_check_dup_pn w d \<noteq> 0 \<longleftrightarrow> wbit w (d - 1)"
proof -
  assume d: "0 < d" "d \<le> 62"
  have b: "(x AND push_bit k 1 \<noteq> 0) = bit x k" for x k :: nat
    by (simp only: bit_iff_and_push_bit_not_eq_0)
  show ?thesis
  proof (cases "d \<le> 31")
    case True
    then have "hal_check_dup_pn w d = fst w AND push_bit (d - 1) 1" using d unfolding hal_check_dup_pn_def by (intro if_P) simp
    moreover have "d - 1 < 31" using True d by simp
    ultimately show ?thesis by (simp only: b wbit_def if_True)
  next
    case False
    then have "hal_check_dup_pn w d = snd w AND push_bit (d - 31 - 1) 1"
      using d unfolding hal_check_dup_pn_def by (simp del: push_bit_of_1)
    moreover have "\<not> d - 1 < 31" "d - 1 - 31 = d - 31 - 1" using False d by simp_all
    ultimately show ?thesis by (simp only: b wbit_def if_False)
  qed
qed

lemma pn_mark_received:
  assumes "win_ok w" "0 < d" "d \<le> 62" "pn_mark my w d = (my', w')"
  shows "win_ok w'" "received my' w' = insert (my + d) (received my w)" "my \<le> my'" "my' \<le> my + d + 61"
proof -
  define v where "v = (if d \<le> 31 then (fst w OR push_bit (d - 1) 1, snd w) else (fst w, snd w OR push_bit (d - 31 - 1) 1))"
  have bits: "wbit v i \<longleftrightarrow> wbit w i \<or> i = d - 1" for i
  proof (cases "d \<le> 31")
    case True
    then show ?thesis using assms(2) by (auto simp: v_def wbit_def bit_simps)
  next
    case False
    then show ?thesis using assms(1,3) by (auto simp: v_def wbit_def bit_simps win_ok_def)
  qed
  have ok: "win_ok v"
    using assms(1-3) by (auto simp: v_def win_ok_def bit_simps)
  have ins: "received my v = insert (my + d) (received my w)"
    using assms(2) by (auto simp: received_def bits)
  show "win_ok w'" "received my' w' = insert (my + d) (received my w)" "my \<le> my'" "my' \<le> my + d + 61"
  proof -
    have "win_ok w' \<and> received my' w' = insert (my + d) (received my w) \<and> my \<le> my' \<and> my' \<le> my + d + 61"
    proof (cases "d = 1")
      case True
      then have "my' = my + win_offset v" "w' = win_shift (win_offset v) v"
        using assms(4) by (auto simp: pn_mark_def v_def hal_set_pn_win_def Let_def)
      moreover have "wbit v 0" using True bits by simp
      ultimately show ?thesis
        using received_slide[OF ok _ refl, of my] ins win_shift_wbit(2)[OF ok] win_offset_props[OF ok] True by simp
    next
      case False
      then have "my' = my" "w' = v" using assms(2-4) by (auto simp: pn_mark_def v_def Let_def split: if_splits)
      then show ?thesis using ok ins assms(2) by simp
    qed
    then show "win_ok w'" "received my' w' = insert (my + d) (received my w)" "my \<le> my'" "my' \<le> my + d + 61" by auto
  qed
qed

text \<open>A frame ahead of the counter, within reach of the window.\<close>

lemma chk_ccmp_ahead:
  assumes "0 < u64_at 0 PN" "u64_at 0 PN < u64_at 0 rx" "u64_at 0 rx \<le> u64_at 0 PN + 62"
    and "\<not> (u64_at 0 rx = u64_at 0 PN + 1 \<and> fst w = 0 \<and> snd w = 0)"
    and "length PN = 16" and d: "d = u64_at 0 rx - u64_at 0 PN"
  shows "chk_ccmp PN w rx =
    (if hal_check_dup_pn w d \<noteq> 0 then (False, set_u64 0 (u64_at 0 PN) PN, w)
     else let (my', w') = pn_mark (u64_at 0 PN) w d in (True, set_u64 0 my' (set_u64 0 (u64_at 0 PN) PN), w'))"
proof -
  have diff: "diff32 (u64_at 0 rx) (u64_at 0 PN) = d" "\<not> 62 < d"
    using assms(2,3) by (simp_all add: diff32_def d)
  have no: "\<not> (u64_at 0 PN = u64_at 0 rx - 1 \<and> fst w = 0 \<and> snd w = 0)" using assms(2,4) by auto
  have zero: "\<not> (u64_at 0 PN = 0 \<and> 0 < u64_at 0 rx)" using assms(1) by simp
  show ?thesis
    unfolding chk_ccmp_def Let_def if_P[OF assms(2)] if_not_P[OF zero] if_not_P[OF no] diff(1) if_not_P[OF diff(2)]
    by (simp add: diff(1) split: prod.splits)
qed

text \<open>One frame within reach, when some frame was received before.\<close>

lemma chk_ccmp_step:
  assumes "length PN = 16" "length rx = 16" "win_ok w" "0 < u64_at 0 PN"
    and "u64_at 0 rx \<le> u64_at 0 PN + 62" "u64_at 0 rx < 2 ^ 63"
    and "chk_ccmp PN w rx = (ok, PN', w')"
  shows "(ok \<longleftrightarrow> u64_at 0 rx \<notin> received (u64_at 0 PN) w)
    \<and> received (u64_at 0 PN') w' = insert (u64_at 0 rx) (received (u64_at 0 PN) w)
    \<and> win_ok w' \<and> 0 < u64_at 0 PN' \<and> length PN' = 16"
proof -
  let ?my = "u64_at 0 PN" and ?r = "u64_at 0 rx"
  define d where "d = ?r - ?my"
  have lt: "?my < 2 ^ 64" using u64_at_less[of 0 PN] assms(1) by simp
  consider (old) "?r \<le> ?my" | (expected) "?r = ?my + 1" "fst w = 0" "snd w = 0"
    | (ahead) "?my < ?r" "\<not> (?r = ?my + 1 \<and> fst w = 0 \<and> snd w = 0)"
    by linarith
  then show ?thesis
  proof cases
    case old
    then have "ok = False" "PN' = PN" "w' = w" using assms(7) by (simp_all add: chk_ccmp_def Let_def)
    then show ?thesis using old assms by (auto simp: received_def)
  next
    case expected
    then have "ok = True" "PN' = rx" "w' = w" using assms(4,7) by (simp_all add: chk_ccmp_def Let_def)
    moreover have "\<not> wbit w i" for i using expected by (simp add: wbit_def)
    ultimately show ?thesis using expected assms(2,3) by (auto simp: received_def)
  next
    case ahead
    have d: "0 < d" "d \<le> 62" "?r = ?my + d" using ahead assms(5) by (simp_all add: d_def)
    note step = chk_ccmp_ahead[OF assms(4) ahead(1) assms(5) ahead(2) assms(1) d_def]
    have in_r: "?r \<in> received ?my w \<longleftrightarrow> wbit w (d - 1)" using d by (simp add: received_def)
    show ?thesis
    proof (cases "wbit w (d - 1)")
      case True
      then have "ok = False" "PN' = set_u64 0 ?my PN" "w' = w"
        using assms(7) check_dup_wbit[OF d(1,2), of w] unfolding step by simp_all
      then show ?thesis using True in_r assms lt by (auto simp: u64_at_set)
    next
      case False
      obtain my' v where m: "pn_mark ?my w d = (my', v)" by (cases "pn_mark ?my w d") blast
      have "ok = True" "PN' = set_u64 0 my' (set_u64 0 ?my PN)" "w' = v"
        using assms(7) check_dup_wbit[OF d(1,2), of w] False unfolding step m by simp_all
      moreover note pn_mark_received[OF assms(3) d(1,2) m]
      moreover from this have "my' < 2 ^ 64" using d assms(6) by simp
      ultimately show ?thesis using False in_r d assms(1,4) by (simp add: u64_at_set)
    qed
  qed
qed

section \<open>Exactly once\<close>

text \<open>The specification: a set of numbers; a frame is accepted when its number is not in the set.\<close>

fun accept_once :: "nat set \<Rightarrow> nat list \<Rightarrow> bool list" where
  "accept_once S [] = []"
| "accept_once S (n # ns) = (n \<notin> S) # accept_once (insert n S) ns"

text \<open>The check of a sequence of frames, and that none is more than 62 ahead of the counter.\<close>

fun chk_run :: "u8 list \<Rightarrow> nat \<times> nat \<Rightarrow> u8 list list \<Rightarrow> bool list" where
  "chk_run PN w [] = []"
| "chk_run PN w (rx # rs) = (let (ok, PN, w) = chk_ccmp PN w rx in ok # chk_run PN w rs)"

fun in_reach :: "u8 list \<Rightarrow> nat \<times> nat \<Rightarrow> u8 list list \<Rightarrow> bool" where
  "in_reach PN w [] = True"
| "in_reach PN w (rx # rs) =
    (length rx = 16 \<and> u64_at 0 rx < 2 ^ 63 \<and> u64_at 0 rx \<le> u64_at 0 PN + 62
     \<and> (let (ok, PN, w) = chk_ccmp PN w rx in in_reach PN w rs))"

lemma chk_run_refines:
  assumes "length PN = 16" "win_ok w" "0 < u64_at 0 PN" "in_reach PN w rs"
  shows "chk_run PN w rs = accept_once (received (u64_at 0 PN) w) (map (u64_at 0) rs)"
  using assms
proof (induction rs arbitrary: PN w)
  case (Cons rx rs)
  obtain ok PN' w' where c: "chk_ccmp PN w rx = (ok, PN', w')" by (metis prod_cases3)
  have step: "(ok \<longleftrightarrow> u64_at 0 rx \<notin> received (u64_at 0 PN) w)
    \<and> received (u64_at 0 PN') w' = insert (u64_at 0 rx) (received (u64_at 0 PN) w)
    \<and> win_ok w' \<and> 0 < u64_at 0 PN' \<and> length PN' = 16"
    by (rule chk_ccmp_step[OF _ _ _ _ _ _ c]) (use Cons.prems in auto)
  then show ?case using Cons.IH[of PN' w'] Cons.prems(4) c by simp
qed simp

lemma first_frame:
  assumes "length rx = 16" "0 < u64_at 0 rx"
  shows "chk_ccmp (replicate 16 0) (0, 0) rx = (True, rx, (0, 0))"
  using assms by (simp add: chk_ccmp_def Let_def u64_at_def)

lemma received_empty_window [simp]: "received my (0, 0) = {..my}"
  by (auto simp: received_def wbit_def)

text \<open>C15: after a key is set, the first TKIP or CCMP frame is accepted with any number, and from then on
  the counter and its window of 62 bits implement a set of received numbers: as long as no frame is
  more than 62 ahead of the counter, a frame is accepted exactly when its number is above the first
  and was not received before, in whatever order the frames come.\<close>
theorem replay_window_exactly_once:
  assumes "length rx = 16" "0 < u64_at 0 rx" "in_reach rx (0, 0) rs"
  shows "chk_run (replicate 16 0) (0, 0) (rx # rs)
    = True # accept_once {..u64_at 0 rx} (map (u64_at 0) rs)"
  using chk_run_refines[of rx "(0, 0)" rs] assms by (simp add: first_frame win_ok_def)

definition small_pn :: "u8 \<Rightarrow> u8 list" where
  "small_pn b = b # replicate 15 0"

lemma u64_at_small [simp]: "u64_at 0 (small_pn b) = unat b" "length (small_pn b) = 16"
  by (simp_all add: small_pn_def u64_at_def)

lemma set_u64_small [simp]: "v < 256 \<Longrightarrow> set_u64 0 v (small_pn b) = small_pn (of_nat v)"
proof -
  assume v: "v < 256"
  have zero: "le_bytes n 0 = replicate n 0" for n by (induction n) auto
  have "le_bytes 8 v = le_bytes (Suc 7) v" by simp
  also have "\<dots> = of_nat v # replicate 7 0" unfolding le_bytes.simps(2) using v by (simp add: zero)
  finally have "le_bytes 8 v = of_nat v # replicate 7 0" .
  moreover have "drop 8 (small_pn b) = replicate 8 0" by (simp add: small_pn_def)
  moreover have "replicate 7 (0 :: u8) @ replicate 8 0 = replicate 15 0" by (simp flip: replicate_add)
  ultimately show ?thesis by (simp add: set_u64_def small_pn_def)
qed

theorem replay_window_exactly_once_witness:
  "chk_run (replicate 16 0) (0, 0) (map small_pn [5, 8, 6, 8, 7, 9]) = [True, True, True, False, True, True]"
proof -
  have "in_reach (small_pn 5) (0, 0) (map small_pn [8, 6, 8, 7, 9])"
    by (simp add: chk_ccmp_def Let_def diff32_def hal_check_dup_pn_def pn_mark_def hal_set_pn_win_def
        win_offset_def trailing_ones.simps win_shift_def)
  then show ?thesis
    using replay_window_exactly_once[of "small_pn 5" "map small_pn [8, 6, 8, 7, 9]"] by simp
qed

section \<open>Where the promise ends\<close>

lemmas chk_eval = chk_ccmp_def Let_def diff32_def hal_check_dup_pn_def pn_mark_def hal_set_pn_win_def
  win_offset_def trailing_ones.simps win_shift_def

text \<open>A frame far ahead moves the window by one only, and is not marked: it is accepted again.\<close>

lemma far_frame:
  "chk_ccmp (small_pn 5) (0, 0) (small_pn 200) = (True, small_pn 6, (0, 0))"
  "chk_ccmp (small_pn 6) (0, 0) (small_pn 200) = (True, small_pn 7, (0, 0))"
  by (simp_all add: chk_eval)

lemma far_frame_accepted_again:
  "chk_run (replicate 16 0) (0, 0) (map small_pn [5, 200, 200]) = [True, True, True]"
  using first_frame[of "small_pn 5"] far_frame by simp

text \<open>All stations of an interface share one window: after the frames 5 and 7 of station 1, frame 5 of
  station 2 empties the window; then frame 6 of station 2 is rejected, though it was never received,
  and frame 7 of station 1 is accepted again.\<close>

definition fresh_state :: replay_state where
  "fresh_state = hal_pn_win_init AML_UCAST_TYPE 0
    \<lparr>uRepCnt = (\<lambda>_ _. hal_urep_cnt_init True WIFI_AES \<lparr>utxPN = [], urxPN = []\<rparr>),
      mRepCnt = (\<lambda>_. \<lparr>mtxPN = one_pn, mrxPN = replicate 16 0\<rparr>), pn_window = (\<lambda>_ _. (0, 0))\<rparr>"

definition rx_from :: "nat \<Rightarrow> u8 \<Rightarrow> replay_state \<Rightarrow> bool \<times> replay_state" where
  "rx_from sta n = hal_chk_replay_cnt (Some (\<lambda>_ _. Some sta))
    \<lparr>rh_group = False, rh_bssidmatch_id = 0, rh_RxA1match_id = 0, rh_addr2 = [], rh_decrypt = RX_PHY_CCMP,
      rh_PN = small_pn n\<rparr>"

lemma station_steps:
  "chk_ccmp (replicate 16 0) (0, 0) (small_pn 5) = (True, small_pn 5, (0, 0))"
  "chk_ccmp (small_pn 5) (0, 0) (small_pn 7) = (True, small_pn 5, (2, 0))"
  "chk_ccmp (replicate 16 0) (2, 0) (small_pn 5) = (True, small_pn 6, (0, 0))"
  "chk_ccmp (small_pn 6) (0, 0) (small_pn 6) = (False, small_pn 6, (0, 0))"
proof -
  have z: "replicate 16 0 = small_pn 0" by (simp add: small_pn_def numeral_eq_Suc One_nat_def)
  have "trailing_ones 0 = 0" "trailing_ones 3 = 2"
    by (simp_all add: trailing_ones.simps)
  then have three: "win_offset (3, 0) = 2" "win_shift 2 (3, 0) = (0, 0)"
    by (simp_all add: win_offset_def win_shift_def)
  show "chk_ccmp (replicate 16 0) (0, 0) (small_pn 5) = (True, small_pn 5, (0, 0))"
    by (rule first_frame) simp_all
  show "chk_ccmp (small_pn 5) (0, 0) (small_pn 7) = (True, small_pn 5, (2, 0))"
    "chk_ccmp (small_pn 6) (0, 0) (small_pn 6) = (False, small_pn 6, (0, 0))"
    by (simp_all add: chk_eval)
  show "chk_ccmp (replicate 16 0) (2, 0) (small_pn 5) = (True, small_pn 6, (0, 0))"
    unfolding z using three
    by (simp add: chk_ccmp_def Let_def diff32_def hal_check_dup_pn_def pn_mark_def hal_set_pn_win_def)
qed

text \<open>The saved number of a station and the shared window, before and after a frame.\<close>

definition saved :: "nat \<Rightarrow> replay_state \<Rightarrow> u8 list" where
  "saved sta s = urxPN (uRepCnt s 0 sta) ! 0"

definition shared_win :: "replay_state \<Rightarrow> nat \<times> nat" where
  "shared_win s = pn_window s 0 AML_UCAST_TYPE"

lemma rx_from_step:
  assumes "urxPN (uRepCnt s 0 sta) \<noteq> []" "rx_from sta n s = (ok, s')"
    and "chk_ccmp (saved sta s) (shared_win s) (small_pn n) = (r, PN, w)"
  shows "ok = r" "saved sta s' = PN" "shared_win s' = w"
    "sta' \<noteq> sta \<Longrightarrow> saved sta' s' = saved sta' s"
    "urxPN (uRepCnt s' 0 sta') = [] \<longleftrightarrow> urxPN (uRepCnt s 0 sta') = []"
  using assms
  by (auto simp: rx_from_def hal_chk_replay_cnt_def chk_key_def saved_def shared_win_def split: if_splits)

lemma stations_share_window:
  assumes "rx_from 1 5 fresh_state = (ok1, s1)" "rx_from 1 7 s1 = (ok2, s2)" "rx_from 2 5 s2 = (ok3, s3)"
  shows "ok1 \<and> ok2 \<and> ok3 \<and> \<not> fst (rx_from 2 6 s3) \<and> fst (rx_from 1 7 s3)"
proof -
  have f: "saved sta fresh_state = replicate 16 0" "shared_win fresh_state = (0, 0)"
    "urxPN (uRepCnt fresh_state 0 sta) \<noteq> []" for sta
    by (simp_all add: saved_def shared_win_def fresh_state_def hal_urep_cnt_init_def hal_pn_win_init_def)
  have c1: "chk_ccmp (saved 1 fresh_state) (shared_win fresh_state) (small_pn 5) = (True, small_pn 5, (0, 0))"
    unfolding f by (rule station_steps)
  note s1 = rx_from_step[OF f(3) assms(1) c1]
  have c2: "chk_ccmp (saved 1 s1) (shared_win s1) (small_pn 7) = (True, small_pn 5, (2, 0))"
    unfolding s1 by (rule station_steps)
  have n1: "urxPN (uRepCnt s1 0 sta) \<noteq> []" for sta using s1(5) f(3) by blast
  note s2 = rx_from_step[OF n1 assms(2) c2]
  have n2: "urxPN (uRepCnt s2 0 sta) \<noteq> []" for sta using s2(5) n1 by blast
  have "saved 2 s2 = replicate 16 0" using s1(4)[of 2] s2(4)[of 2] f(1) by simp
  then have c3: "chk_ccmp (saved 2 s2) (shared_win s2) (small_pn 5) = (True, small_pn 6, (0, 0))"
    unfolding s2(3) using station_steps(3) by simp
  note s3 = rx_from_step[OF n2 assms(3) c3]
  have n3: "urxPN (uRepCnt s3 0 sta) \<noteq> []" for sta using s3(5) n2 by blast
  have c4: "chk_ccmp (saved 2 s3) (shared_win s3) (small_pn 6) = (False, small_pn 6, (0, 0))"
    unfolding s3 by (rule station_steps)
  have "saved 1 s3 = small_pn 5" using s3(4)[of 1] s2(2) by simp
  then have c5: "chk_ccmp (saved 1 s3) (shared_win s3) (small_pn 7) = (True, small_pn 5, (2, 0))"
    unfolding s3(3) using station_steps(2) by simp
  show ?thesis
    using s1(1) s2(1) s3(1) rx_from_step(1)[OF n3 surjective_pairing c4] rx_from_step(1)[OF n3 surjective_pairing c5]
    by simp
qed

section \<open>Sender and receiver\<close>

text \<open>The numbers of the frames a sender encrypts with one key.\<close>

fun tx_numbers :: "nat \<Rightarrow> bool \<Rightarrow> nat \<Rightarrow> u8 list \<Rightarrow> u8 list list" where
  "tx_numbers 0 is_bc enc pn = []"
| "tx_numbers (Suc k) is_bc enc pn =
    (let (page, pn') = take_pn is_bc enc pn (replicate 16 0) in page # tx_numbers k is_bc enc pn')"

lemma tx_numbers_ccmp:
  assumes "length pn = 16" "u64_at 0 pn + k < 2 ^ 64"
  shows "length (tx_numbers k is_bc WIFI_AES pn) = k
    \<and> (\<forall>i < k. length (tx_numbers k is_bc WIFI_AES pn ! i) = 16
         \<and> u64_at 0 (tx_numbers k is_bc WIFI_AES pn ! i) = u64_at 0 pn + i)"
  using assms
proof (induction k arbitrary: pn)
  case (Suc k)
  define pn' where "pn' = set_u64 0 (u64_at 0 pn + 1) pn"
  have pn': "length pn' = 16" "u64_at 0 pn' = Suc (u64_at 0 pn)"
    using Suc.prems by (simp_all add: pn'_def u64_at_set)
  have cons: "tx_numbers (Suc k) is_bc WIFI_AES pn
      = (take 8 pn @ replicate 8 0) # tx_numbers k is_bc WIFI_AES pn'"
    by (simp add: take_pn_def pn'_def)
  have first: "u64_at 0 (take 8 pn @ replicate 8 0) = u64_at 0 pn" using Suc.prems by (simp add: u64_at_def)
  note ih = Suc.IH[OF pn'(1)]
  show ?case unfolding cons using ih pn' first Suc.prems by (auto simp: nth_Cons split: nat.splits)
qed simp

lemma accept_once_inj:
  assumes "inj f"
  shows "accept_once S (map f ns) = accept_once (f -` S) ns"
proof (induction ns arbitrary: S)
  case (Cons n ns)
  have "f -` insert (f n) S = insert n (f -` S)" using assms by (auto dest: injD)
  then show ?case using Cons by simp
qed simp

text \<open>C16: from the sender's counter to the receiver's check: the frames that a sender encrypts with CCMP
  after a key is set get the numbers 1, 2, 3 and on; however the medium reorders, repeats or loses
  them (within the reach of the window), a receiver that checks them alone with one counter and one
  window accepts the first that arrives, then every frame sent after that one at its first arrival,
  and none a second time; a frame sent before the first that arrives is never accepted.\<close>
theorem ccmp_frames_accepted_once:
  assumes "k < 2 ^ 62" "i < k" "\<forall>j \<in> set js. j < k"
    and "ps = tx_numbers k False WIFI_AES (utxPN (hal_urep_cnt_init mode_sta WIFI_AES u))"
    and "in_reach (ps ! i) (0, 0) (map (nth ps) js)"
  shows "chk_run (replicate 16 0) (0, 0) (map (nth ps) (i # js)) = True # accept_once {..i} js"
proof -
  have one: "utxPN (hal_urep_cnt_init mode_sta WIFI_AES u) = one_pn" by (simp add: hal_urep_cnt_init_def)
  have "length one_pn = 16" "u64_at 0 one_pn = 1" by (simp_all add: one_pn_def u64_at_def)
  then have ps: "\<forall>j < k. length (ps ! j) = 16 \<and> u64_at 0 (ps ! j) = Suc j"
    using tx_numbers_ccmp[of one_pn k False] assms(1,4) one by simp
  then have n: "map (u64_at 0) (map (nth ps) js) = map Suc js" using assms(3) by simp
  have "chk_run (ps ! i) (0, 0) (map (nth ps) js) = accept_once (received (u64_at 0 (ps ! i)) (0, 0)) (map Suc js)"
    unfolding n[symmetric] by (rule chk_run_refines) (use ps assms(2,5) in \<open>simp_all add: win_ok_def\<close>)
  also have "\<dots> = accept_once (Suc -` {..Suc i}) js" using ps assms(2) by (simp add: accept_once_inj)
  also have "Suc -` {..Suc i} = {..i}" by auto
  finally show ?thesis using ps assms(2) by (simp add: first_frame)
qed

theorem ccmp_frames_accepted_once_witness:
  "chk_run (replicate 16 0) (0, 0) (map (nth (tx_numbers 4 False WIFI_AES one_pn)) [0, 2, 1, 2, 3])
   = [True, True, True, False, True]"
proof -
  have one: "utxPN (hal_urep_cnt_init True WIFI_AES \<lparr>utxPN = [], urxPN = []\<rparr>) = one_pn"
    by (simp add: hal_urep_cnt_init_def)
  have step: "take_pn False WIFI_AES (small_pn b) (replicate 16 0) = (small_pn b, small_pn (of_nat (unat b + 1)))"
    if "unat b < 255" for b
  proof -
    have "take 8 (small_pn b) @ drop 8 (replicate 16 0) = small_pn b"
      by (simp add: small_pn_def numeral_eq_Suc)
    then show ?thesis using that by (simp add: take_pn_def)
  qed
  have steps: "take_pn False WIFI_AES (small_pn 1) (replicate 16 0) = (small_pn 1, small_pn 2)"
    "take_pn False WIFI_AES (small_pn 2) (replicate 16 0) = (small_pn 2, small_pn 3)"
    "take_pn False WIFI_AES (small_pn 3) (replicate 16 0) = (small_pn 3, small_pn 4)"
    "take_pn False WIFI_AES (small_pn 4) (replicate 16 0) = (small_pn 4, small_pn 5)"
    using step[of 1] step[of 2] step[of 3] step[of 4] by simp_all
  have "one_pn = small_pn 1" by (simp add: one_pn_def small_pn_def)
  moreover have "tx_numbers (Suc (Suc (Suc (Suc 0)))) False WIFI_AES (small_pn 1) = [small_pn 1, small_pn 2, small_pn 3, small_pn 4]"
    by (simp only: tx_numbers.simps steps Let_def prod.case)
  moreover have four: "Suc (Suc (Suc (Suc 0))) = 4" by simp
  ultimately have ps: "tx_numbers 4 False WIFI_AES one_pn = [small_pn 1, small_pn 2, small_pn 3, small_pn 4]"
    using four by simp
  have "in_reach (small_pn 1) (0, 0) (map small_pn [3, 2, 3, 4])" by (simp add: chk_eval)
  then show ?thesis
    using ccmp_frames_accepted_once[of 4 0 "[2, 1, 2, 3]" _ True "\<lparr>utxPN = [], urxPN = []\<rparr>", OF _ _ _ refl] one ps
    by simp
qed

end
