(* ===== verification/HalTx.thy ===== *)
theory HalTx
  imports SharedFifo TxDesc ReplayCnt
begin

text \<open>
  wifi_hal.c, wifi_hif.c: the transmit queues of the hal.  Each of the 8 queues is a shared FIFO of
  descriptors: the driver fills one (hal_fill_agg_start, hal_fill_priv), hal_txframe_pre gives it a
  transmit id, hal_tx_frame sends it, and the firmware's status (hi_soft_tx_irq, hal_txok_thread)
  frees the id and returns the frame to the driver.  The head room of a frame's skb holds its
  descriptor; a frame is known to the driver by its callback.  None is an access through a null
  pointer or outside an array, or a loop that does not end.
\<close>

section \<open>State\<close>

abbreviation (input) HAL_NUM_TX_QUEUES :: nat where "HAL_NUM_TX_QUEUES \<equiv> 8"
abbreviation (input) HAL_WME_NOQOS :: nat where "HAL_WME_NOQOS \<equiv> 4"
abbreviation (input) CO_TX_BUFFER_GET :: nat where "CO_TX_BUFFER_GET \<equiv> 0"
abbreviation (input) CO_TX_BUFFER_MAKE :: nat where "CO_TX_BUFFER_MAKE \<equiv> 1"
abbreviation (input) CO_TX_BUFFER_SET :: nat where "CO_TX_BUFFER_SET \<equiv> 2"
abbreviation (input) WIFI_MAX_TXFRAME :: nat where "WIFI_MAX_TXFRAME \<equiv> 128"
abbreviation (input) SG_PAGE_MAX :: int where "SG_PAGE_MAX \<equiv> 80"
abbreviation (input) QUEUE_BEACON :: int where "QUEUE_BEACON \<equiv> 10"

text \<open>An element of a queue; the page is the descriptor in the skb of that number.\<close>

record fw_txdesc_fifo =
  callback :: int
  pTxDPape :: nat
  ampduskb :: "nat option"
  el_txqueueid :: nat

record Tx_FrameDesc =
  tf_callback :: int
  tf_valid :: bool
  tf_txqueueid :: nat

record txdonestatus =
  ts_txstatus :: nat
  ts_callbackid :: nat
  ts_txretrynum :: nat
  ts_ack_rssi :: int

text \<open>One frame of a scatter request.\<close>

record scat_item =
  sc_page_num :: int
  sc_len :: int
  sc_skb :: "nat option"
  sc_packet :: hi_tx_desc
  sc_callback :: int

datatype hal_event =
  SendFrame nat "scat_item list"
| WakeReq
| DropElement nat int
| TxHandle txdonestatus int nat
| TxNullHandle txdonestatus
| FreeError nat

record hal_private =
  txds_trista_fifo :: "nat \<Rightarrow> shared_fifo"
  txds_trista_fifo_buf :: "nat \<Rightarrow> int \<Rightarrow> fw_txdesc_fifo"
  tx_pages :: "nat \<Rightarrow> hi_tx_desc"
  Hi_TxAgg :: "nat \<Rightarrow> nat option"
  tx_frames_map :: "bool list"
  tx_frames :: "Tx_FrameDesc list"
  TX_REQ_EVENT_num :: "nat \<Rightarrow> int"
  TX_DOWNLOAD_OK_EVENT_num :: "nat \<Rightarrow> int"
  TX_SEND_OK_EVENT_num :: "nat \<Rightarrow> int"
  Tx_Send_num :: int
  Tx_Done_num :: int
  Tx_Free_num :: int
  tx_queueid_downloadok :: nat
  txPageFreeNum :: int
  hal_max_mpdu_num :: int
  HalTxFrameDoneCounter :: int
  HalTxPageDoneCounter :: int
  status_list :: "txdonestatus list"
  free_nodes :: nat
  bhaltxdrop :: bool
  bhalPowerSave :: bool
  dpd_suspend :: bool
  drv_sleeping :: bool
  fw_active :: bool
  tx_up_required :: bool
  repcnt :: replay_state
  hal_log :: "hal_event list"

text \<open>What the hal takes from elsewhere: the bus, the sizes of pages and descriptors, the
  configuration, and whether the bus has a scatter request for a queue.\<close>

record hal_env =
  aml_bus_usb :: bool
  tx_page_len :: int
  FW_TXDESC_DATAOFFSET :: int
  HI_TXDESC_DATAOFFSET :: int
  hal_mib :: mib
  get_scatreq :: "nat \<Rightarrow> bool"

definition upd_queue :: "nat \<Rightarrow> shared_fifo \<Rightarrow> hal_private \<Rightarrow> hal_private" where
  "upd_queue q f s = s\<lparr>txds_trista_fifo := (txds_trista_fifo s)(q := f)\<rparr>"

definition upd_elt :: "nat \<Rightarrow> int \<Rightarrow> (fw_txdesc_fifo \<Rightarrow> fw_txdesc_fifo) \<Rightarrow> hal_private \<Rightarrow> hal_private" where
  "upd_elt q a g s = s\<lparr>txds_trista_fifo_buf :=
     (txds_trista_fifo_buf s)(q := (txds_trista_fifo_buf s q)(a := g (txds_trista_fifo_buf s q a)))\<rparr>"

definition upd_page :: "nat \<Rightarrow> (hi_tx_desc \<Rightarrow> hi_tx_desc) \<Rightarrow> hal_private \<Rightarrow> hal_private" where
  "upd_page p g s = s\<lparr>tx_pages := (tx_pages s)(p := g (tx_pages s p))\<rparr>"

definition log_hal :: "hal_event \<Rightarrow> hal_private \<Rightarrow> hal_private" where
  "log_hal e s = s\<lparr>hal_log := hal_log s @ [e]\<rparr>"

text \<open>What hal_host_init sets up of the transmit path: the queues, the counters and the pages.\<close>

abbreviation (input) HI_AGG_TXD_NUM_PER_QUEUE :: int where "HI_AGG_TXD_NUM_PER_QUEUE \<equiv> 80"
abbreviation (input) CO_SF_BLOCK_TX_NBR :: nat where "CO_SF_BLOCK_TX_NBR \<equiv> 3"

fun init_queues :: "int \<Rightarrow> int \<Rightarrow> nat \<Rightarrow> hal_private \<Rightarrow> hal_private option" where
  "init_queues buf esize 0 s = Some s"
| "init_queues buf esize (Suc q) s = do {
     s \<leftarrow> init_queues buf esize q s;
     let a = buf + HI_AGG_TXD_NUM_PER_QUEUE * int q * esize;
     f \<leftarrow> CO_SharedFifoInit a a HI_AGG_TXD_NUM_PER_QUEUE esize CO_SF_BLOCK_TX_NBR (txds_trista_fifo s q);
     Some (upd_queue q f s)
   }"

definition hal_tx_init :: "int \<Rightarrow> int \<Rightarrow> int \<Rightarrow> hal_private \<Rightarrow> hal_private option" where
  "hal_tx_init buf esize txpagenum s = do {
     s \<leftarrow> init_queues buf esize HAL_NUM_TX_QUEUES s;
     Some (s\<lparr>TX_REQ_EVENT_num := (\<lambda>_. 0), TX_DOWNLOAD_OK_EVENT_num := (\<lambda>_. 0), TX_SEND_OK_EVENT_num := (\<lambda>_. 0),
             Tx_Send_num := 0, Tx_Done_num := 0, Tx_Free_num := 0, txPageFreeNum := txpagenum\<rparr>)
   }"

section \<open>Transmit ids\<close>

definition hal_tx_empty :: "hal_private \<Rightarrow> bool" where
  "hal_tx_empty s \<longleftrightarrow> Tx_Send_num s = Tx_Free_num s \<and> Tx_Send_num s = Tx_Done_num s"

definition fw_tx_empty :: "hal_private \<Rightarrow> bool" where
  "fw_tx_empty s \<longleftrightarrow> Tx_Done_num s = Tx_Free_num s"

definition hal_is_empty_tx_id :: "hal_private \<Rightarrow> int" where
  "hal_is_empty_tx_id s = (if True \<in> set (take WIFI_MAX_TXFRAME (tx_frames_map s)) then -1 else 0)"

definition hal_get_free_tx_id_num :: "hal_private \<Rightarrow> nat" where
  "hal_get_free_tx_id_num s = length (filter Not (tx_frames_map s))"

fun find_first_zero_bit :: "bool list \<Rightarrow> nat" where
  "find_first_zero_bit [] = 0"
| "find_first_zero_bit (b # bs) = (if \<not> b then 0 else Suc (find_first_zero_bit bs))"

definition hal_alloc_tx_id :: "fw_txdesc_fifo \<Rightarrow> hal_private \<Rightarrow> nat option \<times> hal_private" where
  "hal_alloc_tx_id e s =
    (let i = find_first_zero_bit (tx_frames_map s); q = el_txqueueid e
     in if i \<ge> WIFI_MAX_TXFRAME then (None, s)
        else (Some i, s\<lparr>tx_frames_map := (tx_frames_map s)[i := True],
                tx_frames := (tx_frames s)[i := \<lparr>tf_callback = callback e, tf_valid = True, tf_txqueueid = q\<rparr>],
                TX_REQ_EVENT_num := (TX_REQ_EVENT_num s)(q := u32_of (TX_REQ_EVENT_num s q + 1))\<rparr>))"

text \<open>Freeing an id: its frame's callback and queue, or an error when the id is not in use.\<close>

definition hal_free_tx_id :: "nat \<Rightarrow> hal_private \<Rightarrow> ((int \<times> nat) option \<times> hal_private) option" where
  "hal_free_tx_id i s =
    (if i < length (tx_frames_map s) \<and> i < length (tx_frames s)
     then if tx_frames_map s ! i
          then let fd = tx_frames s ! i; q = tf_txqueueid fd;
                   s = s\<lparr>tx_frames_map := (tx_frames_map s)[i := False],
                         TX_SEND_OK_EVENT_num := (TX_SEND_OK_EVENT_num s)(q := u32_of (TX_SEND_OK_EVENT_num s q + 1))\<rparr>;
                   s = (if bhaltxdrop s \<and> hal_is_empty_tx_id s = 0 then s\<lparr>bhaltxdrop := False\<rparr> else s)
               in Some (Some (tf_callback fd, q), s)
          else Some (None, s)
     else None)"

section \<open>Filling a queue\<close>

text \<open>The driver hands over a frame: its skb and what the driver will be called back with.\<close>

definition hal_fill :: "nat \<Rightarrow> nat \<Rightarrow> int \<Rightarrow> hi_tx_desc \<Rightarrow> bool \<Rightarrow> hal_private \<Rightarrow> hal_private option" where
  "hal_fill q skb cb desc first s = do {
     (st, p, f) \<leftarrow> CO_SharedFifoGet (txds_trista_fifo s q) CO_TX_BUFFER_GET 1;
     a \<leftarrow> p;
     let s = upd_queue q f s;
     let s = upd_elt q a (\<lambda>_. \<lparr>callback = cb, pTxDPape = skb, ampduskb = Some skb, el_txqueueid = q\<rparr>) s;
     let s = upd_page skb (\<lambda>_. desc) s;
     let s = (if first then s\<lparr>Hi_TxAgg := (Hi_TxAgg s)(q := Some skb)\<rparr> else s);
     let s = s\<lparr>Tx_Send_num := u32_of (Tx_Send_num s + 1)\<rparr>;
     (st, f) \<leftarrow> CO_SharedFifoPut (txds_trista_fifo s q) CO_TX_BUFFER_GET 1;
     Some (upd_queue q f s)
   }"

definition hal_fill_agg_start ::
  "hal_env \<Rightarrow> hi_agg_tx_desc \<Rightarrow> hi_tx_priv_hdr \<Rightarrow> nat \<Rightarrow> nat option \<Rightarrow> int \<Rightarrow> hal_private \<Rightarrow> hal_private option"
where
  "hal_fill_agg_start E agg h q skb cb s =
    (case skb of None \<Rightarrow> Some s
     | Some k \<Rightarrow> do {
         desc \<leftarrow> fill_first (FW_TXDESC_DATAOFFSET E) (tx_page_len E) (hal_mib E) agg h (txdata (tx_pages s k));
         hal_fill q k cb desc True s
       })"

definition hal_fill_priv ::
  "hal_env \<Rightarrow> hi_tx_priv_hdr \<Rightarrow> nat \<Rightarrow> nat option \<Rightarrow> int \<Rightarrow> hal_private \<Rightarrow> hal_private option"
where
  "hal_fill_priv E h q skb cb s =
    (case skb of None \<Rightarrow> Some s
     | Some k \<Rightarrow> do {
         first \<leftarrow> Hi_TxAgg s q;
         hal_fill q k cb (fill_sub (FW_TXDESC_DATAOFFSET E) (tx_page_len E) (tx_pages s first) h (txdata (tx_pages s k))) False s
       })"

definition hal_get_priv_cnt :: "nat \<Rightarrow> hal_private \<Rightarrow> int option" where
  "hal_get_priv_cnt q s = CO_SharedFifoNbElt (txds_trista_fifo s q) CO_TX_BUFFER_GET"

definition hal_get_agg_pend_cnt :: "hal_private \<Rightarrow> int" where
  "hal_get_agg_pend_cnt s = u32_of (Tx_Send_num s - Tx_Free_num s)"

section \<open>Giving frames their ids\<close>

text \<open>The head of the frames without id gets one: whether there was an id.\<close>

definition pre_one :: "nat \<Rightarrow> hal_private \<Rightarrow> (bool \<times> hal_private) option" where
  "pre_one q s = do {
     a \<leftarrow> CO_SharedFifoPick (txds_trista_fifo s q) CO_TX_BUFFER_MAKE;
     let e = txds_trista_fifo_buf s q a;
     (case hal_alloc_tx_id e s of
        (None, s) \<Rightarrow> Some (False, if fw_tx_empty s then s\<lparr>tx_up_required := True\<rparr> else s)
      | (Some i, s) \<Rightarrow> do {
          let s = upd_page (pTxDPape e) (\<lambda>p. p\<lparr>TxPriv := (TxPriv p)\<lparr>tp_hostcallbackid := int i\<rparr>\<rparr>) s;
          (st, p, f) \<leftarrow> CO_SharedFifoGet (txds_trista_fifo s q) CO_TX_BUFFER_MAKE 1;
          (st, f) \<leftarrow> CO_SharedFifoPut f CO_TX_BUFFER_MAKE 1;
          Some (True, upd_queue q f s)
        })
   }"

text \<open>Twice around the queues, one frame each, passing over a queue with more than 16 frames in the
  firmware.  The bool tells to go on.\<close>

fun pre_round :: "nat \<Rightarrow> nat \<Rightarrow> hal_private \<Rightarrow> (bool \<times> nat \<times> hal_private) option" where
  "pre_round 0 q s = Some (True, q, s)"
| "pre_round (Suc n) q s =
    (let q = (if q = 0 then HAL_NUM_TX_QUEUES - 1 else q - 1)
     in if u32_of (TX_DOWNLOAD_OK_EVENT_num s q - TX_SEND_OK_EVENT_num s q) > 16 then pre_round n q s
        else do {
          more \<leftarrow> CO_SharedFifoEmpty (txds_trista_fifo s q) CO_TX_BUFFER_MAKE;
          if more
          then if q = HAL_WME_NOQOS \<and> u32_of (Tx_Done_num s - Tx_Free_num s) > 32 then Some (False, q, s)
               else do {
                 (ok, s) \<leftarrow> pre_one q s;
                 if ok then pre_round n q s else Some (False, q, s)
               }
          else pre_round n q s
        })"

text \<open>Then each queue, from the last, until it has no frame without id.\<close>

partial_function (option) pre_queue :: "nat \<Rightarrow> hal_private \<Rightarrow> (bool \<times> hal_private) option" where
  "pre_queue q s =
    Option.bind (CO_SharedFifoEmpty (txds_trista_fifo s q) CO_TX_BUFFER_MAKE) (\<lambda>more.
      if more then Option.bind (pre_one q s) (\<lambda>(ok, s). if ok then pre_queue q s else Some (False, s))
      else Some (True, s))"

declare pre_queue.simps [code]

fun pre_queues :: "nat \<Rightarrow> hal_private \<Rightarrow> hal_private option" where
  "pre_queues 0 s = Some s"
| "pre_queues (Suc q) s = do {
     (ok, s) \<leftarrow> pre_queue q s;
     if ok then pre_queues q s else Some s
   }"

definition hal_txframe_pre :: "hal_private \<Rightarrow> hal_private option" where
  "hal_txframe_pre s = do {
     (ok, _, s) \<leftarrow> pre_round 16 (tx_queueid_downloadok s) s;
     if ok then pre_queues HAL_NUM_TX_QUEUES s else Some s
   }"

section \<open>Sending\<close>

definition hal_calc_block_in_mpdu_ex :: "hal_env \<Rightarrow> int \<Rightarrow> int" where
  "hal_calc_block_in_mpdu_ex E n =
    (let page_len = tx_page_len E - 12 in n div page_len + (if n mod page_len \<noteq> 0 then 1 else 0))"

definition scat_of :: "hal_env \<Rightarrow> fw_txdesc_fifo \<Rightarrow> hi_tx_desc \<Rightarrow> scat_item" where
  "scat_of E e d =
    (let mpdu = HW_MPDU_LEN_GET (MPDUBufFlag d);
         blocks = hal_calc_block_in_mpdu_ex E (mpdu + HI_TXDESC_DATAOFFSET E - 4)
     in if aml_bus_usb E
        then \<lparr>sc_page_num = blocks,
              sc_len = (blocks * 12 + mpdu + HI_TXDESC_DATAOFFSET E - 4 + 3) div 4 * 4,
              sc_skb = ampduskb e, sc_packet = d, sc_callback = callback e\<rparr>
        else \<lparr>sc_page_num = tp_PageNum (TxPriv d), sc_len = mpdu + HI_TXDESC_DATAOFFSET E,
              sc_skb = ampduskb e, sc_packet = d, sc_callback = callback e\<rparr>)"

text \<open>One frame of an aggregate.\<close>

definition send_mpdu :: "hal_env \<Rightarrow> nat \<Rightarrow> scat_item list \<Rightarrow> hal_private \<Rightarrow> (scat_item list \<times> hal_private) option" where
  "send_mpdu E q sg s = do {
     a \<leftarrow> CO_SharedFifoPick (txds_trista_fifo s q) CO_TX_BUFFER_SET;
     let e = txds_trista_fifo_buf s q a;
     let d = tx_pages s (pTxDPape e);
     let s = s\<lparr>txPageFreeNum := u32_of (txPageFreeNum s - tp_PageNum (TxPriv d)),
               TX_DOWNLOAD_OK_EVENT_num := (TX_DOWNLOAD_OK_EVENT_num s)(q := u32_of (TX_DOWNLOAD_OK_EVENT_num s q + 1)),
               tx_queueid_downloadok := q\<rparr>;
     (st, p, f) \<leftarrow> CO_SharedFifoGet (txds_trista_fifo s q) CO_TX_BUFFER_SET 1;
     (st, f) \<leftarrow> CO_SharedFifoPut f CO_TX_BUFFER_SET 1;
     let s = upd_queue q f s;
     let (pn, rc) = assign_tx_desc_pn (to_is_bc (TxOption d)) (nat (tp_vid (TxPriv d))) (nat (tp_StaId (TxPriv d)))
           (nat (to_key_type (TxOption d))) (to_PN (TxOption d)) (repcnt s);
     let d = d\<lparr>TxOption := (TxOption d)\<lparr>to_PN := pn, to_pkt_position := 0\<rparr>\<rparr>;
     let item = scat_of E e d;
     let s = upd_elt q a (\<lambda>e. e\<lparr>ampduskb := None\<rparr>) (upd_page (pTxDPape e) (\<lambda>_. d) (s\<lparr>repcnt := rc\<rparr>));
     Some (sg @ [item], s\<lparr>Tx_Done_num := u32_of (Tx_Done_num s + 1)\<rparr>)
   }"

fun send_mpdus :: "hal_env \<Rightarrow> nat \<Rightarrow> nat \<Rightarrow> scat_item list \<Rightarrow> hal_private \<Rightarrow> (scat_item list \<times> hal_private) option" where
  "send_mpdus E q 0 sg s = Some (sg, s)"
| "send_mpdus E q (Suc n) sg s = do {
     (sg, s) \<leftarrow> send_mpdu E q sg s;
     send_mpdus E q n sg s
   }"

definition fits_request :: "hal_private \<Rightarrow> Fw_TxPriv \<Rightarrow> int \<Rightarrow> nat \<Rightarrow> int \<Rightarrow> bool" where
  "fits_request s p cnt mpdu_num pages \<longleftrightarrow>
     tp_aggr_page_num p \<le> txPageFreeNum s \<and> tp_AggrNum p \<le> cnt
     \<and> tp_AggrNum p + int mpdu_num < hal_max_mpdu_num s
     \<and> (pages + tp_aggr_page_num p \<le> SG_PAGE_MAX \<or> pages = 0)"

text \<open>The loop over the frames of a queue: whole aggregates, as long as they fit; a descriptor that
  cannot be sent is dropped and ends the loop.\<close>

partial_function (option) hal_send_loop ::
  "hal_env \<Rightarrow> nat \<Rightarrow> int \<Rightarrow> scat_item list \<Rightarrow> hal_private \<Rightarrow> (scat_item list \<times> hal_private) option"
where
  "hal_send_loop E q pages sg s =
    Option.bind (CO_SharedFifoEmpty (txds_trista_fifo s q) CO_TX_BUFFER_SET) (\<lambda>more.
      if \<not> more then Some (sg, s)
      else Option.bind (CO_SharedFifoPick (txds_trista_fifo s q) CO_TX_BUFFER_SET) (\<lambda>a.
        Option.bind (CO_SharedFifoNbEltCont (txds_trista_fifo s q) CO_TX_BUFFER_SET) (\<lambda>cnt.
          let e = txds_trista_fifo_buf s q a;
              p = TxPriv (tx_pages s (pTxDPape e))
          in if tp_AggrNum p = 0 \<or> tp_aggr_page_num p = 0 \<or> tp_TID p > QUEUE_BEACON
             then Option.bind (CO_SharedFifoGet (txds_trista_fifo s q) CO_TX_BUFFER_SET 1) (\<lambda>(st, ptr, f).
                    Option.bind (CO_SharedFifoPut f CO_TX_BUFFER_SET 1) (\<lambda>(st, f).
                      Some (sg, log_hal (DropElement q (callback e)) (upd_queue q f s))))
             else if fits_request s p cnt (length sg) pages
             then Option.bind (send_mpdus E q (nat (tp_AggrNum p)) sg s) (\<lambda>(sg, s).
                    hal_send_loop E q (pages + tp_aggr_page_num p) sg s)
             else Some (sg, s))))"

declare hal_send_loop.simps [code]

definition send_queue :: "hal_env \<Rightarrow> nat \<Rightarrow> hal_private \<Rightarrow> hal_private option" where
  "send_queue E q s = do {
     more \<leftarrow> CO_SharedFifoEmpty (txds_trista_fifo s q) CO_TX_BUFFER_SET;
     if \<not> more \<or> \<not> get_scatreq E q then Some s
     else do {
       (sg, s) \<leftarrow> hal_send_loop E q 0 [] s;
       Some (if sg \<noteq> [] then log_hal (SendFrame q sg) s else s)
     }
   }"

fun send_queues :: "hal_env \<Rightarrow> nat \<Rightarrow> hal_private \<Rightarrow> hal_private option" where
  "send_queues E 0 s = Some s"
| "send_queues E (Suc q) s = do {
     s \<leftarrow> send_queue E q s;
     send_queues E q s
   }"

definition hal_tx_frame :: "hal_env \<Rightarrow> hal_private \<Rightarrow> hal_private option" where
  "hal_tx_frame E s =
    (if bhaltxdrop s \<or> bhalPowerSave s then Some s
     else if aml_bus_usb E \<and> dpd_suspend s then Some s
     else if drv_sleeping s then Some s
     else if \<not> fw_active s then Some (if \<not> hal_tx_empty s then log_hal WakeReq s else s)
     else do {
       s \<leftarrow> hal_txframe_pre s;
       send_queues E HAL_NUM_TX_QUEUES s
     })"

definition hal_txframe_pause :: "bool \<Rightarrow> hal_private \<Rightarrow> hal_private" where
  "hal_txframe_pause pause s = s\<lparr>bhalPowerSave := pause\<rparr>"

section \<open>Completion\<close>

abbreviation (input) TX_DESCRIPTOR_STATUS_NEW :: nat where "TX_DESCRIPTOR_STATUS_NEW \<equiv> 0"
abbreviation (input) TX_DESCRIPTOR_STATUS_SUCCESS :: nat where "TX_DESCRIPTOR_STATUS_SUCCESS \<equiv> 1"
abbreviation (input) TX_DESCRIPTOR_STATUS_NULL_DATA_OK :: nat where "TX_DESCRIPTOR_STATUS_NULL_DATA_OK \<equiv> 8"
abbreviation (input) TX_DESCRIPTOR_STATUS_NULL_DATA_FAIL :: nat where "TX_DESCRIPTOR_STATUS_NULL_DATA_FAIL \<equiv> 9"

text \<open>One status that the firmware wrote: a node from the free list carries it to the thread; without
  a node it is lost.\<close>

definition irq_status :: "txdonestatus \<Rightarrow> hal_private \<Rightarrow> hal_private" where
  "irq_status st s =
    (if free_nodes s = 0 then s
     else let s = s\<lparr>free_nodes := free_nodes s - 1, status_list := status_list s @ [st]\<rparr>;
              t = ts_txstatus st;
              s = (if \<not> (t = TX_DESCRIPTOR_STATUS_NULL_DATA_OK \<or> t = TX_DESCRIPTOR_STATUS_NULL_DATA_FAIL
                       \<or> t = TX_DESCRIPTOR_STATUS_NEW)
                   then s\<lparr>Tx_Free_num := u32_of (Tx_Free_num s + 1)\<rparr> else s)
          in if t = TX_DESCRIPTOR_STATUS_NEW \<and> Tx_Free_num s < Tx_Done_num s
             then s\<lparr>Tx_Free_num := u32_of (Tx_Free_num s + 1)\<rparr> else s)"

text \<open>The statuses from the counter of the hal up to the firmware's; both are bytes, the ring has 128
  places.\<close>

fun irq_loop :: "nat \<Rightarrow> int \<Rightarrow> (nat \<Rightarrow> txdonestatus) \<Rightarrow> hal_private \<Rightarrow> hal_private option" where
  "irq_loop 0 done tab s = (if done = HalTxFrameDoneCounter s then Some s else None)"
| "irq_loop (Suc n) done tab s =
    (if done = HalTxFrameDoneCounter s then Some s
     else let st = tab (nat (HalTxFrameDoneCounter s) mod WIFI_MAX_TXFRAME);
              s = s\<lparr>HalTxFrameDoneCounter := u8_of (HalTxFrameDoneCounter s + 1)\<rparr>
          in irq_loop n done tab (irq_status st s))"

definition hi_soft_tx_irq :: "int \<Rightarrow> int \<Rightarrow> (nat \<Rightarrow> txdonestatus) \<Rightarrow> hal_private \<Rightarrow> hal_private option" where
  "hi_soft_tx_irq done pages tab s =
    irq_loop 256 done tab
      (s\<lparr>txPageFreeNum := u32_of (txPageFreeNum s + u8_of (pages - HalTxPageDoneCounter s)),
         HalTxPageDoneCounter := pages\<rparr>)"

text \<open>The thread: one status of the list.\<close>

definition txok_one :: "txdonestatus \<Rightarrow> hal_private \<Rightarrow> hal_private option" where
  "txok_one st s =
    (if ts_txstatus st = TX_DESCRIPTOR_STATUS_NULL_DATA_OK \<or> ts_txstatus st = TX_DESCRIPTOR_STATUS_NULL_DATA_FAIL
     then Some (log_hal (TxNullHandle st) s)
     else do {
       (r, s) \<leftarrow> hal_free_tx_id (ts_callbackid st) s;
       Some (case r of None \<Rightarrow> log_hal (FreeError (ts_callbackid st)) s
             | Some (cb, q) \<Rightarrow> log_hal (TxHandle st cb q) s)
     })"

fun txok_loop :: "txdonestatus list \<Rightarrow> hal_private \<Rightarrow> hal_private option" where
  "txok_loop [] s = Some s"
| "txok_loop (st # sts) s = do {
     s \<leftarrow> txok_one st s;
     txok_loop sts (s\<lparr>free_nodes := free_nodes s + 1\<rparr>)
   }"

definition hal_txok_thread :: "hal_private \<Rightarrow> (bool \<times> hal_private) option" where
  "hal_txok_thread s = do {
     s \<leftarrow> txok_loop (status_list s) (s\<lparr>status_list := []\<rparr>);
     Some (if tx_up_required s \<and> hal_get_free_tx_id_num s \<ge> 32
           then (True, s\<lparr>tx_up_required := False\<rparr>) else (False, s))
   }"

section \<open>Flushing an interface\<close>

text \<open>Interface 3 stands for all of them.  A frame without id gets none when it is to be flushed, but
  moves on to the frames with one; when the ids run out it stays taken out.\<close>

definition flushed :: "nat \<Rightarrow> hi_tx_desc \<Rightarrow> bool" where
  "flushed vid d \<longleftrightarrow> tp_vid (TxPriv d) = int vid \<or> vid = 3"

partial_function (option) flush_make :: "nat \<Rightarrow> nat \<Rightarrow> hal_private \<Rightarrow> hal_private option" where
  "flush_make vid q s =
    Option.bind (CO_SharedFifoEmpty (txds_trista_fifo s q) CO_TX_BUFFER_MAKE) (\<lambda>more.
      if \<not> more then Some s
      else Option.bind (CO_SharedFifoGet (txds_trista_fifo s q) CO_TX_BUFFER_MAKE 1) (\<lambda>(st, p, f).
        Option.bind p (\<lambda>a.
          let s = upd_queue q f s; e = txds_trista_fifo_buf s q a;
              (ok, s) = (if flushed vid (tx_pages s (pTxDPape e)) then (True, s)
                         else case hal_alloc_tx_id e s of
                                (None, s) \<Rightarrow> (False, s)
                              | (Some i, s) \<Rightarrow> (True, upd_page (pTxDPape e)
                                  (\<lambda>p. p\<lparr>TxPriv := (TxPriv p)\<lparr>tp_hostcallbackid := int i\<rparr>\<rparr>) s))
          in if \<not> ok then Some s
             else Option.bind (CO_SharedFifoPut (txds_trista_fifo s q) CO_TX_BUFFER_MAKE 1) (\<lambda>(st, f).
               flush_make vid q (upd_queue q f s)))))"

declare flush_make.simps [code]

text \<open>The frames with an id: those of the interface are returned to the driver, the others are
  remembered by their place.\<close>

partial_function (option) flush_set ::
  "nat \<Rightarrow> nat \<Rightarrow> nat \<Rightarrow> int list \<Rightarrow> hal_private \<Rightarrow> (nat \<times> int list \<times> hal_private) option"
where
  "flush_set vid q queue_id remain s =
    Option.bind (CO_SharedFifoEmpty (txds_trista_fifo s q) CO_TX_BUFFER_SET) (\<lambda>more.
      if \<not> more then Some (queue_id, remain, s)
      else Option.bind (CO_SharedFifoGet (txds_trista_fifo s q) CO_TX_BUFFER_SET 1) (\<lambda>(st, p, f).
        Option.bind p (\<lambda>a.
          let s = upd_queue q f s; e = txds_trista_fifo_buf s q a; d = tx_pages s (pTxDPape e);
              i = nat (tp_hostcallbackid (TxPriv d))
          in Option.bind
               (if flushed vid d
                then Option.bind (hal_free_tx_id i s) (\<lambda>(r, s).
                  let queue_id = (case r of None \<Rightarrow> queue_id | Some (_, qi) \<Rightarrow> qi);
                      st = \<lparr>ts_txstatus = TX_DESCRIPTOR_STATUS_SUCCESS, ts_callbackid = i, ts_txretrynum = 0,
                            ts_ack_rssi = 0\<rparr>;
                      s = log_hal (TxHandle st (callback e) queue_id) s
                  in Some (queue_id, remain, s\<lparr>Tx_Done_num := u32_of (Tx_Done_num s + 1),
                             Tx_Free_num := u32_of (Tx_Free_num s + 1)\<rparr>))
                else Some (queue_id, remain @ [a], s)) (\<lambda>(queue_id, remain, s).
             Option.bind (CO_SharedFifoPut (txds_trista_fifo s q) CO_TX_BUFFER_SET 1) (\<lambda>(st, f).
               flush_set vid q queue_id remain (upd_queue q f s))))))"

declare flush_set.simps [code]

text \<open>The others go back to the end of the queue, as frames without id.\<close>

fun flush_remain :: "nat \<Rightarrow> int list \<Rightarrow> hal_private \<Rightarrow> hal_private option" where
  "flush_remain q [] s = Some s"
| "flush_remain q (b # bs) s = do {
     (st, p, f) \<leftarrow> CO_SharedFifoGet (txds_trista_fifo s q) CO_TX_BUFFER_GET 1;
     a \<leftarrow> p;
     let s = upd_elt q a (\<lambda>_. txds_trista_fifo_buf s q b) (upd_queue q f s);
     (st, f) \<leftarrow> CO_SharedFifoPut (txds_trista_fifo s q) CO_TX_BUFFER_GET 1;
     flush_remain q bs (upd_queue q f s)
   }"

fun flush_queues :: "nat \<Rightarrow> nat list \<Rightarrow> nat \<Rightarrow> hal_private \<Rightarrow> hal_private option" where
  "flush_queues vid [] queue_id s = Some s"
| "flush_queues vid (q # qs) queue_id s = do {
     s \<leftarrow> flush_make vid q s;
     (queue_id, remain, s) \<leftarrow> flush_set vid q queue_id [] s;
     s \<leftarrow> flush_remain q remain s;
     flush_queues vid qs queue_id s
   }"

definition hal_tx_flush :: "nat \<Rightarrow> hal_private \<Rightarrow> hal_private option" where
  "hal_tx_flush vid s = do {
     let s = s\<lparr>bhaltxdrop := (hal_is_empty_tx_id s < 0)\<rparr>;
     s \<leftarrow> flush_queues vid [0..<HAL_NUM_TX_QUEUES] 0 s;
     Some (s\<lparr>bhaltxdrop := False\<rparr>)
   }"

end
