(* ===== verification/HalTxInv.thy ===== *)
theory HalTxInv
  imports HalTx "HOL-Library.Multiset"
begin

text \<open>
  The transmit queues of the hal as lists: for every queue the frames that wait for an id and those
  that are ready to be sent, and the frames on the air, which are known by their ids.  The invariant
  says that no skb is in two places, and that an id that is in use belongs to one frame and leads
  back to its callback and queue.  The lemmas say what each operation does to the lists.
\<close>

section \<open>The lists\<close>

definition q_elts :: "nat \<Rightarrow> nat \<Rightarrow> hal_private \<Rightarrow> fw_txdesc_fifo list" where
  "q_elts q b s = map (\<lambda>x. txds_trista_fifo_buf s q (elt_addr (txds_trista_fifo s q) x))
     (fifo_avail (txds_trista_fifo s q) b)"

abbreviation waiting :: "nat \<Rightarrow> hal_private \<Rightarrow> fw_txdesc_fifo list" where
  "waiting q s \<equiv> q_elts q (Suc 0) s"

abbreviation ready :: "nat \<Rightarrow> hal_private \<Rightarrow> fw_txdesc_fifo list" where
  "ready q s \<equiv> q_elts q 2 s"

definition queued :: "nat \<Rightarrow> hal_private \<Rightarrow> int list" where
  "queued q s = map callback (ready q s @ waiting q s)"

definition q_ok :: "shared_fifo \<Rightarrow> bool" where
  "q_ok f \<longleftrightarrow> fifo_inv f \<and> BlockNbr f = 3 \<and> EltNbr f = 80 \<and> fifo_held f 0 = [] \<and> fifo_held f (Suc 0) = [] \<and>
     length (fifo_held f 2) = 1"

text \<open>A frame with an id: the id, the driver's callback and the queue.\<close>

type_synonym txid = "nat \<times> int \<times> nat"

definition hostid :: "hi_tx_desc \<Rightarrow> nat" where
  "hostid d = nat (tp_hostcallbackid (TxPriv d))"

definition with_id :: "hal_private \<Rightarrow> nat \<Rightarrow> fw_txdesc_fifo \<Rightarrow> txid" where
  "with_id s q e = (hostid (tx_pages s (pTxDPape e)), callback e, q)"

definition skbs :: "hal_private \<Rightarrow> nat multiset" where
  "skbs s = (\<Sum>q<8. mset (map pTxDPape (ready q s @ waiting q s)))"

definition ready_ids :: "hal_private \<Rightarrow> txid multiset" where
  "ready_ids s = (\<Sum>q<8. mset (map (with_id s q) (ready q s)))"

definition ids_ok :: "txid multiset \<Rightarrow> hal_private \<Rightarrow> bool" where
  "ids_ok T s \<longleftrightarrow> (\<forall>i. count (image_mset fst T) i \<le> 1) \<and>
     (\<forall>(i, cb, q) \<in># T. i < 128 \<and> tx_frames_map s ! i \<and>
        tf_callback (tx_frames s ! i) = cb \<and> tf_txqueueid (tx_frames s ! i) = q)"

lemma ids_okD:
  assumes "ids_ok T s" "(i, cb, q) \<in># T"
  shows "i < 128" "tx_frames_map s ! i" "tf_callback (tx_frames s ! i) = cb" "tf_txqueueid (tx_frames s ! i) = q"
  using assms(1) [unfolded ids_ok_def, THEN conjunct2, THEN bspec, OF assms(2)] by auto

text \<open>\<^verbatim>\<open>A\<close> are the frames on the air.\<close>

definition hal_inv :: "txid multiset \<Rightarrow> hal_private \<Rightarrow> bool" where
  "hal_inv A s \<longleftrightarrow>
     (\<forall>q<8. q_ok (txds_trista_fifo s q) \<and> (\<forall>e \<in> set (ready q s @ waiting q s). el_txqueueid e = q)) \<and>
     length (tx_frames_map s) = 128 \<and> length (tx_frames s) = 128 \<and> tx_queueid_downloadok s < 8 \<and>
     (\<forall>p. count (skbs s) p \<le> 1) \<and> ids_ok (ready_ids s + A) s \<and>
     (\<forall>p. 0 \<le> tp_AggrNum (TxPriv (tx_pages s p)))"

lemma hal_invD:
  assumes "hal_inv A s"
  shows "q < 8 \<Longrightarrow> q_ok (txds_trista_fifo s q)"
    "q < 8 \<Longrightarrow> e \<in> set (ready q s) \<Longrightarrow> el_txqueueid e = q"
    "q < 8 \<Longrightarrow> e \<in> set (waiting q s) \<Longrightarrow> el_txqueueid e = q"
    "length (tx_frames_map s) = 128" "length (tx_frames s) = 128"
    "count (skbs s) p \<le> 1" "ids_ok (ready_ids s + A) s" "0 \<le> tp_AggrNum (TxPriv (tx_pages s p))"
    "tx_queueid_downloadok s < 8"
  using assms by (auto simp: hal_inv_def)

section \<open>One queue\<close>

lemma q_okD:
  assumes "q_ok f"
  shows "fifo_inv f" "BlockNbr f = 3" "fifo_held f 0 = []" "fifo_held f (Suc 0) = []" "\<exists>u. fifo_held f 2 = [u]"
  using assms by (auto simp: q_ok_def length_Suc_conv)

lemma three_blocks: "fifo_inv h \<Longrightarrow> sf_last h = sf_last f \<Longrightarrow> BlockNbr f = 3 \<Longrightarrow> BlockNbr h = 3"
  using fifo_invD(1) [of h] by simp

lemma q_distinct:
  assumes "q_ok f"
  shows "distinct (fifo_avail f 0 @ fifo_avail f (Suc 0) @ fifo_avail f 2)"
  using shares_partition(2) [of f] q_okD [OF assms] by (auto simp: numeral_3_eq_3 numeral_2_eq_2)

lemma Get_EltNbr: "CO_SharedFifoGet f b n = Some (st, p, g) \<Longrightarrow> EltNbr g = EltNbr f"
  by (auto simp: CO_SharedFifoGet_def CO_SharedFifoGet_NoCritSect_def set_blk_def bind_eq_Some_conv split: if_splits)

lemma Put_EltNbr: "CO_SharedFifoPut f b n = Some (st, g) \<Longrightarrow> EltNbr g = EltNbr f"
  by (auto simp: CO_SharedFifoPut_def CO_SharedFifoPut_NoCritSect_def set_blk_def bind_eq_Some_conv)

lemma q_pass:
  assumes "q_ok f" "b < 2" "fifo_avail f b = x # xs"
  shows "\<exists>g h. CO_SharedFifoGet f b 1 = Some (CO_STATUS_OK, Some (elt_addr f x), g) \<and>
    CO_SharedFifoPut g b 1 = Some (CO_STATUS_OK, h) \<and> q_ok h \<and> elt_addr g = elt_addr f \<and> elt_addr h = elt_addr f \<and>
    fifo_avail h = (fifo_avail f)(b := xs, Suc b := fifo_avail f (Suc b) @ [x])"
proof -
  note q = q_okD [OF assms(1)]
  have "fifo_held f b = []" using q assms(2) by (cases b) auto
  then obtain g h where "CO_SharedFifoGet f b 1 = Some (CO_STATUS_OK, Some (elt_addr f x), g)"
    "CO_SharedFifoPut g b 1 = Some (CO_STATUS_OK, h)" "fifo_inv h" "sf_last h = sf_last f"
    "elt_addr g = elt_addr f" "elt_addr h = elt_addr f" "fifo_held h = fifo_held f"
    "fifo_avail h = (fifo_avail f)(b := xs, Suc b := fifo_avail f (Suc b) @ [x])"
    using sf.pass_one [OF q(1) _ assms(3)] assms(2) q(2) by auto
  then show ?thesis using assms(1) three_blocks [of h f] Get_EltNbr [of f] Put_EltNbr [of g _ 1 _ h]
    by (auto simp: q_ok_def)
qed

lemma q_pass_last:
  assumes "q_ok f" "fifo_avail f 2 = x # xs"
  shows "\<exists>g h u. CO_SharedFifoGet f 2 1 = Some (CO_STATUS_OK, Some (elt_addr f x), g) \<and>
    CO_SharedFifoPut g 2 1 = Some (CO_STATUS_OK, h) \<and> q_ok h \<and> elt_addr g = elt_addr f \<and> elt_addr h = elt_addr f \<and>
    fifo_avail h = (fifo_avail f)(2 := xs, 0 := fifo_avail f 0 @ [u])"
proof -
  note q = q_okD [OF assms(1)]
  obtain u where "fifo_held f 2 = [u]" using q(5) by blast
  then obtain g h where "CO_SharedFifoGet f 2 1 = Some (CO_STATUS_OK, Some (elt_addr f x), g)"
    "CO_SharedFifoPut g 2 1 = Some (CO_STATUS_OK, h)" "fifo_inv h" "sf_last h = sf_last f"
    "elt_addr g = elt_addr f" "elt_addr h = elt_addr f" "fifo_held h = (fifo_held f)(2 := [x])"
    "fifo_avail h = (fifo_avail f)(2 := xs, 0 := fifo_avail f 0 @ [u])"
    using sf.pass_last [OF q(1) _ _ assms(2)] q(2) by auto
  then show ?thesis using assms(1) three_blocks [of h f] Get_EltNbr [of f] Put_EltNbr [of g _ 1 _ h]
    by (auto simp: q_ok_def)
qed

lemma q_reads:
  assumes "q_ok (txds_trista_fifo s q)" "b \<le> 2"
  shows "CO_SharedFifoEmpty (txds_trista_fifo s q) b = Some (q_elts q b s \<noteq> [])"
    "CO_SharedFifoNbEltCont (txds_trista_fifo s q) b = Some (int (length (q_elts q b s)))"
    "CO_SharedFifoNbElt (txds_trista_fifo s q) b = Some (int (length (q_elts q b s)))"
    "q_elts q b s = e # es \<Longrightarrow> \<exists>x xs. fifo_avail (txds_trista_fifo s q) b = x # xs \<and>
       CO_SharedFifoPick (txds_trista_fifo s q) b = Some (elt_addr (txds_trista_fifo s q) x) \<and>
       e = txds_trista_fifo_buf s q (elt_addr (txds_trista_fifo s q) x) \<and>
       es = map (\<lambda>x. txds_trista_fifo_buf s q (elt_addr (txds_trista_fifo s q) x)) xs"
proof -
  note q = q_okD [OF assms(1)]
  show "CO_SharedFifoEmpty (txds_trista_fifo s q) b = Some (q_elts q b s \<noteq> [])"
    using sf.some_left_avail [OF q(1)] q(2) assms(2) by (simp add: q_elts_def)
  show "CO_SharedFifoNbEltCont (txds_trista_fifo s q) b = Some (int (length (q_elts q b s)))"
    "CO_SharedFifoNbElt (txds_trista_fifo s q) b = Some (int (length (q_elts q b s)))"
    using NbEltCont_avail [OF q(1)] NbElt_avail [OF q(1)] q(2) assms(2) by (simp_all add: q_elts_def)
  assume "q_elts q b s = e # es"
  then show "\<exists>x xs. fifo_avail (txds_trista_fifo s q) b = x # xs \<and>
       CO_SharedFifoPick (txds_trista_fifo s q) b = Some (elt_addr (txds_trista_fifo s q) x) \<and>
       e = txds_trista_fifo_buf s q (elt_addr (txds_trista_fifo s q) x) \<and>
       es = map (\<lambda>x. txds_trista_fifo_buf s q (elt_addr (txds_trista_fifo s q) x)) xs"
    using sf.pick_hd [OF q(1)] q(2) assms(2) by (auto simp: q_elts_def map_eq_Cons_conv)
qed

text \<open>The lists read the FIFO and its elements only.\<close>

lemma q_elts_cong:
  "txds_trista_fifo s' q = txds_trista_fifo s q \<Longrightarrow> txds_trista_fifo_buf s' q = txds_trista_fifo_buf s q \<Longrightarrow>
   q_elts q b s' = q_elts q b s"
  by (simp add: q_elts_def)

lemma sum_upd:
  fixes g :: "nat \<Rightarrow> 'a multiset"
  assumes "q < 8" "\<And>q'. q' < 8 \<Longrightarrow> q' \<noteq> q \<Longrightarrow> g' q' = g q'" "g' q = g q + x"
  shows "(\<Sum>q<8. g' q) = (\<Sum>q<8. g q) + x"
proof -
  have "(\<Sum>q<8. g' q) = g' q + sum g' ({..<8} - {q})" using assms(1) by (subst sum.remove [of _ q]) auto
  also have "sum g' ({..<8} - {q}) = sum g ({..<8} - {q})" by (rule sum.cong) (use assms(2) in auto)
  also have "g' q + sum g ({..<8} - {q}) = (g q + sum g ({..<8} - {q})) + x" by (simp add: assms(3))
  also have "g q + sum g ({..<8} - {q}) = (\<Sum>q<8. g q)" using assms(1) by (subst sum.remove [of _ q]) auto
  finally show ?thesis .
qed

lemma elt_in_skbs: "q < 8 \<Longrightarrow> e \<in> set (ready q s @ waiting q s) \<Longrightarrow> pTxDPape e \<in># skbs s"
  unfolding skbs_def by (subst sum.remove [of _ q]) auto

lemma skbs_split: "skbs s = (\<Sum>q<8. mset (map pTxDPape (ready q s))) + (\<Sum>q<8. mset (map pTxDPape (waiting q s)))"
  unfolding skbs_def by (simp add: sum.distrib)

lemma mem_sum: "q < 8 \<Longrightarrow> e \<in> set (f q) \<Longrightarrow> p e \<in># (\<Sum>q<8. mset (map p (f q)))" for q :: nat
  by (subst sum.remove [of _ q]) auto

lemma ready_waiting_skb:
  assumes "\<forall>p. count (skbs s) p \<le> 1" "q < 8" "e \<in> set (waiting q s)" "q' < 8" "e' \<in> set (ready q' s)"
  shows "pTxDPape e' \<noteq> pTxDPape e"
proof
  assume e: "pTxDPape e' = pTxDPape e"
  let ?R = "\<Sum>q<8. mset (map pTxDPape (ready q s))" and ?W = "\<Sum>q<8. mset (map pTxDPape (waiting q s))"
  have "pTxDPape e \<in># ?R" "pTxDPape e \<in># ?W"
    using mem_sum [of q' e' "\<lambda>q. ready q s" pTxDPape] mem_sum [of q e "\<lambda>q. waiting q s" pTxDPape] assms e by auto
  then have "2 \<le> count (skbs s) (pTxDPape e)"
    unfolding skbs_split plus_multiset.rep_eq by (simp add: count_greater_zero_iff [symmetric] del: count_greater_zero_iff)
  then show False using assms(1) by (metis not_less_eq_eq numeral_2_eq_2 One_nat_def)
qed

lemma ready_ids_cong:
  assumes "\<And>q. q < 8 \<Longrightarrow> ready q s' = ready q s"
    "\<And>q e. q < 8 \<Longrightarrow> e \<in> set (ready q s) \<Longrightarrow> hostid (tx_pages s' (pTxDPape e)) = hostid (tx_pages s (pTxDPape e))"
  shows "ready_ids s' = ready_ids s"
  unfolding ready_ids_def by (rule sum.cong) (use assms in \<open>auto simp: with_id_def intro!: image_mset_cong\<close>)


lemma hal_inv_ids:
  assumes "txds_trista_fifo s' = txds_trista_fifo s" "txds_trista_fifo_buf s' = txds_trista_fifo_buf s"
    "tx_pages s' = tx_pages s" "tx_queueid_downloadok s' = tx_queueid_downloadok s" "hal_inv A s"
    "length (tx_frames_map s') = 128" "length (tx_frames s') = 128" "ids_ok (ready_ids s + B) s'"
  shows "hal_inv B s'"
proof -
  have v: "q_elts q b s' = q_elts q b s" for q b by (rule q_elts_cong) (simp_all add: assms)
  have sk: "skbs s' = skbs s" unfolding skbs_def v ..
  have rd: "ready_ids s' = ready_ids s" by (rule ready_ids_cong) (simp_all add: v assms)
  show ?thesis using assms(5-8) unfolding hal_inv_def v sk rd assms(1-4) by simp
qed

lemma hal_inv_cong:
  assumes "txds_trista_fifo s' = txds_trista_fifo s" "txds_trista_fifo_buf s' = txds_trista_fifo_buf s"
    "tx_pages s' = tx_pages s" "tx_frames_map s' = tx_frames_map s" "tx_frames s' = tx_frames s"
    "tx_queueid_downloadok s' = tx_queueid_downloadok s" "hal_inv A s"
  shows "hal_inv A s'"
  by (rule hal_inv_ids [OF assms(1-3,6,7)]) (use assms hal_invD(4,5,7) [OF assms(7)] in \<open>simp_all add: ids_ok_def\<close>)

section \<open>Ids\<close>

lemma ffz_unset: "find_first_zero_bit m < length m \<Longrightarrow> \<not> m ! find_first_zero_bit m"
  by (induction m) auto

lemma ffz_le: "find_first_zero_bit m \<le> length m"
  by (induction m) auto

lemma ffz_full: "find_first_zero_bit m = length m \<longleftrightarrow> (\<forall>b\<in>set m. b)"
  by (induction m) auto

text \<open>A new id, and one that is freed.\<close>

lemma ids_ok_new:
  assumes "ids_ok T s" "i < 128" "\<not> tx_frames_map s ! i" "length (tx_frames_map s) = 128" "length (tx_frames s) = 128"
    "tx_frames_map s' = (tx_frames_map s)[i := True]"
    "tx_frames s' = (tx_frames s)[i := \<lparr>tf_callback = cb, tf_valid = True, tf_txqueueid = q\<rparr>]"
  shows "ids_ok (add_mset (i, cb, q) T) s'"
proof -
  have n: "j \<noteq> i" if "(j, c, r) \<in># T" for j c r using assms(1,3) that by (auto simp: ids_ok_def)
  then have "i \<notin># image_mset fst T" by fastforce
  then have "count (image_mset fst T) i = 0" by (simp add: count_eq_zero_iff)
  then show ?thesis using assms n by (auto simp: ids_ok_def nth_list_update)
qed

lemma ids_ok_free:
  assumes "ids_ok (add_mset (i, cb, q) T) s" "length (tx_frames_map s) = 128"
    "tx_frames_map s' = (tx_frames_map s)[i := False]" "tx_frames s' = tx_frames s"
  shows "ids_ok T s'"
proof -
  have 1: "count (image_mset fst (add_mset (i, cb, q) T)) j \<le> 1" for j
    using assms(1) unfolding ids_ok_def by blast
  have "i \<notin># image_mset fst T" using 1 [of i] by (simp add: count_eq_zero_iff)
  then have n: "j \<noteq> i" if "(j, c, r) \<in># T" for j c r using that by force
  have "count (image_mset fst T) j \<le> 1" for j using 1 [of j] by (auto split: if_splits)
  then show ?thesis using assms n by (fastforce simp: ids_ok_def nth_list_update)
qed

lemma ids_ok_cong:
  "tx_frames_map s' = tx_frames_map s \<Longrightarrow> tx_frames s' = tx_frames s \<Longrightarrow> ids_ok T s' = ids_ok T s"
  by (simp add: ids_ok_def)

section \<open>Giving an id\<close>

text \<open>What the steps leave alone.\<close>

definition same_out :: "hal_private \<Rightarrow> hal_private \<Rightarrow> bool" where
  "same_out s s' \<longleftrightarrow> hal_log s' = hal_log s \<and> status_list s' = status_list s \<and>
     HalTxFrameDoneCounter s' = HalTxFrameDoneCounter s \<and> Hi_TxAgg s' = Hi_TxAgg s"

lemma same_out_refl [simp]: "same_out s s"
  by (simp add: same_out_def)

lemma same_out_trans [trans]: "same_out s t \<Longrightarrow> same_out t u \<Longrightarrow> same_out s u"
  by (simp add: same_out_def)

lemma hostid_set [simp]: "hostid (d\<lparr>TxPriv := (TxPriv d)\<lparr>tp_hostcallbackid := int i\<rparr>\<rparr>) = i"
  by (simp add: hostid_def)

lemma pre_one_inv:
  assumes "hal_inv A s" "q < 8" "waiting q s = e # es"
  shows "\<exists>ok s'. pre_one q s = Some (ok, s') \<and> hal_inv A s' \<and> same_out s s' \<and>
    (\<forall>q'. q' \<noteq> q \<longrightarrow> ready q' s' = ready q' s \<and> waiting q' s' = waiting q' s) \<and>
    (if ok then ready q s' = ready q s @ [e] \<and> waiting q s' = es
     else ready q s' = ready q s \<and> waiting q s' = waiting q s \<and> (\<forall>b\<in>set (tx_frames_map s'). b))"
proof -
  note i = hal_invD [OF assms(1)]
  let ?f = "txds_trista_fifo s q" and ?i = "find_first_zero_bit (tx_frames_map s)"
  obtain x xs where x: "fifo_avail ?f (Suc 0) = x # xs" "CO_SharedFifoPick ?f (Suc 0) = Some (elt_addr ?f x)"
    "e = txds_trista_fifo_buf s q (elt_addr ?f x)"
    "es = map (\<lambda>x. txds_trista_fifo_buf s q (elt_addr ?f x)) xs"
    using q_reads(4) [OF i(1) [OF assms(2)] _ assms(3)] by auto
  show ?thesis
  proof (cases "?i < 128")
    case False
    then have full: "\<forall>b\<in>set (tx_frames_map s). b" using ffz_full [of "tx_frames_map s"] ffz_le [of "tx_frames_map s"] i(4) by simp
    let ?s = "if fw_tx_empty s then s\<lparr>tx_up_required := True\<rparr> else s"
    have e: "pre_one q s = Some (False, ?s)" using False x by (simp add: pre_one_def hal_alloc_tx_id_def Let_def)
    have v: "q_elts q' b ?s = q_elts q' b s" for q' b by (simp add: q_elts_def)
    have sk: "skbs ?s = skbs s" unfolding skbs_def v ..
    have rd: "ready_ids ?s = ready_ids s" by (rule ready_ids_cong) (simp_all add: v)
    have "hal_inv A ?s" using assms(1) unfolding hal_inv_def v sk rd by (simp add: ids_ok_def)
    then show ?thesis using e full by (intro exI [of _ False] exI [of _ ?s]) (auto simp: v same_out_def)
  next
    case True
    have q: "el_txqueueid e = q" using i(3) [OF assms(2)] assms(3) by simp
    obtain g h where h: "CO_SharedFifoGet ?f (Suc 0) 1 = Some (CO_STATUS_OK, Some (elt_addr ?f x), g)"
      "CO_SharedFifoPut g (Suc 0) 1 = Some (CO_STATUS_OK, h)" "q_ok h" "elt_addr h = elt_addr ?f"
      "fifo_avail h = (fifo_avail ?f)(Suc 0 := xs, 2 := fifo_avail ?f 2 @ [x])"
      using q_pass [OF i(1) [OF assms(2)] _ x(1)] by (auto simp: numeral_2_eq_2)
    let ?u = "upd_page (pTxDPape e) (\<lambda>p. p\<lparr>TxPriv := (TxPriv p)\<lparr>tp_hostcallbackid := int ?i\<rparr>\<rparr>)
      (s\<lparr>tx_frames_map := (tx_frames_map s)[?i := True],
         tx_frames := (tx_frames s)[?i := \<lparr>tf_callback = callback e, tf_valid = True, tf_txqueueid = q\<rparr>],
         TX_REQ_EVENT_num := (TX_REQ_EVENT_num s)(q := u32_of (TX_REQ_EVENT_num s q + 1))\<rparr>)"
    let ?s = "upd_queue q h ?u"
    have e: "pre_one q s = Some (True, ?s)"
      using True x h q by (simp add: pre_one_def hal_alloc_tx_id_def Let_def upd_page_def)
    have f: "txds_trista_fifo ?s = (txds_trista_fifo s)(q := h)" "txds_trista_fifo_buf ?s = txds_trista_fifo_buf s"
      "tx_pages ?s = (tx_pages s)(pTxDPape e := (tx_pages s (pTxDPape e))
        \<lparr>TxPriv := (TxPriv (tx_pages s (pTxDPape e)))\<lparr>tp_hostcallbackid := int ?i\<rparr>\<rparr>)"
      by (simp_all add: upd_queue_def upd_page_def)
    have v: "ready q ?s = ready q s @ [e]" "waiting q ?s = es"
      using h(4,5) x(3,4) unfolding q_elts_def f by simp_all
    have o: "q_elts q' b ?s = q_elts q' b s" if "q' \<noteq> q" for q' b by (rule q_elts_cong) (use that f in auto)
    have pg: "tx_pages ?s (pTxDPape e') = tx_pages s (pTxDPape e')" if "q' < 8" "e' \<in> set (ready q' s)" for q' e'
      using ready_waiting_skb [of s q e q' e'] i(6) assms(2,3) that by (simp add: f)
    have sk: "skbs ?s = skbs s" unfolding skbs_def
      by (rule sum.cong [OF refl], rename_tac r, case_tac "r = q") (auto simp: v o assms(3))
    have "ready_ids ?s = ready_ids s + {#(?i, callback e, q)#}" unfolding ready_ids_def
    proof (rule sum_upd [OF assms(2)])
      show "mset (map (with_id ?s r) (ready r ?s)) = mset (map (with_id s r) (ready r s))" if "r < 8" "r \<noteq> q" for r
        using pg [OF that(1)] by (auto simp: o that with_id_def intro!: image_mset_cong)
      have "mset (map (with_id ?s q) (ready q s)) = mset (map (with_id s q) (ready q s))"
        using pg [OF assms(2)] by (auto simp: with_id_def intro!: image_mset_cong)
      then show "mset (map (with_id ?s q) (ready q ?s)) = mset (map (with_id s q) (ready q s)) + {#(?i, callback e, q)#}"
        unfolding v by (simp add: with_id_def f)
    qed
    moreover have "ids_ok (add_mset (?i, callback e, q) (ready_ids s + A)) ?s"
      by (rule ids_ok_new [OF i(7) True _ i(4,5)]) (use ffz_unset [of "tx_frames_map s"] True i(4) in \<open>auto simp: upd_queue_def upd_page_def\<close>)
    moreover have "q_ok (txds_trista_fifo ?s r) \<and> (\<forall>e'\<in>set (ready r ?s @ waiting r ?s). el_txqueueid e' = r)" if "r < 8" for r
      using i(1-3) [OF that] h(3) q assms(3) by (cases "r = q") (auto simp: v o f)
    moreover have "0 \<le> tp_AggrNum (TxPriv (tx_pages ?s p))" for p using i(8) by (simp add: f)
    moreover have "length (tx_frames_map ?s) = 128" "length (tx_frames ?s) = 128" "tx_queueid_downloadok ?s < 8"
      using i(4,5,9) by (simp_all add: upd_queue_def upd_page_def)
    ultimately have "hal_inv A ?s" using i(6) unfolding hal_inv_def sk by simp
    moreover have "same_out s ?s" by (simp add: same_out_def upd_queue_def upd_page_def)
    ultimately show ?thesis using e v o by (intro exI [of _ True] exI [of _ ?s]) simp
  qed
qed

text \<open>Frames move on: no queue gains or loses one.\<close>

definition moved :: "txid multiset \<Rightarrow> hal_private \<Rightarrow> hal_private \<Rightarrow> bool" where
  "moved A s s' \<longleftrightarrow> hal_inv A s' \<and> same_out s s' \<and> (\<forall>q. queued q s' = queued q s)"

lemma moved_refl: "hal_inv A s \<Longrightarrow> moved A s s"
  by (simp add: moved_def)

lemma moved_trans [trans]: "moved A s t \<Longrightarrow> moved A t u \<Longrightarrow> moved A s u"
  unfolding moved_def using same_out_trans by metis

lemma moved_inv: "moved A s s' \<Longrightarrow> hal_inv A s'"
  by (simp add: moved_def)

lemma pre_one_moved:
  assumes "hal_inv A s" "q < 8" "waiting q s \<noteq> []"
  shows "\<exists>ok s'. pre_one q s = Some (ok, s') \<and> moved A s s' \<and> (ok \<longrightarrow> length (waiting q s') < length (waiting q s))
    \<and> (\<forall>r. r \<noteq> q \<longrightarrow> waiting r s' = waiting r s) \<and> (\<not> ok \<longrightarrow> (\<forall>b\<in>set (tx_frames_map s'). b))"
proof -
  obtain e es where e: "waiting q s = e # es" using assms(3) by (cases "waiting q s") auto
  obtain ok s' where s': "pre_one q s = Some (ok, s')" "hal_inv A s'" "same_out s s'"
    "\<forall>q'. q' \<noteq> q \<longrightarrow> ready q' s' = ready q' s \<and> waiting q' s' = waiting q' s"
    "if ok then ready q s' = ready q s @ [e] \<and> waiting q s' = es
     else ready q s' = ready q s \<and> waiting q s' = waiting q s \<and> (\<forall>b\<in>set (tx_frames_map s'). b)"
    using pre_one_inv [OF assms(1,2) e] by blast
  have "queued r s' = queued r s" for r
    using s'(4,5) e by (cases "r = q") (auto simp: queued_def split: if_splits)
  then show ?thesis using s' e by (auto simp: moved_def split: if_splits)
qed

lemma pre_round_moved:
  "hal_inv A s \<Longrightarrow> q \<le> 8 \<Longrightarrow> \<exists>ok r s'. pre_round n q s = Some (ok, r, s') \<and> moved A s s'"
proof (induction n arbitrary: q s)
  case 0 then show ?case by (auto simp: moved_refl)
next
  case (Suc n)
  let ?q = "if q = 0 then 7 else q - 1"
  have q: "?q < 8" using Suc.prems(2) by auto
  then have q': "?q \<le> 8" by simp
  note IH = Suc.IH [OF _ q']
  note E = q_reads(1) [OF hal_invD(1) [OF Suc.prems(1) q], of "Suc 0"]
  show ?case
  proof (cases "waiting ?q s = []")
    case True
    then show ?thesis using IH [OF Suc.prems(1)] E by (auto simp: Let_def)
  next
    case False
    then obtain ok s' where s': "pre_one ?q s = Some (ok, s')" "moved A s s'"
      using pre_one_moved [OF Suc.prems(1) q] by blast
    then show ?thesis using IH [OF Suc.prems(1)] IH [OF moved_inv [OF s'(2)]] moved_trans [OF s'(2)]
        moved_refl [OF Suc.prems(1)] E False
      by (fastforce simp: Let_def)
  qed
qed

lemma pre_queue_moved:
  assumes "hal_inv A s" "q < 8"
  shows "\<exists>ok s'. pre_queue q s = Some (ok, s') \<and> moved A s s' \<and>
    (\<forall>r. r \<noteq> q \<longrightarrow> waiting r s' = waiting r s) \<and>
    (if ok then waiting q s' = [] else \<forall>b\<in>set (tx_frames_map s'). b)"
  using assms(1)
proof (induction "length (waiting q s)" arbitrary: s rule: less_induct)
  case less
  note E = q_reads(1) [OF hal_invD(1) [OF less.prems assms(2)], of "Suc 0"]
  show ?case
  proof (cases "waiting q s = []")
    case True
    then show ?thesis using E moved_refl [OF less.prems] by (subst pre_queue.simps) auto
  next
    case False
    then obtain ok s' where s': "pre_one q s = Some (ok, s')" "moved A s s'"
      "ok \<longrightarrow> length (waiting q s') < length (waiting q s)" "\<forall>r. r \<noteq> q \<longrightarrow> waiting r s' = waiting r s"
      "\<not> ok \<longrightarrow> (\<forall>b\<in>set (tx_frames_map s'). b)"
      using pre_one_moved [OF less.prems assms(2)] by blast
    show ?thesis
    proof (cases ok)
      case True
      obtain ok' t where t: "pre_queue q s' = Some (ok', t)" "moved A s' t" "\<forall>r. r \<noteq> q \<longrightarrow> waiting r t = waiting r s'"
        "if ok' then waiting q t = [] else \<forall>b\<in>set (tx_frames_map t). b"
        using less.hyps [of s'] moved_inv [OF s'(2)] s'(3) True by blast
      then show ?thesis using E False s' True moved_trans [OF s'(2) t(2)] by (subst pre_queue.simps) auto
    next
      case ok: False
      then show ?thesis using E False s' by (subst pre_queue.simps) auto
    qed
  qed
qed

lemma pre_queues_moved:
  "hal_inv A s \<Longrightarrow> n \<le> 8 \<Longrightarrow> \<exists>s'. pre_queues n s = Some s' \<and> moved A s s' \<and>
    (\<forall>r\<ge>n. waiting r s' = waiting r s) \<and> ((\<forall>r<n. waiting r s' = []) \<or> (\<forall>b\<in>set (tx_frames_map s'). b))"
proof (induction n arbitrary: s)
  case 0 then show ?case by (simp add: moved_refl)
next
  case (Suc n)
  then have q: "n < 8" by simp
  obtain ok t where t: "pre_queue n s = Some (ok, t)" "moved A s t" "\<forall>r. r \<noteq> n \<longrightarrow> waiting r t = waiting r s"
    "if ok then waiting n t = [] else \<forall>b\<in>set (tx_frames_map t). b"
    using pre_queue_moved [OF Suc.prems(1) q] by blast
  show ?case
  proof (cases ok)
    case True
    obtain u where u: "pre_queues n t = Some u" "moved A t u" "\<forall>r\<ge>n. waiting r u = waiting r t"
      "(\<forall>r<n. waiting r u = []) \<or> (\<forall>b\<in>set (tx_frames_map u). b)"
      using Suc.IH [OF moved_inv [OF t(2)]] q by auto
    then show ?thesis using t True moved_trans [OF t(2) u(2)] by (auto simp: less_Suc_eq)
  next
    case False
    then show ?thesis using t by auto
  qed
qed

lemma hal_txframe_pre_moved:
  assumes "hal_inv A s"
  shows "\<exists>s'. hal_txframe_pre s = Some s' \<and> moved A s s'"
proof -
  obtain ok r t where t: "pre_round 16 (tx_queueid_downloadok s) s = Some (ok, r, t)" "moved A s t"
    using pre_round_moved [OF assms, of "tx_queueid_downloadok s" 16] hal_invD(9) [OF assms] by auto
  then show ?thesis using pre_queues_moved [OF moved_inv [OF t(2)], of 8] moved_trans [OF t(2)]
    by (auto simp: hal_txframe_pre_def)
qed

section \<open>Sending\<close>

definition item_id :: "nat \<Rightarrow> scat_item \<Rightarrow> txid" where
  "item_id q it = (hostid (sc_packet it), sc_callback it, q)"

lemma scat_of_simps [simp]: "sc_callback (scat_of E e d) = callback e" "sc_packet (scat_of E e d) = d"
  by (simp_all add: scat_of_def Let_def)

lemma hostid_option [simp]: "hostid (d\<lparr>TxOption := x\<rparr>) = hostid d"
  by (simp add: hostid_def)

lemma send_mpdu_inv:
  assumes "hal_inv A s" "q < 8" "ready q s = e # es"
  shows "\<exists>it s'. send_mpdu E q sg s = Some (sg @ [it], s') \<and> hal_inv (add_mset (item_id q it) A) s' \<and> same_out s s' \<and>
    sc_callback it = callback e \<and> ready q s' = es \<and> waiting q s' = waiting q s \<and>
    (\<forall>r b. r \<noteq> q \<longrightarrow> q_elts r b s' = q_elts r b s)"
proof -
  note i = hal_invD [OF assms(1)]
  let ?f = "txds_trista_fifo s q" and ?d = "tx_pages s (pTxDPape e)"
  obtain x xs where x: "fifo_avail ?f 2 = x # xs" "CO_SharedFifoPick ?f 2 = Some (elt_addr ?f x)"
    "e = txds_trista_fifo_buf s q (elt_addr ?f x)"
    "es = map (\<lambda>x. txds_trista_fifo_buf s q (elt_addr ?f x)) xs"
    using q_reads(4) [OF i(1) [OF assms(2)] _ assms(3)] by auto
  note k = q_okD [OF i(1) [OF assms(2)]]
  obtain g h u where h: "CO_SharedFifoGet ?f 2 1 = Some (CO_STATUS_OK, Some (elt_addr ?f x), g)"
    "CO_SharedFifoPut g 2 1 = Some (CO_STATUS_OK, h)" "q_ok h" "elt_addr h = elt_addr ?f"
    "fifo_avail h = (fifo_avail ?f)(2 := xs, 0 := fifo_avail ?f 0 @ [u])"
    using q_pass_last [OF i(1) [OF assms(2)] x(1)] by blast
  obtain pn rc where pn: "assign_tx_desc_pn (to_is_bc (TxOption ?d)) (nat (tp_vid (TxPriv ?d))) (nat (tp_StaId (TxPriv ?d)))
      (nat (to_key_type (TxOption ?d))) (to_PN (TxOption ?d)) (repcnt s) = (pn, rc)" by fastforce
  let ?n = "?d\<lparr>TxOption := (TxOption ?d)\<lparr>to_PN := pn, to_pkt_position := 0\<rparr>\<rparr>"
  let ?it = "scat_of E e ?n"
  let ?u = "upd_queue q h (s\<lparr>txPageFreeNum := u32_of (txPageFreeNum s - tp_PageNum (TxPriv ?d)),
    TX_DOWNLOAD_OK_EVENT_num := (TX_DOWNLOAD_OK_EVENT_num s)(q := u32_of (TX_DOWNLOAD_OK_EVENT_num s q + 1)),
    tx_queueid_downloadok := q\<rparr>)"
  let ?v = "upd_elt q (elt_addr ?f x) (\<lambda>e. e\<lparr>ampduskb := None\<rparr>) (upd_page (pTxDPape e) (\<lambda>_. ?n) (?u\<lparr>repcnt := rc\<rparr>))"
  let ?s = "?v\<lparr>Tx_Done_num := u32_of (Tx_Done_num ?u + 1)\<rparr>"
  have e: "send_mpdu E q sg s = Some (sg @ [?it], ?s)"
    using x(2,3) h(1,2) pn by (simp add: send_mpdu_def Let_def upd_elt_def upd_page_def upd_queue_def)
  have f: "txds_trista_fifo ?s = (txds_trista_fifo s)(q := h)"
    "txds_trista_fifo_buf ?s = (txds_trista_fifo_buf s)(q := (txds_trista_fifo_buf s q)(elt_addr ?f x := e\<lparr>ampduskb := None\<rparr>))"
    "tx_pages ?s = (tx_pages s)(pTxDPape e := ?n)"
    by (simp_all add: upd_queue_def upd_page_def upd_elt_def x(3))
  have o: "q_elts r b ?s = q_elts r b s" if "r \<noteq> q" for r b by (rule q_elts_cong) (use that f in auto)
  have d: "x \<notin> set xs" "x \<notin> set (fifo_avail ?f (Suc 0))"
    using q_distinct [OF i(1) [OF assms(2)]] x(1) by auto
  have v: "ready q ?s = es" "waiting q ?s = waiting q s"
    using h(4,5) x(4) d unfolding q_elts_def f by (auto simp: elt_addr_inj [OF k(1)])
  have hid: "hostid (tx_pages ?s p) = hostid (tx_pages s p)" for p by (simp add: f)
  have wi: "with_id ?s = with_id s" by (intro ext) (simp only: with_id_def hid)
  have it: "item_id q ?it = with_id s q e" by (simp add: item_id_def with_id_def)
  have "skbs s = skbs ?s + {#pTxDPape e#}" unfolding skbs_def
    by (rule sum_upd [OF assms(2)]) (simp_all add: o v assms(3))
  then have sk: "count (skbs ?s) p \<le> 1" for p using i(6) [of p] by (auto split: if_splits)
  have R: "ready_ids s = ready_ids ?s + {#with_id s q e#}" unfolding ready_ids_def
    by (rule sum_upd [OF assms(2)]) (simp_all add: o v wi assms(3))
  have "ready_ids ?s + add_mset (item_id q ?it) A = ready_ids s + A" unfolding R it by simp
  moreover have "ids_ok T ?s = ids_ok T s" for T
    by (rule ids_ok_cong) (simp_all add: upd_queue_def upd_page_def upd_elt_def)
  ultimately have "ids_ok (ready_ids ?s + add_mset (item_id q ?it) A) ?s" using i(7) by metis
  moreover have "q_ok (txds_trista_fifo ?s r) \<and> (\<forall>e'\<in>set (ready r ?s @ waiting r ?s). el_txqueueid e' = r)" if "r < 8" for r
    using i(1-3) [OF that] h(3) assms(3) by (cases "r = q") (auto simp: v o f)
  moreover have "0 \<le> tp_AggrNum (TxPriv (tx_pages ?s p))" for p using i(8) by (simp add: f)
  moreover have "length (tx_frames_map ?s) = 128" "length (tx_frames ?s) = 128" "tx_queueid_downloadok ?s < 8"
    using i(4,5) assms(2) by (simp_all add: upd_queue_def upd_page_def upd_elt_def)
  ultimately have "hal_inv (add_mset (item_id q ?it) A) ?s" using sk unfolding hal_inv_def by simp
  moreover have "same_out s ?s" by (simp add: same_out_def upd_queue_def upd_page_def upd_elt_def)
  ultimately show ?thesis using e v o by (intro exI [of _ ?it] exI [of _ ?s]) simp
qed

text \<open>Frames of a queue in a request: what the driver is called back with, and on the air.\<close>

definition took :: "nat \<Rightarrow> txid multiset \<Rightarrow> scat_item list \<Rightarrow> hal_private \<Rightarrow> hal_private \<Rightarrow> bool" where
  "took q A sg s s' \<longleftrightarrow> hal_inv (A + mset (map (item_id q) sg)) s' \<and> same_out s s' \<and>
     map callback (ready q s) = map sc_callback sg @ map callback (ready q s') \<and> waiting q s' = waiting q s \<and>
     (\<forall>r b. r \<noteq> q \<longrightarrow> q_elts r b s' = q_elts r b s)"

lemma took_nil: "hal_inv A s \<Longrightarrow> took q A [] s s"
  by (simp add: took_def)

lemma took_trans:
  assumes "took q A sg s t" "took q (A + mset (map (item_id q) sg)) sg' t u"
  shows "took q A (sg @ sg') s u"
  using assms unfolding took_def by (auto intro: same_out_trans simp: add.assoc)

lemma send_mpdus_took:
  "hal_inv A s \<Longrightarrow> q < 8 \<Longrightarrow> n \<le> length (ready q s) \<Longrightarrow>
   \<exists>its s'. send_mpdus E q n sg s = Some (sg @ its, s') \<and> took q A its s s' \<and> length its = n"
proof (induction n arbitrary: A sg s)
  case 0 then show ?case by (auto simp: took_nil)
next
  case (Suc n)
  obtain e es where e: "ready q s = e # es" using Suc.prems(3) by (cases "ready q s") auto
  obtain it t where t: "send_mpdu E q sg s = Some (sg @ [it], t)" "hal_inv (add_mset (item_id q it) A) t" "same_out s t"
    "sc_callback it = callback e" "ready q t = es" "waiting q t = waiting q s"
    "\<forall>r b. r \<noteq> q \<longrightarrow> q_elts r b t = q_elts r b s"
    using send_mpdu_inv [OF Suc.prems(1,2) e] by blast
  have k: "took q A [it] s t" using t e by (simp add: took_def)
  have n: "n \<le> length (ready q t)" using t(5) e Suc.prems(3) by simp
  obtain its u where u: "send_mpdus E q n (sg @ [it]) t = Some ((sg @ [it]) @ its, u)"
    "took q (add_mset (item_id q it) A) its t u" "length its = n"
    using Suc.IH [OF t(2) Suc.prems(2) n, of "sg @ [it]"] by auto
  then show ?case using t(1) took_trans [OF k, of its u] by (intro exI [of _ "it # its"] exI [of _ u]) simp
qed

lemma ids_ok_sub:
  assumes "ids_ok (add_mset x T) s"
  shows "ids_ok T s"
proof -
  have "count (image_mset fst T) i \<le> count (image_mset fst (add_mset x T)) i" for i by simp
  then show ?thesis using assms order_trans unfolding ids_ok_def by (metis (no_types, lifting) insert_iff set_mset_add_mset_insert)
qed

text \<open>A descriptor that cannot be sent is taken out.  Its id stays in use.\<close>

lemma drop_inv:
  assumes "hal_inv A s" "q < 8" "ready q s = e # es"
  shows "\<exists>p g h. CO_SharedFifoGet (txds_trista_fifo s q) 2 1 = Some (CO_STATUS_OK, p, g) \<and>
    CO_SharedFifoPut g 2 1 = Some (CO_STATUS_OK, h) \<and>
    hal_inv A (upd_queue q h s) \<and> ready q (upd_queue q h s) = es \<and> waiting q (upd_queue q h s) = waiting q s \<and>
    (\<forall>r b. r \<noteq> q \<longrightarrow> q_elts r b (upd_queue q h s) = q_elts r b s)"
proof -
  note i = hal_invD [OF assms(1)]
  let ?f = "txds_trista_fifo s q"
  obtain x xs where x: "fifo_avail ?f 2 = x # xs" "es = map (\<lambda>x. txds_trista_fifo_buf s q (elt_addr ?f x)) xs"
    using q_reads(4) [OF i(1) [OF assms(2)] _ assms(3)] by auto
  obtain g h u where h: "CO_SharedFifoGet ?f 2 1 = Some (CO_STATUS_OK, Some (elt_addr ?f x), g)"
    "CO_SharedFifoPut g 2 1 = Some (CO_STATUS_OK, h)" "q_ok h" "elt_addr h = elt_addr ?f"
    "fifo_avail h = (fifo_avail ?f)(2 := xs, 0 := fifo_avail ?f 0 @ [u])"
    using q_pass_last [OF i(1) [OF assms(2)] x(1)] by blast
  define t where "t = upd_queue q h s"
  have f: "txds_trista_fifo t = (txds_trista_fifo s)(q := h)" "txds_trista_fifo_buf t = txds_trista_fifo_buf s"
    "tx_pages t = tx_pages s" "tx_frames_map t = tx_frames_map s" "tx_frames t = tx_frames s"
    "tx_queueid_downloadok t = tx_queueid_downloadok s"
    by (simp_all add: t_def upd_queue_def)
  have o: "q_elts r b t = q_elts r b s" if "r \<noteq> q" for r b by (rule q_elts_cong) (use that f in auto)
  have v: "ready q t = es" "waiting q t = waiting q s"
    using h(4,5) x(2) unfolding q_elts_def f by auto
  have wi: "with_id t = with_id s" by (simp add: with_id_def fun_eq_iff f)
  have "skbs s = skbs t + {#pTxDPape e#}" unfolding skbs_def
    by (rule sum_upd [OF assms(2)]) (simp_all add: o v assms(3))
  then have sk: "count (skbs t) p \<le> 1" for p using i(6) [of p] by (auto split: if_splits)
  have "ready_ids s = ready_ids t + {#with_id s q e#}" unfolding ready_ids_def
    by (rule sum_upd [OF assms(2)]) (simp_all add: o v wi assms(3))
  then have "ids_ok (add_mset (with_id s q e) (ready_ids t + A)) t" using i(7) f by (simp add: ids_ok_def)
  then have "ids_ok (ready_ids t + A) t" by (rule ids_ok_sub)
  moreover have "q_ok (txds_trista_fifo t r) \<and> (\<forall>e'\<in>set (ready r t @ waiting r t). el_txqueueid e' = r)" if "r < 8" for r
    using i(1-3) [OF that] h(3) assms(3) by (cases "r = q") (auto simp: v o f)
  ultimately have "hal_inv A t" using sk i(4,5,8,9) unfolding hal_inv_def f by simp
  then show ?thesis using h(1,2) v o unfolding t_def by blast
qed

text \<open>What hal_tx_frame does to one queue: frames go into the request, at most one is dropped.\<close>

definition same_stat :: "hal_private \<Rightarrow> hal_private \<Rightarrow> bool" where
  "same_stat s s' \<longleftrightarrow> status_list s' = status_list s \<and>
     HalTxFrameDoneCounter s' = HalTxFrameDoneCounter s \<and> Hi_TxAgg s' = Hi_TxAgg s"

lemma same_out_stat: "same_out s s' \<longleftrightarrow> same_stat s s' \<and> hal_log s' = hal_log s"
  by (auto simp: same_out_def same_stat_def)

lemma same_stat_trans [trans]: "same_stat s t \<Longrightarrow> same_stat t u \<Longrightarrow> same_stat s u"
  by (simp add: same_stat_def)

lemma log_hal_simps [simp]: "hal_log (log_hal e s) = hal_log s @ [e]" "same_stat s (log_hal e s)"
  "q_elts q b (log_hal e s) = q_elts q b s"
  by (simp_all add: log_hal_def same_stat_def q_elts_def)

lemma log_hal_inv: "hal_inv A s \<Longrightarrow> hal_inv A (log_hal e s)"
  by (erule hal_inv_cong [rotated -1]) (simp_all add: log_hal_def)

definition left :: "nat \<Rightarrow> txid multiset \<Rightarrow> scat_item list \<Rightarrow> int list \<Rightarrow> hal_private \<Rightarrow> hal_private \<Rightarrow> bool" where
  "left q A sg dr s s' \<longleftrightarrow> hal_inv (A + mset (map (item_id q) sg)) s' \<and> same_stat s s' \<and>
     hal_log s' = hal_log s @ map (DropElement q) dr \<and>
     queued q s = map sc_callback sg @ dr @ queued q s' \<and> (\<forall>r. r \<noteq> q \<longrightarrow> queued r s' = queued r s)"

lemma took_left:
  assumes "took q A sg s t" "left q (A + mset (map (item_id q) sg)) sg' dr t u"
  shows "left q A (sg @ sg') dr s u"
proof -
  note a = assms(1) [unfolded took_def same_out_stat] and b = assms(2) [unfolded left_def]
  have "queued r t = queued r s" if "r \<noteq> q" for r using a that by (simp add: queued_def)
  moreover have "queued q s = map sc_callback sg @ queued q t" using a by (simp add: queued_def)
  moreover have "same_stat s u" using a b same_stat_trans by blast
  ultimately show ?thesis using a b by (simp add: left_def add.assoc)
qed

lemma hal_send_loop_left:
  "hal_inv A s \<Longrightarrow> q < 8 \<Longrightarrow>
   \<exists>its dr s'. hal_send_loop E q pages sg s = Some (sg @ its, s') \<and> left q A its dr s s'"
proof (induction "length (ready q s)" arbitrary: A pages sg s rule: less_induct)
  case less
  note i = hal_invD [OF less.prems(1)]
  note R = q_reads [OF i(1) [OF less.prems(2)], of 2, simplified]
  have nil: "left q A [] [] s s" using less.prems(1) by (simp add: left_def same_stat_def)
  show ?case
  proof (cases "ready q s")
    case Nil
    then show ?thesis using nil R(1) by (subst hal_send_loop.simps) auto
  next
    case (Cons e es)
    let ?p = "TxPriv (tx_pages s (pTxDPape e))"
    obtain a where a: "CO_SharedFifoPick (txds_trista_fifo s q) 2 = Some a" "txds_trista_fifo_buf s q a = e"
      using R(4) Cons by blast
    consider "tp_AggrNum ?p = 0 \<or> tp_aggr_page_num ?p = 0 \<or> tp_TID ?p > QUEUE_BEACON"
      | "tp_AggrNum ?p \<noteq> 0" "tp_aggr_page_num ?p \<noteq> 0" "\<not> tp_TID ?p > QUEUE_BEACON" "fits_request s ?p (int (length (ready q s))) (length sg) pages"
      | "tp_AggrNum ?p \<noteq> 0" "tp_aggr_page_num ?p \<noteq> 0" "\<not> tp_TID ?p > QUEUE_BEACON" "\<not> fits_request s ?p (int (length (ready q s))) (length sg) pages"
      by blast
    then show ?thesis
    proof cases
      case 1
      obtain p g h where h: "CO_SharedFifoGet (txds_trista_fifo s q) 2 1 = Some (CO_STATUS_OK, p, g)"
        "CO_SharedFifoPut g 2 1 = Some (CO_STATUS_OK, h)" "hal_inv A (upd_queue q h s)"
        "ready q (upd_queue q h s) = es" "waiting q (upd_queue q h s) = waiting q s"
        "\<forall>r b. r \<noteq> q \<longrightarrow> q_elts r b (upd_queue q h s) = q_elts r b s"
        using drop_inv [OF less.prems Cons] by blast
      have "left q A [] [callback e] s (log_hal (DropElement q (callback e)) (upd_queue q h s))"
        using h Cons by (simp add: left_def queued_def log_hal_inv) (simp add: same_stat_def upd_queue_def log_hal_def)
      then show ?thesis using 1 h(1,2) a R(1,2) Cons by (subst hal_send_loop.simps) (force simp: Let_def)
    next
      case 2
      let ?n = "nat (tp_AggrNum ?p)"
      have n: "0 < ?n" "?n \<le> length (ready q s)"
        using 2(1,4) i(8) [of "pTxDPape e"] by (auto simp: fits_request_def)
      obtain its t where t: "send_mpdus E q ?n sg s = Some (sg @ its, t)" "took q A its s t" "length its = ?n"
        using send_mpdus_took [OF less.prems n(2)] by blast
      have l: "length (ready q t) < length (ready q s)"
        using t(2,3) n(1) unfolding took_def by (metis add_less_cancel_right add_0 length_append length_map)
      have ti: "hal_inv (A + mset (map (item_id q) its)) t" using t(2) by (simp add: took_def)
      obtain its' dr u where u: "hal_send_loop E q (pages + tp_aggr_page_num ?p) (sg @ its) t = Some ((sg @ its) @ its', u)"
        "left q (A + mset (map (item_id q) its)) its' dr t u"
        using less.hyps [OF l ti less.prems(2)] by blast
      show ?thesis using 2 t(1) u(1) took_left [OF t(2) u(2)] a R(1,2) Cons
        by (subst hal_send_loop.simps) (force simp: Let_def)
    next
      case 3
      then show ?thesis using nil a R(1,2) Cons by (subst hal_send_loop.simps) (force simp: Let_def)
    qed
  qed
qed

section \<open>Filling\<close>

lemma hal_fill_inv:
  assumes "hal_inv A s" "q < 8" "q_elts q 0 s \<noteq> []" "k \<notin># skbs s" "0 \<le> tp_AggrNum (TxPriv d)"
  shows "\<exists>s'. hal_fill q k cb d first s = Some s' \<and> hal_inv A s' \<and> hal_log s' = hal_log s \<and>
    status_list s' = status_list s \<and> HalTxFrameDoneCounter s' = HalTxFrameDoneCounter s \<and>
    queued q s' = queued q s @ [cb] \<and> (\<forall>r. r \<noteq> q \<longrightarrow> queued r s' = queued r s) \<and>
    (if first then Hi_TxAgg s' q = Some k else Hi_TxAgg s' = Hi_TxAgg s)"
proof -
  note i = hal_invD [OF assms(1)]
  let ?f = "txds_trista_fifo s q" and ?e = "\<lparr>callback = cb, pTxDPape = k, ampduskb = Some k, el_txqueueid = q\<rparr>"
  note kf = q_okD [OF i(1) [OF assms(2)]]
  obtain x xs where x: "fifo_avail ?f 0 = x # xs" using assms(3) by (cases "fifo_avail ?f 0") (auto simp: q_elts_def)
  obtain g h where h: "CO_SharedFifoGet ?f 0 1 = Some (CO_STATUS_OK, Some (elt_addr ?f x), g)"
    "CO_SharedFifoPut g 0 1 = Some (CO_STATUS_OK, h)" "q_ok h" "elt_addr h = elt_addr ?f"
    "fifo_avail h = (fifo_avail ?f)(0 := xs, Suc 0 := fifo_avail ?f (Suc 0) @ [x])"
    using q_pass [OF i(1) [OF assms(2)] _ x] by auto
  let ?u = "upd_page k (\<lambda>_. d) (upd_elt q (elt_addr ?f x) (\<lambda>_. ?e) (upd_queue q g s))"
  let ?v = "if first then ?u\<lparr>Hi_TxAgg := (Hi_TxAgg ?u)(q := Some k)\<rparr> else ?u"
  define t where "t = upd_queue q h (?v\<lparr>Tx_Send_num := u32_of (Tx_Send_num ?v + 1)\<rparr>)"
  have e: "hal_fill q k cb d first s = Some t"
    using h(1,2) by (simp add: hal_fill_def t_def upd_queue_def upd_elt_def upd_page_def)
  have f: "txds_trista_fifo t = (txds_trista_fifo s)(q := h)"
    "txds_trista_fifo_buf t = (txds_trista_fifo_buf s)(q := (txds_trista_fifo_buf s q)(elt_addr ?f x := ?e))"
    "tx_pages t = (tx_pages s)(k := d)" "tx_frames_map t = tx_frames_map s" "tx_frames t = tx_frames s"
    "tx_queueid_downloadok t = tx_queueid_downloadok s" "hal_log t = hal_log s" "status_list t = status_list s"
    "HalTxFrameDoneCounter t = HalTxFrameDoneCounter s"
    "if first then Hi_TxAgg t q = Some k else Hi_TxAgg t = Hi_TxAgg s"
    by (simp_all add: t_def upd_queue_def upd_page_def upd_elt_def fun_upd_twist)
  have o: "q_elts r b t = q_elts r b s" if "r \<noteq> q" for r b by (rule q_elts_cong) (use that f in auto)
  have dx: "x \<notin> set (fifo_avail ?f 2)" "x \<notin> set (fifo_avail ?f (Suc 0))"
    using q_distinct [OF i(1) [OF assms(2)]] x by auto
  have v: "ready q t = ready q s" "waiting q t = waiting q s @ [?e]"
    using h(4,5) dx unfolding q_elts_def f by (auto simp: elt_addr_inj [OF kf(1)])
  have "skbs t = skbs s + {#k#}" unfolding skbs_def
    by (rule sum_upd [OF assms(2)]) (simp_all add: o v)
  then have sk: "count (skbs t) p \<le> 1" for p
    using i(6) [of p] assms(4) count_eq_zero_iff [of "skbs s" k] by auto
  have rd: "ready_ids t = ready_ids s"
  proof (rule ready_ids_cong)
    show "ready r t = ready r s" for r by (cases "r = q") (auto simp: o v)
    show "hostid (tx_pages t (pTxDPape e)) = hostid (tx_pages s (pTxDPape e))" if "r < 8" "e \<in> set (ready r s)" for r e
      using elt_in_skbs [of r e s] that assms(4) by (auto simp: f)
  qed
  have "ids_ok (ready_ids t + A) t" using i(7) f unfolding rd ids_ok_def by simp
  moreover have "q_ok (txds_trista_fifo t r) \<and> (\<forall>e'\<in>set (ready r t @ waiting r t). el_txqueueid e' = r)" if "r < 8" for r
    using i(1-3) [OF that] h(3) by (cases "r = q") (auto simp: v o f)
  moreover have "0 \<le> tp_AggrNum (TxPriv (tx_pages t p))" for p using i(8) assms(5) by (simp add: f)
  ultimately have "hal_inv A t" using sk i(4,5,9) unfolding hal_inv_def by (simp add: f(4-6))
  then show ?thesis using e f v o by (intro exI [of _ t]) (simp add: queued_def)
qed

section \<open>Completion\<close>

definition is_frame :: "txdonestatus \<Rightarrow> bool" where
  "is_frame st \<longleftrightarrow> \<not> (ts_txstatus st = TX_DESCRIPTOR_STATUS_NULL_DATA_OK \<or> ts_txstatus st = TX_DESCRIPTOR_STATUS_NULL_DATA_FAIL)"

lemma free_id:
  assumes "hal_inv A s" "(i, cb, q) \<in># A"
  shows "\<exists>s'. hal_free_tx_id i s = Some (Some (cb, q), s') \<and> hal_inv (A - {#(i, cb, q)#}) s' \<and>
    same_out s s' \<and> (\<forall>r. queued r s' = queued r s)"
proof -
  note d = hal_invD [OF assms(1)]
  have m: "i < 128" "tx_frames_map s ! i" "tf_callback (tx_frames s ! i) = cb" "tf_txqueueid (tx_frames s ! i) = q"
    using ids_okD [OF d(7), of i cb q] assms(2) by simp_all
  let ?u = "s\<lparr>tx_frames_map := (tx_frames_map s)[i := False],
      TX_SEND_OK_EVENT_num := (TX_SEND_OK_EVENT_num s)(q := u32_of (TX_SEND_OK_EVENT_num s q + 1))\<rparr>"
  define t where "t = (if bhaltxdrop ?u \<and> hal_is_empty_tx_id ?u = 0 then ?u\<lparr>bhaltxdrop := False\<rparr> else ?u)"
  have f: "txds_trista_fifo t = txds_trista_fifo s" "txds_trista_fifo_buf t = txds_trista_fifo_buf s"
    "tx_pages t = tx_pages s" "tx_queueid_downloadok t = tx_queueid_downloadok s"
    "tx_frames_map t = (tx_frames_map s)[i := False]" "tx_frames t = tx_frames s" "same_out s t"
    by (simp_all add: t_def same_out_def)
  have e: "hal_free_tx_id i s = Some (Some (cb, q), t)"
    using m d(4,5) by (simp add: hal_free_tx_id_def t_def Let_def)
  have "ready_ids s + A = add_mset (i, cb, q) (ready_ids s + (A - {#(i, cb, q)#}))" using assms(2) by simp
  then have "ids_ok (add_mset (i, cb, q) (ready_ids s + (A - {#(i, cb, q)#}))) s" using d(7) by metis
  then have n: "ids_ok (ready_ids s + (A - {#(i, cb, q)#})) t" by (rule ids_ok_free [OF _ d(4) f(5,6)])
  have "hal_inv (A - {#(i, cb, q)#}) t"
    by (rule hal_inv_ids [OF f(1-4) assms(1) _ _ n]) (simp_all add: f d(4,5))
  moreover have "queued r t = queued r s" for r by (simp add: queued_def q_elts_def f)
  ultimately show ?thesis using e f(7) by blast
qed

lemma txok_one_inv:
  assumes "hal_inv A s" "is_frame st" "ts_callbackid st \<in># image_mset fst A"
  shows "\<exists>cb q s'. txok_one st s = Some s' \<and> (ts_callbackid st, cb, q) \<in># A \<and>
    hal_inv (A - {#(ts_callbackid st, cb, q)#}) s' \<and> same_stat s s' \<and>
    hal_log s' = hal_log s @ [TxHandle st cb q] \<and> (\<forall>r. queued r s' = queued r s)"
proof -
  obtain cb q where t: "(ts_callbackid st, cb, q) \<in># A" using assms(3) by force
  obtain s' where s': "hal_free_tx_id (ts_callbackid st) s = Some (Some (cb, q), s')"
    "hal_inv (A - {#(ts_callbackid st, cb, q)#}) s'" "same_out s s'" "\<forall>r. queued r s' = queued r s"
    using free_id [OF assms(1) t] by blast
  then show ?thesis using t assms(2)
    by (intro exI [of _ cb] exI [of _ q] exI [of _ "log_hal (TxHandle st cb q) s'"])
      (auto simp: txok_one_def is_frame_def log_hal_inv same_out_def same_stat_def queued_def, auto simp: log_hal_def)
qed

end
