(* ===== verification/HalTxProps.thy ===== *)
theory HalTxProps
  imports HalTxInv TxDescProps "HOL-Library.Sublist"
begin

text \<open>
  The hal's transmit path in operation: the driver fills, hal_tx_frame sends, the interrupt and the
  thread complete, in any order.  What was sent and returned is read from the log.
\<close>

section \<open>The log\<close>

fun ev_sent :: "nat \<Rightarrow> hal_event \<Rightarrow> int list" where
  "ev_sent q (SendFrame r sg) = (if r = q then map sc_callback sg else [])"
| "ev_sent q _ = []"

fun ev_dropped :: "nat \<Rightarrow> hal_event \<Rightarrow> int list" where
  "ev_dropped q (DropElement r cb) = (if r = q then [cb] else [])"
| "ev_dropped q _ = []"

fun ev_sent_ids :: "hal_event \<Rightarrow> txid list" where
  "ev_sent_ids (SendFrame r sg) = map (item_id r) sg"
| "ev_sent_ids _ = []"

fun ev_done_ids :: "hal_event \<Rightarrow> txid list" where
  "ev_done_ids (TxHandle st cb q) = [(ts_callbackid st, cb, q)]"
| "ev_done_ids _ = []"

definition sent :: "nat \<Rightarrow> hal_event list \<Rightarrow> int list" where
  "sent q l = concat (map (ev_sent q) l)"

definition dropped :: "nat \<Rightarrow> hal_event list \<Rightarrow> int list" where
  "dropped q l = concat (map (ev_dropped q) l)"

definition sent_ids :: "hal_event list \<Rightarrow> txid multiset" where
  "sent_ids l = mset (concat (map ev_sent_ids l))"

definition done_ids :: "hal_event list \<Rightarrow> txid multiset" where
  "done_ids l = mset (concat (map ev_done_ids l))"

definition on_air :: "hal_private \<Rightarrow> txid multiset" where
  "on_air s = sent_ids (hal_log s) - done_ids (hal_log s)"

lemma log_views [simp]:
  "sent q [] = []" "sent q (l @ m) = sent q l @ sent q m" "sent q [e] = ev_sent q e"
  "dropped q [] = []" "dropped q (l @ m) = dropped q l @ dropped q m" "dropped q [e] = ev_dropped q e"
  "sent_ids [] = {#}" "sent_ids (l @ m) = sent_ids l + sent_ids m" "sent_ids [e] = mset (ev_sent_ids e)"
  "done_ids [] = {#}" "done_ids (l @ m) = done_ids l + done_ids m" "done_ids [e] = mset (ev_done_ids e)"
  by (simp_all add: sent_def dropped_def sent_ids_def done_ids_def)

lemma drops_views [simp]:
  "sent r (map (DropElement q) dr) = []" "dropped r (map (DropElement q) dr) = (if r = q then dr else [])"
  "sent_ids (map (DropElement q) dr) = {#}" "done_ids (map (DropElement q) dr) = {#}"
  by (induction dr) (simp_all add: sent_def dropped_def sent_ids_def done_ids_def)

definition no_error :: "hal_event list \<Rightarrow> bool" where
  "no_error l \<longleftrightarrow> (\<forall>i. FreeError i \<notin> set l)"

section \<open>Sending\<close>

text \<open>From one state to another, frames of the queues were sent or dropped, in order.\<close>

definition advances :: "txid multiset \<Rightarrow> hal_private \<Rightarrow> hal_private \<Rightarrow> bool" where
  "advances A s s' \<longleftrightarrow> same_stat s s' \<and> (\<exists>new. hal_log s' = hal_log s @ new \<and>
     hal_inv (A + sent_ids new) s' \<and> done_ids new = {#} \<and> no_error new \<and>
     (\<forall>q. subseq (sent q new @ queued q s') (queued q s) \<and>
        mset (queued q s) = mset (sent q new) + mset (dropped q new) + mset (queued q s')))"

lemma advances_refl: "hal_inv A s \<Longrightarrow> advances A s s"
  by (simp add: advances_def same_stat_def no_error_def)

lemma moved_advances: "moved A s s' \<Longrightarrow> advances A s s'"
  by (simp add: moved_def advances_def same_out_stat no_error_def)

lemma advances_trans:
  assumes "advances A s t" "\<And>B. hal_inv B t \<Longrightarrow> \<exists>u. f t = Some u \<and> advances B t u"
  shows "\<exists>u. f t = Some u \<and> advances A s u"
proof -
  obtain m where m: "same_stat s t" "hal_log t = hal_log s @ m" "hal_inv (A + sent_ids m) t" "done_ids m = {#}" "no_error m"
    "\<And>q. subseq (sent q m @ queued q t) (queued q s)"
    "\<And>q. mset (queued q s) = mset (sent q m) + mset (dropped q m) + mset (queued q t)"
    using assms(1) unfolding advances_def by blast
  obtain u where u: "f t = Some u" "advances (A + sent_ids m) t u" using assms(2) [OF m(3)] by blast
  obtain n where n: "same_stat t u" "hal_log u = hal_log t @ n" "hal_inv (A + sent_ids m + sent_ids n) u" "done_ids n = {#}" "no_error n"
    "\<And>q. subseq (sent q n @ queued q u) (queued q t)"
    "\<And>q. mset (queued q t) = mset (sent q n) + mset (dropped q n) + mset (queued q u)"
    using u(2) unfolding advances_def by blast
  have "subseq (sent q (m @ n) @ queued q u) (queued q s)" for q
    using subseq_order.order_trans [OF list_emb_append_mono [OF subseq_order.order_refl n(6)] m(6)] by simp
  moreover have "mset (queued q s) = mset (sent q (m @ n)) + mset (dropped q (m @ n)) + mset (queued q u)" for q
    using m(7) [of q] n(7) [of q] by simp
  moreover have "same_stat s u" by (rule same_stat_trans [OF m(1) n(1)])
  ultimately have "advances A s u" using m n unfolding advances_def
    by (intro conjI exI [of _ "m @ n"]) (auto simp: no_error_def add.assoc)
  then show ?thesis using u(1) by blast
qed

lemma send_queue_advances:
  assumes "hal_inv A s" "q < 8"
  shows "\<exists>s'. send_queue E q s = Some s' \<and> advances A s s'"
proof -
  note R = q_reads(1) [OF hal_invD(1) [OF assms], of 2, simplified]
  obtain its dr t where t: "hal_send_loop E q 0 [] s = Some (its, t)" "left q A its dr s t"
    using hal_send_loop_left [OF assms, of E 0 "[]"] by auto
  note l = t(2) [unfolded left_def]
  show ?thesis
  proof (cases "ready q s = [] \<or> \<not> get_scatreq E q")
    case True
    then show ?thesis using R advances_refl [OF assms(1)] by (auto simp: send_queue_def)
  next
    case False
    let ?s = "if its \<noteq> [] then log_hal (SendFrame q its) t else t"
    let ?new = "map (DropElement q) dr @ (if its \<noteq> [] then [SendFrame q its] else [])"
    have e: "send_queue E q s = Some ?s" using False R t(1) by (simp add: send_queue_def)
    have v: "queued r ?s = queued r t" for r by (simp add: queued_def)
    have ids: "sent_ids ?new = mset (map (item_id q) its)" "done_ids ?new = {#}" "hal_log ?s = hal_log s @ ?new"
      using l by simp_all
    have sq: "sent q ?new = map sc_callback its" "dropped q ?new = dr" by simp_all
    have sr: "sent r ?new = []" "dropped r ?new = []" if "r \<noteq> q" for r using that by simp_all
    have ss: "subseq (sent r ?new @ queued r ?s) (queued r s)" for r
    proof (cases "r = q")
      case True
      have "subseq (map sc_callback its @ queued q t) (map sc_callback its @ dr @ queued q t)"
        by (intro list_emb_append_mono list_emb_append2) auto
      then show ?thesis using l unfolding True v sq by simp
    qed (use l v sr in simp)
    have ms: "mset (queued r s) = mset (sent r ?new) + mset (dropped r ?new) + mset (queued r ?s)" for r
      unfolding v using l sr [of r] by (cases "r = q") (simp_all add: sq)
    have "hal_inv (A + sent_ids ?new) ?s" unfolding ids using l by (cases "its = []") (simp_all add: log_hal_inv)
    moreover have "same_stat s ?s" using l by (auto intro: same_stat_trans)
    moreover have "no_error ?new" by (auto simp: no_error_def)
    ultimately have "advances A s ?s" using ids ss ms unfolding advances_def by blast
    then show ?thesis using e by blast
  qed
qed

lemma send_queues_advances:
  "hal_inv A s \<Longrightarrow> n \<le> 8 \<Longrightarrow> \<exists>s'. send_queues E n s = Some s' \<and> advances A s s'"
proof (induction n arbitrary: A s)
  case 0 then show ?case by (simp add: advances_refl)
next
  case (Suc n)
  have "n < 8" "n \<le> 8" using Suc.prems(2) by simp_all
  then obtain t where t: "send_queue E n s = Some t" "advances A s t"
    using send_queue_advances [OF Suc.prems(1)] by blast
  show ?case using advances_trans [OF t(2), of "send_queues E n"] Suc.IH [OF _ \<open>n \<le> 8\<close>] t(1) by simp
qed

lemma log_advances:
  assumes "hal_inv A s" "e = WakeReq"
  shows "advances A s (log_hal e s)"
  using assms(1) unfolding assms(2) advances_def
  by (intro conjI exI [of _ "[WakeReq]"]) (simp_all add: log_hal_inv no_error_def queued_def)

lemma hal_tx_frame_advances:
  assumes "hal_inv A s"
  shows "\<exists>s'. hal_tx_frame E s = Some s' \<and> advances A s s'"
proof -
  obtain t where t: "hal_txframe_pre s = Some t" "advances A s t"
    using hal_txframe_pre_moved [OF assms] moved_advances by blast
  have "\<exists>u. send_queues E 8 t = Some u \<and> advances A s u"
    by (rule advances_trans [OF t(2)]) (rule send_queues_advances, simp_all)
  then show ?thesis using t(1) advances_refl [OF assms] log_advances [OF assms]
    by (auto simp: hal_tx_frame_def)
qed

section \<open>Completion\<close>

text \<open>What the interrupt finds: the statuses between the hal's counter and the firmware's.\<close>

definition reported :: "int \<Rightarrow> int \<Rightarrow> (nat \<Rightarrow> txdonestatus) \<Rightarrow> txdonestatus list" where
  "reported done c tab = map (\<lambda>j. tab (nat ((c + int j) mod 256) mod 128)) [0..<nat ((done - c) mod 256)]"

text \<open>Statuses of frames on the air, of each frame once.\<close>

definition reports :: "txdonestatus list \<Rightarrow> txid multiset \<Rightarrow> bool" where
  "reports P A \<longleftrightarrow> distinct (map ts_callbackid (filter is_frame P)) \<and>
     (\<forall>st\<in>set P. is_frame st \<longrightarrow> ts_callbackid st \<in># image_mset fst A)"

lemma reports_Cons:
  "reports (st # P) A \<longleftrightarrow> reports P A \<and> (is_frame st \<longrightarrow> ts_callbackid st \<in># image_mset fst A \<and>
     (\<forall>st'\<in>set P. is_frame st' \<longrightarrow> ts_callbackid st' \<noteq> ts_callbackid st))"
  by (auto simp: reports_def image_iff)

lemma subseq_distinct: "subseq xs ys \<Longrightarrow> distinct ys \<Longrightarrow> distinct xs"
  unfolding subseq_conv_nths by (auto intro: distinct_nthsI)

lemma subseq_set: "subseq xs ys \<Longrightarrow> set xs \<subseteq> set ys"
  unfolding subseq_conv_nths by (auto dest: in_set_nthsD)

lemma reports_sub:
  assumes "reports (P @ R) A" "subseq K R"
  shows "reports (P @ K) A"
proof -
  have "subseq (map ts_callbackid (filter is_frame (P @ K))) (map ts_callbackid (filter is_frame (P @ R)))"
    using assms(2) by (intro subseq_map subseq_filter) (simp add: subseq_append')
  then have "distinct (map ts_callbackid (filter is_frame (P @ K)))"
    using assms(1) subseq_distinct unfolding reports_def by blast
  moreover have "set K \<subseteq> set R" by (rule subseq_set [OF assms(2)])
  ultimately show ?thesis using assms(1) by (auto simp: reports_def)
qed

lemma diff_mod_bytes:
  fixes x y :: int
  assumes "0 \<le> x" "x < 256" "0 \<le> y" "y < 256"
  shows "(x - y) mod 256 = (if y \<le> x then x - y else x - y + 256)"
proof (cases "y \<le> x")
  case False
  have "(x - y) mod 256 = (x - y + 256) mod 256" by simp
  also have "\<dots> = x - y + 256" using False assms by (intro mod_pos_pos_trivial) auto
  finally show ?thesis using False by simp
qed (use assms in simp)

lemma reported_Cons:
  assumes "0 \<le> done" "done < 256" "0 \<le> c" "c < 256" "done \<noteq> c"
  shows "reported done c tab = tab (nat c mod 128) # reported done ((c + 1) mod 256) tab"
    "nat ((done - c) mod 256) = Suc (nat ((done - (c + 1) mod 256) mod 256))"
proof -
  show 1: "nat ((done - c) mod 256) = Suc (nat ((done - (c + 1) mod 256) mod 256))"
  proof -
    have "(c + 1) mod 256 = (if c = 255 then 0 else c + 1)" using assms(3,4) by auto
    then show ?thesis using diff_mod_bytes [of "done" c] diff_mod_bytes [of "done" "(c + 1) mod 256"] assms
      by (auto simp: Suc_nat_eq_nat_zadd1)
  qed
  show "reported done c tab = tab (nat c mod 128) # reported done ((c + 1) mod 256) tab"
    using assms(3,4) unfolding reported_def 1
    by (simp add: upt_conv_Cons map_Suc_upt [symmetric] o_def mod_simps add.assoc del: upt_Suc)
qed

definition irq_same :: "hal_private \<Rightarrow> hal_private \<Rightarrow> bool" where
  "irq_same s s' \<longleftrightarrow> hal_log s' = hal_log s \<and> Hi_TxAgg s' = Hi_TxAgg s \<and> (\<forall>q. queued q s' = queued q s) \<and>
     (\<forall>A. hal_inv A s \<longrightarrow> hal_inv A s')"

lemma irq_same_trans: "irq_same s t \<Longrightarrow> irq_same t u \<Longrightarrow> irq_same s u"
  by (simp add: irq_same_def)

lemma irq_sameI:
  assumes "txds_trista_fifo s' = txds_trista_fifo s" "txds_trista_fifo_buf s' = txds_trista_fifo_buf s"
    "tx_pages s' = tx_pages s" "tx_frames_map s' = tx_frames_map s" "tx_frames s' = tx_frames s"
    "tx_queueid_downloadok s' = tx_queueid_downloadok s" "hal_log s' = hal_log s" "Hi_TxAgg s' = Hi_TxAgg s"
  shows "irq_same s s'"
  using hal_inv_cong [OF assms(1-6)] assms by (simp add: irq_same_def queued_def q_elts_def)

lemma irq_status_view:
  "irq_same s (irq_status st s)" "HalTxFrameDoneCounter (irq_status st s) = HalTxFrameDoneCounter s"
  "status_list (irq_status st s) = status_list s @ (if free_nodes s = 0 then [] else [st])"
  by (rule irq_sameI) (simp_all add: irq_status_def Let_def)

lemma irq_loop_view:
  assumes "0 \<le> done" "done < 256" "0 \<le> HalTxFrameDoneCounter s" "HalTxFrameDoneCounter s < 256"
    "nat ((done - HalTxFrameDoneCounter s) mod 256) \<le> n"
  shows "\<exists>s' K. irq_loop n done tab s = Some s' \<and> subseq K (reported done (HalTxFrameDoneCounter s) tab) \<and>
    status_list s' = status_list s @ K \<and> irq_same s s' \<and> HalTxFrameDoneCounter s' = done"
  using assms(3-5)
proof (induction n arbitrary: s)
  case 0
  have "done = HalTxFrameDoneCounter s" using 0 assms(1,2) by (auto simp: diff_mod_bytes split: if_splits)
  then show ?case by (intro exI [of _ s] exI [of _ "[]"]) (simp add: irq_same_def)
next
  case (Suc n)
  let ?c = "HalTxFrameDoneCounter s"
  show ?case
  proof (cases "done = ?c")
    case True
    then show ?thesis by (intro exI [of _ s] exI [of _ "[]"]) (simp add: irq_same_def)
  next
    case False
    let ?st = "tab (nat ?c mod 128)" and ?u = "s\<lparr>HalTxFrameDoneCounter := u8_of (?c + 1)\<rparr>"
    let ?t = "irq_status ?st ?u"
    note r = reported_Cons [OF assms(1,2) Suc.prems(1,2) False]
    have c: "HalTxFrameDoneCounter ?t = (?c + 1) mod 256" by (simp add: irq_status_view u8_of_def)
    have b: "0 \<le> HalTxFrameDoneCounter ?t" "HalTxFrameDoneCounter ?t < 256"
      "nat ((done - HalTxFrameDoneCounter ?t) mod 256) \<le> n"
      using Suc.prems(3) r(2) unfolding c by simp_all
    obtain s' K where s': "irq_loop n done tab ?t = Some s'" "subseq K (reported done ((?c + 1) mod 256) tab)"
      "status_list s' = status_list ?t @ K" "irq_same ?t s'" "HalTxFrameDoneCounter s' = done"
      using Suc.IH [OF b] c by auto
    have "irq_same s ?u" by (rule irq_sameI) simp_all
    then have m: "irq_same s s'" using irq_same_trans irq_status_view(1) s'(4) by blast
    show ?thesis
    proof (intro exI [of _ s'] exI [of _ "(if free_nodes s = 0 then [] else [?st]) @ K"] conjI)
      show "status_list s' = status_list s @ (if free_nodes s = 0 then [] else [?st]) @ K"
        using s'(3) by (simp add: irq_status_view)
    qed (use s' m False r(1) in \<open>auto simp: Let_def\<close>)
  qed
qed

lemma hi_soft_tx_irq_view:
  assumes "0 \<le> done" "done < 256" "0 \<le> HalTxFrameDoneCounter s" "HalTxFrameDoneCounter s < 256"
  shows "\<exists>s' K. hi_soft_tx_irq done pages tab s = Some s' \<and> subseq K (reported done (HalTxFrameDoneCounter s) tab) \<and>
    status_list s' = status_list s @ K \<and> irq_same s s' \<and> HalTxFrameDoneCounter s' = done"
proof -
  let ?u = "s\<lparr>txPageFreeNum := u32_of (txPageFreeNum s + u8_of (pages - HalTxPageDoneCounter s)),
         HalTxPageDoneCounter := pages\<rparr>"
  have "(done - HalTxFrameDoneCounter s) mod 256 < 256" by simp
  then have n: "nat ((done - HalTxFrameDoneCounter s) mod 256) \<le> 256" by linarith
  have "irq_same s ?u" by (rule irq_sameI) simp_all
  moreover obtain s' K where "irq_loop 256 done tab ?u = Some s'"
    "subseq K (reported done (HalTxFrameDoneCounter ?u) tab)" "status_list s' = status_list ?u @ K"
    "irq_same ?u s'" "HalTxFrameDoneCounter s' = done"
    using irq_loop_view [OF assms(1,2), of ?u 256 tab] assms(3,4) n by auto
  ultimately show ?thesis using irq_same_trans
    by (intro exI [of _ s'] exI [of _ K]) (simp add: hi_soft_tx_irq_def)
qed

section \<open>Runs\<close>

text \<open>The operations of the hal, as the driver, the bus and the firmware call them.\<close>

datatype hal_op =
  FillAgg hi_agg_tx_desc hi_tx_priv_hdr nat nat int
| FillPriv hi_tx_priv_hdr nat nat int
| TxFrame "nat \<Rightarrow> bool"
| TxIrq int int "nat \<Rightarrow> txdonestatus"
| TxokThread
| TxPause bool
| TxFlush nat

fun hal_do :: "hal_env \<Rightarrow> hal_op \<Rightarrow> hal_private \<Rightarrow> hal_private option" where
  "hal_do E (FillAgg agg h q k cb) s = hal_fill_agg_start E agg h q (Some k) cb s"
| "hal_do E (FillPriv h q k cb) s = hal_fill_priv E h q (Some k) cb s"
| "hal_do E (TxFrame scat) s = hal_tx_frame (E\<lparr>get_scatreq := scat\<rparr>) s"
| "hal_do E (TxIrq done pages tab) s = hi_soft_tx_irq done pages tab s"
| "hal_do E TxokThread s = map_option snd (hal_txok_thread s)"
| "hal_do E (TxPause p) s = Some (hal_txframe_pause p s)"
| "hal_do E (TxFlush vid) s = hal_tx_flush vid s"

text \<open>The driver fills a queue that has room (hal_get_priv_cnt) with a frame whose skb the hal does not
  hold, the first of an aggregate before the others; the firmware reports frames on the air, each once.
  An interface is flushed when no frame is queued: with frames queued hal_tx_flush frees ids of frames
  on the air, gives frames a second id and may leave an element taken out, and nothing below holds.\<close>

definition can_fill :: "nat \<Rightarrow> nat \<Rightarrow> hal_private \<Rightarrow> bool" where
  "can_fill q k s \<longleftrightarrow> q < HAL_NUM_TX_QUEUES \<and> hal_get_priv_cnt q s \<noteq> Some 0 \<and> k \<notin># skbs s"

fun hal_allowed :: "hal_op \<Rightarrow> hal_private \<Rightarrow> bool" where
  "hal_allowed (FillAgg agg h q k cb) s \<longleftrightarrow> can_fill q k s \<and> frame_ok agg \<and>
     (flag (ha_FLAG agg) WIFI_IS_BLOCKACK \<longrightarrow> 2 \<le> ha_CurrentRate agg)"
| "hal_allowed (FillPriv h q k cb) s \<longleftrightarrow> can_fill q k s \<and> Hi_TxAgg s q \<noteq> None"
| "hal_allowed (TxFrame scat) s \<longleftrightarrow> True"
| "hal_allowed (TxIrq done pages tab) s \<longleftrightarrow> 0 \<le> done \<and> done < 256 \<and>
     reports (status_list s @ reported done (HalTxFrameDoneCounter s) tab) (on_air s)"
| "hal_allowed TxokThread s \<longleftrightarrow> True"
| "hal_allowed (TxPause p) s \<longleftrightarrow> True"
| "hal_allowed (TxFlush vid) s \<longleftrightarrow> (\<forall>q < HAL_NUM_TX_QUEUES. queued q s = [])"

fun given :: "hal_op \<Rightarrow> (nat \<Rightarrow> int list) \<Rightarrow> nat \<Rightarrow> int list" where
  "given (FillAgg agg h q k cb) F = F(q := F q @ [cb])"
| "given (FillPriv h q k cb) F = F(q := F q @ [cb])"
| "given _ F = F"

inductive hal_run :: "hal_env \<Rightarrow> hal_private \<Rightarrow> (nat \<Rightarrow> int list) \<Rightarrow> hal_private \<Rightarrow> bool" for E s0 where
  start: "hal_run E s0 (\<lambda>_. []) s0"
| step: "hal_run E s0 F s \<Longrightarrow> hal_allowed op s \<Longrightarrow> hal_do E op s = Some s' \<Longrightarrow> hal_run E s0 (given op F) s'"

text \<open>What holds throughout; \<^verbatim>\<open>F\<close> is what was filled, \<^verbatim>\<open>P\<close> the statuses not yet handled.\<close>

definition run_inv :: "(nat \<Rightarrow> int list) \<Rightarrow> txdonestatus list \<Rightarrow> hal_private \<Rightarrow> bool" where
  "run_inv F P s \<longleftrightarrow> hal_inv (on_air s) s \<and> done_ids (hal_log s) \<subseteq># sent_ids (hal_log s) \<and>
     no_error (hal_log s) \<and> 0 \<le> HalTxFrameDoneCounter s \<and> HalTxFrameDoneCounter s < 256 \<and> reports P (on_air s) \<and>
     (\<forall>q<8. subseq (sent q (hal_log s) @ queued q s) (F q) \<and>
        mset (F q) = mset (sent q (hal_log s)) + mset (dropped q (hal_log s)) + mset (queued q s))"

lemma reports_mono: "reports P A \<Longrightarrow> A \<subseteq># B \<Longrightarrow> reports P B"
  unfolding reports_def using image_mset_subseteq_mono mset_subset_eqD by metis

lemma advances_run:
  assumes "run_inv F P s" "advances (on_air s) s s'"
  shows "run_inv F P s'"
proof -
  note i = assms(1) [unfolded run_inv_def]
  obtain n where n: "same_stat s s'" "hal_log s' = hal_log s @ n" "hal_inv (on_air s + sent_ids n) s'" "done_ids n = {#}" "no_error n"
    "\<And>q. subseq (sent q n @ queued q s') (queued q s)"
    "\<And>q. mset (queued q s) = mset (sent q n) + mset (dropped q n) + mset (queued q s')"
    using assms(2) unfolding advances_def by blast
  have air: "on_air s' = on_air s + sent_ids n"
    using i n(4) by (simp add: on_air_def n(2) subset_mset.add_diff_assoc2)
  have "subseq (sent q (hal_log s') @ queued q s') (F q)" if "q < 8" for q
  proof -
    have "subseq (sent q (hal_log s) @ sent q n @ queued q s') (sent q (hal_log s) @ queued q s)"
      using n(6) by (simp add: subseq_append')
    moreover have "subseq (sent q (hal_log s) @ queued q s) (F q)" using i that by blast
    ultimately show ?thesis by (simp add: n(2))
  qed
  moreover have "done_ids (hal_log s') \<subseteq># sent_ids (hal_log s')"
    using i by (simp add: n(2,4) subset_mset.add_increasing2)
  moreover have "reports P (on_air s')" using i air reports_mono by (metis mset_subset_eq_add_left)
  moreover have "no_error (hal_log s')" using i n(5) by (auto simp: no_error_def n(2))
  moreover have "mset (F q) = mset (sent q (hal_log s')) + mset (dropped q (hal_log s')) + mset (queued q s')" if "q < 8" for q
    using i n(7) [of q] that by (simp add: n(2))
  ultimately show ?thesis using i n(1,3) air unfolding run_inv_def by (simp add: same_stat_def)
qed

lemma fill_run:
  assumes "run_inv F P s" "can_fill q k s" "0 \<le> tp_AggrNum (TxPriv d)"
  shows "\<exists>s'. hal_fill q k cb d first s = Some s' \<and> run_inv (F(q := F q @ [cb])) P s' \<and>
    status_list s' = status_list s \<and> (if first then Hi_TxAgg s' q = Some k else Hi_TxAgg s' = Hi_TxAgg s)"
proof -
  note i = assms(1) [unfolded run_inv_def]
  have q: "q < 8" and k: "k \<notin># skbs s" using assms(2) by (simp_all add: can_fill_def)
  have h: "hal_inv (on_air s) s" using i by simp
  have "q_elts q 0 s \<noteq> []"
    using assms(2) q_reads(3) [OF hal_invD(1) [OF h q], of 0] by (auto simp: can_fill_def hal_get_priv_cnt_def)
  then obtain s' where s': "hal_fill q k cb d first s = Some s'" "hal_inv (on_air s) s'" "hal_log s' = hal_log s"
    "status_list s' = status_list s" "HalTxFrameDoneCounter s' = HalTxFrameDoneCounter s"
    "queued q s' = queued q s @ [cb]" "\<forall>r. r \<noteq> q \<longrightarrow> queued r s' = queued r s"
    "if first then Hi_TxAgg s' q = Some k else Hi_TxAgg s' = Hi_TxAgg s"
    using hal_fill_inv [OF h q _ k assms(3)] by blast
  have a: "on_air s' = on_air s" by (simp add: on_air_def s'(3))
  have "subseq (sent r (hal_log s) @ queued r s') ((F(q := F q @ [cb])) r)" if "r < 8" for r
    using i s'(6,7) that by (cases "r = q") (auto simp: subseq_append simp flip: append_assoc)
  moreover have "mset ((F(q := F q @ [cb])) r) = mset (sent r (hal_log s)) + mset (dropped r (hal_log s)) + mset (queued r s')" if "r < 8" for r
    using i s'(6,7) that by (cases "r = q") auto
  ultimately have "run_inv (F(q := F q @ [cb])) P s'"
    using i s'(2,5) unfolding run_inv_def a s'(3) by simp
  then show ?thesis using s' by blast
qed

lemma reports_step:
  assumes "reports (st # P) A" "is_frame st" "(ts_callbackid st, cb, q) \<in># A"
  shows "reports P (A - {#(ts_callbackid st, cb, q)#})"
proof -
  have n: "ts_callbackid st' \<noteq> ts_callbackid st" if "st' \<in> set P" "is_frame st'" for st'
    using assms(1,2) that by (simp add: reports_Cons)
  have "ts_callbackid st' \<in># image_mset fst (A - {#(ts_callbackid st, cb, q)#})" if "st' \<in> set P" "is_frame st'" for st'
  proof -
    have "ts_callbackid st' \<in># image_mset fst A" using assms(1) that by (auto simp: reports_def)
    then obtain c r where "(ts_callbackid st', c, r) \<in># A" by force
    then have "(ts_callbackid st', c, r) \<in># A - {#(ts_callbackid st, cb, q)#}"
      using n [OF that] by (simp add: in_diff_count)
    then show ?thesis by force
  qed
  then show ?thesis using reports_Cons [THEN iffD1, OF assms(1)] by (auto simp: reports_def)
qed

lemma txok_one_run:
  assumes "run_inv F (st # P) s"
  shows "\<exists>s'. txok_one st s = Some s' \<and> run_inv F P s' \<and> same_stat s s'"
proof (cases "is_frame st")
  case False
  let ?s = "log_hal (TxNullHandle st) s"
  note i = assms [unfolded run_inv_def]
  have l: "hal_log ?s = hal_log s @ [TxNullHandle st]" by simp
  have a: "on_air ?s = on_air s" by (simp add: on_air_def)
  have "reports P (on_air s)" using i by (simp add: reports_Cons)
  moreover have "no_error (hal_log ?s)" using i by (auto simp: no_error_def)
  moreover have "queued q ?s = queued q s" for q by (simp add: queued_def)
  ultimately have "run_inv F P ?s" using i unfolding run_inv_def a l
    by (simp add: log_hal_inv) (simp add: log_hal_def)
  then show ?thesis using False by (auto simp: txok_one_def is_frame_def)
next
  case True
  note i = assms [unfolded run_inv_def]
  let ?A = "on_air s"
  have h: "hal_inv ?A s" "ts_callbackid st \<in># image_mset fst ?A"
    using i True by (simp_all add: reports_Cons)
  obtain cb q s' where s': "txok_one st s = Some s'" "(ts_callbackid st, cb, q) \<in># ?A"
    "hal_inv (?A - {#(ts_callbackid st, cb, q)#}) s'" "same_stat s s'"
    "hal_log s' = hal_log s @ [TxHandle st cb q]" "\<forall>r. queued r s' = queued r s"
    using txok_one_inv [OF h(1) True h(2)] by blast
  let ?t = "(ts_callbackid st, cb, q)"
  have a: "on_air s' = ?A - {#?t#}" by (simp add: on_air_def s'(5))
  have "add_mset ?t (done_ids (hal_log s)) \<subseteq># sent_ids (hal_log s)"
    using s'(2) i subset_mset.le_diff_conv2 [of "done_ids (hal_log s)" "sent_ids (hal_log s)" "{#?t#}"]
    unfolding on_air_def by simp
  then have "done_ids (hal_log s') \<subseteq># sent_ids (hal_log s')" by (simp add: s'(5))
  moreover have "reports P (on_air s')" unfolding a by (rule reports_step) (use i True s'(2) in auto)
  moreover have "no_error (hal_log s')" using i by (auto simp: no_error_def s'(5))
  ultimately have "run_inv F P s'" using i s'(3,4,6) unfolding run_inv_def a
    by (simp add: s'(5) same_stat_def)
  then show ?thesis using s'(1,4) by blast
qed

lemma run_inv_same:
  assumes "run_inv F P s" "irq_same s s'" "0 \<le> HalTxFrameDoneCounter s'" "HalTxFrameDoneCounter s' < 256"
    "reports P' (on_air s)"
  shows "run_inv F P' s'"
  using assms unfolding run_inv_def irq_same_def on_air_def by simp

lemma txok_loop_run:
  "run_inv F P s \<Longrightarrow> \<exists>s'. txok_loop P s = Some s' \<and> run_inv F [] s' \<and> same_stat s s'"
proof (induction P arbitrary: s)
  case Nil then show ?case by (simp add: same_stat_def)
next
  case (Cons st P)
  obtain t where t: "txok_one st s = Some t" "run_inv F P t" "same_stat s t"
    using txok_one_run [OF Cons.prems] by blast
  let ?t = "t\<lparr>free_nodes := free_nodes t + 1\<rparr>"
  have "irq_same t ?t" by (rule irq_sameI) simp_all
  then have "run_inv F P ?t" using t(2) by (intro run_inv_same [OF t(2)]) (simp_all add: run_inv_def)
  from Cons.IH [OF this] obtain u where "txok_loop P ?t = Some u" "run_inv F [] u" "same_stat ?t u" by blast
  then show ?case using t(1,3) by (auto simp: same_stat_def)
qed

lemma hal_txok_thread_run:
  assumes "run_inv F (status_list s) s"
  shows "\<exists>up s'. hal_txok_thread s = Some (up, s') \<and> run_inv F (status_list s') s' \<and> status_list s' = []"
proof -
  let ?s = "s\<lparr>status_list := []\<rparr>"
  have "irq_same s ?s" by (rule irq_sameI) simp_all
  then have "run_inv F (status_list s) ?s" using assms by (intro run_inv_same [OF assms]) (simp_all add: run_inv_def)
  then obtain t where t: "txok_loop (status_list s) ?s = Some t" "run_inv F [] t" "same_stat ?s t"
    using txok_loop_run by blast
  let ?t = "t\<lparr>tx_up_required := False\<rparr>"
  have "irq_same t ?t" by (rule irq_sameI) simp_all
  then have u: "run_inv F [] ?t" using t(2) by (intro run_inv_same [OF t(2)]) (simp_all add: run_inv_def)
  show ?thesis using t u by (auto simp: hal_txok_thread_def same_stat_def)
qed

lemma fill_first_defined:
  assumes "frame_ok agg" "flag (ha_FLAG agg) WIFI_IS_BLOCKACK \<longrightarrow> 2 \<le> ha_CurrentRate agg"
  shows "\<exists>d. fill_first off pl c agg h data = Some d \<and> 0 \<le> tp_AggrNum (TxPriv d)"
proof -
  let ?p = "(zero_desc data)\<lparr>TxPriv := (TxPriv (zero_desc data))\<lparr>tp_SN := hp_Seqnum h,
    tp_PageNum := u8_of (hal_calc_mpdu_page off pl (hp_MPDULEN h))\<rparr>, MPDUBufFlag := buf_flag 7 h\<rparr>"
  obtain q where q: "hal_tx_desc_build c agg h ?p = Some q" using build_defined [OF assms] by blast
  then have "tp_AggrNum (TxPriv q) = u8_of (ha_MpduNum agg)"
    by (auto simp: hal_tx_desc_build_def build_priv_def Let_def bind_eq_Some_conv split: option.splits if_splits)
  then show ?thesis using q by (simp add: fill_first_def Let_def in_hal_def u8_of_def)
qed

lemma flush_idle:
  assumes "\<forall>q<8. q_ok (txds_trista_fifo s q) \<and> queued q s = []" "set qs \<subseteq> {..<8}"
  shows "flush_queues vid qs i s = Some s"
  using assms(2)
proof (induction qs)
  case (Cons q qs)
  have k: "q_ok (txds_trista_fifo s q)" and e: "waiting q s = []" "ready q s = []"
    using assms(1) Cons.prems by (auto simp: queued_def)
  have "flush_make vid q s = Some s"
    using q_reads(1) [OF k, of 1] e(1) by (subst flush_make.simps) simp
  moreover have "flush_set vid q i [] s = Some (i, [], s)"
    using q_reads(1) [OF k, of 2] e(2) by (subst flush_set.simps) simp
  ultimately show ?case using Cons by simp
qed simp

lemma hal_tx_flush_idle:
  assumes "hal_inv A s" "\<forall>q<8. queued q s = []"
  shows "hal_tx_flush vid s = Some (s\<lparr>bhaltxdrop := False\<rparr>)"
proof -
  let ?s = "s\<lparr>bhaltxdrop := hal_is_empty_tx_id s < 0\<rparr>"
  have "flush_queues vid [0..<8] 0 ?s = Some ?s"
    by (rule flush_idle) (use assms in \<open>auto simp: hal_inv_def queued_def q_elts_def\<close>)
  then show ?thesis by (simp add: hal_tx_flush_def)
qed

lemma hal_do_run:
  assumes "run_inv F (status_list s) s" "hal_allowed op s"
  shows "\<exists>s'. hal_do E op s = Some s' \<and> run_inv (given op F) (status_list s') s'"
proof (cases op)
  case (FillAgg agg h q k cb)
  then have a: "can_fill q k s" "frame_ok agg" "flag (ha_FLAG agg) WIFI_IS_BLOCKACK \<longrightarrow> 2 \<le> ha_CurrentRate agg"
    using assms(2) by simp_all
  obtain d where d: "fill_first (FW_TXDESC_DATAOFFSET E) (tx_page_len E) (hal_mib E) agg h (txdata (tx_pages s k)) = Some d"
    "0 \<le> tp_AggrNum (TxPriv d)"
    using fill_first_defined [OF a(2,3)] by blast
  show ?thesis using fill_run [OF assms(1) a(1) d(2), of cb True] d(1) FillAgg
    by (auto simp: hal_fill_agg_start_def)
next
  case (FillPriv h q k cb)
  then obtain first where a: "can_fill q k s" "Hi_TxAgg s q = Some first" using assms(2) by auto
  let ?d = "fill_sub (FW_TXDESC_DATAOFFSET E) (tx_page_len E) (tx_pages s first) h (txdata (tx_pages s k))"
  have "0 \<le> tp_AggrNum (TxPriv ?d)"
    using assms(1) by (simp add: fill_sub_def hal_tx_desc_build_sub_def in_hal_def Let_def run_inv_def hal_inv_def)
  from fill_run [OF assms(1) a(1) this, of cb False] show ?thesis using a(2) FillPriv
    by (auto simp: hal_fill_priv_def)
next
  case (TxFrame scat)
  have "hal_inv (on_air s) s" using assms(1) by (simp add: run_inv_def)
  then obtain s' where s': "hal_tx_frame (E\<lparr>get_scatreq := scat\<rparr>) s = Some s'" "advances (on_air s) s s'"
    using hal_tx_frame_advances by blast
  then have "status_list s' = status_list s" by (simp add: advances_def same_stat_def)
  then show ?thesis using s' advances_run [OF assms(1)] TxFrame by auto
next
  case (TxIrq dn pages tab)
  note i = assms(1) [unfolded run_inv_def]
  have a: "0 \<le> dn" "dn < 256" "reports (status_list s @ reported dn (HalTxFrameDoneCounter s) tab) (on_air s)"
    using assms(2) TxIrq by simp_all
  obtain s' K where s': "hi_soft_tx_irq dn pages tab s = Some s'"
    "subseq K (reported dn (HalTxFrameDoneCounter s) tab)" "status_list s' = status_list s @ K" "irq_same s s'"
    "HalTxFrameDoneCounter s' = dn"
    using hi_soft_tx_irq_view [OF a(1,2)] i by blast
  have "run_inv F (status_list s') s'"
    by (rule run_inv_same [OF assms(1) s'(4)]) (use s'(3,5) a reports_sub [OF a(3) s'(2)] in auto)
  then show ?thesis using s'(1) TxIrq by simp
next
  case TxokThread
  then show ?thesis using hal_txok_thread_run [OF assms(1)] by auto
next
  case (TxPause p)
  have "irq_same s (hal_txframe_pause p s)" by (rule irq_sameI) (simp_all add: hal_txframe_pause_def)
  then have "run_inv F (status_list s) (hal_txframe_pause p s)"
    by (rule run_inv_same [OF assms(1)]) (use assms(1) in \<open>simp_all add: run_inv_def hal_txframe_pause_def\<close>)
  then show ?thesis using TxPause by (simp add: hal_txframe_pause_def)
next
  case (TxFlush vid)
  have "irq_same s (s\<lparr>bhaltxdrop := False\<rparr>)" by (rule irq_sameI) simp_all
  then have "run_inv F (status_list s) (s\<lparr>bhaltxdrop := False\<rparr>)"
    by (rule run_inv_same [OF assms(1)]) (use assms(1) in \<open>simp_all add: run_inv_def\<close>)
  moreover have "hal_tx_flush vid s = Some (s\<lparr>bhaltxdrop := False\<rparr>)"
    by (rule hal_tx_flush_idle) (use assms TxFlush in \<open>auto simp: run_inv_def\<close>)
  ultimately show ?thesis using TxFlush by simp
qed

section \<open>The start\<close>

text \<open>The hal as it is allocated, before hal_host_init.\<close>

definition hal_zeroed :: "hal_private \<Rightarrow> bool" where
  "hal_zeroed s \<longleftrightarrow> length (tx_frames_map s) = 128 \<and> length (tx_frames s) = 128 \<and> tx_queueid_downloadok s = 0 \<and>
     status_list s = [] \<and> hal_log s = [] \<and> HalTxFrameDoneCounter s = 0 \<and>
     (\<forall>p. 0 \<le> tp_AggrNum (TxPriv (tx_pages s p))) \<and> (\<forall>q<8. length (IdxTab (txds_trista_fifo s q)) = 4)"

lemma init_queues_view:
  assumes "n \<le> 8" "\<forall>q<8. length (IdxTab (txds_trista_fifo s q)) = 4" "0 < esize" "80 * esize < 2 ^ 32"
  shows "\<exists>t. init_queues buf esize n s = Some t \<and> (\<forall>q\<ge>n. txds_trista_fifo t q = txds_trista_fifo s q) \<and>
    (\<forall>q<n. q_ok (txds_trista_fifo t q) \<and> fifo_avail (txds_trista_fifo t q) = (\<lambda>b. if b = 0 then [1..79] else [])) \<and>
    t = s\<lparr>txds_trista_fifo := txds_trista_fifo t\<rparr>"
  using assms(1)
proof (induction n)
  case 0 then show ?case by simp
next
  case (Suc n)
  then obtain t where t: "init_queues buf esize n s = Some t" "\<forall>q\<ge>n. txds_trista_fifo t q = txds_trista_fifo s q"
    "\<forall>q<n. q_ok (txds_trista_fifo t q) \<and> fifo_avail (txds_trista_fifo t q) = (\<lambda>b. if b = 0 then [1..79] else [])"
    "t = s\<lparr>txds_trista_fifo := txds_trista_fifo t\<rparr>"
    by auto
  let ?a = "buf + 80 * int n * esize" and ?f = "txds_trista_fifo t n"
  have l: "length (IdxTab ?f) = 4" using t(2) assms(2) Suc.prems by simp
  then obtain g where g: "CO_SharedFifoInit ?a ?a 80 esize 3 ?f = Some g"
    by (cases "IdxTab ?f") (auto simp: CO_SharedFifoInit_def Let_def)
  note i = init_inv [OF g l _ _ _ assms(3,4), simplified]
  have k: "q_ok g" using i by (simp add: q_ok_def)
  have "upd_queue n g t = s\<lparr>txds_trista_fifo := txds_trista_fifo (upd_queue n g t)\<rparr>"
    by (subst t(4)) (simp add: upd_queue_def)
  then show ?case using t g k i by (intro exI [of _ "upd_queue n g t"]) (auto simp: upd_queue_def less_Suc_eq fun_upd_def)
qed

lemma start_run:
  assumes "hal_zeroed s" "0 < esize" "80 * esize < 2 ^ 32" "hal_tx_init buf esize pages s = Some s0"
  shows "run_inv (\<lambda>_. []) (status_list s0) s0"
proof -
  note z = assms(1) [unfolded hal_zeroed_def]
  obtain t where t: "init_queues buf esize 8 s = Some t"
    "\<forall>q<8. q_ok (txds_trista_fifo t q) \<and> fifo_avail (txds_trista_fifo t q) = (\<lambda>b. if b = 0 then [1..79] else [])"
    "t = s\<lparr>txds_trista_fifo := txds_trista_fifo t\<rparr>"
    using init_queues_view [of 8 s esize buf] z assms(2,3) by auto
  define f where "f = txds_trista_fifo t"
  have t3: "t = s\<lparr>txds_trista_fifo := f\<rparr>" using t(3) by (simp add: f_def)
  have s0: "txds_trista_fifo s0 = f" "tx_pages s0 = tx_pages s" "tx_frames_map s0 = tx_frames_map s"
    "tx_frames s0 = tx_frames s" "hal_log s0 = hal_log s" "status_list s0 = status_list s"
    "HalTxFrameDoneCounter s0 = HalTxFrameDoneCounter s" "tx_queueid_downloadok s0 = tx_queueid_downloadok s"
    using assms(4) t(1) t3 by (auto simp: hal_tx_init_def)
  have e: "q_elts q (Suc 0) s0 = []" "q_elts q 2 s0 = []" if "q < 8" for q
    using t(2) that by (simp_all add: q_elts_def s0 f_def)
  have "skbs s0 = {#}" "ready_ids s0 = {#}" unfolding skbs_def ready_ids_def by (simp_all add: e)
  then have "hal_inv {#} s0" using z t(2) e by (simp add: hal_inv_def s0 f_def ids_ok_def)
  then show ?thesis using z e by (simp add: run_inv_def s0 on_air_def no_error_def reports_def queued_def)
qed

lemma hal_run_inv:
  assumes "hal_zeroed s" "0 < esize" "80 * esize < 2 ^ 32" "hal_tx_init buf esize pages s = Some s0" "hal_run E s0 F s'"
  shows "run_inv F (status_list s') s'"
  using assms(5)
proof induction
  case start then show ?case by (rule start_run [OF assms(1-4)])
next
  case (step F s op s')
  then show ?case using hal_do_run [of F s op E] by auto
qed

lemma priv_cnt_room:
  assumes "run_inv F P s" "q < 8"
  shows "hal_get_priv_cnt q s = Some (79 - int (length (queued q s)))"
proof -
  let ?f = "txds_trista_fifo s q"
  have k: "q_ok ?f" using assms by (simp add: run_inv_def hal_inv_def)
  note f = q_okD [OF k]
  have "n_held ?f 0 = 0" "n_held ?f (Suc 0) = 0" "n_held ?f 2 = 1"
    using length_held [of 0 ?f] length_held [of "Suc 0" ?f] length_held [of 2 ?f] f k by (simp_all add: q_ok_def)
  then have "n_avail ?f 0 + n_avail ?f (Suc 0) + n_avail ?f 2 + 1 = 80"
    using fifo_invD(8) [OF f(1)] f(2) k by (simp add: q_ok_def numeral_3_eq_3 numeral_2_eq_2)
  moreover have "length (q_elts q b s) = n_avail ?f b" if "b < 3" for b
    using that f(2) by (simp add: q_elts_def)
  ultimately show ?thesis using q_reads(3) [OF k, of 0]
    by (simp add: hal_get_priv_cnt_def queued_def)
qed

section \<open>A run\<close>

text \<open>Two frames are filled, one is sent and completed.\<close>

definition hal_new :: hal_private where
  "hal_new = \<lparr>txds_trista_fifo = (\<lambda>_. sf_zero),
     txds_trista_fifo_buf = (\<lambda>_ _. \<lparr>callback = 0, pTxDPape = 0, ampduskb = None, el_txqueueid = 0\<rparr>),
     tx_pages = (\<lambda>_. zero_desc []), Hi_TxAgg = (\<lambda>_. None), tx_frames_map = replicate 128 False,
     tx_frames = replicate 128 \<lparr>tf_callback = 0, tf_valid = False, tf_txqueueid = 0\<rparr>,
     TX_REQ_EVENT_num = (\<lambda>_. 0), TX_DOWNLOAD_OK_EVENT_num = (\<lambda>_. 0), TX_SEND_OK_EVENT_num = (\<lambda>_. 0),
     Tx_Send_num = 0, Tx_Done_num = 0, Tx_Free_num = 0, tx_queueid_downloadok = 0, txPageFreeNum = 0,
     hal_max_mpdu_num = 64, HalTxFrameDoneCounter = 0, HalTxPageDoneCounter = 0, status_list = [],
     free_nodes = 128, bhaltxdrop = False, bhalPowerSave = False, dpd_suspend = False, drv_sleeping = False,
     fw_active = True, tx_up_required = False,
     repcnt = \<lparr>uRepCnt = (\<lambda>_ _. \<lparr>utxPN = one_pn, urxPN = []\<rparr>), mRepCnt = (\<lambda>_. \<lparr>mtxPN = one_pn, mrxPN = one_pn\<rparr>), pn_window = (\<lambda>_ _. (0, 0))\<rparr>, hal_log = []\<rparr>"

definition sample_env :: hal_env where
  "sample_env = \<lparr>aml_bus_usb = False, tx_page_len = 512, FW_TXDESC_DATAOFFSET = 152, HI_TXDESC_DATAOFFSET = 156,
     hal_mib = sample_mib, get_scatreq = (\<lambda>_. True)\<rparr>"

definition single_agg :: hi_agg_tx_desc where
  "single_agg = sample_agg\<lparr>ha_MpduNum := 1, ha_EncryptType := 0, ha_aggr_page_num := 4\<rparr>"

definition sample_ops :: "hal_op list" where
  "sample_ops = [FillAgg single_agg sample_hdr 2 5 77, TxFrame (\<lambda>_. True), FillAgg single_agg sample_hdr 2 6 78,
     TxIrq 1 4 (\<lambda>_. \<lparr>ts_txstatus = 1, ts_callbackid = 0, ts_txretrynum = 0, ts_ack_rssi = 0\<rparr>), TxokThread]"

fun hal_play :: "hal_env \<Rightarrow> hal_op list \<Rightarrow> (nat \<Rightarrow> int list) \<Rightarrow> hal_private \<Rightarrow> ((nat \<Rightarrow> int list) \<times> hal_private) option" where
  "hal_play E [] F s = Some (F, s)"
| "hal_play E (op # ops) F s =
    (if hal_allowed op s then Option.bind (hal_do E op s) (hal_play E ops (given op F)) else None)"

lemma hal_play_run:
  "hal_run E s0 F s \<Longrightarrow> hal_play E ops F s = Some (G, t) \<Longrightarrow> hal_run E s0 G t"
  by (induction ops arbitrary: F s) (auto simp: bind_eq_Some_conv split: if_splits intro: hal_run.step)

definition sample_start :: "hal_private option" where
  "sample_start = hal_tx_init 4096 32 128 hal_new"

definition sample_end :: "nat \<Rightarrow> ((nat \<Rightarrow> int list) \<times> hal_private) option" where
  "sample_end n = Option.bind sample_start (hal_play sample_env (take n sample_ops) (\<lambda>_. []))"

lemma sample_zeroed: "hal_zeroed hal_new"
  by (simp add: hal_zeroed_def hal_new_def sf_zero_def zero_desc_def zero_priv_def)

lemma sample_run:
  assumes "sample_end n = Some (F, t)"
  shows "\<exists>s0. hal_tx_init 4096 32 128 hal_new = Some s0 \<and> hal_run sample_env s0 F t"
  using assms hal_play_run [OF hal_run.start] by (auto simp: sample_end_def sample_start_def bind_eq_Some_conv)

lemma sample_end_3: "map_option (\<lambda>(F, t). (F 2, sent 2 (hal_log t), queued 2 t)) (sample_end 3) = Some ([77, 78], [77], [78])"
  by code_simp

lemma sample_end_4: "map_option (\<lambda>(F, t). length (status_list t)) (sample_end 4) = Some 1"
  by code_simp

lemma sample_end_5: "map_option (\<lambda>(F, t). (done_ids (hal_log t), queued 2 t)) (sample_end 5) = Some ({#(0, 77, 2)#}, [78])"
  by code_simp

section \<open>Properties\<close>

text \<open>C23: whatever the driver, the bus and the firmware do in whatever order, as long as the driver asks
  for room before it fills, the firmware reports each frame on the air once, and no interface is
  flushed while frames are queued, each queue of the hal sends its frames in the order in which they
  were filled: what was sent, followed by what is still queued, is a subsequence of what was filled;
  and every frame filled is accounted for once, as sent, as still queued or as one whose descriptor
  was refused (DropElement).\<close>
theorem hal_frames_in_order:
  assumes "hal_zeroed s" "0 < esize" "80 * esize < 2 ^ 32" "hal_tx_init buf esize pages s = Some s0"
    "hal_run E s0 F t" "q < HAL_NUM_TX_QUEUES"
  shows "subseq (sent q (hal_log t) @ queued q t) (F q) \<and>
    mset (F q) = mset (sent q (hal_log t)) + mset (dropped q (hal_log t)) + mset (queued q t)"
  using hal_run_inv [OF assms(1-5)] assms(6) by (simp add: run_inv_def)

theorem hal_frames_in_order_witness:
  "\<exists>F t. sample_end 3 = Some (F, t) \<and> F 2 = [77, 78] \<and> sent 2 (hal_log t) = [77] \<and>
    subseq (sent 2 (hal_log t) @ queued 2 t) [77, 78]"
proof -
  obtain F t where t: "sample_end 3 = Some (F, t)" "F 2 = [77, 78]" "sent 2 (hal_log t) = [77]"
    using sample_end_3 by auto
  then obtain s0 where "hal_tx_init 4096 32 128 hal_new = Some s0" "hal_run sample_env s0 F t"
    using sample_run by blast
  then show ?thesis using hal_frames_in_order [OF sample_zeroed, of 32 4096 128 s0 sample_env F t 2] t by auto
qed

text \<open>C24: in the same runs, in which the firmware reports each frame on the air once and no interface
  is flushed while frames are queued, the driver gets back for a completed frame the callback and the queue of the frame that was
  sent with the completed id, and gets it back once: the frames returned are among those sent.  The ids
  of the frames on the air and of those ready to be sent are distinct, all in use, and point to their
  callbacks; no completion finds its id free.\<close>
theorem hal_completions_match:
  assumes "hal_zeroed s" "0 < esize" "80 * esize < 2 ^ 32" "hal_tx_init buf esize pages s = Some s0"
    "hal_run E s0 F t"
  shows "done_ids (hal_log t) \<subseteq># sent_ids (hal_log t) \<and> (\<forall>i. FreeError i \<notin> set (hal_log t)) \<and>
    (\<forall>i. count (image_mset fst (ready_ids t + on_air t)) i \<le> 1) \<and>
    (\<forall>(i, cb, q) \<in># ready_ids t + on_air t. tx_frames_map t ! i \<and> tf_callback (tx_frames t ! i) = cb \<and>
       tf_txqueueid (tx_frames t ! i) = q)"
proof -
  have i: "run_inv F (status_list t) t" by (rule hal_run_inv [OF assms])
  then have "ids_ok (ready_ids t + on_air t) t" by (simp add: run_inv_def hal_inv_def)
  note k = this [unfolded ids_ok_def]
  have "\<forall>x \<in># ready_ids t + on_air t. case x of (i, cb, q) \<Rightarrow>
      tx_frames_map t ! i \<and> tf_callback (tx_frames t ! i) = cb \<and> tf_txqueueid (tx_frames t ! i) = q"
    using k by blast
  then show ?thesis using i k by (simp add: run_inv_def no_error_def)
qed

theorem hal_completions_match_witness:
  "\<exists>F t. sample_end 5 = Some (F, t) \<and> done_ids (hal_log t) = {#(0, 77, 2)#} \<and>
    {#(0, 77, 2)#} \<subseteq># sent_ids (hal_log t)"
proof -
  obtain F t where t: "sample_end 5 = Some (F, t)" "done_ids (hal_log t) = {#(0, 77, 2)#}"
    using sample_end_5 by auto
  then obtain s0 where "hal_tx_init 4096 32 128 hal_new = Some s0" "hal_run sample_env s0 F t"
    using sample_run by blast
  then have "done_ids (hal_log t) \<subseteq># sent_ids (hal_log t)"
    using hal_completions_match [OF sample_zeroed, of 32 4096 128 s0 sample_env F t] by simp
  then show ?thesis using t by auto
qed

text \<open>C25: in the same runs, as long as the driver asks for room before it fills, the firmware reports
  each frame on the air once and no interface is flushed while frames are queued, every operation of
  the hal returns, through no null pointer and within its arrays; the room is what 79 frames in the
  queue leave; the thread handles every status.\<close>
theorem hal_operations_return:
  assumes "hal_zeroed s" "0 < esize" "80 * esize < 2 ^ 32" "hal_tx_init buf esize pages s = Some s0"
    "hal_run E s0 F t" "hal_allowed op t"
  shows "\<exists>u. hal_do E op t = Some u \<and> (op = TxokThread \<longrightarrow> status_list u = []) \<and>
    (\<forall>q < HAL_NUM_TX_QUEUES. hal_get_priv_cnt q u =
       Some (79 - int (length (queued q u))))"
proof -
  have i: "run_inv F (status_list t) t" by (rule hal_run_inv [OF assms(1-5)])
  obtain u where u: "hal_do E op t = Some u" "run_inv (given op F) (status_list u) u"
    using hal_do_run [OF i assms(6)] by blast
  moreover have "status_list u = []" if "op = TxokThread"
    using hal_txok_thread_run [OF i] u(1) that by auto
  ultimately show ?thesis using priv_cnt_room [OF u(2)] by blast
qed

theorem hal_operations_return_witness:
  "\<exists>F t u. sample_end 4 = Some (F, t) \<and> length (status_list t) = 1 \<and> hal_do sample_env TxokThread t = Some u \<and> status_list u = []"
proof -
  obtain F t where t: "sample_end 4 = Some (F, t)" "length (status_list t) = 1" using sample_end_4 by auto
  then obtain s0 where "hal_tx_init 4096 32 128 hal_new = Some s0" "hal_run sample_env s0 F t"
    using sample_run by blast
  then obtain u where "hal_do sample_env TxokThread t = Some u" "status_list u = []"
    using hal_operations_return [OF sample_zeroed, of 32 4096 128 s0 sample_env F t TxokThread] by auto
  then show ?thesis using t by blast
qed

end
