(* ===== verification/Amsdu.thy ===== *)
theory Amsdu
  imports Prelude
begin

text \<open>
  wifi_mac_amsdu.c and the receiving half in wifi_mac_recv.c: aggregates of MSDUs.  The sender keeps,
  for every station and traffic class, a list of frames from the network (wifi_mac_amsdu_send) which a
  tasklet moves into a buffer of frames to be sent as one (wifi_mac_amsdu_ex) and encapsulates
  (wifi_mac_amsdu_aggr, wifi_mac_amsdu_encap); the receiver takes an aggregate apart
  (wifi_mac_amsdu_input).  A frame is the list of its bytes and what the skb says of it.  What the
  kernel and the driver answer (allocations, the clock, the length of the queue) is a function of the
  number of questions asked.  None is an access outside an array or through a null pointer.
\<close>

section \<open>Frames on the wire\<close>

abbreviation (input) LLC_SNAPFRAMELEN :: nat where "LLC_SNAPFRAMELEN \<equiv> 8"
abbreviation (input) ETHER_LEN :: nat where "ETHER_LEN \<equiv> 14"

definition roundup4 :: "nat \<Rightarrow> nat" where
  "roundup4 n = (n + 3) div 4 * 4"

text \<open>ether_type, in network order.\<close>

definition ntohs_at :: "nat \<Rightarrow> u8 list \<Rightarrow> nat" where
  "ntohs_at i d = unat (d ! i) * 256 + unat (d ! (i + 1))"

definition htons_bytes :: "nat \<Rightarrow> u8 list" where
  "htons_bytes n = [word_of_nat (n div 256), word_of_nat n]"

definition llc_snap :: "u8 list" where
  "llc_snap = [0xaa, 0xaa, 3, 0, 0, 0]"

text \<open>A frame appended to the aggregate, the first one behind an ethernet header of its own; the bytes
  of the padding are what was in the buffer.\<close>

definition wifi_mac_amsdu_encap :: "(nat \<Rightarrow> u8) \<Rightarrow> u8 list \<Rightarrow> u8 list \<Rightarrow> bool \<Rightarrow> u8 list option" where
  "wifi_mac_amsdu_encap junk buf skb prepend_ether =
    (if length skb < ETHER_LEN then None
     else let buf = (if prepend_ether then take ETHER_LEN skb
                     else buf @ map junk [length buf ..< length buf
                            + (roundup4 (length buf - ETHER_LEN) - (length buf - ETHER_LEN))]);
              payload = word_of_nat (length skb + LLC_SNAPFRAMELEN) :: 16 word;
              msdulen = payload - word_of_nat ETHER_LEN
          in Some (buf @ take (unat payload) (take 12 skb @ htons_bytes (unat msdulen) @ llc_snap @ take 2 (drop 12 skb)
                   @ drop ETHER_LEN skb)))"

definition wifi_mac_amsdu_subframe_decap :: "u8 list \<Rightarrow> u8 list option" where
  "wifi_mac_amsdu_subframe_decap d =
    (if length d < ETHER_LEN + LLC_SNAPFRAMELEN then None
     else Some (take 12 d @ take 2 (drop 20 d) @ drop 22 d))"

text \<open>The frames that an aggregate delivers; what is left over is freed.  ok tells whether the i-th
  skb_clone succeeds: its answer is used unseen.\<close>

function amsdu_loop :: "(nat \<Rightarrow> bool) \<Rightarrow> nat \<Rightarrow> u8 list \<Rightarrow> u8 list list option" where
  "amsdu_loop ok i d =
    (if length d < ETHER_LEN then Some []
     else let l = ntohs_at 12 d; n = l + ETHER_LEN
          in if l < LLC_SNAPFRAMELEN then Some []
             else if length d = n then map_option (\<lambda>f. [f]) (wifi_mac_amsdu_subframe_decap d)
             else if length d < roundup4 n then Some []
             else if \<not> ok i then None
             else case wifi_mac_amsdu_subframe_decap d of None \<Rightarrow> None
               | Some f \<Rightarrow> map_option ((#) (take (n - LLC_SNAPFRAMELEN) f)) (amsdu_loop ok (Suc i) (drop (roundup4 n) d)))"
  by pat_completeness auto

termination amsdu_loop
  by (relation "measure (\<lambda>(ok, i, d). length d)") (auto simp: roundup4_def)

definition wifi_mac_amsdu_input :: "(nat \<Rightarrow> bool) \<Rightarrow> u8 list \<Rightarrow> u8 list list option" where
  "wifi_mac_amsdu_input ok d = amsdu_loop ok 0 (if length d < ETHER_LEN then d else drop ETHER_LEN d)"

section \<open>State of the sender\<close>

abbreviation (input) DEFAULT_TXAMSDU_SUB_MAX :: nat where "DEFAULT_TXAMSDU_SUB_MAX \<equiv> 2"
abbreviation (input) DEFAULT_TXAMSDU_SUB_MAX_BW80 :: nat where "DEFAULT_TXAMSDU_SUB_MAX_BW80 \<equiv> 4"
abbreviation (input) AMSDU_MAX_SUBFRM_LEN :: nat where "AMSDU_MAX_SUBFRM_LEN \<equiv> 2304"
abbreviation (input) AMSDU_BUFFER_HEADROOM :: nat where "AMSDU_BUFFER_HEADROOM \<equiv> 64"
abbreviation (input) AMSDU_MAX_LEN :: nat where "AMSDU_MAX_LEN \<equiv> 4000 - 64"
abbreviation (input) AMSDU_MAX_LEN_BW80 :: nat where "AMSDU_MAX_LEN_BW80 \<equiv> 7935 - 64"
abbreviation (input) AMSDU_MAX_LIVE_TIME :: int where "AMSDU_MAX_LIVE_TIME \<equiv> 10"
abbreviation (input) ETHERTYPE_IP :: nat where "ETHERTYPE_IP \<equiv> 0x0800"
abbreviation (input) MAX_MSDU_CNT :: nat where "MAX_MSDU_CNT \<equiv> (80 + 128 div 16) * 4"
abbreviation (input) WME_NUM_TID :: nat where "WME_NUM_TID \<equiv> 8"

definition AMSDU_SUBFRAME_TOTAL_LEN :: "nat \<Rightarrow> nat" where
  "AMSDU_SUBFRAME_TOTAL_LEN len = roundup4 (len + LLC_SNAPFRAMELEN)"

record mac_pkt_info =
  b_tcp_ack_del :: bool
  tcp_src_port :: int
  tcp_dst_port :: int
  pkt_rest :: nat

text \<open>An skb; the last three fields are set in that of an aggregate.\<close>

record msdu_skb =
  sk_data :: "u8 list"
  sk_sta :: nat
  sk_tid :: nat
  sk_prio :: nat
  sk_ps :: bool
  sk_csum :: bool
  sk_info :: "mac_pkt_info list"
  sk_amsdu :: bool
  sk_amsdunum :: nat

record wifi_mac_amsdu_tx =
  amsdu_tx_buf :: "msdu_skb option"
  b_work :: bool
  amsdunum :: nat
  framelen :: nat
  msdu_list :: "msdu_skb list"
  in_time :: int
  msdu_tmp_buf :: "msdu_skb option list"
  am_vid :: nat

text \<open>wifi_mac_complete_wbuf frees an skb that was copied into an aggregate (Merged) or is given up
  (Dropped); TxStart is the hand-over to the driver, of the frame as wifi_mac_encap gets it.\<close>

datatype amsdu_event =
  TxStart msdu_skb
| Merged msdu_skb
| Dropped msdu_skb
| TaskletSchedule

type_synonym txkey = "nat \<times> nat"

record amsdu_state =
  am_txs :: "txkey \<Rightarrow> wifi_mac_amsdu_tx"
  wm_amsdu_txq :: "txkey list"
  free_amsdu_list :: "msdu_skb list"
  msdu_cnt :: "nat \<Rightarrow> int"
  msdu_free_nodes :: nat
  asked :: nat
  am_log :: "amsdu_event list"

text \<open>What the rest of the system answers.\<close>

record amsdu_env =
  skb_ok :: "nat \<Rightarrow> bool"
  encap_ok :: "nat \<Rightarrow> bool"
  txinfo_ok :: "nat \<Rightarrow> bool"
  jiffies :: "nat \<Rightarrow> int"
  qcnt :: "nat \<Rightarrow> nat"
  junk :: "nat \<Rightarrow> u8"
  live_jiffies :: int
  bw80 :: "nat \<Rightarrow> bool"
  amsdu_max_length :: "nat \<Rightarrow> nat"
  frag_off :: "nat \<Rightarrow> bool"
  mode_ok :: "nat \<Rightarrow> bool"
  has_amsdu :: "nat \<Rightarrow> bool"

definition upd_tx :: "txkey \<Rightarrow> (wifi_mac_amsdu_tx \<Rightarrow> wifi_mac_amsdu_tx) \<Rightarrow> amsdu_state \<Rightarrow> amsdu_state" where
  "upd_tx k f s = s\<lparr>am_txs := (am_txs s)(k := f (am_txs s k))\<rparr>"

definition log_am :: "amsdu_event list \<Rightarrow> amsdu_state \<Rightarrow> amsdu_state" where
  "log_am es s = s\<lparr>am_log := am_log s @ es\<rparr>"

definition ask :: "amsdu_state \<Rightarrow> amsdu_state" where
  "ask s = s\<lparr>asked := asked s + 1\<rparr>"

text \<open>time_after on unsigned longs.\<close>

definition time_after :: "int \<Rightarrow> int \<Rightarrow> bool" where
  "time_after a b \<longleftrightarrow> sint (word_of_int (b - a) :: 64 word) < 0"

definition cnt_minus :: "nat \<Rightarrow> int \<Rightarrow> amsdu_state \<Rightarrow> amsdu_state" where
  "cnt_minus tid n s = s\<lparr>msdu_cnt := (msdu_cnt s)(tid := (if msdu_cnt s tid > n then msdu_cnt s tid - n else 0))\<rparr>"

text \<open>The pool of nodes.\<close>

definition wifi_mac_msdu_node_alloc :: "amsdu_state \<Rightarrow> bool \<times> amsdu_state" where
  "wifi_mac_msdu_node_alloc s =
    (if msdu_free_nodes s = 0 then (False, s) else (True, s\<lparr>msdu_free_nodes := msdu_free_nodes s - 1\<rparr>))"

definition wifi_mac_msdu_node_free :: "amsdu_state \<Rightarrow> amsdu_state" where
  "wifi_mac_msdu_node_free s = s\<lparr>msdu_free_nodes := msdu_free_nodes s + 1\<rparr>"

section \<open>Sending\<close>

definition wifi_mac_amsdu_tx2drvlay :: "amsdu_env \<Rightarrow> txkey \<Rightarrow> amsdu_state \<Rightarrow> amsdu_state option" where
  "wifi_mac_amsdu_tx2drvlay E k s =
    (case amsdu_tx_buf (am_txs s k) of None \<Rightarrow> Some s
     | Some b \<Rightarrow>
         let s = ask (upd_tx k (\<lambda>t. t\<lparr>amsdu_tx_buf := None\<rparr>) s)
         in if \<not> encap_ok E (asked s) then None
            else let s = cnt_minus (sk_tid b) (if sk_amsdu b then int (sk_amsdunum b) else 1) s
                 in Some (if txinfo_ok E (asked s) then log_am [TxStart b] s else log_am [Dropped b] s))"

text \<open>One frame into the aggregate; the array of packet descriptions has two places.\<close>

definition merge_info :: "nat \<Rightarrow> mac_pkt_info list \<Rightarrow> mac_pkt_info list \<Rightarrow> mac_pkt_info list option" where
  "merge_info i infos msdu =
    (case msdu of [] \<Rightarrow> None
     | new # _ \<Rightarrow>
         if i \<ge> DEFAULT_TXAMSDU_SUB_MAX then None
         else let infos = infos @ [new]; first = infos ! 0
              in Some (if i = 0 then infos
                       else if b_tcp_ack_del first \<and> b_tcp_ack_del new \<and> tcp_src_port first = tcp_src_port new
                               \<and> tcp_dst_port first = tcp_dst_port new
                       then infos else infos[0 := first\<lparr>b_tcp_ack_del := False\<rparr>]))"

fun aggr_loop :: "amsdu_env \<Rightarrow> nat \<Rightarrow> msdu_skb option list \<Rightarrow> msdu_skb \<Rightarrow> (msdu_skb \<times> amsdu_event list) option" where
  "aggr_loop E i [] b = Some (b, [])"
| "aggr_loop E i (None # ms) b = None"
| "aggr_loop E i (Some m # ms) b = do {
     d \<leftarrow> wifi_mac_amsdu_encap (junk E) (sk_data b) (sk_data m) (i = 0);
     infos \<leftarrow> merge_info i (sk_info b) (sk_info m);
     let b = b\<lparr>sk_data := d, sk_info := infos, sk_csum := (sk_csum b \<or> i = 0 \<and> sk_csum m)\<rparr>;
     (b, es) \<leftarrow> aggr_loop E (Suc i) ms b;
     Some (b, Merged m # es)
   }"

definition wifi_mac_amsdu_aggr :: "amsdu_env \<Rightarrow> txkey \<Rightarrow> amsdu_state \<Rightarrow> (bool \<times> amsdu_state) option" where
  "wifi_mac_amsdu_aggr E k s =
    (let t = am_txs s k
     in if amsdunum t = 0 then Some (False, s)
        else if length (msdu_tmp_buf t) < amsdunum t then None
        else case msdu_tmp_buf t ! 0 of None \<Rightarrow> None
        | Some m0 \<Rightarrow>
             let s = (case amsdu_tx_buf t of None \<Rightarrow> s | Some b \<Rightarrow> log_am [Dropped b] s);
                 s = ask (upd_tx k (\<lambda>t. t\<lparr>amsdu_tx_buf := None\<rparr>) s)
             in if \<not> skb_ok E (asked s) then Some (False, s)
                else do {
                    (b, es) \<leftarrow> aggr_loop E 0 (take (amsdunum t) (msdu_tmp_buf t))
                      \<lparr>sk_data = [], sk_sta = sk_sta m0, sk_tid = sk_tid m0, sk_prio = sk_prio m0, sk_ps = False,
                       sk_csum = False, sk_info = [], sk_amsdu = True, sk_amsdunum = amsdunum t\<rparr>;
                    Some (True, log_am es (upd_tx k (\<lambda>t. t\<lparr>amsdu_tx_buf := Some b,
                      msdu_tmp_buf := replicate (amsdunum t) None @ drop (amsdunum t) (msdu_tmp_buf t),
                      amsdunum := 0, framelen := 0\<rparr>) s))
                  })"

text \<open>Aggregate what is buffered and hand it to the driver.\<close>

definition aggr_send :: "amsdu_env \<Rightarrow> txkey \<Rightarrow> amsdu_state \<Rightarrow> amsdu_state option" where
  "aggr_send E k s = do {
     (ok, s) \<leftarrow> wifi_mac_amsdu_aggr E k s;
     if ok then wifi_mac_amsdu_tx2drvlay E k s else Some s
   }"

definition wifi_mac_amsdu_check :: "msdu_skb \<Rightarrow> bool" where
  "wifi_mac_amsdu_check m \<longleftrightarrow> sk_ps m \<or> ntohs_at 12 (sk_data m) \<noteq> ETHERTYPE_IP"

definition amsdu_max_len :: "amsdu_env \<Rightarrow> nat \<Rightarrow> nat" where
  "amsdu_max_len E sta = min (min (amsdu_max_length E sta) (if bw80 E sta then AMSDU_MAX_LEN_BW80 else AMSDU_MAX_LEN)) 3212"

definition amsdu_store :: "txkey \<Rightarrow> msdu_skb \<Rightarrow> amsdu_state \<Rightarrow> amsdu_state option" where
  "amsdu_store k m s =
    (let t = am_txs s k
     in if amsdunum t < length (msdu_tmp_buf t)
        then Some (upd_tx k (\<lambda>t. t\<lparr>msdu_tmp_buf := (msdu_tmp_buf t)[amsdunum t := Some m],
               framelen := framelen t + AMSDU_SUBFRAME_TOTAL_LEN (length (sk_data m)), amsdunum := amsdunum t + 1\<rparr>) s)
        else None)"

text \<open>Frames that could not be aggregated for want of memory are dropped from the last on when 8 are
  buffered.\<close>

definition amsdu_exception :: "txkey \<Rightarrow> amsdu_state \<Rightarrow> amsdu_state" where
  "amsdu_exception k s =
    (let t = am_txs s k
     in if amsdunum t \<ge> DEFAULT_TXAMSDU_SUB_MAX_BW80 * 2
        then log_am (concat (map (\<lambda>x. case x of None \<Rightarrow> [] | Some m \<Rightarrow> [Dropped m]) (rev (take (amsdunum t) (msdu_tmp_buf t)))))
               (upd_tx k (\<lambda>t. t\<lparr>amsdunum := 0, framelen := 0\<rparr>) s)
        else s)"

definition wifi_mac_amsdu_ex :: "amsdu_env \<Rightarrow> msdu_skb \<Rightarrow> amsdu_state \<Rightarrow> amsdu_state option" where
  "wifi_mac_amsdu_ex E m s =
    (let k = (sk_sta m, sk_tid m);
         len = AMSDU_SUBFRAME_TOTAL_LEN (length (sk_data m));
         max_len = amsdu_max_len E (sk_sta m);
         s = ask s;
         sub_max = (if qcnt E (asked s) \<le> 4 then DEFAULT_TXAMSDU_SUB_MAX_BW80 div 4 else DEFAULT_TXAMSDU_SUB_MAX_BW80 div 2)
     in if length (sk_data m) < ETHER_LEN then None
        else if len > AMSDU_MAX_SUBFRM_LEN \<or> wifi_mac_amsdu_check m
        then do {
          s \<leftarrow> (if amsdunum (am_txs s k) > 0 then aggr_send E k s else Some s);
          wifi_mac_amsdu_tx2drvlay E k (upd_tx k (\<lambda>t. t\<lparr>amsdu_tx_buf := Some m\<rparr>) s)
        }
        else let s = (if amsdunum (am_txs s k) = 0 then upd_tx k (\<lambda>t. t\<lparr>in_time := jiffies E (asked s)\<rparr>) s else s);
                 s = ask s;
                 t = am_txs s k
             in if len + framelen t + ETHER_LEN \<le> max_len \<and> amsdunum t + 1 \<le> sub_max
                   \<and> \<not> time_after (jiffies E (asked s)) (in_time t + live_jiffies E)
                then do {
                  s \<leftarrow> amsdu_store k m s;
                  let t = am_txs s k;
                  if framelen t + ETHER_LEN = max_len \<or> amsdunum t = sub_max then aggr_send E k s else Some s
                }
                else do {
                  s \<leftarrow> aggr_send E k s;
                  amsdu_store k m (amsdu_exception k s)
                })"

section \<open>The tasklet\<close>

text \<open>The frames of one queue; the lock is given up around each.\<close>

fun drain_msdus :: "amsdu_env \<Rightarrow> txkey \<Rightarrow> msdu_skb list \<Rightarrow> amsdu_state \<Rightarrow> amsdu_state option" where
  "drain_msdus E k [] s = Some s"
| "drain_msdus E k (m # ms) s = do {
     s \<leftarrow> wifi_mac_amsdu_ex E m (upd_tx k (\<lambda>t. t\<lparr>msdu_list := ms\<rparr>) s);
     drain_msdus E k ms (wifi_mac_msdu_node_free s)
   }"

text \<open>Queue after queue, until one keeps frames in its buffer; that one is returned, or the last.\<close>

fun drain_queues :: "amsdu_env \<Rightarrow> txkey list \<Rightarrow> txkey option \<Rightarrow> amsdu_state \<Rightarrow> (txkey option \<times> amsdu_state) option" where
  "drain_queues E [] cur s = Some (cur, s)"
| "drain_queues E (k # ks) cur s = do {
     s \<leftarrow> drain_msdus E k (msdu_list (am_txs s k)) s;
     if amsdunum (am_txs s k) = 0
     then drain_queues E ks (Some k) (upd_tx k (\<lambda>t. t\<lparr>b_work := False\<rparr>) (s\<lparr>wm_amsdu_txq := ks\<rparr>))
     else Some (Some k, s)
   }"

definition free_listed :: "amsdu_state \<Rightarrow> amsdu_state" where
  "free_listed s = log_am (map Dropped (free_amsdu_list s))
     (s\<lparr>free_amsdu_list := [], msdu_free_nodes := msdu_free_nodes s + length (free_amsdu_list s)\<rparr>)"

definition wifi_mac_amsdu_tasklet :: "amsdu_env \<Rightarrow> amsdu_state \<Rightarrow> amsdu_state option" where
  "wifi_mac_amsdu_tasklet E s = do {
     (cur, s) \<leftarrow> drain_queues E (wm_amsdu_txq s) None s;
     let s = free_listed s;
     case cur of None \<Rightarrow> Some s
     | Some k \<Rightarrow>
         let t = am_txs s k; s = ask s
         in if amsdunum t > 0 \<and> time_after (jiffies E (asked s)) (in_time t + live_jiffies E)
            then aggr_send E k s else Some s
   }"

text \<open>Queueing a frame of the network: False when the caller has to send it itself.\<close>

definition wifi_mac_amsdu_send :: "amsdu_env \<Rightarrow> msdu_skb \<Rightarrow> amsdu_state \<Rightarrow> (bool \<times> amsdu_state) option" where
  "wifi_mac_amsdu_send E m s =
    (let k = (sk_sta m, sk_tid m)
     in if \<not> has_amsdu E (sk_sta m) then Some (False, s)
        else if \<not> frag_off E (sk_sta m) \<or> \<not> mode_ok E (sk_sta m) then Some (False, s)
        else case wifi_mac_msdu_node_alloc s of (False, s) \<Rightarrow> Some (False, s)
        | (True, s) \<Rightarrow>
            let s = upd_tx k (\<lambda>t. t\<lparr>msdu_list := msdu_list t @ [m]\<rparr>) s;
                s = s\<lparr>msdu_cnt := (msdu_cnt s)(sk_tid m := msdu_cnt s (sk_tid m) + 1)\<rparr>;
                s = (if b_work (am_txs s k) then s
                     else upd_tx k (\<lambda>t. t\<lparr>b_work := True\<rparr>) (s\<lparr>wm_amsdu_txq := wm_amsdu_txq s @ [k]\<rparr>))
            in if msdu_cnt s (sk_tid m) > 1 then map_option (Pair True) (wifi_mac_amsdu_tasklet E s)
               else Some (True, log_am [TaskletSchedule] s))"

section \<open>Freeing an interface\<close>

text \<open>Interface 3 stands for all.  When the nodes run out the loop at hand is left.\<close>

fun free_tmp :: "txkey \<Rightarrow> nat \<Rightarrow> amsdu_state \<Rightarrow> amsdu_state" where
  "free_tmp k 0 s = s"
| "free_tmp k (Suc n) s =
    (let m = msdu_tmp_buf (am_txs s k) ! n;
         s = upd_tx k (\<lambda>t. t\<lparr>amsdunum := n, msdu_tmp_buf := (msdu_tmp_buf t)[n := None]\<rparr>) s
     in case m of None \<Rightarrow> free_tmp k n s
        | Some m \<Rightarrow> (case wifi_mac_msdu_node_alloc s of (False, s) \<Rightarrow> s
            | (True, s) \<Rightarrow> free_tmp k n (cnt_minus (sk_tid m) 1
                (s\<lparr>free_amsdu_list := free_amsdu_list s @ [m]\<rparr>))))"

fun free_list_msdus :: "txkey \<Rightarrow> msdu_skb list \<Rightarrow> amsdu_state \<Rightarrow> amsdu_state" where
  "free_list_msdus k [] s = s"
| "free_list_msdus k (m # ms) s = free_list_msdus k ms
     (cnt_minus (sk_tid m) 1 (upd_tx k (\<lambda>t. t\<lparr>msdu_list := ms\<rparr>) (s\<lparr>free_amsdu_list := free_amsdu_list s @ [m]\<rparr>)))"

fun free_queues :: "nat \<Rightarrow> txkey list \<Rightarrow> txkey list \<Rightarrow> amsdu_state \<Rightarrow> amsdu_state" where
  "free_queues vid [] keep s = s\<lparr>wm_amsdu_txq := keep\<rparr>"
| "free_queues vid (k # ks) keep s =
    (let t = am_txs s k
     in if am_vid t = vid \<or> vid = 3
        then let s = upd_tx k (\<lambda>t. t\<lparr>b_work := False, amsdu_tx_buf := None\<rparr>) s
             in case amsdu_tx_buf t of
                  None \<Rightarrow> free_queues vid ks keep (free_tmp k (amsdunum t) (free_list_msdus k (msdu_list t) s))
                | Some b \<Rightarrow> (case wifi_mac_msdu_node_alloc s of
                      (False, s) \<Rightarrow> s\<lparr>wm_amsdu_txq := ks @ keep\<rparr>
                    | (True, s) \<Rightarrow> free_queues vid ks keep (free_tmp k (amsdunum t) (free_list_msdus k (msdu_list t)
                        (cnt_minus (sk_tid b) (if sk_amsdu b then int (sk_amsdunum b) else 1)
                          (s\<lparr>free_amsdu_list := free_amsdu_list s @ [b]\<rparr>)))))
        else free_queues vid ks (keep @ [k]) s)"

definition wifi_mac_txamsdu_free_all :: "nat \<Rightarrow> amsdu_state \<Rightarrow> amsdu_state" where
  "wifi_mac_txamsdu_free_all vid s = free_queues vid (wm_amsdu_txq s) [] s"

section \<open>Starting\<close>

definition wifi_mac_msdu_list_init :: "int \<Rightarrow> amsdu_state \<Rightarrow> int \<times> amsdu_state" where
  "wifi_mac_msdu_list_init num s =
    (if num \<le> 0 then (-1, s)
     else let n = min num (int (MAX_MSDU_CNT * WME_NUM_TID)) in (n, s\<lparr>msdu_free_nodes := nat n\<rparr>))"

definition wifi_mac_amsdu_attach :: "amsdu_state \<Rightarrow> amsdu_state" where
  "wifi_mac_amsdu_attach s = snd (wifi_mac_msdu_list_init (int (MAX_MSDU_CNT * WME_NUM_TID))
     (s\<lparr>wm_amsdu_txq := [], free_amsdu_list := [], msdu_cnt := (\<lambda>tid. if tid < WME_NUM_TID then 0 else msdu_cnt s tid)\<rparr>))"

text \<open>The longest aggregate a station takes, from the capabilities, and its empty queues.\<close>

definition amsdu_length_of :: "bool \<Rightarrow> bool \<Rightarrow> bool \<Rightarrow> nat" where
  "amsdu_length_of vht11454 vht7991 htmax =
    (let n = (if vht11454 then min 7935 11451 else if vht7991 then min 7935 7991 else min 7935 3895)
     in if htmax then min n 7935 else min n 3839)"

definition wifi_mac_alloc_amsdu_node :: "nat \<Rightarrow> nat \<Rightarrow> amsdu_state \<Rightarrow> amsdu_state" where
  "wifi_mac_alloc_amsdu_node vid sta s =
    s\<lparr>am_txs := (\<lambda>k. if fst k = sta \<and> snd k < WME_NUM_TID
        then \<lparr>amsdu_tx_buf = None, b_work = False, amsdunum = 0, framelen = 0, msdu_list = [], in_time = 0,
              msdu_tmp_buf = replicate (DEFAULT_TXAMSDU_SUB_MAX_BW80 * 2) None, am_vid = vid\<rparr>
        else am_txs s k)\<rparr>"

end
