(* ===== verification/AmsduWire.thy ===== *)
theory AmsduWire
  imports Amsdu
begin

text \<open>
  The wire format of aggregates of MSDUs: what the sender puts together is described as a list of
  subframes (is_body), from which the receiver gets the frames back, and what the receiver does with
  any bytes that come in.
\<close>

section \<open>The wire format\<close>

lemma roundup4_le: "n \<le> roundup4 n"
  unfolding roundup4_def by linarith

lemma roundup4_add: "4 dvd a \<Longrightarrow> roundup4 (a + n) = a + roundup4 n"
  unfolding roundup4_def by presburger

lemma roundup4_dvd [simp]: "4 dvd roundup4 n"
  by (simp add: roundup4_def)

lemma ntohs_htons: "n < 65536 \<Longrightarrow> length xs = i \<Longrightarrow> ntohs_at i (xs @ htons_bytes n @ ys) = n"
  by (simp add: ntohs_at_def htons_bytes_def nth_append unat_of_nat)

definition subframe :: "u8 list \<Rightarrow> u8 list" where
  "subframe m = take 12 m @ htons_bytes (length m - 6) @ llc_snap @ take 2 (drop 12 m) @ drop 14 m"

definition frame_len_ok :: "u8 list \<Rightarrow> bool" where
  "frame_len_ok m \<longleftrightarrow> 14 \<le> length m \<and> length m \<le> 65527"

lemma length_subframe: "frame_len_ok m \<Longrightarrow> length (subframe m) = length m + 8"
  by (auto simp: subframe_def frame_len_ok_def htons_bytes_def llc_snap_def min_def)

lemma subframe_type:
  assumes "frame_len_ok m"
  shows "ntohs_at 12 (subframe m @ r) = length m - 6"
proof -
  have "length m - 6 < 65536" "length (take 12 m) = 12" using assms by (auto simp: frame_len_ok_def)
  from ntohs_htons [OF this, of "llc_snap @ take 2 (drop 12 m) @ drop 14 m @ r"]
  show ?thesis by (simp add: subframe_def)
qed

lemma take_drop_14: "14 \<le> length m \<Longrightarrow> take 12 m @ take 2 (drop 12 m) @ drop 14 m = m"
  by (metis append_assoc append_take_drop_id drop_drop numeral_plus_numeral semiring_norm(2) semiring_norm(4) add_num_simps take_drop)

lemma decap_subframe:
  assumes "frame_len_ok m"
  shows "wifi_mac_amsdu_subframe_decap (subframe m @ r) = Some (m @ r)"
proof -
  have l: "14 \<le> length m" using assms by (simp add: frame_len_ok_def)
  let ?h = "take 12 m @ htons_bytes (length m - 6) @ llc_snap"
  have h: "length ?h = 20" using l by (simp add: htons_bytes_def llc_snap_def)
  have s: "subframe m @ r = ?h @ take 2 (drop 12 m) @ drop 14 m @ r" by (simp add: subframe_def)
  have "drop 20 (subframe m @ r) = take 2 (drop 12 m) @ drop 14 m @ r" unfolding s using h by simp
  moreover have "drop 22 (subframe m @ r) = drop 2 (drop 20 (subframe m @ r))" by (subst drop_drop) simp
  moreover have "take 12 (subframe m @ r) = take 12 m" using l by (simp add: subframe_def)
  moreover have "length (take 2 (drop 12 m)) = 2" using l by simp
  ultimately have "take 12 (subframe m @ r) @ take 2 (drop 20 (subframe m @ r)) @ drop 22 (subframe m @ r)
      = take 12 m @ take 2 (drop 12 m) @ drop 14 m @ r" by simp
  also have "\<dots> = (take 12 m @ take 2 (drop 12 m) @ drop 14 m) @ r" by simp
  also have "\<dots> = m @ r" using take_drop_14 [OF l] by simp
  finally show ?thesis using length_subframe [OF assms] l by (simp add: wifi_mac_amsdu_subframe_decap_def)
qed

text \<open>The bytes behind the ethernet header of an aggregate of some frames.\<close>

inductive is_body :: "u8 list list \<Rightarrow> u8 list \<Rightarrow> bool" where
  last: "frame_len_ok m \<Longrightarrow> is_body [m] (subframe m)"
| cons: "frame_len_ok m \<Longrightarrow> is_body ms d \<Longrightarrow> length p = roundup4 (length (subframe m)) - length (subframe m) \<Longrightarrow>
     is_body (m # ms) (subframe m @ p @ d)"

lemma is_body_snoc:
  "is_body ms d \<Longrightarrow> frame_len_ok m \<Longrightarrow> length p = roundup4 (length d) - length d \<Longrightarrow>
   is_body (ms @ [m]) (d @ p @ subframe m)"
proof (induction rule: is_body.induct)
  case (last n)
  then show ?case using is_body.cons [OF last(1) is_body.last [of m], of p] by simp
next
  case (cons n ms d q)
  let ?a = "roundup4 (length (subframe n))"
  have a: "length (subframe n @ q @ d) = ?a + length d"
    using cons.hyps(3) roundup4_le [of "length (subframe n)"] by simp
  have "length p = roundup4 (length d) - length d"
    using cons.prems(2) unfolding a by (simp add: roundup4_add)
  then show ?case using is_body.cons [OF cons.hyps(1) cons.IH [OF cons.prems(1)] cons.hyps(3)] by simp
qed

lemma is_body_length: "is_body ms d \<Longrightarrow> 22 \<le> length d \<and> ms \<noteq> []"
  by (induction rule: is_body.induct) (auto simp: length_subframe frame_len_ok_def)

declare amsdu_loop.simps [simp del]

lemma amsdu_loop_body: "is_body ms d \<Longrightarrow> amsdu_loop (\<lambda>_. True) i d = Some ms"
proof (induction arbitrary: i rule: is_body.induct)
  case (last m)
  then have "8 \<le> length m - 6" "length m - 6 + 14 = length m + 8" by (auto simp: frame_len_ok_def)
  then show ?case using last subframe_type [of m "[]"] decap_subframe [of m "[]"] length_subframe [of m]
    by (subst amsdu_loop.simps) (simp add: Let_def frame_len_ok_def)
next
  case (cons m ms d p)
  let ?n = "length m - 6 + 14"
  define D where "D = subframe m @ p @ d"
  have m: "14 \<le> length m" using cons.hyps(1) by (simp add: frame_len_ok_def)
  then have n: "length (subframe m) = ?n" "?n - 8 = length m" "\<not> length m - 6 < 8"
    using length_subframe [OF cons.hyps(1)] by simp_all
  have t: "ntohs_at 12 D = length m - 6" and dec: "wifi_mac_amsdu_subframe_decap D = Some (m @ p @ d)"
    unfolding D_def by (rule subframe_type [OF cons.hyps(1)], rule decap_subframe [OF cons.hyps(1)])
  have sp: "length (subframe m @ p) = roundup4 ?n"
    using cons.hyps(3) roundup4_le [of ?n] unfolding length_append n(1) by linarith
  have dr: "drop (roundup4 ?n) D = d" unfolding D_def sp [symmetric] append_assoc [symmetric] by simp
  have "length D = roundup4 ?n + length d" unfolding D_def sp [symmetric] by simp
  then have big: "length D \<noteq> ?n" "\<not> length D < roundup4 ?n" "\<not> length D < 14"
    using is_body_length [OF cons.hyps(2)] roundup4_le [of ?n] by linarith+
  show ?case unfolding D_def [symmetric]
    by (subst amsdu_loop.simps) (simp only: Let_def t big dr cons.IH dec n not_True_eq_False if_False option.case option.map take_append diff_self_eq_0 take_0 append_Nil append_Nil2 take_all order_refl diff_0_eq_0)
qed

lemma payload_subframe:
  assumes "frame_len_ok m"
  shows "take (unat (word_of_nat (length m + 8) :: 16 word)) (take 12 m @
      htons_bytes (unat ((word_of_nat (length m + 8) :: 16 word) - word_of_nat 14)) @ llc_snap @ take 2 (drop 12 m) @ drop 14 m) = subframe m"
proof -
  have 1: "unat (word_of_nat (length m + 8) :: 16 word) = length m + 8"
    using assms by (simp add: frame_len_ok_def unat_of_nat del: of_nat_add)
  have "(word_of_nat (length m + 8) :: 16 word) - word_of_nat 14 = word_of_nat (length m + 8 - 14)"
    using assms of_nat_diff [of 14 "length m + 8", where 'a = "16 word"] by (simp add: frame_len_ok_def)
  moreover have "unat (word_of_nat (length m + 8 - 14) :: 16 word) = length m + 8 - 14"
    unfolding unat_of_nat using assms by (intro mod_less) (auto simp: frame_len_ok_def)
  ultimately have 2: "unat ((word_of_nat (length m + 8) :: 16 word) - word_of_nat 14) = length m - 6"
    by simp
  show ?thesis unfolding 1 2 using length_subframe [OF assms] by (simp add: subframe_def [symmetric])
qed

lemma encap_first:
  assumes "frame_len_ok m"
  shows "wifi_mac_amsdu_encap jk buf m True = Some (take 14 m @ subframe m)"
proof -
  have "\<not> length m < 14" using assms by (simp add: frame_len_ok_def)
  then show ?thesis unfolding wifi_mac_amsdu_encap_def Let_def payload_subframe [OF assms] by (simp only: if_False if_True)
qed

lemma encap_next:
  assumes "frame_len_ok m"
  shows "\<exists>p. length p = roundup4 (length buf - 14) - (length buf - 14) \<and>
    wifi_mac_amsdu_encap jk buf m False = Some (buf @ p @ subframe m)"
proof (intro exI conjI)
  let ?p = "map jk [length buf ..< length buf + (roundup4 (length buf - 14) - (length buf - 14))]"
  have "\<not> length m < 14" using assms by (simp add: frame_len_ok_def)
  then show "wifi_mac_amsdu_encap jk buf m False = Some (buf @ ?p @ subframe m)"
    unfolding wifi_mac_amsdu_encap_def Let_def payload_subframe [OF assms] by (simp only: if_False append_assoc)
qed simp

text \<open>An aggregate of a list of frames.\<close>

fun amsdu_build :: "(nat \<Rightarrow> u8) \<Rightarrow> u8 list \<Rightarrow> bool \<Rightarrow> u8 list list \<Rightarrow> u8 list option" where
  "amsdu_build jk buf first [] = Some buf"
| "amsdu_build jk buf first (m # ms) =
    Option.bind (wifi_mac_amsdu_encap jk buf m first) (\<lambda>d. amsdu_build jk d False ms)"

lemma amsdu_build_next:
  assumes "is_body ms d" "length h = 14" "\<forall>m\<in>set ns. frame_len_ok m"
  shows "\<exists>e. amsdu_build jk (h @ d) False ns = Some (h @ e) \<and> is_body (ms @ ns) e"
  using assms(1,3)
proof (induction ns arbitrary: ms d)
  case Nil then show ?case by simp
next
  case (Cons n ns)
  obtain p where p: "length p = roundup4 (length d) - length d"
    "wifi_mac_amsdu_encap jk (h @ d) n False = Some (h @ d @ p @ subframe n)"
    using encap_next [of n "h @ d" jk] Cons.prems(2) assms(2) by auto
  have "is_body (ms @ [n]) (d @ p @ subframe n)" by (rule is_body_snoc [OF Cons.prems(1) _ p(1)]) (use Cons.prems(2) in simp)
  then show ?case using Cons.IH [of "ms @ [n]"] Cons.prems(2) p(2) by auto
qed

lemma amsdu_build_body:
  assumes "ms \<noteq> []" "\<forall>m\<in>set ms. frame_len_ok m"
  shows "\<exists>e. amsdu_build jk [] True ms = Some (take 14 (hd ms) @ e) \<and> is_body ms e"
proof (cases ms)
  case (Cons m ns)
  then have m: "frame_len_ok m" using assms(2) by simp
  then have "length (take 14 m) = 14" by (simp add: frame_len_ok_def)
  then show ?thesis using amsdu_build_next [OF is_body.last [OF m], of "take 14 m" ns jk] encap_first [OF m, of jk] Cons assms(2)
    by simp
qed (use assms in simp)

lemma input_body:
  assumes "is_body ms e" "length h = 14"
  shows "wifi_mac_amsdu_input (\<lambda>_. True) (h @ e) = Some ms"
  using amsdu_loop_body [OF assms(1)] assms(2) by (simp add: wifi_mac_amsdu_input_def)

section \<open>Any frame\<close>

lemma decap_length:
  "22 \<le> length d \<Longrightarrow> \<exists>f. wifi_mac_amsdu_subframe_decap d = Some f \<and> length f = length d - 8"
  by (auto simp: wifi_mac_amsdu_subframe_decap_def)

lemma amsdu_loop_safe:
  "\<exists>fs. amsdu_loop (\<lambda>_. True) i d = Some fs \<and> (\<forall>f\<in>set fs. 14 \<le> length f) \<and> (\<Sum>f\<leftarrow>fs. length f + 8) \<le> length d"
proof (induction d arbitrary: i rule: measure_induct_rule [where f = length])
  case (less d)
  let ?l = "ntohs_at 12 d" let ?n = "?l + 14"
  consider "length d < 14" | "14 \<le> length d" "?l < 8" | "14 \<le> length d" "8 \<le> ?l" "length d = ?n"
    | "14 \<le> length d" "8 \<le> ?l" "length d \<noteq> ?n" "length d < roundup4 ?n"
    | "14 \<le> length d" "8 \<le> ?l" "length d \<noteq> ?n" "roundup4 ?n \<le> length d" by linarith
  then show ?case
  proof cases
    case 3
    then show ?thesis using decap_length [of d] by (subst amsdu_loop.simps) auto
  next
    case 5
    have n: "?n \<le> roundup4 ?n" by (rule roundup4_le)
    obtain f where f: "wifi_mac_amsdu_subframe_decap d = Some f" "length f = length d - 8"
      using decap_length [of d] 5 n by auto
    have "length (drop (roundup4 ?n) d) < length d" using 5 n by simp
    from less [OF this, of "Suc i"] obtain fs where fs: "amsdu_loop (\<lambda>_. True) (Suc i) (drop (roundup4 ?n) d) = Some fs" "\<forall>f\<in>set fs. 14 \<le> length f"
      "(\<Sum>f\<leftarrow>fs. length f + 8) \<le> length d - roundup4 ?n"
      unfolding length_drop by blast
    have "length (take (?n - 8) f) = ?n - 8" using f(2) 5 n by simp
    then show ?thesis using 5 f fs n by (subst amsdu_loop.simps) (auto simp: Let_def)
  qed (subst amsdu_loop.simps, simp add: Let_def)+
qed

end
