(* ===== verification/AmsduInv.thy ===== *)
theory AmsduInv
  imports AmsduWire
begin

text \<open>
  The sender of aggregates of MSDUs, operation by operation: what a frame does to its own queue and
  that it leaves the others alone, for the hand-over, the aggregation, wifi_mac_amsdu_ex and the
  tasklet.
\<close>

section \<open>The queues of the sender\<close>

text \<open>The frames that leave in an event, as the receiver will see them, and those of one queue in a
  log: an aggregate is handed to the driver, or freed when wifi_mac_build_txinfo refuses it.\<close>

definition frames_of :: "msdu_skb \<Rightarrow> u8 list list" where
  "frames_of b = (if sk_amsdu b then the (wifi_mac_amsdu_input (\<lambda>_. True) (sk_data b)) else [sk_data b])"

fun passed_frames :: "txkey \<Rightarrow> amsdu_event \<Rightarrow> u8 list list" where
  "passed_frames k (TxStart b) = (if (sk_sta b, sk_tid b) = k then frames_of b else [])"
| "passed_frames k (Dropped b) = (if (sk_sta b, sk_tid b) = k then frames_of b else [])"
| "passed_frames k (Merged b) = []"
| "passed_frames k TaskletSchedule = []"

definition passed :: "txkey \<Rightarrow> amsdu_event list \<Rightarrow> u8 list list" where
  "passed k es = concat (map (passed_frames k) es)"

definition buffered :: "wifi_mac_amsdu_tx \<Rightarrow> u8 list list" where
  "buffered t = map (\<lambda>x. sk_data (the x)) (take (amsdunum t) (msdu_tmp_buf t))"

definition gone :: "txkey \<Rightarrow> amsdu_state \<Rightarrow> u8 list list" where
  "gone k s = passed k (am_log s) @ buffered (am_txs s k)"

definition total :: "txkey \<Rightarrow> amsdu_state \<Rightarrow> u8 list list" where
  "total k s = gone k s @ map sk_data (msdu_list (am_txs s k))"

text \<open>What the network may pass down, an aggregate within its limits and one freed only where
  wifi_mac_build_txinfo may fail, and a queue between two frames.\<close>

definition msdu_ok :: "msdu_skb \<Rightarrow> bool" where
  "msdu_ok m \<longleftrightarrow> frame_len_ok (sk_data m) \<and> sk_info m \<noteq> [] \<and> \<not> sk_amsdu m"

fun event_ok :: "amsdu_env \<Rightarrow> amsdu_event \<Rightarrow> bool" where
  "event_ok E (TxStart b) \<longleftrightarrow> sk_amsdu b \<longrightarrow>
     sk_amsdunum b = length (frames_of b) \<and> length (frames_of b) \<in> {1, 2} \<and> length (sk_info b) = length (frames_of b) \<and>
     length (sk_data b) \<le> (if length (frames_of b) = 1 then 2318 else amsdu_max_len E (sk_sta b))"
| "event_ok E (Dropped b) \<longleftrightarrow> \<not> (\<forall>i. txinfo_ok E i)"
| "event_ok E _ \<longleftrightarrow> True"

definition held_ok :: "txkey \<Rightarrow> msdu_skb option \<Rightarrow> bool" where
  "held_ok k x \<longleftrightarrow> (\<exists>m. x = Some m \<and> msdu_ok m \<and> (sk_sta m, sk_tid m) = k)"

definition tx_ok :: "txkey \<Rightarrow> wifi_mac_amsdu_tx \<Rightarrow> bool" where
  "tx_ok k t \<longleftrightarrow> amsdu_tx_buf t = None \<and> amsdunum t \<le> 1 \<and> length (msdu_tmp_buf t) = 8 \<and>
     (\<forall>x\<in>set (take (amsdunum t) (msdu_tmp_buf t)). held_ok k x) \<and>
     framelen t = (\<Sum>d\<leftarrow>buffered t. AMSDU_SUBFRAME_TOTAL_LEN (length d)) \<and> framelen t \<le> 2304 \<and>
     (\<forall>m\<in>set (msdu_list t). msdu_ok m \<and> (sk_sta m, sk_tid m) = k)"

text \<open>What one frame leaves alone: the other queues, and of its own the frames that wait.\<close>

definition log_ok :: "amsdu_env \<Rightarrow> amsdu_state \<Rightarrow> bool" where
  "log_ok E s \<longleftrightarrow> (\<forall>e\<in>set (am_log s). event_ok E e)"

definition leaves :: "amsdu_env \<Rightarrow> txkey \<Rightarrow> amsdu_state \<Rightarrow> amsdu_state \<Rightarrow> bool" where
  "leaves E k s s' \<longleftrightarrow> (\<forall>k'. k' \<noteq> k \<longrightarrow> am_txs s' k' = am_txs s k' \<and> gone k' s' = gone k' s) \<and>
     wm_amsdu_txq s' = wm_amsdu_txq s \<and> free_amsdu_list s' = free_amsdu_list s \<and>
     b_work (am_txs s' k) = b_work (am_txs s k) \<and> msdu_list (am_txs s' k) = msdu_list (am_txs s k) \<and>
     (log_ok E s \<longrightarrow> log_ok E s')"

lemma leaves_trans: "leaves E k s s' \<Longrightarrow> leaves E k s' s'' \<Longrightarrow> leaves E k s s''"
  by (simp add: leaves_def)

lemma passed_append [simp]: "passed k (xs @ ys) = passed k xs @ passed k ys"
  by (simp add: passed_def)

lemma passed_merged [simp]: "passed k (map Merged ms) = []"
  by (induction ms) (simp_all add: passed_def)

lemma upd_tx_simps [simp]:
  "am_txs (upd_tx k f s) k' = (if k' = k then f (am_txs s k) else am_txs s k')"
  "wm_amsdu_txq (upd_tx k f s) = wm_amsdu_txq s" "free_amsdu_list (upd_tx k f s) = free_amsdu_list s"
  "am_log (upd_tx k f s) = am_log s" "asked (upd_tx k f s) = asked s" "msdu_cnt (upd_tx k f s) = msdu_cnt s"
  by (simp_all add: upd_tx_def)

lemma log_am_simps [simp]:
  "am_txs (log_am es s) = am_txs s" "wm_amsdu_txq (log_am es s) = wm_amsdu_txq s"
  "free_amsdu_list (log_am es s) = free_amsdu_list s" "am_log (log_am es s) = am_log s @ es" "asked (log_am es s) = asked s"
  by (simp_all add: log_am_def)

lemma ask_simps [simp]:
  "am_txs (ask s) = am_txs s" "wm_amsdu_txq (ask s) = wm_amsdu_txq s"
  "free_amsdu_list (ask s) = free_amsdu_list s" "am_log (ask s) = am_log s"
  by (simp_all add: ask_def)

lemma cnt_minus_simps [simp]:
  "am_txs (cnt_minus tid n s) = am_txs s" "wm_amsdu_txq (cnt_minus tid n s) = wm_amsdu_txq s"
  "free_amsdu_list (cnt_minus tid n s) = free_amsdu_list s" "am_log (cnt_minus tid n s) = am_log s" "asked (cnt_minus tid n s) = asked s"
  by (simp_all add: cnt_minus_def)

subsection \<open>Building and handing over\<close>

lemma merge_info_ok:
  "length infos = i \<Longrightarrow> i < 2 \<Longrightarrow> new \<noteq> [] \<Longrightarrow> \<exists>r. merge_info i infos new = Some r \<and> length r = Suc i"
  by (cases new) (auto simp: merge_info_def Let_def)

lemma aggr_loop_ok:
  assumes "\<forall>m\<in>set ms. msdu_ok m" "length (sk_info b) = i" "i + length ms \<le> 2"
    "amsdu_build (junk E) (sk_data b) (i = 0) (map sk_data ms) = Some d"
  shows "\<exists>b'. aggr_loop E i (map Some ms) b = Some (b', map Merged ms) \<and> sk_data b' = d \<and>
    length (sk_info b') = i + length ms \<and> sk_sta b' = sk_sta b \<and> sk_tid b' = sk_tid b \<and>
    sk_amsdu b' = sk_amsdu b \<and> sk_amsdunum b' = sk_amsdunum b"
  using assms
proof (induction ms arbitrary: i b)
  case Nil then show ?case by simp
next
  case (Cons m ms)
  obtain e where e: "wifi_mac_amsdu_encap (junk E) (sk_data b) (sk_data m) (i = 0) = Some e"
    "amsdu_build (junk E) e False (map sk_data ms) = Some d"
    using Cons.prems(4) by (auto simp: bind_eq_Some_conv)
  obtain r where r: "merge_info i (sk_info b) (sk_info m) = Some r" "length r = Suc i"
    using merge_info_ok [of "sk_info b" i "sk_info m"] Cons.prems(1-3) by (auto simp: msdu_ok_def)
  let ?b = "b\<lparr>sk_data := e, sk_info := r, sk_csum := (sk_csum b \<or> i = 0 \<and> sk_csum m)\<rparr>"
  obtain b' where b': "aggr_loop E (Suc i) (map Some ms) ?b = Some (b', map Merged ms)" "sk_data b' = d"
    "length (sk_info b') = Suc i + length ms" "sk_sta b' = sk_sta b" "sk_tid b' = sk_tid b"
    "sk_amsdu b' = sk_amsdu b" "sk_amsdunum b' = sk_amsdunum b"
    using Cons.IH [of ?b "Suc i"] Cons.prems e(2) r(2) by auto
  then show ?case using e r by (auto simp: Let_def)
qed

lemma is_body_sum: "is_body ms d \<Longrightarrow> length d \<le> (\<Sum>m\<leftarrow>ms. AMSDU_SUBFRAME_TOTAL_LEN (length m))"
proof (induction rule: is_body.induct)
  case (last m)
  then show ?case using roundup4_le [of "length m + 8"] by (simp add: length_subframe AMSDU_SUBFRAME_TOTAL_LEN_def)
next
  case (cons m ms d p)
  then show ?case using roundup4_le [of "length m + 8"] by (simp add: length_subframe AMSDU_SUBFRAME_TOTAL_LEN_def)
qed

lemma buffered_frames:
  assumes "\<forall>x\<in>set (take n tmp). held_ok k x"
  shows "\<exists>ms. take n tmp = map Some ms \<and> (\<forall>m\<in>set ms. msdu_ok m \<and> (sk_sta m, sk_tid m) = k)"
proof (intro exI conjI ballI)
  let ?ms = "map the (take n tmp)"
  show "take n tmp = map Some ?ms" using assms by (intro nth_equalityI) (auto simp: held_ok_def set_conv_nth)
  show "msdu_ok m" "(sk_sta m, sk_tid m) = k" if "m \<in> set ?ms" for m
    using that assms by (auto simp: held_ok_def)
qed

text \<open>A queue whose buffer may be aggregated.\<close>

definition mid_ok :: "amsdu_env \<Rightarrow> txkey \<Rightarrow> wifi_mac_amsdu_tx \<Rightarrow> bool" where
  "mid_ok E k t \<longleftrightarrow> amsdu_tx_buf t = None \<and> amsdunum t \<le> 2 \<and> length (msdu_tmp_buf t) = 8 \<and>
     (\<forall>x\<in>set (take (amsdunum t) (msdu_tmp_buf t)). held_ok k x) \<and>
     framelen t = (\<Sum>d\<leftarrow>buffered t. AMSDU_SUBFRAME_TOTAL_LEN (length d)) \<and>
     (amsdunum t \<le> 1 \<longrightarrow> framelen t \<le> 2304) \<and> (amsdunum t = 2 \<longrightarrow> framelen t + 14 \<le> amsdu_max_len E (fst k)) \<and>
     (\<forall>m\<in>set (msdu_list t). msdu_ok m \<and> (sk_sta m, sk_tid m) = k)"

lemma tx_ok_mid: "tx_ok k t \<Longrightarrow> mid_ok E k t"
  by (auto simp: tx_ok_def mid_ok_def)

abbreviation emptied :: "msdu_skb option \<Rightarrow> wifi_mac_amsdu_tx \<Rightarrow> wifi_mac_amsdu_tx" where
  "emptied x t \<equiv> t\<lparr>amsdu_tx_buf := x, msdu_tmp_buf := replicate (amsdunum t) None @ drop (amsdunum t) (msdu_tmp_buf t),
     amsdunum := 0, framelen := 0\<rparr>"

lemma emptied_ok: "mid_ok E k t \<Longrightarrow> tx_ok k (emptied None t)"
  by (auto simp: mid_ok_def tx_ok_def buffered_def)

lemma aggr_send_empty: "mid_ok E k (am_txs s k) \<Longrightarrow> amsdunum (am_txs s k) = 0 \<Longrightarrow> aggr_send E k s = Some s"
  by (simp add: aggr_send_def wifi_mac_amsdu_aggr_def Let_def)

text \<open>The aggregate of the buffered frames.\<close>

definition aggregate_of :: "amsdu_env \<Rightarrow> txkey \<Rightarrow> u8 list list \<Rightarrow> msdu_skb \<Rightarrow> bool" where
  "aggregate_of E k ds b \<longleftrightarrow> sk_amsdu b \<and> (sk_sta b, sk_tid b) = k \<and> frames_of b = ds \<and> event_ok E (TxStart b)"

lemma wifi_mac_amsdu_aggr_ok:
  assumes ok: "mid_ok E k (am_txs s k)" and n: "amsdunum (am_txs s k) \<noteq> 0" and skb: "skb_ok E (Suc (asked s))"
  shows "\<exists>b ms. aggregate_of E k (buffered (am_txs s k)) b \<and>
    wifi_mac_amsdu_aggr E k s = Some (True, log_am (map Merged ms) (upd_tx k (emptied (Some b)) (ask s)))"
proof -
  let ?t = "am_txs s k" let ?n = "amsdunum ?t"
  note o = ok [unfolded mid_ok_def]
  obtain ms where ms: "take ?n (msdu_tmp_buf ?t) = map Some ms" "\<forall>m\<in>set ms. msdu_ok m \<and> (sk_sta m, sk_tid m) = k"
    using buffered_frames o by blast
  have len: "length ms = ?n" using arg_cong [OF ms(1), of length] o by simp
  have buf: "buffered ?t = map sk_data ms" by (simp add: buffered_def ms(1))
  have ne: "ms \<noteq> []" using len n by auto
  have "msdu_tmp_buf ?t ! 0 = take ?n (msdu_tmp_buf ?t) ! 0" using n by simp
  also have "\<dots> = Some (hd ms)" using ne by (simp add: ms(1) hd_conv_nth)
  finally obtain m0 where m0: "msdu_tmp_buf ?t ! 0 = Some m0" "m0 \<in> set ms" using ne by simp
  have fl: "\<forall>d\<in>set (map sk_data ms). frame_len_ok d" using ms(2) by (auto simp: msdu_ok_def)
  let ?b0 = "\<lparr>sk_data = [], sk_sta = sk_sta m0, sk_tid = sk_tid m0, sk_prio = sk_prio m0, sk_ps = False,
             sk_csum = False, sk_info = [], sk_amsdu = True, sk_amsdunum = ?n\<rparr>"
  have ne': "map sk_data ms \<noteq> []" using ne by simp
  obtain e where e: "amsdu_build (junk E) [] True (map sk_data ms) = Some (take 14 (hd (map sk_data ms)) @ e)"
    "is_body (map sk_data ms) e" using amsdu_build_body [OF ne' fl] by blast
  have h: "length (take 14 (hd (map sk_data ms))) = 14" using fl ne by (cases ms) (auto simp: frame_len_ok_def)
  have l2: "length ms \<le> 2" using len o by simp
  obtain b where b: "aggr_loop E 0 (map Some ms) ?b0 = Some (b, map Merged ms)"
    "sk_data b = take 14 (hd (map sk_data ms)) @ e" "length (sk_info b) = length ms" "sk_sta b = sk_sta m0" "sk_tid b = sk_tid m0"
    "sk_amsdu b" "sk_amsdunum b = ?n"
    using aggr_loop_ok [of ms ?b0 0 E "take 14 (hd (map sk_data ms)) @ e"] ms(2) l2 e(1) by auto
  have fr: "frames_of b = map sk_data ms" using input_body [OF e(2) h] b by (simp add: frames_of_def)
  have k: "(sk_sta b, sk_tid b) = k" using b ms(2) m0(2) by simp
  have "length (sk_data b) \<le> 14 + framelen ?t" using is_body_sum [OF e(2)] o h b(2) by (simp add: buf)
  moreover have "?n = 1 \<and> framelen ?t \<le> 2304 \<or> ?n = 2 \<and> framelen ?t + 14 \<le> amsdu_max_len E (fst k)"
    using o n by linarith
  moreover have "sk_sta b = fst k" using k by auto
  ultimately have "event_ok E (TxStart b)" using fr b(3,7) len by auto
  then have ag: "aggregate_of E k (buffered ?t) b" using fr k b(6) by (simp add: aggregate_of_def buf)
  have o': "amsdu_tx_buf ?t = None" "\<not> length (msdu_tmp_buf ?t) < ?n" using o by simp_all
  have "wifi_mac_amsdu_aggr E k s = Some (True, log_am (map Merged ms) (upd_tx k (emptied (Some b)) (ask s)))"
    unfolding wifi_mac_amsdu_aggr_def Let_def using n o' m0(1) skb
    by (simp add: ms(1) b(1)) (simp add: ask_def upd_tx_def log_am_def)
  then show ?thesis using ag by blast
qed


lemma tx2drvlay_ok:
  assumes "amsdu_tx_buf (am_txs s k) = Some b" "(sk_sta b, sk_tid b) = k" "encap_ok E (Suc (asked s))" "event_ok E (TxStart b)"
  shows "\<exists>s'. wifi_mac_amsdu_tx2drvlay E k s = Some s' \<and> leaves E k s s' \<and>
    am_txs s' k = (am_txs s k)\<lparr>amsdu_tx_buf := None\<rparr> \<and> passed k (am_log s') = passed k (am_log s) @ frames_of b"
proof -
  have 1: "passed k [TxStart b] = frames_of b" "passed k [Dropped b] = frames_of b"
    "k' \<noteq> k \<Longrightarrow> passed k' [TxStart b] = []" "k' \<noteq> k \<Longrightarrow> passed k' [Dropped b] = []" for k'
    using assms(2) by (auto simp: passed_def)
  show ?thesis using assms
    by (auto simp: wifi_mac_amsdu_tx2drvlay_def Let_def leaves_def gone_def 1 log_ok_def simp: ask_def)
qed

lemma aggr_send_ok:
  assumes ok: "mid_ok E k (am_txs s k)" and en: "\<forall>i. skb_ok E i" "\<forall>i. encap_ok E i"
  shows "\<exists>s'. aggr_send E k s = Some s' \<and> leaves E k s s' \<and> tx_ok k (am_txs s' k) \<and> amsdunum (am_txs s' k) = 0 \<and>
    gone k s' = gone k s"
proof (cases "amsdunum (am_txs s k) = 0")
  case True
  then show ?thesis using aggr_send_empty [OF ok True] ok by (auto simp: leaves_def tx_ok_def mid_ok_def)
next
  case False
  obtain b ms where b: "aggregate_of E k (buffered (am_txs s k)) b"
    "wifi_mac_amsdu_aggr E k s = Some (True, log_am (map Merged ms) (upd_tx k (emptied (Some b)) (ask s)))"
    using wifi_mac_amsdu_aggr_ok [OF ok False] en(1) by blast
  let ?s = "log_am (map Merged ms) (upd_tx k (emptied (Some b)) (ask s))"
  have "leaves E k s ?s" by (auto simp: leaves_def gone_def log_ok_def)
  moreover obtain s' where s': "wifi_mac_amsdu_tx2drvlay E k ?s = Some s'" "leaves E k ?s s'"
    "am_txs s' k = (am_txs ?s k)\<lparr>amsdu_tx_buf := None\<rparr>" "passed k (am_log s') = passed k (am_log ?s) @ frames_of b"
    using tx2drvlay_ok [of ?s k b E] b(1) en(2) by (auto simp: aggregate_of_def)
  moreover have "am_txs s' k = emptied None (am_txs s k)" using s'(3) by simp
  ultimately show ?thesis using b emptied_ok [OF ok] leaves_trans
    by (auto simp: aggr_send_def gone_def buffered_def aggregate_of_def)
qed

subsection \<open>One frame\<close>

lemma amsdu_store_ok:
  assumes ok: "tx_ok k (am_txs s k)" and m: "msdu_ok m" "(sk_sta m, sk_tid m) = k"
    and len: "AMSDU_SUBFRAME_TOTAL_LEN (length (sk_data m)) \<le> 2304"
    and two: "amsdunum (am_txs s k) = 1 \<Longrightarrow>
      AMSDU_SUBFRAME_TOTAL_LEN (length (sk_data m)) + framelen (am_txs s k) + 14 \<le> amsdu_max_len E (fst k)"
  shows "\<exists>s'. amsdu_store k m s = Some s' \<and> leaves E k s s' \<and> mid_ok E k (am_txs s' k) \<and>
    amsdunum (am_txs s' k) = Suc (amsdunum (am_txs s k)) \<and> gone k s' = gone k s @ [sk_data m]"
proof -
  let ?t = "am_txs s k" let ?n = "amsdunum ?t"
  let ?t' = "?t\<lparr>msdu_tmp_buf := (msdu_tmp_buf ?t)[?n := Some m],
               framelen := framelen ?t + AMSDU_SUBFRAME_TOTAL_LEN (length (sk_data m)), amsdunum := ?n + 1\<rparr>"
  note o = ok [unfolded tx_ok_def]
  have n: "?n < length (msdu_tmp_buf ?t)" using o by simp
  have tk: "take (Suc ?n) ((msdu_tmp_buf ?t)[?n := Some m]) = take ?n (msdu_tmp_buf ?t) @ [Some m]"
    using n by (simp add: take_Suc_conv_app_nth)
  then have bf: "buffered ?t' = buffered ?t @ [sk_data m]" by (simp add: buffered_def)
  have z: "?n = 0 \<Longrightarrow> framelen ?t = 0" using o by (simp add: buffered_def)
  have n1: "?n \<le> 1" using o by simp
  have "mid_ok E k ?t'" unfolding mid_ok_def
  proof (intro conjI)
    show "\<forall>x\<in>set (take (amsdunum ?t') (msdu_tmp_buf ?t')). held_ok k x"
      using o m tk by (simp add: held_ok_def)
    show "framelen ?t' = (\<Sum>d\<leftarrow>buffered ?t'. AMSDU_SUBFRAME_TOTAL_LEN (length d))" unfolding bf using o by simp
    show "amsdunum ?t' \<le> 1 \<longrightarrow> framelen ?t' \<le> 2304" using z len by simp
    show "amsdunum ?t' = 2 \<longrightarrow> framelen ?t' + 14 \<le> amsdu_max_len E (fst k)" using two by (simp add: add.commute)
  qed (use o n1 in simp_all)
  moreover have "amsdu_store k m s = Some (upd_tx k (\<lambda>_. ?t') s)" using n by (simp add: amsdu_store_def upd_tx_def Let_def)
  ultimately show ?thesis using bf by (auto simp: leaves_def gone_def log_ok_def)
qed

lemma mid_single: "mid_ok E k t \<Longrightarrow> amsdunum t \<le> 1 \<Longrightarrow> tx_ok k t"
  by (auto simp: mid_ok_def tx_ok_def)

text \<open>The frame enters the buffer, or what is in the buffer goes before it.\<close>

definition passes :: "amsdu_env \<Rightarrow> txkey \<Rightarrow> u8 list list \<Rightarrow> amsdu_state \<Rightarrow> amsdu_state \<Rightarrow> bool" where
  "passes E k ds s s' \<longleftrightarrow> leaves E k s s' \<and> tx_ok k (am_txs s' k) \<and> gone k s' = gone k s @ ds"

lemma deny_ok:
  assumes ok: "tx_ok k (am_txs s k)" and m: "msdu_ok m" "(sk_sta m, sk_tid m) = k" and en: "\<forall>i. skb_ok E i" "\<forall>i. encap_ok E i"
  shows "\<exists>s'. Option.bind (if amsdunum (am_txs s k) > 0 then aggr_send E k s else Some s)
      (\<lambda>s. wifi_mac_amsdu_tx2drvlay E k (upd_tx k (\<lambda>t. t\<lparr>amsdu_tx_buf := Some m\<rparr>) s)) = Some s' \<and> passes E k [sk_data m] s s'"
proof -
  note mid = tx_ok_mid [OF ok, of E]
  obtain u where u: "aggr_send E k s = Some u" "leaves E k s u" "tx_ok k (am_txs u k)" "amsdunum (am_txs u k) = 0" "gone k u = gone k s"
    using aggr_send_ok [OF mid en] by blast
  have 1: "(if amsdunum (am_txs s k) > 0 then aggr_send E k s else Some s) = Some u"
    using u(1) aggr_send_empty [OF mid] by auto
  let ?v = "upd_tx k (\<lambda>t. t\<lparr>amsdu_tx_buf := Some m\<rparr>) u"
  have fr: "frames_of m = [sk_data m]" "event_ok E (TxStart m)" using m by (simp_all add: msdu_ok_def frames_of_def)
  obtain s' where s': "wifi_mac_amsdu_tx2drvlay E k ?v = Some s'" "leaves E k ?v s'"
    "am_txs s' k = (am_txs ?v k)\<lparr>amsdu_tx_buf := None\<rparr>" "passed k (am_log s') = passed k (am_log ?v) @ frames_of m"
    using tx2drvlay_ok [of ?v k m E] m(2) en(2) fr by auto
  have e: "am_txs s' k = am_txs u k" using s'(3) u(3) by (simp add: tx_ok_def)
  have "leaves E k u ?v" by (auto simp: leaves_def gone_def log_ok_def)
  then have "leaves E k s s'" using u(2) s'(2) leaves_trans by blast
  then show ?thesis using u(3-5) s'(1,4) e fr(1) by (auto simp: 1 passes_def gone_def buffered_def)
qed

lemma take_ok:
  assumes ok: "tx_ok k (am_txs s k)" and m: "msdu_ok m" "(sk_sta m, sk_tid m) = k" and en: "\<forall>i. skb_ok E i" "\<forall>i. encap_ok E i"
    and len: "AMSDU_SUBFRAME_TOTAL_LEN (length (sk_data m)) \<le> 2304"
    and fits: "AMSDU_SUBFRAME_TOTAL_LEN (length (sk_data m)) + framelen (am_txs s k) + 14 \<le> max_len" "max_len = amsdu_max_len E (fst k)"
      "amsdunum (am_txs s k) + 1 \<le> sub_max" "sub_max \<le> 2"
  shows "\<exists>s'. Option.bind (amsdu_store k m s) (\<lambda>s. let t = am_txs s k in
      if framelen t + 14 = max_len \<or> amsdunum t = sub_max then aggr_send E k s else Some s) = Some s' \<and> passes E k [sk_data m] s s'"
proof -
  obtain u where u: "amsdu_store k m s = Some u" "leaves E k s u" "mid_ok E k (am_txs u k)"
    "amsdunum (am_txs u k) = Suc (amsdunum (am_txs s k))" "gone k u = gone k s @ [sk_data m]"
    using amsdu_store_ok [OF ok m len, of E] fits(1,2) by blast
  obtain v where v: "aggr_send E k u = Some v" "leaves E k u v" "tx_ok k (am_txs v k)" "gone k v = gone k u"
    using aggr_send_ok [OF u(3) en] by blast
  have "amsdunum (am_txs u k) = sub_max \<or> amsdunum (am_txs u k) \<le> 1" using u(4) fits(3,4) by linarith
  then show ?thesis using u v mid_single [OF u(3)] leaves_trans [OF u(2) v(2)] by (auto simp: Let_def passes_def)
qed

lemma flush_ok:
  assumes ok: "tx_ok k (am_txs s k)" and m: "msdu_ok m" "(sk_sta m, sk_tid m) = k" and en: "\<forall>i. skb_ok E i" "\<forall>i. encap_ok E i"
    and len: "AMSDU_SUBFRAME_TOTAL_LEN (length (sk_data m)) \<le> 2304"
  shows "\<exists>s'. Option.bind (aggr_send E k s) (\<lambda>s. amsdu_store k m (amsdu_exception k s)) = Some s' \<and> passes E k [sk_data m] s s'"
proof -
  obtain u where u: "aggr_send E k s = Some u" "leaves E k s u" "tx_ok k (am_txs u k)" "amsdunum (am_txs u k) = 0" "gone k u = gone k s"
    using aggr_send_ok [OF tx_ok_mid [OF ok] en] by blast
  have x: "amsdu_exception k u = u" using u(4) by (simp add: amsdu_exception_def)
  obtain v where "amsdu_store k m u = Some v" "leaves E k u v" "mid_ok E k (am_txs v k)"
    "amsdunum (am_txs v k) = Suc (amsdunum (am_txs u k))" "gone k v = gone k u @ [sk_data m]"
    using amsdu_store_ok [OF u(3) m len, of E] u(4) by auto
  then show ?thesis using u x mid_single [of E k] leaves_trans [OF u(2)] by (auto simp: passes_def)
qed

lemma passes_from: "leaves E k s u \<Longrightarrow> gone k u = gone k s \<Longrightarrow> passes E k ds u s' \<Longrightarrow> passes E k ds s s'"
  using leaves_trans by (auto simp: passes_def)

lemma wifi_mac_amsdu_ex_ok:
  assumes ok: "tx_ok k (am_txs s k)" and m: "msdu_ok m" "(sk_sta m, sk_tid m) = k" and en: "\<forall>i. skb_ok E i" "\<forall>i. encap_ok E i"
  shows "\<exists>s'. wifi_mac_amsdu_ex E m s = Some s' \<and> passes E k [sk_data m] s s'"
proof -
  have le: "\<not> length (sk_data m) < 14" using m by (auto simp: msdu_ok_def frame_len_ok_def)
  define max_len where "max_len = amsdu_max_len E (fst k)"
  have kk: "amsdu_max_len E (sk_sta m) = max_len" unfolding max_len_def using m(2) by auto
  define sub_max :: nat where "sub_max = (if qcnt E (asked (ask s)) \<le> 4 then 4 div 4 else 4 div 2)"
  define u where "u = (if amsdunum (am_txs (ask s) k) = 0 then upd_tx k (\<lambda>t. t\<lparr>in_time := jiffies E (asked (ask s))\<rparr>) (ask s) else ask s)"
  define v where "v = ask u"
  have sm: "sub_max \<le> 2" by (simp add: sub_max_def)
  have s0: "leaves E k s (ask s)" "gone k (ask s) = gone k s" "tx_ok k (am_txs (ask s) k)"
    using ok by (simp_all add: leaves_def gone_def log_ok_def)
  have v: "leaves E k s v" "gone k v = gone k s" "tx_ok k (am_txs v k)"
    using ok by (auto simp: v_def u_def leaves_def gone_def log_ok_def buffered_def tx_ok_def)
  let ?deny = "AMSDU_SUBFRAME_TOTAL_LEN (length (sk_data m)) > AMSDU_MAX_SUBFRM_LEN \<or> wifi_mac_amsdu_check m"
  let ?fits = "AMSDU_SUBFRAME_TOTAL_LEN (length (sk_data m)) + framelen (am_txs v k) + ETHER_LEN \<le> max_len \<and>
     amsdunum (am_txs v k) + 1 \<le> sub_max \<and> \<not> time_after (jiffies E (asked v)) (in_time (am_txs v k) + live_jiffies E)"
  have def1: "wifi_mac_amsdu_ex E m s = (if ?deny
      then Option.bind (if amsdunum (am_txs (ask s) k) > 0 then aggr_send E k (ask s) else Some (ask s))
        (\<lambda>s. wifi_mac_amsdu_tx2drvlay E k (upd_tx k (\<lambda>t. t\<lparr>amsdu_tx_buf := Some m\<rparr>) s))
      else if ?fits
      then Option.bind (amsdu_store k m v) (\<lambda>s. let t = am_txs s k in
        if framelen t + ETHER_LEN = max_len \<or> amsdunum t = sub_max then aggr_send E k s else Some s)
      else Option.bind (aggr_send E k v) (\<lambda>s. amsdu_store k m (amsdu_exception k s)))"
    unfolding wifi_mac_amsdu_ex_def m(2) kk Let_def if_not_P [OF le]
      sub_max_def [symmetric] u_def [symmetric] v_def [symmetric] by (rule refl)
  consider "?deny" | "\<not> ?deny" ?fits | "\<not> ?deny" "\<not> ?fits" by blast
  then show ?thesis
  proof cases
    case 1
    then show ?thesis using deny_ok [OF s0(3) m en] passes_from [OF s0(1,2)] unfolding def1 by auto
  next
    case 2
    then have "AMSDU_SUBFRAME_TOTAL_LEN (length (sk_data m)) \<le> 2304" by simp
    then show ?thesis using take_ok [OF v(3) m en _ _ max_len_def _ sm] passes_from [OF v(1,2)] 2
      unfolding def1 if_not_P [OF 2(1)] if_P [OF 2(2)] by blast
  next
    case 3
    then have "AMSDU_SUBFRAME_TOTAL_LEN (length (sk_data m)) \<le> 2304" by simp
    then show ?thesis using flush_ok [OF v(3) m en] passes_from [OF v(1,2)]
      unfolding def1 if_not_P [OF 3(1)] if_not_P [OF 3(2)] by blast
  qed
qed

subsection \<open>The tasklet\<close>

text \<open>What holds between operations: every queue with frames is on the list of the tasklet.\<close>

definition amsdu_inv :: "amsdu_env \<Rightarrow> amsdu_state \<Rightarrow> bool" where
  "amsdu_inv E s \<longleftrightarrow> (\<forall>k. tx_ok k (am_txs s k)) \<and> free_amsdu_list s = [] \<and> distinct (wm_amsdu_txq s) \<and>
     (\<forall>k. b_work (am_txs s k) \<longleftrightarrow> k \<in> set (wm_amsdu_txq s)) \<and>
     (\<forall>k. (amsdunum (am_txs s k) > 0 \<or> msdu_list (am_txs s k) \<noteq> []) \<longrightarrow> k \<in> set (wm_amsdu_txq s)) \<and> log_ok E s"

definition keeps :: "amsdu_env \<Rightarrow> amsdu_state \<Rightarrow> amsdu_state \<Rightarrow> bool" where
  "keeps E s s' \<longleftrightarrow> amsdu_inv E s' \<and> (\<forall>k. total k s' = total k s)"

lemma drain_msdus_ok:
  assumes "tx_ok k (am_txs s k)" "msdu_list (am_txs s k) = ms" "\<forall>i. skb_ok E i" "\<forall>i. encap_ok E i" "log_ok E s"
  shows "\<exists>s'. drain_msdus E k ms s = Some s' \<and> tx_ok k (am_txs s' k) \<and> msdu_list (am_txs s' k) = [] \<and>
    gone k s' = gone k s @ map sk_data ms \<and> (\<forall>k'. k' \<noteq> k \<longrightarrow> am_txs s' k' = am_txs s k' \<and> gone k' s' = gone k' s) \<and>
    wm_amsdu_txq s' = wm_amsdu_txq s \<and> free_amsdu_list s' = free_amsdu_list s \<and>
    b_work (am_txs s' k) = b_work (am_txs s k) \<and> log_ok E s'"
  using assms
proof (induction ms arbitrary: s)
  case Nil then show ?case by simp
next
  case (Cons m ms)
  let ?u = "upd_tx k (\<lambda>t. t\<lparr>msdu_list := ms\<rparr>) s"
  have g: "gone k' ?u = gone k' s" for k' by (auto simp: gone_def buffered_def)
  have m: "msdu_ok m" "(sk_sta m, sk_tid m) = k" using Cons.prems(1,2) by (auto simp: tx_ok_def)
  have ok: "tx_ok k (am_txs ?u k)" using Cons.prems(1,2) by (auto simp: tx_ok_def buffered_def)
  obtain v where v: "wifi_mac_amsdu_ex E m ?u = Some v" "passes E k [sk_data m] ?u v"
    using wifi_mac_amsdu_ex_ok [OF ok m Cons.prems(3,4)] by blast
  let ?w = "wifi_mac_msdu_node_free v"
  have w: "am_txs ?w = am_txs v" "gone k' ?w = gone k' v" "log_ok E ?w = log_ok E v" "wm_amsdu_txq ?w = wm_amsdu_txq v"
    "free_amsdu_list ?w = free_amsdu_list v" for k'
    by (simp_all add: wifi_mac_msdu_node_free_def gone_def log_ok_def)
  have lg: "log_ok E ?u" using Cons.prems(5) by (simp add: log_ok_def)
  have 1: "tx_ok k (am_txs ?w k)" "msdu_list (am_txs ?w k) = ms" "log_ok E ?w"
    using v(2) lg by (simp_all add: passes_def leaves_def w)
  show ?case using Cons.IH [OF 1(1,2) Cons.prems(3,4) 1(3)] v lg by (auto simp: passes_def leaves_def w g)
qed

end
