(* ===== verification/AmsduProps.thy ===== *)
theory AmsduProps
  imports AmsduInv
begin

text \<open>
  Runs of the sender of aggregates of MSDUs, frames coming from the network and the tasklet in any
  order, and the properties of sender and receiver.
\<close>

declare split_paired_All [simp del] split_paired_Ex [simp del]

lemma keeps_trans: "keeps E s s' \<Longrightarrow> keeps E s' s'' \<Longrightarrow> keeps E s s''"
  by (simp add: keeps_def)

lemma drain_queues_ok:
  assumes "amsdu_inv E s" "wm_amsdu_txq s = ks" "\<forall>i. skb_ok E i" "\<forall>i. encap_ok E i"
  shows "\<exists>cur' s'. drain_queues E ks cur s = Some (cur', s') \<and> keeps E s s'"
  using assms
proof (induction ks arbitrary: cur s)
  case Nil then show ?case by (simp add: keeps_def)
next
  case (Cons k ks)
  note inv = Cons.prems(1) [unfolded amsdu_inv_def]
  have ok: "tx_ok k (am_txs s k)" and lg: "log_ok E s" using inv by auto
  obtain u where u: "drain_msdus E k (msdu_list (am_txs s k)) s = Some u" "tx_ok k (am_txs u k)" "msdu_list (am_txs u k) = []"
    "gone k u = gone k s @ map sk_data (msdu_list (am_txs s k))"
    "\<forall>k'. k' \<noteq> k \<longrightarrow> am_txs u k' = am_txs s k' \<and> gone k' u = gone k' s"
    "wm_amsdu_txq u = wm_amsdu_txq s" "free_amsdu_list u = free_amsdu_list s" "b_work (am_txs u k) = b_work (am_txs s k)" "log_ok E u"
    using drain_msdus_ok [OF ok refl Cons.prems(3,4) lg] by blast
  have tot: "total k' u = total k' s" for k' using u(3,4,5) by (cases "k' = k") (auto simp: total_def)
  have txs: "am_txs u k' = (if k' = k then am_txs u k else am_txs s k')" for k' using u(5) by simp
  have all: "tx_ok k' (am_txs u k')" for k' using inv u(2,5) by (cases "k' = k") auto
  show ?case
  proof (cases "amsdunum (am_txs u k) = 0")
    case False
    have bw: "b_work (am_txs u k') = b_work (am_txs s k')" for k' using u(5,8) by (cases "k' = k") auto
    have "amsdu_inv E u" unfolding amsdu_inv_def
    proof (intro conjI allI impI)
      show "k' \<in> set (wm_amsdu_txq u)" if "amsdunum (am_txs u k') > 0 \<or> msdu_list (am_txs u k') \<noteq> []" for k'
        using that u(5) inv Cons.prems(2) by (cases "k' = k") (auto simp: u(6))
    qed (use all inv u(6,7,9) bw in auto)
    then show ?thesis using False u(1) tot by (auto simp: keeps_def)
  next
    case True
    let ?v = "upd_tx k (\<lambda>t. t\<lparr>b_work := False\<rparr>) (u\<lparr>wm_amsdu_txq := ks\<rparr>)"
    have d: "k \<notin> set ks" "distinct ks" using inv Cons.prems(2) by auto
    have "amsdu_inv E ?v" unfolding amsdu_inv_def
    proof (intro conjI allI impI)
      fix k'
      show "tx_ok k' (am_txs ?v k')" using all [of k'] by (cases "k' = k") (auto simp: tx_ok_def buffered_def)
      show "b_work (am_txs ?v k') \<longleftrightarrow> k' \<in> set (wm_amsdu_txq ?v)"
        using inv d Cons.prems(2) u(5) by (cases "k' = k") auto
      show "k' \<in> set (wm_amsdu_txq ?v)" if "amsdunum (am_txs ?v k') > 0 \<or> msdu_list (am_txs ?v k') \<noteq> []"
        using that inv True u(3,5) Cons.prems(2) by (cases "k' = k") auto
    qed (use inv d u(7,9) in \<open>auto simp: log_ok_def\<close>)
    moreover have "total k' ?v = total k' s" for k' using tot [of k'] by (auto simp: total_def gone_def buffered_def)
    ultimately have kv: "keeps E s ?v" by (simp add: keeps_def)
    then obtain cur' s' where s': "drain_queues E ks (Some k) ?v = Some (cur', s')" "keeps E ?v s'"
      using Cons.IH [of ?v "Some k"] Cons.prems(3,4) by (auto simp: keeps_def)
    then show ?thesis using True u(1) keeps_trans [OF kv s'(2)] by simp
  qed
qed

lemma aggr_send_keeps:
  assumes inv: "amsdu_inv E s" and en: "\<forall>i. skb_ok E i" "\<forall>i. encap_ok E i"
  shows "\<exists>s'. aggr_send E k s = Some s' \<and> keeps E s s'"
proof -
  note i = inv [unfolded amsdu_inv_def]
  have "mid_ok E k (am_txs s k)" using i tx_ok_mid by blast
  from aggr_send_ok [OF this en] obtain s' where s': "aggr_send E k s = Some s'" "leaves E k s s'" "tx_ok k (am_txs s' k)"
    "amsdunum (am_txs s' k) = 0" "gone k s' = gone k s" by blast
  note l = s'(2) [unfolded leaves_def]
  have bw: "b_work (am_txs s' k') = b_work (am_txs s k')" for k' using l by (cases "k' = k") auto
  have "amsdu_inv E s'" unfolding amsdu_inv_def
  proof (intro conjI allI impI)
    fix k'
    show "tx_ok k' (am_txs s' k')" using i l s'(3) by (cases "k' = k") auto
    show "k' \<in> set (wm_amsdu_txq s')" if "amsdunum (am_txs s' k') > 0 \<or> msdu_list (am_txs s' k') \<noteq> []"
      using that i l s'(4) by (cases "k' = k") auto
  qed (use i l bw in auto)
  moreover have "total k' s' = total k' s" for k' using l s'(5) by (cases "k' = k") (auto simp: total_def)
  ultimately show ?thesis using s'(1) by (simp add: keeps_def)
qed

lemma same_keeps:
  assumes "amsdu_inv E s" "am_txs s' = am_txs s" "wm_amsdu_txq s' = wm_amsdu_txq s" "free_amsdu_list s' = free_amsdu_list s" "am_log s' = am_log s"
  shows "keeps E s s'"
  using assms by (simp add: keeps_def amsdu_inv_def total_def gone_def log_ok_def)

lemma tasklet_keeps:
  assumes inv: "amsdu_inv E s" and en: "\<forall>i. skb_ok E i" "\<forall>i. encap_ok E i"
  shows "\<exists>s'. wifi_mac_amsdu_tasklet E s = Some s' \<and> keeps E s s'"
proof -
  obtain cur u where u: "drain_queues E (wm_amsdu_txq s) None s = Some (cur, u)" "keeps E s u"
    using drain_queues_ok [OF inv refl en] by blast
  have iu: "amsdu_inv E u" using u(2) by (simp add: keeps_def)
  let ?v = "free_listed u"
  have kv: "keeps E u ?v" by (rule same_keeps [OF iu]) (use iu in \<open>simp_all add: free_listed_def amsdu_inv_def log_am_def\<close>)
  have kw: "keeps E u (ask ?v)" using keeps_trans [OF kv] same_keeps [of E ?v "ask ?v"] kv by (simp add: keeps_def)
  have iw: "amsdu_inv E (ask ?v)" using kw by (simp add: keeps_def)
  obtain w where w: "\<And>k. aggr_send E k (ask ?v) = Some (w k) \<and> keeps E (ask ?v) (w k)"
    using aggr_send_keeps [OF iw en] by metis
  have ks: "keeps E s ?v" "keeps E s (ask ?v)" "\<And>k. keeps E s (w k)"
    using keeps_trans [OF u(2)] kv kw keeps_trans [OF kw] w by blast+
  show ?thesis unfolding wifi_mac_amsdu_tasklet_def u(1)
    using w ks by (auto simp: Let_def split: option.split)
qed

section \<open>Runs\<close>

text \<open>A frame is accepted when the caller need not send it itself.\<close>

datatype amsdu_op = Send msdu_skb | RunTasklet

fun amsdu_step :: "amsdu_env \<Rightarrow> amsdu_op \<Rightarrow> amsdu_state \<Rightarrow> (msdu_skb list \<times> amsdu_state) option" where
  "amsdu_step E (Send m) s = map_option (\<lambda>(ok, s). (if ok then [m] else [], s)) (wifi_mac_amsdu_send E m s)"
| "amsdu_step E RunTasklet s = map_option (Pair []) (wifi_mac_amsdu_tasklet E s)"

fun amsdu_run :: "amsdu_env \<Rightarrow> amsdu_op list \<Rightarrow> amsdu_state \<Rightarrow> (msdu_skb list \<times> amsdu_state) option" where
  "amsdu_run E [] s = Some ([], s)"
| "amsdu_run E (p # ps) s =
    Option.bind (amsdu_step E p s) (\<lambda>(a, s). map_option (\<lambda>(b, s). (a @ b, s)) (amsdu_run E ps s))"

definition op_ok :: "amsdu_op \<Rightarrow> bool" where
  "op_ok p \<longleftrightarrow> (case p of Send m \<Rightarrow> msdu_ok m | RunTasklet \<Rightarrow> True)"

definition accepted :: "txkey \<Rightarrow> msdu_skb list \<Rightarrow> u8 list list" where
  "accepted k ms = map sk_data [m \<leftarrow> ms. (sk_sta m, sk_tid m) = k]"

text \<open>What a step does to the frames of a queue: those it accepts come last.\<close>

definition step_ok :: "amsdu_env \<Rightarrow> amsdu_state \<Rightarrow> msdu_skb list \<Rightarrow> amsdu_state \<Rightarrow> bool" where
  "step_ok E s acc s' \<longleftrightarrow> amsdu_inv E s' \<and> (\<forall>k. total k s' = total k s @ accepted k acc)"

lemma keeps_step: "step_ok E s acc s' \<Longrightarrow> keeps E s' s'' \<Longrightarrow> step_ok E s acc s''"
  by (simp add: step_ok_def keeps_def)

lemma tx_ok_enqueue:
  "tx_ok k t \<Longrightarrow> msdu_ok m \<Longrightarrow> (sk_sta m, sk_tid m) = k \<Longrightarrow> tx_ok k (t\<lparr>msdu_list := msdu_list t @ [m], b_work := b\<rparr>)"
  by (simp add: tx_ok_def buffered_def ball_Un)

lemma send_step:
  assumes inv: "amsdu_inv E s" and en: "\<forall>i. skb_ok E i" "\<forall>i. encap_ok E i" and m: "msdu_ok m"
  shows "\<exists>ok s'. wifi_mac_amsdu_send E m s = Some (ok, s') \<and> step_ok E s (if ok then [m] else []) s'"
proof (cases "has_amsdu E (sk_sta m) \<and> frag_off E (sk_sta m) \<and> mode_ok E (sk_sta m) \<and> msdu_free_nodes s \<noteq> 0")
  case False
  then show ?thesis using inv by (auto simp: wifi_mac_amsdu_send_def Let_def wifi_mac_msdu_node_alloc_def step_ok_def accepted_def)
next
  case True
  define k where "k = (sk_sta m, sk_tid m)"
  note i = inv [unfolded amsdu_inv_def]
  define u where "u = upd_tx k (\<lambda>t. t\<lparr>msdu_list := msdu_list t @ [m]\<rparr>) (s\<lparr>msdu_free_nodes := msdu_free_nodes s - 1\<rparr>)"
  define v where "v = u\<lparr>msdu_cnt := (msdu_cnt u)(sk_tid m := msdu_cnt u (sk_tid m) + 1)\<rparr>"
  define w where "w = (if b_work (am_txs v k) then v else upd_tx k (\<lambda>t. t\<lparr>b_work := True\<rparr>) (v\<lparr>wm_amsdu_txq := wm_amsdu_txq v @ [k]\<rparr>))"
  have snd_def: "wifi_mac_amsdu_send E m s = (if msdu_cnt w (sk_tid m) > 1 then map_option (Pair True) (wifi_mac_amsdu_tasklet E w)
      else Some (True, log_am [TaskletSchedule] w))"
  proof -
    have t: "has_amsdu E (sk_sta m) = True" "frag_off E (sk_sta m) = True" "mode_ok E (sk_sta m) = True"
      and alloc: "wifi_mac_msdu_node_alloc s = (True, s\<lparr>msdu_free_nodes := msdu_free_nodes s - 1\<rparr>)"
      using True by (simp_all add: wifi_mac_msdu_node_alloc_def)
    show ?thesis unfolding wifi_mac_amsdu_send_def Let_def k_def [symmetric] alloc
      by (simp only: t not_True_eq_False simp_thms if_False prod.case bool.case if_True u_def [symmetric] v_def [symmetric] w_def [symmetric])
  qed
  have txs: "am_txs w k' = (if k' = k then (am_txs s k)\<lparr>msdu_list := msdu_list (am_txs s k) @ [m], b_work := True\<rparr> else am_txs s k')" for k'
    by (auto simp: w_def v_def u_def)
  have txq: "wm_amsdu_txq w = (if k \<in> set (wm_amsdu_txq s) then wm_amsdu_txq s else wm_amsdu_txq s @ [k])"
    using i by (auto simp: w_def v_def u_def)
  have oth: "free_amsdu_list w = free_amsdu_list s" "am_log w = am_log s" by (simp_all add: w_def v_def u_def)
  have inv': "amsdu_inv E w" unfolding amsdu_inv_def
  proof (intro conjI allI impI)
    fix k'
    have "tx_ok k' (am_txs s k')" using i by blast
    then show "tx_ok k' (am_txs w k')" using tx_ok_enqueue [of k "am_txs s k" m True, OF _ m k_def [symmetric]] by (simp only: txs split: if_split) blast
    show "b_work (am_txs w k') \<longleftrightarrow> k' \<in> set (wm_amsdu_txq w)" using i by (cases "k' = k") (auto simp: txs txq)
    show "k' \<in> set (wm_amsdu_txq w)" if "amsdunum (am_txs w k') > 0 \<or> msdu_list (am_txs w k') \<noteq> []"
      using that i by (cases "k' = k") (auto simp: txs txq)
  qed (use i oth in \<open>auto simp: txq log_ok_def\<close>)
  have "total k' w = total k' s @ accepted k' [m]" for k'
    by (cases "k' = k") (auto simp: total_def gone_def buffered_def txs oth accepted_def k_def)
  then have st: "step_ok E s [m] w" using inv' by (simp add: step_ok_def)
  obtain x where x: "wifi_mac_amsdu_tasklet E w = Some x" "keeps E w x" using tasklet_keeps [OF inv' en] by blast
  have "keeps E w (log_am [TaskletSchedule] w)"
    using inv' by (auto simp: keeps_def amsdu_inv_def total_def gone_def log_ok_def passed_def)
  then show ?thesis using keeps_step [OF st] x by (intro exI [of _ True]) (simp add: snd_def)
qed

lemma amsdu_step_ok:
  assumes "amsdu_inv E s" "\<forall>i. skb_ok E i" "\<forall>i. encap_ok E i" "op_ok p"
  shows "\<exists>acc s'. amsdu_step E p s = Some (acc, s') \<and> step_ok E s acc s'"
proof (cases p)
  case (Send m)
  then show ?thesis using send_step [OF assms(1-3), of m] assms(4) by (auto simp: op_ok_def)
next
  case RunTasklet
  then show ?thesis using tasklet_keeps [OF assms(1-3)] by (auto simp: step_ok_def keeps_def accepted_def)
qed

lemma amsdu_run_ok:
  assumes "amsdu_inv E s" "\<forall>i. skb_ok E i" "\<forall>i. encap_ok E i" "\<forall>p\<in>set ps. op_ok p"
  shows "\<exists>acc s'. amsdu_run E ps s = Some (acc, s') \<and> step_ok E s acc s'"
  using assms(1,4)
proof (induction ps arbitrary: s)
  case Nil then show ?case by (simp add: step_ok_def accepted_def)
next
  case (Cons p ps)
  obtain a u where u: "amsdu_step E p s = Some (a, u)" "step_ok E s a u"
    using amsdu_step_ok [OF Cons.prems(1) assms(2,3), of p] Cons.prems(2) by auto
  obtain b v where v: "amsdu_run E ps u = Some (b, v)" "step_ok E u b v"
    using Cons.IH [of u] u(2) Cons.prems(2) by (auto simp: step_ok_def)
  show ?case using u v by (auto simp: step_ok_def accepted_def)
qed

text \<open>The start: the lists empty, the queues as wifi_mac_alloc_amsdu_node leaves them.\<close>

definition amsdu_fresh :: "amsdu_state \<Rightarrow> bool" where
  "amsdu_fresh s \<longleftrightarrow> wm_amsdu_txq s = [] \<and> free_amsdu_list s = [] \<and> am_log s = [] \<and>
     (\<forall>k. \<exists>vid. am_txs s k = \<lparr>amsdu_tx_buf = None, b_work = False, amsdunum = 0, framelen = 0, msdu_list = [], in_time = 0,
        msdu_tmp_buf = replicate 8 None, am_vid = vid\<rparr>)"

lemma amsdu_fresh_inv:
  assumes "amsdu_fresh s"
  shows "amsdu_inv E s" "total k s = []"
proof -
  have t: "tx_ok k (am_txs s k) \<and> \<not> b_work (am_txs s k) \<and> amsdunum (am_txs s k) = 0 \<and> msdu_list (am_txs s k) = []" for k
  proof -
    obtain vid where "am_txs s k = \<lparr>amsdu_tx_buf = None, b_work = False, amsdunum = 0, framelen = 0, msdu_list = [], in_time = 0,
        msdu_tmp_buf = replicate 8 None, am_vid = vid\<rparr>" using assms unfolding amsdu_fresh_def by metis
    then show ?thesis by (simp add: tx_ok_def buffered_def)
  qed
  then show "amsdu_inv E s" "total k s = []"
    using assms by (auto simp: amsdu_inv_def amsdu_fresh_def log_ok_def total_def gone_def buffered_def passed_def)
qed

section \<open>Properties\<close>

text \<open>The frames of one queue that were handed to the driver. Where wifi_mac_build_txinfo never
  fails, they are all that left.\<close>

fun handed_frames :: "txkey \<Rightarrow> amsdu_event \<Rightarrow> u8 list list" where
  "handed_frames k (TxStart b) = (if (sk_sta b, sk_tid b) = k then frames_of b else [])"
| "handed_frames k _ = []"

definition handed :: "txkey \<Rightarrow> amsdu_event list \<Rightarrow> u8 list list" where
  "handed k es = concat (map (handed_frames k) es)"

lemma passed_handed: "\<forall>e\<in>set es. event_ok E e \<Longrightarrow> \<forall>i. txinfo_ok E i \<Longrightarrow> passed k es = handed k es"
proof (induction es)
  case (Cons e es)
  then show ?case by (cases e) (simp_all add: passed_def handed_def)
qed (simp add: passed_def handed_def)

definition held :: "wifi_mac_amsdu_tx \<Rightarrow> u8 list list" where
  "held t = buffered t @ map sk_data (msdu_list t)"

text \<open>C26: The sender of A-MSDUs keeps the order of every queue. As long as allocations,
  wifi_mac_encap and wifi_mac_build_txinfo do not fail, in any run of wifi_mac_amsdu_send and the
  tasklet no array is left, and for every station and traffic class the frames handed to the driver, as
  the receiver gets them out of the aggregates, followed by those that wait, are the frames accepted,
  each once and in their order; a queue with waiting frames is on the list of the tasklet.\<close>
theorem amsdu_frames_in_order:
  assumes "amsdu_fresh s" "\<forall>i. skb_ok E i" "\<forall>i. encap_ok E i" "\<forall>i. txinfo_ok E i" "\<forall>p\<in>set ps. op_ok p"
  shows "\<exists>acc s'. amsdu_run E ps s = Some (acc, s') \<and>
    (\<forall>k. handed k (am_log s') @ held (am_txs s' k) = accepted k acc \<and>
      (held (am_txs s' k) \<noteq> [] \<longrightarrow> k \<in> set (wm_amsdu_txq s')))"
proof -
  obtain acc s' where r: "amsdu_run E ps s = Some (acc, s')" "step_ok E s acc s'"
    using amsdu_run_ok [OF amsdu_fresh_inv(1) [OF assms(1)] assms(2,3,5)] by blast
  have "\<forall>e\<in>set (am_log s'). event_ok E e" using r(2) by (simp add: step_ok_def amsdu_inv_def log_ok_def)
  then have "handed k (am_log s') @ held (am_txs s' k) = accepted k acc" for k
    using r(2) amsdu_fresh_inv(2) [OF assms(1), of k]
    by (simp add: step_ok_def total_def gone_def held_def passed_handed [OF _ assms(4)])
  moreover have "k \<in> set (wm_amsdu_txq s')" if "held (am_txs s' k) \<noteq> []" for k
    using r(2) that by (auto simp: step_ok_def amsdu_inv_def held_def buffered_def)
  ultimately show ?thesis using r(1) by blast
qed

definition ex_env :: amsdu_env where
  "ex_env = \<lparr>skb_ok = \<lambda>_. True, encap_ok = \<lambda>_. True, txinfo_ok = \<lambda>_. True, jiffies = \<lambda>_. 0, qcnt = \<lambda>_. 9, junk = \<lambda>_. 0,
     live_jiffies = 10, bw80 = \<lambda>_. False, amsdu_max_length = \<lambda>_. 3839, frag_off = \<lambda>_. True, mode_ok = \<lambda>_. True, has_amsdu = \<lambda>_. True\<rparr>"

definition ex_msdu :: "nat \<Rightarrow> u8 \<Rightarrow> msdu_skb" where
  "ex_msdu tid x = \<lparr>sk_data = replicate 12 0 @ [8, 0, x], sk_sta = 0, sk_tid = tid, sk_prio = 0, sk_ps = False, sk_csum = False,
     sk_info = [\<lparr>b_tcp_ack_del = False, tcp_src_port = 0, tcp_dst_port = 0, pkt_rest = 0\<rparr>], sk_amsdu = False, sk_amsdunum = 0\<rparr>"

definition ex_amsdu :: amsdu_state where
  "ex_amsdu = \<lparr>am_txs = \<lambda>_. \<lparr>amsdu_tx_buf = None, b_work = False, amsdunum = 0, framelen = 0, msdu_list = [], in_time = 0,
        msdu_tmp_buf = replicate 8 None, am_vid = 0\<rparr>,
     wm_amsdu_txq = [], free_amsdu_list = [], msdu_cnt = \<lambda>_. 0, msdu_free_nodes = 100, asked = 0, am_log = []\<rparr>"

definition ex_amsdu_ops :: "amsdu_op list" where
  "ex_amsdu_ops = [Send (ex_msdu 1 1), RunTasklet, Send (ex_msdu 1 2), Send (ex_msdu 1 3)]"

lemma ex_amsdu_ops_ok: "amsdu_fresh ex_amsdu" "\<forall>i. skb_ok ex_env i" "\<forall>i. encap_ok ex_env i" "\<forall>p\<in>set ex_amsdu_ops. op_ok p"
  by (simp_all add: amsdu_fresh_def ex_amsdu_def ex_env_def ex_amsdu_ops_def op_ok_def msdu_ok_def ex_msdu_def frame_len_ok_def)

theorem amsdu_frames_in_order_witness:
  "\<exists>acc s'. amsdu_run ex_env ex_amsdu_ops ex_amsdu = Some (acc, s') \<and>
    (\<forall>k. handed k (am_log s') @ held (am_txs s' k) = accepted k acc \<and>
      (held (am_txs s' k) \<noteq> [] \<longrightarrow> k \<in> set (wm_amsdu_txq s')))"
  by (rule amsdu_frames_in_order [OF ex_amsdu_ops_ok(1-3) _ ex_amsdu_ops_ok(4)]) (simp add: ex_env_def)

text \<open>C27: As long as allocations and wifi_mac_encap do not fail, every aggregate passed to the driver
  is within its limits: it holds one or two subframes, as many as it says and as descriptions of
  packets, the receiver gets them all out, two together are no longer than the least of what the
  station takes, the buffer and 3212 bytes, and one alone, whatever the station takes, than 2318.\<close>
theorem amsdu_aggregates_within_limits:
  assumes "amsdu_fresh s" "\<forall>i. skb_ok E i" "\<forall>i. encap_ok E i" "\<forall>p\<in>set ps. op_ok p"
    "amsdu_run E ps s = Some (acc, s')" "TxStart b \<in> set (am_log s')" "sk_amsdu b"
  shows "sk_amsdunum b \<in> {1, 2} \<and> length (frames_of b) = sk_amsdunum b \<and> length (sk_info b) = sk_amsdunum b \<and>
    length (sk_data b) \<le> (if sk_amsdunum b = 1 then 2318 else amsdu_max_len E (sk_sta b))"
proof -
  have "log_ok E s'"
    using amsdu_run_ok [OF amsdu_fresh_inv(1) [OF assms(1)] assms(2-4)] assms(5) by (auto simp: step_ok_def amsdu_inv_def)
  then have "event_ok E (TxStart b)" using assms(6) by (simp only: log_ok_def)
  then show ?thesis using assms(7) by auto
qed

definition is_aggregate :: "amsdu_event \<Rightarrow> bool" where
  "is_aggregate e = (case e of TxStart b \<Rightarrow> sk_amsdu b | _ \<Rightarrow> False)"

lemma is_aggregateD: "is_aggregate e \<Longrightarrow> \<exists>b. e = TxStart b \<and> sk_amsdu b"
  by (cases e) (auto simp: is_aggregate_def)

lemma ex_amsdu_run:
  "case amsdu_run ex_env ex_amsdu_ops ex_amsdu of None \<Rightarrow> False | Some (acc, s) \<Rightarrow> list_ex is_aggregate (am_log s)"
  by code_simp

theorem amsdu_aggregates_within_limits_witness:
  "\<exists>acc s b. amsdu_run ex_env ex_amsdu_ops ex_amsdu = Some (acc, s) \<and> TxStart b \<in> set (am_log s) \<and> sk_amsdu b \<and>
    length (frames_of b) = sk_amsdunum b \<and> sk_amsdunum b \<in> {1, 2}"
proof -
  obtain acc s b where r: "amsdu_run ex_env ex_amsdu_ops ex_amsdu = Some (acc, s)" "TxStart b \<in> set (am_log s)" "sk_amsdu b"
    using ex_amsdu_run by (auto simp: list_ex_iff split: option.splits dest!: is_aggregateD)
  show ?thesis using amsdu_aggregates_within_limits [OF ex_amsdu_ops_ok r] r by blast
qed

text \<open>C28: An A-MSDU put together from any frames of 14 to 65527 bytes by wifi_mac_amsdu_encap, whatever
  the padding holds, is taken apart by wifi_mac_amsdu_input into these frames.\<close>
theorem amsdu_roundtrip:
  assumes "ms \<noteq> []" "\<forall>m\<in>set ms. frame_len_ok m"
  shows "\<exists>d. amsdu_build jk [] True ms = Some d \<and> wifi_mac_amsdu_input (\<lambda>_. True) d = Some ms"
proof -
  obtain e where e: "amsdu_build jk [] True ms = Some (take 14 (hd ms) @ e)" "is_body ms e"
    using amsdu_build_body [OF assms] by blast
  have "length (take 14 (hd ms)) = 14" using assms by (cases ms) (auto simp: frame_len_ok_def)
  then show ?thesis using e input_body by blast
qed

theorem amsdu_roundtrip_witness:
  "\<exists>d. amsdu_build (\<lambda>i. word_of_nat i) [] True [replicate 15 (1 :: u8), replicate 14 2, replicate 40 3] = Some d \<and>
    wifi_mac_amsdu_input (\<lambda>_. True) d = Some [replicate 15 (1 :: u8), replicate 14 2, replicate 40 3]"
  by (rule amsdu_roundtrip) (simp_all add: frame_len_ok_def)

text \<open>Whatever bytes come in as an A-MSDU, wifi_mac_amsdu_input ends and reads within them; each
  frame it delivers has an ethernet header, and the frames together, with 8 bytes each for what the
  decapsulation takes out, are no longer than what came in.\<close>
theorem amsdu_input_safe:
  "\<exists>fs. wifi_mac_amsdu_input (\<lambda>_. True) d = Some fs \<and> (\<forall>f\<in>set fs. ETHER_LEN \<le> length f) \<and>
    (\<Sum>f\<leftarrow>fs. length f + LLC_SNAPFRAMELEN) \<le> length d"
proof (cases "length d < 14")
  case True
  then show ?thesis using amsdu_loop_safe [of 0 d] by (simp add: wifi_mac_amsdu_input_def)
next
  case False
  then show ?thesis using amsdu_loop_safe [of 0 "drop 14 d"] by (auto simp: wifi_mac_amsdu_input_def)
qed

theorem amsdu_input_safe_witness:
  "\<exists>fs. wifi_mac_amsdu_input (\<lambda>_. True) (replicate 40 (255 :: u8)) = Some fs \<and> (\<forall>f\<in>set fs. ETHER_LEN \<le> length f) \<and>
    (\<Sum>f\<leftarrow>fs. length f + LLC_SNAPFRAMELEN) \<le> length (replicate 40 (255 :: u8))"
  by (rule amsdu_input_safe)

end
