(* ===== verification/Acl.thy ===== *)
theory Acl
  imports Prelude
begin

text \<open>
  wifi_mac_acl.c: the list of stations an access point admits or refuses.  An entry is in a list of
  all and in a hash table of 32 buckets; nodes are numbers, the memory maps them to their addresses.
  Taking the lock a second time does not return, which is None, as is an access through a null
  pointer.
\<close>

section \<open>State\<close>

type_synonym macaddr = "u8 list"

abbreviation (input) ACL_HASHSIZE :: nat where "ACL_HASHSIZE \<equiv> 32"
abbreviation (input) ACL_POLICY_OPEN :: int where "ACL_POLICY_OPEN \<equiv> 0"
abbreviation (input) ACL_POLICY_ALLOW :: int where "ACL_POLICY_ALLOW \<equiv> 1"
abbreviation (input) ACL_POLICY_DENY :: int where "ACL_POLICY_DENY \<equiv> 2"
abbreviation (input) ENOENT :: int where "ENOENT \<equiv> 2"
abbreviation (input) ENOMEM :: int where "ENOMEM \<equiv> 12"
abbreviation (input) EEXIST :: int where "EEXIST \<equiv> 17"
abbreviation (input) EINVAL :: int where "EINVAL \<equiv> 22"

definition ACL_HASH :: "macaddr \<Rightarrow> nat" where
  "ACL_HASH addr = unat (addr ! 5) mod ACL_HASHSIZE"

record acl =
  as_lock :: bool
  as_policy :: int
  as_list :: "nat list"
  as_hash :: "nat \<Rightarrow> nat list"
  acl_macaddr :: "nat \<Rightarrow> macaddr option"

record acl_vif =
  vm_aclpriv :: "acl option"
  my_mod_use :: nat
  malloc_ok :: "nat \<Rightarrow> bool"
  mallocs :: nat

text \<open>NET_MALLOC: the n-th one may fail; the memory it returns is new.\<close>

definition net_malloc :: "acl_vif \<Rightarrow> nat option \<times> acl_vif" where
  "net_malloc v = (if malloc_ok v (mallocs v) then Some (mallocs v) else None, v\<lparr>mallocs := mallocs v + 1\<rparr>)"

definition ACL_LOCK :: "acl \<Rightarrow> acl option" where
  "ACL_LOCK a = (if as_lock a then None else Some (a\<lparr>as_lock := True\<rparr>))"

definition ACL_UNLOCK :: "acl \<Rightarrow> acl" where
  "ACL_UNLOCK a = a\<lparr>as_lock := False\<rparr>"

section \<open>Operations\<close>

text \<open>The first entry of a bucket with the address.\<close>

definition find_acl :: "acl \<Rightarrow> macaddr \<Rightarrow> nat option" where
  "find_acl a mac = find (\<lambda>p. acl_macaddr a p = Some mac) (as_hash a (ACL_HASH mac))"

definition acl_free :: "nat \<Rightarrow> acl \<Rightarrow> acl" where
  "acl_free p a = a\<lparr>as_list := remove1 p (as_list a), as_hash := (\<lambda>h. remove1 p (as_hash a h)),
     acl_macaddr := (acl_macaddr a)(p := None)\<rparr>"

definition acl_attach :: "acl_vif \<Rightarrow> int \<times> acl_vif" where
  "acl_attach v =
    (if my_mod_use v > 2 then (0, v)
     else let (new, v) = net_malloc (v\<lparr>my_mod_use := 1\<rparr>)
          in if new = None then (0, v\<lparr>my_mod_use := 0\<rparr>)
             else (1, v\<lparr>vm_aclpriv := Some \<lparr>as_lock = False, as_policy = ACL_POLICY_OPEN, as_list = [], as_hash = (\<lambda>_. []),
                         acl_macaddr = (\<lambda>_. None)\<rparr>\<rparr>))"

fun free_entries :: "nat list \<Rightarrow> acl \<Rightarrow> acl" where
  "free_entries [] a = a"
| "free_entries (p # ps) a = free_entries ps (acl_free p a)"

definition acl_free_all_locked :: "acl \<Rightarrow> acl option" where
  "acl_free_all_locked a = map_option (\<lambda>a. ACL_UNLOCK (free_entries (as_list a) a)) (ACL_LOCK a)"

definition acl_detach :: "acl_vif \<Rightarrow> acl_vif option" where
  "acl_detach v = do {
     a \<leftarrow> vm_aclpriv v;
     a \<leftarrow> ACL_LOCK a;
     a \<leftarrow> acl_free_all_locked a;
     Some (v\<lparr>vm_aclpriv := None, my_mod_use := 0\<rparr>)
   }"

definition acl_check :: "acl_vif \<Rightarrow> macaddr \<Rightarrow> bool option" where
  "acl_check v mac = do {
     a \<leftarrow> vm_aclpriv v;
     Some (if as_policy a = ACL_POLICY_OPEN then True
           else if as_policy a = ACL_POLICY_ALLOW then find_acl a mac \<noteq> None
           else if as_policy a = ACL_POLICY_DENY then find_acl a mac = None
           else False)
   }"

definition acl_add :: "macaddr \<Rightarrow> acl_vif \<Rightarrow> (int \<times> acl_vif) option" where
  "acl_add mac v =
    (case net_malloc v of (None, v) \<Rightarrow> Some (ENOMEM, v)
     | (Some p, v) \<Rightarrow> do {
         a \<leftarrow> vm_aclpriv v;
         a \<leftarrow> ACL_LOCK a;
         if \<exists>q\<in>set (as_hash a (ACL_HASH mac)). acl_macaddr a q = Some mac
         then Some (EEXIST, v\<lparr>vm_aclpriv := Some (ACL_UNLOCK a)\<rparr>)
         else let h = ACL_HASH mac;
                  a = a\<lparr>acl_macaddr := (acl_macaddr a)(p \<mapsto> mac), as_list := as_list a @ [p],
                        as_hash := (as_hash a)(h := p # as_hash a h)\<rparr>
              in Some (0, v\<lparr>vm_aclpriv := Some (ACL_UNLOCK a)\<rparr>)
       })"

definition acl_remove :: "macaddr \<Rightarrow> acl_vif \<Rightarrow> (int \<times> acl_vif) option" where
  "acl_remove mac v = do {
     a \<leftarrow> vm_aclpriv v;
     a \<leftarrow> ACL_LOCK a;
     (case find_acl a mac of
        None \<Rightarrow> Some (ENOENT, v\<lparr>vm_aclpriv := Some (ACL_UNLOCK a)\<rparr>)
      | Some p \<Rightarrow> Some (0, v\<lparr>vm_aclpriv := Some (ACL_UNLOCK (acl_free p a))\<rparr>))
   }"

definition acl_free_all :: "acl_vif \<Rightarrow> (int \<times> acl_vif) option" where
  "acl_free_all v = do {
     a \<leftarrow> vm_aclpriv v;
     a \<leftarrow> acl_free_all_locked a;
     Some (0, v\<lparr>vm_aclpriv := Some a\<rparr>)
   }"

definition acl_setpolicy :: "int \<Rightarrow> acl_vif \<Rightarrow> (int \<times> acl_vif) option" where
  "acl_setpolicy p v = do {
     a \<leftarrow> vm_aclpriv v;
     if p = 0 then Some (0, v\<lparr>vm_aclpriv := Some (a\<lparr>as_policy := ACL_POLICY_OPEN\<rparr>)\<rparr>)
     else if p = 1 then Some (0, v\<lparr>vm_aclpriv := Some (a\<lparr>as_policy := ACL_POLICY_ALLOW\<rparr>)\<rparr>)
     else if p = 2 then Some (0, v\<lparr>vm_aclpriv := Some (a\<lparr>as_policy := ACL_POLICY_DENY\<rparr>)\<rparr>)
     else Some (EINVAL, v)
   }"

definition acl_getpolicy :: "acl_vif \<Rightarrow> int option" where
  "acl_getpolicy v = map_option as_policy (vm_aclpriv v)"

section \<open>The contract\<close>

text \<open>What wifi_mac_var.h asks of an actuator: a policy and a set of addresses, of which the
  operations change what they say.\<close>

datatype acl_op = Check macaddr | Add macaddr | Remove macaddr | Flush | SetPolicy int

text \<open>What an operation may answer and do, of a policy and a set.\<close>

fun acl_spec :: "acl_op \<Rightarrow> int \<times> macaddr set \<Rightarrow> int \<Rightarrow> int \<times> macaddr set \<Rightarrow> bool" where
  "acl_spec (Check mac) (p, S) r (p', S') \<longleftrightarrow> p' = p \<and> S' = S \<and>
     r = of_bool (p = 0 \<or> p = 1 \<and> mac \<in> S \<or> p = 2 \<and> mac \<notin> S)"
| "acl_spec (Add mac) (p, S) r (p', S') \<longleftrightarrow> p' = p \<and>
     (r = 0 \<and> mac \<notin> S \<and> S' = insert mac S \<or> r = EEXIST \<and> mac \<in> S \<and> S' = S \<or> r = ENOMEM \<and> S' = S)"
| "acl_spec (Remove mac) (p, S) r (p', S') \<longleftrightarrow> p' = p \<and> S' = S - {mac} \<and> r = (if mac \<in> S then 0 else ENOENT)"
| "acl_spec Flush (p, S) r (p', S') \<longleftrightarrow> p' = p \<and> S' = {} \<and> r = 0"
| "acl_spec (SetPolicy q) (p, S) r (p', S') \<longleftrightarrow> S' = S \<and>
     (if q \<in> {0, 1, 2} then r = 0 \<and> p' = q else r = EINVAL \<and> p' = p)"

locale actuator =
  fixes inv :: "'s \<Rightarrow> bool" and policy :: "'s \<Rightarrow> int" and macs :: "'s \<Rightarrow> macaddr set"
    and check :: "'s \<Rightarrow> macaddr \<Rightarrow> bool option" and add :: "macaddr \<Rightarrow> 's \<Rightarrow> (int \<times> 's) option"
    and remove :: "macaddr \<Rightarrow> 's \<Rightarrow> (int \<times> 's) option" and flush :: "'s \<Rightarrow> (int \<times> 's) option"
    and setpolicy :: "int \<Rightarrow> 's \<Rightarrow> (int \<times> 's) option"
  assumes check_law: "inv s \<Longrightarrow> check s mac = Some (policy s = 0 \<or> policy s = 1 \<and> mac \<in> macs s \<or> policy s = 2 \<and> mac \<notin> macs s)"
    and add_law: "inv s \<Longrightarrow> \<exists>r s'. add mac s = Some (r, s') \<and> inv s' \<and> policy s' = policy s \<and>
      (r = 0 \<and> mac \<notin> macs s \<and> macs s' = insert mac (macs s) \<or> r = EEXIST \<and> mac \<in> macs s \<and> macs s' = macs s \<or>
       r = ENOMEM \<and> macs s' = macs s)"
    and remove_law: "inv s \<Longrightarrow> \<exists>s'. remove mac s = Some (if mac \<in> macs s then 0 else ENOENT, s') \<and> inv s' \<and>
      policy s' = policy s \<and> macs s' = macs s - {mac}"
    and flush_law: "inv s \<Longrightarrow> \<exists>s'. flush s = Some (0, s') \<and> inv s' \<and> policy s' = policy s \<and> macs s' = {}"
    and setpolicy_law: "inv s \<Longrightarrow> \<exists>s'. setpolicy p s = Some (if p \<in> {0, 1, 2} then 0 else EINVAL, s') \<and> inv s' \<and>
      policy s' = (if p \<in> {0, 1, 2} then p else policy s) \<and> macs s' = macs s"
begin

lemma deny_then_refused:
  assumes "inv s"
  shows "\<exists>r s1 s2. add mac s = Some (r, s1) \<and> setpolicy 2 s1 = Some (0, s2) \<and> inv s2 \<and>
    (r = ENOMEM \<or> check s2 mac = Some False) \<and> (\<forall>m. m \<noteq> mac \<longrightarrow> check s2 m = Some (m \<notin> macs s))"
proof -
  obtain r s1 where 1: "add mac s = Some (r, s1)" "inv s1"
    "r = 0 \<and> macs s1 = insert mac (macs s) \<or> r = EEXIST \<and> mac \<in> macs s \<and> macs s1 = macs s \<or> r = ENOMEM \<and> macs s1 = macs s"
    using add_law [OF assms, of mac] by blast
  obtain s2 where 2: "setpolicy 2 s1 = Some (0, s2)" "inv s2" "policy s2 = 2" "macs s2 = macs s1"
    using setpolicy_law [OF 1(2), of 2] by auto
  show ?thesis using 1 2 check_law [OF 2(2)] by auto
qed

text \<open>Runs of the operations answer as a policy and a set do; memory may run out on an addition.\<close>

fun op :: "acl_op \<Rightarrow> 's \<Rightarrow> (int \<times> 's) option" where
  "op (Check mac) s = map_option (\<lambda>b. (of_bool b, s)) (check s mac)"
| "op (Add mac) s = add mac s"
| "op (Remove mac) s = remove mac s"
| "op Flush s = flush s"
| "op (SetPolicy p) s = setpolicy p s"

lemma op_refines:
  assumes "inv s"
  shows "\<exists>r s'. op x s = Some (r, s') \<and> inv s' \<and> acl_spec x (policy s, macs s) r (policy s', macs s')"
proof (cases x)
  case (Check mac) then show ?thesis using check_law [OF assms, of mac] assms by auto
next
  case (Add mac) then show ?thesis using add_law [OF assms, of mac] by auto
next
  case (Remove mac) then show ?thesis using remove_law [OF assms, of mac] by auto
next
  case Flush then show ?thesis using flush_law [OF assms] by auto
next
  case (SetPolicy p)
  then show ?thesis using setpolicy_law [OF assms, of p] by (cases "p \<in> {0, 1, 2}") (auto simp del: insert_iff)
qed

end

section \<open>The code keeps the contract\<close>

text \<open>The lists agree with the memory, and no address is there twice.\<close>

definition acl_ok :: "nat \<Rightarrow> acl \<Rightarrow> bool" where
  "acl_ok n a \<longleftrightarrow> \<not> as_lock a \<and> as_policy a \<in> {0, 1, 2} \<and> distinct (as_list a) \<and> set (as_list a) = dom (acl_macaddr a) \<and>
     (\<forall>h. distinct (as_hash a h) \<and> set (as_hash a h) = {p. \<exists>m. acl_macaddr a p = Some m \<and> ACL_HASH m = h}) \<and>
     (\<forall>p q m. acl_macaddr a p = Some m \<and> acl_macaddr a q = Some m \<longrightarrow> p = q) \<and> (\<forall>p\<in>set (as_list a). p < n)"

definition acl_inv :: "acl_vif \<Rightarrow> bool" where
  "acl_inv v \<longleftrightarrow> (case vm_aclpriv v of None \<Rightarrow> False | Some a \<Rightarrow> acl_ok (mallocs v) a)"

definition acl_macs :: "acl_vif \<Rightarrow> macaddr set" where
  "acl_macs v = (case vm_aclpriv v of None \<Rightarrow> {} | Some a \<Rightarrow> ran (acl_macaddr a))"

definition acl_pol :: "acl_vif \<Rightarrow> int" where
  "acl_pol v = (case vm_aclpriv v of None \<Rightarrow> 0 | Some a \<Rightarrow> as_policy a)"

lemma acl_invE:
  assumes "acl_inv v"
  obtains a where "vm_aclpriv v = Some a" "acl_ok (mallocs v) a" "acl_macs v = ran (acl_macaddr a)" "acl_pol v = as_policy a"
  using assms by (auto simp: acl_inv_def acl_macs_def acl_pol_def split: option.splits)

lemma find_acl_iff:
  assumes ok: "acl_ok n a"
  shows "find_acl a mac = Some p \<longleftrightarrow> acl_macaddr a p = Some mac"
proof
  show "acl_macaddr a p = Some mac" if "find_acl a mac = Some p" using that by (auto simp: find_acl_def find_Some_iff)
  assume p: "acl_macaddr a p = Some mac"
  then have "p \<in> set (as_hash a (ACL_HASH mac))" using ok by (simp add: acl_ok_def)
  then have "find_acl a mac \<noteq> None" using p by (auto simp: find_acl_def find_None_iff)
  then obtain q where q: "find_acl a mac = Some q" by blast
  then have "acl_macaddr a q = Some mac" by (auto simp: find_acl_def find_Some_iff)
  then have "q = p" using p ok unfolding acl_ok_def by blast
  then show "find_acl a mac = Some p" using q by simp
qed

lemma find_acl_None: "acl_ok n a \<Longrightarrow> find_acl a mac = None \<longleftrightarrow> mac \<notin> ran (acl_macaddr a)"
  using find_acl_iff [of n a mac] by (cases "find_acl a mac") (auto simp: ran_def)

lemma acl_free_ok:
  assumes "acl_ok n a" "acl_macaddr a p = Some m"
  shows "acl_ok n (acl_free p a)" "ran (acl_macaddr (acl_free p a)) = ran (acl_macaddr a) - {m}"
proof -
  note o = assms(1) [unfolded acl_ok_def]
  show "acl_ok n (acl_free p a)" unfolding acl_ok_def
  proof (intro conjI allI)
    show "set (as_list (acl_free p a)) = dom (acl_macaddr (acl_free p a))" using o by (simp add: acl_free_def)
    show "distinct (as_hash (acl_free p a) h)" for h using o by (simp add: acl_free_def)
    show "set (as_hash (acl_free p a) h) = {q. \<exists>m. acl_macaddr (acl_free p a) q = Some m \<and> ACL_HASH m = h}" for h
      using o by (auto simp: acl_free_def)
    show "acl_macaddr (acl_free p a) q = Some m \<and> acl_macaddr (acl_free p a) r = Some m \<longrightarrow> q = r" for q r m
      using o by (simp add: acl_free_def)
    show "\<forall>q\<in>set (as_list (acl_free p a)). q < n" using o by (simp add: acl_free_def)
  qed (use o in \<open>simp_all add: acl_free_def\<close>)
  show "ran (acl_macaddr (acl_free p a)) = ran (acl_macaddr a) - {m}"
  proof -
    have inj: "acl_macaddr a q = Some m \<Longrightarrow> q = p" for q using o assms(2) by blast
    have "x \<in> ran (acl_macaddr (acl_free p a)) \<longleftrightarrow> (\<exists>q. q \<noteq> p \<and> acl_macaddr a q = Some x)" for x
      by (auto simp: acl_free_def ran_def)
    moreover have "q \<noteq> p \<longleftrightarrow> x \<noteq> m" if "acl_macaddr a q = Some x" for q x using inj [of q] that assms(2) by auto
    ultimately have "x \<in> ran (acl_macaddr (acl_free p a)) \<longleftrightarrow> (\<exists>q. x \<noteq> m \<and> acl_macaddr a q = Some x)" for x by metis
    then show ?thesis by (auto simp: ran_def)
  qed
qed

lemma free_entries_ok:
  "acl_ok n a \<Longrightarrow> as_list a = ps \<Longrightarrow> acl_ok n (free_entries ps a) \<and> acl_macaddr (free_entries ps a) = Map.empty \<and>
   as_policy (free_entries ps a) = as_policy a"
proof (induction ps arbitrary: a)
  case Nil
  then have "dom (acl_macaddr a) = {}" by (simp add: acl_ok_def)
  then show ?case using Nil by simp
next
  case (Cons p ps)
  have "p \<in> dom (acl_macaddr a)" using Cons.prems unfolding acl_ok_def by (metis list.set_intros(1))
  then obtain m where m: "acl_macaddr a p = Some m" by blast
  have "as_list (acl_free p a) = ps" "as_policy (acl_free p a) = as_policy a" using Cons.prems(2) by (simp_all add: acl_free_def)
  then show ?case using Cons.IH [OF acl_free_ok(1) [OF Cons.prems(1) m]] by simp
qed

lemma acl_lock_ok: "acl_ok n a \<Longrightarrow> ACL_LOCK a = Some (a\<lparr>as_lock := True\<rparr>)"
  by (simp add: ACL_LOCK_def acl_ok_def)

lemma lock_simps [simp]:
  "find_acl (a\<lparr>as_lock := b\<rparr>) mac = find_acl a mac"
  "ACL_UNLOCK (acl_free p (a\<lparr>as_lock := b\<rparr>)) = ACL_UNLOCK (acl_free p a)"
  by (simp_all add: find_acl_def acl_free_def ACL_UNLOCK_def)

lemma acl_free_lock: "acl_free p (a\<lparr>as_lock := b\<rparr>) = (acl_free p a)\<lparr>as_lock := b\<rparr>"
  by (simp add: acl_free_def)

lemma free_entries_lock: "free_entries ps (a\<lparr>as_lock := b\<rparr>) = (free_entries ps a)\<lparr>as_lock := b\<rparr>"
  by (induction ps arbitrary: a) (simp_all add: acl_free_lock)

lemma unlock_id: "acl_ok n a \<Longrightarrow> ACL_UNLOCK a = a" "acl_ok n a \<Longrightarrow> a\<lparr>as_lock := False\<rparr> = a"
  by (cases a, simp add: ACL_UNLOCK_def acl_ok_def)+

lemma acl_free_all_locked_ok:
  assumes "acl_ok n a"
  shows "\<exists>a'. acl_free_all_locked a = Some a' \<and> acl_ok n a' \<and> acl_macaddr a' = Map.empty \<and> as_policy a' = as_policy a"
proof -
  let ?f = "free_entries (as_list a) a"
  note f = free_entries_ok [OF assms refl]
  have "acl_free_all_locked a = Some (ACL_UNLOCK (?f\<lparr>as_lock := True\<rparr>))"
    by (simp add: acl_free_all_locked_def acl_lock_ok [OF assms] free_entries_lock)
  also have "ACL_UNLOCK (?f\<lparr>as_lock := True\<rparr>) = ACL_UNLOCK ?f" by (simp add: ACL_UNLOCK_def)
  finally show ?thesis using f unlock_id(1) [of n ?f] by simp
qed

lemma acl_check_law:
  assumes "acl_inv v"
  shows "acl_check v mac = Some (acl_pol v = 0 \<or> acl_pol v = 1 \<and> mac \<in> acl_macs v \<or> acl_pol v = 2 \<and> mac \<notin> acl_macs v)"
proof -
  obtain a where a: "vm_aclpriv v = Some a" "acl_ok (mallocs v) a" "acl_macs v = ran (acl_macaddr a)" "acl_pol v = as_policy a"
    using assms by (rule acl_invE)
  show ?thesis using a(1,3,4) find_acl_None [OF a(2), of mac] by (simp add: acl_check_def)
qed

lemma acl_ok_mono: "acl_ok n a \<Longrightarrow> acl_ok (Suc n) a"
  unfolding acl_ok_def using less_SucI by blast

lemma acl_ok_add:
  assumes ok: "acl_ok n a" and new: "mac \<notin> ran (acl_macaddr a)"
  shows "acl_ok (Suc n) (a\<lparr>acl_macaddr := (acl_macaddr a)(n \<mapsto> mac), as_list := as_list a @ [n],
      as_hash := (as_hash a)(ACL_HASH mac := n # as_hash a (ACL_HASH mac))\<rparr>)" (is "acl_ok _ ?a")
    "ran ((acl_macaddr a)(n \<mapsto> mac)) = insert mac (ran (acl_macaddr a))"
proof -
  note o = ok [unfolded acl_ok_def]
  have n: "n \<notin> set (as_list a)" "acl_macaddr a n = None" "n \<notin> set (as_hash a h)" for h using o by fastforce+
  have nr: "acl_macaddr a q \<noteq> Some mac" for q using new by (auto simp: ran_def)
  show "acl_ok (Suc n) ?a" unfolding acl_ok_def
  proof (intro conjI allI)
    show "distinct (as_hash ?a h)" for h using o n by simp
    show "set (as_hash ?a h) = {q. \<exists>m. acl_macaddr ?a q = Some m \<and> ACL_HASH m = h}" for h using o n(2) by auto
    show "acl_macaddr ?a q = Some m \<and> acl_macaddr ?a r = Some m \<longrightarrow> q = r" for q r m
    proof
      assume "acl_macaddr ?a q = Some m \<and> acl_macaddr ?a r = Some m"
      moreover have "acl_macaddr a q = Some m \<Longrightarrow> acl_macaddr a r = Some m \<Longrightarrow> q = r" using o by blast
      ultimately show "q = r" using nr by (auto split: if_splits)
    qed
    show "set (as_list ?a) = dom (acl_macaddr ?a)" using o by simp
    have "\<forall>q\<in>set (as_list a). q < n" using o by blast
    then show "\<forall>q\<in>set (as_list ?a). q < Suc n" by auto
  qed (use o n in simp_all)
  show "ran ((acl_macaddr a)(n \<mapsto> mac)) = insert mac (ran (acl_macaddr a))" using n(2) by (rule ran_map_upd)
qed

lemma acl_add_law:
  assumes "acl_inv v"
  shows "\<exists>r v'. acl_add mac v = Some (r, v') \<and> acl_inv v' \<and> acl_pol v' = acl_pol v \<and>
    (r = 0 \<and> mac \<notin> acl_macs v \<and> acl_macs v' = insert mac (acl_macs v) \<or> r = EEXIST \<and> mac \<in> acl_macs v \<and> acl_macs v' = acl_macs v \<or>
     r = ENOMEM \<and> acl_macs v' = acl_macs v)"
proof -
  obtain a where a: "vm_aclpriv v = Some a" "acl_ok (mallocs v) a" "acl_macs v = ran (acl_macaddr a)" "acl_pol v = as_policy a"
    using assms by (rule acl_invE)
  note up = acl_ok_mono [OF a(2)]
  have ex: "(\<exists>q\<in>set (as_hash a (ACL_HASH mac)). acl_macaddr a q = Some mac) \<longleftrightarrow> mac \<in> ran (acl_macaddr a)"
    using a(2) by (auto simp: acl_ok_def ran_def)
  consider "\<not> malloc_ok v (mallocs v)" | "malloc_ok v (mallocs v)" "mac \<in> ran (acl_macaddr a)"
    | "malloc_ok v (mallocs v)" "mac \<notin> ran (acl_macaddr a)" by blast
  then show ?thesis
  proof cases
    case 1
    then show ?thesis using a up by (simp add: acl_add_def net_malloc_def acl_inv_def acl_pol_def acl_macs_def)
  next
    case 2
    then show ?thesis using a up ex
      by (simp add: acl_add_def net_malloc_def acl_lock_ok [OF a(2)] acl_inv_def acl_pol_def acl_macs_def ACL_UNLOCK_def unlock_id(2) [OF a(2)])
  next
    case 3
    let ?a = "a\<lparr>acl_macaddr := (acl_macaddr a)(mallocs v \<mapsto> mac), as_list := as_list a @ [mallocs v],
      as_hash := (as_hash a)(ACL_HASH mac := mallocs v # as_hash a (ACL_HASH mac))\<rparr>"
    note n = acl_ok_add [OF a(2) 3(2)]
    have l: "a\<lparr>acl_macaddr := (acl_macaddr a)(mallocs v \<mapsto> mac), as_list := as_list a @ [mallocs v],
      as_hash := (as_hash a)(ACL_HASH mac := mallocs v # as_hash a (ACL_HASH mac)), as_lock := False\<rparr> = ?a"
      using a(2) by (cases a) (simp add: acl_ok_def)
    have "acl_add mac v = Some (0, v\<lparr>mallocs := Suc (mallocs v), vm_aclpriv := Some (?a\<lparr>as_lock := False\<rparr>)\<rparr>)"
      using a(1) 3 ex by (simp add: acl_add_def net_malloc_def acl_lock_ok [OF a(2)] Let_def ACL_UNLOCK_def)
    also have "?a\<lparr>as_lock := False\<rparr> = ?a" by (rule l)
    finally have "acl_add mac v = Some (0, v\<lparr>mallocs := Suc (mallocs v), vm_aclpriv := Some ?a\<rparr>)" .
    then show ?thesis using n 3 a by (simp add: acl_inv_def acl_pol_def acl_macs_def)
  qed
qed

lemma acl_remove_law:
  assumes "acl_inv v"
  shows "\<exists>v'. acl_remove mac v = Some (if mac \<in> acl_macs v then 0 else ENOENT, v') \<and> acl_inv v' \<and>
    acl_pol v' = acl_pol v \<and> acl_macs v' = acl_macs v - {mac}"
proof -
  obtain a where a: "vm_aclpriv v = Some a" "acl_ok (mallocs v) a" "acl_macs v = ran (acl_macaddr a)" "acl_pol v = as_policy a"
    using assms by (rule acl_invE)
  show ?thesis
  proof (cases "find_acl a mac")
    case None
    then have "mac \<notin> ran (acl_macaddr a)" using find_acl_None [OF a(2)] by blast
    then show ?thesis using None a
      by (simp add: acl_remove_def acl_lock_ok [OF a(2)] acl_inv_def acl_pol_def acl_macs_def ACL_UNLOCK_def unlock_id(2) [OF a(2)])
  next
    case (Some p)
    then have p: "acl_macaddr a p = Some mac" using find_acl_iff [OF a(2)] by blast
    note f = acl_free_ok [OF a(2) p]
    have pol: "as_policy (acl_free p a) = as_policy a" by (simp add: acl_free_def)
    have "mac \<in> ran (acl_macaddr a)" using p by (auto simp: ran_def)
    then show ?thesis using Some a f unlock_id(1) [OF f(1)] pol
      by (simp add: acl_remove_def acl_lock_ok [OF a(2)] acl_inv_def acl_pol_def acl_macs_def)
  qed
qed

lemma acl_flush_law:
  assumes "acl_inv v"
  shows "\<exists>v'. acl_free_all v = Some (0, v') \<and> acl_inv v' \<and> acl_pol v' = acl_pol v \<and> acl_macs v' = {}"
proof -
  obtain a where a: "vm_aclpriv v = Some a" "acl_ok (mallocs v) a" "acl_macs v = ran (acl_macaddr a)" "acl_pol v = as_policy a"
    using assms by (rule acl_invE)
  show ?thesis using a acl_free_all_locked_ok [OF a(2)] by (auto simp: acl_free_all_def acl_inv_def acl_pol_def acl_macs_def)
qed

lemma acl_setpolicy_law:
  assumes "acl_inv v"
  shows "\<exists>v'. acl_setpolicy p v = Some (if p \<in> {0, 1, 2} then 0 else EINVAL, v') \<and> acl_inv v' \<and>
    acl_pol v' = (if p \<in> {0, 1, 2} then p else acl_pol v) \<and> acl_macs v' = acl_macs v"
proof -
  obtain a where a: "vm_aclpriv v = Some a" "acl_ok (mallocs v) a" "acl_macs v = ran (acl_macaddr a)" "acl_pol v = as_policy a"
    using assms by (rule acl_invE)
  have "q \<in> {0, 1, 2} \<Longrightarrow> acl_ok (mallocs v) (a\<lparr>as_policy := q\<rparr>)" for q using a(2) by (simp add: acl_ok_def)
  then show ?thesis using a by (auto simp: acl_setpolicy_def acl_inv_def acl_pol_def acl_macs_def)
qed

interpretation acl: actuator acl_inv acl_pol acl_macs acl_check acl_add acl_remove acl_free_all acl_setpolicy
  by unfold_locales (rule acl_check_law acl_add_law acl_remove_law acl_flush_law acl_setpolicy_law; assumption)+

section \<open>Runs\<close>

fun acl_step :: "acl_op \<Rightarrow> acl_vif \<Rightarrow> (int \<times> acl_vif) option" where
  "acl_step (Check mac) v = map_option (\<lambda>b. (of_bool b, v)) (acl_check v mac)"
| "acl_step (Add mac) v = acl_add mac v"
| "acl_step (Remove mac) v = acl_remove mac v"
| "acl_step Flush v = acl_free_all v"
| "acl_step (SetPolicy p) v = acl_setpolicy p v"

lemma acl_step_op: "acl_step x v = acl.op x v"
  by (cases x) simp_all

fun acl_run :: "acl_op list \<Rightarrow> acl_vif \<Rightarrow> (int list \<times> acl_vif) option" where
  "acl_run [] v = Some ([], v)"
| "acl_run (x # xs) v = Option.bind (acl_step x v) (\<lambda>(r, v). map_option (\<lambda>(rs, v). (r # rs, v)) (acl_run xs v))"

inductive acl_spec_run :: "acl_op list \<Rightarrow> int \<times> macaddr set \<Rightarrow> int list \<Rightarrow> int \<times> macaddr set \<Rightarrow> bool" where
  spec_nil: "acl_spec_run [] S [] S"
| spec_cons: "acl_spec x S r S' \<Longrightarrow> acl_spec_run xs S' rs S'' \<Longrightarrow> acl_spec_run (x # xs) S (r # rs) S''"

lemma acl_run_refines:
  "acl_inv v \<Longrightarrow> \<exists>rs v'. acl_run xs v = Some (rs, v') \<and> acl_inv v' \<and>
    acl_spec_run xs (acl_pol v, acl_macs v) rs (acl_pol v', acl_macs v')"
proof (induction xs arbitrary: v)
  case Nil then show ?case by (simp add: spec_nil)
next
  case (Cons x xs)
  obtain r u where u: "acl_step x v = Some (r, u)" "acl_inv u" "acl_spec x (acl_pol v, acl_macs v) r (acl_pol u, acl_macs u)"
    using acl.op_refines [OF Cons.prems, of x] by (auto simp: acl_step_op)
  then show ?case using Cons.IH [OF u(2)] spec_cons [OF u(3)] by auto
qed

text \<open>C29: The access control list implements a policy and a set of addresses: after acl_attach got its
  memory, any sequence of checks, additions, removals, flushes and changes of policy returns without
  a fault and answers as the set does (0, EEXIST, ENOENT, EINVAL, or ENOMEM with nothing changed), for
  addresses that share a bucket as for others.\<close>
theorem acl_implements_set:
  assumes "acl_attach v = (1, v0)"
  shows "\<exists>rs v'. acl_run xs v0 = Some (rs, v') \<and> acl_spec_run xs (0, {}) rs (acl_pol v', acl_macs v')"
proof -
  have "acl_inv v0" "acl_pol v0 = 0" "acl_macs v0 = {}"
    using assms by (auto simp: acl_attach_def net_malloc_def acl_inv_def acl_ok_def acl_pol_def acl_macs_def split: if_splits)
  then show ?thesis using acl_run_refines [of v0 xs] by auto
qed

definition ex_vif :: acl_vif where
  "ex_vif = \<lparr>vm_aclpriv = None, my_mod_use = 0, malloc_ok = \<lambda>n. n \<noteq> 3, mallocs = 0\<rparr>"

definition ex_acl_ops :: "acl_op list" where
  "ex_acl_ops = [Add (replicate 6 1), Add (replicate 5 2 @ [33]), Add (replicate 6 7), Add (replicate 6 1), SetPolicy 2,
     Check (replicate 6 1), Check (replicate 6 7), Remove (replicate 6 1), Remove (replicate 6 1), Check (replicate 6 1), SetPolicy 5]"

theorem acl_implements_set_witness:
  "map_option fst (acl_run ex_acl_ops (snd (acl_attach ex_vif))) = Some [0, 0, ENOMEM, EEXIST, 0, 0, 1, 0, ENOENT, 1, EINVAL] \<and>
   (\<exists>rs v'. acl_run ex_acl_ops (snd (acl_attach ex_vif)) = Some (rs, v') \<and> acl_spec_run ex_acl_ops (0, {}) rs (acl_pol v', acl_macs v'))"
proof (intro conjI)
  show "map_option fst (acl_run ex_acl_ops (snd (acl_attach ex_vif))) = Some [0, 0, ENOMEM, EEXIST, 0, 0, 1, 0, ENOENT, 1, EINVAL]"
    by code_simp
  have "acl_attach ex_vif = (1, snd (acl_attach ex_vif))" by (simp add: acl_attach_def net_malloc_def ex_vif_def)
  then show "\<exists>rs v'. acl_run ex_acl_ops (snd (acl_attach ex_vif)) = Some (rs, v') \<and>
      acl_spec_run ex_acl_ops (0, {}) rs (acl_pol v', acl_macs v')" by (rule acl_implements_set)
qed

text \<open>acl_detach takes the lock and calls acl_free_all_locked, which takes it again.\<close>

lemma acl_detach_deadlocks: "acl_inv v \<Longrightarrow> acl_detach v = None"
  by (auto simp: acl_inv_def acl_ok_def acl_detach_def ACL_LOCK_def acl_free_all_locked_def split: option.splits)

end
