(* ===== verification/RsnIe.thy ===== *)
theory RsnIe
  imports Prelude
begin

text \<open>
  The security elements of 802.11 frames: wifi_mac_recv.c tells them apart and parses them, for the
  side that sent them (own) and against what the own side asks for; wifi_mac_xmit.c writes them.  An
  element is the list of its bytes with the two of its head; a parser that reads behind them, and a
  writer that reads behind its tables, give None.
\<close>

unbundle bit_operations_syntax

section \<open>Bytes\<close>

definition rd8 :: "u8 list \<Rightarrow> nat \<Rightarrow> nat option" where
  "rd8 d i = (if i < length d then Some (unat (d ! i)) else None)"

definition rd16 :: "u8 list \<Rightarrow> nat \<Rightarrow> nat option" where
  "rd16 d i = (if i + 1 < length d then Some (unat (READ_16L ((!) d) i)) else None)"

definition rd32 :: "u8 list \<Rightarrow> nat \<Rightarrow> u32 option" where
  "rd32 d i = (if i + 3 < length d then Some (READ_32L ((!) d) i) else None)"

definition READ_32B :: "bytes \<Rightarrow> nat \<Rightarrow> u32" where
  "READ_32B f i = ucast (f (i + 3)) OR push_bit 8 (ucast (f (i + 2))) OR push_bit 16 (ucast (f (i + 1))) OR push_bit 24 (ucast (f i))"

definition rd32b :: "u8 list \<Rightarrow> nat \<Rightarrow> u32 option" where
  "rd32b d i = (if i + 3 < length d then Some (READ_32B ((!) d) i) else None)"

text \<open>The length of an element is counted down in an unsigned char.\<close>

definition sub8 :: "nat \<Rightarrow> nat \<Rightarrow> nat" where
  "sub8 a k = (a + 256 - k mod 256) mod 256"

text \<open>1 << n on an int of 32 bits; what it is for n = 32 the language does not say: U.\<close>

definition shift1 :: "u32 \<Rightarrow> nat \<Rightarrow> u32" where
  "shift1 U n = (if n < 32 then push_bit n 1 else U)"

section \<open>Kinds of elements\<close>

abbreviation (input) WPA_OUI :: u32 where "WPA_OUI \<equiv> 0xf25000"
abbreviation (input) RSN_OUI :: u32 where "RSN_OUI \<equiv> 0xac0f00"

definition WPA_SEL :: "nat \<Rightarrow> u32" where
  "WPA_SEL x = push_bit 24 (word_of_nat x) OR WPA_OUI"

definition RSN_SEL :: "nat \<Rightarrow> u32" where
  "RSN_SEL x = push_bit 24 (word_of_nat x) OR RSN_OUI"

text \<open>The test of the length comes first, so nothing is read when it fails.\<close>

definition has_oui :: "(u8 list \<Rightarrow> nat \<Rightarrow> u32 option) \<Rightarrow> u32 \<Rightarrow> u8 list \<Rightarrow> bool option" where
  "has_oui rd oui d = do { l \<leftarrow> rd8 d 1; if l > 3 then map_option (\<lambda>w. w = oui) (rd d 2) else Some False }"

definition iswpaoui :: "u8 list \<Rightarrow> bool option" where
  "iswpaoui = has_oui rd32 (push_bit 24 1 OR WPA_OUI)"

definition iswmeoui :: "u8 list \<Rightarrow> bool option" where
  "iswmeoui = has_oui rd32 (push_bit 24 2 OR WPA_OUI)"

definition wme_subtype :: "nat \<Rightarrow> u8 list \<Rightarrow> bool option" where
  "wme_subtype t d = do {
     l \<leftarrow> rd8 d 1;
     if l > 5 then do {
       w \<leftarrow> rd32 d 2;
       if w = push_bit 24 2 OR WPA_OUI then map_option (\<lambda>x. x = t) (rd8 d 6) else Some False
     } else Some False
   }"

definition iswmeparam :: "u8 list \<Rightarrow> bool option" where
  "iswmeparam = wme_subtype 1"

definition iswmeinfo :: "u8 list \<Rightarrow> bool option" where
  "iswmeinfo = wme_subtype 0"

definition iswpsoui :: "u8 list \<Rightarrow> bool option" where
  "iswpsoui = has_oui rd32b 0x0050f204"

definition isp2poui :: "u8 list \<Rightarrow> bool option" where
  "isp2poui = has_oui rd32b 0x506f9a09"

definition is_only_11b_rates :: "u8 list \<Rightarrow> bool option" where
  "is_only_11b_rates d = do { l \<leftarrow> rd8 d 1; if l = 4 then map_option (\<lambda>w. w = 0x02040b16) (rd32b d 2) else Some False }"

definition isrokuoui :: "u8 list \<Rightarrow> bool option" where
  "isrokuoui = has_oui rd32b 0xc83a6b00"

definition iswfdoui :: "u8 list \<Rightarrow> bool option" where
  "iswfdoui = has_oui rd32b 0x506f9a0a"

definition iswaioui :: "u8 list \<Rightarrow> bool option" where
  "iswaioui = has_oui rd32b 0x0050f201"

section \<open>Ciphers and key management\<close>

abbreviation (input) WIFINET_CIPHER_WEP :: nat where "WIFINET_CIPHER_WEP \<equiv> 0"
abbreviation (input) WIFINET_CIPHER_TKIP :: nat where "WIFINET_CIPHER_TKIP \<equiv> 1"
abbreviation (input) WIFINET_CIPHER_AES_OCB :: nat where "WIFINET_CIPHER_AES_OCB \<equiv> 2"
abbreviation (input) WIFINET_CIPHER_AES_CCM :: nat where "WIFINET_CIPHER_AES_CCM \<equiv> 3"
abbreviation (input) WIFINET_CIPHER_WPI :: nat where "WIFINET_CIPHER_WPI \<equiv> 4"
abbreviation (input) WIFINET_CIPHER_AES_PSK_256 :: nat where "WIFINET_CIPHER_AES_PSK_256 \<equiv> 6"
abbreviation (input) WIFINET_CIPHER_AES_SAE :: nat where "WIFINET_CIPHER_AES_SAE \<equiv> 8"
abbreviation (input) WIFINET_CIPHER_NONE :: nat where "WIFINET_CIPHER_NONE \<equiv> 9"
abbreviation (input) WIFINET_REASON_IE_INVALID :: int where "WIFINET_REASON_IE_INVALID \<equiv> 13"

text \<open>The cipher a selector names, 32 for none known, and the length of its key where it sets one.\<close>

definition wpa_cipher :: "u32 \<Rightarrow> u8 \<Rightarrow> nat \<times> u8" where
  "wpa_cipher w keylen =
    (if w = WPA_SEL 0 then (WIFINET_CIPHER_NONE, keylen)
     else if w = WPA_SEL 1 then (WIFINET_CIPHER_WEP, 5)
     else if w = WPA_SEL 5 then (WIFINET_CIPHER_WEP, 13)
     else if w = WPA_SEL 2 then (WIFINET_CIPHER_TKIP, keylen)
     else if w = WPA_SEL 4 then (WIFINET_CIPHER_AES_CCM, keylen)
     else (32, keylen))"

definition wpa_keymgmt :: "u32 \<Rightarrow> nat" where
  "wpa_keymgmt w = (if w = WPA_SEL 1 then 1 else if w = WPA_SEL 2 then 2 else 0)"

definition rsn_cipher :: "u32 \<Rightarrow> u8 \<Rightarrow> nat \<times> u8" where
  "rsn_cipher w keylen =
    (if w = RSN_SEL 0 then (WIFINET_CIPHER_NONE, keylen)
     else if w = RSN_SEL 1 then (WIFINET_CIPHER_WEP, 5)
     else if w = RSN_SEL 5 then (WIFINET_CIPHER_WEP, 13)
     else if w = RSN_SEL 2 then (WIFINET_CIPHER_TKIP, keylen)
     else if w = RSN_SEL 3 then (WIFINET_CIPHER_AES_OCB, keylen)
     else if w = RSN_SEL 4 then (WIFINET_CIPHER_AES_CCM, keylen)
     else if w = RSN_SEL 6 then (WIFINET_CIPHER_AES_PSK_256, keylen)
     else if w = RSN_SEL 8 then (WIFINET_CIPHER_AES_SAE, keylen)
     else (32, keylen))"

definition rsn_keymgmt :: "u32 \<Rightarrow> nat" where
  "rsn_keymgmt w =
    (if w = RSN_SEL 1 then 1 else if w = RSN_SEL 2 then 2 else if w = RSN_SEL 6 then 6
     else if w = RSN_SEL 8 then 8 else if w = RSN_SEL 5 then 5 else 0)"

record Rsnparms =
  rsn_mcastcipher :: u8
  rsn_mcastkeylen :: u8
  rsn_ucastcipherset :: u8
  rsn_ucastcipher :: u8
  rsn_ucastkeylen :: u8
  rsn_keymgmtset :: u16
  rsn_caps :: u16
  rsn_caps_offset :: u8
  rsn_pmkid_count :: u8
  rsn_pmkid_offset :: u8
  rsn_pmkid :: "u8 list"
  rsn_gmcipher :: u8
  sa_valid :: bool
  gtksa :: u8
  ptksa :: u8

definition cipher2cap :: "nat \<Rightarrow> u32" where
  "cipher2cap c = (if c = WIFINET_CIPHER_WEP then 1 else if c = WIFINET_CIPHER_AES_OCB then 4
     else if c = WIFINET_CIPHER_AES_CCM then 8 else if c = WIFINET_CIPHER_WPI then 16
     else if c = WIFINET_CIPHER_TKIP then 2 else 0)"

section \<open>Parsing\<close>

text \<open>n selectors from i on: the set of the ciphers they name.\<close>

fun cipher_loop :: "(u32 \<Rightarrow> u8 \<Rightarrow> nat \<times> u8) \<Rightarrow> u32 \<Rightarrow> u8 list \<Rightarrow> nat \<Rightarrow> nat \<Rightarrow> u32 \<Rightarrow> u8 \<Rightarrow> (u32 \<times> u8) option" where
  "cipher_loop cipher U d 0 i w keylen = Some (w, keylen)"
| "cipher_loop cipher U d (Suc n) i w keylen = do {
     sel \<leftarrow> rd32 d i;
     let (c, keylen) = cipher sel keylen;
     cipher_loop cipher U d n (i + 4) (w OR shift1 U c) keylen
   }"

fun keymgmt_loop :: "(u32 \<Rightarrow> nat) \<Rightarrow> u8 list \<Rightarrow> nat \<Rightarrow> nat \<Rightarrow> u32 \<Rightarrow> u32 option" where
  "keymgmt_loop km d 0 i w = Some w"
| "keymgmt_loop km d (Suc n) i w = do {
     sel \<leftarrow> rd32 d i;
     keymgmt_loop km d n (i + 4) (w OR push_bit (km sel) 1)
   }"

text \<open>The last two bytes of a WPA element.\<close>

definition wpa_sa :: "u8 list \<Rightarrow> nat \<Rightarrow> nat \<Rightarrow> Rsnparms \<Rightarrow> (int \<times> Rsnparms) option" where
  "wpa_sa d i len r =
    (if len \<ge> 2 then do {
       a \<leftarrow> rd8 d i; b \<leftarrow> rd8 d (i + 1);
       Some (0, r\<lparr>sa_valid := True, gtksa := word_of_nat a, ptksa := word_of_nat b\<rparr>)
     } else Some (0, r))"

definition wpa_akm :: "u8 list \<Rightarrow> bool \<Rightarrow> nat \<Rightarrow> nat \<Rightarrow> Rsnparms \<Rightarrow> (int \<times> Rsnparms) option" where
  "wpa_akm d own i len r = do {
     n \<leftarrow> rd16 d i;
     let i = i + 2;
     let len = sub8 len 2;
     if len < n * 4 then Some (WIFINET_REASON_IE_INVALID, r)
     else do {
       w \<leftarrow> keymgmt_loop wpa_keymgmt d n i 0;
       let i = i + 4 * n;
       let len = sub8 len (4 * n);
       let (w, r) = (if own then (w, r\<lparr>rsn_keymgmtset := ucast w\<rparr>) else (w AND ucast (rsn_keymgmtset r), r));
       if w = 0 then Some (WIFINET_REASON_IE_INVALID, r) else wpa_sa d i len r
     }
   }"

definition wpa_ucast :: "u32 \<Rightarrow> u8 list \<Rightarrow> bool \<Rightarrow> nat \<Rightarrow> nat \<Rightarrow> Rsnparms \<Rightarrow> (int \<times> Rsnparms) option" where
  "wpa_ucast U d own i len r = do {
     n \<leftarrow> rd16 d i;
     let i = i + 2;
     let len = sub8 len 2;
     if len < n * 4 + 2 then Some (WIFINET_REASON_IE_INVALID, r)
     else do {
       (w, keylen) \<leftarrow> cipher_loop wpa_cipher U d n i 0 (rsn_ucastkeylen r);
       let i = i + 4 * n;
       let len = sub8 len (4 * n);
       let r = r\<lparr>rsn_ucastkeylen := keylen\<rparr>;
       let (w, r) = (if own then (w, r\<lparr>rsn_ucastcipherset := ucast w\<rparr>) else (w AND ucast (rsn_ucastcipherset r), r));
       if w = 0 then Some (WIFINET_REASON_IE_INVALID, r)
       else wpa_akm d own i len (if own then r else r\<lparr>rsn_ucastcipher :=
              (if bit w WIFINET_CIPHER_AES_CCM then word_of_nat WIFINET_CIPHER_AES_CCM else word_of_nat WIFINET_CIPHER_TKIP)\<rparr>)
     }
   }"

definition wifi_mac_parse_wpa :: "u32 \<Rightarrow> Rsnparms \<Rightarrow> u8 list \<Rightarrow> bool \<Rightarrow> (int \<times> Rsnparms) option" where
  "wifi_mac_parse_wpa U r d own = do {
     len \<leftarrow> rd8 d 1;
     if len < 14 then Some (WIFINET_REASON_IE_INVALID, r)
     else do {
       ver \<leftarrow> rd16 d 6;
       if ver \<noteq> 1 then Some (WIFINET_REASON_IE_INVALID, r)
       else do {
         sel \<leftarrow> rd32 d 8;
         let (c, keylen) = wpa_cipher sel (rsn_mcastkeylen r);
         let r = r\<lparr>rsn_mcastkeylen := keylen\<rparr>;
         let r = (if own then r\<lparr>rsn_mcastcipher := word_of_nat c\<rparr> else r);
         if c \<noteq> unat (rsn_mcastcipher r) then Some (WIFINET_REASON_IE_INVALID, r)
         else wpa_ucast U d own 12 (sub8 (sub8 (sub8 len 4) 2) 4) r
       }
     }
   }"

text \<open>The element a station sends of its own: ok tells the ciphers it can do, n is an unsigned char.\<close>

fun own_cipher_loop :: "(nat \<Rightarrow> bool) \<Rightarrow> u8 list \<Rightarrow> nat \<Rightarrow> nat \<Rightarrow> Rsnparms \<Rightarrow> (bool \<times> Rsnparms) option" where
  "own_cipher_loop ok d 0 i r = Some (True, r)"
| "own_cipher_loop ok d (Suc n) i r = do {
     sel \<leftarrow> rd32 d i;
     let (c, keylen) = rsn_cipher sel (rsn_ucastkeylen r);
     let r = r\<lparr>rsn_ucastkeylen := keylen\<rparr>;
     if c = 32 \<or> \<not> ok c then Some (False, r)
     else own_cipher_loop ok d n (i + 4) (r\<lparr>rsn_ucastcipherset := ucast (ucast (rsn_ucastcipherset r) OR (push_bit c 1 :: u32))\<rparr>)
   }"

fun own_keymgmt_loop :: "u8 list \<Rightarrow> nat \<Rightarrow> nat \<Rightarrow> Rsnparms \<Rightarrow> (bool \<times> Rsnparms) option" where
  "own_keymgmt_loop d 0 i r = Some (True, r)"
| "own_keymgmt_loop d (Suc n) i r = do {
     sel \<leftarrow> rd32 d i;
     let k = rsn_keymgmt sel;
     if k = 0 then Some (False, r)
     else own_keymgmt_loop d n (i + 4) (r\<lparr>rsn_keymgmtset := ucast (ucast (rsn_keymgmtset r) OR (push_bit k 1 :: u32))\<rparr>)
   }"

text \<open>Capabilities, identifiers of keys and the cipher of management frames, each if there is room.\<close>

definition own_gm :: "u8 list \<Rightarrow> nat \<Rightarrow> nat \<Rightarrow> Rsnparms \<Rightarrow> (int \<times> Rsnparms) option" where
  "own_gm d len i r =
    (if len + 2 \<ge> i + 4 then map_option (\<lambda>sel. (0, r\<lparr>rsn_gmcipher := word_of_nat (rsn_keymgmt sel)\<rparr>)) (rd32 d i)
     else Some (0, r))"

definition own_pmkid :: "u8 list \<Rightarrow> nat \<Rightarrow> nat \<Rightarrow> Rsnparms \<Rightarrow> (int \<times> Rsnparms) option" where
  "own_pmkid d len i r = do {
     (i, r) \<leftarrow> (if len + 2 \<ge> i + 2 then map_option (\<lambda>c. (i + 2, r\<lparr>rsn_pmkid_count := word_of_nat c\<rparr>)) (rd16 d i)
                else Some (i, r\<lparr>rsn_pmkid_count := 0\<rparr>));
     let c = unat (rsn_pmkid_count r);
     if c = 0 then own_gm d len i (r\<lparr>rsn_pmkid_offset := 0\<rparr>)
     else if len + 2 \<ge> i + c * 16
     then if i + 16 \<le> length d
          then own_gm d len (i + 16 * c) (r\<lparr>rsn_pmkid_offset := word_of_nat i, rsn_pmkid := take 16 (drop i d)\<rparr>)
          else None
     else Some (WIFINET_REASON_IE_INVALID, r)
   }"

definition own_caps :: "u8 list \<Rightarrow> nat \<Rightarrow> nat \<Rightarrow> Rsnparms \<Rightarrow> (int \<times> Rsnparms) option" where
  "own_caps d len i r =
    (if len + 2 \<ge> i + 2
     then do { c \<leftarrow> rd16 d i; own_pmkid d len (i + 2) (r\<lparr>rsn_caps := word_of_nat c, rsn_caps_offset := word_of_nat i\<rparr>) }
     else own_pmkid d len i r)"

definition own_akm :: "u8 list \<Rightarrow> nat \<Rightarrow> nat \<Rightarrow> Rsnparms \<Rightarrow> (int \<times> Rsnparms) option" where
  "own_akm d len i r = do {
     n \<leftarrow> map_option (\<lambda>n. n mod 256) (rd16 d i);
     let i = i + 2;
     if len + 2 < i + n * 4 then Some (WIFINET_REASON_IE_INVALID, r)
     else do {
       (ok, r) \<leftarrow> own_keymgmt_loop d n i r;
       if \<not> ok then Some (WIFINET_REASON_IE_INVALID, r) else own_caps d len (i + 4 * n) r
     }
   }"

definition wifi_mac_parse_own_rsn :: "(nat \<Rightarrow> bool) \<Rightarrow> Rsnparms \<Rightarrow> u8 list \<Rightarrow> (int \<times> Rsnparms) option" where
  "wifi_mac_parse_own_rsn ok r d = do {
     len \<leftarrow> rd8 d 1;
     if len < 10 then Some (WIFINET_REASON_IE_INVALID, r)
     else do {
       ver \<leftarrow> rd16 d 2;
       if ver \<noteq> 1 then Some (WIFINET_REASON_IE_INVALID, r)
       else do {
         sel \<leftarrow> rd32 d 4;
         let (c, keylen) = rsn_cipher sel (rsn_mcastkeylen r);
         let r = r\<lparr>rsn_mcastkeylen := keylen\<rparr>;
         if c = 32 \<or> \<not> ok c then Some (WIFINET_REASON_IE_INVALID, r)
         else do {
           let r = r\<lparr>rsn_mcastcipher := word_of_nat c\<rparr>;
           n \<leftarrow> map_option (\<lambda>n. n mod 256) (rd16 d 8);
           if len + 2 < 10 + n * 4 + 2 then Some (WIFINET_REASON_IE_INVALID, r)
           else do {
             (ok, r) \<leftarrow> own_cipher_loop ok d n 10 r;
             if \<not> ok then Some (WIFINET_REASON_IE_INVALID, r)
             else own_akm d len (10 + 4 * n) (r\<lparr>rsn_ucastcipher :=
                    (if bit (rsn_ucastcipherset r) WIFINET_CIPHER_AES_CCM then word_of_nat WIFINET_CIPHER_AES_CCM
                     else word_of_nat WIFINET_CIPHER_TKIP)\<rparr>)
           }
         }
       }
     }
   }"

text \<open>The element of the other side, judged against what the own side asks for or only read.\<close>

fun rsn_cipher_loop :: "u32 \<Rightarrow> u8 list \<Rightarrow> nat \<Rightarrow> nat \<Rightarrow> u32 \<Rightarrow> u8 \<Rightarrow> (bool \<times> u32 \<times> u8) option" where
  "rsn_cipher_loop U d 0 i w keylen = Some (True, w, keylen)"
| "rsn_cipher_loop U d (Suc n) i w keylen = do {
     sel \<leftarrow> rd32 d i;
     let (c, keylen) = rsn_cipher sel keylen;
     let w = w OR shift1 U c;
     if w = 32 then Some (False, w, keylen) else rsn_cipher_loop U d n (i + 4) w keylen
   }"

fun rsn_keymgmt_loop :: "u8 list \<Rightarrow> nat \<Rightarrow> nat \<Rightarrow> u32 \<Rightarrow> (bool \<times> u32) option" where
  "rsn_keymgmt_loop d 0 i w = Some (True, w)"
| "rsn_keymgmt_loop d (Suc n) i w = do {
     sel \<leftarrow> rd32 d i;
     let w = w OR push_bit (rsn_keymgmt sel) 1;
     if w = 1 then Some (False, w) else rsn_keymgmt_loop d n (i + 4) w
   }"

definition rsn_gm :: "u8 list \<Rightarrow> nat \<Rightarrow> nat \<Rightarrow> Rsnparms \<Rightarrow> (int \<times> Rsnparms) option" where
  "rsn_gm d i len r =
    (if len \<ge> 4 then map_option (\<lambda>sel. (0, r\<lparr>rsn_gmcipher := word_of_nat (rsn_keymgmt sel)\<rparr>)) (rd32 d i)
     else Some (0, r\<lparr>rsn_gmcipher := 0\<rparr>))"

definition rsn_pmkids :: "u8 list \<Rightarrow> nat \<Rightarrow> nat \<Rightarrow> Rsnparms \<Rightarrow> (int \<times> Rsnparms) option" where
  "rsn_pmkids d i len r = do {
     (i, len, r) \<leftarrow> (if len \<ge> 2 then map_option (\<lambda>c. (i + 2, sub8 len 2, r\<lparr>rsn_pmkid_count := word_of_nat c\<rparr>)) (rd16 d i)
                     else Some (i, len, r\<lparr>rsn_pmkid_count := 0\<rparr>));
     let c = unat (rsn_pmkid_count r);
     if c = 0 then rsn_gm d i len (r\<lparr>rsn_pmkid_offset := 0\<rparr>)
     else if len \<ge> c * 16
     then if i + 16 \<le> length d then rsn_gm d (i + 16 * c) (sub8 len (16 * c)) (r\<lparr>rsn_pmkid := take 16 (drop i d)\<rparr>) else None
     else Some (WIFINET_REASON_IE_INVALID, r)
   }"

text \<open>scanning is WIFINET_F_SCAN of the mac.\<close>

definition rsn_tail :: "bool \<Rightarrow> bool \<Rightarrow> u8 list \<Rightarrow> nat \<Rightarrow> nat \<Rightarrow> Rsnparms \<Rightarrow> (int \<times> Rsnparms) option" where
  "rsn_tail scanning judge d i len r =
    (if len \<ge> 2
     then do {
       c \<leftarrow> rd16 d i;
       l \<leftarrow> rd8 d 1;
       rsn_pmkids d (i + 2) (sub8 len 2) (r\<lparr>rsn_caps := word_of_nat c, rsn_caps_offset := word_of_nat l - word_of_nat len + 2\<rparr>)
     }
     else if \<not> judge \<and> \<not> scanning then Some (WIFINET_REASON_IE_INVALID, r)
     else rsn_pmkids d i len r)"

definition rsn_akm :: "bool \<Rightarrow> bool \<Rightarrow> u8 list \<Rightarrow> nat \<Rightarrow> nat \<Rightarrow> Rsnparms \<Rightarrow> (int \<times> Rsnparms) option" where
  "rsn_akm scanning judge d i len r = do {
     n \<leftarrow> rd16 d i;
     let i = i + 2;
     let len = sub8 len 2;
     if n = 0 \<or> len < n * 4 then Some (WIFINET_REASON_IE_INVALID, r)
     else do {
       (ok, w) \<leftarrow> rsn_keymgmt_loop d n i 0;
       if \<not> ok \<or> judge \<and> w AND ucast (rsn_keymgmtset r) = 0 then Some (WIFINET_REASON_IE_INVALID, r)
       else rsn_tail scanning judge d (i + 4 * n) (sub8 len (4 * n)) r
     }
   }"

definition wifi_mac_parse_counterpart_rsn :: "u32 \<Rightarrow> bool \<Rightarrow> Rsnparms \<Rightarrow> u8 list \<Rightarrow> bool \<Rightarrow> (int \<times> Rsnparms) option" where
  "wifi_mac_parse_counterpart_rsn U scanning r d judge = do {
     len \<leftarrow> rd8 d 1;
     if len < 10 then Some (WIFINET_REASON_IE_INVALID, r)
     else do {
       ver \<leftarrow> rd16 d 2;
       if ver \<noteq> 1 then Some (WIFINET_REASON_IE_INVALID, r)
       else do {
         sel \<leftarrow> rd32 d 4;
         let (c, keylen) = rsn_cipher sel (rsn_mcastkeylen r);
         let r = r\<lparr>rsn_mcastkeylen := keylen\<rparr>;
         if c = 32 \<or> judge \<and> c \<noteq> unat (rsn_mcastcipher r) then Some (WIFINET_REASON_IE_INVALID, r)
         else do {
           n \<leftarrow> rd16 d 8;
           let len = sub8 (sub8 (sub8 len 2) 4) 2;
           if n = 0 \<or> len < n * 4 + 2 then Some (WIFINET_REASON_IE_INVALID, r)
           else do {
             (ok, w, keylen) \<leftarrow> rsn_cipher_loop U d n 10 0 (rsn_ucastkeylen r);
             let r = r\<lparr>rsn_ucastkeylen := keylen\<rparr>;
             if \<not> ok \<or> judge \<and> w AND ucast (rsn_ucastcipherset r) = 0 then Some (WIFINET_REASON_IE_INVALID, r)
             else rsn_akm scanning judge d (10 + 4 * n) (sub8 len (4 * n)) r
           }
         }
       }
     }
   }"

section \<open>Writing\<close>

abbreviation (input) WIFINET_ELEMID_RSN :: u8 where "WIFINET_ELEMID_RSN \<equiv> 48"
abbreviation (input) WIFINET_ELEMID_VENDOR :: u8 where "WIFINET_ELEMID_VENDOR \<equiv> 221"

definition le16 :: "nat \<Rightarrow> u8 list" where
  "le16 v = [word_of_nat v, word_of_nat (v div 256)]"

definition rsn_sel :: "u8 \<Rightarrow> u8 list" where
  "rsn_sel x = [0x00, 0x0f, 0xac, x]"

definition wpa_sel :: "u8 \<Rightarrow> u8 list" where
  "wpa_sel x = [0x00, 0x50, 0xf2, x]"

text \<open>The tables of ciphers have six rows.\<close>

definition rsn_cipher_suite :: "u8 list list" where
  "rsn_cipher_suite = [rsn_sel 1, rsn_sel 2, rsn_sel 3, rsn_sel 4, [0, 0, 0, 0], rsn_sel 0]"

definition wpa_cipher_suite :: "u8 list list" where
  "wpa_cipher_suite = [wpa_sel 1, wpa_sel 2, [0, 0, 0, 0], wpa_sel 4, [0, 0, 0, 0], wpa_sel 0]"

definition group_sel :: "u8 list list \<Rightarrow> u8 list \<Rightarrow> Rsnparms \<Rightarrow> u8 list option" where
  "group_sel suite wep104 r =
    (if rsn_mcastcipher r = 0 \<and> rsn_mcastkeylen r \<ge> 13 then Some wep104 else arr suite (unat (rsn_mcastcipher r)))"

definition selectors :: "u8 list list \<Rightarrow> u8 list" where
  "selectors sels = le16 (length sels) @ concat sels"

definition pairwise_sels :: "u8 list list \<Rightarrow> Rsnparms \<Rightarrow> u8 list list" where
  "pairwise_sels suite r = (if bit (rsn_ucastcipherset r) 3 then [suite ! 3] else []) @
     (if bit (rsn_ucastcipherset r) 1 then [suite ! 1] else [])"

text \<open>The functions that write assert their conditions, and a KASSERT that fails calls BUG: an
  element is no longer than struct wifi_mac_ie_wpa, and the flags allow it.\<close>

abbreviation (input) WPA_IE_SIZE :: nat where "WPA_IE_SIZE \<equiv> 100"

definition wifi_mac_setup_wpa_ie :: "Rsnparms \<Rightarrow> u8 list option" where
  "wifi_mac_setup_wpa_ie r = do {
     g \<leftarrow> group_sel wpa_cipher_suite (wpa_sel 5) r;
     let b = wpa_sel 1 @ le16 1 @ g @ selectors (pairwise_sels wpa_cipher_suite r) @
       selectors ((if bit (rsn_keymgmtset r) 1 then [wpa_sel 1] else []) @ (if bit (rsn_keymgmtset r) 2 then [wpa_sel 2] else [])) @
       (if sa_valid r then [gtksa r, ptksa r] else []);
     if length b + 2 > WPA_IE_SIZE then None
     else Some (WIFINET_ELEMID_VENDOR # word_of_nat (length b) # b)
   }"

definition rsn_akm_sels :: "Rsnparms \<Rightarrow> u8 list list" where
  "rsn_akm_sels r = (if bit (rsn_keymgmtset r) 1 then [rsn_sel 1] else []) @ (if bit (rsn_keymgmtset r) 2 then [rsn_sel 2] else []) @
     (if bit (rsn_keymgmtset r) 6 then [rsn_sel 6] else []) @ (if bit (rsn_keymgmtset r) 8 then [rsn_sel 8] else [])"

definition wifi_mac_setup_rsn_ie :: "Rsnparms \<Rightarrow> u8 list option" where
  "wifi_mac_setup_rsn_ie r = do {
     g \<leftarrow> group_sel rsn_cipher_suite (rsn_sel 5) r;
     let b = le16 1 @ g @ selectors (pairwise_sels rsn_cipher_suite r) @ selectors (rsn_akm_sels r) @ le16 (unat (rsn_caps r));
     if length b + 2 > WPA_IE_SIZE then None
     else Some (WIFINET_ELEMID_RSN # word_of_nat (length b) # b)
   }"

definition wifi_mac_add_rsnxe :: "bool \<Rightarrow> bool \<Rightarrow> u8 list option" where
  "wifi_mac_add_rsnxe wpa h2e = (if wpa \<and> h2e then Some [244, 1, 0x20] else None)"

definition wifi_mac_add_wpa :: "bool \<Rightarrow> bool \<Rightarrow> bool \<Rightarrow> Rsnparms \<Rightarrow> u8 list option" where
  "wifi_mac_add_wpa wpa wpa2 wpa1 r = (if \<not> wpa then None else do {
     a \<leftarrow> (if wpa2 then wifi_mac_setup_rsn_ie r else Some []);
     b \<leftarrow> (if wpa1 then wifi_mac_setup_wpa_ie r else Some []);
     Some (a @ b)
   })"

end
