(* ===== verification/RsnProps.thy ===== *)
theory RsnProps
  imports RsnIe
begin

text \<open>
  What the security elements promise: the parsers read inside an element whatever is in it, an element
  that passes the judgement shares a cipher and a key management with the own side, and the elements
  the driver writes are accepted by its own parsers.
\<close>

section \<open>Reading inside the element\<close>

declare split_paired_Ex [simp del] not_None_eq [iff del] bind_eq_None_conv [simp]

lemma u8_less: "unat (w :: u8) < 256"
  using unsigned_less [of w] by simp

lemma u16_less: "unat (w :: u16) < 65536"
  using unsigned_less [of w] by simp

lemma sub8_eq [simp]: "a < 256 \<Longrightarrow> k \<le> a \<Longrightarrow> sub8 a k = a - k"
proof -
  assume a: "a < 256" "k \<le> a"
  then have "a + 256 - k = (a - k) + 256" by simp
  then have "sub8 a k = ((a - k) + 256) mod 256" using a by (simp only: sub8_def) simp
  then show ?thesis using a by (simp only: mod_add_self2) simp
qed

lemma rd8_in: "i < length d \<Longrightarrow> rd8 d i \<noteq> None"
  by (simp add: rd8_def)

lemma rd16_in: "i + 2 \<le> length d \<Longrightarrow> rd16 d i \<noteq> None"
  by (simp add: rd16_def)

lemma rd32_in: "i + 4 \<le> length d \<Longrightarrow> rd32 d i \<noteq> None"
  by (simp add: rd32_def)

lemma cipher_loop_in: "i + 4 * n \<le> length d \<Longrightarrow> cipher_loop c U d n i w k \<noteq> None"
  by (induction n arbitrary: i w k) (use rd32_in in \<open>simp_all add: Let_def split: prod.split\<close>)

lemma keymgmt_loop_in: "i + 4 * n \<le> length d \<Longrightarrow> keymgmt_loop km d n i w \<noteq> None"
  by (induction n arbitrary: i w) (use rd32_in in \<open>simp_all add: Let_def split: prod.split\<close>)

lemma own_cipher_loop_in: "i + 4 * n \<le> length d \<Longrightarrow> own_cipher_loop ok d n i r \<noteq> None"
  by (induction n arbitrary: i r) (use rd32_in in \<open>simp_all add: Let_def split: prod.split\<close>)

lemma own_keymgmt_loop_in: "i + 4 * n \<le> length d \<Longrightarrow> own_keymgmt_loop d n i r \<noteq> None"
  by (induction n arbitrary: i r) (use rd32_in in \<open>simp_all add: Let_def split: prod.split\<close>)

lemma rsn_cipher_loop_in: "i + 4 * n \<le> length d \<Longrightarrow> rsn_cipher_loop U d n i w k \<noteq> None"
  by (induction n arbitrary: i w k) (use rd32_in in \<open>simp_all add: Let_def split: prod.split\<close>)

lemma rsn_keymgmt_loop_in: "i + 4 * n \<le> length d \<Longrightarrow> rsn_keymgmt_loop d n i w \<noteq> None"
  by (induction n arbitrary: i w) (use rd32_in in \<open>simp_all add: Let_def split: prod.split\<close>)

text \<open>Behind the head, the position and what is left of the length add up to the element.\<close>

lemma rsn_gm_in: "i + len = length d \<Longrightarrow> rsn_gm d i len r \<noteq> None"
  using rd32_in [of i d] by (auto simp: rsn_gm_def split: prod.splits)

lemma rsn_pmkids_in:
  assumes "i + len = length d" "len < 256"
  shows "rsn_pmkids d i len r \<noteq> None"
proof (cases "len \<ge> 2")
  case True
  then obtain c where "rd16 d i = Some c" using rd16_in [of i d] assms by (auto simp: not_None_eq)
  then show ?thesis using True assms rsn_gm_in [of "i + 2" "len - 2" d]
      rsn_gm_in [of "i + 2 + 16 * unat (word_of_nat c :: u8)" "len - 2 - 16 * unat (word_of_nat c :: u8)" d]
    by (auto simp: rsn_pmkids_def Let_def split: prod.splits)
next
  case False
  then show ?thesis using assms rsn_gm_in [of i len d] by (auto simp: rsn_pmkids_def Let_def split: prod.splits)
qed

lemma rsn_tail_in:
  assumes "i + len = length d" "len < 256" "2 \<le> length d"
  shows "rsn_tail sc judge d i len r \<noteq> None"
proof -
  obtain l where "rd8 d 1 = Some l" using rd8_in [of 1 d] assms by (auto simp: not_None_eq)
  moreover have "len \<ge> 2 \<Longrightarrow> rd16 d i \<noteq> None" using rd16_in [of i d] assms by (auto simp: not_None_eq)
  ultimately show ?thesis using assms rsn_pmkids_in [of "i + 2" "len - 2" d] rsn_pmkids_in [of i len d]
    by (auto simp: rsn_tail_def split: prod.splits)
qed

lemma rsn_akm_in:
  assumes "i + len = length d" "len < 256" "2 \<le> len"
  shows "rsn_akm sc judge d i len r \<noteq> None"
proof -
  obtain n where n: "rd16 d i = Some n" using rd16_in [of i d] assms by (auto simp: not_None_eq)
  have "rsn_keymgmt_loop d n (i + 2) 0 \<noteq> None" if "n * 4 \<le> len - 2"
    using rsn_keymgmt_loop_in [of "i + 2" n d] that assms by auto
  moreover have "rsn_tail sc judge d (i + 2 + 4 * n) (len - 2 - 4 * n) r \<noteq> None" if "n * 4 \<le> len - 2"
    using rsn_tail_in [of "i + 2 + 4 * n" "len - 2 - 4 * n" d] that assms by auto
  ultimately show ?thesis using n assms by (auto simp: rsn_akm_def Let_def not_less mult.commute split: prod.splits)
qed

lemma counterpart_in:
  assumes "length d = 2 + unat (d ! 1)" "2 \<le> length d"
  shows "wifi_mac_parse_counterpart_rsn U sc r d judge \<noteq> None"
proof -
  let ?l = "unat (d ! 1)"
  have l: "rd8 d 1 = Some ?l" "?l < 256" using assms u8_less by (simp_all add: rd8_def)
  show ?thesis
  proof (cases "?l < 10")
    case True then show ?thesis using l by (simp add: wifi_mac_parse_counterpart_rsn_def)
  next
    case False
    obtain v s n where rd: "rd16 d 2 = Some v" "rd32 d 4 = Some s" "rd16 d 8 = Some n"
      using False assms rd16_in [of 2 d] rd32_in [of 4 d] rd16_in [of 8 d] by (auto simp: not_None_eq)
    have "rsn_cipher_loop U d n 10 0 k \<noteq> None" if "n * 4 + 2 \<le> ?l - 8" for k
      using rsn_cipher_loop_in [of 10 n d] that assms by auto
    moreover have "rsn_akm sc judge d (10 + 4 * n) (?l - 8 - 4 * n) q \<noteq> None" if "n * 4 + 2 \<le> ?l - 8" for q
      using rsn_akm_in [of "10 + 4 * n" "?l - 8 - 4 * n" d] that assms l by auto
    ultimately show ?thesis using False l rd
      by (auto simp: wifi_mac_parse_counterpart_rsn_def Let_def not_less mult.commute split: prod.splits)
  qed
qed

text \<open>The elements of WPA, and of RSN of the own side.\<close>

lemma wpa_akm_in:
  assumes "i + len = length d" "len < 256" "2 \<le> len"
  shows "wpa_akm d own i len r \<noteq> None"
proof -
  obtain n where n: "rd16 d i = Some n" using rd16_in [of i d] assms by (auto simp: not_None_eq)
  have "keymgmt_loop wpa_keymgmt d n (i + 2) 0 \<noteq> None" if "n * 4 \<le> len - 2"
    using keymgmt_loop_in [of "i + 2" n d] that assms by auto
  moreover have "wpa_sa d (i + 2 + 4 * n) (len - 2 - 4 * n) q \<noteq> None" if "n * 4 \<le> len - 2" for q
    using rd8_in [of "i + 2 + 4 * n" d] rd8_in [of "i + 2 + 4 * n + 1" d] that assms by (auto simp: wpa_sa_def split: prod.splits)
  ultimately show ?thesis using n assms by (auto simp: wpa_akm_def Let_def not_less mult.commute split: prod.splits)
qed

lemma wpa_ucast_in:
  assumes "i + len = length d" "len < 256" "2 \<le> len"
  shows "wpa_ucast U d own i len r \<noteq> None"
proof -
  obtain n where n: "rd16 d i = Some n" using rd16_in [of i d] assms by (auto simp: not_None_eq)
  have "cipher_loop wpa_cipher U d n (i + 2) 0 k \<noteq> None" if "n * 4 + 2 \<le> len - 2" for k
    using cipher_loop_in [of "i + 2" n d] that assms by auto
  moreover have "wpa_akm d own (i + 2 + 4 * n) (len - 2 - 4 * n) q \<noteq> None" if "n * 4 + 2 \<le> len - 2" for q
    using wpa_akm_in [of "i + 2 + 4 * n" "len - 2 - 4 * n" d] that assms by auto
  ultimately show ?thesis using n assms by (auto simp: wpa_ucast_def Let_def not_less mult.commute split: prod.splits)
qed

lemma wpa_in:
  assumes "length d = 2 + unat (d ! 1)" "2 \<le> length d"
  shows "wifi_mac_parse_wpa U r d own \<noteq> None"
proof -
  let ?l = "unat (d ! 1)"
  have l: "rd8 d 1 = Some ?l" "?l < 256" using assms u8_less by (simp_all add: rd8_def)
  show ?thesis
  proof (cases "?l < 14")
    case True then show ?thesis using l by (simp add: wifi_mac_parse_wpa_def)
  next
    case False
    obtain v s where rd: "rd16 d 6 = Some v" "rd32 d 8 = Some s"
      using False assms rd16_in [of 6 d] rd32_in [of 8 d] by (auto simp: not_None_eq)
    have "wpa_ucast U d own 12 (?l - 10) q \<noteq> None" for q
      using wpa_ucast_in [of 12 "?l - 10" d] False assms l by auto
    then show ?thesis using False l rd by (simp add: wifi_mac_parse_wpa_def Let_def split: prod.splits)
  qed
qed

lemma own_gm_in: "length d = len + 2 \<Longrightarrow> own_gm d len i r \<noteq> None"
  using rd32_in [of i d] by (auto simp: own_gm_def split: prod.splits)

lemma own_pmkid_in:
  assumes "length d = len + 2"
  shows "own_pmkid d len i r \<noteq> None"
proof -
  have "i + 2 \<le> len + 2 \<Longrightarrow> rd16 d i \<noteq> None" using rd16_in [of i d] assms by auto
  then show ?thesis using own_gm_in [OF assms] assms by (auto simp: own_pmkid_def Let_def not_le split: prod.splits)
qed

lemma own_caps_in:
  assumes "length d = len + 2"
  shows "own_caps d len i r \<noteq> None"
proof -
  have "i + 2 \<le> len + 2 \<Longrightarrow> rd16 d i \<noteq> None" using rd16_in [of i d] assms by auto
  then show ?thesis using own_pmkid_in [OF assms] by (auto simp: own_caps_def split: prod.splits)
qed

lemma own_akm_in:
  assumes "length d = len + 2" "i + 2 \<le> len + 2"
  shows "own_akm d len i r \<noteq> None"
proof -
  obtain n where "rd16 d i = Some n" using rd16_in [of i d] assms by (auto simp: not_None_eq)
  moreover have "own_keymgmt_loop d m (i + 2) r \<noteq> None" if "i + 2 + m * 4 \<le> len + 2" for m
    using own_keymgmt_loop_in [of "i + 2" m d] that assms by auto
  ultimately show ?thesis using own_caps_in [OF assms(1)] by (auto simp: own_akm_def Let_def not_less split: prod.splits)
qed

lemma own_in:
  assumes "length d = 2 + unat (d ! 1)" "2 \<le> length d"
  shows "wifi_mac_parse_own_rsn ok r d \<noteq> None"
proof -
  let ?l = "unat (d ! 1)"
  have l: "rd8 d 1 = Some ?l" "?l < 256" using assms u8_less by (simp_all add: rd8_def)
  show ?thesis
  proof (cases "?l < 10")
    case True then show ?thesis using l by (simp add: wifi_mac_parse_own_rsn_def)
  next
    case False
    obtain v s n where rd: "rd16 d 2 = Some v" "rd32 d 4 = Some s" "rd16 d 8 = Some n"
      using False assms rd16_in [of 2 d] rd32_in [of 4 d] rd16_in [of 8 d] by (auto simp: not_None_eq)
    have "own_cipher_loop ok d m 10 q \<noteq> None" if "10 + m * 4 + 2 \<le> ?l + 2" for m q
      using own_cipher_loop_in [of 10 m d] that assms by auto
    moreover have "own_akm d ?l (10 + 4 * m) q \<noteq> None" if "10 + m * 4 + 2 \<le> ?l + 2" for m q
      using own_akm_in [of d ?l "10 + 4 * m"] that assms by auto
    ultimately show ?thesis using False l rd
      by (auto simp: wifi_mac_parse_own_rsn_def Let_def not_less split: prod.splits)
  qed
qed

section \<open>What the judgement lets pass\<close>

lemma rsn_cipher_fst: "fst (rsn_cipher sel k) = fst (rsn_cipher sel 0)"
  by (simp add: rsn_cipher_def)

text \<open>A bit of the set is that of a selector.\<close>

lemma rsn_cipher_loop_bit:
  assumes "rsn_cipher_loop U d n i w k = Some (b, w', k')" "bit w' c" "\<not> bit w c"
  shows "\<exists>j<n. \<exists>sel. rd32 d (i + 4 * j) = Some sel \<and> bit (shift1 U (fst (rsn_cipher sel 0))) c"
  using assms
proof (induction n arbitrary: i w k)
  case (Suc n)
  obtain sel where sel: "rd32 d i = Some sel" using Suc.prems(1) by (auto simp: bind_eq_Some_conv)
  let ?c = "fst (rsn_cipher sel 0)"
  show ?case
  proof (cases "bit (shift1 U ?c) c")
    case True then show ?thesis using sel by (intro exI [of _ 0]) auto
  next
    case False
    then have nb: "\<not> bit (w OR shift1 U ?c) c" using Suc.prems(3) by (simp add: bit_or_iff)
    have f: "fst (rsn_cipher sel k) = ?c" by (rule rsn_cipher_fst)
    have "rsn_cipher_loop U d n (i + 4) (w OR shift1 U ?c) (snd (rsn_cipher sel k)) = Some (b, w', k')"
      using Suc.prems(1,2) sel nb f by (auto simp: Let_def case_prod_beta split: if_splits)
    from Suc.IH [OF this Suc.prems(2) nb] obtain j sel' where j: "j < n" "rd32 d (i + 4 + 4 * j) = Some sel'"
      "bit (shift1 U (fst (rsn_cipher sel' 0))) c" by blast
    then show ?thesis by (intro exI [of _ "Suc j"]) (simp add: add.assoc)
  qed
qed simp

lemma rsn_keymgmt_loop_bit:
  assumes "rsn_keymgmt_loop d n i w = Some (b, w')" "bit w' c" "\<not> bit w c"
  shows "\<exists>j<n. \<exists>sel. rd32 d (i + 4 * j) = Some sel \<and> rsn_keymgmt sel = c"
  using assms
proof (induction n arbitrary: i w)
  case (Suc n)
  obtain sel where sel: "rd32 d i = Some sel" using Suc.prems(1) by (auto simp: bind_eq_Some_conv)
  show ?case
  proof (cases "rsn_keymgmt sel = c")
    case True then show ?thesis using sel by (intro exI [of _ 0]) auto
  next
    case False
    then have nb: "\<not> bit (w OR push_bit (rsn_keymgmt sel) 1) c" using Suc.prems(3) by (auto simp: bit_or_iff bit_exp_iff)
    have "rsn_keymgmt_loop d n (i + 4) (w OR push_bit (rsn_keymgmt sel) 1) = Some (b, w')"
      using Suc.prems(1,2) sel nb by (auto simp: Let_def split: if_splits)
    from Suc.IH [OF this Suc.prems(2) nb] obtain j sel' where "j < n" "rd32 d (i + 4 + 4 * j) = Some sel'" "rsn_keymgmt sel' = c"
      by blast
    then show ?thesis by (intro exI [of _ "Suc j"]) (simp add: add.assoc)
  qed
qed simp

lemma and_nonzero_bit: "(w :: 'a :: len word) AND v \<noteq> 0 \<Longrightarrow> \<exists>c. bit w c \<and> bit v c"
  by (metis bit_and_iff bit_0_eq bot_apply bot_bool_def bit_eq_iff)

lemma rsn_akm_passes:
  assumes "rsn_akm sc True d i len r = Some (0, r')"
  shows "\<exists>n j sel. rd16 d i = Some n \<and> j < n \<and> rd32 d (i + 2 + 4 * j) = Some sel \<and> bit (rsn_keymgmtset r) (rsn_keymgmt sel)"
proof -
  obtain n ok w where n: "rd16 d i = Some n" "rsn_keymgmt_loop d n (i + 2) 0 = Some (ok, w)" "w AND ucast (rsn_keymgmtset r) \<noteq> 0"
    using assms by (auto simp: rsn_akm_def Let_def bind_eq_Some_conv split: if_splits)
  obtain c where c: "bit w c" "bit (ucast (rsn_keymgmtset r) :: u32) c" using and_nonzero_bit [OF n(3)] by blast
  have "bit (rsn_keymgmtset r) c" using c(2) by (simp add: bit_ucast_iff)
  then show ?thesis using rsn_keymgmt_loop_bit [OF n(2) c(1)] n(1) by auto
qed

text \<open>Where the element says how many selectors of ciphers there are, and of key management.\<close>

definition judged_ok :: "u32 \<Rightarrow> Rsnparms \<Rightarrow> u8 list \<Rightarrow> bool" where
  "judged_ok U r d \<longleftrightarrow> rd16 d 2 = Some 1 \<and> (\<exists>sel. rd32 d 4 = Some sel \<and> fst (rsn_cipher sel 0) = unat (rsn_mcastcipher r) \<and> unat (rsn_mcastcipher r) \<noteq> 32) \<and>
     (\<exists>n m. rd16 d 8 = Some n \<and> rd16 d (10 + 4 * n) = Some m \<and>
       (\<exists>j<n. \<exists>sel c. rd32 d (10 + 4 * j) = Some sel \<and> bit (rsn_ucastcipherset r) c \<and> bit (shift1 U (fst (rsn_cipher sel 0))) c) \<and>
       (\<exists>j<m. \<exists>sel. rd32 d (12 + 4 * n + 4 * j) = Some sel \<and> bit (rsn_keymgmtset r) (rsn_keymgmt sel)))"

lemma counterpart_judged:
  assumes "wifi_mac_parse_counterpart_rsn U sc r d True = Some (0, r')"
  shows "judged_ok U r d"
proof -
  obtain len sel n ok w k r1 where p: "rd16 d 2 = Some 1" "rd32 d 4 = Some sel"
    "fst (rsn_cipher sel (rsn_mcastkeylen r)) = unat (rsn_mcastcipher r)" "unat (rsn_mcastcipher r) \<noteq> 32" "rd16 d 8 = Some n"
    "rsn_cipher_loop U d n 10 0 (rsn_ucastkeylen r) = Some (ok, w, k)" "w AND ucast (rsn_ucastcipherset r) \<noteq> 0"
    "rsn_akm sc True d (10 + 4 * n) len r1 = Some (0, r')" "rsn_keymgmtset r1 = rsn_keymgmtset r"
    using assms by (auto simp: wifi_mac_parse_counterpart_rsn_def Let_def bind_eq_Some_conv case_prod_beta split: if_splits)
  obtain c where c: "bit w c" "bit (ucast (rsn_ucastcipherset r) :: u32) c" using and_nonzero_bit [OF p(7)] by blast
  have "bit (rsn_ucastcipherset r) c" using c(2) by (simp add: bit_ucast_iff)
  then have u: "\<exists>j<n. \<exists>sel c. rd32 d (10 + 4 * j) = Some sel \<and> bit (rsn_ucastcipherset r) c \<and> bit (shift1 U (fst (rsn_cipher sel 0))) c"
    using rsn_cipher_loop_bit [OF p(6) c(1)] by auto
  obtain m j s where "rd16 d (10 + 4 * n) = Some m" "j < m" "rd32 d (10 + 4 * n + 2 + 4 * j) = Some s"
    "bit (rsn_keymgmtset r) (rsn_keymgmt s)" using rsn_akm_passes [OF p(8)] p(9) by auto
  then have "rd16 d (10 + 4 * n) = Some m \<and> (\<exists>j<m. \<exists>sel. rd32 d (12 + 4 * n + 4 * j) = Some sel \<and> bit (rsn_keymgmtset r) (rsn_keymgmt sel))"
    by (auto simp: add.commute add.left_commute intro!: exI [of _ j])
  then show ?thesis using p u rsn_cipher_fst unfolding judged_ok_def by metis
qed

section \<open>Reading back what was written\<close>

definition sel_word :: "u8 list \<Rightarrow> u32" where
  "sel_word s = READ_32L ((!) s) 0"

lemma rd32_at: "length s = 4 \<Longrightarrow> length xs = i \<Longrightarrow> rd32 (xs @ s @ ys) i = Some (sel_word s)"
  by (simp add: rd32_def sel_word_def READ_32L_def nth_append numeral_2_eq_2)

lemma le16_word: "READ_16L ((!) (le16 v)) 0 = word_of_nat v"
proof (rule bit_word_eqI)
  fix n assume n: "n < LENGTH(16)"
  have d: "v div 256 = drop_bit 8 v" by (simp add: drop_bit_eq_div)
  show "bit (READ_16L ((!) (le16 v)) 0) n = bit (word_of_nat v :: u16) n"
    using n unfolding READ_16L_def le16_def d by (auto simp: bit_simps not_less)
qed

lemma rd16_at: "length xs = i \<Longrightarrow> rd16 (xs @ le16 v @ ys) i = Some (v mod 65536)"
proof -
  assume i: "length xs = i"
  have "READ_16L ((!) (xs @ le16 v @ ys)) i = READ_16L ((!) (le16 v)) 0"
    using i by (simp add: READ_16L_def nth_append le16_def)
  then show ?thesis using i le16_word [of v] by (simp add: rd16_def le16_def unat_of_nat)
qed

fun cipher_list :: "u32 \<Rightarrow> u8 list list \<Rightarrow> u32 \<Rightarrow> u8 \<Rightarrow> bool \<times> u32 \<times> u8" where
  "cipher_list U [] w k = (True, w, k)"
| "cipher_list U (s # ss) w k = (let (c, k) = rsn_cipher (sel_word s) k; w = w OR shift1 U c
     in if w = 32 then (False, w, k) else cipher_list U ss w k)"

fun keymgmt_list :: "u8 list list \<Rightarrow> u32 \<Rightarrow> bool \<times> u32" where
  "keymgmt_list [] w = (True, w)"
| "keymgmt_list (s # ss) w = (let w = w OR push_bit (rsn_keymgmt (sel_word s)) 1
     in if w = 1 then (False, w) else keymgmt_list ss w)"

lemma rsn_cipher_loop_at:
  "\<forall>s\<in>set sels. length s = 4 \<Longrightarrow> length xs = i \<Longrightarrow>
    rsn_cipher_loop U (xs @ concat sels @ ys) (length sels) i w k = Some (cipher_list U sels w k)"
proof (induction sels arbitrary: xs i w k)
  case (Cons s ss)
  have "rd32 (xs @ s @ concat ss @ ys) i = Some (sel_word s)" using rd32_at Cons.prems by simp
  then show ?case using Cons.IH [of "xs @ s" "i + 4"] Cons.prems by (simp add: Let_def split: prod.split)
qed simp

lemma rsn_keymgmt_loop_at:
  "\<forall>s\<in>set sels. length s = 4 \<Longrightarrow> length xs = i \<Longrightarrow>
    rsn_keymgmt_loop (xs @ concat sels @ ys) (length sels) i w = Some (keymgmt_list sels w)"
proof (induction sels arbitrary: xs i w)
  case (Cons s ss)
  have "rd32 (xs @ s @ concat ss @ ys) i = Some (sel_word s)" using rd32_at Cons.prems by simp
  then show ?case using Cons.IH [of "xs @ s" "i + 4"] Cons.prems by (simp add: Let_def)
qed simp

lemma rsn_sel_words:
  "sel_word (rsn_sel 1) = RSN_SEL 1" "sel_word (rsn_sel 2) = RSN_SEL 2" "sel_word (rsn_sel 3) = RSN_SEL 3"
  "sel_word (rsn_sel 4) = RSN_SEL 4" "sel_word (rsn_sel 5) = RSN_SEL 5" "sel_word (rsn_sel 6) = RSN_SEL 6" "sel_word (rsn_sel 8) = RSN_SEL 8"
  by code_simp+

lemma rsn_cipher_known:
  "rsn_cipher (RSN_SEL 1) k = (0, 5)" "rsn_cipher (RSN_SEL 2) k = (1, k)" "rsn_cipher (RSN_SEL 3) k = (2, k)"
  "rsn_cipher (RSN_SEL 4) k = (3, k)" "rsn_cipher (RSN_SEL 5) k = (0, 13)"
  by (simp_all add: rsn_cipher_def RSN_SEL_def)

lemma rsn_keymgmt_known:
  "rsn_keymgmt (RSN_SEL 1) = 1" "rsn_keymgmt (RSN_SEL 2) = 2" "rsn_keymgmt (RSN_SEL 6) = 6" "rsn_keymgmt (RSN_SEL 8) = 8"
  by (simp_all add: rsn_keymgmt_def RSN_SEL_def)

lemmas rsn_known = rsn_sel_words rsn_cipher_known rsn_keymgmt_known
  rsn_sel_words [unfolded One_nat_def] rsn_cipher_known [unfolded One_nat_def] rsn_keymgmt_known [unfolded One_nat_def]

lemma length_rsn_sel [simp]: "length (rsn_sel x) = 4"
  by (simp add: rsn_sel_def)

text \<open>What the receiver makes of the selectors of the driver.\<close>

lemma pairwise_read:
  assumes "c \<in> {1, 3}" "bit (rsn_ucastcipherset r) c" "bit (rsn_ucastcipherset q) c"
  shows "\<exists>w. cipher_list U (pairwise_sels rsn_cipher_suite r) 0 k = (True, w, k) \<and> w AND ucast (rsn_ucastcipherset q) \<noteq> 0"
proof -
  let ?w = "(if bit (rsn_ucastcipherset r) 3 then 8 else 0) OR (if bit (rsn_ucastcipherset r) 1 then 2 else 0) :: u32"
  have l: "cipher_list U (pairwise_sels rsn_cipher_suite r) 0 k = (True, ?w, k)"
    by (simp add: pairwise_sels_def rsn_cipher_suite_def rsn_known shift1_def Let_def)
  have "bit ?w c" using assms(1,2) by (auto simp: bit_or_iff bit_numeral_rec(1) numeral_eq_Suc bit_Suc)
  moreover have "bit (ucast (rsn_ucastcipherset q) :: u32) c" using assms(1,3) by (auto simp: bit_ucast_iff)
  ultimately have "bit (?w AND ucast (rsn_ucastcipherset q)) c" by (simp add: bit_and_iff)
  then show ?thesis using l by (metis bit_0_eq bot_apply bot_bool_def)
qed

lemma akm_read:
  assumes "c \<in> {1, 2, 6, 8}" "bit (rsn_keymgmtset r) c" "bit (rsn_keymgmtset q) c"
  shows "\<exists>w. keymgmt_list (rsn_akm_sels r) 0 = (True, w) \<and> w AND ucast (rsn_keymgmtset q) \<noteq> 0"
proof -
  let ?b = "\<lambda>c. bit (rsn_keymgmtset r) c"
  let ?w = "(if ?b 1 then 2 else 0) OR (if ?b 2 then 4 else 0) OR (if ?b 6 then 64 else 0) OR (if ?b 8 then 256 else 0) :: u32"
  have l: "keymgmt_list (rsn_akm_sels r) 0 = (True, ?w)"
    by (simp add: rsn_akm_sels_def rsn_known Let_def)
  have "bit ?w c" using assms(1,2) by (auto simp: bit_or_iff numeral_eq_Suc bit_Suc)
  moreover have "bit (ucast (rsn_keymgmtset q) :: u32) c" using assms(1,3) by (auto simp: bit_ucast_iff)
  ultimately have "bit (?w AND ucast (rsn_keymgmtset q)) c" by (simp add: bit_and_iff)
  then show ?thesis using l by (metis bit_0_eq bot_apply bot_bool_def)
qed

lemma group_read:
  assumes "unat (rsn_mcastcipher r) < 4"
  shows "\<exists>g. group_sel rsn_cipher_suite (rsn_sel 5) r = Some g \<and> length g = 4 \<and>
    (\<forall>k. fst (rsn_cipher (sel_word g) k) = unat (rsn_mcastcipher r))"
proof -
  consider "unat (rsn_mcastcipher r) = 0" | "unat (rsn_mcastcipher r) = 1" | "unat (rsn_mcastcipher r) = 2" | "unat (rsn_mcastcipher r) = 3"
    using assms by linarith
  then show ?thesis
  proof cases
    case 1
    then have "rsn_mcastcipher r = 0" using unat_eq_zero by blast
    then show ?thesis by (simp add: group_sel_def rsn_cipher_suite_def rsn_known)
  qed (auto simp: group_sel_def rsn_cipher_suite_def rsn_known)
qed

lemma sels_length: "\<forall>s\<in>set (pairwise_sels rsn_cipher_suite r). length s = 4" "\<forall>s\<in>set (rsn_akm_sels r). length s = 4"
  "length (pairwise_sels rsn_cipher_suite r) \<le> 2" "length (rsn_akm_sels r) \<le> 4"
  by (auto simp: pairwise_sels_def rsn_cipher_suite_def rsn_sel_def rsn_akm_sels_def)

lemma concat_length: "\<forall>s\<in>set ss. length s = 4 \<Longrightarrow> length (concat ss) = 4 * length ss"
  by (induction ss) auto

text \<open>An element of the driver, as its parts.\<close>

lemma setup_rsn_parts:
  assumes "unat (rsn_mcastcipher r) < 4"
  shows "\<exists>g us as. wifi_mac_setup_rsn_ie r = Some ([48, word_of_nat (12 + 4 * length us + 4 * length as)] @ le16 1 @ g @
      le16 (length us) @ concat us @ le16 (length as) @ concat as @ le16 (unat (rsn_caps r))) \<and>
    length g = 4 \<and> (\<forall>k. fst (rsn_cipher (sel_word g) k) = unat (rsn_mcastcipher r)) \<and>
    us = pairwise_sels rsn_cipher_suite r \<and> as = rsn_akm_sels r"
proof -
  obtain g where g: "group_sel rsn_cipher_suite (rsn_sel 5) r = Some g" "length g = 4"
    "\<forall>k. fst (rsn_cipher (sel_word g) k) = unat (rsn_mcastcipher r)" using group_read [OF assms] by blast
  let ?us = "pairwise_sels rsn_cipher_suite r" let ?as = "rsn_akm_sels r"
  have l: "length (concat ?us) = 4 * length ?us" "length (concat ?as) = 4 * length ?as"
    using concat_length sels_length by blast+
  have "length (le16 1 @ g @ selectors ?us @ selectors ?as @ le16 (unat (rsn_caps r))) = 12 + 4 * length ?us + 4 * length ?as"
    using g(2) l by (simp add: selectors_def le16_def)
  moreover have "length ?us \<le> 2" "length ?as \<le> 4" by (rule sels_length)+
  ultimately have "wifi_mac_setup_rsn_ie r = Some ([48, word_of_nat (12 + 4 * length ?us + 4 * length ?as)] @ le16 1 @ g @
      le16 (length ?us) @ concat ?us @ le16 (length ?as) @ concat ?as @ le16 (unat (rsn_caps r)))"
    using g(1) by (simp add: wifi_mac_setup_rsn_ie_def Let_def selectors_def del: of_nat_add of_nat_mult)
  then show ?thesis using g(2,3) by blast
qed

lemma parse_parts:
  assumes d: "d = [48, word_of_nat (12 + 4 * length us + 4 * length as)] @ le16 1 @ g @
      le16 (length us) @ concat us @ le16 (length as) @ concat as @ le16 (unat (caps :: u16))"
    and g: "length g = 4" "\<forall>k. fst (rsn_cipher (sel_word g) k) = unat (rsn_mcastcipher q)" "unat (rsn_mcastcipher q) < 4"
    and s: "\<forall>s\<in>set us. length s = 4" "\<forall>s\<in>set as. length s = 4" "length us \<le> 2" "length as \<le> 4" "us \<noteq> []" "as \<noteq> []"
    and u: "\<forall>k. \<exists>w. cipher_list U us 0 k = (True, w, k) \<and> w AND ucast (rsn_ucastcipherset q) \<noteq> 0"
    and a: "\<exists>w. keymgmt_list as 0 = (True, w) \<and> w AND ucast (rsn_keymgmtset q) \<noteq> 0"
  shows "\<exists>q'. wifi_mac_parse_counterpart_rsn U sc q d judge = Some (0, q') \<and> rsn_caps q' = caps \<and> rsn_pmkid_count q' = 0"
proof -
  let ?n = "length us" let ?m = "length as" let ?L = "12 + 4 * ?n + 4 * ?m"
  note cl = concat_length [OF s(1)] concat_length [OF s(2)]
  have le: "length (le16 v) = 2" for v by (simp add: le16_def)
  define h2 h4 h8 h10 where "h2 = [48 :: u8, word_of_nat ?L]" and "h4 = h2 @ le16 1" and "h8 = h4 @ g" and "h10 = h8 @ le16 ?n"
  define hu ha hm where "hu = h10 @ concat us" and "ha = hu @ le16 ?m" and "hm = ha @ concat as"
  note h = h2_def h4_def h8_def h10_def hu_def ha_def hm_def
  have lens: "length h2 = 2" "length h4 = 4" "length h8 = 8" "length h10 = 10" "length hu = 10 + 4 * ?n"
    "length ha = 12 + 4 * ?n" "length hm = 12 + 4 * ?n + 4 * ?m"
    by (simp_all add: h le g(1) cl)
  have L: "rd8 d 1 = Some ?L" using s(3,4) by (simp add: rd8_def d unat_of_nat del: of_nat_add of_nat_mult)
  have "d = h2 @ le16 1 @ g @ le16 ?n @ concat us @ le16 ?m @ concat as @ le16 (unat caps)" by (simp add: d h)
  then have r2: "rd16 d 2 = Some 1" using rd16_at [OF lens(1), of 1] by simp
  have "d = h4 @ g @ le16 ?n @ concat us @ le16 ?m @ concat as @ le16 (unat caps)" by (simp add: d h)
  then have r4: "rd32 d 4 = Some (sel_word g)" using rd32_at [OF g(1) lens(2)] by simp
  have "d = h8 @ le16 ?n @ concat us @ le16 ?m @ concat as @ le16 (unat caps)" by (simp add: d h)
  then have r8: "rd16 d 8 = Some ?n" using rd16_at [OF lens(3), of ?n] s(3) by simp
  have "d = h10 @ concat us @ le16 ?m @ concat as @ le16 (unat caps)" by (simp add: d h)
  then have ul: "rsn_cipher_loop U d ?n 10 0 k = Some (cipher_list U us 0 k)" for k
    using rsn_cipher_loop_at [OF s(1) lens(4)] by simp
  have "d = hu @ le16 ?m @ concat as @ le16 (unat caps)" by (simp add: d h)
  then have ru: "rd16 d (10 + 4 * ?n) = Some ?m" using rd16_at [OF lens(5), of ?m] s(4) by simp
  have "d = ha @ concat as @ le16 (unat caps)" by (simp add: d h)
  then have al: "rsn_keymgmt_loop d ?m (10 + 4 * ?n + 2) 0 = Some (keymgmt_list as 0)"
    using rsn_keymgmt_loop_at [OF s(2) lens(6)] by (simp add: add.commute)
  have "d = hm @ le16 (unat caps) @ []" by (simp add: d h)
  then have rc: "rd16 d (10 + 4 * ?n + 2 + 4 * ?m) = Some (unat caps)"
    using rd16_at [OF lens(7), of "unat caps" "[]"] u16_less [of caps] by (simp add: add.commute)
  have tail: "\<exists>q'. rsn_tail sc judge d (10 + 4 * ?n + 2 + 4 * ?m) 2 p = Some (0, q') \<and> rsn_caps q' = caps \<and> rsn_pmkid_count q' = 0" for p
    using rc L by (simp add: rsn_tail_def rsn_pmkids_def rsn_gm_def)
  obtain wa where wa: "keymgmt_list as 0 = (True, wa)" "wa AND ucast (rsn_keymgmtset q) \<noteq> 0" using a by blast
  have akm: "\<exists>q'. rsn_akm sc judge d (10 + 4 * ?n) (4 + 4 * ?m) p = Some (0, q') \<and> rsn_caps q' = caps \<and> rsn_pmkid_count q' = 0"
    if "rsn_keymgmtset p = rsn_keymgmtset q" for p
    using tail [of p] wa s(4,6) that ru al by (simp add: rsn_akm_def Let_def)
  obtain c kl where c: "rsn_cipher (sel_word g) (rsn_mcastkeylen q) = (c, kl)" "c = unat (rsn_mcastcipher q)"
    using g(2) by (metis prod.collapse)
  obtain wu where wu: "cipher_list U us 0 (rsn_ucastkeylen q) = (True, wu, rsn_ucastkeylen q)" "wu AND ucast (rsn_ucastcipherset q) \<noteq> 0"
    using u by blast
  have sub: "sub8 (sub8 (sub8 ?L 2) 4) 2 = 4 + 4 * ?n + 4 * ?m" "sub8 (4 + 4 * ?n + 4 * ?m) (4 * ?n) = 4 + 4 * ?m"
    using s(3,4) by simp_all
  have cond: "\<not> ?L < 10" "?n \<noteq> 0" "\<not> 4 + 4 * ?n + 4 * ?m < ?n * 4 + 2" using s(5) by simp_all
  have c32: "c \<noteq> 32" using c(2) g(3) by simp
  show ?thesis using akm [of "q\<lparr>rsn_mcastkeylen := kl, rsn_ucastkeylen := rsn_ucastkeylen q\<rparr>"] wu(2) c(2) c32
    unfolding wifi_mac_parse_counterpart_rsn_def L r2 r4
    by (simp only: bind.bind_lunit Let_def c(1) prod.case cond if_False simp_thms r8 sub ul wu(1) Rsnparms.select_convs
        Rsnparms.update_convs) (simp add: wu(1))
qed

section \<open>Properties\<close>

text \<open>C30: Whatever bytes an RSN or WPA element holds, as long as it is as long as its second byte says,
  wifi_mac_parse_counterpart_rsn, wifi_mac_parse_own_rsn and wifi_mac_parse_wpa return and read only
  inside it; their length, counted down in an unsigned char, does not wrap.\<close>
theorem rsn_parsers_stay_inside:
  assumes "length d = 2 + unat (d ! 1)" "2 \<le> length d"
  shows "wifi_mac_parse_counterpart_rsn U sc r d judge \<noteq> None \<and> wifi_mac_parse_own_rsn ok r d \<noteq> None \<and>
    wifi_mac_parse_wpa U r d own \<noteq> None"
  using counterpart_in [OF assms] own_in [OF assms] wpa_in [OF assms] by blast

definition ex_rsnparms :: Rsnparms where
  "ex_rsnparms = \<lparr>rsn_mcastcipher = 3, rsn_mcastkeylen = 0, rsn_ucastcipherset = 8, rsn_ucastcipher = 3, rsn_ucastkeylen = 0,
     rsn_keymgmtset = 4, rsn_caps = 0x80, rsn_caps_offset = 0, rsn_pmkid_count = 0, rsn_pmkid_offset = 0, rsn_pmkid = [],
     rsn_gmcipher = 0, sa_valid = False, gtksa = 0, ptksa = 0\<rparr>"

text \<open>An element with 255 pairwise ciphers announced and one there.\<close>

definition ex_short_rsn :: "u8 list" where
  "ex_short_rsn = [48, 14, 1, 0, 0, 0x0f, 0xac, 4, 255, 0, 0, 0x0f, 0xac, 4, 1, 0]"

theorem rsn_parsers_stay_inside_witness:
  "wifi_mac_parse_counterpart_rsn 0 False ex_rsnparms ex_short_rsn True \<noteq> None \<and>
   wifi_mac_parse_own_rsn (\<lambda>_. True) ex_rsnparms ex_short_rsn \<noteq> None \<and> wifi_mac_parse_wpa 0 ex_rsnparms ex_short_rsn False \<noteq> None"
  by (rule rsn_parsers_stay_inside) (simp_all add: ex_short_rsn_def)

text \<open>C31: An RSN element that wifi_mac_parse_counterpart_rsn passes when it judges, whatever bytes it
  holds, has version 1 and our group cipher, and one of its pairwise ciphers and one of its key
  managements are among those we ask for.  A pairwise cipher that is not known has number 32 and
  counts as the ciphers in whatever the machine makes of 1 << 32, WEP where it shifts modulo 32, so
  an element with an unknown cipher alone passes where we ask for that one.\<close>
theorem rsn_judgement_sound:
  assumes "wifi_mac_parse_counterpart_rsn U sc r d True = Some (0, r')"
  shows "rd16 d 2 = Some 1 \<and> (\<exists>sel. rd32 d 4 = Some sel \<and> fst (rsn_cipher sel 0) = unat (rsn_mcastcipher r) \<and> unat (rsn_mcastcipher r) \<noteq> 32) \<and>
     (\<exists>n m. rd16 d 8 = Some n \<and> rd16 d (10 + 4 * n) = Some m \<and>
       (\<exists>j<n. \<exists>sel c. rd32 d (10 + 4 * j) = Some sel \<and> bit (rsn_ucastcipherset r) c \<and> bit (shift1 U (fst (rsn_cipher sel 0))) c) \<and>
       (\<exists>j<m. \<exists>sel. rd32 d (12 + 4 * n + 4 * j) = Some sel \<and> bit (rsn_keymgmtset r) (rsn_keymgmt sel)))"
  using counterpart_judged [OF assms] by (simp only: judged_ok_def)

definition ex_rsn :: "u8 list" where
  "ex_rsn = [48, 20, 1, 0, 0, 0x0f, 0xac, 4, 1, 0, 0, 0x0f, 0xac, 4, 1, 0, 0, 0x0f, 0xac, 2, 0x80, 0]"

lemma ex_rsn_passes: "\<exists>r'. wifi_mac_parse_counterpart_rsn 0 False ex_rsnparms ex_rsn True = Some (0, r')"
proof -
  have "map_option fst (wifi_mac_parse_counterpart_rsn 0 False ex_rsnparms ex_rsn True) = Some 0" by code_simp
  then show ?thesis by (auto simp: map_option_case split: option.splits)
qed

theorem rsn_judgement_sound_witness:
  "rd16 ex_rsn 2 = Some 1 \<and> (\<exists>n m. rd16 ex_rsn 8 = Some n \<and> rd16 ex_rsn (10 + 4 * n) = Some m)"
  using ex_rsn_passes rsn_judgement_sound by blast

text \<open>C32: An RSN element that wifi_mac_setup_rsn_ie writes is accepted by wifi_mac_parse_counterpart_rsn
  on a side that asks for the same group cipher (one of WEP, TKIP, OCB and CCMP), for one of the
  pairwise ciphers TKIP and CCMP in it and for one of its key managements, and gives it the
  capabilities that were written.\<close>
theorem rsn_element_roundtrip:
  assumes "unat (rsn_mcastcipher r) < 4" "rsn_mcastcipher q = rsn_mcastcipher r"
    "c \<in> {1, 3}" "bit (rsn_ucastcipherset r) c" "bit (rsn_ucastcipherset q) c"
    "k \<in> {1, 2, 6, 8}" "bit (rsn_keymgmtset r) k" "bit (rsn_keymgmtset q) k"
  shows "\<exists>ie q'. wifi_mac_setup_rsn_ie r = Some ie \<and>
    wifi_mac_parse_counterpart_rsn U sc q ie judge = Some (0, q') \<and> rsn_caps q' = rsn_caps r \<and> rsn_pmkid_count q' = 0"
proof -
  obtain g us as where p: "wifi_mac_setup_rsn_ie r = Some ([48, word_of_nat (12 + 4 * length us + 4 * length as)] @ le16 1 @ g @
      le16 (length us) @ concat us @ le16 (length as) @ concat as @ le16 (unat (rsn_caps r)))"
    "length g = 4" "\<forall>k. fst (rsn_cipher (sel_word g) k) = unat (rsn_mcastcipher r)"
    "us = pairwise_sels rsn_cipher_suite r" "as = rsn_akm_sels r" using setup_rsn_parts [OF assms(1)] by blast
  have ne: "us \<noteq> []" "as \<noteq> []" using assms(3,4,6,7) by (auto simp: p(4,5) pairwise_sels_def rsn_akm_sels_def)
  have u: "\<forall>k. \<exists>w. cipher_list U us 0 k = (True, w, k) \<and> w AND ucast (rsn_ucastcipherset q) \<noteq> 0"
    using pairwise_read [OF assms(3-5)] by (simp add: p(4))
  have a: "\<exists>w. keymgmt_list as 0 = (True, w) \<and> w AND ucast (rsn_keymgmtset q) \<noteq> 0" using akm_read [OF assms(6-8)] by (simp add: p(5))
  have g: "\<forall>k. fst (rsn_cipher (sel_word g) k) = unat (rsn_mcastcipher q)" "unat (rsn_mcastcipher q) < 4" using p(3) assms(1,2) by simp_all
  show ?thesis
    using parse_parts [OF refl p(2) g sels_length [of r, folded p(4,5)] ne u a] p(1) by blast
qed

theorem rsn_element_roundtrip_witness:
  "\<exists>ie q'. wifi_mac_setup_rsn_ie ex_rsnparms = Some ie \<and>
    wifi_mac_parse_counterpart_rsn 1 False ex_rsnparms ie True = Some (0, q') \<and> rsn_caps q' = rsn_caps ex_rsnparms \<and> rsn_pmkid_count q' = 0"
  by (rule rsn_element_roundtrip [of _ _ 3 2]) (simp_all add: ex_rsnparms_def)

end
