(* ===== verification/ApPower.thy ===== *)
theory ApPower
  imports Prelude
begin

text \<open>
  wifi_mac_power.c, the operations of an access point, with what they rest on: the association ids and
  the life of a station (wifi_mac_sta.c), drv_tx_start, which diverts a frame for a sleeping
  station (wifi_drv_xmit.c), and the traffic indication map of the beacon (wifi_mac_beacon.c) as a
  station reads it (wifi_mac_recv.c).  A station is a number, and the frames of its queue are a
  list.  None is an access through a null pointer or outside an array, a failed
  KASSERT, or a loop that does not end.
\<close>

section \<open>State\<close>

record ps_skb =
  ps_id :: nat
  ps_nsta :: "nat option"
  ps_ac :: nat
  m_pwr_sav :: bool
  m_bypass :: bool
  m_uapsd :: bool
  ps_csum :: u32
  fc_more_data :: bool
  fc_pwr_mgt :: bool
  fc_probereq :: bool
  b_buffered :: bool
  b_datapkt :: bool
  b_nulldata :: bool
  b_mcast :: bool
  b_eap :: bool
  tid_index :: nat
  ps_queue_id :: nat

text \<open>A queue of the kernel: its frames and the length it keeps beside them.\<close>

record sk_buff_head =
  skbs :: "ps_skb list"
  qlen :: nat

record ap_sta =
  node_pwr_mgt :: bool
  node_aref :: bool
  node_uapsd :: bool
  node_uapsd_trig :: bool
  node_uapsd_sp :: bool
  ps_flush_wait_noa_end :: bool
  uapsd_wait_noa_end :: bool
  sta_associd :: u16
  sta_listen_intval :: nat
  sta_uapsd :: u8
  sta_uapsd_maxsp :: nat
  sta_uapsd_ac_delivena :: "nat \<Rightarrow> bool"
  sta_uapsd_trigseq :: "nat \<Rightarrow> u16"
  sta_pstxqueue :: "ps_skb list"
  is_disconnecting :: bool
  has_drv_sta :: bool
  tid_tx_buff_sending :: "nat \<Rightarrow> bool"

text \<open>What the operations do outside this state, in order.  Saved and Released mark a frame that
  enters or leaves the queue of a sleeping station.\<close>

datatype ap_event =
  Saved nat ps_skb | Released nat ps_skb | FreeSkb ps_skb | FreeTask ps_skb | TidQueued ps_skb
| Sent ps_skb | Completed int ps_skb | Refused int ps_skb | NullData nat | Disassoc nat | Deauth nat
| AssocTooMany nat | WakeupTx | WakeupRx | PresleepTimer | UapsdTrigger nat nat nat bool | HalUnpause

abbreviation (input) WIFINET_M_IBSS :: nat where "WIFINET_M_IBSS \<equiv> 0"
abbreviation (input) WIFINET_M_STA :: nat where "WIFINET_M_STA \<equiv> 1"
abbreviation (input) WIFINET_M_HOSTAP :: nat where "WIFINET_M_HOSTAP \<equiv> 2"
abbreviation (input) WIFINET_M_P2P_CLIENT :: nat where "WIFINET_M_P2P_CLIENT \<equiv> 5"
abbreviation (input) WIFINET_PS_MAX_QUEUE :: nat where "WIFINET_PS_MAX_QUEUE \<equiv> 100"
abbreviation (input) WIFINET_INACT_WAIT :: u32 where "WIFINET_INACT_WAIT \<equiv> 1"
abbreviation (input) CONCURRENT_SLOT_NONE :: nat where "CONCURRENT_SLOT_NONE \<equiv> 2"
abbreviation (input) WME_UAPSD_NODE_MAXQDEPTH :: nat where "WME_UAPSD_NODE_MAXQDEPTH \<equiv> 8"

text \<open>The interface.  The three flags of vm_pstxqueue_flags are ps4quiet, psq_opps and psq_noa;
  drv_priv's and the mac's variables that the operations read are here too.\<close>

record ap_vif =
  wnet_vif_id :: nat
  vm_opmode :: nat
  vm_connected :: bool
  vm_recovery_up :: bool
  vm_sleeping :: bool
  vm_bcn_intval :: nat
  vm_max_aid :: nat
  vm_aid_bitmap :: "u32 list"
  vm_sta_assoc :: u16
  vm_ps_sta :: u16
  vm_ps_pending :: u16
  vm_tim_bitmap :: "u8 list option"
  vm_tim_len :: nat
  vm_set_tim :: bool
  vm_uapsd_enabled :: bool
  f_timupdate :: bool
  ps4quiet :: bool
  psq_opps :: bool
  psq_noa :: bool
  noa_started :: bool
  phase_tx_buff_queue :: bool
  vm_legacyps_txframes :: nat
  vm_tx_buffer_queue :: sk_buff_head
  nt_nsta :: "nat list"
  other_nsta :: "nat list option"
  stas :: "nat \<Rightarrow> ap_sta"
  drv_pkt_drop :: bool
  wm_vsdb_slot :: nat
  concurrent_channel_switch :: bool
  add_wakeup_work :: bool
  wm_mng_qid :: nat
  asked :: nat
  ap_log :: "ap_event list"

text \<open>What other code answers, at the n-th question: may a frame of an aggregating class be sent
  (check_aggr_allow_to_send), does its skb need to grow and does that succeed, what drv_send says, and
  how many frames a U-APSD trigger leaves queued (process_uapsd_trigger).\<close>

record ap_env =
  check_aggr_allow_to_send :: "nat \<Rightarrow> ps_skb \<Rightarrow> bool"
  skb_expand_fails :: "nat \<Rightarrow> ps_skb \<Rightarrow> bool"
  drv_send :: "nat \<Rightarrow> ps_skb \<Rightarrow> int"
  process_uapsd_trigger :: "nat \<Rightarrow> nat \<Rightarrow> nat \<Rightarrow> nat \<Rightarrow> bool \<Rightarrow> int"

definition ap_emit :: "ap_event list \<Rightarrow> ap_vif \<Rightarrow> ap_vif" where
  "ap_emit es v = v\<lparr>ap_log := ap_log v @ es\<rparr>"

definition upd_sta :: "nat \<Rightarrow> (ap_sta \<Rightarrow> ap_sta) \<Rightarrow> ap_vif \<Rightarrow> ap_vif" where
  "upd_sta i f v = v\<lparr>stas := (stas v)(i := f (stas v i))\<rparr>"

definition tick :: "ap_vif \<Rightarrow> ap_vif" where
  "tick v = v\<lparr>asked := asked v + 1\<rparr>"

definition WIFINET_AID :: "u16 \<Rightarrow> nat" where
  "WIFINET_AID b = unat (and b (not 0xc000))"

definition psqueue_mask :: "ap_vif \<Rightarrow> bool" where
  "psqueue_mask v \<longleftrightarrow> ps4quiet v \<or> psq_opps v \<or> psq_noa v"

section \<open>The traffic indication map\<close>

text \<open>osdep.h: setbit, clrbit and isset, on the bytes of a bitmap.\<close>

definition isset :: "u8 list \<Rightarrow> nat \<Rightarrow> bool" where
  "isset a i = bit (a ! (i div 8)) (i mod 8)"

definition setbit :: "u8 list \<Rightarrow> nat \<Rightarrow> u8 list" where
  "setbit a i = a[i div 8 := or (a ! (i div 8)) (push_bit (i mod 8) 1)]"

definition clrbit :: "u8 list \<Rightarrow> nat \<Rightarrow> u8 list" where
  "clrbit a i = a[i div 8 := and (a ! (i div 8)) (not (push_bit (i mod 8) 1))]"

definition wifi_mac_pwrsave_set_tim :: "nat \<Rightarrow> bool \<Rightarrow> ap_vif \<Rightarrow> ap_vif option" where
  "wifi_mac_pwrsave_set_tim i st v = do {
     let aid = WIFINET_AID (sta_associd (stas v i));
     bm \<leftarrow> vm_tim_bitmap v;
     if vm_opmode v \<notin> {WIFINET_M_HOSTAP, WIFINET_M_IBSS} \<or> vm_max_aid v \<le> aid
       \<or> length bm \<le> aid div 8 then None else
     Some (if st \<noteq> isset bm aid
       then (if st then v\<lparr>vm_tim_bitmap := Some (setbit bm aid), vm_ps_pending := vm_ps_pending v + 1\<rparr>
             else v\<lparr>vm_tim_bitmap := Some (clrbit bm aid), vm_ps_pending := vm_ps_pending v - 1\<rparr>)
            \<lparr>f_timupdate := True\<rparr>
       else v) }"

definition howmany :: "nat \<Rightarrow> nat \<Rightarrow> nat" where
  "howmany x y = (x + (y - 1)) div y"

text \<open>The interface comes up, with or without memory for the map, and goes down.\<close>

definition wifi_mac_pwrsave_latevattach :: "bool \<Rightarrow> ap_vif \<Rightarrow> ap_vif" where
  "wifi_mac_pwrsave_latevattach mem v =
     (if vm_opmode v = WIFINET_M_HOSTAP
      then let n = howmany (vm_max_aid v) 8
           in v\<lparr>vm_tim_len := if mem then n else 0, vm_tim_bitmap := if mem then Some (replicate n 0) else None,
                vm_ps_pending := 0\<rparr>
      else v)"

definition wifi_mac_pwrsave_vdetach :: "ap_vif \<Rightarrow> ap_vif" where
  "wifi_mac_pwrsave_vdetach v = v\<lparr>vm_tim_bitmap := None, vm_ps_pending := 0\<rparr>"

section \<open>Sending a frame\<close>

text \<open>The macros that ask for the classes of a station with U-APSD.\<close>

definition WME_UAPSD_NODE_AC_CAN_TRIGGER :: "nat \<Rightarrow> ap_sta \<Rightarrow> bool" where
  "WME_UAPSD_NODE_AC_CAN_TRIGGER ac s \<longleftrightarrow> node_uapsd_trig s \<and> sta_uapsd_ac_delivena s ac"

definition WME_UAPSD_NODE_ALL_AC_CAN_TRIGGER :: "ap_sta \<Rightarrow> bool" where
  "WME_UAPSD_NODE_ALL_AC_CAN_TRIGGER s \<longleftrightarrow> and (sta_uapsd s) 0xF = 0xF"

definition wifi_mac_pwrsave_txpre :: "ps_skb \<Rightarrow> ap_vif \<Rightarrow> (int \<times> ps_skb \<times> ap_vif) option" where
  "wifi_mac_pwrsave_txpre b v = do {
     i \<leftarrow> ps_nsta b;
     let s = stas v i;
     if m_bypass b then Some (- 1, b, v)
     else if WME_UAPSD_NODE_AC_CAN_TRIGGER (ps_ac b) s then do {
       v \<leftarrow> (if vm_set_tim v \<and> WME_UAPSD_NODE_ALL_AC_CAN_TRIGGER s then wifi_mac_pwrsave_set_tim i True v else Some v);
       Some (1, b\<lparr>m_uapsd := True\<rparr>, v) }
     else if node_pwr_mgt s then Some (2, b\<lparr>m_pwr_sav := True\<rparr>, v)
     else Some (- 1, b, v) }"

text \<open>The age is that of a station that sleeps over its listen interval, in seconds.\<close>

definition save_age :: "ap_sta \<Rightarrow> ap_vif \<Rightarrow> u32" where
  "save_age s v = (let age = (sta_listen_intval s * vm_bcn_intval v) div 1000 in if age \<noteq> 0 then of_nat age else 1)"

definition wifi_mac_pwrsave_psqueue_enqueue :: "nat \<Rightarrow> ps_skb \<Rightarrow> ap_vif \<Rightarrow> ap_vif option" where
  "wifi_mac_pwrsave_psqueue_enqueue i b v =
    (if length (sta_pstxqueue (stas v i)) \<ge> WIFINET_PS_MAX_QUEUE then Some (ap_emit [FreeSkb b] v)
     else
       let b = b\<lparr>ps_csum := save_age (stas v i) v\<rparr>;
           v = ap_emit [Saved i b] (upd_sta i (\<lambda>s. s\<lparr>sta_pstxqueue := sta_pstxqueue s @ [b]\<rparr>) v)
       in if length (sta_pstxqueue (stas v i)) = 1 \<and> vm_set_tim v then wifi_mac_pwrsave_set_tim i True v else Some v)"

definition wifi_mac_buffer_txq_enqueue :: "ps_skb \<Rightarrow> sk_buff_head \<Rightarrow> sk_buff_head" where
  "wifi_mac_buffer_txq_enqueue b q = q\<lparr>skbs := skbs q @ [b], qlen := qlen q + 1\<rparr>"

text \<open>The part of drv_tx_start that hands the frame to drv_send.\<close>

definition tx_start_send :: "ap_env \<Rightarrow> ps_skb \<Rightarrow> ap_vif \<Rightarrow> int \<times> ap_vif" where
  "tx_start_send E b v =
    (let v = (if vm_sleeping v
              then if \<not> fc_pwr_mgt b \<and> \<not> add_wakeup_work v
                   then ap_emit [WakeupTx] (v\<lparr>add_wakeup_work := True\<rparr>) else v
              else v\<lparr>add_wakeup_work := False\<rparr>);
         b = (if m_pwr_sav b then b\<lparr>ps_queue_id := wm_mng_qid v\<rparr> else b);
         n = asked v;
         v = tick v;
         e = (if skb_expand_fails E n b then - 6 else drv_send E n b)
     in (e, ap_emit [if e < 0 then Completed e b else Sent b] v))"

definition drv_tx_start :: "ap_env \<Rightarrow> ps_skb \<Rightarrow> ap_vif \<Rightarrow> (int \<times> ap_vif) option" where
  "drv_tx_start E b v =
    (case ps_nsta b of None \<Rightarrow> Some (- 1, ap_emit [Refused (- 1) b] v)
     | Some i \<Rightarrow>
       let s = stas v i in
       if vm_opmode v = WIFINET_M_HOSTAP \<and> is_disconnecting s \<and> b_datapkt b then Some (- 1, ap_emit [Refused (- 1) b] v)
       else if \<not> vm_recovery_up v then Some (- 2, ap_emit [Refused (- 2) b] v)
       else if \<not> has_drv_sta s then Some (- 3, ap_emit [Refused (- 3) b] v)
       else
         let aggr = b_datapkt b \<and> \<not> b_nulldata b \<and> \<not> b_mcast b \<and> \<not> b_eap b;
             wait = aggr \<and> \<not> check_aggr_allow_to_send E (asked v) b \<and> \<not> tid_tx_buff_sending s (tid_index b);
             v = (if aggr then tick v else v) in
         if wait then Some (0, ap_emit [TidQueued b] v)
         else if drv_pkt_drop v then Some (- 4, ap_emit [Completed (- 4) b] v)
         else let v = (if vm_opmode v = WIFINET_M_STA \<or> vm_opmode v = WIFINET_M_P2P_CLIENT
                       then ap_emit [PresleepTimer] v else v) in
         if wm_vsdb_slot v \<noteq> CONCURRENT_SLOT_NONE \<and> wnet_vif_id v \<noteq> wm_vsdb_slot v \<or> concurrent_channel_switch v
         then Some (0, v\<lparr>vm_tx_buffer_queue := wifi_mac_buffer_txq_enqueue b (vm_tx_buffer_queue v)\<rparr>)
         else if \<not> m_bypass b \<and> \<not> m_uapsd b \<and> psqueue_mask v \<and> \<not> (ps4quiet v \<and> \<not> psq_opps v \<and> \<not> psq_noa v \<and> fc_probereq b)
         then if \<not> vm_connected v then Some (- 5, ap_emit [Completed (- 5) b] v)
              else Some (0, v\<lparr>vm_tx_buffer_queue := wifi_mac_buffer_txq_enqueue b (vm_tx_buffer_queue v)\<rparr>)
         else if \<not> m_bypass b \<and> \<not> m_uapsd b \<and> node_pwr_mgt s
         then map_option (Pair 0) (wifi_mac_pwrsave_psqueue_enqueue i b v)
         else Some (tx_start_send E b v))"

section \<open>The queue of a sleeping station\<close>

definition wifi_mac_pwrsave_psqueue_clean :: "nat \<Rightarrow> ap_vif \<Rightarrow> nat \<times> ap_vif" where
  "wifi_mac_pwrsave_psqueue_clean i v =
    (let q = sta_pstxqueue (stas v i)
     in (length q, ap_emit (concat (map (\<lambda>b. [Released i b, FreeSkb b]) q)) (upd_sta i (\<lambda>s. s\<lparr>sta_pstxqueue := []\<rparr>) v)))"

text \<open>Frames whose age has run out go to the caller's list; when the first is not old enough, the ages
  of all that are left count down.\<close>

fun age_queue :: "ps_skb list \<Rightarrow> ps_skb list \<times> ps_skb list" where
  "age_queue [] = ([], [])"
| "age_queue (b # bs) =
    (if ps_csum b < WIFINET_INACT_WAIT then (case age_queue bs of (old, left) \<Rightarrow> (b # old, left))
     else ([], map (\<lambda>b. b\<lparr>ps_csum := ps_csum b - WIFINET_INACT_WAIT\<rparr>) (b # bs)))"

definition wifi_mac_pwrsave_psqueue_age :: "nat \<Rightarrow> ap_vif \<Rightarrow> nat \<times> ps_skb list \<times> ap_vif" where
  "wifi_mac_pwrsave_psqueue_age i v =
    (case age_queue (sta_pstxqueue (stas v i)) of (old, left) \<Rightarrow>
       (length old, old, ap_emit (map (Released i) old) (upd_sta i (\<lambda>s. s\<lparr>sta_pstxqueue := left\<rparr>) v)))"

definition wifi_mac_pwrsave_psqueue_send :: "ap_env \<Rightarrow> nat \<Rightarrow> bool \<Rightarrow> ap_vif \<Rightarrow> (nat \<times> ap_vif) option" where
  "wifi_mac_pwrsave_psqueue_send E i force v =
    (case sta_pstxqueue (stas v i) of
       [] \<Rightarrow> Some (0, if force then ap_emit [NullData i] v else v)
     | b # q \<Rightarrow> do {
         let v = ap_emit [Released i b] (upd_sta i (\<lambda>s. s\<lparr>sta_pstxqueue := q\<rparr>) v);
         let b = (if node_pwr_mgt (stas v i) then b\<lparr>m_bypass := True\<rparr> else b\<lparr>m_pwr_sav := False\<rparr>);
         let b = (if q = [] then b\<lparr>fc_more_data := False\<rparr> else b);
         let v = (if b_buffered b then v else v\<lparr>vm_legacyps_txframes := vm_legacyps_txframes v + 1\<rparr>);
         (_, v) \<leftarrow> drv_tx_start E (b\<lparr>b_buffered := True\<rparr>) v;
         Some (length q, v) })"

partial_function (option) wifi_mac_pwrsave_psqueue_flush :: "ap_env \<Rightarrow> nat \<Rightarrow> ap_vif \<Rightarrow> (nat \<times> ap_vif) option" where
  "wifi_mac_pwrsave_psqueue_flush E i v = do {
     (n, v) \<leftarrow> wifi_mac_pwrsave_psqueue_send E i False v;
     if n = 0 then Some (n, v)
     else if noa_started v then Some (n, upd_sta i (\<lambda>s. s\<lparr>ps_flush_wait_noa_end := True\<rparr>) v)
     else wifi_mac_pwrsave_psqueue_flush E i v }"

text \<open>A call of vif_ops.vm_set_tim, which may be null.\<close>

definition call_set_tim :: "nat \<Rightarrow> bool \<Rightarrow> ap_vif \<Rightarrow> ap_vif option" where
  "call_set_tim i st v = (if vm_set_tim v then wifi_mac_pwrsave_set_tim i st v else None)"

definition wifi_mac_pwrsave_state_change :: "ap_env \<Rightarrow> nat \<Rightarrow> bool \<Rightarrow> ap_vif \<Rightarrow> ap_vif option" where
  "wifi_mac_pwrsave_state_change E i enable v =
    (let ps = node_pwr_mgt (stas v i) in
     if vm_opmode v \<notin> {WIFINET_M_HOSTAP, WIFINET_M_IBSS} then None
     else if enable
     then Some (upd_sta i (\<lambda>s. s\<lparr>node_pwr_mgt := True\<rparr>) (if ps then v else v\<lparr>vm_ps_sta := vm_ps_sta v + 1\<rparr>))
     else if ps \<and> (psq_opps v \<or> psq_noa v) then Some v
     else do {
       let v = (if ps
                then let v = upd_sta i (\<lambda>s. s\<lparr>node_pwr_mgt := False\<rparr>) (v\<lparr>vm_ps_sta := vm_ps_sta v - 1\<rparr>)
                     in if vm_sleeping v then ap_emit [WakeupRx] v else v
                else v);
       (_, v) \<leftarrow> wifi_mac_pwrsave_psqueue_flush E i v;
       call_set_tim i False v })"

text \<open>A data frame of a station says whether the station sleeps.\<close>

definition wifi_mac_input_ps :: "ap_env \<Rightarrow> nat \<Rightarrow> bool \<Rightarrow> ap_vif \<Rightarrow> ap_vif option" where
  "wifi_mac_input_ps E i pm v =
    (if sta_associd (stas v i) = 0 then Some (ap_emit [Disassoc i] v)
     else if pm \<noteq> node_pwr_mgt (stas v i) then wifi_mac_pwrsave_state_change E i pm v
     else Some v)"

definition wifi_mac_pwrsave_recv_pspoll :: "ap_env \<Rightarrow> nat \<Rightarrow> u16 \<Rightarrow> ap_vif \<Rightarrow> ap_vif option" where
  "wifi_mac_pwrsave_recv_pspoll E i aid v =
    (if sta_associd (stas v i) = 0 \<or> aid \<noteq> sta_associd (stas v i) then Some (ap_emit [Deauth i] v)
     else do {
       (n, v) \<leftarrow> wifi_mac_pwrsave_psqueue_send E i True v;
       if n = 0 \<and> vm_set_tim v then wifi_mac_pwrsave_set_tim i False v else Some v })"

section \<open>Service periods\<close>

text \<open>What the check reads of a received frame.\<close>

record uapsd_frame =
  uf_pwr_mgt :: bool
  uf_qos_data :: bool
  uf_retry :: bool
  uf_tid :: nat
  uf_seq :: u16

text \<open>\<^verbatim>\<open>found\<close> is the station of the frame, given or looked up.\<close>

definition wifi_mac_pwrsave_chk_uapsd_trig :: "ap_env \<Rightarrow> nat option \<Rightarrow> uapsd_frame \<Rightarrow> ap_vif \<Rightarrow> ap_vif option" where
  "wifi_mac_pwrsave_chk_uapsd_trig E found f v =
    (case found of None \<Rightarrow> Some v | Some i \<Rightarrow>
     let s = stas v i in
     if \<not> vm_uapsd_enabled v \<or> vm_opmode v \<noteq> WIFINET_M_HOSTAP \<and> vm_opmode v \<noteq> WIFINET_M_IBSS \<or> \<not> node_uapsd s
     then Some v
     else if uf_pwr_mgt f \<noteq> node_uapsd_trig s
     then let v = upd_sta i (\<lambda>s. s\<lparr>node_uapsd_sp := False\<rparr>) v in
          if uf_pwr_mgt f then Some (upd_sta i (\<lambda>s. s\<lparr>sta_uapsd_trigseq := (\<lambda>ac. if ac < 4 then 0xffff else sta_uapsd_trigseq s ac),
                                              node_uapsd_trig := True\<rparr>) v)
          else Some (tick (ap_emit [UapsdTrigger i WME_UAPSD_NODE_MAXQDEPTH 0 True]
                 (upd_sta i (\<lambda>s. s\<lparr>node_uapsd_trig := False\<rparr>) v)))
     else if \<not> uf_qos_data f then Some v
     else let ac = TID_TO_WME_AC (uf_tid f) in
          if \<not> WME_UAPSD_NODE_AC_CAN_TRIGGER ac s then Some v
          else if uf_retry f \<and> uf_seq f = sta_uapsd_trigseq s ac then Some v
          else if node_uapsd_sp s then Some v
          else do {
            let v = upd_sta i (\<lambda>s. s\<lparr>node_uapsd_sp := True, sta_uapsd_trigseq := (sta_uapsd_trigseq s)(ac := uf_seq f)\<rparr>) v;
            let n = process_uapsd_trigger E (asked v) i (sta_uapsd_maxsp s) ac False;
            let v = tick (ap_emit [UapsdTrigger i (sta_uapsd_maxsp s) ac False] v);
            if n = 0 \<and> vm_set_tim v \<and> WME_UAPSD_NODE_ALL_AC_CAN_TRIGGER (stas v i)
            then wifi_mac_pwrsave_set_tim i False v else Some v })"

definition wifi_mac_pwrsave_eosp_indicate :: "nat \<Rightarrow> bool \<Rightarrow> bool \<Rightarrow> ap_vif \<Rightarrow> ap_vif" where
  "wifi_mac_pwrsave_eosp_indicate i qos eosp v =
    (if qos \<and> (eosp \<or> uapsd_wait_noa_end (stas v i))
     then upd_sta i (\<lambda>s. s\<lparr>node_uapsd_sp := False, uapsd_wait_noa_end := False\<rparr>) v else v)"

section \<open>Frames held back for another channel or a notice of absence\<close>

definition txq_dequeue :: "sk_buff_head \<Rightarrow> ps_skb option \<times> sk_buff_head" where
  "txq_dequeue q = (case skbs q of [] \<Rightarrow> (None, q) | b # bs \<Rightarrow> (Some b, q\<lparr>skbs := bs, qlen := qlen q - 1\<rparr>))"

text \<open>The loop over the kept length; freed frames come back in order.\<close>

partial_function (option) buffer_txq_flush_loop :: "nat \<Rightarrow> sk_buff_head \<Rightarrow> (ps_skb list \<times> sk_buff_head) option" where
  "buffer_txq_flush_loop n q =
    (if n = 0 then Some ([], q)
     else let (b, q) = txq_dequeue q in
       do { (fs, q) \<leftarrow> buffer_txq_flush_loop (qlen q) q;
            Some (case b of Some b \<Rightarrow> b # fs | None \<Rightarrow> fs, q) })"

definition wifi_mac_buffer_txq_flush :: "sk_buff_head \<Rightarrow> (ps_skb list \<times> sk_buff_head) option" where
  "wifi_mac_buffer_txq_flush q = buffer_txq_flush_loop (qlen q) q"

definition nsta_table :: "ap_vif \<Rightarrow> nat \<Rightarrow> nat list option" where
  "nsta_table v k = (if k = wnet_vif_id v then Some (nt_nsta v) else other_nsta v)"

definition sta_find_in_sta_tbl :: "nat option \<Rightarrow> ap_vif \<Rightarrow> bool option" where
  "sta_find_in_sta_tbl i v = do {
     t0 \<leftarrow> nsta_table v 0;
     if i \<in> Some ` set t0 then Some True else do {
       t1 \<leftarrow> nsta_table v 1;
       Some (i \<in> Some ` set t1) } }"

text \<open>aml_skb_unlink takes a frame out of the list and leaves the length as it is.\<close>

definition aml_skb_unlink :: "ps_skb \<Rightarrow> sk_buff_head \<Rightarrow> sk_buff_head" where
  "aml_skb_unlink b q = q\<lparr>skbs := remove1 b (skbs q)\<rparr>"

fun txq_walk :: "ps_skb list \<Rightarrow> ap_vif \<Rightarrow> ap_vif option" where
  "txq_walk [] v = Some v"
| "txq_walk (b # bs) v = do {
     found \<leftarrow> sta_find_in_sta_tbl (ps_nsta b) v;
     txq_walk bs (if found then v
       else ap_emit [FreeTask b] (v\<lparr>vm_tx_buffer_queue := aml_skb_unlink b (vm_tx_buffer_queue v)\<rparr>)) }"

partial_function (option) txq_send_loop :: "ap_env \<Rightarrow> nat \<Rightarrow> ap_vif \<Rightarrow> (nat \<times> ap_vif) option" where
  "txq_send_loop E n v =
    (if n = 0 then Some (n, v)
     else case txq_dequeue (vm_tx_buffer_queue v) of
       (None, q) \<Rightarrow> Some (qlen q, v)
     | (Some b, q) \<Rightarrow> do {
         _ \<leftarrow> ps_nsta b;
         (_, v) \<leftarrow> drv_tx_start E b (v\<lparr>vm_tx_buffer_queue := q\<rparr>);
         txq_send_loop E (qlen q) v })"

definition wifi_mac_buffer_txq_send :: "ap_env \<Rightarrow> ap_vif \<Rightarrow> (nat \<times> ap_vif) option" where
  "wifi_mac_buffer_txq_send E v =
    (if qlen (vm_tx_buffer_queue v) = 0 then Some (0, v)
     else do {
       v \<leftarrow> txq_walk (skbs (vm_tx_buffer_queue v)) v;
       let n = qlen (vm_tx_buffer_queue v);
       if n = 0 then Some (n, v)
       else if skbs (vm_tx_buffer_queue v) \<noteq> [] \<and> concurrent_channel_switch v then Some (n, v)
       else txq_send_loop E n v })"

definition wifi_mac_buffer_txq_send_pre :: "ap_env \<Rightarrow> ap_vif \<Rightarrow> (int \<times> ap_vif) option" where
  "wifi_mac_buffer_txq_send_pre E v =
    (if psqueue_mask v then Some (- 1, v)
     else do {
       (_, v) \<leftarrow> wifi_mac_buffer_txq_send E ((ap_emit [HalUnpause] v)\<lparr>phase_tx_buff_queue := True\<rparr>);
       Some (0, v\<lparr>phase_tx_buff_queue := False\<rparr>) })"

section \<open>Stations\<close>

text \<open>The macros for the bitmap of association ids.\<close>

definition vm_StaIsSetAid :: "u32 list \<Rightarrow> nat \<Rightarrow> bool option" where
  "vm_StaIsSetAid bm aid = (if aid div 32 < length bm then Some (bit (bm ! (aid div 32)) (aid mod 32)) else None)"

definition vm_StaSetAid :: "nat \<Rightarrow> u32 list \<Rightarrow> u32 list option" where
  "vm_StaSetAid aid bm = (if aid div 32 < length bm
     then Some (bm[aid div 32 := or (bm ! (aid div 32)) (push_bit (aid mod 32) 1)]) else None)"

definition vm_StaClearAid :: "nat \<Rightarrow> u32 list \<Rightarrow> u32 list option" where
  "vm_StaClearAid aid bm = (if aid div 32 < length bm
     then Some (bm[aid div 32 := and (bm ! (aid div 32)) (not (push_bit (aid mod 32) 1))]) else None)"

function find_aid :: "u32 list \<Rightarrow> nat \<Rightarrow> nat \<Rightarrow> nat option" where
  "find_aid bm mx aid =
    (if aid < mx then do { taken \<leftarrow> vm_StaIsSetAid bm aid; if taken then find_aid bm mx (aid + 1) else Some aid }
     else Some aid)"
  by pat_completeness auto

termination by (relation "measure (\<lambda>(bm, mx, aid). mx - aid)") auto

text \<open>What cleaning up a station does to the state of power save.\<close>

definition nsta_cleanup :: "nat \<Rightarrow> ap_vif \<Rightarrow> ap_vif option" where
  "nsta_cleanup i v = do {
     let v = (if node_pwr_mgt (stas v i)
              then upd_sta i (\<lambda>s. s\<lparr>node_pwr_mgt := False, node_uapsd_trig := False\<rparr>)
                     (if vm_opmode v \<noteq> WIFINET_M_STA then v\<lparr>vm_ps_sta := vm_ps_sta v - 1\<rparr> else v)
              else v);
     let v = upd_sta i (\<lambda>s. s\<lparr>node_aref := False\<rparr>) v;
     let (n, v) = wifi_mac_pwrsave_psqueue_clean i v;
     v \<leftarrow> (if n \<noteq> 0 \<and> vm_set_tim v then wifi_mac_pwrsave_set_tim i False v else Some v);
     Some (if vm_opmode v = WIFINET_M_HOSTAP \<and> sta_associd (stas v i) \<noteq> 0
       then upd_sta i (\<lambda>s. s\<lparr>sta_associd := 0\<rparr>) v else v) }"

definition wifi_mac_sta_disconnect :: "nat \<Rightarrow> ap_vif \<Rightarrow> ap_vif option" where
  "wifi_mac_sta_disconnect i v =
    (if sta_associd (stas v i) = 0 then Some v
     else do {
       bm \<leftarrow> vm_StaClearAid (WIFINET_AID (sta_associd (stas v i))) (vm_aid_bitmap v);
       Some (v\<lparr>vm_aid_bitmap := bm, vm_sta_assoc := vm_sta_assoc v - 1\<rparr>) })"

definition wifi_mac_sta_disconnect_from_ap :: "nat \<Rightarrow> ap_vif \<Rightarrow> ap_vif option" where
  "wifi_mac_sta_disconnect_from_ap i v = do {
     v \<leftarrow> wifi_mac_sta_disconnect i v;
     nsta_cleanup i (v\<lparr>nt_nsta := removeAll i (nt_nsta v)\<rparr>) }"

text \<open>A station is given the first free id, or is turned away (the first component); it is turned
  away as well when its response cannot be sent or is not acknowledged, which the parameter says.  The
  operation of HT and of 11g, the keys and the stop of an open port change nothing here.\<close>

definition assign_aid :: "nat \<Rightarrow> ap_vif \<Rightarrow> (bool \<times> ap_vif) option" where
  "assign_aid i v =
    (if sta_associd (stas v i) \<noteq> 0 then Some (False, v)
     else do {
       aid \<leftarrow> find_aid (vm_aid_bitmap v) (vm_max_aid v) 1;
       if aid \<ge> vm_max_aid v
       then map_option (Pair True) (wifi_mac_sta_disconnect_from_ap i (ap_emit [AssocTooMany i] v))
       else do {
         let associd = or (of_nat aid) 0xc000;
         bm \<leftarrow> vm_StaSetAid (WIFINET_AID associd) (vm_aid_bitmap v);
         Some (False, upd_sta i (\<lambda>s. s\<lparr>sta_associd := associd\<rparr>)
           (v\<lparr>vm_aid_bitmap := bm, vm_sta_assoc := vm_sta_assoc v + 1\<rparr>)) } })"

definition wifi_mac_sta_connect :: "nat \<Rightarrow> bool \<Rightarrow> ap_vif \<Rightarrow> ap_vif option" where
  "wifi_mac_sta_connect i sent v = do {
     (away, v) \<leftarrow> assign_aid i v;
     if \<not> away \<and> \<not> sent then wifi_mac_sta_disconnect_from_ap i v else Some v }"

section \<open>Timers\<close>

text \<open>The ageing of wifi_mac_TimeoutStations; the frames are freed at its end.\<close>

definition timeout_station :: "nat \<Rightarrow> ap_vif \<Rightarrow> (ps_skb list \<times> ap_vif) option" where
  "timeout_station i v =
    (if \<not> node_aref (stas v i) \<or> sta_associd (stas v i) = 0 then Some ([], v)
     else do {
       let (n, old, v) = wifi_mac_pwrsave_psqueue_age i v;
       v \<leftarrow> (if n \<noteq> 0 \<and> sta_pstxqueue (stas v i) = [] \<and> vm_set_tim v then wifi_mac_pwrsave_set_tim i False v else Some v);
       Some (old, v) })"

fun timeout_stations :: "nat list \<Rightarrow> ap_vif \<Rightarrow> (ps_skb list \<times> ap_vif) option" where
  "timeout_stations [] v = Some ([], v)"
| "timeout_stations (i # is) v = do {
     (old, v) \<leftarrow> timeout_station i v;
     (olds, v) \<leftarrow> timeout_stations is v;
     Some (old @ olds, v) }"

definition wifi_mac_TimeoutStations :: "ap_vif \<Rightarrow> ap_vif option" where
  "wifi_mac_TimeoutStations v = do {
     (old, v) \<leftarrow> timeout_stations (nt_nsta v) v;
     Some (ap_emit (map FreeSkb old) v) }"

text \<open>A notice of absence ends: what the access point sends then.\<close>

definition noa_end_station :: "ap_env \<Rightarrow> nat \<Rightarrow> ap_vif \<Rightarrow> ap_vif option" where
  "noa_end_station E i v =
    (if ps_flush_wait_noa_end (stas v i)
     then do {
       (n, v) \<leftarrow> wifi_mac_pwrsave_psqueue_flush E i v;
       Some (if n = 0 then upd_sta i (\<lambda>s. s\<lparr>ps_flush_wait_noa_end := False\<rparr>) v else v) }
     else Some v)"

fun noa_end_stations :: "ap_env \<Rightarrow> nat list \<Rightarrow> ap_vif \<Rightarrow> ap_vif option" where
  "noa_end_stations E [] v = Some v"
| "noa_end_stations E (i # is) v = do { v \<leftarrow> noa_end_station E i v; noa_end_stations E is v }"

definition noa_end :: "ap_env \<Rightarrow> ap_vif \<Rightarrow> ap_vif option" where
  "noa_end E v = do {
     v \<leftarrow> (if vm_opmode v = WIFINET_M_HOSTAP then noa_end_stations E (nt_nsta v) v else Some v);
     (_, v) \<leftarrow> wifi_mac_buffer_txq_send_pre E v;
     Some v }"

text \<open>A frame sent after its station slept is done.\<close>

definition complete_legacyps :: "ps_skb \<Rightarrow> ap_vif \<Rightarrow> ap_vif" where
  "complete_legacyps b v =
    (if m_pwr_sav b \<and> vm_legacyps_txframes v > 0 then v\<lparr>vm_legacyps_txframes := vm_legacyps_txframes v - 1\<rparr> else v)"

end
