(* ===== verification/ApPowerInv.thy ===== *)
theory ApPowerInv
  imports ApPower
begin

text \<open>
  What holds of an access point between its operations, and that every operation returns and keeps
  it: the map has a bit for every sleeping station with frames held back, and counts them; ids are
  different; no queue is longer than its limit.
\<close>

section \<open>The map\<close>

lemma byte_bit: "bit ((2::u8) ^ (i mod 8)) (j mod 8) \<longleftrightarrow> j mod 8 = i mod 8"
  by (auto simp: bit_exp_iff possible_bit_def)

lemma div_mod_8: "j div 8 = i div 8 \<Longrightarrow> j mod 8 = i mod 8 \<longleftrightarrow> j = (i::nat)"
  by (metis div_mult_mod_eq)

lemma isset_setbit [simp]: "i div 8 < length a \<Longrightarrow> isset (setbit a i) j = (j = i \<or> isset a j)"
  using byte_bit [of i j] div_mod_8 [of j i]
  by (cases "j div 8 = i div 8") (auto simp: isset_def setbit_def bit_or_iff)

lemma isset_clrbit [simp]: "i div 8 < length a \<Longrightarrow> isset (clrbit a i) j = (j \<noteq> i \<and> isset a j)"
  using byte_bit [of i j] div_mod_8 [of j i]
  by (cases "j div 8 = i div 8") (auto simp: isset_def clrbit_def bit_and_iff bit_not_iff possible_bit_def)

lemma length_setbit [simp]: "length (setbit a i) = length a" by (simp add: setbit_def)
lemma length_clrbit [simp]: "length (clrbit a i) = length a" by (simp add: clrbit_def)

definition tim_bits :: "u8 list \<Rightarrow> nat" where
  "tim_bits bm = card {a. a < 8 * length bm \<and> isset bm a}"

lemma tim_bits_le: "tim_bits bm \<le> 8 * length bm"
  unfolding tim_bits_def by (rule order_trans [OF card_mono [of "{..<8 * length bm}"]]) auto

lemma tim_bits_setbit:
  "i div 8 < length bm \<Longrightarrow> \<not> isset bm i \<Longrightarrow> tim_bits (setbit bm i) = tim_bits bm + 1"
proof -
  assume i: "i div 8 < length bm" "\<not> isset bm i"
  then have "{a. a < 8 * length bm \<and> isset (setbit bm i) a} = insert i {a. a < 8 * length bm \<and> isset bm a}"
    by auto
  with i show ?thesis by (simp add: tim_bits_def)
qed

lemma tim_bits_clrbit:
  "i div 8 < length bm \<Longrightarrow> isset bm i \<Longrightarrow> tim_bits bm = tim_bits (clrbit bm i) + 1"
proof -
  assume i: "i div 8 < length bm" "isset bm i"
  then have "{a. a < 8 * length bm \<and> isset bm a} = insert i {a. a < 8 * length bm \<and> isset (clrbit bm i) a}"
    by auto
  with i show ?thesis by (simp add: tim_bits_def)
qed

section \<open>The invariant\<close>

text \<open>What an operation may rely on; stations in X are being worked on.\<close>

definition announced :: "ap_vif \<Rightarrow> nat \<Rightarrow> bool" where
  "announced v i = isset (the (vm_tim_bitmap v)) (WIFINET_AID (sta_associd (stas v i)))"

definition tim_ok :: "ap_vif \<Rightarrow> bool" where
  "tim_ok v \<longleftrightarrow> vm_opmode v = WIFINET_M_HOSTAP \<and> vm_set_tim v \<and> 1 \<le> vm_max_aid v \<and> vm_max_aid v \<le> 2007 \<and>
     (\<exists>bm. vm_tim_bitmap v = Some bm \<and> length bm = howmany (vm_max_aid v) 8 \<and> length bm = vm_tim_len v \<and> unat (vm_ps_pending v) = tim_bits bm)"

definition has_aid :: "ap_vif \<Rightarrow> nat \<Rightarrow> bool" where
  "has_aid v i = (let aid = WIFINET_AID (sta_associd (stas v i)) in
     1 \<le> aid \<and> aid < vm_max_aid v \<and> vm_StaIsSetAid (vm_aid_bitmap v) aid = Some True)"

definition sta_ok :: "nat set \<Rightarrow> ap_vif \<Rightarrow> nat \<Rightarrow> bool" where
  "sta_ok X v i = (let s = stas v i in
     (node_pwr_mgt s \<longrightarrow> sta_associd s \<noteq> 0) \<and> (sta_associd s \<noteq> 0 \<longrightarrow> has_aid v i) \<and>
     length (sta_pstxqueue s) \<le> WIFINET_PS_MAX_QUEUE \<and> (\<forall>b\<in>set (sta_pstxqueue s). ps_nsta b = Some i) \<and>
     (sta_pstxqueue s = [] \<or> i \<in> X \<or> ps_flush_wait_noa_end s \<or> WME_UAPSD_NODE_ALL_AC_CAN_TRIGGER s \<or>
      node_pwr_mgt s \<and> announced v i))"

definition aids_distinct :: "ap_vif \<Rightarrow> bool" where
  "aids_distinct v \<longleftrightarrow> (\<forall>i\<in>set (nt_nsta v). \<forall>j\<in>set (nt_nsta v). i \<noteq> j \<longrightarrow>
     sta_associd (stas v i) \<noteq> 0 \<longrightarrow> sta_associd (stas v j) \<noteq> 0 \<longrightarrow>
     WIFINET_AID (sta_associd (stas v i)) \<noteq> WIFINET_AID (sta_associd (stas v j)))"

definition sleepers :: "ap_vif \<Rightarrow> nat set" where
  "sleepers v = {i \<in> set (nt_nsta v). node_pwr_mgt (stas v i)}"

definition table_ok :: "ap_vif \<Rightarrow> bool" where
  "table_ok v \<longleftrightarrow> distinct (nt_nsta v) \<and> wnet_vif_id v < 2 \<and> other_nsta v \<noteq> None \<and>
     set (nt_nsta v) \<inter> set (the (other_nsta v)) = {} \<and> vm_max_aid v \<le> 32 * length (vm_aid_bitmap v) \<and>
     (wm_vsdb_slot v = CONCURRENT_SLOT_NONE \<or> wm_vsdb_slot v = wnet_vif_id v) \<and>
     (\<forall>b\<in>set (skbs (vm_tx_buffer_queue v)). ps_nsta b \<notin> Some ` set (the (other_nsta v))) \<and>
     vm_ps_sta v = of_nat (card (sleepers v)) \<and> aids_distinct v"

definition ap_inv :: "nat set \<Rightarrow> ap_vif \<Rightarrow> bool" where
  "ap_inv X v \<longleftrightarrow> tim_ok v \<and> table_ok v \<and> (\<forall>i\<in>set (nt_nsta v). sta_ok X v i)"

lemmas ap_inv_defs = ap_inv_def tim_ok_def table_ok_def sta_ok_def has_aid_def announced_def aids_distinct_def
  sleepers_def

text \<open>Most fields do not matter.\<close>

lemma ap_inv_frame [simp]:
  "ap_inv X (ap_emit es v) = ap_inv X v" "ap_inv X (tick v) = ap_inv X v"
  "ap_inv X (v\<lparr>add_wakeup_work := a\<rparr>) = ap_inv X v" "ap_inv X (v\<lparr>vm_legacyps_txframes := n\<rparr>) = ap_inv X v"
  "ap_inv X (v\<lparr>phase_tx_buff_queue := a\<rparr>) = ap_inv X v" "ap_inv X (v\<lparr>f_timupdate := a\<rparr>) = ap_inv X v"
  by (auto simp: ap_inv_defs ap_emit_def tick_def)

lemma fields_frame [simp]:
  "stas (ap_emit es v) = stas v" "stas (tick v) = stas v" "nt_nsta (ap_emit es v) = nt_nsta v" "nt_nsta (tick v) = nt_nsta v"
  "stas (upd_sta i f v) = (stas v)(i := f (stas v i))" "nt_nsta (upd_sta i f v) = nt_nsta v"
  by (simp_all add: ap_emit_def tick_def upd_sta_def)

lemma ap_inv_mono: "ap_inv X v \<Longrightarrow> X \<subseteq> Y \<Longrightarrow> ap_inv Y v"
  by (auto simp: ap_inv_def sta_ok_def Let_def)

lemma ap_inv_sta: "ap_inv X v \<Longrightarrow> i \<in> set (nt_nsta v) \<Longrightarrow> sta_ok X v i"
  by (simp add: ap_inv_def)

text \<open>A change of one station that keeps its id and whether it sleeps.\<close>

lemma ap_inv_upd:
  assumes "ap_inv X v" "\<And>s. sta_associd (f s) = sta_associd s" "\<And>s. node_pwr_mgt (f s) = node_pwr_mgt s"
    and "sta_ok Y (upd_sta i f v) i \<or> i \<notin> set (nt_nsta v)" "X \<subseteq> insert i Y"
  shows "ap_inv Y (upd_sta i f v)"
proof -
  have "sta_ok Y (upd_sta i f v) j" if "j \<in> set (nt_nsta v)" "j \<noteq> i" for j
    using ap_inv_sta [OF assms(1) that(1)] that assms(5)
    by (auto simp: sta_ok_def has_aid_def announced_def upd_sta_def Let_def)
  moreover have "sleepers (upd_sta i f v) = sleepers v" using assms(3) by (auto simp: sleepers_def)
  ultimately show ?thesis
    using assms unfolding ap_inv_def tim_ok_def table_ok_def aids_distinct_def
    by (auto simp: upd_sta_def)
qed

text \<open>Setting a bit of the map.\<close>

lemma howmany_bound:
  assumes "a < n" "0 < m"
  shows "a div m < howmany n m"
proof -
  have "(a + m) div m \<le> (n + (m - 1)) div m" using assms by (intro div_le_mono) linarith
  moreover have "(a + m) div m = Suc (a div m)" using div_add_self2 [of m a] assms(2) by simp
  moreover have "n + (m - 1) = n + m - 1" using assms by simp
  ultimately show ?thesis by (simp only: howmany_def)
qed

lemma has_aid_bound: "sta_ok X v i \<Longrightarrow> tim_ok v \<Longrightarrow> WIFINET_AID (sta_associd (stas v i)) < vm_max_aid v"
  by (cases "sta_associd (stas v i) = 0") (auto simp: sta_ok_def has_aid_def tim_ok_def WIFINET_AID_def Let_def)

definition same_but_tim :: "ap_vif \<Rightarrow> ap_vif \<Rightarrow> bool" where
  "same_but_tim v v' \<longleftrightarrow> (\<exists>bm p u. v' = v\<lparr>vm_tim_bitmap := bm, vm_ps_pending := p, f_timupdate := u\<rparr>)"

lemma set_tim_effect:
  assumes inv: "ap_inv X v" and i: "i \<in> set (nt_nsta v)"
  obtains v' where "wifi_mac_pwrsave_set_tim i st v = Some v'" "same_but_tim v v'" "tim_ok v'"
    "\<And>j. j \<in> set (nt_nsta v) \<Longrightarrow> j = i \<or> sta_associd (stas v j) \<noteq> 0 \<Longrightarrow> announced v' j = (if j = i then st else announced v j)"
proof -
  from inv have t: "tim_ok v" and d: "aids_distinct v" by (auto simp: ap_inv_def table_ok_def)
  then obtain bm where bm: "vm_tim_bitmap v = Some bm" "length bm = howmany (vm_max_aid v) 8" "unat (vm_ps_pending v) = tim_bits bm"
    by (auto simp: tim_ok_def)
  let ?aid = "\<lambda>j. WIFINET_AID (sta_associd (stas v j))"
  from has_aid_bound [OF ap_inv_sta [OF inv i] t] have aid: "?aid i div 8 < length bm"
    by (simp add: bm howmany_bound)
  have le: "8 * length bm < 2 ^ 16 - 1" 
  proof -
    have "8 * ((vm_max_aid v + 7) div 8) \<le> vm_max_aid v + 7" by (rule times_div_less_eq_dividend)
    moreover have "vm_max_aid v \<le> 2007" using t by (simp add: tim_ok_def)
    ultimately show ?thesis by (simp only: bm(2) howmany_def) simp
  qed
  have ne: "?aid j \<noteq> ?aid i" if "j \<in> set (nt_nsta v)" "j \<noteq> i" "sta_associd (stas v j) \<noteq> 0" for j
  proof (cases "sta_associd (stas v i) = 0")
    case True
    have "1 \<le> ?aid j" using ap_inv_sta [OF inv that(1)] that(3) by (auto simp: sta_ok_def has_aid_def Let_def)
    with True show ?thesis by (simp add: WIFINET_AID_def)
  next
    case False with d i that show ?thesis by (auto simp: aids_distinct_def)
  qed
  define v' where "v' = (if st \<noteq> isset bm (?aid i)
       then (if st then v\<lparr>vm_tim_bitmap := Some (setbit bm (?aid i)), vm_ps_pending := vm_ps_pending v + 1\<rparr>
             else v\<lparr>vm_tim_bitmap := Some (clrbit bm (?aid i)), vm_ps_pending := vm_ps_pending v - 1\<rparr>)
            \<lparr>f_timupdate := True\<rparr>
       else v)"
  have inc: "unat (vm_ps_pending v + 1) = tim_bits (setbit bm (?aid i))" if "\<not> isset bm (?aid i)"
    using tim_bits_setbit [OF aid that] tim_bits_le [of bm] le bm(3) by (simp add: unat_plus_if' )
  have dec: "unat (vm_ps_pending v - 1) = tim_bits (clrbit bm (?aid i))" if "isset bm (?aid i)"
    using tim_bits_clrbit [OF aid that] bm(3) by (metis add_diff_cancel_right' unat_minus_one unat_0 add_is_0 one_neq_zero)
  show thesis
  proof (rule that)
    show "wifi_mac_pwrsave_set_tim i st v = Some v'"
      using aid t has_aid_bound [OF ap_inv_sta [OF inv i] t]
      by (simp add: wifi_mac_pwrsave_set_tim_def bm v'_def Let_def tim_ok_def)
    show "same_but_tim v v'" unfolding same_but_tim_def
      by (rule exI [of _ "vm_tim_bitmap v'"], rule exI [of _ "vm_ps_pending v'"], rule exI [of _ "f_timupdate v'"])
        (auto simp: v'_def)
    show "tim_ok v'" using t bm aid inc dec by (auto simp: tim_ok_def v'_def)
    show "announced v' j = (if j = i then st else announced v j)"
      if "j \<in> set (nt_nsta v)" "j = i \<or> sta_associd (stas v j) \<noteq> 0" for j
      using that ne [of j] aid by (auto simp: announced_def v'_def bm)
  qed
qed

lemma same_but_tim_fields:
  "same_but_tim v v' \<Longrightarrow> stas v' = stas v \<and> nt_nsta v' = nt_nsta v \<and> table_ok v' = table_ok v \<and>
     vm_max_aid v' = vm_max_aid v \<and> vm_aid_bitmap v' = vm_aid_bitmap v \<and> ap_log v' = ap_log v"
  unfolding same_but_tim_def by (elim exE) (simp add: table_ok_def aids_distinct_def sleepers_def)

lemma set_tim_ok:
  assumes "ap_inv X v" "i \<in> set (nt_nsta v)"
    and "let s = stas v i in sta_pstxqueue s = [] \<or> i \<in> Y \<or> ps_flush_wait_noa_end s \<or> WME_UAPSD_NODE_ALL_AC_CAN_TRIGGER s
      \<or> node_pwr_mgt s \<and> st" "X \<subseteq> insert i Y"
  obtains v' where "wifi_mac_pwrsave_set_tim i st v = Some v'" "same_but_tim v v'" "ap_inv Y v'"
proof -
  obtain v' where v': "wifi_mac_pwrsave_set_tim i st v = Some v'" "same_but_tim v v'" "tim_ok v'"
    "\<And>j. j \<in> set (nt_nsta v) \<Longrightarrow> j = i \<or> sta_associd (stas v j) \<noteq> 0 \<Longrightarrow> announced v' j = (if j = i then st else announced v j)"
    using set_tim_effect [OF assms(1,2)] by metis
  note f = same_but_tim_fields [OF v'(2)]
  have "sta_ok Y v' j" if j: "j \<in> set (nt_nsta v)" for j
    using ap_inv_sta [OF assms(1) j] v'(4) [OF j] assms(3,4) f
    by (auto simp: sta_ok_def has_aid_def Let_def)
  then have "ap_inv Y v'" using v'(3) f assms(1) by (simp add: ap_inv_def)
  with v' show thesis by (auto intro: that)
qed

section \<open>Frames\<close>

text \<open>What sending frames leaves alone.\<close>

definition conf :: "ap_vif \<Rightarrow> nat list \<times> nat list option \<times> nat \<times> nat \<times> bool \<times> bool \<times> bool \<times> (nat \<Rightarrow> bool)" where
  "conf v = (nt_nsta v, other_nsta v, wnet_vif_id v, wm_vsdb_slot v, concurrent_channel_switch v, psqueue_mask v,
     noa_started v, \<lambda>i. node_pwr_mgt (stas v i))"

lemma conf_frame [simp]:
  "conf (ap_emit es v) = conf v" "conf (tick v) = conf v"
  "conf (v\<lparr>add_wakeup_work := a\<rparr>) = conf v" "conf (v\<lparr>vm_legacyps_txframes := n\<rparr>) = conf v"
  "conf (v\<lparr>vm_tx_buffer_queue := q\<rparr>) = conf v"
  by (auto simp: conf_def ap_emit_def tick_def psqueue_mask_def)

lemma conf_upd: "(\<And>s. node_pwr_mgt (f s) = node_pwr_mgt s) \<Longrightarrow> conf (upd_sta i f v) = conf v"
  by (auto simp: conf_def upd_sta_def psqueue_mask_def)

lemma conf_nt: "conf v' = conf v \<Longrightarrow> nt_nsta v' = nt_nsta v \<and> (node_pwr_mgt (stas v' i) = node_pwr_mgt (stas v i)) \<and>
  psqueue_mask v' = psqueue_mask v \<and> noa_started v' = noa_started v \<and> concurrent_channel_switch v' = concurrent_channel_switch v
  \<and> wm_vsdb_slot v' = wm_vsdb_slot v \<and> wnet_vif_id v' = wnet_vif_id v \<and> other_nsta v' = other_nsta v"
  by (auto simp: conf_def dest: fun_cong)

lemma same_but_tim_conf: "same_but_tim v v' \<Longrightarrow> conf v' = conf v \<and> vm_tx_buffer_queue v' = vm_tx_buffer_queue v"
  unfolding same_but_tim_def by (elim exE) (simp add: conf_def psqueue_mask_def)

lemma buffer_frame [simp]:
  "vm_tx_buffer_queue (ap_emit es v) = vm_tx_buffer_queue v" "vm_tx_buffer_queue (tick v) = vm_tx_buffer_queue v"
  "vm_tx_buffer_queue (upd_sta i f v) = vm_tx_buffer_queue v"
  "stas (v\<lparr>vm_legacyps_txframes := n\<rparr>) = stas v" "nt_nsta (v\<lparr>vm_legacyps_txframes := n\<rparr>) = nt_nsta v"
  by (simp_all add: ap_emit_def tick_def upd_sta_def)

lemma ap_inv_set_tim: "ap_inv X v \<Longrightarrow> vm_set_tim v" by (simp add: ap_inv_def tim_ok_def)

lemma vm_set_tim_frame [simp]:
  "vm_set_tim (ap_emit es v) = vm_set_tim v" "vm_set_tim (upd_sta i f v) = vm_set_tim v"
  "vm_set_tim (v\<lparr>vm_legacyps_txframes := n\<rparr>) = vm_set_tim v" "vm_set_tim (tick v) = vm_set_tim v"
  "vm_opmode (ap_emit es v) = vm_opmode v" "vm_opmode (tick v) = vm_opmode v" "vm_opmode (upd_sta i f v) = vm_opmode v"
  by (simp_all add: ap_emit_def upd_sta_def tick_def)

lemma announced_upd [simp]: "(\<And>s. sta_associd (f s) = sta_associd s) \<Longrightarrow> announced (upd_sta i f v) j = announced v j"
  by (simp add: announced_def upd_sta_def)

lemma has_aid_upd [simp]: "(\<And>s. sta_associd (f s) = sta_associd s) \<Longrightarrow> has_aid (upd_sta i f v) j = has_aid v j"
  by (simp add: has_aid_def upd_sta_def)

lemma all_ac_queue [simp]:
  "WME_UAPSD_NODE_ALL_AC_CAN_TRIGGER (s\<lparr>sta_pstxqueue := q\<rparr>) = WME_UAPSD_NODE_ALL_AC_CAN_TRIGGER s"
  by (simp add: WME_UAPSD_NODE_ALL_AC_CAN_TRIGGER_def)

text \<open>A change of the queue only.\<close>

lemma ap_inv_queue:
  assumes "ap_inv X v" "i \<in> set (nt_nsta v)"
    "length (g (stas v i)) \<le> WIFINET_PS_MAX_QUEUE \<and> (\<forall>b\<in>set (g (stas v i)). ps_nsta b = Some i)"
    and "g (stas v i) = [] \<or> i \<in> Y \<or> sta_pstxqueue (stas v i) \<noteq> []" "X = Y \<or> X = insert i Y \<and> g (stas v i) = [] \<or> Y = insert i X"
  shows "ap_inv Y (upd_sta i (\<lambda>s. s\<lparr>sta_pstxqueue := g s\<rparr>) v)"
proof (rule ap_inv_upd [OF assms(1)])
  show "sta_ok Y (upd_sta i (\<lambda>s. s\<lparr>sta_pstxqueue := g s\<rparr>) v) i \<or> i \<notin> set (nt_nsta v)"
    using ap_inv_sta [OF assms(1,2)] assms(3-5) by (auto simp add: sta_ok_def Let_def)
  show "X \<subseteq> insert i Y" using assms(5) by auto
qed simp_all

lemma psqueue_enqueue_ok:
  assumes inv: "ap_inv X v" and i: "i \<in> set (nt_nsta v)" and ps: "node_pwr_mgt (stas v i)"
    and b: "ps_nsta b = Some i"
  obtains v' where "wifi_mac_pwrsave_psqueue_enqueue i b v = Some v'" "ap_inv X v'" "conf v' = conf v"
    "vm_tx_buffer_queue v' = vm_tx_buffer_queue v"
proof -
  let ?q = "sta_pstxqueue (stas v i)" and ?b = "b\<lparr>ps_csum := save_age (stas v i) v\<rparr>"
  let ?f = "\<lambda>s. s\<lparr>sta_pstxqueue := sta_pstxqueue s @ [?b]\<rparr>"
  let ?w = "ap_emit [Saved i ?b] (upd_sta i ?f v)"
  note ok = ap_inv_sta [OF inv i]
  consider "WIFINET_PS_MAX_QUEUE \<le> length ?q" | "?q = []" | "?q \<noteq> []" "length ?q < WIFINET_PS_MAX_QUEUE" by force
  then show thesis
  proof cases
    case 1
    then have "wifi_mac_pwrsave_psqueue_enqueue i b v = Some (ap_emit [FreeSkb b] v)"
      by (simp add: wifi_mac_pwrsave_psqueue_enqueue_def)
    then show thesis using inv by (intro that [of "ap_emit [FreeSkb b] v"]) simp_all
  next
    case 2
    have "ap_inv (insert i X) ?w"
      unfolding ap_inv_frame by (rule ap_inv_queue [OF inv i]) (use 2 b in simp_all)
    then obtain v' where v': "wifi_mac_pwrsave_set_tim i True ?w = Some v'" "same_but_tim ?w v'" "ap_inv X v'"
      by (rule set_tim_ok [of "insert i X" ?w i X True]) (use i ps in \<open>simp_all add: Let_def subset_insertI2\<close>)
    have "wifi_mac_pwrsave_psqueue_enqueue i b v = Some v'"
      using 2 v'(1) ap_inv_set_tim [OF inv] by (simp add: wifi_mac_pwrsave_psqueue_enqueue_def Let_def)
    then show thesis using v'(3) same_but_tim_conf [OF v'(2)] by (intro that [of v']) (simp_all add: conf_upd)
  next
    case 3
    have "ap_inv X ?w"
      unfolding ap_inv_frame by (rule ap_inv_queue [OF inv i]) (use 3 b ok in \<open>auto simp: sta_ok_def Let_def\<close>)
    moreover have "wifi_mac_pwrsave_psqueue_enqueue i b v = Some ?w"
      using 3 by (simp add: wifi_mac_pwrsave_psqueue_enqueue_def Let_def)
    ultimately show thesis by (intro that [of ?w]) (simp_all add: conf_upd)
  qed
qed

definition buffering :: "ap_vif \<Rightarrow> bool" where
  "buffering v \<longleftrightarrow> psqueue_mask v \<or> concurrent_channel_switch v"

lemma conf_buffering: "conf v' = conf v \<Longrightarrow> buffering v' = buffering v"
  by (simp add: buffering_def conf_def)

text \<open>Frames of other interfaces are not sent here.\<close>

definition own :: "ap_vif \<Rightarrow> ps_skb \<Rightarrow> bool" where
  "own v b \<longleftrightarrow> (case ps_nsta b of None \<Rightarrow> True | Some i \<Rightarrow> i \<in> set (nt_nsta v))"

lemma ap_inv_buffer: "ap_inv X v \<Longrightarrow> own v b \<Longrightarrow>
    ap_inv X (v\<lparr>vm_tx_buffer_queue := wifi_mac_buffer_txq_enqueue b (vm_tx_buffer_queue v)\<rparr>)"
  by (auto simp: ap_inv_def tim_ok_def table_ok_def aids_distinct_def sleepers_def sta_ok_def has_aid_def announced_def
    own_def wifi_mac_buffer_txq_enqueue_def Let_def split: option.splits)

lemma drv_tx_start_ok:
  assumes inv: "ap_inv X v" and own: "own v b"
  obtains e v' where "drv_tx_start E b v = Some (e, v')" "ap_inv X v'" "conf v' = conf v"
    "\<not> buffering v \<Longrightarrow> vm_tx_buffer_queue v' = vm_tx_buffer_queue v"
    "(\<And>i. ps_nsta b = Some i \<Longrightarrow> node_pwr_mgt (stas v i) \<Longrightarrow> m_bypass b \<or> m_uapsd b) \<Longrightarrow> stas v' = stas v"
proof (cases "ps_nsta b")
  case None
  then show thesis using inv by (intro that [of "- 1" "ap_emit [Refused (- 1) b] v"]) (simp_all add: drv_tx_start_def)
next
  case (Some i)
  with own have i: "i \<in> set (nt_nsta v)" by (simp add: own_def)
  have slot: "wm_vsdb_slot v = CONCURRENT_SLOT_NONE \<or> wm_vsdb_slot v = wnet_vif_id v" and host: "vm_opmode v = WIFINET_M_HOSTAP"
    using inv by (auto simp: ap_inv_def table_ok_def tim_ok_def)
  define aggr where "aggr = (b_datapkt b \<and> \<not> b_nulldata b \<and> \<not> b_mcast b \<and> \<not> b_eap b)"
  define w where "w = (if aggr then tick v else v)"
  have w: "ap_inv X w" "conf w = conf v" "stas w = stas v" "vm_tx_buffer_queue w = vm_tx_buffer_queue v"
    "nt_nsta w = nt_nsta v" "vm_opmode w = WIFINET_M_HOSTAP"
    using inv host by (simp_all add: w_def)
  note wc = conf_nt [OF w(2)]
  have buf: "ap_inv X (w\<lparr>vm_tx_buffer_queue := wifi_mac_buffer_txq_enqueue b (vm_tx_buffer_queue w)\<rparr>)"
    using own w(5) by (intro ap_inv_buffer w) (auto simp: own_def split: option.splits)
  have send: "ap_inv X (snd (tx_start_send E b w))" "conf (snd (tx_start_send E b w)) = conf v"
    "vm_tx_buffer_queue (snd (tx_start_send E b w)) = vm_tx_buffer_queue v" "stas (snd (tx_start_send E b w)) = stas v"
    using w by (auto simp: tx_start_send_def Let_def)
  obtain p where p: "node_pwr_mgt (stas v i) \<Longrightarrow> wifi_mac_pwrsave_psqueue_enqueue i b w = Some p"
    "node_pwr_mgt (stas v i) \<Longrightarrow> ap_inv X p \<and> conf p = conf v \<and> vm_tx_buffer_queue p = vm_tx_buffer_queue v"
  proof (cases "node_pwr_mgt (stas v i)")
    case True
    then have ps: "node_pwr_mgt (stas w i)" and iw: "i \<in> set (nt_nsta w)" using w i by simp_all
    obtain p where "wifi_mac_pwrsave_psqueue_enqueue i b w = Some p" "ap_inv X p" "conf p = conf w"
      "vm_tx_buffer_queue p = vm_tx_buffer_queue w"
      by (rule psqueue_enqueue_ok [OF w(1) iw ps Some])
    with w show thesis by (intro that [of p]) simp_all
  next
    case False
    then show thesis by (intro that [of v]) simp_all
  qed
  define R where "R r = (case r of None \<Rightarrow> False | Some (e :: int, v') \<Rightarrow> ap_inv X v' \<and> conf v' = conf v \<and>
    (\<not> buffering v \<longrightarrow> vm_tx_buffer_queue v' = vm_tx_buffer_queue v) \<and>
    ((node_pwr_mgt (stas v i) \<longrightarrow> m_bypass b \<or> m_uapsd b) \<longrightarrow> stas v' = stas v))" for r
  have R: "R None = False" "R (Some (e, v')) = (ap_inv X v' \<and> conf v' = conf v \<and>
    (\<not> buffering v \<longrightarrow> vm_tx_buffer_queue v' = vm_tx_buffer_queue v) \<and>
    ((node_pwr_mgt (stas v i) \<longrightarrow> m_bypass b \<or> m_uapsd b) \<longrightarrow> stas v' = stas v))" for e v'
    by (simp_all add: R_def)
  have R_if: "R (if c then x else y)" if "c \<Longrightarrow> R x" "\<not> c \<Longrightarrow> R y" for c x y using that by simp
  obtain e2 v2 where ts: "tx_start_send E b w = (e2, v2)" by fastforce
  have leaf: "R (Some (- 1, ap_emit es v))" "R (Some (- 2, ap_emit es v))" "R (Some (- 3, ap_emit es v))"
    "R (Some (0, ap_emit es w))" "R (Some (- 4, ap_emit es w))" "R (Some (- 5, ap_emit es w))" for es
    using inv w by (simp_all add: R)
  have leaf_buf: "R (Some (0, w\<lparr>vm_tx_buffer_queue := wifi_mac_buffer_txq_enqueue b (vm_tx_buffer_queue w)\<rparr>))"
    if "buffering v"
    using that w buf by (simp add: R)
  have leaf_ps: "R (map_option (Pair 0) (wifi_mac_pwrsave_psqueue_enqueue i b w))"
    if "\<not> m_bypass b \<and> \<not> m_uapsd b \<and> node_pwr_mgt (stas w i)"
    using that w p by (simp add: R)
  have leaf_send: "R (Some (tx_start_send E b w))" using send by (simp add: R ts)
  have sw: "psqueue_mask w \<Longrightarrow> buffering v" "concurrent_channel_switch w \<Longrightarrow> buffering v"
    "\<not> (wm_vsdb_slot w \<noteq> CONCURRENT_SLOT_NONE \<and> wnet_vif_id w \<noteq> wm_vsdb_slot w)"
    using wc slot by (auto simp: buffering_def)
  have nopre: "(if vm_opmode w = WIFINET_M_STA \<or> vm_opmode w = WIFINET_M_P2P_CLIENT then ap_emit [PresleepTimer] w else w) = w"
    using w(6) by simp
  have "R (drv_tx_start E b v)"
    unfolding drv_tx_start_def Some option.case Let_def aggr_def [symmetric] w_def [symmetric] nopre
    by (intro R_if leaf leaf_send; (rule leaf_buf | rule leaf_ps)) (use sw w(3) in simp_all)
  then show thesis
    by (cases "drv_tx_start E b v") (auto simp: R Some intro: that)
qed

lemma psqueue_send_ok:
  assumes inv: "ap_inv X v" and i: "i \<in> set (nt_nsta v)"
  obtains v' where "wifi_mac_pwrsave_psqueue_send E i force v = Some (length (sta_pstxqueue (stas v i)) - 1, v')"
    "ap_inv X v'" "conf v' = conf v" "\<not> buffering v \<Longrightarrow> vm_tx_buffer_queue v' = vm_tx_buffer_queue v"
    "stas v' = (stas v)(i := (stas v i)\<lparr>sta_pstxqueue := tl (sta_pstxqueue (stas v i))\<rparr>)"
proof (cases "sta_pstxqueue (stas v i)")
  case Nil
  then have s: "(stas v)(i := (stas v i)\<lparr>sta_pstxqueue := tl (sta_pstxqueue (stas v i))\<rparr>) = stas v"
    by (intro ext) simp
  show thesis
    by (rule that [of "if force then ap_emit [NullData i] v else v"])
      (use inv Nil s in \<open>simp_all add: wifi_mac_pwrsave_psqueue_send_def\<close>)
next
  case (Cons b q)
  let ?v = "ap_emit [Released i b] (upd_sta i (\<lambda>s. s\<lparr>sta_pstxqueue := q\<rparr>) v)"
  define w where "w = (if b_buffered b then ?v else ?v\<lparr>vm_legacyps_txframes := vm_legacyps_txframes ?v + 1\<rparr>)"
  define c where "c = (if node_pwr_mgt (stas v i) then b\<lparr>m_bypass := True\<rparr> else b\<lparr>m_pwr_sav := False\<rparr>)"
  define d where "d = (if q = [] then c\<lparr>fc_more_data := False\<rparr> else c)\<lparr>b_buffered := True\<rparr>"
  note ok = ap_inv_sta [OF inv i]
  have d: "ps_nsta d = Some i" "node_pwr_mgt (stas v i) \<Longrightarrow> m_bypass d"
    using ok Cons by (simp_all add: d_def c_def sta_ok_def Let_def)
  have "ap_inv X (upd_sta i (\<lambda>s. s\<lparr>sta_pstxqueue := q\<rparr>) v)"
    by (rule ap_inv_queue [OF inv i]) (use ok Cons in \<open>auto simp: sta_ok_def Let_def\<close>)
  then have w: "ap_inv X w" "conf w = conf v" "vm_tx_buffer_queue w = vm_tx_buffer_queue v"
    "stas w = (stas v)(i := (stas v i)\<lparr>sta_pstxqueue := q\<rparr>)" "nt_nsta w = nt_nsta v"
    by (simp_all add: w_def conf_upd)
  have own: "own w d" using d i w(5) by (simp add: own_def)
  obtain e v' where tx: "drv_tx_start E d w = Some (e, v')" "ap_inv X v'" "conf v' = conf w"
    "\<not> buffering w \<Longrightarrow> vm_tx_buffer_queue v' = vm_tx_buffer_queue w"
    "(\<And>j. ps_nsta d = Some j \<Longrightarrow> node_pwr_mgt (stas w j) \<Longrightarrow> m_bypass d \<or> m_uapsd d) \<Longrightarrow> stas v' = stas w"
    using drv_tx_start_ok [OF w(1) own, of E] by blast
  have st: "stas v' = stas w" by (rule tx(5)) (use d in \<open>auto simp: w(4)\<close>)
  have "buffering w = buffering v" using w(2) by (rule conf_buffering)
  moreover have "wifi_mac_pwrsave_psqueue_send E i force v = Some (length q, v')"
  proof -
    have "node_pwr_mgt (stas ?v i) = node_pwr_mgt (stas v i)" by simp
    moreover have "b_buffered (if q = [] then c\<lparr>fc_more_data := False\<rparr> else c) = b_buffered b" by (simp add: c_def)
    ultimately show ?thesis unfolding wifi_mac_pwrsave_psqueue_send_def Cons list.case Let_def
      by (simp only: c_def [symmetric] d_def [symmetric] w_def [symmetric] tx(1) bind.bind_lunit prod.case)
  qed
  ultimately show thesis using tx st w Cons by (intro that [of v']) simp_all
qed


lemma psqueue_flush_ok:
  assumes "ap_inv X v" "i \<in> set (nt_nsta v)"
  shows "\<exists>n v'. wifi_mac_pwrsave_psqueue_flush E i v = Some (n, v') \<and> ap_inv (X - {i}) v' \<and> conf v' = conf v \<and>
     (\<not> buffering v \<longrightarrow> vm_tx_buffer_queue v' = vm_tx_buffer_queue v) \<and>
     (sta_pstxqueue (stas v' i) = [] \<or> n \<noteq> 0 \<and> ps_flush_wait_noa_end (stas v' i))"
  using assms
proof (induction "length (sta_pstxqueue (stas v i))" arbitrary: v rule: less_induct)
  case less
  let ?q = "sta_pstxqueue (stas v i)"
  obtain v' where v': "wifi_mac_pwrsave_psqueue_send E i False v = Some (length ?q - 1, v')"
    "ap_inv X v'" "conf v' = conf v" "\<not> buffering v \<Longrightarrow> vm_tx_buffer_queue v' = vm_tx_buffer_queue v"
    "stas v' = (stas v)(i := (stas v i)\<lparr>sta_pstxqueue := tl ?q\<rparr>)"
    using psqueue_send_ok [OF less.prems] by blast
  have i: "i \<in> set (nt_nsta v')" using conf_nt [OF v'(3)] less.prems by simp
  have drop: "ap_inv (X - {i}) (upd_sta i f v')"
    if "sta_ok (X - {i}) (upd_sta i f v') i" "\<And>s. sta_associd (f s) = sta_associd s" "\<And>s. node_pwr_mgt (f s) = node_pwr_mgt s" for f
    by (rule ap_inv_upd [OF v'(2)]) (use that in auto)
  consider "length ?q \<le> 1" | "length ?q > 1" "noa_started v'" | "length ?q > 1" "\<not> noa_started v'" by force
  then show ?case
  proof cases
    case 1
    then have e: "tl ?q = []" by (cases ?q) auto
    have "ap_inv (X - {i}) (upd_sta i (\<lambda>s. s) v')"
      by (rule drop) (use ap_inv_sta [OF v'(2) i] v'(5) e in \<open>auto simp: sta_ok_def Let_def\<close>)
    moreover have "upd_sta i (\<lambda>s. s) v' = v'" by (simp add: upd_sta_def)
    ultimately show ?thesis using 1 v' e
      by (subst wifi_mac_pwrsave_psqueue_flush.simps) (simp add: le_Suc_eq)
  next
    case 2
    let ?f = "\<lambda>s. s\<lparr>ps_flush_wait_noa_end := True\<rparr>"
    have "ap_inv (X - {i}) (upd_sta i ?f v')"
      by (rule drop) (use ap_inv_sta [OF v'(2) i] v'(5) in \<open>auto simp: sta_ok_def Let_def\<close>)
    with 2 v' show ?thesis
      by (subst wifi_mac_pwrsave_psqueue_flush.simps) (simp add: conf_upd)
  next
    case 3
    have "length (sta_pstxqueue (stas v' i)) < length ?q" using 3(1) v'(5) by simp
    from less.hyps [OF this v'(2) i] obtain n w where w: "wifi_mac_pwrsave_psqueue_flush E i v' = Some (n, w)"
      "ap_inv (X - {i}) w" "conf w = conf v'" "\<not> buffering v' \<longrightarrow> vm_tx_buffer_queue w = vm_tx_buffer_queue v'"
      "sta_pstxqueue (stas w i) = [] \<or> n \<noteq> 0 \<and> ps_flush_wait_noa_end (stas w i)"
      by blast
    with 3 v' conf_buffering [OF v'(3)] show ?thesis
      by (subst wifi_mac_pwrsave_psqueue_flush.simps) simp
  qed
qed

section \<open>Sleeping and waking\<close>

lemma ap_inv_simple:
  assumes "ap_inv X v" "\<And>s. sta_associd (f s) = sta_associd s" "\<And>s. node_pwr_mgt (f s) = node_pwr_mgt s"
    "\<And>s. sta_pstxqueue (f s) = sta_pstxqueue s" "\<And>s. ps_flush_wait_noa_end s \<Longrightarrow> ps_flush_wait_noa_end (f s)"
    "\<And>s. sta_uapsd (f s) = sta_uapsd s"
  shows "ap_inv X (upd_sta i f v)"
proof (rule ap_inv_upd [OF assms(1)])
  show "sta_ok X (upd_sta i f v) i \<or> i \<notin> set (nt_nsta v)"
    using ap_inv_sta [OF assms(1), of i] assms(2-)
    by (auto simp add: sta_ok_def Let_def WME_UAPSD_NODE_ALL_AC_CAN_TRIGGER_def)
qed (use assms in auto)

lemma card_sleepers: "i \<in> sleepers v \<Longrightarrow> card (sleepers v) = Suc (card (sleepers v - {i}))"
  by (metis card.remove sleepers_def finite_set finite_Collect_conjI Collect_mem_eq)

lemma wake_inv:
  assumes inv: "ap_inv X v" and i: "i \<in> set (nt_nsta v)" and ps: "node_pwr_mgt (stas v i)"
    and f: "\<And>s. sta_associd (f s) = sta_associd s" "\<And>s. \<not> node_pwr_mgt (f s)" "\<And>s. sta_pstxqueue (f s) = sta_pstxqueue s"
  shows "ap_inv (insert i X) (upd_sta i f (v\<lparr>vm_ps_sta := vm_ps_sta v - 1\<rparr>))" (is "ap_inv _ ?w")
proof -
  have "sleepers ?w = sleepers v - {i}" using f(2) by (auto simp: sleepers_def upd_sta_def)
  moreover have "vm_ps_sta v = of_nat (card (sleepers v))" using inv by (simp add: ap_inv_def table_ok_def)
  moreover have "i \<in> sleepers v" using i ps by (simp add: sleepers_def)
  ultimately have "vm_ps_sta ?w = of_nat (card (sleepers ?w))"
    using card_sleepers [of i v] by (simp add: upd_sta_def del: card_Diff_insert)
  moreover have "sta_ok (insert i X) ?w j" if "j \<in> set (nt_nsta v)" for j
    using ap_inv_sta [OF inv that] f by (auto simp: sta_ok_def has_aid_def announced_def upd_sta_def Let_def)
  moreover have "aids_distinct ?w" using inv f by (auto simp: ap_inv_def table_ok_def aids_distinct_def upd_sta_def)
  ultimately show ?thesis using inv unfolding ap_inv_def tim_ok_def table_ok_def by (auto simp: upd_sta_def)
qed

lemma sleep_inv:
  assumes inv: "ap_inv X v" and i: "i \<in> set (nt_nsta v)" and aid: "sta_associd (stas v i) \<noteq> 0"
  shows "ap_inv X (upd_sta i (\<lambda>s. s\<lparr>node_pwr_mgt := True\<rparr>) (if node_pwr_mgt (stas v i) then v else v\<lparr>vm_ps_sta := vm_ps_sta v + 1\<rparr>))"
    (is "ap_inv _ (upd_sta i ?f ?v)")
proof -
  let ?w = "upd_sta i ?f ?v"
  have s: "sleepers ?w = insert i (sleepers v)" using i by (auto simp: sleepers_def upd_sta_def)
  have fin: "finite (sleepers v)" by (simp add: sleepers_def)
  have "vm_ps_sta v = of_nat (card (sleepers v))" using inv by (simp add: ap_inv_def table_ok_def)
  then have "vm_ps_sta ?w = of_nat (card (sleepers ?w))"
    unfolding s using i fin by (auto simp: upd_sta_def sleepers_def insert_absorb)
  moreover have "sta_ok X ?w j" if "j \<in> set (nt_nsta v)" for j
    using ap_inv_sta [OF inv that] aid
    by (auto simp: sta_ok_def has_aid_def announced_def upd_sta_def Let_def WME_UAPSD_NODE_ALL_AC_CAN_TRIGGER_def)
  moreover have "aids_distinct ?w" using inv by (auto simp: ap_inv_def table_ok_def aids_distinct_def upd_sta_def)
  ultimately show ?thesis using inv unfolding ap_inv_def tim_ok_def table_ok_def by (auto simp: upd_sta_def)
qed

lemma same_but_tim_nt: "same_but_tim v v' \<Longrightarrow> nt_nsta v' = nt_nsta v"
  using same_but_tim_fields by blast

lemma state_change_ok:
  assumes inv: "ap_inv {} v" and i: "i \<in> set (nt_nsta v)" and aid: "enable \<Longrightarrow> sta_associd (stas v i) \<noteq> 0"
  shows "\<exists>v'. wifi_mac_pwrsave_state_change E i enable v = Some v' \<and> ap_inv {} v'"
proof (cases "enable \<or> node_pwr_mgt (stas v i) \<and> (psq_opps v \<or> psq_noa v)")
  have hostap: "vm_opmode v = WIFINET_M_HOSTAP" using inv by (simp add: ap_inv_def tim_ok_def)
  case True
  then show ?thesis using sleep_inv [OF inv i] aid inv hostap
    by (cases enable) (auto simp: wifi_mac_pwrsave_state_change_def Let_def)
next
  case False
  let ?ps = "node_pwr_mgt (stas v i)"
  let ?u = "upd_sta i (\<lambda>s. s\<lparr>node_pwr_mgt := False\<rparr>) (v\<lparr>vm_ps_sta := vm_ps_sta v - 1\<rparr>)"
  define w where "w = (if ?ps then if vm_sleeping ?u then ap_emit [WakeupRx] ?u else ?u else v)"
  have w: "ap_inv {i} w" "nt_nsta w = nt_nsta v"
    using wake_inv [OF inv i, of "\<lambda>s. s\<lparr>node_pwr_mgt := False\<rparr>"] ap_inv_mono [OF inv, of "{i}"]
    by (auto simp: w_def Let_def upd_sta_def)
  obtain n v1 where v1: "wifi_mac_pwrsave_psqueue_flush E i w = Some (n, v1)" "ap_inv {} v1" "conf v1 = conf w"
    "sta_pstxqueue (stas v1 i) = [] \<or> n \<noteq> 0 \<and> ps_flush_wait_noa_end (stas v1 i)"
    using psqueue_flush_ok [OF w(1), of i E] i w(2) by auto
  have i1: "i \<in> set (nt_nsta v1)" using conf_nt [OF v1(3)] w i by simp
  obtain v2 where "wifi_mac_pwrsave_set_tim i False v1 = Some v2" "ap_inv {} v2"
    by (rule set_tim_ok [OF v1(2) i1, of "{}" False]) (use v1(4) in \<open>auto simp: Let_def\<close>)
  moreover have "wifi_mac_pwrsave_state_change E i enable v = call_set_tim i False v1"
    using False inv unfolding wifi_mac_pwrsave_state_change_def Let_def w_def [symmetric] v1(1)
    by (auto simp: ap_inv_def tim_ok_def)
  ultimately show ?thesis using ap_inv_set_tim [OF v1(2)] by (simp add: call_set_tim_def)
qed

lemma input_ps_ok:
  assumes "ap_inv {} v" "i \<in> set (nt_nsta v)"
  shows "\<exists>v'. wifi_mac_input_ps E i pm v = Some v' \<and> ap_inv {} v'"
  using state_change_ok [OF assms] assms by (auto simp: wifi_mac_input_ps_def)

lemma recv_pspoll_ok:
  assumes inv: "ap_inv {} v" and i: "i \<in> set (nt_nsta v)"
  shows "\<exists>v'. wifi_mac_pwrsave_recv_pspoll E i aid v = Some v' \<and> ap_inv {} v'"
proof -
  let ?q = "sta_pstxqueue (stas v i)"
  obtain v' where v': "wifi_mac_pwrsave_psqueue_send E i True v = Some (length ?q - 1, v')"
    "ap_inv {} v'" "conf v' = conf v" "stas v' = (stas v)(i := (stas v i)\<lparr>sta_pstxqueue := tl ?q\<rparr>)"
    using psqueue_send_ok [OF inv i] by blast
  have i': "i \<in> set (nt_nsta v')" using conf_nt [OF v'(3)] i by simp
  show ?thesis
  proof (cases "length ?q \<le> 1")
    case True
    then have "tl ?q = []" by (cases ?q) auto
    then obtain v2 where "wifi_mac_pwrsave_set_tim i False v' = Some v2" "ap_inv {} v2"
      by (rule_tac set_tim_ok [OF v'(2) i', of "{}" False]) (use v'(4) in \<open>auto simp: Let_def\<close>)
    then show ?thesis using v' inv True ap_inv_set_tim [OF v'(2)]
      by (auto simp: wifi_mac_pwrsave_recv_pspoll_def)
  next
    case False
    then show ?thesis using v' inv by (auto simp: wifi_mac_pwrsave_recv_pspoll_def)
  qed
qed

lemma ap_inv_tick_upd [simp]: "ap_inv X (tick (ap_emit es v)) = ap_inv X v" by simp

lemma chk_uapsd_trig_ok:
  assumes inv: "ap_inv {} v" and i: "\<And>i. found = Some i \<Longrightarrow> i \<in> set (nt_nsta v)"
  shows "\<exists>v'. wifi_mac_pwrsave_chk_uapsd_trig E found f v = Some v' \<and> ap_inv {} v'"
proof (cases found)
  case None
  then show ?thesis using inv by (simp add: wifi_mac_pwrsave_chk_uapsd_trig_def)
next
  case (Some k)
  let ?ac = "TID_TO_WME_AC (uf_tid f)"
  let ?u = "upd_sta k (\<lambda>s. s\<lparr>node_uapsd_sp := True, sta_uapsd_trigseq := (sta_uapsd_trigseq s)(?ac := uf_seq f)\<rparr>) v"
  let ?w = "tick (ap_emit [UapsdTrigger k (sta_uapsd_maxsp (stas v k)) ?ac False] ?u)"
  have u: "ap_inv {} ?w" unfolding ap_inv_tick_upd by (rule ap_inv_simple [OF inv]) auto
  have k: "k \<in> set (nt_nsta ?w)" using i Some by simp
  have st: "\<exists>v'. (if c \<and> vm_set_tim ?w \<and> WME_UAPSD_NODE_ALL_AC_CAN_TRIGGER (stas ?w k)
     then wifi_mac_pwrsave_set_tim k False ?w else Some ?w) = Some v' \<and> ap_inv {} v'" for c
  proof (cases "c \<and> vm_set_tim ?w \<and> WME_UAPSD_NODE_ALL_AC_CAN_TRIGGER (stas ?w k)")
    case True
    obtain v' where "wifi_mac_pwrsave_set_tim k False ?w = Some v'" "ap_inv {} v'"
      by (rule set_tim_ok [OF u k, of "{}" False]) (use True in \<open>auto simp: Let_def\<close>)
    with True show ?thesis by simp
  qed (use u in auto)
  have sp: "ap_inv {} (upd_sta k (\<lambda>s. s\<lparr>node_uapsd_sp := False\<rparr>) v)" (is "ap_inv {} ?s")
    by (rule ap_inv_simple [OF inv]) auto
  have trig: "ap_inv {} (upd_sta k (\<lambda>s. s\<lparr>node_uapsd_trig := False\<rparr>) ?s)"
    by (rule ap_inv_simple [OF sp]) auto
  have init: "ap_inv {} (upd_sta k (\<lambda>s. s\<lparr>sta_uapsd_trigseq := (\<lambda>ac. if ac < 4 then 0xffff else sta_uapsd_trigseq s ac),
      node_uapsd_trig := True\<rparr>) ?s)"
    by (rule ap_inv_simple [OF sp]) auto
  show ?thesis
    unfolding wifi_mac_pwrsave_chk_uapsd_trig_def Some option.case Let_def
    using inv st trig init by (simp only: split: if_split) (simp only: ap_inv_frame option.inject simp_thms ex_simps) 
qed

lemma eosp_ok: "ap_inv {} v \<Longrightarrow> ap_inv {} (wifi_mac_pwrsave_eosp_indicate i q e v)"
  unfolding wifi_mac_pwrsave_eosp_indicate_def by (auto intro: ap_inv_simple)

lemma complete_ok: "ap_inv {} v \<Longrightarrow> ap_inv {} (complete_legacyps b v)"
  by (simp add: complete_legacyps_def)

lemma txpre_ok:
  assumes inv: "ap_inv {} v" and b: "ps_nsta b = Some i" "i \<in> set (nt_nsta v)"
  obtains r b' v' where "wifi_mac_pwrsave_txpre b v = Some (r, b', v')" "ap_inv {} v'" "ps_nsta b' = Some i" "conf v' = conf v"
proof (cases "\<not> m_bypass b \<and> WME_UAPSD_NODE_AC_CAN_TRIGGER (ps_ac b) (stas v i) \<and> vm_set_tim v \<and> WME_UAPSD_NODE_ALL_AC_CAN_TRIGGER (stas v i)")
  case True
  obtain v' where "wifi_mac_pwrsave_set_tim i True v = Some v'" "same_but_tim v v'" "ap_inv {} v'"
    by (rule set_tim_ok [OF inv b(2), of "{}" True]) (use True in \<open>auto simp: Let_def\<close>)
  with True b show thesis
    by (intro that [of 1 "b\<lparr>m_uapsd := True\<rparr>" v']) (simp_all add: wifi_mac_pwrsave_txpre_def same_but_tim_conf)
next
  case False
  have "\<exists>r b'. wifi_mac_pwrsave_txpre b v = Some (r, b', v) \<and> ps_nsta b' = Some i"
    using False b by (auto simp: wifi_mac_pwrsave_txpre_def Let_def)
  then show thesis using inv that by blast
qed

text \<open>Ageing.\<close>

lemma age_queue_props: "age_queue q = (old, left) \<Longrightarrow>
    length left \<le> length q \<and> ps_nsta ` set left \<subseteq> ps_nsta ` set q \<and> map ps_id q = map ps_id old @ map ps_id left"
proof (induction q arbitrary: old left rule: age_queue.induct)
  case (2 b bs)
  show ?case
  proof (cases "ps_csum b < WIFINET_INACT_WAIT")
    case True
    obtain o' l' where e: "age_queue bs = (o', l')" by fastforce
    from 2(1) [OF True e] 2(2) True e show ?thesis by auto
  next
    case False
    with 2(2) have ol: "old = []" "left = map (\<lambda>b. b\<lparr>ps_csum := ps_csum b - WIFINET_INACT_WAIT\<rparr>) (b # bs)" by auto
    show ?thesis unfolding ol by (auto simp: image_iff o_def)
  qed
qed auto

lemma timeout_station_ok:
  assumes inv: "ap_inv {} v" and i: "i \<in> set (nt_nsta v)"
  shows "\<exists>old v'. timeout_station i v = Some (old, v') \<and> ap_inv {} v' \<and> nt_nsta v' = nt_nsta v"
proof (cases "\<not> node_aref (stas v i) \<or> sta_associd (stas v i) = 0")
  case True
  then show ?thesis using inv by (auto simp: timeout_station_def)
next
  case False
  obtain old left where a: "age_queue (sta_pstxqueue (stas v i)) = (old, left)" by fastforce
  let ?w = "ap_emit (map (Released i) old) (upd_sta i (\<lambda>s. s\<lparr>sta_pstxqueue := left\<rparr>) v)"
  have "ap_inv {} (upd_sta i (\<lambda>s. s\<lparr>sta_pstxqueue := left\<rparr>) v)"
  proof (rule ap_inv_queue [OF inv i])
    show "length left \<le> WIFINET_PS_MAX_QUEUE \<and> (\<forall>b\<in>set left. ps_nsta b = Some i)"
      using age_queue_props [OF a] ap_inv_sta [OF inv i] by (fastforce simp: sta_ok_def Let_def)
    show "left = [] \<or> i \<in> {} \<or> sta_pstxqueue (stas v i) \<noteq> []" using age_queue_props [OF a] by auto
  qed simp
  then have w: "ap_inv {} ?w" by simp
  have iw: "i \<in> set (nt_nsta ?w)" using i by simp
  have t: "timeout_station i v = (if length old \<noteq> 0 \<and> left = [] \<and> vm_set_tim v
      then map_option (Pair old) (wifi_mac_pwrsave_set_tim i False ?w) else Some (old, ?w))"
    using False a by (auto simp: timeout_station_def wifi_mac_pwrsave_psqueue_age_def Let_def map_option_case split: option.split)
  show ?thesis
  proof (cases "left = []")
    case True
    obtain v' where v': "wifi_mac_pwrsave_set_tim i False ?w = Some v'" "same_but_tim ?w v'" "ap_inv {} v'"
      by (rule set_tim_ok [OF w iw, of "{}" False]) (use True in \<open>auto simp: Let_def\<close>)
    then show ?thesis using w same_but_tim_nt [OF v'(2)] by (auto simp: t)
  next
    case False
    then show ?thesis using w by (simp add: t)
  qed
qed

lemma timeout_stations_ok:
  "ap_inv {} v \<Longrightarrow> set is \<subseteq> set (nt_nsta v) \<Longrightarrow>
   \<exists>old v'. timeout_stations is v = Some (old, v') \<and> ap_inv {} v' \<and> nt_nsta v' = nt_nsta v"
proof (induction "is" arbitrary: v)
  case (Cons i "is")
  obtain old v' where v': "timeout_station i v = Some (old, v')" "ap_inv {} v'" "nt_nsta v' = nt_nsta v"
    using timeout_station_ok [of v i] Cons.prems by auto
  then obtain o2 v2 where "timeout_stations is v' = Some (o2, v2)" "ap_inv {} v2" "nt_nsta v2 = nt_nsta v'"
    using Cons.IH [of v'] Cons.prems by auto
  with v' show ?case by simp
qed simp

lemma TimeoutStations_ok: "ap_inv {} v \<Longrightarrow> \<exists>v'. wifi_mac_TimeoutStations v = Some v' \<and> ap_inv {} v'"
  using timeout_stations_ok [of v "nt_nsta v"] by (auto simp: wifi_mac_TimeoutStations_def)

section \<open>Buffered frames\<close>

text \<open>The buffer of frames for another channel.\<close>

lemma ap_inv_buffer_sub:
  "ap_inv X v \<Longrightarrow> set (skbs q) \<subseteq> set (skbs (vm_tx_buffer_queue v)) \<Longrightarrow> ap_inv X (v\<lparr>vm_tx_buffer_queue := q\<rparr>)"
  unfolding ap_inv_def tim_ok_def table_ok_def aids_distinct_def sleepers_def sta_ok_def has_aid_def announced_def Let_def
  by (simp, blast)

definition is_found :: "ap_vif \<Rightarrow> ps_skb \<Rightarrow> bool" where
  "is_found v b \<longleftrightarrow> sta_find_in_sta_tbl (ps_nsta b) v = Some True"

lemma sta_find_total: "ap_inv X v \<Longrightarrow> sta_find_in_sta_tbl i v \<noteq> None"
  by (auto simp: ap_inv_def table_ok_def sta_find_in_sta_tbl_def nsta_table_def)

lemma is_found_own: "ap_inv X v \<Longrightarrow> b \<in> set (skbs (vm_tx_buffer_queue v)) \<Longrightarrow> is_found v b \<Longrightarrow> own v b \<and> ps_nsta b \<noteq> None"
  by (auto simp: ap_inv_def table_ok_def is_found_def sta_find_in_sta_tbl_def nsta_table_def own_def split: if_splits option.splits)

lemma nsta_table_frame [simp]:
  "nsta_table (ap_emit es v) = nsta_table v" "nsta_table (v\<lparr>vm_tx_buffer_queue := q\<rparr>) = nsta_table v"
  by (intro ext; simp add: nsta_table_def ap_emit_def)+

lemma sta_find_frame [simp]:
  "sta_find_in_sta_tbl i (ap_emit es v) = sta_find_in_sta_tbl i v"
  "sta_find_in_sta_tbl i (v\<lparr>vm_tx_buffer_queue := q\<rparr>) = sta_find_in_sta_tbl i v"
  unfolding sta_find_in_sta_tbl_def nsta_table_frame by (rule refl)+

lemma is_found_frame [simp]:
  "is_found (ap_emit es v) = is_found v" "is_found (v\<lparr>vm_tx_buffer_queue := q\<rparr>) = is_found v"
  by (intro ext; simp add: is_found_def)+

lemma txq_walk_ok:
  assumes "ap_inv X v" "skbs (vm_tx_buffer_queue v) = xs @ bs" "\<forall>b\<in>set xs. is_found v b"
  shows "\<exists>v'. txq_walk bs v = Some v' \<and> ap_inv X v' \<and> conf v' = conf v \<and> is_found v' = is_found v \<and>
     skbs (vm_tx_buffer_queue v') = xs @ filter (is_found v) bs \<and> qlen (vm_tx_buffer_queue v') = qlen (vm_tx_buffer_queue v)"
  using assms
proof (induction bs arbitrary: v xs)
  case (Cons b bs)
  obtain f where f: "sta_find_in_sta_tbl (ps_nsta b) v = Some f" using sta_find_total [OF Cons.prems(1)] by auto
  show ?case
  proof (cases f)
    case True
    with f have b: "is_found v b" by (simp add: is_found_def)
    have "\<exists>v'. txq_walk bs v = Some v' \<and> ap_inv X v' \<and> conf v' = conf v \<and> is_found v' = is_found v \<and>
     skbs (vm_tx_buffer_queue v') = (xs @ [b]) @ filter (is_found v) bs \<and> qlen (vm_tx_buffer_queue v') = qlen (vm_tx_buffer_queue v)"
      by (rule Cons.IH) (use Cons.prems b in auto)
    with f True b show ?thesis by auto
  next
    case False
    with f have b: "\<not> is_found v b" by (simp add: is_found_def)
    let ?w = "ap_emit [FreeTask b] (v\<lparr>vm_tx_buffer_queue := aml_skb_unlink b (vm_tx_buffer_queue v)\<rparr>)"
    have q: "skbs (aml_skb_unlink b (vm_tx_buffer_queue v)) = xs @ bs"
      using Cons.prems b by (auto simp: aml_skb_unlink_def remove1_append)
    have "ap_inv X ?w" unfolding ap_inv_frame
      by (rule ap_inv_buffer_sub [OF Cons.prems(1)]) (use q Cons.prems in auto)
    then have "\<exists>v'. txq_walk bs ?w = Some v' \<and> ap_inv X v' \<and> conf v' = conf ?w \<and> is_found v' = is_found ?w \<and>
     skbs (vm_tx_buffer_queue v') = xs @ filter (is_found ?w) bs \<and> qlen (vm_tx_buffer_queue v') = qlen (vm_tx_buffer_queue ?w)"
      by (rule Cons.IH) (use Cons.prems q in simp_all)
    with f False b show ?thesis by (auto simp: aml_skb_unlink_def)
  qed
qed auto

lemma own_conf: "conf v' = conf v \<Longrightarrow> own v' = own v"
  by (auto simp: conf_def own_def intro!: ext split: option.splits)

lemma txq_send_loop_ok:
  assumes "ap_inv {} v" "\<not> buffering v" "\<forall>b\<in>set (skbs (vm_tx_buffer_queue v)). own v b \<and> ps_nsta b \<noteq> None"
  shows "\<exists>m v'. txq_send_loop E n v = Some (m, v') \<and> ap_inv {} v' \<and> conf v' = conf v"
  using assms
proof (induction "length (skbs (vm_tx_buffer_queue v))" arbitrary: n v rule: less_induct)
  case less
  show ?case
  proof (cases "n = 0")
    case True
    then show ?thesis using less.prems by (subst txq_send_loop.simps) simp
  next
    case n: False
    show ?thesis
    proof (cases "skbs (vm_tx_buffer_queue v)")
      case Nil
      then show ?thesis using less.prems n by (subst txq_send_loop.simps) (simp add: txq_dequeue_def)
    next
      case (Cons b bs)
      let ?q = "(vm_tx_buffer_queue v)\<lparr>skbs := bs, qlen := qlen (vm_tx_buffer_queue v) - 1\<rparr>"
      define w where "w = v\<lparr>vm_tx_buffer_queue := ?q\<rparr>"
      have w: "ap_inv {} w" "conf w = conf v" "vm_tx_buffer_queue w = ?q"
        using ap_inv_buffer_sub [OF less.prems(1), of ?q] Cons by (auto simp: w_def)
      have ob: "own w b" using less.prems(3) Cons own_conf [OF w(2)] by simp
      obtain e v' where tx: "drv_tx_start E b w = Some (e, v')" "ap_inv {} v'" "conf v' = conf w"
        "\<not> buffering w \<Longrightarrow> vm_tx_buffer_queue v' = vm_tx_buffer_queue w"
        using drv_tx_start_ok [OF w(1) ob, of E] by blast
      have nb: "\<not> buffering w" "\<not> buffering v'"
        using less.prems(2) conf_buffering [OF w(2)] conf_buffering [OF tx(3)] by auto
      have q: "vm_tx_buffer_queue v' = ?q" using tx(4) nb w by simp
      obtain m v2 where "txq_send_loop E (qlen ?q) v' = Some (m, v2)" "ap_inv {} v2" "conf v2 = conf v'"
        using less.hyps [of v' "qlen ?q"] tx(2,3) w(2) nb q less.prems(3) Cons own_conf [of v' v] by auto
      moreover have "txq_send_loop E n v = txq_send_loop E (qlen ?q) v'"
        using n Cons less.prems(3) tx(1)
        by (subst txq_send_loop.simps) (auto simp: txq_dequeue_def w_def bind_eq_Some_conv)
      ultimately show ?thesis using tx w by auto
    qed
  qed
qed

lemma buffer_txq_send_ok:
  assumes inv: "ap_inv {} v" and m: "\<not> psqueue_mask v"
  shows "\<exists>n v'. wifi_mac_buffer_txq_send E v = Some (n, v') \<and> ap_inv {} v' \<and> conf v' = conf v"
proof (cases "qlen (vm_tx_buffer_queue v) = 0")
  case True
  then show ?thesis using inv by (simp add: wifi_mac_buffer_txq_send_def)
next
  case False
  obtain w where w: "txq_walk (skbs (vm_tx_buffer_queue v)) v = Some w" "ap_inv {} w" "conf w = conf v" "is_found w = is_found v"
     "skbs (vm_tx_buffer_queue w) = filter (is_found v) (skbs (vm_tx_buffer_queue v))"
     "qlen (vm_tx_buffer_queue w) = qlen (vm_tx_buffer_queue v)"
    using txq_walk_ok [OF inv, of "[]" "skbs (vm_tx_buffer_queue v)"] by auto
  have own: "\<forall>b\<in>set (skbs (vm_tx_buffer_queue w)). own w b \<and> ps_nsta b \<noteq> None"
    using is_found_own [OF w(2)] w(4,5) by auto
  let ?n = "qlen (vm_tx_buffer_queue w)"
  have e: "wifi_mac_buffer_txq_send E v = (if skbs (vm_tx_buffer_queue w) \<noteq> [] \<and> concurrent_channel_switch w
     then Some (?n, w) else txq_send_loop E ?n w)"
    using False w(1,6) by (simp add: wifi_mac_buffer_txq_send_def)
  show ?thesis
  proof (cases "skbs (vm_tx_buffer_queue w) \<noteq> [] \<and> concurrent_channel_switch w")
    case True
    then show ?thesis unfolding e using w by simp
  next
    case no: False
    show ?thesis
    proof (cases "skbs (vm_tx_buffer_queue w) = []")
      case True
      have "txq_send_loop E ?n w = Some (?n, w)"
        using True by (subst txq_send_loop.simps) (simp add: txq_dequeue_def)
      then show ?thesis unfolding e using True w by simp
    next
      case False
      with no m conf_nt [OF w(3)] have "\<not> buffering w" by (simp add: buffering_def)
      from txq_send_loop_ok [OF w(2) this own, of E ?n] show ?thesis unfolding e using no False w by auto
    qed
  qed
qed

lemma buffer_txq_send_pre_ok:
  assumes inv: "ap_inv {} v"
  shows "\<exists>n v'. wifi_mac_buffer_txq_send_pre E v = Some (n, v') \<and> ap_inv {} v'"
proof (cases "psqueue_mask v")
  case True
  then show ?thesis using inv by (simp add: wifi_mac_buffer_txq_send_pre_def)
next
  case False
  let ?w = "(ap_emit [HalUnpause] v)\<lparr>phase_tx_buff_queue := True\<rparr>"
  have "ap_inv {} ?w" using inv by simp
  moreover have "\<not> psqueue_mask ?w" using False by (simp add: psqueue_mask_def ap_emit_def)
  ultimately have "ap_inv {} ?w" "\<not> psqueue_mask ?w" by blast+
  from buffer_txq_send_ok [OF this, of E] False show ?thesis
    by (auto simp: wifi_mac_buffer_txq_send_pre_def)
qed

lemma noa_end_stations_ok:
  "ap_inv {} v \<Longrightarrow> set is \<subseteq> set (nt_nsta v) \<Longrightarrow> \<exists>v'. noa_end_stations E is v = Some v' \<and> ap_inv {} v'"
proof (induction "is" arbitrary: v)
  case (Cons i "is")
  have i: "i \<in> set (nt_nsta v)" using Cons.prems by simp
  have "\<exists>v'. noa_end_station E i v = Some v' \<and> ap_inv {} v' \<and> nt_nsta v' = nt_nsta v"
  proof (cases "ps_flush_wait_noa_end (stas v i)")
    case True
    obtain n v' where v': "wifi_mac_pwrsave_psqueue_flush E i v = Some (n, v')" "ap_inv {} v'" "conf v' = conf v"
      "sta_pstxqueue (stas v' i) = [] \<or> n \<noteq> 0 \<and> ps_flush_wait_noa_end (stas v' i)"
      using psqueue_flush_ok [OF Cons.prems(1) i, of E] by auto
    have i': "i \<in> set (nt_nsta v')" using conf_nt [OF v'(3)] i by simp
    have "ap_inv {} (upd_sta i (\<lambda>s. s\<lparr>ps_flush_wait_noa_end := False\<rparr>) v')" if "n = 0"
    proof (rule ap_inv_upd [OF v'(2)])
      show "sta_ok {} (upd_sta i (\<lambda>s. s\<lparr>ps_flush_wait_noa_end := False\<rparr>) v') i \<or> i \<notin> set (nt_nsta v')"
        using ap_inv_sta [OF v'(2) i'] v'(4) that by (auto simp: sta_ok_def Let_def)
    qed auto
    with True v' conf_nt [OF v'(3)] show ?thesis by (auto simp: noa_end_station_def)
  qed (use Cons.prems in \<open>simp add: noa_end_station_def\<close>)
  then obtain v' where "noa_end_station E i v = Some v'" "ap_inv {} v'" "nt_nsta v' = nt_nsta v" by blast
  with Cons.IH [of v'] Cons.prems show ?case by simp
qed simp

lemma noa_end_ok:
  assumes inv: "ap_inv {} v"
  shows "\<exists>v'. noa_end E v = Some v' \<and> ap_inv {} v'"
proof -
  have "\<exists>w. (if vm_opmode v = WIFINET_M_HOSTAP then noa_end_stations E (nt_nsta v) v else Some v) = Some w \<and> ap_inv {} w"
    using noa_end_stations_ok [OF inv, of "nt_nsta v" E] inv by auto
  then obtain w where w: "(if vm_opmode v = WIFINET_M_HOSTAP then noa_end_stations E (nt_nsta v) v else Some v) = Some w" "ap_inv {} w"
    by blast
  from buffer_txq_send_pre_ok [OF w(2), of E] w(1) show ?thesis by (auto simp: noa_end_def)
qed

section \<open>Stations\<close>

lemma sta_ok_other:
  "sta_ok X v j \<Longrightarrow> stas w j = stas v j \<Longrightarrow> vm_tim_bitmap w = vm_tim_bitmap v \<Longrightarrow> vm_max_aid w = vm_max_aid v \<Longrightarrow>
   (sta_associd (stas v j) \<noteq> 0 \<Longrightarrow> has_aid w j) \<Longrightarrow> sta_ok X w j"
  by (auto simp: sta_ok_def announced_def Let_def)

text \<open>A station that is cleaned up is as it was made.\<close>

lemma nsta_cleanup_ok:
  assumes inv: "ap_inv {} v" and i: "i \<in> set (nt_nsta v)"
  obtains v' where "nsta_cleanup i v = Some v'" "ap_inv {} v'" "nt_nsta v' = nt_nsta v" "vm_aid_bitmap v' = vm_aid_bitmap v"
    "\<not> node_pwr_mgt (stas v' i)" "sta_associd (stas v' i) = 0" "sta_pstxqueue (stas v' i) = []"
    "\<And>j. j \<noteq> i \<Longrightarrow> stas v' j = stas v j"
proof -
  have host: "vm_opmode v = WIFINET_M_HOSTAP" using inv by (simp add: ap_inv_def tim_ok_def)
  define v1 where "v1 = (if node_pwr_mgt (stas v i)
    then upd_sta i (\<lambda>s. s\<lparr>node_pwr_mgt := False, node_uapsd_trig := False\<rparr>)
      (if vm_opmode v \<noteq> WIFINET_M_STA then v\<lparr>vm_ps_sta := vm_ps_sta v - 1\<rparr> else v) else v)"
  have v1: "ap_inv {i} v1" "nt_nsta v1 = nt_nsta v" "vm_aid_bitmap v1 = vm_aid_bitmap v" "\<not> node_pwr_mgt (stas v1 i)"
    "\<And>j. j \<noteq> i \<Longrightarrow> stas v1 j = stas v j" "vm_opmode v1 = WIFINET_M_HOSTAP"
    using wake_inv [OF inv i, of "\<lambda>s. s\<lparr>node_pwr_mgt := False, node_uapsd_trig := False\<rparr>"] ap_inv_mono [OF inv, of "{i}"] host
    by (auto simp: v1_def upd_sta_def)
  define v2 where "v2 = upd_sta i (\<lambda>s. s\<lparr>node_aref := False\<rparr>) v1"
  have v2: "ap_inv {i} v2" "nt_nsta v2 = nt_nsta v" "vm_aid_bitmap v2 = vm_aid_bitmap v" "\<not> node_pwr_mgt (stas v2 i)"
    "\<And>j. j \<noteq> i \<Longrightarrow> stas v2 j = stas v j" "vm_opmode v2 = WIFINET_M_HOSTAP"
    using ap_inv_simple [OF v1(1), of "\<lambda>s. s\<lparr>node_aref := False\<rparr>" i] v1 by (auto simp: v2_def upd_sta_def)
  define n where "n = length (sta_pstxqueue (stas v2 i))"
  define v3 where "v3 = ap_emit (concat (map (\<lambda>b. [Released i b, FreeSkb b]) (sta_pstxqueue (stas v2 i))))
    (upd_sta i (\<lambda>s. s\<lparr>sta_pstxqueue := []\<rparr>) v2)"
  have "ap_inv {} (upd_sta i (\<lambda>s. s\<lparr>sta_pstxqueue := []\<rparr>) v2)"
    by (rule ap_inv_queue [OF v2(1)]) (use i v2(2) in auto)
  then have v3: "ap_inv {} v3" "nt_nsta v3 = nt_nsta v" "vm_aid_bitmap v3 = vm_aid_bitmap v" "\<not> node_pwr_mgt (stas v3 i)"
    "\<And>j. j \<noteq> i \<Longrightarrow> stas v3 j = stas v j" "vm_opmode v3 = WIFINET_M_HOSTAP" "sta_pstxqueue (stas v3 i) = []"
    unfolding v3_def ap_inv_frame by (simp_all add: v2 ap_emit_def upd_sta_def)
  have i3: "i \<in> set (nt_nsta v3)" using i v3 by simp
  obtain v4 where v4: "(if n \<noteq> 0 \<and> vm_set_tim v3 then wifi_mac_pwrsave_set_tim i False v3 else Some v3) = Some v4"
    "same_but_tim v3 v4" "ap_inv {} v4"
  proof (cases "n \<noteq> 0 \<and> vm_set_tim v3")
    case True
    obtain v' where "wifi_mac_pwrsave_set_tim i False v3 = Some v'" "same_but_tim v3 v'" "ap_inv {} v'"
      by (rule set_tim_ok [OF v3(1) i3, of "{}" False]) (use v3 in \<open>auto simp: Let_def\<close>)
    with True that show thesis by simp
  next
    case False
    have "same_but_tim v3 v3"
      unfolding same_but_tim_def by (intro exI [of _ "vm_tim_bitmap v3"] exI [of _ "vm_ps_pending v3"] exI [of _ "f_timupdate v3"]) simp
    with False v3(1) show thesis by (intro that [of v3]) auto
  qed
  note f = same_but_tim_fields [OF v4(2)]
  have h4: "vm_opmode v4 = WIFINET_M_HOSTAP" using v4(3) by (simp add: ap_inv_def tim_ok_def)
  define v5 where "v5 = (if sta_associd (stas v4 i) \<noteq> 0 then upd_sta i (\<lambda>s. s\<lparr>sta_associd := 0\<rparr>) v4 else v4)"
  have "ap_inv {} (upd_sta i (\<lambda>s. s\<lparr>sta_associd := 0\<rparr>) v4)" (is "ap_inv _ ?w")
  proof -
    have "sleepers ?w = sleepers v4" using f v3(4) by (auto simp: sleepers_def)
    moreover have "sta_ok {} ?w j" if "j \<in> set (nt_nsta ?w)" for j
    proof (cases "j = i")
      case True
      then show ?thesis using f v3(4,7) by (simp add: sta_ok_def Let_def)
    next
      case False
      have "sta_ok {} v4 j" using ap_inv_sta [OF v4(3)] that by simp
      then show ?thesis by (rule sta_ok_other) (use False ap_inv_sta [OF v4(3), of j] that
        in \<open>auto simp: upd_sta_def sta_ok_def has_aid_def Let_def\<close>)
    qed
    moreover have "aids_distinct ?w" using v4(3) by (auto simp: ap_inv_def table_ok_def aids_distinct_def)
    ultimately show ?thesis using v4(3) unfolding ap_inv_def tim_ok_def table_ok_def by (simp add: upd_sta_def)
  qed
  then have v5: "ap_inv {} v5" "sta_associd (stas v5 i) = 0" using v4(3) by (auto simp: v5_def)
  have "nsta_cleanup i v = Some v5"
    unfolding nsta_cleanup_def Let_def wifi_mac_pwrsave_psqueue_clean_def prod.case
      v1_def [symmetric] v2_def [symmetric] n_def [symmetric] v3_def [symmetric] v4(1)
    using h4 by (simp add: v5_def)
  moreover have "nt_nsta v5 = nt_nsta v" "vm_aid_bitmap v5 = vm_aid_bitmap v" "\<not> node_pwr_mgt (stas v5 i)"
    "sta_pstxqueue (stas v5 i) = []" "\<And>j. j \<noteq> i \<Longrightarrow> stas v5 j = stas v j"
    using f v3 by (auto simp: v5_def upd_sta_def)
  ultimately show thesis using v5 that by blast
qed


text \<open>The id of a station, in the bitmap of ids.\<close>

lemma word_bit: "bit ((2::u32) ^ (i mod 32)) (j mod 32) \<longleftrightarrow> j mod 32 = i mod 32"
  by (auto simp: bit_exp_iff possible_bit_def)

lemma div_mod_32: "j div 32 = i div 32 \<Longrightarrow> j mod 32 = i mod 32 \<longleftrightarrow> j = (i::nat)"
  by (metis div_mult_mod_eq)

lemma isset_set_aid: "vm_StaSetAid i bm = Some bm' \<Longrightarrow>
    length bm' = length bm \<and> (vm_StaIsSetAid bm' j = Some True \<longleftrightarrow> j = i \<or> vm_StaIsSetAid bm j = Some True)"
  using word_bit [of i j] div_mod_32 [of j i]
  by (cases "j div 32 = i div 32")
    (auto simp: vm_StaIsSetAid_def vm_StaSetAid_def bit_or_iff split: if_splits)

lemma isset_clear_aid: "vm_StaClearAid i bm = Some bm' \<Longrightarrow>
    length bm' = length bm \<and> (vm_StaIsSetAid bm' j = Some True \<longleftrightarrow> j \<noteq> i \<and> vm_StaIsSetAid bm j = Some True)"
  using word_bit [of i j] div_mod_32 [of j i]
  by (cases "j div 32 = i div 32")
    (auto simp: vm_StaIsSetAid_def vm_StaClearAid_def bit_and_iff bit_not_iff possible_bit_def split: if_splits)

text \<open>Taking a station out of the tables does not matter to cleaning it up.\<close>

definition untable :: "u32 list \<Rightarrow> u16 \<Rightarrow> nat list \<Rightarrow> ap_vif \<Rightarrow> ap_vif" where
  "untable bm c x v = v\<lparr>vm_aid_bitmap := bm, vm_sta_assoc := c, nt_nsta := x\<rparr>"

lemma untable_fields [simp]:
  "stas (untable bm c x v) = stas v" "vm_opmode (untable bm c x v) = vm_opmode v" "vm_set_tim (untable bm c x v) = vm_set_tim v"
  "upd_sta i f (untable bm c x v) = untable bm c x (upd_sta i f v)" "ap_emit es (untable bm c x v) = untable bm c x (ap_emit es v)"
  "(untable bm c x v)\<lparr>vm_ps_sta := n\<rparr> = untable bm c x (v\<lparr>vm_ps_sta := n\<rparr>)" "vm_ps_sta (untable bm c x v) = vm_ps_sta v"
  by (simp_all add: untable_def upd_sta_def ap_emit_def)

lemma set_tim_untable [simp]:
  "wifi_mac_pwrsave_set_tim i st (untable bm c x v) = map_option (untable bm c x) (wifi_mac_pwrsave_set_tim i st v)"
  by (cases "vm_tim_bitmap v") (simp_all add: wifi_mac_pwrsave_set_tim_def Let_def untable_def)

lemma nsta_cleanup_untable:
  "nsta_cleanup i (untable bm c x v) = map_option (untable bm c x) (nsta_cleanup i v)"
proof -
  have b: "Option.bind (if P then map_option g r else Some (g w)) (\<lambda>u. Some (if Q u then F u else u)) =
    map_option g (Option.bind (if P then r else Some w) (\<lambda>u. Some (if Q u then F u else u)))"
    if "\<And>w. Q (g w) = Q w" "\<And>w. F (g w) = g (F w)" for P g r w and Q :: "ap_vif \<Rightarrow> bool" and F
    using that by (cases r) simp_all
  have i: "(if P then untable bm c x a else untable bm c x d) = untable bm c x (if P then a else d)" for P a d by simp
  show ?thesis
    unfolding nsta_cleanup_def Let_def wifi_mac_pwrsave_psqueue_clean_def prod.case untable_fields i set_tim_untable
    by (subst b) simp_all
qed

lemma untable_inv:
  assumes inv: "ap_inv {} v" and ps: "\<not> node_pwr_mgt (stas v i)" and len: "length bm = length (vm_aid_bitmap v)"
    and bm: "\<And>j. j \<in> set (nt_nsta v) \<Longrightarrow> j \<noteq> i \<Longrightarrow> sta_associd (stas v j) \<noteq> 0 \<Longrightarrow>
      vm_StaIsSetAid bm (WIFINET_AID (sta_associd (stas v j))) = Some True"
  shows "ap_inv {} (untable bm c (removeAll i (nt_nsta v)) v)" (is "ap_inv _ ?w")
proof -
  have "sleepers ?w = sleepers v" using ps by (auto simp: sleepers_def untable_def)
  moreover have "sta_ok {} ?w j" if "j \<in> set (nt_nsta ?w)" for j
  proof (rule sta_ok_other)
    have j: "j \<in> set (nt_nsta v)" "j \<noteq> i" using that by (auto simp: untable_def)
    then show "sta_ok {} v j" using ap_inv_sta [OF inv] by blast
    then show "has_aid ?w j" if "sta_associd (stas v j) \<noteq> 0"
      using bm [OF j that] that by (auto simp: sta_ok_def has_aid_def untable_def Let_def)
  qed (simp_all add: untable_def)
  moreover have "aids_distinct ?w" using inv by (auto simp: ap_inv_def table_ok_def aids_distinct_def untable_def)
  ultimately show ?thesis using inv len unfolding ap_inv_def tim_ok_def table_ok_def
    by (auto simp: untable_def distinct_removeAll)
qed

lemma disconnect_from_ap_ok:
  assumes inv: "ap_inv {} v" and i: "i \<in> set (nt_nsta v)"
  shows "\<exists>v'. wifi_mac_sta_disconnect_from_ap i v = Some v' \<and> ap_inv {} v'"
proof -
  let ?aid = "\<lambda>j. WIFINET_AID (sta_associd (stas v j))"
  obtain bm c where d: "wifi_mac_sta_disconnect i v = Some (v\<lparr>vm_aid_bitmap := bm, vm_sta_assoc := c\<rparr>)"
    "length bm = length (vm_aid_bitmap v)"
    "\<And>j. j \<in> set (nt_nsta v) \<Longrightarrow> j \<noteq> i \<Longrightarrow> sta_associd (stas v j) \<noteq> 0 \<Longrightarrow> vm_StaIsSetAid bm (?aid j) = Some True"
  proof (cases "sta_associd (stas v i) = 0")
    case True
    then show thesis using ap_inv_sta [OF inv]
      by (intro that [where bm = "vm_aid_bitmap v" and c = "vm_sta_assoc v"])
        (auto simp: wifi_mac_sta_disconnect_def sta_ok_def has_aid_def Let_def)
  next
    case False
    then have "vm_StaIsSetAid (vm_aid_bitmap v) (?aid i) = Some True"
      using ap_inv_sta [OF inv i] by (simp add: sta_ok_def has_aid_def Let_def)
    then obtain bm where bm: "vm_StaClearAid (?aid i) (vm_aid_bitmap v) = Some bm"
      by (auto simp: vm_StaIsSetAid_def vm_StaClearAid_def split: if_splits)
    have ne: "?aid j \<noteq> ?aid i" if "j \<in> set (nt_nsta v)" "j \<noteq> i" "sta_associd (stas v j) \<noteq> 0" for j
      using inv i that False by (auto simp: ap_inv_def table_ok_def aids_distinct_def)
    show thesis
    proof (rule that [where bm = bm and c = "vm_sta_assoc v - 1"])
      show "vm_StaIsSetAid bm (?aid j) = Some True"
        if "j \<in> set (nt_nsta v)" "j \<noteq> i" "sta_associd (stas v j) \<noteq> 0" for j
        using isset_clear_aid [OF bm, of "?aid j"] ne [OF that] ap_inv_sta [OF inv that(1)] that(3)
        by (simp add: sta_ok_def has_aid_def Let_def)
    qed (use False bm isset_clear_aid [OF bm] in \<open>simp_all add: wifi_mac_sta_disconnect_def\<close>)
  qed
  obtain v' where v': "nsta_cleanup i v = Some v'" "ap_inv {} v'" "nt_nsta v' = nt_nsta v" "vm_aid_bitmap v' = vm_aid_bitmap v"
    "\<not> node_pwr_mgt (stas v' i)" "\<And>j. j \<noteq> i \<Longrightarrow> stas v' j = stas v j"
    using nsta_cleanup_ok [OF inv i] by metis
  have "ap_inv {} (untable bm c (removeAll i (nt_nsta v')) v')"
    by (rule untable_inv [OF v'(2,5)]) (use d v' in simp_all)
  moreover have "wifi_mac_sta_disconnect_from_ap i v = nsta_cleanup i (untable bm c (removeAll i (nt_nsta v)) v)"
    by (simp add: wifi_mac_sta_disconnect_from_ap_def d(1) untable_def)
  ultimately show ?thesis using v'(1,3) by (simp add: nsta_cleanup_untable)
qed

text \<open>A new id is free.\<close>

lemma find_aid_props:
  "mx \<le> 32 * length bm \<Longrightarrow> 1 \<le> a \<Longrightarrow> \<exists>b. find_aid bm mx a = Some b \<and> 1 \<le> b \<and>
     (b < mx \<longrightarrow> vm_StaIsSetAid bm b = Some False) \<and> (mx \<le> b \<longrightarrow> mx \<le> a \<or> (\<forall>c. a \<le> c \<longrightarrow> c < mx \<longrightarrow> vm_StaIsSetAid bm c = Some True))"
proof (induction bm mx a rule: find_aid.induct)
  case (1 bm mx a)
  show ?case
  proof (cases "a < mx")
    case True
    then have "a div 32 < length bm" using 1(2) by (simp add: div_less_iff_less_mult mult.commute)
    then obtain t where t: "vm_StaIsSetAid bm a = Some t" by (simp add: vm_StaIsSetAid_def)
    show ?thesis
    proof (cases t)
      case True
      obtain b where b: "find_aid bm mx (a + 1) = Some b" "1 \<le> b" "b < mx \<longrightarrow> vm_StaIsSetAid bm b = Some False"
        "mx \<le> b \<longrightarrow> mx \<le> a + 1 \<or> (\<forall>c. a + 1 \<le> c \<longrightarrow> c < mx \<longrightarrow> vm_StaIsSetAid bm c = Some True)"
        using 1(1) [OF \<open>a < mx\<close> t True] 1(2) by auto
      have "vm_StaIsSetAid bm c = Some True" if "mx \<le> b" "a \<le> c" "c < mx" for c
        using b(4) t True that by (cases "c = a") auto
      moreover have "find_aid bm mx a = Some b" using \<open>a < mx\<close> t True b(1) by simp
      ultimately show ?thesis using b(2,3) by blast
    next
      case False
      then have "find_aid bm mx a = Some a" using \<open>a < mx\<close> t by simp
      then show ?thesis using 1(3) t False \<open>a < mx\<close> by auto
    qed
  next
    case False
    then have "find_aid bm mx a = Some a" by simp
    then show ?thesis using False 1(3) by auto
  qed
qed

lemma AID_take_bit: "WIFINET_AID b = unat (take_bit 14 b)"
proof -
  have "not (0xc000 :: u16) = mask 14" by (simp add: mask_eq_exp_minus_1)
  then show ?thesis unfolding WIFINET_AID_def by (simp only: take_bit_eq_mask)
qed

lemma AID_of_associd:
  assumes "a < 2 ^ 14"
  shows "WIFINET_AID (or (of_nat a) 0xc000) = a" "or (of_nat a) 0xc000 \<noteq> (0 :: u16)"
proof -
  have "take_bit 14 (or (of_nat a) 0xc000 :: u16) = or (take_bit 14 (of_nat a)) (take_bit 14 0xc000)" by (rule take_bit_or)
  also have "take_bit 14 (0xc000 :: u16) = 0" by simp
  also have "take_bit 14 (of_nat a :: u16) = of_nat a" by (simp only: take_bit_of_nat take_bit_nat_eq_self [OF assms])
  finally show "WIFINET_AID (or (of_nat a) 0xc000) = a" using assms
    by (simp add: AID_take_bit unat_of_nat)
  have "bit (or (of_nat a) 0xc000 :: u16) 15" by (simp add: bit_or_iff)
  then show "or (of_nat a) 0xc000 \<noteq> (0 :: u16)" by (metis bit_0_eq bot_apply bot_bool_def)
qed

lemma assign_aid_ok:
  assumes inv: "ap_inv {} v" and i: "i \<in> set (nt_nsta v)"
  shows "\<exists>away v'. assign_aid i v = Some (away, v') \<and> ap_inv {} v' \<and> (\<not> away \<longrightarrow> i \<in> set (nt_nsta v'))"
proof (cases "sta_associd (stas v i) = 0")
  case False
  then show ?thesis using inv i by (auto simp: assign_aid_def)
next
  case zero: True
  let ?mx = "vm_max_aid v" and ?bm = "vm_aid_bitmap v"
  have mx: "?mx \<le> 32 * length ?bm" "?mx \<le> 2007" using inv by (auto simp: ap_inv_def table_ok_def tim_ok_def)
  obtain a where a: "find_aid ?bm ?mx 1 = Some a" "1 \<le> a" "a < ?mx \<longrightarrow> vm_StaIsSetAid ?bm a = Some False"
    using find_aid_props [OF mx(1), of 1] by auto
  show ?thesis
  proof (cases "a < ?mx")
    case False
    have "ap_inv {} (ap_emit [AssocTooMany i] v)" using inv by simp
    from disconnect_from_ap_ok [OF this, of i] obtain w where
      "wifi_mac_sta_disconnect_from_ap i (ap_emit [AssocTooMany i] v) = Some w" "ap_inv {} w" using i by auto
    then show ?thesis using zero a(1) False
      by (intro exI [of _ True] exI [of _ w]) (simp add: assign_aid_def del: find_aid.simps)
  next
    case True
    define d where "d = (or (of_nat a) 0xc000 :: u16)"
    have d: "WIFINET_AID d = a" "d \<noteq> 0" using AID_of_associd [of a] True mx(2) by (simp_all add: d_def)
    have free: "vm_StaIsSetAid ?bm a = Some False" using a(3) True by simp
    then obtain bm where bm: "vm_StaSetAid a ?bm = Some bm"
      by (auto simp: vm_StaIsSetAid_def vm_StaSetAid_def split: if_splits)
    note set = isset_set_aid [OF bm]
    let ?w = "upd_sta i (\<lambda>s. s\<lparr>sta_associd := d\<rparr>) (v\<lparr>vm_aid_bitmap := bm, vm_sta_assoc := vm_sta_assoc v + 1\<rparr>)"
    have used: "WIFINET_AID (sta_associd (stas v j)) \<noteq> a" if "j \<in> set (nt_nsta v)" "sta_associd (stas v j) \<noteq> 0" for j
      using ap_inv_sta [OF inv that(1)] that(2) free by (auto simp: sta_ok_def has_aid_def Let_def)
    then have used': "\<forall>j\<in>set (nt_nsta v). sta_associd (stas v j) \<noteq> 0 \<longrightarrow> WIFINET_AID (sta_associd (stas v j)) \<noteq> a"
      by blast
    have "sleepers ?w = sleepers v" by (auto simp: sleepers_def upd_sta_def)
    moreover have "aids_distinct v" using inv by (simp add: ap_inv_def table_ok_def)
    then have "aids_distinct ?w" unfolding aids_distinct_def using used' by (auto simp: upd_sta_def d)
    moreover have "sta_ok {} ?w j" if j: "j \<in> set (nt_nsta ?w)" for j
    proof (cases "j = i")
      case True
      then show ?thesis using ap_inv_sta [OF inv i] d zero set a(2) \<open>a < ?mx\<close>
        by (auto simp: sta_ok_def has_aid_def upd_sta_def Let_def WME_UAPSD_NODE_ALL_AC_CAN_TRIGGER_def)
    next
      case False
      have "sta_ok {} v j" using ap_inv_sta [OF inv] j by simp
      then show ?thesis by (rule sta_ok_other)
        (use False set \<open>sta_ok {} v j\<close> in \<open>auto simp: upd_sta_def sta_ok_def has_aid_def Let_def\<close>)
    qed
    ultimately have "ap_inv {} ?w" using inv set [of 0] unfolding ap_inv_def tim_ok_def table_ok_def by (auto simp: upd_sta_def)
    moreover have "assign_aid i v = Some (False, ?w)"
      unfolding assign_aid_def Let_def a(1)
      using zero True bm by (simp add: d_def [symmetric] d del: find_aid.simps)
    ultimately show ?thesis using i by (auto simp: upd_sta_def)
  qed
qed

lemma connect_ok:
  assumes "ap_inv {} v" "i \<in> set (nt_nsta v)"
  shows "\<exists>v'. wifi_mac_sta_connect i sent v = Some v' \<and> ap_inv {} v'"
  using assign_aid_ok [OF assms] disconnect_from_ap_ok by (fastforce simp: wifi_mac_sta_connect_def)

end
