(* ===== verification/ApPowerRun.thy ===== *)
theory ApPowerRun
  imports ApPowerInv "HOL-Library.Multiset"
begin

text \<open>
  Frames that come and go: an account of every frame given to the access point, which every operation
  keeps, and sequences of operations.
\<close>

section \<open>The account\<close>

text \<open>The books: which frames entered and left the queue of a station, and which are done with.\<close>

fun ev_saved :: "nat \<Rightarrow> ap_event \<Rightarrow> nat list" where
  "ev_saved i (Saved j b) = (if i = j then [ps_id b] else [])" | "ev_saved i _ = []"

fun ev_released :: "nat \<Rightarrow> ap_event \<Rightarrow> nat list" where
  "ev_released i (Released j b) = (if i = j then [ps_id b] else [])" | "ev_released i _ = []"

fun ev_in :: "ap_event \<Rightarrow> nat multiset" where
  "ev_in (Saved j b) = {#ps_id b#}" | "ev_in _ = {#}"

fun ev_out :: "ap_event \<Rightarrow> nat multiset" where
  "ev_out (Released j b) = {#ps_id b#}" | "ev_out _ = {#}"

fun ev_done :: "ap_event \<Rightarrow> nat multiset" where
  "ev_done (FreeSkb b) = {#ps_id b#}" | "ev_done (FreeTask b) = {#ps_id b#}" | "ev_done (TidQueued b) = {#ps_id b#}"
| "ev_done (Sent b) = {#ps_id b#}" | "ev_done (Completed e b) = {#ps_id b#}" | "ev_done (Refused e b) = {#ps_id b#}"
| "ev_done _ = {#}"

definition saved :: "nat \<Rightarrow> ap_event list \<Rightarrow> nat list" where "saved i es = concat (map (ev_saved i) es)"
definition released :: "nat \<Rightarrow> ap_event list \<Rightarrow> nat list" where "released i es = concat (map (ev_released i) es)"
definition all_in :: "ap_event list \<Rightarrow> nat multiset" where "all_in es = sum_list (map ev_in es)"
definition all_out :: "ap_event list \<Rightarrow> nat multiset" where "all_out es = sum_list (map ev_out es)"
definition all_done :: "ap_event list \<Rightarrow> nat multiset" where "all_done es = sum_list (map ev_done es)"

lemmas log_defs = saved_def released_def all_in_def all_out_def all_done_def

lemma log_append [simp]:
  "saved i (a @ b) = saved i a @ saved i b" "released i (a @ b) = released i a @ released i b"
  "all_in (a @ b) = all_in a + all_in b" "all_out (a @ b) = all_out a + all_out b" "all_done (a @ b) = all_done a + all_done b"
  by (simp_all add: log_defs)

lemma log_Cons [simp]:
  "saved i (e # b) = ev_saved i e @ saved i b" "released i (e # b) = ev_released i e @ released i b"
  "all_in (e # b) = ev_in e + all_in b" "all_out (e # b) = ev_out e + all_out b" "all_done (e # b) = ev_done e + all_done b"
  by (simp_all add: log_defs)

lemma log_Nil [simp]: "saved i [] = []" "released i [] = []" "all_in [] = {#}" "all_out [] = {#}" "all_done [] = {#}"
  by (simp_all add: log_defs)

abbreviation ids :: "ps_skb list \<Rightarrow> nat multiset" where "ids q \<equiv> image_mset ps_id (mset q)"

text \<open>G are the frames given so far, P those an operation has in hand.\<close>

definition books :: "nat multiset \<Rightarrow> nat multiset \<Rightarrow> ap_vif \<Rightarrow> bool" where
  "books G P v \<longleftrightarrow>
     (\<forall>i. saved i (ap_log v) = released i (ap_log v) @ map ps_id (sta_pstxqueue (stas v i))) \<and>
     G + all_out (ap_log v) = all_done (ap_log v) + all_in (ap_log v) + ids (skbs (vm_tx_buffer_queue v)) + P"

definition same_books :: "ap_vif \<Rightarrow> ap_vif \<Rightarrow> bool" where
  "same_books v w \<longleftrightarrow> ap_log w = ap_log v \<and> vm_tx_buffer_queue w = vm_tx_buffer_queue v \<and>
     (\<forall>i. sta_pstxqueue (stas w i) = sta_pstxqueue (stas v i))"

lemma same_books: "same_books v w \<Longrightarrow> books G P w = books G P v"
  by (simp add: same_books_def books_def)

lemma books_frame [simp]:
  "books G P (tick v) = books G P v" "books G P (v\<lparr>add_wakeup_work := a\<rparr>) = books G P v"
  "books G P (v\<lparr>vm_legacyps_txframes := n\<rparr>) = books G P v" "books G P (v\<lparr>phase_tx_buff_queue := a\<rparr>) = books G P v"
  "books G P (v\<lparr>vm_ps_sta := c\<rparr>) = books G P v" "books G P (v\<lparr>nt_nsta := x\<rparr>) = books G P v"
  "books G P (v\<lparr>vm_aid_bitmap := bm, vm_sta_assoc := d\<rparr>) = books G P v"
  by (simp_all add: books_def tick_def)

lemma books_upd [simp]:
  "(\<And>s. sta_pstxqueue (f s) = sta_pstxqueue s) \<Longrightarrow> books G P (upd_sta i f v) = books G P v"
  by (rule same_books) (simp add: same_books_def upd_sta_def)

lemma books_emit:
  "(\<And>i. ev_saved i e = [] \<and> ev_released i e = []) \<Longrightarrow> ev_in e = {#} \<Longrightarrow> ev_out e = {#} \<Longrightarrow>
   books G (P + ev_done e) v \<Longrightarrow> books G P (ap_emit [e] v)"
  by (auto simp: books_def ap_emit_def ac_simps)

lemma books_set_tim: "wifi_mac_pwrsave_set_tim i st v = Some v' \<Longrightarrow> books G P v' = books G P v"
  by (rule same_books) (auto simp: wifi_mac_pwrsave_set_tim_def same_books_def Let_def bind_eq_Some_conv split: if_splits)

lemma books_buffer: "books G (P + {#ps_id b#}) v \<Longrightarrow>
   books G P (v\<lparr>vm_tx_buffer_queue := wifi_mac_buffer_txq_enqueue b (vm_tx_buffer_queue v)\<rparr>)"
  by (simp add: books_def wifi_mac_buffer_txq_enqueue_def ac_simps)

lemma psqueue_enqueue_books:
  assumes "wifi_mac_pwrsave_psqueue_enqueue i b v = Some v'" "books G (P + {#ps_id b#}) v"
  shows "books G P v'"
proof -
  let ?b = "b\<lparr>ps_csum := save_age (stas v i) v\<rparr>"
  let ?w = "ap_emit [Saved i ?b] (upd_sta i (\<lambda>s. s\<lparr>sta_pstxqueue := sta_pstxqueue s @ [?b]\<rparr>) v)"
  have "books G P ?w" using assms(2) by (auto simp: books_def ap_emit_def upd_sta_def ac_simps)
  moreover have "books G P (ap_emit [FreeSkb b] v)" by (rule books_emit) (use assms(2) in auto)
  ultimately show ?thesis using assms(1)
    by (auto simp: wifi_mac_pwrsave_psqueue_enqueue_def Let_def books_set_tim split: if_splits)
qed

lemma tx_start_send_books: "books G (P + {#ps_id b#}) v \<Longrightarrow> tx_start_send E b v = (e, v') \<Longrightarrow> books G P v'"
  by (auto simp: tx_start_send_def Let_def intro!: books_emit split: if_splits)

lemma books_quiet [simp]: "books G P (ap_emit [PresleepTimer] v) = books G P v"
  by (simp add: books_def ap_emit_def)

lemma drv_tx_start_books:
  assumes "drv_tx_start E b v = Some (e, v')" "books G (P + {#ps_id b#}) v"
  shows "books G P v'"
proof -
  define R where "R r \<longleftrightarrow> (\<forall>e v'. r = Some (e :: int, v') \<longrightarrow> books G P v')" for r
  have R_if: "R (if c then x else y)" if "R x" "R y" for c x y using that by simp
  have emit: "R (Some (e, ap_emit [ev] w))" if "books G (P + {#ps_id b#}) w" "ev = TidQueued b \<or> (\<exists>n. ev = Refused n b \<or> ev = Completed n b)" for e ev w
    using that books_emit [of ev G P w] by (auto simp: R_def)
  have buf: "R (Some (0, w\<lparr>vm_tx_buffer_queue := wifi_mac_buffer_txq_enqueue b (vm_tx_buffer_queue w)\<rparr>))"
    if "books G (P + {#ps_id b#}) w" for w using books_buffer [OF that] by (simp add: R_def)
  have ps: "R (map_option (Pair 0) (wifi_mac_pwrsave_psqueue_enqueue i b w))" if "books G (P + {#ps_id b#}) w" for i w
    using psqueue_enqueue_books [OF _ that] by (auto simp: R_def)
  have send: "R (Some (tx_start_send E b w))" if "books G (P + {#ps_id b#}) w" for w
    using tx_start_send_books [OF that] by (auto simp: R_def)
  have "R (drv_tx_start E b v)"
  proof (cases "ps_nsta b")
    case None
    then show ?thesis using emit [OF assms(2)] by (simp add: drv_tx_start_def)
  next
    case (Some i)
    show ?thesis unfolding drv_tx_start_def Some option.case Let_def
      by (intro R_if; (rule emit | rule buf | rule ps | rule send)) (use assms(2) in auto)
  qed
  with assms(1) show ?thesis by (simp add: R_def)
qed

lemma psqueue_send_books:
  assumes "wifi_mac_pwrsave_psqueue_send E i force v = Some (n, v')" "books G P v"
  shows "books G P v'"
proof (cases "sta_pstxqueue (stas v i)")
  case Nil
  have "books G P (ap_emit [NullData i] v)" by (rule books_emit) (use assms(2) in auto)
  with Nil assms show ?thesis by (auto simp: wifi_mac_pwrsave_psqueue_send_def split: if_splits)
next
  case (Cons b q)
  let ?v = "ap_emit [Released i b] (upd_sta i (\<lambda>s. s\<lparr>sta_pstxqueue := q\<rparr>) v)"
  have b: "books G (P + {#ps_id b#}) ?v"
    using assms(2) Cons by (auto simp: books_def ap_emit_def upd_sta_def ac_simps)
  have "books G P v2" if "ps_id c = ps_id b" "drv_tx_start E c w = Some (e, v2)" "books G (P + {#ps_id b#}) w" for c w e v2
    using drv_tx_start_books [OF that(2)] that(1,3) by simp
  moreover define c where "c = (if node_pwr_mgt (stas ?v i) then b\<lparr>m_bypass := True\<rparr> else b\<lparr>m_pwr_sav := False\<rparr>)"
  moreover define d where "d = (if q = [] then c\<lparr>fc_more_data := False\<rparr> else c)"
  moreover define w where "w = (if b_buffered d then ?v else ?v\<lparr>vm_legacyps_txframes := vm_legacyps_txframes ?v + 1\<rparr>)"
  moreover obtain e where "drv_tx_start E (d\<lparr>b_buffered := True\<rparr>) w = Some (e, v')"
    using assms(1) unfolding wifi_mac_pwrsave_psqueue_send_def Cons list.case Let_def
      c_def [symmetric] d_def [symmetric] w_def [symmetric] by (auto simp: bind_eq_Some_conv)
  moreover have "ps_id (d\<lparr>b_buffered := True\<rparr>) = ps_id b" by (simp add: d_def c_def)
  moreover have "books G (P + {#ps_id b#}) w" using b by (simp add: w_def)
  ultimately show ?thesis by blast
qed

lemma psqueue_flush_books:
  assumes "wifi_mac_pwrsave_psqueue_flush E i v = Some (n, v')" "books G P v"
  shows "books G P v'"
proof -
  have "books G P v \<longrightarrow> books G P (snd r)" if "wifi_mac_pwrsave_psqueue_flush E i v = Some r" for r
    using that
  proof (induction rule: wifi_mac_pwrsave_psqueue_flush.raw_induct [rotated, consumes 1, case_names step])
    case (step f E i v r)
    from step(2) obtain m w where w: "wifi_mac_pwrsave_psqueue_send E i False v = Some (m, w)"
      and r: "(if m = 0 then Some (m, w)
        else if noa_started w then Some (m, upd_sta i (\<lambda>s. s\<lparr>ps_flush_wait_noa_end := True\<rparr>) w) else f E i w) = Some r"
      by (auto simp: bind_eq_Some_conv)
    have "f E i w = Some r \<Longrightarrow> books G P w \<longrightarrow> books G P (snd r)" by (rule step(1))
    then have "books G P w \<longrightarrow> books G P (snd r)" using r by (auto split: if_splits)
    with psqueue_send_books [OF w] show ?case by blast
  qed
  with assms show ?thesis by fastforce
qed

lemma state_change_books:
  assumes "wifi_mac_pwrsave_state_change E i enable v = Some v'" "books G P v"
  shows "books G P v'"
proof -
  have e: "books G P (ap_emit [WakeupRx] w)" if "books G P w" for w using that by (intro books_emit) auto
  from assms show ?thesis
    by (auto simp: wifi_mac_pwrsave_state_change_def Let_def bind_eq_Some_conv call_set_tim_def books_set_tim
      split: if_splits dest!: psqueue_flush_books [where G = G and P = P] intro: e)
qed

lemma input_ps_books:
  "wifi_mac_input_ps E i pm v = Some v' \<Longrightarrow> books G P v \<Longrightarrow> books G P v'"
  by (auto simp: wifi_mac_input_ps_def split: if_splits intro: state_change_books books_emit)

lemma recv_pspoll_books:
  "wifi_mac_pwrsave_recv_pspoll E i aid v = Some v' \<Longrightarrow> books G P v \<Longrightarrow> books G P v'"
  by (auto simp: wifi_mac_pwrsave_recv_pspoll_def bind_eq_Some_conv books_set_tim split: if_splits
    intro: psqueue_send_books books_emit)

lemma chk_uapsd_trig_books:
  "wifi_mac_pwrsave_chk_uapsd_trig E found f v = Some v' \<Longrightarrow> books G P v \<Longrightarrow> books G P v'"
  by (auto simp: wifi_mac_pwrsave_chk_uapsd_trig_def Let_def books_set_tim split: option.splits if_splits
    intro!: books_emit)

lemma eosp_books: "books G P (wifi_mac_pwrsave_eosp_indicate i q e v) = books G P v"
  by (simp add: wifi_mac_pwrsave_eosp_indicate_def)

lemma complete_books: "books G P (complete_legacyps b v) = books G P v"
  by (simp add: complete_legacyps_def)

lemma txpre_books:
  "wifi_mac_pwrsave_txpre b v = Some (r, b', v') \<Longrightarrow> ps_id b' = ps_id b \<and> books G P v' = books G P v"
  by (auto simp: wifi_mac_pwrsave_txpre_def Let_def bind_eq_Some_conv books_set_tim split: if_splits)

text \<open>Frames that grow old are in hand until the end of the walk.\<close>

lemma age_books:
  assumes "wifi_mac_pwrsave_psqueue_age i v = (n, old, v')" "books G P v"
  shows "books G (P + ids old) v'"
proof -
  obtain o' left where a: "age_queue (sta_pstxqueue (stas v i)) = (o', left)" by fastforce
  have r: "released j (map (Released i) xs) = (if j = i then map ps_id xs else [])" "saved j (map (Released i) xs) = []"
    "all_in (map (Released i) xs) = {#}" "all_out (map (Released i) xs) = ids xs" "all_done (map (Released i) xs) = {#}" for j xs
    by (induction xs) auto
  from age_queue_props [OF a] have q: "map ps_id (sta_pstxqueue (stas v i)) = map ps_id o' @ map ps_id left" by simp
  show ?thesis using assms q
    by (auto simp: wifi_mac_pwrsave_psqueue_age_def a books_def ap_emit_def upd_sta_def r ac_simps)
qed

lemma timeout_station_books:
  assumes "timeout_station i v = Some (old, v')" "books G P v"
  shows "books G (P + ids old) v'"
proof (cases "\<not> node_aref (stas v i) \<or> sta_associd (stas v i) = 0")
  case True
  with assms show ?thesis by (auto simp: timeout_station_def)
next
  case False
  obtain n o' w where a: "wifi_mac_pwrsave_psqueue_age i v = (n, o', w)" by (metis prod_cases3)
  from age_books [OF a assms(2)] assms(1) False a show ?thesis
    by (auto simp: timeout_station_def Let_def bind_eq_Some_conv books_set_tim split: if_splits)
qed

lemma timeout_stations_books:
  "timeout_stations is v = Some (old, v') \<Longrightarrow> books G P v \<Longrightarrow> books G (P + ids old) v'"
proof (induction "is" arbitrary: v P old)
  case (Cons i "is")
  then obtain o1 w o2 where s: "timeout_station i v = Some (o1, w)" "timeout_stations is w = Some (o2, v')" "old = o1 @ o2"
    by (auto simp: bind_eq_Some_conv)
  from Cons.IH [OF s(2) timeout_station_books [OF s(1) Cons.prems(2)]] s(3) show ?case by (simp add: ac_simps)
qed simp

lemma free_books: "books G (P + ids old) v \<Longrightarrow> books G P (ap_emit (map FreeSkb old) v)"
proof -
  have r: "released j (map FreeSkb xs) = []" "saved j (map FreeSkb xs) = []"
    "all_in (map FreeSkb xs) = {#}" "all_out (map FreeSkb xs) = {#}" "all_done (map FreeSkb xs) = ids xs" for j xs
    by (induction xs) auto
  show "books G (P + ids old) v \<Longrightarrow> books G P (ap_emit (map FreeSkb old) v)"
    by (simp add: books_def ap_emit_def r ac_simps)
qed

lemma TimeoutStations_books:
  "wifi_mac_TimeoutStations v = Some v' \<Longrightarrow> books G P v \<Longrightarrow> books G P v'"
  by (auto simp: wifi_mac_TimeoutStations_def bind_eq_Some_conv dest: timeout_stations_books intro!: free_books)

section \<open>Sequences of operations\<close>

lemma txq_walk_books:
  "txq_walk bs v = Some v' \<Longrightarrow> mset bs \<subseteq># mset (skbs (vm_tx_buffer_queue v)) \<Longrightarrow> books G P v \<Longrightarrow> books G P v'"
proof (induction bs arbitrary: v)
  case (Cons b bs)
  obtain f where f: "sta_find_in_sta_tbl (ps_nsta b) v = Some f"
    using Cons.prems(1) by (auto simp: bind_eq_Some_conv)
  have sub: "mset bs \<subseteq># mset (skbs (vm_tx_buffer_queue v))"
    using Cons.prems(2) by (auto simp: insert_subset_eq_iff intro: subset_mset.order_trans)
  show ?case
  proof (cases f)
    case True
    with Cons.IH [of v] Cons.prems f sub show ?thesis by simp
  next
    case False
    let ?u = "v\<lparr>vm_tx_buffer_queue := aml_skb_unlink b (vm_tx_buffer_queue v)\<rparr>"
    have b: "b \<in># mset (skbs (vm_tx_buffer_queue v))" using Cons.prems(2) by (auto dest: mset_subset_eqD)
    then have i: "ids (skbs (vm_tx_buffer_queue v)) = add_mset (ps_id b) (ids (skbs (vm_tx_buffer_queue ?u)))"
      by (simp add: aml_skb_unlink_def image_mset_Diff)
    have "books G (P + {#ps_id b#}) ?u" using Cons.prems(3) i by (simp add: books_def ac_simps)
    then have "books G P (ap_emit [FreeTask b] ?u)" by (intro books_emit) auto
    moreover have "mset bs \<subseteq># mset (skbs (vm_tx_buffer_queue (ap_emit [FreeTask b] ?u)))"
      using Cons.prems(2) by (simp add: aml_skb_unlink_def insert_subset_eq_iff)
    moreover have "txq_walk bs (ap_emit [FreeTask b] ?u) = Some v'" using Cons.prems(1) f False by simp
    ultimately show ?thesis by (rule_tac Cons.IH)
  qed
qed simp

lemma txq_send_loop_books:
  assumes "txq_send_loop E n v = Some (m, v')" "books G P v"
  shows "books G P v'"
proof -
  have "books G P v \<longrightarrow> books G P (snd r)" if "txq_send_loop E n v = Some r" for r
    using that
  proof (induction rule: txq_send_loop.raw_induct [rotated, consumes 1, case_names step])
    case (step f E n v r)
    show ?case
    proof (cases "n = 0 \<or> skbs (vm_tx_buffer_queue v) = []")
      case True
      with step(2) show ?thesis by (auto simp: txq_dequeue_def split: if_splits)
    next
      case False
      then obtain b bs where q: "skbs (vm_tx_buffer_queue v) = b # bs" by (cases "skbs (vm_tx_buffer_queue v)") auto
      let ?q = "(vm_tx_buffer_queue v)\<lparr>skbs := bs, qlen := qlen (vm_tx_buffer_queue v) - 1\<rparr>"
      from step(2) False q obtain e w where w: "drv_tx_start E b (v\<lparr>vm_tx_buffer_queue := ?q\<rparr>) = Some (e, w)"
        "f E (qlen ?q) w = Some r" by (auto simp: txq_dequeue_def bind_eq_Some_conv)
      have "books G (P + {#ps_id b#}) (v\<lparr>vm_tx_buffer_queue := ?q\<rparr>)" if "books G P v"
        using that q by (simp add: books_def ac_simps)
      then have "books G P w" if "books G P v" using drv_tx_start_books [OF w(1)] that by blast
      moreover have "books G P w \<longrightarrow> books G P (snd r)" using w(2) by (rule step(1))
      ultimately show ?thesis by blast
    qed
  qed
  with assms show ?thesis by fastforce
qed

lemma buffer_txq_send_books:
  assumes "wifi_mac_buffer_txq_send E v = Some (n, v')" "books G P v"
  shows "books G P v'"
  using assms
  by (auto simp: wifi_mac_buffer_txq_send_def bind_eq_Some_conv Let_def split: if_splits
    dest!: txq_walk_books [where G = G and P = P] intro: txq_send_loop_books)

lemma buffer_txq_send_pre_books:
  "wifi_mac_buffer_txq_send_pre E v = Some (n, v') \<Longrightarrow> books G P v \<Longrightarrow> books G P v'"
  by (auto simp: wifi_mac_buffer_txq_send_pre_def bind_eq_Some_conv split: if_splits
    dest!: buffer_txq_send_books [where G = G and P = P] intro!: books_emit)

lemma noa_end_station_books: "noa_end_station E i v = Some v' \<Longrightarrow> books G P v \<Longrightarrow> books G P v'"
  by (auto simp: noa_end_station_def bind_eq_Some_conv split: if_splits dest!: psqueue_flush_books [where G = G and P = P])

lemma noa_end_stations_books: "noa_end_stations E is v = Some v' \<Longrightarrow> books G P v \<Longrightarrow> books G P v'"
  by (induction "is" arbitrary: v) (auto simp: bind_eq_Some_conv dest: noa_end_station_books [where G = G and P = P])

lemma noa_end_books: "noa_end E v = Some v' \<Longrightarrow> books G P v \<Longrightarrow> books G P v'"
  by (auto simp: noa_end_def bind_eq_Some_conv split: if_splits
    dest!: noa_end_stations_books [where G = G and P = P] buffer_txq_send_pre_books [where G = G and P = P])

lemma clean_books: "books G P v \<Longrightarrow> books G P (snd (wifi_mac_pwrsave_psqueue_clean i v))"
proof -
  have r: "released j (concat (map (\<lambda>b. [Released i b, FreeSkb b]) xs)) = (if j = i then map ps_id xs else [])"
    "saved j (concat (map (\<lambda>b. [Released i b, FreeSkb b]) xs)) = []"
    "all_in (concat (map (\<lambda>b. [Released i b, FreeSkb b]) xs)) = {#}"
    "all_out (concat (map (\<lambda>b. [Released i b, FreeSkb b]) xs)) = ids xs"
    "all_done (concat (map (\<lambda>b. [Released i b, FreeSkb b]) xs)) = ids xs" for j xs
    by (induction xs) auto
  assume "books G P v"
  then show ?thesis
    by (auto simp: wifi_mac_pwrsave_psqueue_clean_def Let_def books_def ap_emit_def upd_sta_def r ac_simps)
qed

lemma nsta_cleanup_books:
  assumes "nsta_cleanup i v = Some v'" "books G P v"
  shows "books G P v'"
proof -
  have "books G P v'" if "nsta_cleanup i v = Some v'" "wifi_mac_pwrsave_psqueue_clean i w = (n, u)"
    "(if n \<noteq> 0 \<and> vm_set_tim u then wifi_mac_pwrsave_set_tim i False u else Some u) = Some x"
    "v' = (if vm_opmode x = WIFINET_M_HOSTAP \<and> sta_associd (stas x i) \<noteq> 0
       then upd_sta i (\<lambda>s. s\<lparr>sta_associd := 0\<rparr>) x else x)" "books G P w" for w n u x
  proof -
    have "books G P u" using clean_books [OF that(5), of i] that(2) by simp
    then have "books G P x" using that(3) by (auto simp: books_set_tim split: if_splits)
    then show ?thesis by (simp add: that(4))
  qed
  note last = this
  define w where "w = upd_sta i (\<lambda>s. s\<lparr>node_aref := False\<rparr>) (if node_pwr_mgt (stas v i)
    then upd_sta i (\<lambda>s. s\<lparr>node_pwr_mgt := False, node_uapsd_trig := False\<rparr>)
      (if vm_opmode v \<noteq> WIFINET_M_STA then v\<lparr>vm_ps_sta := vm_ps_sta v - 1\<rparr> else v) else v)"
  obtain n u where c: "wifi_mac_pwrsave_psqueue_clean i w = (n, u)" by fastforce
  from assms(1) obtain x where "(if n \<noteq> 0 \<and> vm_set_tim u then wifi_mac_pwrsave_set_tim i False u else Some u) = Some x"
    "v' = (if vm_opmode x = WIFINET_M_HOSTAP \<and> sta_associd (stas x i) \<noteq> 0
       then upd_sta i (\<lambda>s. s\<lparr>sta_associd := 0\<rparr>) x else x)"
    unfolding nsta_cleanup_def Let_def w_def [symmetric] c prod.case by (auto simp: bind_eq_Some_conv)
  moreover have "books G P w" using assms(2) by (simp add: w_def)
  ultimately show ?thesis using last [OF assms(1) c] by blast
qed

lemma disconnect_from_ap_books:
  "wifi_mac_sta_disconnect_from_ap i v = Some v' \<Longrightarrow> books G P v \<Longrightarrow> books G P v'"
  by (auto simp: wifi_mac_sta_disconnect_from_ap_def wifi_mac_sta_disconnect_def bind_eq_Some_conv split: if_splits
    dest!: nsta_cleanup_books [where G = G and P = P])

lemma connect_books:
  assumes "wifi_mac_sta_connect i sent v = Some v'" "books G P v"
  shows "books G P v'"
proof -
  have "books G P (ap_emit [AssocTooMany i] v)" by (rule books_emit) (use assms(2) in auto)
  with assms show ?thesis
    by (auto simp: wifi_mac_sta_connect_def assign_aid_def Let_def bind_eq_Some_conv simp del: find_aid.simps split: if_splits
      dest!: disconnect_from_ap_books [where G = G and P = P])
qed

text \<open>Everything that can happen to an access point.  A frame comes from the network or the mac layer
  (Transmit), or back from a queue of the driver (TxStart).\<close>

datatype ap_op =
  NewStation nat ap_sta | Connect nat bool | Disconnect nat | Transmit ps_skb | TxStart ps_skb | DataFrame nat bool
| PsPoll nat u16 | Trigger "nat option" uapsd_frame | Eosp nat bool bool | Timeout | NoaEnd | Completion ps_skb
| Absence bool bool bool bool bool | Conditions bool bool bool bool

text \<open>A new station has an empty queue, and the parameters it negotiates.\<close>

definition new_station :: "nat \<Rightarrow> ap_sta \<Rightarrow> ap_vif \<Rightarrow> ap_vif" where
  "new_station i s v =
    (if i \<in> set (nt_nsta v) \<or> i \<in> set (the (other_nsta v)) \<or> sta_pstxqueue (stas v i) \<noteq> [] then v
     else v\<lparr>nt_nsta := i # nt_nsta v, stas := (stas v)(i := s\<lparr>node_pwr_mgt := False, node_aref := True,
       ps_flush_wait_noa_end := False, sta_associd := 0, sta_pstxqueue := []\<rparr>)\<rparr>)"

fun ap_step :: "ap_env \<Rightarrow> ap_op \<Rightarrow> ap_vif \<Rightarrow> ap_vif option" where
  "ap_step E (NewStation i s) v = Some (new_station i s v)"
| "ap_step E (Connect i sent) v = (if i \<in> set (nt_nsta v) then wifi_mac_sta_connect i sent v else Some v)"
| "ap_step E (Disconnect i) v = (if i \<in> set (nt_nsta v) then wifi_mac_sta_disconnect_from_ap i v else Some v)"
| "ap_step E (Transmit b) v = (if own v b \<and> ps_nsta b \<noteq> None then do {
     (_, b, v) \<leftarrow> wifi_mac_pwrsave_txpre b v; map_option snd (drv_tx_start E b v) } else Some v)"
| "ap_step E (TxStart b) v = (if own v b then map_option snd (drv_tx_start E b v) else Some v)"
| "ap_step E (DataFrame i pm) v = (if i \<in> set (nt_nsta v) then wifi_mac_input_ps E i pm v else Some v)"
| "ap_step E (PsPoll i aid) v = (if i \<in> set (nt_nsta v) then wifi_mac_pwrsave_recv_pspoll E i aid v else Some v)"
| "ap_step E (Trigger k f) v = (if (\<forall>i\<in>set_option k. i \<in> set (nt_nsta v)) then wifi_mac_pwrsave_chk_uapsd_trig E k f v else Some v)"
| "ap_step E (Eosp i q e) v = Some (wifi_mac_pwrsave_eosp_indicate i q e v)"
| "ap_step E Timeout v = wifi_mac_TimeoutStations v"
| "ap_step E NoaEnd v = noa_end E v"
| "ap_step E (Completion b) v = Some (complete_legacyps b v)"
| "ap_step E (Absence q opps n started sw) v =
     Some (v\<lparr>ps4quiet := q, psq_opps := opps, psq_noa := n, noa_started := started, concurrent_channel_switch := sw\<rparr>)"
| "ap_step E (Conditions c r d sl) v =
     Some (v\<lparr>vm_connected := c, vm_recovery_up := r, drv_pkt_drop := d, vm_sleeping := sl\<rparr>)"

text \<open>The frames an operation gives to the access point.\<close>

fun given :: "ap_op \<Rightarrow> ap_vif \<Rightarrow> nat multiset" where
  "given (Transmit b) v = (if own v b \<and> ps_nsta b \<noteq> None then {#ps_id b#} else {#})"
| "given (TxStart b) v = (if own v b then {#ps_id b#} else {#})"
| "given _ v = {#}"

fun ap_run :: "ap_env \<Rightarrow> ap_op list \<Rightarrow> ap_vif \<Rightarrow> (nat multiset \<times> ap_vif) option" where
  "ap_run E [] v = Some ({#}, v)"
| "ap_run E (p # ps) v = do {
     v' \<leftarrow> ap_step E p v;
     (g, v'') \<leftarrow> ap_run E ps v';
     Some (given p v + g, v'') }"

lemma new_station_ok: "ap_inv {} v \<Longrightarrow> ap_inv {} (new_station i s v)"
proof -
  assume inv: "ap_inv {} v"
  show ?thesis
  proof (cases "i \<in> set (nt_nsta v) \<or> i \<in> set (the (other_nsta v)) \<or> sta_pstxqueue (stas v i) \<noteq> []")
    case True
    then show ?thesis using inv by (simp add: new_station_def)
  next
    case False
    let ?w = "new_station i s v"
    have w: "nt_nsta ?w = i # nt_nsta v" "stas ?w = (stas v)(i := s\<lparr>node_pwr_mgt := False, node_aref := True,
       ps_flush_wait_noa_end := False, sta_associd := 0, sta_pstxqueue := []\<rparr>)"
      using False by (simp_all add: new_station_def)
    have sl: "sleepers ?w = sleepers v" using False by (auto simp: sleepers_def w)
    have d: "aids_distinct v" using inv by (simp add: ap_inv_def table_ok_def)
    then have "aids_distinct ?w" by (auto simp: aids_distinct_def w)
    moreover have "sta_ok {} ?w j" if j: "j \<in> set (nt_nsta ?w)" for j
    proof (cases "j = i")
      case True
      then show ?thesis by (simp add: sta_ok_def w Let_def)
    next
      case False
      then have ok: "sta_ok {} v j" using ap_inv_sta [OF inv] j w by auto
      show ?thesis by (rule sta_ok_other [OF ok]) (use False ok in \<open>auto simp: new_station_def sta_ok_def has_aid_def Let_def\<close>)
    qed
    moreover have "vm_ps_sta ?w = of_nat (card (sleepers ?w))"
      unfolding sl using inv False by (simp add: new_station_def ap_inv_def table_ok_def)
    ultimately show ?thesis using inv False
      unfolding ap_inv_def tim_ok_def table_ok_def by (simp add: new_station_def)
  qed
qed

lemma ap_step_ok:
  assumes inv: "ap_inv {} v"
  shows "\<exists>v'. ap_step E p v = Some v' \<and> ap_inv {} v'"
proof (cases p)
  case (Transmit b)
  show ?thesis
  proof (cases "own v b \<and> ps_nsta b \<noteq> None")
    case True
    then obtain i where i: "ps_nsta b = Some i" "i \<in> set (nt_nsta v)" by (auto simp: own_def)
    obtain r b' w where w: "wifi_mac_pwrsave_txpre b v = Some (r, b', w)" "ap_inv {} w" "ps_nsta b' = Some i" "conf w = conf v"
      by (rule txpre_ok [OF inv i])
    have o: "own w b'" using i w(3) conf_nt [OF w(4)] by (simp add: own_def)
    obtain e v' where "drv_tx_start E b' w = Some (e, v')" "ap_inv {} v'" by (rule drv_tx_start_ok [OF w(2) o])
    with True w(1) Transmit show ?thesis by simp
  qed (use Transmit inv in auto)
next
  case (TxStart b)
  then show ?thesis using inv by (cases "own v b") (auto elim: drv_tx_start_ok [OF inv, of b E])
next
  case (Absence q oo n st sw)
  then show ?thesis using inv by (simp add: ap_inv_defs)
next
  case (Conditions c r d sl)
  then show ?thesis using inv by (simp add: ap_inv_defs)
qed (use inv in \<open>auto simp: new_station_ok connect_ok disconnect_from_ap_ok input_ps_ok recv_pspoll_ok chk_uapsd_trig_ok
  eosp_ok TimeoutStations_ok noa_end_ok complete_ok\<close>)

lemma ap_step_books:
  assumes "ap_step E p v = Some v'" "books G {#} v"
  shows "books (G + given p v) {#} v'"
proof -
  have more: "books (G + {#x#}) {#x#} v" for x using assms(2) by (simp add: books_def)
  show ?thesis
  proof (cases p)
    case (Transmit b)
    show ?thesis
    proof (cases "own v b \<and> ps_nsta b \<noteq> None")
      case True
      with assms(1) Transmit obtain r b' w e where w: "wifi_mac_pwrsave_txpre b v = Some (r, b', w)" "drv_tx_start E b' w = Some (e, v')"
        by (auto simp: bind_eq_Some_conv)
      from txpre_books [OF w(1)] more [of "ps_id b"] have "books (G + {#ps_id b#}) ({#} + {#ps_id b'#}) w" by simp
      from drv_tx_start_books [OF w(2) this] True Transmit show ?thesis by simp
    qed (use assms Transmit in auto)
  next
    case (TxStart b)
    show ?thesis
    proof (cases "own v b")
      case True
      with assms(1) TxStart obtain e where w: "drv_tx_start E b v = Some (e, v')" by auto
      from drv_tx_start_books [OF w, of "G + {#ps_id b#}" "{#}"] more [of "ps_id b"] True TxStart show ?thesis by simp
    qed (use assms TxStart in auto)
  next
    case (NewStation i s)
    with assms show ?thesis by (auto simp: new_station_def books_def)
  next
    case (Absence q oo n st sw)
    then show ?thesis using assms by (auto simp: books_def)
  next
    case (Conditions c r d sl)
    then show ?thesis using assms by (auto simp: books_def)
  qed (use assms in \<open>auto simp: eosp_books complete_books split: if_splits intro: connect_books disconnect_from_ap_books
    input_ps_books recv_pspoll_books chk_uapsd_trig_books TimeoutStations_books noa_end_books\<close>)
qed

lemma ap_run_ok: "ap_inv {} v \<Longrightarrow> \<exists>g v'. ap_run E ps v = Some (g, v') \<and> ap_inv {} v'"
proof (induction ps arbitrary: v)
  case (Cons p ps)
  obtain w where w: "ap_step E p v = Some w" "ap_inv {} w" using ap_step_ok [OF Cons.prems] by blast
  from Cons.IH [OF w(2)] w(1) show ?case by auto
qed simp

lemma ap_run_books: "ap_run E ps v = Some (g, v') \<Longrightarrow> books G {#} v \<Longrightarrow> books (G + g) {#} v'"
proof (induction ps arbitrary: v G g)
  case (Cons p ps)
  then obtain w h where w: "ap_step E p v = Some w" "ap_run E ps w = Some (h, v')" "g = given p v + h"
    by (auto simp: bind_eq_Some_conv)
  from Cons.IH [OF w(2) ap_step_books [OF w(1) Cons.prems(2)]] w(3) show ?case by (simp add: ac_simps)
qed simp

end
