(* ===== verification/ApBeacon.thy ===== *)
theory ApBeacon
  imports ApPowerInv
begin

text \<open>
  wifi_mac_beacon.c: the traffic indication element of the beacon, how it is brought up to date, and
  what a station (wifi_mac_recv.c) reads of it.
\<close>

section \<open>The element\<close>

text \<open>The beacon from the bitmap of its traffic indication element on: tim_mem is the memory behind
  tie->tim_bitmap, of which the frame uses skb_tail bytes; pointers into the beacon are offsets from
  there.  The two flags of vm_mqueue_flag_send are here too.\<close>

record beacon =
  bo_tim_len :: nat
  tim_len :: u8
  tim_count :: u8
  tim_period :: u8
  tim_bitctl :: u8
  tim_mem :: "u8 list"
  skb_tail :: nat
  bo_tim_trailer :: nat
  bo_tim_trailerlen :: nat
  bo_chanswitch :: int
  bo_extchanswitch :: int
  bo_ch_sw_wrp :: int
  bo_wme :: int
  bo_appie_buf :: int
  bo_erp :: "int option"
  mcast_beacon_dtim :: bool
  mcast_noa_end_retry :: bool

definition memmove :: "nat \<Rightarrow> nat \<Rightarrow> nat \<Rightarrow> u8 list \<Rightarrow> u8 list option" where
  "memmove dst src n m =
    (if src + n \<le> length m \<and> dst + n \<le> length m then Some (take dst m @ take n (drop src m) @ drop (dst + n) m) else None)"

text \<open>The element of a new beacon, before what follows it.\<close>

definition beacon_init_tim :: "u8 \<Rightarrow> beacon \<Rightarrow> beacon option" where
  "beacon_init_tim dtim_period bo = (case tim_mem bo of [] \<Rightarrow> None | _ # m \<Rightarrow>
     Some (bo\<lparr>tim_len := 4, tim_count := 0, tim_period := dtim_period, tim_bitctl := 0, tim_mem := 0 # m,
       bo_tim_len := 1, bo_tim_trailer := 1\<rparr>))"

text \<open>The first byte that is not zero, made even, and the last one.\<close>

fun tim_first :: "u8 list \<Rightarrow> nat \<Rightarrow> nat" where
  "tim_first [] i = 128"
| "tim_first (b # bs) i = (if b \<noteq> 0 then i - i mod 2 else tim_first bs (i + 1))"

fun tim_last :: "u8 list \<Rightarrow> nat \<Rightarrow> nat \<Rightarrow> nat option" where
  "tim_last bm off 0 = None"
| "tim_last bm off (Suc i) =
    (if i < off then Some i else if i < length bm then (if bm ! i \<noteq> 0 then Some i else tim_last bm off i) else None)"

definition tim_window :: "ap_vif \<Rightarrow> (nat \<times> nat) option" where
  "tim_window v =
    (if vm_ps_pending v \<noteq> 0 then do {
       bm \<leftarrow> vm_tim_bitmap v;
       let off = tim_first (take (vm_tim_len v) bm) 0;
       i \<leftarrow> tim_last bm off (vm_tim_len v);
       Some (off, unat (1 + (of_nat i - of_nat off) :: u32)) }
     else Some (0, 1))"

text \<open>What follows the element is moved, and the pointers into it.\<close>

definition resize_tim :: "nat \<Rightarrow> nat \<Rightarrow> beacon \<Rightarrow> beacon option" where
  "resize_tim off n bo = do {
     let d = int n - int (bo_tim_trailer bo);
     m \<leftarrow> memmove n (bo_tim_trailer bo) (bo_tim_trailerlen bo) (tim_mem bo);
     let tail = skb_tail bo + n - bo_tim_len bo;
     if n > bo_tim_len bo \<and> length m < tail then None else
     Some (bo\<lparr>tim_mem := m, bo_tim_trailer := n, bo_chanswitch := bo_chanswitch bo + d, bo_extchanswitch := bo_extchanswitch bo + d,
       bo_ch_sw_wrp := bo_ch_sw_wrp bo + d, bo_wme := bo_wme bo + d, bo_appie_buf := bo_appie_buf bo + d,
       bo_erp := map_option (\<lambda>p. p + d) (bo_erp bo), skb_tail := tail, bo_tim_len := n,
       tim_len := of_nat (3 + n), tim_bitctl := of_nat off\<rparr>) }"

text \<open>_wifi_mac_beacon_update, for the map; the flag says whether the length changed.\<close>

definition beacon_update_tim :: "ap_vif \<Rightarrow> beacon \<Rightarrow> (bool \<times> ap_vif \<times> beacon) option" where
  "beacon_update_tim v bo =
    (if vm_opmode v = WIFINET_M_HOSTAP \<and> f_timupdate v then do {
       bm \<leftarrow> vm_tim_bitmap v;
       (off, n) \<leftarrow> tim_window v;
       bo' \<leftarrow> (if n \<noteq> bo_tim_len bo then resize_tim off n bo else Some bo);
       if length bm < off + bo_tim_len bo' \<or> length (tim_mem bo') < bo_tim_len bo' then None else
       Some (n \<noteq> bo_tim_len bo, v\<lparr>f_timupdate := False\<rparr>,
         bo'\<lparr>tim_mem := take (bo_tim_len bo') (drop off bm) @ drop (bo_tim_len bo') (tim_mem bo')\<rparr>) }
     else Some (False, v, bo))"

text \<open>The counter of the delivery period, and the bit for frames to all; \<^verbatim>\<open>q\<close> frames are queued and
  sending them leaves \<^verbatim>\<open>left\<close>.\<close>

definition beacon_update_dtim :: "ap_vif \<Rightarrow> nat \<Rightarrow> nat \<Rightarrow> beacon \<Rightarrow> beacon" where
  "beacon_update_dtim v q left bo =
    (let send = mcast_beacon_dtim bo;
         q = (if send then left else q);
         bo = (if send then bo\<lparr>mcast_beacon_dtim := False, mcast_noa_end_retry := q \<noteq> 0 \<and> noa_started v\<rparr> else bo);
         bo = bo\<lparr>tim_count := if tim_count bo = 0 then tim_period bo - 1 else tim_count bo - 1,
                 tim_bitctl := and (tim_bitctl bo) (not 1)\<rparr>
     in if q \<noteq> 0 \<and> (tim_count bo = 0 \<or> tim_period bo = 1)
        then bo\<lparr>tim_bitctl := or (tim_bitctl bo) 1, mcast_beacon_dtim := vm_ps_sta v \<noteq> 0 \<or> mcast_beacon_dtim bo\<rparr>
        else bo)"

text \<open>What a station reads (wifi_mac_recv_beacon in wifi_mac_recv.c): are frames to all coming, and are there frames for it.\<close>

definition recv_tim :: "beacon \<Rightarrow> u16 \<Rightarrow> (bool \<times> bool) option" where
  "recv_tim tie associd =
    (let aid = WIFINET_AID associd;
         ix = int (aid div 8);
         mn = uint (and (tim_bitctl tie) (not 1));
         mx = uint (tim_len tie) + mn - 4
     in if mn \<le> ix \<and> ix \<le> mx
        then if nat (ix - mn) < length (tim_mem tie)
             then Some (bit (tim_bitctl tie) 0, bit (tim_mem tie ! nat (ix - mn)) (aid mod 8)) else None
        else Some (bit (tim_bitctl tie) 0, False))"

section \<open>What the element says\<close>

lemma tim_first_props:
  "\<exists>b\<in>set bs. b \<noteq> 0 \<Longrightarrow> even (tim_first bs i) \<and>
     (\<forall>k<length bs. bs ! k \<noteq> 0 \<longrightarrow> tim_first bs i \<le> i + k)"
proof (induction bs arbitrary: i)
  case (Cons b bs)
  show ?case
  proof (cases "b = 0")
    case True
    then have ex: "\<exists>b\<in>set bs. b \<noteq> 0" using Cons.prems by auto
    from Cons.IH [OF ex, of "i + 1"] have IH: "even (tim_first bs (i + 1))"
      "\<forall>k<length bs. bs ! k \<noteq> 0 \<longrightarrow> tim_first bs (i + 1) \<le> i + 1 + k" by auto
    have "tim_first (b # bs) i \<le> i + k" if "k < length (b # bs)" "(b # bs) ! k \<noteq> 0" for k
      using that True IH(2) by (cases k) auto
    with IH True show ?thesis by auto
  qed (auto simp: minus_mod_eq_mult_div)
qed simp

lemma tim_last_props:
  "\<exists>k<n. off \<le> k \<and> bm ! k \<noteq> 0 \<Longrightarrow> n \<le> length bm \<Longrightarrow>
   \<exists>l. tim_last bm off n = Some l \<and> off \<le> l \<and> l < n \<and> (\<forall>k<n. bm ! k \<noteq> 0 \<longrightarrow> k \<le> l)"
proof (induction bm off n rule: tim_last.induct)
  case (2 bm off i)
  then obtain k where k: "k < Suc i" "off \<le> k" "bm ! k \<noteq> 0" by auto
  show ?case
  proof (cases "bm ! i = 0")
    case False
    then show ?thesis using 2(3) k by (auto simp: less_Suc_eq_le)
  next
    case True
    then have "k < i" using k by (cases "k = i") auto
    then have n: "\<not> i < off" "i < length bm" using k 2(3) by auto
    have "\<exists>l. tim_last bm off i = Some l \<and> off \<le> l \<and> l < i \<and> (\<forall>k<i. bm ! k \<noteq> 0 \<longrightarrow> k \<le> l)"
      using 2(1) [OF n] True \<open>k < i\<close> k n by auto
    with n True show ?thesis by (auto simp: less_Suc_eq)
  qed
qed simp

text \<open>The window holds every bit that is set.\<close>

lemma tim_window_props:
  assumes "tim_ok v" "vm_tim_bitmap v = Some bm"
  obtains off n where "tim_window v = Some (off, n)" "even off" "1 \<le> n" "off + n \<le> length bm"
    "\<And>a. a div 8 < length bm \<Longrightarrow> isset bm a \<Longrightarrow> off \<le> a div 8 \<and> a div 8 < off + n" "length bm \<le> 251"
proof -
  have len: "length bm = howmany (vm_max_aid v) 8" "length bm = vm_tim_len v" "unat (vm_ps_pending v) = tim_bits bm"
    "1 \<le> vm_max_aid v" "vm_max_aid v \<le> 2007"
    using assms by (auto simp: tim_ok_def)
  have L: "length bm \<le> 251"
  proof -
    have "(vm_max_aid v + 7) div 8 \<le> (2007 + 7) div 8" using len by (intro div_le_mono) simp
    then show ?thesis by (simp add: len(1) howmany_def)
  qed
  have L1: "1 \<le> length bm"
  proof -
    have "(1 + 7) div 8 \<le> (vm_max_aid v + 7) div 8" using len by (intro div_le_mono) simp
    then show ?thesis by (simp add: len(1) howmany_def)
  qed
  show thesis
  proof (cases "vm_ps_pending v = 0")
    case True
    have fin: "finite {a. a < 8 * length bm \<and> isset bm a}" by (rule finite_subset [of _ "{..<8 * length bm}"]) auto
    from True len(3) have "\<not> isset bm a" if "a < 8 * length bm" for a
      using that fin by (auto simp: tim_bits_def)
    then have "\<not> isset bm a" if "a div 8 < length bm" for a using that by (auto simp: div_less_iff_less_mult mult.commute)
    with True L L1 show thesis by (intro that [of 0 1]) (auto simp: tim_window_def)
  next
    case False
    then have "tim_bits bm \<noteq> 0" using len(3) by (metis unat_eq_zero)
    then have "{a. a < 8 * length bm \<and> isset bm a} \<noteq> {}" unfolding tim_bits_def by (metis card.empty)
    then obtain a where a: "a < 8 * length bm" "isset bm a" by auto
    then have ad: "a div 8 < length bm" "bm ! (a div 8) \<noteq> 0"
      by (auto simp: isset_def div_less_iff_less_mult mult.commute)
    define off where "off = tim_first bm 0"
    have ex: "\<exists>b\<in>set bm. b \<noteq> 0" using ad nth_mem by blast
    from tim_first_props [OF ex, of 0] have off: "even off" "\<And>k. k < length bm \<Longrightarrow> bm ! k \<noteq> 0 \<Longrightarrow> off \<le> k"
      by (auto simp: off_def)
    have "\<exists>k<length bm. off \<le> k \<and> bm ! k \<noteq> 0" using ad off(2) by blast
    from tim_last_props [OF this] obtain l where l: "tim_last bm off (length bm) = Some l" "off \<le> l" "l < length bm"
      "\<forall>k<length bm. bm ! k \<noteq> 0 \<longrightarrow> k \<le> l" by auto
    have "1 + (of_nat l - of_nat off) = (of_nat (1 + l - off) :: u32)" using l(2) by (simp add: of_nat_diff)
    moreover have "1 + l - off < 2 ^ 32" using l(3) L by simp
    ultimately have n: "unat (1 + (of_nat l - of_nat off) :: u32) = 1 + l - off"
      by (simp add: unat_of_nat take_bit_nat_eq_self)
    have "tim_window v = Some (off, 1 + l - off)"
      using False l(1) n by (simp add: tim_window_def assms(2) off_def [symmetric] len(2) [symmetric])
    moreover have "off \<le> a div 8 \<and> a div 8 < off + (1 + l - off)" if "a div 8 < length bm" "isset bm a" for a
    proof -
      have "bm ! (a div 8) \<noteq> 0" using that by (auto simp: isset_def)
      then show ?thesis using off(2) l that by (metis add_diff_inverse_nat le_add_diff_inverse le_imp_less_Suc less_le_trans not_less_eq plus_1_eq_Suc trans_le_add2 leD le_SucI)
    qed
    ultimately show thesis using off(1) l L by (intro that [of off "1 + l - off"]) auto
  qed
qed


text \<open>The element is in front of what follows it, and the buffer is long enough for the whole map.\<close>

definition tim_beacon_ok :: "ap_vif \<Rightarrow> beacon \<Rightarrow> bool" where
  "tim_beacon_ok v bo \<longleftrightarrow> 1 \<le> bo_tim_len bo \<and> bo_tim_len bo \<le> vm_tim_len v \<and> bo_tim_trailer bo = bo_tim_len bo \<and>
     tim_len bo = of_nat (3 + bo_tim_len bo) \<and> skb_tail bo = bo_tim_len bo + bo_tim_trailerlen bo \<and>
     vm_tim_len v + bo_tim_trailerlen bo \<le> length (tim_mem bo)"

definition trailer :: "beacon \<Rightarrow> u8 list" where
  "trailer bo = take (bo_tim_trailerlen bo) (drop (bo_tim_trailer bo) (tim_mem bo))"

definition tim_offset :: "beacon \<Rightarrow> nat" where
  "tim_offset bo = unat (and (tim_bitctl bo) (not 1))"

lemma byte_even: "off < 256 \<Longrightarrow> even off \<Longrightarrow> unat (and (of_nat off :: u8) (not 1)) = off"
proof -
  assume o: "off < 256" "even off"
  have "\<forall>k\<in>set [0..<128]. unat (and (of_nat (2 * k) :: u8) (not 1)) = 2 * k" by code_simp
  moreover obtain k where "off = 2 * k" using o(2) by blast
  ultimately show ?thesis using o(1) by simp
qed

text \<open>What a station reads of an element that holds a part of the map.\<close>

lemma recv_tim_window:
  assumes "tim_mem bo = take n (drop off bm) @ m" "off + n \<le> length bm" "tim_len bo = of_nat (3 + n)" "n \<le> 251"
    "tim_offset bo = off" "\<And>a. a div 8 < length bm \<Longrightarrow> isset bm a \<Longrightarrow> off \<le> a div 8 \<and> a div 8 < off + n"
    "WIFINET_AID associd div 8 < length bm"
  shows "recv_tim bo associd = Some (bit (tim_bitctl bo) 0, isset bm (WIFINET_AID associd))"
proof -
  let ?a = "WIFINET_AID associd" and ?ix = "WIFINET_AID associd div 8"
  have "take_bit LENGTH(8) (3 + n) = 3 + n" by (rule take_bit_nat_eq_self) (use assms(4) in simp)
  then have "unat (tim_len bo) = 3 + n" unfolding assms(3) unsigned_of_nat of_nat_id .
  then have tl: "uint (tim_len bo) = 3 + int n" by (simp add: uint_nat)
  have mn: "uint (and (tim_bitctl bo) (not 1)) = int off" using assms(5) by (simp add: tim_offset_def uint_nat)
  have sx: "drop off bm ! (?ix - off) = bm ! ?ix" if "off \<le> ?ix" using that assms(7) by simp
  have "recv_tim bo associd = (if off \<le> ?ix \<and> ?ix < off + n
     then if ?ix - off < length (tim_mem bo) then Some (bit (tim_bitctl bo) 0, bit (tim_mem bo ! (?ix - off)) (?a mod 8)) else None
     else Some (bit (tim_bitctl bo) 0, False))"
    unfolding recv_tim_def Let_def mn tl by (auto simp: nat_diff_distrib nat_int_add)
  moreover have "isset bm ?a = False" if "\<not> (off \<le> ?ix \<and> ?ix < off + n)" using assms(6) [OF assms(7)] that by blast
  moreover have "?ix - off < length (tim_mem bo) \<and> tim_mem bo ! (?ix - off) = bm ! ?ix" if "off \<le> ?ix \<and> ?ix < off + n"
    using that assms(1,2) sx by (auto simp: nth_append)
  ultimately show ?thesis by (auto simp: isset_def)
qed

lemma beacon_update_tim_ok:
  assumes v: "tim_ok v" "f_timupdate v" and bo: "tim_beacon_ok v bo" and bm: "vm_tim_bitmap v = Some bm"
    and w: "tim_window v = Some (off, n)" and o: "n \<noteq> bo_tim_len bo \<or> tim_offset bo = off"
  obtains c v' bo' where "beacon_update_tim v bo = Some (c, v', bo')" "tim_beacon_ok v bo'" "trailer bo' = trailer bo"
    "\<And>associd. WIFINET_AID associd < vm_max_aid v \<Longrightarrow>
       recv_tim bo' associd = Some (bit (tim_bitctl bo') 0, isset bm (WIFINET_AID associd))"
proof -
  obtain off' n' where "tim_window v = Some (off', n')" "even off'" "1 \<le> n'" "off' + n' \<le> length bm"
    "\<And>a. a div 8 < length bm \<Longrightarrow> isset bm a \<Longrightarrow> off' \<le> a div 8 \<and> a div 8 < off' + n'" "length bm \<le> 251"
    by (rule tim_window_props [OF v(1) bm]) (rule that)
  with w have win: "even off" "1 \<le> n" "off + n \<le> length bm"
    "\<And>a. a div 8 < length bm \<Longrightarrow> isset bm a \<Longrightarrow> off \<le> a div 8 \<and> a div 8 < off + n" "length bm \<le> 251" by auto
  have L: "length bm = vm_tim_len v" "length bm = howmany (vm_max_aid v) 8" "vm_opmode v = WIFINET_M_HOSTAP"
    using v(1) bm by (auto simp: tim_ok_def)
  note bo = bo [unfolded tim_beacon_ok_def]
  define k where "k = bo_tim_trailerlen bo"
  define m where "m = take n (tim_mem bo) @ take k (drop (bo_tim_len bo) (tim_mem bo)) @ drop (n + k) (tim_mem bo)"
  define d where "d = int n - int (bo_tim_trailer bo)"
  define z where "z = bo\<lparr>tim_mem := m, bo_tim_trailer := n, bo_chanswitch := bo_chanswitch bo + d, bo_extchanswitch := bo_extchanswitch bo + d,
       bo_ch_sw_wrp := bo_ch_sw_wrp bo + d, bo_wme := bo_wme bo + d, bo_appie_buf := bo_appie_buf bo + d,
       bo_erp := map_option (\<lambda>p. p + d) (bo_erp bo), skb_tail := skb_tail bo + n - bo_tim_len bo, bo_tim_len := n,
       tim_len := of_nat (3 + n), tim_bitctl := of_nat off\<rparr>"
  define r where "r = (if n \<noteq> bo_tim_len bo then z else bo)"
  have lm: "length m = length (tim_mem bo)" using bo win L by (auto simp: m_def k_def)
  have mm: "memmove n (bo_tim_trailer bo) (bo_tim_trailerlen bo) (tim_mem bo) = Some m"
    using bo win L by (simp add: memmove_def m_def k_def)
  have rs: "(if n \<noteq> bo_tim_len bo then resize_tim off n bo else Some bo) = Some r"
  proof -
    have "\<not> length m < skb_tail bo + n - bo_tim_len bo" using bo win L lm by simp
    then have "resize_tim off n bo = Some z" by (simp add: resize_tim_def mm Let_def z_def d_def)
    then show ?thesis by (simp add: r_def)
  qed
  have lens: "bo_tim_len bo + k \<le> length (tim_mem bo)" "n + k \<le> length (tim_mem bo)"
    using bo win L by (simp_all add: k_def)
  have tr: "take k (drop n m) = take k (drop (bo_tim_len bo) (tim_mem bo))"
    using lens by (simp add: m_def)
  have r: "bo_tim_len r = n" "bo_tim_trailer r = n" "tim_len r = of_nat (3 + n)" "bo_tim_trailerlen r = k"
    "skb_tail r = n + k" "length (tim_mem r) = length (tim_mem bo)" "tim_offset r = off"
    "take k (drop n (tim_mem r)) = trailer bo"
    using bo win L lm o tr byte_even [of off]
    by (auto simp: r_def z_def k_def tim_offset_def trailer_def)
  define f where "f = r\<lparr>tim_mem := take n (drop off bm) @ drop n (tim_mem r)\<rparr>"
  have f: "bo_tim_len f = n" "bo_tim_trailer f = n" "tim_len f = of_nat (3 + n)" "bo_tim_trailerlen f = k" "skb_tail f = n + k"
    "tim_mem f = take n (drop off bm) @ drop n (tim_mem r)" "tim_offset f = off"
    using r by (simp_all add: f_def tim_offset_def)
  have "beacon_update_tim v bo = Some (n \<noteq> bo_tim_len bo, v\<lparr>f_timupdate := False\<rparr>, f)"
    using rs v(2) L bm w r bo win by (simp add: beacon_update_tim_def f_def k_def)
  moreover have "tim_beacon_ok v f" using f bo win L r(6) by (simp add: tim_beacon_ok_def k_def)
  moreover have "trailer f = trailer bo" using r(8) f win by (simp add: trailer_def)
  moreover have "recv_tim f associd = Some (bit (tim_bitctl f) 0, isset bm (WIFINET_AID associd))"
    if "WIFINET_AID associd < vm_max_aid v" for associd
    by (rule recv_tim_window [OF f(6) win(3) f(3)]) (use f win L howmany_bound [OF that, of 8] in auto)
  ultimately show thesis by (rule that)
qed

text \<open>The counter of the delivery period leaves the rest of the element alone.\<close>

lemma beacon_update_dtim_recv:
  assumes "recv_tim bo associd = Some (a, t)"
  shows "recv_tim (beacon_update_dtim v q left bo) associd = Some (bit (tim_bitctl (beacon_update_dtim v q left bo)) 0, t)"
proof -
  let ?b = "beacon_update_dtim v q left bo"
  have "and (or (and c (not 1)) 1) (not 1) = and c (not (1 :: u8))" "and (and c (not 1)) (not 1) = and c (not (1 :: u8))" for c
    by (rule bit_word_eqI, auto simp: bit_and_iff bit_or_iff bit_not_iff bit_1_iff)+
  then have "and (tim_bitctl ?b) (not 1) = and (tim_bitctl bo) (not 1)" "tim_len ?b = tim_len bo" "tim_mem ?b = tim_mem bo"
    by (simp_all add: beacon_update_dtim_def Let_def)
  with assms show ?thesis by (auto simp: recv_tim_def Let_def split: if_splits)
qed

lemma beacon_update_dtim_mcast:
  "bit (tim_bitctl (beacon_update_dtim v q left bo)) 0 \<longleftrightarrow>
     (if mcast_beacon_dtim bo then left else q) \<noteq> 0 \<and>
     (tim_count (beacon_update_dtim v q left bo) = 0 \<or> tim_period bo = 1)"
  by (auto simp: beacon_update_dtim_def Let_def bit_and_iff bit_or_iff bit_not_iff)

end
