(* ===== verification/ApPowerProps.thy ===== *)
theory ApPowerProps
  imports ApPowerRun ApBeacon
begin

text \<open>
  What the power save of an access point promises: frames for a sleeping station are announced, none
  is lost and none overtakes another, and the station reads of them in the beacon.
\<close>

section \<open>From the start\<close>

text \<open>An access point that comes up: no stations, no frames.\<close>

definition ap_ready :: "ap_vif \<Rightarrow> bool" where
  "ap_ready v \<longleftrightarrow> vm_opmode v = WIFINET_M_HOSTAP \<and> vm_set_tim v \<and> 1 \<le> vm_max_aid v \<and> vm_max_aid v \<le> 2007 \<and>
     vm_max_aid v \<le> 32 * length (vm_aid_bitmap v) \<and> wnet_vif_id v < 2 \<and> other_nsta v \<noteq> None \<and> nt_nsta v = [] \<and>
     (wm_vsdb_slot v = CONCURRENT_SLOT_NONE \<or> wm_vsdb_slot v = wnet_vif_id v) \<and> vm_ps_sta v = 0 \<and>
     skbs (vm_tx_buffer_queue v) = [] \<and> ap_log v = [] \<and> (\<forall>i. sta_pstxqueue (stas v i) = [])"

lemma tim_bits_zero: "tim_bits (replicate n 0) = 0"
  by (auto simp: tim_bits_def isset_def card_eq_0_iff div_less_iff_less_mult mult.commute)

lemma ap_ready_inv: "ap_ready v \<Longrightarrow> ap_inv {} (wifi_mac_pwrsave_latevattach True v)"
  by (auto simp: ap_ready_def ap_inv_def tim_ok_def table_ok_def aids_distinct_def sleepers_def
    wifi_mac_pwrsave_latevattach_def Let_def tim_bits_zero)

lemma ap_ready_books: "ap_ready v \<Longrightarrow> books {#} {#} (wifi_mac_pwrsave_latevattach True v)"
  by (auto simp: ap_ready_def books_def wifi_mac_pwrsave_latevattach_def Let_def)

section \<open>Loops that do not end\<close>

text \<open>A frame whose station is gone is unlinked without counting it off; flushing the queue then waits for a
  length of zero that never comes.\<close>

lemma buffer_txq_flush_hangs:
  assumes "length (skbs q) < qlen q"
  shows "wifi_mac_buffer_txq_flush q = None"
proof -
  have "length (skbs q) < n \<longrightarrow> n = qlen q \<longrightarrow> False" if "buffer_txq_flush_loop n q = Some r" for n r
    using that
  proof (induction rule: buffer_txq_flush_loop.raw_induct [rotated, consumes 1, case_names step])
    case (step f n q r)
    show ?case
    proof (intro impI)
      assume n: "length (skbs q) < n" "n = qlen q"
      obtain b q' where d: "txq_dequeue q = (b, q')" by fastforce
      with step(2) n obtain r' where "f (qlen q') q' = Some r'" by (auto simp: bind_eq_Some_conv)
      then have "length (skbs q') < qlen q' \<longrightarrow> qlen q' = qlen q' \<longrightarrow> False" by (rule step(1))
      moreover have "length (skbs q') < qlen q'" using d n by (auto simp: txq_dequeue_def split: list.splits)
      ultimately show False by simp
    qed
  qed
  with assms show ?thesis by (cases "buffer_txq_flush_loop (qlen q) q") (auto simp: wifi_mac_buffer_txq_flush_def)
qed

text \<open>Frames that are not for this slot of a shared radio go to the end of the queue they came from.\<close>

definition foreign_slot :: "ap_vif \<Rightarrow> bool" where
  "foreign_slot v \<longleftrightarrow> wm_vsdb_slot v \<noteq> CONCURRENT_SLOT_NONE \<and> wnet_vif_id v \<noteq> wm_vsdb_slot v \<and> vm_recovery_up v \<and>
     \<not> drv_pkt_drop v \<and> vm_opmode v = WIFINET_M_HOSTAP \<and>
     (\<forall>b\<in>set (skbs (vm_tx_buffer_queue v)). \<not> b_datapkt b \<and> (\<exists>i. ps_nsta b = Some i \<and> has_drv_sta (stas v i))) \<and>
     qlen (vm_tx_buffer_queue v) = length (skbs (vm_tx_buffer_queue v)) \<and> 2 \<le> length (skbs (vm_tx_buffer_queue v))"

lemma foreign_slot_hangs:
  assumes "foreign_slot v" "n \<noteq> 0"
  shows "txq_send_loop E n v = None"
proof -
  have "foreign_slot v \<longrightarrow> n \<noteq> 0 \<longrightarrow> False" if "txq_send_loop E n v = Some r" for n v r
    using that
  proof (induction rule: txq_send_loop.raw_induct [rotated, consumes 1, case_names step])
    case (step f E n v r)
    show ?case
    proof (intro impI)
      assume s: "foreign_slot v" and n: "n \<noteq> 0"
      from s obtain b c cs where q: "skbs (vm_tx_buffer_queue v) = b # c # cs"
        by (cases "skbs (vm_tx_buffer_queue v)"; cases "tl (skbs (vm_tx_buffer_queue v))") (auto simp: foreign_slot_def)
      let ?q = "(vm_tx_buffer_queue v)\<lparr>skbs := c # cs, qlen := qlen (vm_tx_buffer_queue v) - 1\<rparr>"
      let ?w = "v\<lparr>vm_tx_buffer_queue := wifi_mac_buffer_txq_enqueue b ?q\<rparr>"
      obtain i where i: "ps_nsta b = Some i" using s q by (auto simp: foreign_slot_def)
      have "drv_tx_start E b (v\<lparr>vm_tx_buffer_queue := ?q\<rparr>) = Some (0, ?w)"
        using s q i by (auto simp: foreign_slot_def drv_tx_start_def Let_def)
      with step(2) n q i have "f E (qlen ?q) ?w = Some r" by (simp add: txq_dequeue_def)
      then have "foreign_slot ?w \<longrightarrow> qlen ?q \<noteq> 0 \<longrightarrow> False" by (rule step(1))
      moreover have "foreign_slot ?w" "qlen ?q \<noteq> 0"
        using s q by (auto simp: foreign_slot_def wifi_mac_buffer_txq_enqueue_def)
      ultimately show False by blast
    qed
  qed
  with assms show ?thesis by (cases "txq_send_loop E n v") auto
qed

section \<open>A small access point\<close>

definition sta_ex :: ap_sta where
  "sta_ex = \<lparr>node_pwr_mgt = False, node_aref = False, node_uapsd = False, node_uapsd_trig = False, node_uapsd_sp = False,
     ps_flush_wait_noa_end = False, uapsd_wait_noa_end = False, sta_associd = 0, sta_listen_intval = 10, sta_uapsd = 0,
     sta_uapsd_maxsp = 0, sta_uapsd_ac_delivena = (\<lambda>_. False), sta_uapsd_trigseq = (\<lambda>_. 0), sta_pstxqueue = [],
     is_disconnecting = False, has_drv_sta = True, tid_tx_buff_sending = (\<lambda>_. False)\<rparr>"

definition skb_ex :: "nat \<Rightarrow> ps_skb" where
  "skb_ex k = \<lparr>ps_id = k, ps_nsta = Some 1, ps_ac = 0, m_pwr_sav = False, m_bypass = False, m_uapsd = False, ps_csum = 0,
     fc_more_data = False, fc_pwr_mgt = False, fc_probereq = False, b_buffered = False, b_datapkt = True, b_nulldata = False,
     b_mcast = False, b_eap = True, tid_index = 0, ps_queue_id = 0\<rparr>"

definition vif_ex :: ap_vif where
  "vif_ex = \<lparr>wnet_vif_id = 0, vm_opmode = 2, vm_connected = True, vm_recovery_up = True, vm_sleeping = False, vm_bcn_intval = 100,
     vm_max_aid = 17, vm_aid_bitmap = [0], vm_sta_assoc = 0, vm_ps_sta = 0, vm_ps_pending = 0, vm_tim_bitmap = None, vm_tim_len = 0,
     vm_set_tim = True, vm_uapsd_enabled = False, f_timupdate = False, ps4quiet = False, psq_opps = False, psq_noa = False,
     noa_started = False, phase_tx_buff_queue = False, vm_legacyps_txframes = 0, vm_tx_buffer_queue = \<lparr>skbs = [], qlen = 0\<rparr>,
     nt_nsta = [], other_nsta = Some [], stas = (\<lambda>_. sta_ex), drv_pkt_drop = False, wm_vsdb_slot = 2,
     concurrent_channel_switch = False, add_wakeup_work = False, wm_mng_qid = 7, asked = 0, ap_log = []\<rparr>"

definition env_ex :: ap_env where
  "env_ex = \<lparr>check_aggr_allow_to_send = (\<lambda>_ _. True), skb_expand_fails = (\<lambda>_ _. False), drv_send = (\<lambda>_ _. 0),
     process_uapsd_trigger = (\<lambda>_ _ _ _ _. 0)\<rparr>"

definition ops_ex :: "ap_op list" where
  "ops_ex = [NewStation 1 sta_ex, Connect 1 True, DataFrame 1 True, Transmit (skb_ex 1), Transmit (skb_ex 2), Transmit (skb_ex 3),
     PsPoll 1 0xc001]"

definition beacon_ex :: beacon where
  "beacon_ex = \<lparr>bo_tim_len = 1, tim_len = 4, tim_count = 0, tim_period = 2, tim_bitctl = 0, tim_mem = [0, 9, 9, 0, 0],
     skb_tail = 3, bo_tim_trailer = 1, bo_tim_trailerlen = 2, bo_chanswitch = 1, bo_extchanswitch = 1, bo_ch_sw_wrp = 1,
     bo_wme = 1, bo_appie_buf = 1, bo_erp = None, mcast_beacon_dtim = False, mcast_noa_end_retry = False\<rparr>"

lemma ready_ex: "ap_ready vif_ex"
  by (simp add: ap_ready_def vif_ex_def sta_ex_def)

lemma run_ex:
  "case ap_run env_ex ops_ex (wifi_mac_pwrsave_latevattach True vif_ex) of None \<Rightarrow> False | Some (g, v) \<Rightarrow>
     list_ex (\<lambda>j. j = 1) (nt_nsta v) \<and> node_pwr_mgt (stas v 1) \<and> map ps_id (sta_pstxqueue (stas v 1)) = [2, 3] \<and>
     \<not> ps_flush_wait_noa_end (stas v 1) \<and> \<not> WME_UAPSD_NODE_ALL_AC_CAN_TRIGGER (stas v 1) \<and> f_timupdate v \<and>
     tim_beacon_ok v beacon_ex \<and> tim_window v = Some (0, 1) \<and> sta_associd (stas v 1) = 0xc001"
  by code_simp

lemma run_ex_cases:
  obtains g v where "ap_run env_ex ops_ex (wifi_mac_pwrsave_latevattach True vif_ex) = Some (g, v)" "1 \<in> set (nt_nsta v)"
    "node_pwr_mgt (stas v 1)" "map ps_id (sta_pstxqueue (stas v 1)) = [2, 3]" "\<not> ps_flush_wait_noa_end (stas v 1)"
    "\<not> WME_UAPSD_NODE_ALL_AC_CAN_TRIGGER (stas v 1)" "f_timupdate v" "tim_beacon_ok v beacon_ex"
    "tim_window v = Some (0, 1)" "sta_associd (stas v 1) = 0xc001"
  using run_ex by (auto simp: list_ex_iff split: option.splits prod.splits)

text \<open>When only the sixteenth station has frames, its byte of the map is the third, but the element still says
  that the map begins with the first: the station does not see its bit, and one that does not exist does.\<close>

lemma tim_offset_stale:
  "map_option (\<lambda>(c, v, bo). (recv_tim bo 0xc010, recv_tim bo 0xc000))
     (beacon_update_tim (vif_ex\<lparr>vm_tim_bitmap := Some [0, 0, 1], vm_tim_len := 3, vm_ps_pending := 1, f_timupdate := True\<rparr>) beacon_ex)
   = Some (Some (False, False), Some (False, True))"
  by code_simp

section \<open>Properties\<close>



text \<open>C34: the frames leave the queue of a sleeping station in the order in which they came, and
  every frame given to the access point is accounted for: it was sent, freed, refused or handed to a
  class that waits for a block-ack session, or it is in a queue, and none is there twice.\<close>
theorem ap_frames_in_order:
  assumes "ap_ready v0" "ap_run E ps (wifi_mac_pwrsave_latevattach True v0) = Some (g, v)"
  shows "saved i (ap_log v) = released i (ap_log v) @ map ps_id (sta_pstxqueue (stas v i)) \<and>
    g + all_out (ap_log v) = all_done (ap_log v) + all_in (ap_log v) + ids (skbs (vm_tx_buffer_queue v))"
  using ap_run_books [OF assms(2) ap_ready_books [OF assms(1)]] by (simp add: books_def)

theorem ap_frames_in_order_witness:
  "\<exists>g v. ap_run env_ex ops_ex (wifi_mac_pwrsave_latevattach True vif_ex) = Some (g, v) \<and>
     saved 1 (ap_log v) = released 1 (ap_log v) @ [2, 3]"
proof -
  obtain g v where v: "ap_run env_ex ops_ex (wifi_mac_pwrsave_latevattach True vif_ex) = Some (g, v)"
    "map ps_id (sta_pstxqueue (stas v 1)) = [2, 3]"
    by (rule run_ex_cases)
  from ap_frames_in_order [OF ready_ex v(1), of 1] v show ?thesis by auto
qed

text \<open>C35: when the beacon is brought up to date and the length of the map's part in it changes, or its
  first byte stays the same, a station reads from the element exactly its own bit of the map, the
  counting of the delivery period does not disturb that, and what follows the element in the beacon is intact.\<close>
theorem tim_element_tells_station:
  assumes "tim_ok v" "f_timupdate v" "tim_beacon_ok v bo" "vm_tim_bitmap v = Some bm"
    and "tim_window v = Some (off, n)" "n \<noteq> bo_tim_len bo \<or> tim_offset bo = off"
    and "WIFINET_AID associd < vm_max_aid v"
  shows "\<exists>c v' bo'. beacon_update_tim v bo = Some (c, v', bo') \<and> tim_beacon_ok v bo' \<and> trailer bo' = trailer bo \<and>
    (\<exists>d. recv_tim (beacon_update_dtim v' q left bo') associd = Some (d, isset bm (WIFINET_AID associd)))"
proof -
  obtain c v' bo' where u: "beacon_update_tim v bo = Some (c, v', bo')" "tim_beacon_ok v bo'" "trailer bo' = trailer bo"
    "recv_tim bo' associd = Some (bit (tim_bitctl bo') 0, isset bm (WIFINET_AID associd))"
    using beacon_update_tim_ok [OF assms(1-6)] assms(7) by metis
  from beacon_update_dtim_recv [OF u(4)] u(1-3) show ?thesis by blast
qed

theorem tim_element_tells_station_witness:
  "\<exists>v c v' bo'. beacon_update_tim v beacon_ex = Some (c, v', bo') \<and> trailer bo' = trailer beacon_ex"
proof -
  obtain g v where v: "ap_run env_ex ops_ex (wifi_mac_pwrsave_latevattach True vif_ex) = Some (g, v)"
    "f_timupdate v" "tim_beacon_ok v beacon_ex" "tim_window v = Some (0, 1)"
    by (rule run_ex_cases)
  have inv: "ap_inv {} v" using ap_run_ok [OF ap_ready_inv [OF ready_ex], of env_ex ops_ex] v(1) by auto
  then obtain bm where bm: "tim_ok v" "vm_tim_bitmap v = Some bm" by (auto simp: ap_inv_def tim_ok_def)
  have "tim_offset beacon_ex = 0" "WIFINET_AID 0 < vm_max_aid v"
    using bm(1) by (auto simp: tim_offset_def beacon_ex_def WIFINET_AID_def tim_ok_def)
  from tim_element_tells_station [OF bm(1) v(2,3) bm(2) v(4) _ this(2)] this(1) show ?thesis by blast
qed



end
