(* ===== verification/RateSet.thy ===== *)
theory RateSet
  imports Prelude "HOL-Library.Multiset"
begin

text \<open>
  wifi_mac_rate.c, the rates that two sides share: the sets of legacy and HT rates, the maps of VHT
  rates, and the rate table of wifi_drv_if.c that they start from.  A rate set has an array
  of 77 bytes of which dot11_rate_num are used; reading or writing behind an array is None.  An
  information element is the list of its bytes, its id and length first.
\<close>

section \<open>Rate sets\<close>

record rateset =
  dot11_rate_num :: nat
  dot11_rate :: "u8 list"

abbreviation (input) WIFINET_RATE_MAXSIZE :: nat where "WIFINET_RATE_MAXSIZE \<equiv> 57"
abbreviation (input) WIFINET_HT_RATE_SIZE :: nat where "WIFINET_HT_RATE_SIZE \<equiv> 77"

definition WIFINET_GET_RATE_VAL :: "u8 \<Rightarrow> u8" where
  "WIFINET_GET_RATE_VAL r = r AND 0x7f"

definition rate_basic :: "u8 \<Rightarrow> bool" where
  "rate_basic r \<longleftrightarrow> r AND 0x80 \<noteq> 0"

definition rs_zero :: rateset where
  "rs_zero = \<lparr>dot11_rate_num = 0, dot11_rate = replicate 77 0\<rparr>"

text \<open>The rates a loop over a set sees: it runs up to the count, which must not pass the array.\<close>

definition rs_rates :: "rateset \<Rightarrow> u8 list option" where
  "rs_rates rs = (if dot11_rate_num rs \<le> length (dot11_rate rs) then Some (take (dot11_rate_num rs) (dot11_rate rs)) else None)"

definition same_rate :: "u8 \<Rightarrow> u8 \<Rightarrow> bool" where
  "same_rate a b \<longleftrightarrow> WIFINET_GET_RATE_VAL a = WIFINET_GET_RATE_VAL b"

definition has_rate :: "u8 list \<Rightarrow> u8 \<Rightarrow> bool" where
  "has_rate xs r \<longleftrightarrow> list_ex (same_rate r) xs"

text \<open>memcpy of n bytes from the position k of one array to the position o of another.\<close>

definition mem_copy :: "u8 list \<Rightarrow> nat \<Rightarrow> u8 list \<Rightarrow> nat \<Rightarrow> nat \<Rightarrow> u8 list option" where
  "mem_copy d p s k n = (if p + n \<le> length d \<and> k + n \<le> length s
     then Some (take p d @ take n (drop k s) @ drop (p + n) d) else None)"

text \<open>The exchange of two rates that stand in the wrong order, in two nested loops.\<close>

definition sort_step :: "nat \<Rightarrow> nat \<Rightarrow> u8 list \<Rightarrow> u8 list" where
  "sort_step i j xs = (if WIFINET_GET_RATE_VAL (xs ! i) > WIFINET_GET_RATE_VAL (xs ! j) then xs[i := xs ! j, j := xs ! i] else xs)"

definition sort_from :: "nat \<Rightarrow> nat \<Rightarrow> u8 list \<Rightarrow> u8 list" where
  "sort_from n i xs = fold (sort_step i) [i+1..<n] xs"

definition wifi_mac_sort_rate :: "rateset \<Rightarrow> rateset option" where
  "wifi_mac_sort_rate rs = (if dot11_rate_num rs \<le> length (dot11_rate rs)
     then Some (rs\<lparr>dot11_rate := fold (sort_from (dot11_rate_num rs)) [0..<dot11_rate_num rs] (dot11_rate rs)\<rparr>) else None)"

definition wifi_mac_find_rate :: "u8 \<Rightarrow> rateset \<Rightarrow> bool option" where
  "wifi_mac_find_rate r rs = do { a \<leftarrow> rs_rates rs; Some (has_rate a r) }"

text \<open>The rates of the first set that the second has too, with the basic flags of the first.\<close>

definition wifi_mac_xsect_rate :: "rateset \<Rightarrow> rateset \<Rightarrow> rateset \<Rightarrow> rateset option" where
  "wifi_mac_xsect_rate rs1 rs2 srs = do {
     a \<leftarrow> rs_rates rs1;
     b \<leftarrow> rs_rates rs2;
     let c = filter (has_rate b) a;
     d \<leftarrow> mem_copy (dot11_rate srs) 0 c 0 (length c);
     Some (srs\<lparr>dot11_rate_num := length c, dot11_rate := d\<rparr>)
   }"

definition wifi_mac_brs_rate_check :: "rateset \<Rightarrow> rateset \<Rightarrow> bool option" where
  "wifi_mac_brs_rate_check srs nrs = do {
     a \<leftarrow> rs_rates srs;
     b \<leftarrow> rs_rates nrs;
     Some (list_all (\<lambda>r. rate_basic r \<longrightarrow> has_rate b r) a)
   }"

text \<open>Whether a set has the rates of 802.11g: each of seven is looked for from the start, and the search
  gives up at a greater one.\<close>

fun erp_search :: "u8 \<Rightarrow> u8 list \<Rightarrow> bool" where
  "erp_search r [] = False" |
  "erp_search r (x # xs) = (if WIFINET_GET_RATE_VAL x = r then True
     else if WIFINET_GET_RATE_VAL x > r then False else erp_search r xs)"

definition wifi_mac_iserp_rateset :: "rateset \<Rightarrow> bool option" where
  "wifi_mac_iserp_rateset rs = do {
     a \<leftarrow> rs_rates rs;
     Some (7 \<le> dot11_rate_num rs \<and> list_all (\<lambda>r. erp_search r a) [2, 4, 11, 22, 12, 24, 48])
   }"

section \<open>The rate table\<close>

datatype phytype = PHY_CCK | PHY_OFDM | PHY_HT | PHY_VHT

record rate_info =
  ri_valid :: bool
  ri_phy :: phytype
  rateKbps :: nat
  vendor_rate_code :: nat
  shortPreamble :: nat
  dot11Rate :: u8
  controlRate :: nat

definition R :: "phytype \<Rightarrow> nat \<Rightarrow> nat \<Rightarrow> nat \<Rightarrow> u8 \<Rightarrow> nat \<Rightarrow> rate_info" where
  "R p k c s d t = \<lparr>ri_valid = True, ri_phy = p, rateKbps = k, vendor_rate_code = c, shortPreamble = s,
     dot11Rate = d, controlRate = t\<rparr>"

record drv_rate_table =
  rateCount :: nat
  rt_info :: "rate_info list"

definition amluno_11bgnac_table :: drv_rate_table where
  "amluno_11bgnac_table = \<lparr>rateCount = 30, rt_info =
    [
     R PHY_CCK 1000 0 0 130 0, R PHY_CCK 2000 1 4 132 1, R PHY_CCK 5500 2 4 139 2,
     R PHY_CCK 11000 3 4 150 3, R PHY_OFDM 6000 4 0 12 4, R PHY_OFDM 9000 5 0 18 4,
     R PHY_OFDM 12000 6 0 24 6, R PHY_OFDM 18000 7 0 36 6, R PHY_OFDM 24000 8 0 48 8,
     R PHY_OFDM 36000 9 0 72 8, R PHY_OFDM 48000 10 0 96 8, R PHY_OFDM 54000 11 0 108 8,
     R PHY_HT 6500 128 0 0 4, R PHY_HT 13000 129 0 1 6, R PHY_HT 19500 130 0 2 6,
     R PHY_HT 26000 131 0 3 8, R PHY_HT 39000 132 0 4 8, R PHY_HT 52000 133 0 5 8,
     R PHY_HT 58500 134 0 6 8, R PHY_HT 65000 135 0 7 8, R PHY_HT 7200 128 0 0 4,
     R PHY_HT 14200 129 0 1 6, R PHY_HT 21700 130 0 2 6, R PHY_HT 28900 131 0 3 8,
     R PHY_HT 43300 132 0 4 8, R PHY_HT 57800 133 0 5 8, R PHY_HT 65000 134 0 6 8,
     R PHY_HT 72200 135 0 7 8, R PHY_HT 13500 128 0 0 4, R PHY_HT 27000 129 0 1 6,
     R PHY_HT 40500 130 0 2 6, R PHY_HT 54000 131 0 3 8, R PHY_HT 81000 132 0 4 8,
     R PHY_HT 108000 133 0 5 8, R PHY_HT 121500 134 0 6 8, R PHY_HT 135000 135 0 7 8,
     R PHY_HT 15000 128 0 0 4, R PHY_HT 30000 129 0 1 6, R PHY_HT 45000 130 0 2 6,
     R PHY_HT 60000 131 0 3 8, R PHY_HT 90000 132 0 4 8, R PHY_HT 120000 133 0 5 8,
     R PHY_HT 135000 134 0 6 8, R PHY_HT 150000 135 0 7 8, R PHY_VHT 6500 192 0 0 4,
     R PHY_VHT 13000 193 0 1 6, R PHY_VHT 19500 194 0 2 6, R PHY_VHT 26000 195 0 3 8,
     R PHY_VHT 39000 196 0 4 8, R PHY_VHT 52000 197 0 5 8, R PHY_VHT 58500 198 0 6 8,
     R PHY_VHT 65000 199 0 7 8, R PHY_VHT 78000 200 0 8 8, R PHY_VHT 7200 192 0 0 4,
     R PHY_VHT 14400 193 0 1 6, R PHY_VHT 21700 194 0 2 6, R PHY_VHT 28900 195 0 3 8,
     R PHY_VHT 43300 196 0 4 8, R PHY_VHT 57800 197 0 5 8, R PHY_VHT 65000 198 0 6 8,
     R PHY_VHT 72200 199 0 7 8, R PHY_VHT 86700 200 0 8 8, R PHY_VHT 13500 192 0 0 4,
     R PHY_VHT 27000 193 0 1 6, R PHY_VHT 40500 194 0 2 6, R PHY_VHT 54000 195 0 3 8,
     R PHY_VHT 81000 196 0 4 8, R PHY_VHT 108000 197 0 5 8, R PHY_VHT 121500 198 0 6 8,
     R PHY_VHT 135000 199 0 7 8, R PHY_VHT 162000 200 0 8 8, R PHY_VHT 180000 201 0 9 8,
     R PHY_VHT 15000 192 0 0 4, R PHY_VHT 30000 193 0 1 6, R PHY_VHT 45000 194 0 2 6,
     R PHY_VHT 60000 195 0 3 8, R PHY_VHT 90000 196 0 4 8, R PHY_VHT 120000 197 0 5 8,
     R PHY_VHT 135000 198 0 6 8, R PHY_VHT 150000 199 0 7 8, R PHY_VHT 180000 200 0 8 8,
     R PHY_VHT 200000 201 0 9 8, R PHY_VHT 29300 192 0 0 4, R PHY_VHT 58500 193 0 1 6,
     R PHY_VHT 87800 194 0 2 6, R PHY_VHT 117000 195 0 3 8, R PHY_VHT 175500 196 0 4 8,
     R PHY_VHT 243000 197 0 5 8, R PHY_VHT 263300 198 0 6 8, R PHY_VHT 292500 199 0 7 8,
     R PHY_VHT 351000 200 0 8 8, R PHY_VHT 390000 201 0 9 8, R PHY_VHT 32500 192 0 0 4,
     R PHY_VHT 65000 193 0 1 6, R PHY_VHT 97500 194 0 2 6, R PHY_VHT 130000 195 0 3 8,
     R PHY_VHT 195000 196 0 4 8, R PHY_VHT 260000 197 0 5 8, R PHY_VHT 292500 198 0 6 8,
     R PHY_VHT 325000 199 0 7 8, R PHY_VHT 390000 200 0 8 8, R PHY_VHT 433300 201 0 9 8]\<rparr>"

section \<open>What the interface and a station know\<close>

text \<open>The rates of the radio (wm_...) and of one interface (vm_...).\<close>

record rate_vif =
  wm_11b_rates :: rateset
  wm_11g_rates :: rateset
  wm_sup_ht_rates :: rateset
  wm_sup_vht_rates :: rateset
  rv_sta_mode :: bool
  rv_mac_mode :: nat
  vm_legacy_rates :: rateset
  fixed_rate_mode :: nat
  fixed_rate_info :: u32
  tx_mcs_map :: u16
  rx_mcs_map :: u16
  mcs_data_rate :: u16
  vm_vhtop_basic_mcs :: u16

record rate_sta =
  sta_rates :: rateset
  sta_htrates :: rateset
  sta_vhtrates :: rateset
  sta_tx_vhtrates :: u16
  sta_rx_vhtrates :: u16
  sta_streams :: nat

abbreviation (input) MODE_11B :: nat where "MODE_11B \<equiv> 1"
abbreviation (input) MODE_11G :: nat where "MODE_11G \<equiv> 2"
abbreviation (input) MODE_11BG :: nat where "MODE_11BG \<equiv> 3"
abbreviation (input) MODE_11GN :: nat where "MODE_11GN \<equiv> 6"
abbreviation (input) MODE_11BGN :: nat where "MODE_11BGN \<equiv> 7"
abbreviation (input) MODE_11GNAC :: nat where "MODE_11GNAC \<equiv> 14"

definition WIFINET_11BGMODE :: "nat \<Rightarrow> bool" where
  "WIFINET_11BGMODE m \<longleftrightarrow> m = MODE_11BG \<or> m = MODE_11BGN"

definition WIFINET_11GMODE :: "nat \<Rightarrow> bool" where
  "WIFINET_11GMODE m \<longleftrightarrow> m = MODE_11G \<or> m = MODE_11GN \<or> m = MODE_11GNAC"

text \<open>Appending a rate of the table to the set of its kind; the counters start at 0, the counts of the
  sets are written only when a rate is.\<close>

definition rs_put :: "nat \<Rightarrow> u8 \<Rightarrow> rateset \<Rightarrow> rateset option" where
  "rs_put n r rs = (if n < length (dot11_rate rs) then Some (rs\<lparr>dot11_rate := (dot11_rate rs)[n := r], dot11_rate_num := n + 1\<rparr>) else None)"

fun rate_init_loop :: "rate_info list \<Rightarrow> nat \<Rightarrow> nat \<Rightarrow> nat \<Rightarrow> nat \<Rightarrow> rate_vif \<Rightarrow> rate_vif option" where
  "rate_init_loop [] v h g b w = Some w" |
  "rate_init_loop (i # is) v h g b w = (if \<not> ri_valid i then rate_init_loop is v h g b w else
     case ri_phy i of
       PHY_VHT \<Rightarrow> do { s \<leftarrow> rs_put v (dot11Rate i) (wm_sup_vht_rates w); rate_init_loop is (v + 1) h g b (w\<lparr>wm_sup_vht_rates := s\<rparr>) }
     | PHY_HT \<Rightarrow> do { s \<leftarrow> rs_put h (dot11Rate i) (wm_sup_ht_rates w); rate_init_loop is v (h + 1) g b (w\<lparr>wm_sup_ht_rates := s\<rparr>) }
     | PHY_OFDM \<Rightarrow> do { s \<leftarrow> rs_put g (dot11Rate i) (wm_11g_rates w); rate_init_loop is v h (g + 1) b (w\<lparr>wm_11g_rates := s\<rparr>) }
     | PHY_CCK \<Rightarrow> do { s \<leftarrow> rs_put b (dot11Rate i) (wm_11b_rates w); rate_init_loop is v h g (b + 1) (w\<lparr>wm_11b_rates := s\<rparr>) })"

definition wifi_mac_rate_init :: "nat \<Rightarrow> drv_rate_table \<Rightarrow> rate_vif \<Rightarrow> rate_vif option" where
  "wifi_mac_rate_init mode rt w = (if mode \<ge> 15 then Some w else
     let n = (if rateCount rt > WIFINET_RATE_MAXSIZE then WIFINET_RATE_MAXSIZE else rateCount rt) in
     if n > length (rt_info rt) then None else rate_init_loop (take n (rt_info rt)) 0 0 0 0 w)"

section \<open>Basic rates of the own side\<close>

definition set_prefix :: "u8 list \<Rightarrow> rateset \<Rightarrow> rateset" where
  "set_prefix xs rs = rs\<lparr>dot11_rate := xs @ drop (length xs) (dot11_rate rs)\<rparr>"

definition wifi_mac_ap_set_basic_rates :: "nat \<Rightarrow> rate_vif \<Rightarrow> rate_vif" where
  "wifi_mac_ap_set_basic_rates m w = (
     let b = m \<in> {MODE_11B, MODE_11BG, MODE_11BGN};
         g = m \<in> {MODE_11G, MODE_11GN, MODE_11GNAC, MODE_11BG, MODE_11BGN};
         w = (if b then w\<lparr>wm_11b_rates := set_prefix [0x82, 0x84, 0x0b, 0x16] (wm_11b_rates w)\<rparr> else w)
     in if g then w\<lparr>wm_11g_rates := set_prefix [0x8c, 0x12, 0x98, 0x24, 0xb0, 0x48, 0x60, 0x6c] (wm_11g_rates w)\<rparr> else w)"

text \<open>The mode is asserted first.\<close>

abbreviation (input) MODE_MAX :: nat where "MODE_MAX \<equiv> 15"

definition wifi_mac_set_legacy_rates :: "rate_vif \<Rightarrow> rate_vif option" where
  "wifi_mac_set_legacy_rates w = (
     let m = rv_mac_mode w; b = wm_11b_rates w; g = wm_11g_rates w in
     if m \<ge> MODE_MAX then None
     else if m = MODE_11B then do {
       d \<leftarrow> mem_copy (dot11_rate rs_zero) 0 (dot11_rate b) 0 (dot11_rate_num b);
       Some (w\<lparr>vm_legacy_rates := \<lparr>dot11_rate_num = dot11_rate_num b, dot11_rate = d\<rparr>\<rparr>)
     } else if WIFINET_11GMODE m then do {
       d \<leftarrow> mem_copy (dot11_rate rs_zero) 0 (dot11_rate g) 0 (dot11_rate_num g);
       Some (w\<lparr>vm_legacy_rates := \<lparr>dot11_rate_num = dot11_rate_num g, dot11_rate = d\<rparr>\<rparr>)
     } else if WIFINET_11BGMODE m then do {
       d \<leftarrow> mem_copy (dot11_rate rs_zero) 0 (dot11_rate b) 0 (dot11_rate_num b);
       let n = (if dot11_rate_num b + dot11_rate_num g > WIFINET_RATE_MAXSIZE
                then nat (u8_of (57 - int (dot11_rate_num b))) else dot11_rate_num g);
       d \<leftarrow> mem_copy d (dot11_rate_num b) (dot11_rate g) 0 n;
       Some (w\<lparr>vm_legacy_rates := \<lparr>dot11_rate_num = nat (u8_of (int (dot11_rate_num b + n))), dot11_rate = d\<rparr>\<rparr>)
     } else Some (w\<lparr>vm_legacy_rates := rs_zero\<rparr>))"

abbreviation (input) basic_11b :: "u8 list" where "basic_11b \<equiv> [0x82, 0x84, 0x8b, 0x96]"
abbreviation (input) basic_11g :: "u8 list" where "basic_11g \<equiv> [0x8c, 0x92, 0x98, 0xa4, 0xb0, 0xc8, 0xe0, 0xec]"

text \<open>The own rates that are basic rates of the access point get its basic flag.  The element is
  given from its first rate on.\<close>

fun mark_basic :: "u8 list \<Rightarrow> u8 list \<Rightarrow> u8 list \<Rightarrow> u8 list" where
  "mark_basic (b # bs) ap (r # rs) = (if b \<in> set ap then b else r) # mark_basic bs ap rs" |
  "mark_basic bs ap rs = rs"

definition wifi_mac_check_ap_basic_rate :: "u8 list \<Rightarrow> u8 list \<Rightarrow> nat \<Rightarrow> rateset \<Rightarrow> rateset option" where
  "wifi_mac_check_ap_basic_rate basic ie n rs = (if n = 0 then Some rs
     else if 2 + n > length ie then None
     else Some (rs\<lparr>dot11_rate := mark_basic basic (take n (drop 2 ie)) (dot11_rate rs)\<rparr>))"

text \<open>The extended rates of a scan entry are in an array of 59 bytes: the rates are copied behind them,
  without a test that they fit, and stay there.\<close>

definition merge_rates :: "u8 list \<Rightarrow> u8 list \<Rightarrow> u8 list option" where
  "merge_rates si ex = do {
     n \<leftarrow> arr si 1;
     if n = 0 then Some ex else do {
       e \<leftarrow> arr ex 1;
       d \<leftarrow> mem_copy ex (2 + unat e) si 2 (unat n);
       Some (d[1 := e + n])
     }
   }"

definition wifi_mac_sta_set_basic_rates :: "u8 list \<Rightarrow> u8 list \<Rightarrow> rate_vif \<Rightarrow> (rate_vif \<times> u8 list) option" where
  "wifi_mac_sta_set_basic_rates si ex w = do {
     n \<leftarrow> arr si 1;
     e \<leftarrow> arr ex 1;
     let m = rv_mac_mode w;
     let b = set_prefix [0x02, 0x04, 0x0b, 0x16] (wm_11b_rates w);
     let g = set_prefix [0x0c, 0x12, 0x18, 0x24, 0x30, 0x48, 0x60, 0x6c] (wm_11g_rates w);
     if \<not> rv_sta_mode w then Some (w\<lparr>wm_11b_rates := b, wm_11g_rates := g\<rparr>, ex)
     else if m = MODE_11B then do {
       b \<leftarrow> (if n \<noteq> 0 then wifi_mac_check_ap_basic_rate basic_11b si (unat n) b else Some (set_prefix [0x82, 0x84] b));
       Some (w\<lparr>wm_11b_rates := b, wm_11g_rates := g\<rparr>, ex)
     } else if WIFINET_11GMODE m then do {
       (g, ex) \<leftarrow> (if e = 0 then do {
           g \<leftarrow> (if n \<noteq> 0 then wifi_mac_check_ap_basic_rate basic_11g si (unat n) g
                  else Some (set_prefix [0x8c, 0x12, 0x98, 0x24, 0xb0] g));
           Some (g, ex)
         } else do {
           ex \<leftarrow> merge_rates si ex;
           k \<leftarrow> arr ex 1;
           g \<leftarrow> wifi_mac_check_ap_basic_rate basic_11g ex (unat k) g;
           Some (g, ex)
         });
       Some (w\<lparr>wm_11b_rates := b, wm_11g_rates := g\<rparr>, ex)
     } else if WIFINET_11BGMODE m then
       if n \<noteq> 0 \<or> e \<noteq> 0 then do {
         ex \<leftarrow> merge_rates si ex;
         k \<leftarrow> arr ex 1;
         b \<leftarrow> wifi_mac_check_ap_basic_rate basic_11b ex (unat k) b;
         g \<leftarrow> wifi_mac_check_ap_basic_rate basic_11g ex (unat k) g;
         Some (w\<lparr>wm_11b_rates := b, wm_11g_rates := g\<rparr>, ex)
       } else Some (w\<lparr>wm_11b_rates := set_prefix [0x82, 0x84] b,
                      wm_11g_rates := set_prefix [0x8c, 0x12, 0x98, 0x24, 0xb0] g\<rparr>, ex)
     else Some (w\<lparr>wm_11b_rates := b, wm_11g_rates := g\<rparr>, ex)
   }"

end
