(* ===== verification/RateNego.thy ===== *)
theory RateNego
  imports RateSet
begin

text \<open>
  wifi_mac_rate.c, the negotiation: what is kept of the rates a peer announces, in the legacy, HT
  and VHT elements, the checks of a scan entry, and the writers of the elements in wifi_mac_xmit.c.
\<close>

section \<open>Legacy rates\<close>

text \<open>The flags of a set-up: sort, look for the fixed rate, intersect, check the basic rates.\<close>

record rate_flags =
  DOSORT :: bool
  DOFRATE :: bool
  DOXSECT :: bool
  DOBRS :: bool

text \<open>Only the modes 0 (no fixed rate) and 1 (a fixed MCS) exist; both pass.\<close>

definition wifi_mac_fixed_rate_check :: "rate_vif \<Rightarrow> rateset \<Rightarrow> bool option" where
  "wifi_mac_fixed_rate_check w nrs = (if fixed_rate_mode w = 0 \<or> fixed_rate_mode w = 1 then Some True else do {
     a \<leftarrow> rs_rates nrs;
     Some (list_ex (\<lambda>r. ucast (WIFINET_GET_RATE_VAL r) = fixed_rate_info w AND 0x7f) a)
   })"

text \<open>The rates of an element, then those of the extended one as far as 57 go; the room that is left is
  computed in an unsigned char.\<close>

definition collect_rates :: "u8 list option \<Rightarrow> rateset option" where
  "collect_rates rates = (case rates of None \<Rightarrow> Some rs_zero | Some ie \<Rightarrow> do {
     n \<leftarrow> arr ie 1;
     d \<leftarrow> mem_copy (dot11_rate rs_zero) 0 ie 2 (unat n);
     Some \<lparr>dot11_rate_num = unat n, dot11_rate = d\<rparr>
   })"

definition collect_xrates :: "u8 list option \<Rightarrow> rateset \<Rightarrow> rateset option" where
  "collect_xrates xrates rs = (case xrates of None \<Rightarrow> Some rs | Some ie \<Rightarrow> do {
     n \<leftarrow> arr ie 1;
     let k = (if dot11_rate_num rs + unat n > WIFINET_RATE_MAXSIZE
              then nat (u8_of (57 - int (dot11_rate_num rs))) else unat n);
     d \<leftarrow> mem_copy (dot11_rate rs) (dot11_rate_num rs) ie 2 k;
     Some \<lparr>dot11_rate_num = nat (u8_of (int (dot11_rate_num rs + k))), dot11_rate = d\<rparr>
   })"

text \<open>\<^verbatim>\<open>main\<close>: the rates of the interface's own station, None when that is the station itself.\<close>

definition wifi_mac_setup_rates ::
  "rate_vif \<Rightarrow> rateset option \<Rightarrow> u8 list option \<Rightarrow> u8 list option \<Rightarrow> rate_flags \<Rightarrow> rate_sta \<Rightarrow> (bool \<times> rate_sta) option" where
  "wifi_mac_setup_rates w main rates xrates F sta = do {
     rrs \<leftarrow> collect_rates rates;
     rrs \<leftarrow> collect_xrates xrates rrs;
     rrs \<leftarrow> (if DOSORT F then wifi_mac_sort_rate rrs else Some rrs);
     rs \<leftarrow> (if DOXSECT F then wifi_mac_xsect_rate (vm_legacy_rates w) rrs rs_zero else Some rrs);
     f \<leftarrow> (if DOFRATE F then wifi_mac_fixed_rate_check w rs else Some True);
     if \<not> f then Some (False, sta\<lparr>sta_rates := rs\<rparr>) else do {
       b \<leftarrow> (if DOBRS F then wifi_mac_brs_rate_check (case main of None \<Rightarrow> rs | Some m \<Rightarrow> m) rs else Some True);
       if \<not> b then Some (False, sta\<lparr>sta_rates := rs\<rparr>) else do {
         rs \<leftarrow> (if DOSORT F then wifi_mac_sort_rate rs else Some rs);
         Some (True, sta\<lparr>sta_rates := rs\<rparr>)
       }
     }
   }"

text \<open>The writers of the two elements: eight rates, then the others.\<close>

definition wifi_mac_add_rates :: "rateset \<Rightarrow> u8 list option" where
  "wifi_mac_add_rates rs = (let n = min (dot11_rate_num rs) 8 in
     if n > length (dot11_rate rs) then None else Some ([1, word_of_nat n] @ take n (dot11_rate rs)))"

definition wifi_mac_add_xrates :: "rateset \<Rightarrow> u8 list option" where
  "wifi_mac_add_xrates rs = (if dot11_rate_num rs \<le> 8 then Some []
     else if dot11_rate_num rs > length (dot11_rate rs) then None
     else Some ([50, word_of_nat (dot11_rate_num rs - 8)] @ take (dot11_rate_num rs - 8) (drop 8 (dot11_rate rs))))"

section \<open>HT rates\<close>

text \<open>Bit i of a set of MCS indices that starts at the position p of an element.\<close>

definition mcs_bit :: "u8 list \<Rightarrow> nat \<Rightarrow> nat \<Rightarrow> bool option" where
  "mcs_bit ie p i = map_option (\<lambda>b. bit b (i mod 8)) (arr ie (p + i div 8))"

fun mcs_list :: "u8 list \<Rightarrow> nat \<Rightarrow> nat list \<Rightarrow> nat list option" where
  "mcs_list ie p [] = Some []" |
  "mcs_list ie p (i # is) = do { b \<leftarrow> mcs_bit ie p i; xs \<leftarrow> mcs_list ie p is; Some (if b then i # xs else xs) }"

text \<open>hc_mcsset starts at byte 5 of the element with HT capabilities; of the 77 indices the first
  seven are kept.\<close>

definition wifi_mac_setup_ht_rates ::
  "rate_vif \<Rightarrow> u8 list option \<Rightarrow> rate_flags \<Rightarrow> rate_sta \<Rightarrow> (bool \<times> rate_sta) option" where
  "wifi_mac_setup_ht_rates w ie F sta = do {
     ms \<leftarrow> (case ie of None \<Rightarrow> Some [] | Some d \<Rightarrow> mcs_list d 5 [0..<WIFINET_HT_RATE_SIZE]);
     let k = map word_of_nat (filter (\<lambda>i. i < 7) ms);
     let rrs = \<lparr>dot11_rate_num = length k, dot11_rate = k @ replicate (77 - length k) 0\<rparr>;
     rrs \<leftarrow> (if DOSORT F then wifi_mac_sort_rate rrs else Some rrs);
     rs \<leftarrow> (if DOXSECT F then wifi_mac_xsect_rate (wm_sup_ht_rates w) rrs rs_zero else Some rrs);
     f \<leftarrow> (if DOFRATE F then wifi_mac_fixed_rate_check w rs else Some True);
     b \<leftarrow> (if f \<and> DOBRS F then wifi_mac_brs_rate_check (wm_sup_ht_rates w) rs else Some True);
     Some (f \<and> b, sta\<lparr>sta_htrates := rs\<rparr>)
   }"

text \<open>hi_basicmcsset starts at byte 8 of the element with HT operation.\<close>

definition wifi_mac_setup_basic_ht_rates :: "u8 list \<Rightarrow> rate_sta \<Rightarrow> rate_sta option" where
  "wifi_mac_setup_basic_ht_rates ie sta = (let rs = sta_htrates sta; n = dot11_rate_num rs in
     if n = 0 then Some sta
     else if n > length (dot11_rate rs) then None
     else do {
       ms \<leftarrow> mcs_list ie 8 [0..<WIFINET_HT_RATE_SIZE];
       Some (sta\<lparr>sta_htrates := rs\<lparr>dot11_rate := map (\<lambda>r. if unat (WIFINET_GET_RATE_VAL r) \<in> set ms then r OR 0x80 else r)
         (take n (dot11_rate rs)) @ drop n (dot11_rate rs)\<rparr>\<rparr>)
     })"

text \<open>The check of a scan entry: every basic MCS of the first stream that the access point has must
  be one of ours.\<close>

definition check_ht_rate :: "rate_vif \<Rightarrow> u8 list \<Rightarrow> u8 list \<Rightarrow> bool option" where
  "check_ht_rate w htcap htinfo = do {
     c \<leftarrow> arr htcap 1;
     i \<leftarrow> arr htinfo 1;
     own \<leftarrow> rs_rates (wm_sup_ht_rates w);
     if c = 0 \<or> i = 0 then Some True else do {
       ms \<leftarrow> mcs_list htcap 5 [0..<8];
       bs \<leftarrow> (if ms = [] then Some [] else mcs_list htinfo 8 [0..<8]);
       Some (list_all (\<lambda>m. m \<in> set bs \<longrightarrow> has_rate own (word_of_nat m)) ms)
     }
   }"

text \<open>The check of the legacy rates of a scan entry copies them, and passes whatever they are.\<close>

definition check_rate :: "rate_vif \<Rightarrow> u8 list \<Rightarrow> u8 list \<Rightarrow> bool option" where
  "check_rate w si ex = do {
     rrs \<leftarrow> collect_rates (Some si);
     e \<leftarrow> arr ex 1;
     rrs \<leftarrow> (if e > 0 then collect_xrates (Some ex) rrs else Some rrs);
     a \<leftarrow> rs_rates rrs;
     own \<leftarrow> rs_rates (vm_legacy_rates w);
     Some True
   }"

section \<open>VHT rates\<close>

record wifi_mac_vht_rate_s =
  num_streams :: nat
  vht_rates :: "nat list"

definition wifi_mac_get_vht_rates :: "u16 \<Rightarrow> wifi_mac_vht_rate_s" where
  "wifi_mac_get_vht_rates m = (let r = map (\<lambda>i. unat (drop_bit (2 * i) m AND 3)) [0..<8] in
     \<lparr>num_streams = length (filter (\<lambda>n. n < 3) r), vht_rates = r\<rparr>)"

definition wifi_mac_get_vht_rate_map :: "wifi_mac_vht_rate_s \<Rightarrow> u16 option" where
  "wifi_mac_get_vht_rate_map v = (if length (vht_rates v) < 8 then None else
     Some (fold (\<lambda>i m. m OR push_bit (2 * i) (word_of_nat (vht_rates v ! i))) [0..<8] 0))"

definition wifi_mac_get_vht_intersect_rates :: "wifi_mac_vht_rate_s \<Rightarrow> wifi_mac_vht_rate_s \<Rightarrow> wifi_mac_vht_rate_s" where
  "wifi_mac_get_vht_intersect_rates s d = (let n = min (num_streams s) (num_streams d) in
     \<lparr>num_streams = n, vht_rates = map (\<lambda>i. if i < n then min (vht_rates s ! i) (vht_rates d ! i) else 3) [0..<8]\<rparr>)"

definition wifi_mac_vht_basic_rate_check :: "wifi_mac_vht_rate_s \<Rightarrow> wifi_mac_vht_rate_s \<Rightarrow> bool" where
  "wifi_mac_vht_basic_rate_check irs brs \<longleftrightarrow> num_streams brs \<le> num_streams irs \<and>
     list_all (\<lambda>i. vht_rates brs ! i \<le> vht_rates irs ! i) [0..<num_streams brs]"

text \<open>The MCS indices of a station are those of the last stream: 0 to 9, 8 or 7, and 0 to 7 too for what cannot
  be; without a stream the byte in front of the array is read.\<close>

definition vht_mcs_count :: "wifi_mac_vht_rate_s \<Rightarrow> nat option" where
  "vht_mcs_count v = (if num_streams v = 0 then None else do {
     r \<leftarrow> arr (vht_rates v) (num_streams v - 1);
     Some (if r = 2 then 10 else if r = 1 then 9 else 8)
   })"

definition wifi_mac_setup_vht_rates :: "rate_vif \<Rightarrow> rate_flags \<Rightarrow> rate_sta \<Rightarrow> (bool \<times> rate_sta) option" where
  "wifi_mac_setup_vht_rates w F sta = do {
     let tsrs = wifi_mac_get_vht_rates (tx_mcs_map w);
     let rsrs = wifi_mac_get_vht_rates (rx_mcs_map w);
     let brs = wifi_mac_get_vht_rates (vm_vhtop_basic_mcs w);
     let rx_rrs = wifi_mac_get_vht_rates (sta_rx_vhtrates sta);
     let tx_rrs = wifi_mac_get_vht_rates (sta_tx_vhtrates sta);
     let tx_irs = (if DOXSECT F then wifi_mac_get_vht_intersect_rates rx_rrs tsrs else rx_rrs);
     let rx_irs = (if DOXSECT F then wifi_mac_get_vht_intersect_rates tx_rrs rsrs else tx_rrs);
     k \<leftarrow> vht_mcs_count tx_irs;
     d \<leftarrow> mem_copy (dot11_rate (sta_vhtrates sta)) 0 (map word_of_nat [0..<k]) 0 k;
     tm \<leftarrow> wifi_mac_get_vht_rate_map tx_irs;
     rm \<leftarrow> wifi_mac_get_vht_rate_map rx_irs;
     let sta = sta\<lparr>sta_vhtrates := \<lparr>dot11_rate_num = k, dot11_rate = d\<rparr>, sta_streams := num_streams tx_irs,
                   sta_tx_vhtrates := tm, sta_rx_vhtrates := rm\<rparr>;
     Some (DOBRS F \<longrightarrow> wifi_mac_vht_basic_rate_check tx_irs brs \<and> wifi_mac_vht_basic_rate_check rx_irs brs, sta)
   }"

definition wifi_mac_vht_rate_init :: "u16 \<Rightarrow> u16 \<Rightarrow> u16 \<Rightarrow> rate_vif \<Rightarrow> rate_vif" where
  "wifi_mac_vht_rate_init m dr basic w = w\<lparr>rx_mcs_map := m, tx_mcs_map := m, mcs_data_rate := dr, vm_vhtop_basic_mcs := basic\<rparr>"

definition wifi_mac_rate_vattach :: "rate_vif \<Rightarrow> rate_vif" where
  "wifi_mac_rate_vattach w = w\<lparr>fixed_rate_info := 0xff, fixed_rate_mode := 0\<rparr>"

text \<open>The mode of an access point, from the rates of its elements: bit 1 for a rate of 802.11b, bit 2 for one of
  802.11g.\<close>

definition wifi_mac_get_ap_mode :: "u8 list \<Rightarrow> (bool \<times> bool) option" where
  "wifi_mac_get_ap_mode ie = do {
     n \<leftarrow> arr ie 1;
     if 2 + unat n > length ie then None else
     let rs = take (unat n) (drop 2 ie) in
     Some (list_ex (has_rate basic_11b) rs, list_ex (has_rate basic_11g) rs)
   }"

text \<open>\<^verbatim>\<open>vht\<close>: the entry has the VHT element; \<^verbatim>\<open>ht\<close>: it has the HT element, and HT is not
  forbidden for its ciphers.\<close>

definition wifi_mac_get_sta_mode :: "bool \<Rightarrow> bool \<Rightarrow> bool \<Rightarrow> bool \<Rightarrow> u8 list \<Rightarrow> u8 list \<Rightarrow> nat option" where
  "wifi_mac_get_sta_mode is2g is5g ht vht si ex = do {
     (b1, g1) \<leftarrow> wifi_mac_get_ap_mode si;
     (b2, g2) \<leftarrow> wifi_mac_get_ap_mode ex;
     let b = (b1 \<or> b2); g = (g1 \<or> g2);
         m = (if b \<and> g then MODE_11BG else if g then MODE_11G else if b then MODE_11B else 0);
         m = (if ht then
                let m = (if m = MODE_11BG then MODE_11BGN else if m = MODE_11G then MODE_11GN else 4)
                in if \<not> is2g \<and> vht then MODE_11GNAC else m
              else if \<not> is2g \<and> vht then MODE_11G else m);
         m = (if m = 0 then if is5g then MODE_11GNAC else MODE_11BGN else m)
     in Some m
   }"

end
