(* ===== verification/RateProps.thy ===== *)
theory RateProps
  imports RateNego
begin

text \<open>
  The negotiation of rates: what a station is left with is the part of the own rates that the
  peer has too, in order; the maps of VHT rates are intersected stream by stream; the copy of rates into
  the entry of a scan stays inside it exactly when they fit.
\<close>

section \<open>Sorting\<close>

abbreviation (input) rle :: "u8 \<Rightarrow> u8 \<Rightarrow> bool" where
  "rle a b \<equiv> WIFINET_GET_RATE_VAL a \<le> WIFINET_GET_RATE_VAL b"

lemma sort_step_mset: "i < length xs \<Longrightarrow> j < length xs \<Longrightarrow> mset (sort_step i j xs) = mset xs"
  by (simp add: sort_step_def mset_swap)

lemma sort_step_length [simp]: "length (sort_step i j xs) = length xs"
  by (simp add: sort_step_def)

text \<open>The inner loop up to j: the places outside are as they were, the least of those inside is in front.\<close>

definition swept :: "nat \<Rightarrow> nat \<Rightarrow> u8 list \<Rightarrow> u8 list \<Rightarrow> bool" where
  "swept i j xs ys \<longleftrightarrow> length ys = length xs \<and> mset ys = mset xs \<and> (\<forall>k. k < i \<or> j \<le> k \<longrightarrow> ys ! k = xs ! k)
     \<and> (\<forall>k. i \<le> k \<and> k < j \<longrightarrow> rle (ys ! i) (ys ! k) \<and> (\<exists>m. i \<le> m \<and> m < j \<and> ys ! k = xs ! m))"

lemma swept_step:
  assumes "swept i j xs ys" "i < j" "j < length xs"
  shows "swept i (Suc j) xs (sort_step i j ys)"
proof -
  have l: "length ys = length xs" and same: "\<And>k. k < i \<or> j \<le> k \<Longrightarrow> ys ! k = xs ! k"
    and le: "\<And>k. i \<le> k \<Longrightarrow> k < j \<Longrightarrow> rle (ys ! i) (ys ! k)"
    and src: "\<And>k. i \<le> k \<Longrightarrow> k < j \<Longrightarrow> \<exists>m. i \<le> m \<and> m < j \<and> ys ! k = xs ! m"
    using assms(1) by (auto simp: swept_def)
  have i: "\<exists>m. i \<le> m \<and> m < Suc j \<and> ys ! i = xs ! m"
    using src [of i] assms(2) by (meson le_refl less_SucI)
  have j: "ys ! j = xs ! j" using same by simp
  have jj: "\<exists>m. i \<le> m \<and> m < Suc j \<and> xs ! j = xs ! m" using assms(2) by (intro exI [of _ j]) simp
  have n: "sort_step i j ys ! k = (if WIFINET_GET_RATE_VAL (ys ! i) > WIFINET_GET_RATE_VAL (ys ! j)
      then if k = j then ys ! i else if k = i then ys ! j else ys ! k else ys ! k)" if "k < length xs" for k
    using that assms(2,3) l by (auto simp: sort_step_def nth_list_update)
  have out: "sort_step i j ys ! k = xs ! k" if "k < i \<or> Suc j \<le> k" for k
    using that same assms(2,3) l by (auto simp: sort_step_def nth_list_update)
  have "rle (sort_step i j ys ! i) (sort_step i j ys ! k) \<and> (\<exists>m. i \<le> m \<and> m < Suc j \<and> sort_step i j ys ! k = xs ! m)"
    if k: "i \<le> k" "k < Suc j" for k
  proof (cases "k = j")
    case True
    then show ?thesis using i j jj assms(2,3) n [of i] n [of k] by auto
  next
    case False
    then have kj: "k < j" using k(2) by simp
    have "\<exists>m. i \<le> m \<and> m < Suc j \<and> ys ! k = xs ! m" using src [OF k(1) kj] by (meson less_SucI)
    then show ?thesis using jj j kj k assms(2,3) n [of i] n [of k] le [OF k(1) kj] by auto
  qed
  then show ?thesis using l out assms sort_step_mset [of i ys j] by (simp add: swept_def)
qed

lemma sort_from_swept:
  assumes "i < n" "n \<le> length xs"
  shows "swept i n xs (sort_from n i xs)"
proof -
  have "swept i (i + 1 + d) xs (fold (sort_step i) [i+1..<i+1+d] xs)" if "i + 1 + d \<le> length xs" for d
    using that
  proof (induction d)
    case 0
    show ?case by (auto simp: swept_def le_less_Suc_eq)
  next
    case (Suc d)
    have "[i+1..<i+1+Suc d] = [i+1..<i+1+d] @ [i+1+d]" by simp
    then show ?case using swept_step [OF Suc.IH] Suc.prems by simp
  qed
  from this [of "n - i - 1"] show ?thesis using assms by (simp add: sort_from_def)
qed

definition sorted_to :: "nat \<Rightarrow> nat \<Rightarrow> u8 list \<Rightarrow> bool" where
  "sorted_to i n ys \<longleftrightarrow> (\<forall>k l. k < i \<and> k < l \<and> l < n \<longrightarrow> rle (ys ! k) (ys ! l))"

lemma sorted_to_step:
  assumes "sorted_to i n ys" "swept i n ys zs" "i < n"
  shows "sorted_to (Suc i) n zs"
  unfolding sorted_to_def
proof (intro allI impI, elim conjE)
  fix k l assume kl: "k < Suc i" "k < l" "l < n"
  have le: "\<And>m. i \<le> m \<Longrightarrow> m < n \<Longrightarrow> rle (zs ! i) (zs ! m) \<and> (\<exists>q. i \<le> q \<and> q < n \<and> zs ! m = ys ! q)"
    and same: "\<And>m. m < i \<Longrightarrow> zs ! m = ys ! m"
    using assms(2) by (auto simp: swept_def)
  show "rle (zs ! k) (zs ! l)"
  proof (cases "k = i")
    case True then show ?thesis using le [of l] kl by simp
  next
    case False
    then have k: "k < i" using kl by simp
    show ?thesis
    proof (cases "l < i")
      case True then show ?thesis using same assms(1) k kl by (simp add: sorted_to_def)
    next
      case False
      then obtain q where "i \<le> q" "q < n" "zs ! l = ys ! q" using le [of l] kl by auto
      then show ?thesis using same [OF k] assms(1) k unfolding sorted_to_def by simp
    qed
  qed
qed

lemma fold_sort_from:
  assumes "n \<le> length xs" "i \<le> n"
  defines "ys \<equiv> fold (sort_from n) [0..<i] xs"
  shows "length ys = length xs \<and> mset ys = mset xs \<and> drop n ys = drop n xs \<and> sorted_to i n ys"
  unfolding ys_def using assms(2)
proof (induction i)
  case 0 then show ?case by (simp add: sorted_to_def)
next
  case (Suc i)
  let ?ys = "fold (sort_from n) [0..<i] xs"
  have ih: "length ?ys = length xs" "mset ?ys = mset xs" "drop n ?ys = drop n xs" "sorted_to i n ?ys"
    using Suc by simp_all
  have sw: "swept i n ?ys (sort_from n i ?ys)" using sort_from_swept Suc.prems assms(1) ih(1) by simp
  have "drop n (sort_from n i ?ys) = drop n ?ys"
    by (rule nth_equalityI) (use sw in \<open>auto simp: swept_def\<close>)
  then show ?case using ih sw sorted_to_step [OF ih(4) sw] Suc.prems by (simp add: swept_def)
qed

lemma sort_rate_ok:
  assumes "rs_rates rs = Some a"
  shows "\<exists>rs' b. wifi_mac_sort_rate rs = Some rs' \<and> rs_rates rs' = Some b \<and> mset b = mset a \<and> sorted_wrt rle b
    \<and> length (dot11_rate rs') = length (dot11_rate rs)"
proof -
  let ?n = "dot11_rate_num rs"
  let ?ys = "fold (sort_from ?n) [0..<?n] (dot11_rate rs)"
  have n: "?n \<le> length (dot11_rate rs)" and a: "a = take ?n (dot11_rate rs)"
    using assms by (auto simp: rs_rates_def split: if_splits)
  have f: "length ?ys = length (dot11_rate rs)" "mset ?ys = mset (dot11_rate rs)"
    "drop ?n ?ys = drop ?n (dot11_rate rs)" "sorted_to ?n ?n ?ys"
    using fold_sort_from [OF n, of ?n] by auto
  have "mset (take ?n ?ys) + mset (drop ?n ?ys) = mset a + mset (drop ?n (dot11_rate rs))"
    by (metis a append_take_drop_id f(2) mset_append)
  then have "mset (take ?n ?ys) = mset a" using f(3) by simp
  moreover have "sorted_wrt rle (take ?n ?ys)"
    using f(4) n f(1) by (auto simp: sorted_wrt_iff_nth_less sorted_to_def)
  ultimately show ?thesis using n f(1) by (simp add: wifi_mac_sort_rate_def rs_rates_def)
qed

section \<open>Legacy rates\<close>

text \<open>An element whose bytes are there and whose length the callers have checked.\<close>

definition elem_ok :: "u8 list \<Rightarrow> bool" where
  "elem_ok ie \<longleftrightarrow> 2 \<le> length ie \<and> unat (ie ! 1) \<le> 57 \<and> 2 + unat (ie ! 1) \<le> length ie"

definition elem_data :: "u8 list \<Rightarrow> u8 list" where
  "elem_data ie = take (unat (ie ! 1)) (drop 2 ie)"

definition peer_rates :: "u8 list \<Rightarrow> u8 list option \<Rightarrow> u8 list" where
  "peer_rates r x = take 57 (elem_data r @ (case x of None \<Rightarrow> [] | Some d \<Rightarrow> elem_data d))"

lemma mem_copy_Some: "p + n \<le> length d \<Longrightarrow> k + n \<le> length s \<Longrightarrow>
    mem_copy d p s k n = Some (take p d @ take n (drop k s) @ drop (p + n) d)"
  by (simp add: mem_copy_def)

lemma elem_okD:
  assumes "elem_ok ie"
  shows "arr ie 1 = Some (ie ! 1)" "unat (ie ! 1) \<le> 57" "2 + unat (ie ! 1) \<le> length ie"
  using assms by (auto simp: elem_ok_def arr_def)

lemma room57: "n \<le> 57 \<Longrightarrow> nat (u8_of (57 - int n)) = 57 - n"
  by (simp add: u8_of_def nat_diff_distrib')

lemma sum57: "n \<le> 57 \<Longrightarrow> nat (u8_of (int n)) = n"
  by (simp add: u8_of_def)

lemma collect_xrates_ok:
  assumes "elem_ok d" "dot11_rate_num rs \<le> 57" "length (dot11_rate rs) = 77"
  defines "k \<equiv> min (unat (d ! 1)) (57 - dot11_rate_num rs)"
  shows "collect_xrates (Some d) rs = Some \<lparr>dot11_rate_num = dot11_rate_num rs + k,
    dot11_rate = take (dot11_rate_num rs) (dot11_rate rs) @ take k (drop 2 d) @ drop (dot11_rate_num rs + k) (dot11_rate rs)\<rparr>"
proof -
  note d = elem_okD [OF assms(1)]
  define n m where "n = dot11_rate_num rs" and "m = unat (d ! 1)"
  have k: "(if n + m > 57 then nat (u8_of (57 - int n)) else m) = k"
    using assms(2) room57 [of n] by (auto simp: k_def n_def m_def)
  have b: "n + k \<le> 57" "k \<le> m" using assms(2) by (auto simp: k_def n_def m_def)
  have "mem_copy (dot11_rate rs) n d 2 k = Some (take n (dot11_rate rs) @ take k (drop 2 d) @ drop (n + k) (dot11_rate rs))"
    using b d(3) assms(3) by (intro mem_copy_Some) (auto simp: m_def)
  then show ?thesis
    by (simp only: collect_xrates_def option.case d(1) bind.simps Let_def k sum57 [OF b(1)] flip: n_def m_def)
qed

lemma collect_ok:
  assumes "elem_ok r" "\<And>d. x = Some d \<Longrightarrow> elem_ok d"
  shows "\<exists>rs q. collect_rates (Some r) = Some rs \<and> collect_xrates x rs = Some q
    \<and> rs_rates q = Some (peer_rates r x) \<and> length (dot11_rate q) = 77"
proof -
  note r = elem_okD [OF assms(1)]
  define n where "n = unat (r ! 1)"
  define rs where "rs = \<lparr>dot11_rate_num = n, dot11_rate = elem_data r @ replicate (77 - n) 0\<rparr>"
  have l: "length (elem_data r) = n" "n \<le> 57" using r by (simp_all add: elem_data_def n_def)
  have c: "collect_rates (Some r) = Some rs"
    using r by (simp add: collect_rates_def mem_copy_Some rs_zero_def rs_def elem_data_def n_def)
  show ?thesis
  proof (cases x)
    case None
    then show ?thesis using c l by (simp add: collect_xrates_def rs_rates_def peer_rates_def rs_def)
  next
    case (Some d)
    note d = elem_okD [OF assms(2) [OF Some]]
    let ?k = "min (unat (d ! 1)) (57 - n)"
    have "collect_xrates x rs = Some \<lparr>dot11_rate_num = n + ?k,
        dot11_rate = elem_data r @ take ?k (drop 2 d) @ drop ?k (replicate (77 - n) 0)\<rparr>"
      using collect_xrates_ok [OF assms(2) [OF Some], of rs] Some l by (simp add: rs_def)
    moreover have "take ?k (drop 2 d) = take (57 - n) (elem_data d)" using d by (simp add: elem_data_def min.commute)
    moreover have "length (take ?k (drop 2 d)) = ?k" using d by simp
    moreover have "n + ?k \<le> 77" using l(2) by simp
    moreover have "take ?k (elem_data d) = take (57 - n) (elem_data d)" using d by (simp add: elem_data_def min_def)
    ultimately show ?thesis using c l Some by (simp add: rs_rates_def peer_rates_def)
  qed
qed

lemma xsect_ok:
  assumes "rs_rates a = Some x" "rs_rates b = Some y" "length x \<le> length (dot11_rate s)"
  shows "\<exists>s'. wifi_mac_xsect_rate a b s = Some s' \<and> rs_rates s' = Some (filter (has_rate y) x)
    \<and> length (dot11_rate s') = length (dot11_rate s)"
proof -
  have "length (filter (has_rate y) x) \<le> length (dot11_rate s)" using assms(3) by (meson le_trans length_filter_le)
  then show ?thesis using assms by (simp add: wifi_mac_xsect_rate_def mem_copy_Some rs_rates_def Let_def)
qed

lemma has_rate_mset: "mset a = mset b \<Longrightarrow> has_rate a r = has_rate b r"
  unfolding has_rate_def list_ex_iff by (metis mset_eq_setD)

lemma has_rate_sorted_peer: "mset a = mset b \<Longrightarrow> filter (has_rate a) x = filter (has_rate b) x"
  using has_rate_mset [of a b] by (intro filter_cong) auto

lemma brs_ok: "rs_rates a = Some x \<Longrightarrow> rs_rates b = Some y \<Longrightarrow>
    wifi_mac_brs_rate_check a b = Some (\<forall>r\<in>set x. rate_basic r \<longrightarrow> has_rate y r)"
  by (simp add: wifi_mac_brs_rate_check_def list_all_iff)

lemma fixed_ok: "fixed_rate_mode w \<le> 1 \<Longrightarrow> wifi_mac_fixed_rate_check w rs = Some True"
  by (auto simp: wifi_mac_fixed_rate_check_def)

section \<open>VHT rates\<close>

text \<open>What a map of VHT rates says: the MCS indices 0 to 7, 8 or 9 on a stream.\<close>

definition vht_supports :: "u16 \<Rightarrow> nat \<Rightarrow> nat \<Rightarrow> bool" where
  "vht_supports m s c \<longleftrightarrow> s < 8 \<and> unat (drop_bit (2 * s) m AND 3) < 3 \<and> c \<le> 7 + unat (drop_bit (2 * s) m AND 3)"

text \<open>A map without gaps: the streams used come first.\<close>

definition vht_no_gap :: "u16 \<Rightarrow> bool" where
  "vht_no_gap m \<longleftrightarrow> (\<forall>i j. i < j \<and> vht_supports m j 0 \<longrightarrow> vht_supports m i 0)"

lemma vht_digit_less: "unat ((m :: u16) AND 3) < 4"
proof -
  have "m AND 3 \<le> 3" by (rule word_and_le1)
  then show ?thesis by (simp add: word_le_nat_alt)
qed

lemma filter_prefix_length:
  assumes "\<And>i j. i < j \<Longrightarrow> j < length xs \<Longrightarrow> P (xs ! j) \<Longrightarrow> P (xs ! i)" "k < length xs"
  shows "k < length (filter P xs) \<longleftrightarrow> P (xs ! k)"
  using assms
proof (induction xs arbitrary: k)
  case Nil then show ?case by simp
next
  case (Cons x xs)
  have later: "P (xs ! i)" if "i < j" "j < length xs" "P (xs ! j)" for i j
    using Cons.prems(1) [of "Suc i" "Suc j"] that by simp
  show ?case
  proof (cases "P x")
    case True
    then show ?thesis using Cons.IH [OF later] Cons.prems(2) by (cases k) auto
  next
    case False
    then have "\<not> P (xs ! j)" if "j < length xs" for j using Cons.prems(1) [of 0 "Suc j"] that by auto
    then have "\<forall>y\<in>set xs. \<not> P y" by (metis in_set_conv_nth)
    then have "filter P (x # xs) = []" using False by (simp add: filter_empty_conv)
    moreover have "\<not> P ((x # xs) ! k)" using False \<open>\<forall>y\<in>set xs. \<not> P y\<close> Cons.prems(2) by (cases k) auto
    ultimately show ?thesis by simp
  qed
qed

lemma vht_rates_length: "length (vht_rates (wifi_mac_get_vht_rates m)) = 8"
  by (simp add: wifi_mac_get_vht_rates_def Let_def)

lemma vht_rates_nth: "i < 8 \<Longrightarrow> vht_rates (wifi_mac_get_vht_rates m) ! i = unat (drop_bit (2 * i) m AND 3)"
  by (simp add: wifi_mac_get_vht_rates_def Let_def del: upt.simps)

lemma vht_streams:
  assumes "vht_no_gap m" "i < 8"
  shows "i < num_streams (wifi_mac_get_vht_rates m) \<longleftrightarrow> unat (drop_bit (2 * i) m AND 3) < 3"
proof -
  let ?r = "map (\<lambda>i. unat (drop_bit (2 * i) m AND 3)) [0..<8]"
  have "i < length (filter (\<lambda>n. n < 3) ?r) \<longleftrightarrow> ?r ! i < 3"
  proof (rule filter_prefix_length)
    fix a b assume "a < b" "b < length ?r" "?r ! b < 3"
    then have "vht_supports m b 0" by (simp add: vht_supports_def del: upt.simps)
    then have "vht_supports m a 0" using assms(1) \<open>a < b\<close> unfolding vht_no_gap_def by blast
    then show "?r ! a < 3" by (simp add: vht_supports_def del: upt.simps)
  qed (use assms in simp)
  then show ?thesis using assms(2) by (simp add: wifi_mac_get_vht_rates_def Let_def del: upt.simps)
qed

lemma vht_streams_le: "num_streams (wifi_mac_get_vht_rates m) \<le> 8"
  using length_filter_le [of "\<lambda>n. n < 3" "map (\<lambda>i. unat (drop_bit (2 * i) m AND 3)) [0..<8]"]
  by (simp add: wifi_mac_get_vht_rates_def Let_def del: upt.simps)

text \<open>Packing streams into a map and reading them back.\<close>

lemma vht_pack_bits:
  assumes "\<And>i. i < j \<Longrightarrow> r ! i < 4" "k < 16"
  shows "bit (fold (\<lambda>i m. m OR push_bit (2 * i) (word_of_nat (r ! i))) [0..<j] (0 :: u16)) k
    \<longleftrightarrow> k < 2 * j \<and> bit (r ! (k div 2)) (k mod 2)"
  using assms
proof (induction j)
  case 0 then show ?case by simp
next
  case (Suc j)
  have small: "\<not> bit (r ! j) n" if "2 \<le> n" for n
  proof -
    have "r ! j < 2 ^ n" using Suc.prems(1) [of j] power_increasing [OF that, of "2::nat"] by simp
    then show ?thesis by (simp add: bit_iff_odd)
  qed
  have new: "bit (push_bit (2 * j) (word_of_nat (r ! j) :: u16)) k \<longleftrightarrow> 2 * j \<le> k \<and> k < 2 * Suc j \<and> bit (r ! (k div 2)) (k mod 2)"
  proof (cases "2 * j \<le> k \<and> k < 2 * Suc j")
    case True
    then have "k div 2 = j" "k - 2 * j = k mod 2" "k mod 2 < 16" by presburger+
    then show ?thesis using True Suc.prems(2) by (simp add: bit_push_bit_iff bit_of_nat_iff)
  next
    case False
    then have "2 \<le> k - 2 * j" if "2 * j \<le> k" using that by presburger
    then have "\<not> (2 * j \<le> k \<and> bit (r ! j) (k - 2 * j))" using small by blast
    then show ?thesis using False by (auto simp: bit_push_bit_iff bit_of_nat_iff)
  qed
  have "[0..<Suc j] = [0..<j] @ [j]" by simp
  then show ?case using Suc.IH new Suc.prems by (auto simp: bit_or_iff less_Suc_eq)
qed

lemma bit_three: "bit (3 :: 'a :: len word) n \<longleftrightarrow> n < 2 \<and> n < LENGTH('a)"
  using bit_mask_iff [of 2 n, where 'a = "'a word"] by (auto simp: mask_eq_exp_minus_1)

lemma vht_pack_digit:
  assumes "\<And>i. i < 8 \<Longrightarrow> r ! i < 4" "s < 8"
  shows "drop_bit (2 * s) (fold (\<lambda>i m. m OR push_bit (2 * i) (word_of_nat (r ! i))) [0..<8] (0 :: u16)) AND 3 = word_of_nat (r ! s)"
    (is "drop_bit _ ?m AND 3 = _")
proof (rule bit_word_eqI)
  fix n assume n: "n < LENGTH(16)"
  have small: "\<not> bit (r ! s) n" if "2 \<le> n"
  proof -
    have "r ! s < 2 ^ n" using assms(1) [of s] assms(2) power_increasing [OF that, of "2::nat"] by simp
    then show ?thesis by (simp add: bit_iff_odd)
  qed
  show "bit (drop_bit (2 * s) ?m AND 3) n \<longleftrightarrow> bit (word_of_nat (r ! s) :: u16) n"
  proof (cases "n < 2")
    case True
    then have "2 * s + n < 16" "(2 * s + n) div 2 = s" "(2 * s + n) mod 2 = n" using assms(2) by presburger+
    moreover have "bit (3 :: u16) n" using True less_2_cases [of n] by auto
    ultimately show ?thesis using vht_pack_bits [of 8 r "2 * s + n"] assms True n
      by (simp add: bit_and_iff bit_drop_bit_eq bit_of_nat_iff del: upt.simps)
  next
    case False
    then have "\<not> bit (3 :: u16) n" using bit_three [where 'a = 16] by blast
    then show ?thesis using small False n by (simp add: bit_and_iff bit_of_nat_iff del: upt.simps)
  qed
qed

lemma vht_map_digits:
  assumes "length (vht_rates v) = 8" "\<And>i. i < 8 \<Longrightarrow> vht_rates v ! i < 4"
  shows "\<exists>m. wifi_mac_get_vht_rate_map v = Some m \<and> (\<forall>s<8. unat (drop_bit (2 * s) m AND 3) = vht_rates v ! s)"
proof -
  have "unat (word_of_nat (vht_rates v ! s) :: u16) = vht_rates v ! s" if "s < 8" for s
    using assms(2) [OF that] by (simp add: unat_of_nat)
  then show ?thesis using vht_pack_digit [of "vht_rates v"] assms
    by (simp add: wifi_mac_get_vht_rate_map_def del: upt.simps)
qed

text \<open>The intersection of two maps, as the streams it has and as a map again.\<close>

abbreviation (input) vht_digit :: "u16 \<Rightarrow> nat \<Rightarrow> nat" where
  "vht_digit m s \<equiv> unat (drop_bit (2 * s) m AND 3)"

lemma vht_intersect_nth:
  assumes "vht_no_gap a" "vht_no_gap b" "i < 8"
  defines "v \<equiv> wifi_mac_get_vht_intersect_rates (wifi_mac_get_vht_rates a) (wifi_mac_get_vht_rates b)"
  shows "vht_rates v ! i = (if vht_digit a i < 3 \<and> vht_digit b i < 3 then min (vht_digit a i) (vht_digit b i) else 3)"
    and "i < num_streams v \<longleftrightarrow> vht_digit a i < 3 \<and> vht_digit b i < 3"
proof -
  have n: "i < num_streams v \<longleftrightarrow> vht_digit a i < 3 \<and> vht_digit b i < 3"
    using vht_streams [OF assms(1,3)] vht_streams [OF assms(2,3)]
    by (simp add: v_def wifi_mac_get_vht_intersect_rates_def)
  show "i < num_streams v \<longleftrightarrow> vht_digit a i < 3 \<and> vht_digit b i < 3" by (rule n)
  have "vht_rates v ! i = (if i < num_streams v then min (vht_digit a i) (vht_digit b i) else 3)"
    using assms(3) by (simp add: v_def wifi_mac_get_vht_intersect_rates_def Let_def vht_rates_nth del: upt.simps)
  then show "vht_rates v ! i = (if vht_digit a i < 3 \<and> vht_digit b i < 3 then min (vht_digit a i) (vht_digit b i) else 3)"
    by (simp only: n)
qed

lemma vht_intersect_used:
  assumes "vht_no_gap a" "vht_no_gap b" "i < 8"
  defines "v \<equiv> wifi_mac_get_vht_intersect_rates (wifi_mac_get_vht_rates a) (wifi_mac_get_vht_rates b)"
  shows "i < num_streams v \<longleftrightarrow> vht_rates v ! i < 3"
  using vht_intersect_nth [OF assms(1-3), folded v_def] by (auto simp: min_def)

lemma vht_intersect_map:
  assumes "vht_no_gap a" "vht_no_gap b"
  defines "v \<equiv> wifi_mac_get_vht_intersect_rates (wifi_mac_get_vht_rates a) (wifi_mac_get_vht_rates b)"
  shows "\<exists>m. wifi_mac_get_vht_rate_map v = Some m \<and> (\<forall>s<8. vht_digit m s = vht_rates v ! s)
    \<and> (\<forall>s c. vht_supports m s c \<longleftrightarrow> vht_supports a s c \<and> vht_supports b s c)"
proof -
  note nth = vht_intersect_nth [OF assms(1,2), folded v_def]
  have "length (vht_rates v) = 8" by (simp add: v_def wifi_mac_get_vht_intersect_rates_def Let_def)
  moreover have "vht_rates v ! i < 4" if "i < 8" for i using nth(1) [OF that] by (auto simp: min_def)
  ultimately obtain m where m: "wifi_mac_get_vht_rate_map v = Some m" "\<And>s. s < 8 \<Longrightarrow> vht_digit m s = vht_rates v ! s"
    using vht_map_digits [of v] by blast
  have "vht_supports m s c \<longleftrightarrow> vht_supports a s c \<and> vht_supports b s c" for s c
    using m(2) nth(1) by (cases "s < 8") (auto simp: vht_supports_def)
  then show ?thesis using m by blast
qed

lemma vht_basic_check:
  assumes "vht_no_gap basic" "\<And>i. i < 8 \<Longrightarrow> i < num_streams v \<longleftrightarrow> vht_rates v ! i < 3"
    "\<And>s. s < 8 \<Longrightarrow> vht_digit m s = vht_rates v ! s"
  shows "wifi_mac_vht_basic_rate_check v (wifi_mac_get_vht_rates basic) \<longleftrightarrow>
    (\<forall>s c. vht_supports basic s c \<longrightarrow> vht_supports m s c)" (is "?chk \<longleftrightarrow> ?sub")
proof
  let ?b = "wifi_mac_get_vht_rates basic"
  assume c: ?chk
  show ?sub
  proof (intro allI impI)
    fix s c assume b: "vht_supports basic s c"
    then have s: "s < 8" "vht_digit basic s < 3" "c \<le> 7 + vht_digit basic s" by (auto simp: vht_supports_def)
    then have sb: "s < num_streams ?b" using vht_streams [OF assms(1)] by blast
    then have "s < num_streams v" "vht_rates ?b ! s \<le> vht_rates v ! s"
      using c by (auto simp: wifi_mac_vht_basic_rate_check_def list_all_iff)
    then show "vht_supports m s c" using s assms(2,3) [OF s(1)] vht_rates_nth [OF s(1), of basic] by (simp add: vht_supports_def)
  qed
next
  let ?b = "wifi_mac_get_vht_rates basic"
  assume sub: ?sub
  have "s < num_streams v \<and> vht_rates ?b ! s \<le> vht_rates v ! s" if "s < num_streams ?b" for s
  proof -
    have s: "s < 8" using that vht_streams_le [of basic] by simp
    then have "vht_supports basic s (7 + vht_digit basic s)" using that vht_streams [OF assms(1)] by (simp add: vht_supports_def)
    then have "vht_supports m s (7 + vht_digit basic s)" using sub by blast
    then show ?thesis using s assms(2,3) [OF s] vht_rates_nth [OF s, of basic] by (simp add: vht_supports_def)
  qed
  moreover from this have "num_streams ?b \<le> num_streams v"
    by (metis not_le_imp_less order_less_irrefl)
  ultimately show ?chk by (auto simp: wifi_mac_vht_basic_rate_check_def list_all_iff)
qed

lemma vht_last_stream:
  assumes "vht_no_gap a" "vht_no_gap b" "vht_supports a 0 0" "vht_supports b 0 0"
  defines "v \<equiv> wifi_mac_get_vht_intersect_rates (wifi_mac_get_vht_rates a) (wifi_mac_get_vht_rates b)"
  shows "0 < num_streams v" "num_streams v \<le> 8" "vht_rates v ! (num_streams v - 1) < 3"
    "vht_mcs_count v = Some (8 + vht_rates v ! (num_streams v - 1))"
proof -
  note nth = vht_intersect_nth [OF assms(1,2), folded v_def]
  show p: "0 < num_streams v" using nth(2) [of 0] assms(3,4) by (simp add: vht_supports_def)
  show le: "num_streams v \<le> 8" using vht_streams_le [of a]
    by (simp add: v_def wifi_mac_get_vht_intersect_rates_def Let_def min_le_iff_disj)
  show l: "vht_rates v ! (num_streams v - 1) < 3"
    using nth [of "num_streams v - 1"] p le by (auto simp: min_def split: if_splits)
  have "length (vht_rates v) = 8" by (simp add: v_def wifi_mac_get_vht_intersect_rates_def Let_def)
  then show "vht_mcs_count v = Some (8 + vht_rates v ! (num_streams v - 1))"
    using p le l by (auto simp: vht_mcs_count_def Let_def less_Suc_eq numeral_3_eq_3)
qed

section \<open>Examples\<close>

definition rs_of :: "u8 list \<Rightarrow> rateset" where
  "rs_of xs = \<lparr>dot11_rate_num = length xs, dot11_rate = xs @ replicate (77 - length xs) 0\<rparr>"

lemma rs_rates_of: "rs_rates (rs_of xs) = Some xs"
  by (simp add: rs_rates_def rs_of_def)

definition all_flags :: rate_flags where
  "all_flags = \<lparr>DOSORT = True, DOFRATE = True, DOXSECT = True, DOBRS = True\<rparr>"

text \<open>An interface of the mode b/g/n with one stream, and an access point.\<close>

definition rate_vif_ex :: rate_vif where
  "rate_vif_ex = \<lparr>wm_11b_rates = rs_of [0x82, 0x84, 0x0b, 0x16], wm_11g_rates = rs_of [0x0c, 0x12, 0x18, 0x24, 0x30, 0x48, 0x60, 0x6c],
     wm_sup_ht_rates = rs_of [0, 1, 2, 3, 4, 5, 6, 7], wm_sup_vht_rates = rs_zero, rv_sta_mode = True, rv_mac_mode = MODE_11BGN,
     vm_legacy_rates = rs_of [0x82, 0x84, 0x0b, 0x16, 0x0c, 0x12], fixed_rate_mode = 0, fixed_rate_info = 0xff,
     tx_mcs_map = 0xfffe, rx_mcs_map = 0xfffe, mcs_data_rate = 0, vm_vhtop_basic_mcs = 0xfffc\<rparr>"

definition rate_sta_ex :: rate_sta where
  "rate_sta_ex = \<lparr>sta_rates = rs_zero, sta_htrates = rs_zero, sta_vhtrates = rs_zero, sta_tx_vhtrates = 0xfffa,
     sta_rx_vhtrates = 0xfffd, sta_streams = 0\<rparr>"

definition rates_ex :: "u8 list" where
  "rates_ex = [1, 4, 0x96, 0x8b, 0x84, 0x82]"

text \<open>A map with a gap: the peer receives on the second stream alone, and is taken to receive on the first.\<close>

lemma vht_gap_misread:
  "\<exists>sta'. wifi_mac_setup_vht_rates rate_vif_ex all_flags (rate_sta_ex\<lparr>sta_rx_vhtrates := 0xfffb\<rparr>) = Some (True, sta') \<and>
     vht_supports (sta_tx_vhtrates sta') 0 9 \<and> \<not> vht_supports 0xfffb 0 0"
  by (simp add: wifi_mac_setup_vht_rates_def rate_vif_ex_def rate_sta_ex_def all_flags_def vht_supports_def
      wifi_mac_get_vht_rates_def wifi_mac_get_vht_intersect_rates_def vht_mcs_count_def mem_copy_def rs_zero_def
      wifi_mac_get_vht_rate_map_def wifi_mac_vht_basic_rate_check_def upt_rec arr_def)

text \<open>Without a common stream the byte in front of the array of streams is read.\<close>

lemma vht_no_stream_faults:
  "wifi_mac_setup_vht_rates w all_flags (sta\<lparr>sta_rx_vhtrates := 0xffff\<rparr>) = None"
  by (simp add: wifi_mac_setup_vht_rates_def all_flags_def wifi_mac_get_vht_rates_def wifi_mac_get_vht_intersect_rates_def
      vht_mcs_count_def Let_def upt_rec)

definition own_ex :: "u8 list" where
  "own_ex = [0x82, 0x84, 0x0b, 0x16, 0x0c, 0x12]"

text \<open>The rates of a scan entry.\<close>

definition scan_rates_ex :: "u8 \<Rightarrow> u8 list" where
  "scan_rates_ex n = [1, n] @ replicate 57 2"

lemma scan_rates_ex: "length (scan_rates_ex n) = 59" "scan_rates_ex n ! 1 = n"
  by (simp_all add: scan_rates_ex_def)

section \<open>Properties\<close>

text \<open>C37: where a station associates, its legacy rates are those of the interface that its elements have
  too, as often as the interface has them and, when the check passes, in order; the check passes
  exactly if each basic rate of the interface's own station is among them.\<close>
theorem setup_rates_negotiates:
  assumes "elem_ok r" "\<And>d. x = Some d \<Longrightarrow> elem_ok d" "fixed_rate_mode w \<le> 1"
    "rs_rates (vm_legacy_rates w) = Some own" "length own \<le> 77" "rs_rates main = Some basic"
  shows "\<exists>ok sta' l. wifi_mac_setup_rates w (Some main) (Some r) x all_flags sta = Some (ok, sta') \<and>
    rs_rates (sta_rates sta') = Some l \<and> mset l = mset (filter (has_rate (peer_rates r x)) own) \<and>
    (ok \<longrightarrow> sorted_wrt (\<lambda>a b. WIFINET_GET_RATE_VAL a \<le> WIFINET_GET_RATE_VAL b) l) \<and>
    (ok \<longleftrightarrow> (\<forall>b\<in>set basic. rate_basic b \<longrightarrow> has_rate l b))"
proof -
  obtain rs q where c: "collect_rates (Some r) = Some rs" "collect_xrates x rs = Some q" "rs_rates q = Some (peer_rates r x)"
    using collect_ok [OF assms(1,2)] by blast
  obtain q' p where s: "wifi_mac_sort_rate q = Some q'" "rs_rates q' = Some p" "mset p = mset (peer_rates r x)"
    using sort_rate_ok [OF c(3)] by blast
  let ?l = "filter (has_rate (peer_rates r x)) own"
  obtain z where z: "wifi_mac_xsect_rate (vm_legacy_rates w) q' rs_zero = Some z" "rs_rates z = Some ?l"
    using xsect_ok [OF assms(4) s(2), of rs_zero] assms(5) has_rate_sorted_peer [OF s(3)] by (auto simp: rs_zero_def)
  obtain z' l where l: "wifi_mac_sort_rate z = Some z'" "rs_rates z' = Some l" "mset l = mset ?l" "sorted_wrt rle l"
    using sort_rate_ok [OF z(2)] by blast
  have same: "has_rate l b = has_rate ?l b" for b by (rule has_rate_mset [OF l(3)])
  let ?ok = "\<forall>b\<in>set basic. rate_basic b \<longrightarrow> has_rate ?l b"
  have res: "wifi_mac_setup_rates w (Some main) (Some r) x all_flags sta
      = Some (if ?ok then (True, sta\<lparr>sta_rates := z'\<rparr>) else (False, sta\<lparr>sta_rates := z\<rparr>))"
    using c s z l brs_ok [OF assms(6) z(2)] fixed_ok [OF assms(3)] by (simp add: wifi_mac_setup_rates_def all_flags_def)
  show ?thesis
  proof (cases ?ok)
    case True
    then show ?thesis using res l same by (intro exI [of _ True] exI [of _ "sta\<lparr>sta_rates := z'\<rparr>"] exI [of _ l]) simp
  next
    case False
    then show ?thesis using res z by (intro exI [of _ False] exI [of _ "sta\<lparr>sta_rates := z\<rparr>"] exI [of _ ?l]) simp
  qed
qed

theorem setup_rates_negotiates_witness:
  "\<exists>ok sta' l. wifi_mac_setup_rates rate_vif_ex (Some (vm_legacy_rates rate_vif_ex)) (Some rates_ex) None all_flags rate_sta_ex = Some (ok, sta') \<and> ok \<and>
    rs_rates (sta_rates sta') = Some l \<and> mset l = mset [0x82, 0x84, 0x0b, 0x16]"
proof -
  have pre: "elem_ok rates_ex" "\<And>d. None = Some d \<Longrightarrow> elem_ok d" "fixed_rate_mode rate_vif_ex \<le> 1"
    "rs_rates (vm_legacy_rates rate_vif_ex) = Some own_ex" "length own_ex \<le> 77"
    by (simp_all add: rates_ex_def elem_ok_def rate_vif_ex_def rs_rates_of own_ex_def)
  have f: "filter (has_rate (peer_rates rates_ex None)) own_ex = [0x82, 0x84, 0x0b, 0x16]" by code_simp
  have b: "\<forall>b\<in>set own_ex. rate_basic b \<longrightarrow> has_rate [0x82, 0x84, 0x0b, 0x16] b" by code_simp
  obtain ok sta' l where r: "wifi_mac_setup_rates rate_vif_ex (Some (vm_legacy_rates rate_vif_ex)) (Some rates_ex) None all_flags rate_sta_ex = Some (ok, sta')"
    "rs_rates (sta_rates sta') = Some l" "mset l = mset [0x82, 0x84, 0x0b, 0x16 :: u8]"
    "ok \<longleftrightarrow> (\<forall>b\<in>set own_ex. rate_basic b \<longrightarrow> has_rate l b)"
    using setup_rates_negotiates [where sta = rate_sta_ex and x = None, OF pre(1-5,4)] unfolding f by blast
  have ok using r(4) b has_rate_mset [OF r(3)] by blast
  then show ?thesis using r(1-3) by blast
qed

text \<open>C38: where our transmit map and the peer's receive map both support the first stream, maps of
  VHT rates without gaps are intersected: afterwards a station may be sent what both we can send
  and it can receive, may send what it can send and we can receive, its MCS indices are
  those of its last stream, and the check passes exactly if every basic rate is in both.\<close>
theorem vht_rates_intersect:
  assumes "vht_no_gap (tx_mcs_map w)" "vht_no_gap (rx_mcs_map w)" "vht_no_gap (sta_rx_vhtrates sta)"
    "vht_no_gap (sta_tx_vhtrates sta)" "vht_no_gap (vm_vhtop_basic_mcs w)"
    "vht_supports (tx_mcs_map w) 0 0" "vht_supports (sta_rx_vhtrates sta) 0 0" "length (dot11_rate (sta_vhtrates sta)) = 77"
  shows "\<exists>ok sta' l. wifi_mac_setup_vht_rates w all_flags sta = Some (ok, sta') \<and>
    (\<forall>s c. vht_supports (sta_tx_vhtrates sta') s c \<longleftrightarrow> vht_supports (tx_mcs_map w) s c \<and> vht_supports (sta_rx_vhtrates sta) s c) \<and>
    (\<forall>s c. vht_supports (sta_rx_vhtrates sta') s c \<longleftrightarrow> vht_supports (rx_mcs_map w) s c \<and> vht_supports (sta_tx_vhtrates sta) s c) \<and>
    rs_rates (sta_vhtrates sta') = Some l \<and>
    (\<forall>c. word_of_nat c \<in> set l \<and> c < 10 \<longleftrightarrow> vht_supports (sta_tx_vhtrates sta') (sta_streams sta' - 1) c) \<and>
    (ok \<longleftrightarrow> (\<forall>s c. vht_supports (vm_vhtop_basic_mcs w) s c \<longrightarrow>
       vht_supports (sta_tx_vhtrates sta') s c \<and> vht_supports (sta_rx_vhtrates sta') s c))"
proof -
  define t where "t = wifi_mac_get_vht_intersect_rates (wifi_mac_get_vht_rates (sta_rx_vhtrates sta)) (wifi_mac_get_vht_rates (tx_mcs_map w))"
  define r where "r = wifi_mac_get_vht_intersect_rates (wifi_mac_get_vht_rates (sta_tx_vhtrates sta)) (wifi_mac_get_vht_rates (rx_mcs_map w))"
  obtain tm where tm: "wifi_mac_get_vht_rate_map t = Some tm" "\<And>s. s < 8 \<Longrightarrow> vht_digit tm s = vht_rates t ! s"
    "\<And>s c. vht_supports tm s c \<longleftrightarrow> vht_supports (sta_rx_vhtrates sta) s c \<and> vht_supports (tx_mcs_map w) s c"
    using vht_intersect_map [OF assms(3,1), folded t_def] by blast
  obtain rm where rm: "wifi_mac_get_vht_rate_map r = Some rm" "\<And>s. s < 8 \<Longrightarrow> vht_digit rm s = vht_rates r ! s"
    "\<And>s c. vht_supports rm s c \<longleftrightarrow> vht_supports (sta_tx_vhtrates sta) s c \<and> vht_supports (rx_mcs_map w) s c"
    using vht_intersect_map [OF assms(4,2), folded r_def] by blast
  note last = vht_last_stream [OF assms(3,1,7,6), folded t_def]
  define k where "k = 8 + vht_rates t ! (num_streams t - 1)"
  have k: "k \<le> 10" using last(3) by (simp add: k_def)
  have cnt: "vht_mcs_count t = Some k" using last(4) by (simp add: k_def)
  have copy: "mem_copy (dot11_rate (sta_vhtrates sta)) 0 (map word_of_nat [0..<k]) 0 k
      = Some (map word_of_nat [0..<k] @ drop k (dot11_rate (sta_vhtrates sta)))"
    using k assms(8) by (simp add: mem_copy_def del: upt.simps)
  define sta' where "sta' = sta\<lparr>sta_vhtrates := \<lparr>dot11_rate_num = k, dot11_rate = map word_of_nat [0..<k] @ drop k (dot11_rate (sta_vhtrates sta))\<rparr>,
    sta_streams := num_streams t, sta_tx_vhtrates := tm, sta_rx_vhtrates := rm\<rparr>"
  let ?ok = "wifi_mac_vht_basic_rate_check t (wifi_mac_get_vht_rates (vm_vhtop_basic_mcs w)) \<and>
    wifi_mac_vht_basic_rate_check r (wifi_mac_get_vht_rates (vm_vhtop_basic_mcs w))"
  have res: "wifi_mac_setup_vht_rates w all_flags sta = Some (?ok, sta')"
    using cnt copy tm(1) rm(1)
    by (simp add: wifi_mac_setup_vht_rates_def all_flags_def sta'_def Let_def del: upt.simps flip: t_def r_def)
  have ok: "?ok \<longleftrightarrow> (\<forall>s c. vht_supports (vm_vhtop_basic_mcs w) s c \<longrightarrow> vht_supports tm s c \<and> vht_supports rm s c)"
    using vht_basic_check [OF assms(5) vht_intersect_used [OF assms(3,1), folded t_def] tm(2)]
      vht_basic_check [OF assms(5) vht_intersect_used [OF assms(4,2), folded r_def] rm(2)] by blast
  have inj: "c = n" if "(word_of_nat c :: u8) = word_of_nat n" "c < 10" "n < 10" for c n
    using that by (simp add: word_of_nat_eq_iff take_bit_eq_mod)
  let ?l = "map word_of_nat [0..<k] :: u8 list"
  have set: "word_of_nat c \<in> set ?l \<and> c < 10 \<longleftrightarrow> c < k" for c
  proof
    assume c: "word_of_nat c \<in> set ?l \<and> c < 10"
    then obtain n where "(word_of_nat c :: u8) = word_of_nat n" "n < k" by auto
    then show "c < k" using inj [of c n] c k by simp
  qed (use k in auto)
  have last_set: "vht_supports tm (num_streams t - 1) c \<longleftrightarrow> c < k" for c
    using tm(2) [of "num_streams t - 1"] last by (auto simp: vht_supports_def k_def)
  have f: "sta_tx_vhtrates sta' = tm" "sta_rx_vhtrates sta' = rm" "sta_streams sta' = num_streams t"
    "rs_rates (sta_vhtrates sta') = Some ?l"
    using k assms(8) by (simp_all add: sta'_def rs_rates_def del: upt.simps)
  show ?thesis
    by (rule exI [of _ ?ok], rule exI [of _ sta'], rule exI [of _ ?l], unfold f, intro conjI)
      (use res ok tm(3) rm(3) set last_set in blast)+
qed

lemma vht_no_gap_check: "list_all (\<lambda>i. vht_supports m (Suc i) 0 \<longrightarrow> vht_supports m i 0) [0..<7] \<Longrightarrow> vht_no_gap m"
proof -
  assume c: "list_all (\<lambda>i. vht_supports m (Suc i) 0 \<longrightarrow> vht_supports m i 0) [0..<7]"
  have one: "vht_supports m i 0" if "vht_supports m (Suc i) 0" for i
    using that c by (auto simp: list_all_iff vht_supports_def)
  have "vht_supports m i 0" if "vht_supports m (i + d) 0" for i d using that by (induction d) (auto intro: one)
  then show ?thesis unfolding vht_no_gap_def by (metis less_imp_add_positive)
qed

theorem vht_rates_intersect_witness:
  "\<exists>ok sta'. wifi_mac_setup_vht_rates rate_vif_ex all_flags rate_sta_ex = Some (ok, sta') \<and> ok \<and>
    vht_supports (sta_tx_vhtrates sta') 0 8 \<and> \<not> vht_supports (sta_tx_vhtrates sta') 0 9"
proof -
  have gaps: "vht_no_gap (tx_mcs_map rate_vif_ex)" "vht_no_gap (rx_mcs_map rate_vif_ex)" "vht_no_gap (sta_rx_vhtrates rate_sta_ex)"
    "vht_no_gap (sta_tx_vhtrates rate_sta_ex)" "vht_no_gap (vm_vhtop_basic_mcs rate_vif_ex)"
    by (rule vht_no_gap_check, code_simp)+
  have use: "vht_supports (tx_mcs_map rate_vif_ex) 0 0" "vht_supports (sta_rx_vhtrates rate_sta_ex) 0 0"
    "length (dot11_rate (sta_vhtrates rate_sta_ex)) = 77" by code_simp+
  have own: "vht_supports (tx_mcs_map rate_vif_ex) 0 8" "vht_supports (sta_rx_vhtrates rate_sta_ex) 0 8"
    "\<not> vht_supports (sta_rx_vhtrates rate_sta_ex) 0 9" "vht_supports (rx_mcs_map rate_vif_ex) 0 9" "vht_supports (sta_tx_vhtrates rate_sta_ex) 0 9"
    by code_simp+
  have basic: "s = 0 \<and> c \<le> 7" if "vht_supports (vm_vhtop_basic_mcs rate_vif_ex) s c" for s c
  proof -
    have "list_all (\<lambda>s. \<not> vht_supports (vm_vhtop_basic_mcs rate_vif_ex) s 0) [1..<8]"
      "unat (drop_bit (2 * 0) (vm_vhtop_basic_mcs rate_vif_ex) AND 3) = 0" by code_simp+
    then show ?thesis using that by (cases "s = 0") (auto simp: vht_supports_def list_all_iff)
  qed
  have le: "vht_supports m 0 c" if "vht_supports m 0 d" "c \<le> d" for m c d using that by (auto simp: vht_supports_def)
  obtain ok sta' where r: "wifi_mac_setup_vht_rates rate_vif_ex all_flags rate_sta_ex = Some (ok, sta')"
    "\<And>s c. vht_supports (sta_tx_vhtrates sta') s c \<longleftrightarrow> vht_supports (tx_mcs_map rate_vif_ex) s c \<and> vht_supports (sta_rx_vhtrates rate_sta_ex) s c"
    "\<And>s c. vht_supports (sta_rx_vhtrates sta') s c \<longleftrightarrow> vht_supports (rx_mcs_map rate_vif_ex) s c \<and> vht_supports (sta_tx_vhtrates rate_sta_ex) s c"
    "ok \<longleftrightarrow> (\<forall>s c. vht_supports (vm_vhtop_basic_mcs rate_vif_ex) s c \<longrightarrow> vht_supports (sta_tx_vhtrates sta') s c \<and> vht_supports (sta_rx_vhtrates sta') s c)"
    using vht_rates_intersect [OF gaps use] by metis
  have "vht_supports (sta_tx_vhtrates sta') s c \<and> vht_supports (sta_rx_vhtrates sta') s c"
    if "vht_supports (vm_vhtop_basic_mcs rate_vif_ex) s c" for s c
    using basic [OF that] own le [of _ 8 c] le [of _ 9 c] r(2,3) by auto
  then show ?thesis using r own by blast
qed

text \<open>Marking basic rates writes within the arrays of the own rates, and reads an element that is there.\<close>

lemma check_ap_ok: "2 + n \<le> length ie \<Longrightarrow> wifi_mac_check_ap_basic_rate b ie n rs =
    Some (if n = 0 then rs else rs\<lparr>dot11_rate := mark_basic b (take n (drop 2 ie)) (dot11_rate rs)\<rparr>)"
  by (simp add: wifi_mac_check_ap_basic_rate_def)

lemma merge_rates_ok:
  assumes "length si = 59" "length ex = 59" "unat (si ! 1) \<le> 57" "unat (ex ! 1) \<le> 57"
  shows "merge_rates si ex \<noteq> None \<longleftrightarrow> unat (si ! 1) + unat (ex ! 1) \<le> 57"
    and "merge_rates si ex = Some d \<Longrightarrow> length d = 59 \<and> unat (d ! 1) = unat (si ! 1) + unat (ex ! 1)"
proof -
  have z: "unat (si ! 1) = 0" if "si ! 1 = 0" using that by simp
  show "merge_rates si ex \<noteq> None \<longleftrightarrow> unat (si ! 1) + unat (ex ! 1) \<le> 57"
    using assms z by (auto simp: merge_rates_def mem_copy_def)
  assume m: "merge_rates si ex = Some d"
  have s: "unat (ex ! 1 + si ! 1) = unat (ex ! 1) + unat (si ! 1)"
    using assms(3,4) by (intro unat_add_lem [THEN iffD1]) simp
  show "length d = 59 \<and> unat (d ! 1) = unat (si ! 1) + unat (ex ! 1)"
    using m s assms by (auto simp: merge_rates_def mem_copy_def nth_append split: if_splits)
qed

text \<open>C39: connecting to an access point of the mixed modes copies its rates behind its extended rates; the
  copy stays inside the entry of the scan exactly if both are at most 57 together, and lengthens the
  element that the next connection finds.\<close>
theorem connect_rates_fit:
  assumes "rv_sta_mode w" "WIFINET_11BGMODE (rv_mac_mode w)" "length si = 59" "length ex = 59"
    "unat (si ! 1) \<le> 57" "unat (ex ! 1) \<le> 57"
  shows "(wifi_mac_sta_set_basic_rates si ex w \<noteq> None \<longleftrightarrow> unat (si ! 1) + unat (ex ! 1) \<le> 57) \<and>
    (\<forall>w' ex'. wifi_mac_sta_set_basic_rates si ex w = Some (w', ex') \<longrightarrow>
       unat (ex' ! 1) = unat (si ! 1) + unat (ex ! 1))"
proof -
  have mode: "rv_mac_mode w \<noteq> 1" "\<not> WIFINET_11GMODE (rv_mac_mode w)"
    using assms(2) by (auto simp: WIFINET_11BGMODE_def WIFINET_11GMODE_def)
  have a: "arr si 1 = Some (si ! 1)" "arr ex 1 = Some (ex ! 1)" using assms by simp_all
  note m = merge_rates_ok [OF assms(3-6)]
  show ?thesis
  proof (cases "si ! 1 \<noteq> 0 \<or> ex ! 1 \<noteq> 0")
    case False
    then show ?thesis using assms(1,2) mode a by (simp add: wifi_mac_sta_set_basic_rates_def Let_def)
  next
    case True
    show ?thesis
    proof (cases "merge_rates si ex")
      case None
      then show ?thesis using True assms(1,2) mode a m(1) by (simp add: wifi_mac_sta_set_basic_rates_def Let_def)
    next
      case (Some d)
      have d: "length d = 59" "unat (d ! 1) = unat (si ! 1) + unat (ex ! 1)" using m(2) [OF Some] by auto
      have fit: "unat (si ! 1) + unat (ex ! 1) \<le> 57" using m(1) Some by simp
      then have "2 + unat (d ! 1) \<le> length d" using d by simp
      then show ?thesis using True assms(1,2) mode a Some d fit
        by (simp add: wifi_mac_sta_set_basic_rates_def Let_def check_ap_ok)
    qed
  qed
qed

theorem connect_rates_fit_witness:
  "wifi_mac_sta_set_basic_rates (scan_rates_ex 8) (scan_rates_ex 4) rate_vif_ex \<noteq> None
   \<and> wifi_mac_sta_set_basic_rates (scan_rates_ex 8) (scan_rates_ex 52) rate_vif_ex = None"
proof -
  have "rv_sta_mode rate_vif_ex" "WIFINET_11BGMODE (rv_mac_mode rate_vif_ex)"
    by (simp_all add: rate_vif_ex_def WIFINET_11BGMODE_def)
  note fit = connect_rates_fit [OF this scan_rates_ex(1) scan_rates_ex(1), unfolded scan_rates_ex(2)]
  show ?thesis using conjunct1 [OF fit [of 8 4]] conjunct1 [OF fit [of 8 52]]
    by (simp del: not_None_eq not_Some_eq split_paired_All split_paired_Ex)
qed

end
