(* ===== verification/Spec2Isabelle.thy ===== *)
theory Spec2Isabelle
  imports TimerRace RxCorrect TxCorrect SharedFifo WorkItem TxDescProps ReplayProps HalTxProps AmsduProps Acl RsnProps ApPowerProps RateProps
begin

text \<open>
  A verification library of the Amlogic W1U Wi-Fi driver (src/project_w1u/vmac).

  \<^bold>\<open>The program.\<close>  A frame that the network hands down passes the mac layer (wifi_mac_xmit.c,
  wifi_mac_amsdu.c), the driver layer, which keeps block-ack windows and forms A-MPDUs
  (wifi_drv_xmit.c, wifi_drv_uapsd.c), and the hal, which writes a descriptor in front of it, numbers
  and sends it and waits for the status of the firmware (wifi_hal.c, wifi_hif.c, wifi_hal_txdesc.c,
  wifi_share_fifo.c).  A frame that comes in is checked for replay (wifi_hal.c), put back into the order
  of its sequence numbers (wifi_drv_recv.c), and parsed (wifi_mac_recv.c).  Timers
  (wifi_drv_timer.c) and a queue of work (wifi_drv_if.c) run what cannot be done at once.

  \<^bold>\<open>How it is modelled.\<close>  Every component has a record for its state, and one definition for each
  function of the code, with the function's name.  A pointer to something that lives in a table is its
  key; a linked list is a list; what leaves the modelled code (a frame delivered, freed, sent, a timer
  armed) is an event of a log.  None is an access through a null pointer or outside an array, a lock
  taken twice, a failed KASSERT, which calls BUG (wifi_debug.h), or a loop that does not end; ASSERT only
  prints, so a failed one has no effect.  A C int that cannot overflow where it is used is an int or a nat; where a
  width matters, the wrap is written out or the value is a word.

  \<^bold>\<open>Theories and what they model.\<close>

    \<^item> Prelude: the machine types, the ring and sequence number macros (osdep.h, wifi_drv_main.h), the
      readers of wire formats (wifi_debug.c), and facts on lists and rings that several components use.

    \<^item> OsTimer, TimerRace: wifi_drv_timer.c.  OsTimer has the operations, the handler in two parts, up
      to the callback and from its return on, so that in the runs of the other components other
      operations come before, during and after a callback.  TimerRace interleaves a handler with a
      cancelling and a starting thread, one shared access at a time (a step relation), for any number of
      rounds: as long as no start meets a handler on its way, a cancelled timer stays cancelled once the
      cancel has returned; timer_stale_handler_race shows what happens otherwise.

    \<^item> RxReorder, RxWindow, RxMain, RxSpec, RxOrder, RxSession, RxProps, RxCorrect: wifi_drv_recv.c.  The
      reorder buffer of a traffic class, a ring of 128 places; the block-ack session that opens and
      closes it; its timer.  RxSpec states the abstract buffer (a map from sequence numbers to
      frames) that the ring implements.  The timer's handler takes three turns in the runs (expiry,
      callback, clearing of the active flag).  Properties: frames leave in order, none is lost or
      doubled, one that waits has a timer that will serve it unless it was stored behind the callback
      (rx_frame_stored_behind_callback), a session that is closed delivers what it held.

    \<^item> TxBase, TxBuild, TxSched, TxWindow, TxSession, TxQueues, TxFree, TxInv, TxCorrect:
      wifi_drv_xmit.c, wifi_drv_uapsd.c and the frame lists of wifi_pkt_desc.c.  The originator's
      window (a ring that implements a window of outstanding numbers), the forming of A-MPDUs within
      their limits, the scheduling over access categories, ADDBA exchanges, completions,
      retransmission, U-APSD service periods.  TxInv is the invariant that links traffic classes,
      access categories and hardware queues; TxCorrect runs all operations in any order, the expiry of an ADDBA
      exchange, the end of its handler and its work item being operations of their own, and shows that
      none faults and that no frame is forgotten.

    \<^item> SharedFifo: wifi_share_fifo.c.  A ring shared by blocks that hand elements on to each other;
      the locale of its interface is interpreted by the code's model, and used by WorkItem
      (wifi_drv_if.c) and by HalTx.

    \<^item> AirTime, AirTimeProps, TxDesc, TxDescProps: wifi_hal_txdesc.c.  How long a frame takes on the
      air, for every rate, compared with the exact duration; the longest aggregate of a rate; the
      descriptor that tells the hardware how to send a frame, whose fields hold what is put in.

    \<^item> ReplayCnt, ReplayProps: packet numbers and the replay window of wifi_hal.c (the compile-time
      option RX_PN_CHECK).  One counter with one window accepts each number within reach exactly once, from
      the first that arrives on; that the stations of an interface share a window is a flaw
      (stations_share_window).

    \<^item> HalTx, HalTxInv, HalTxProps: wifi_hal.c and wifi_hif.c.  Eight queues of descriptors, the
      transmit ids, the sending to the firmware and its status.  Frames are sent in order per queue,
      a completion goes back to the frame it belongs to, and every operation returns.

    \<^item> Amsdu, AmsduWire, AmsduInv, AmsduProps: wifi_mac_amsdu.c and the receiving half in
      wifi_mac_recv.c.  The wire format and its round trip; frames of a station and a class leave in
      order; limits of an aggregate; any bytes received are parsed without reading outside them.

    \<^item> Acl: wifi_mac_acl.c.  A hash table and a list that implement a set of addresses; the interface
      that hostapd's commands use is a locale, interpreted by the code.

    \<^item> RsnIe, RsnProps: the WPA, RSN, WAPI, WME and RSNX elements of wifi_mac_recv.c and
      wifi_mac_xmit.c.  Parsers stay inside the element, what is accepted shares ciphers with the own
      side, what is written is parsed back.

    \<^item> ApPower, ApPowerInv, ApPowerRun, ApBeacon, ApPowerProps: the power save of an access point
      (wifi_mac_power.c, the ids and the life of a station in wifi_mac_sta.c, drv_tx_start of
      wifi_drv_xmit.c), the traffic indication map that a beacon carries (wifi_mac_beacon.c) and its
      reader in a station (wifi_mac_recv.c).  ApPower has the operations, ApPowerInv the
      invariant that links queues, map and ids, ApPowerRun the operations in any order and the books of
      where each frame went.  Properties: a sleeping station with frames is announced, and reads it from
      the beacon; frames leave in order and none is lost or doubled.  The runs send on the
      interface's own slot; on the slot of another interface a loop does not end
      (foreign_slot_hangs).
    \<^item> RateSet, RateNego, RateProps: wifi_mac_rate.c, the rate table of wifi_drv_if.c, the writers of
      the rate elements (wifi_mac_xmit.c) and the modes of wifi_mac_if.c.  RateSet has the sets, their
      sorting and common part and the own side's rates, RateNego what a connection settles on for
      legacy, HT and VHT rates.  RateProps shows that the common set is exactly the wanted one, that
      two sides settle on the lower number of VHT indices per stream, and that everything fits its arrays.

  \<^bold>\<open>Bounds and fuel.\<close>  A loop whose end is not structural is a partial_function with option, and
  that it ends is proved with the properties that need it (slide_win and the other loops of the
  windows are bounded by the 128 places of the ring, drv_tx_sched_aggr by the frames of the queue).  The loop
  of the interrupt handler (irq_loop of HalTx) has a fuel of 256: it takes one id of the ring of
  status words each time, and the ring has 256.  The lock of OsTimer is waited for a number of rounds
  that is an argument, as in the code.

  \<^bold>\<open>Not modelled, and why.\<close>
    \<^item> Concurrency is modelled where the code's correctness rests on it (timers).  Elsewhere the
      operations of a component are atomic: the locks of the code make them so, but for the gaps in
      hal_tx_frame and in wifi_mac_txamsdu_send, between taking a frame and sending it.
    \<^item> The power save of a station (wifi_mac_power.c): sleeping, waking and the null frames
      it sends depend on timers of the firmware.  In ApPower the sending by the driver
      (drv_send and what it calls) is a parameter.
    \<^item> hal_tx_flush is an operation of the hal's runs only when no frame is queued; with frames queued it
      frees ids of other frames and gives frames two ids, and what the runs show fails behind it.
      wifi_mac_txamsdu_free_all and the flush of an access point's queues for another channel
      (wifi_mac_buffer_txq_flush) are modelled, but are not operations of the runs.
    \<^item> The branches for HAL_FPGA_VER and other options that the build files do not set, except RX_PN_CHECK.
    \<^item> Code outside these files is a parameter: the rate control's choice, the allocator, the clock,
      the firmware's answers, the look-up of a station (drv_get_sta_id).
    \<^item> cfg80211 and private ioctls, scanning, channels, P2P, the buses (SDIO, USB), the
      register maps, the firmware's commands and the production tests: they translate between the
      kernel's or the firmware's formats and hold little logic of their own, or need hardware whose
      behaviour is not in the sources.  The ciphers and hashes are standard algorithms that the driver
      carries for key set-up.
\<close>

end
